(* ===== verification/PM_Prelude.thy ===== *)
theory PM_Prelude
  imports Main "HOL-Library.Word"
begin

text \<open>
  Shared vocabulary of the development: the C integer types, the error codes of
  ESP-IDF that the firmware returns, C strings and little-endian object bytes, the
  A/B record selection that four components repeat, and the lemma collections
  (\<open>pm_defs\<close>, \<open>bytes_simps\<close>) that carry the component proofs.

  Conventions. An unsigned C integer of width \<open>w\<close> is a \<open>w word\<close>, so its arithmetic
  wraps. A signed C integer is an \<open>int\<close>; conversions to \<open>int32_t\<close> and arithmetic that can
  leave its range go through \<open>to_i32\<close>. A value of a model type stands for an object
  behind a valid pointer; a pointer argument is an \<open>option\<close> exactly where the code gives
  NULL a meaning of its own.
\<close>

unbundle bit_operations_syntax

type_synonym u8 = "8 word"
type_synonym u16 = "16 word"
type_synonym u32 = "32 word"
type_synonym u64 = "64 word"

named_theorems pm_defs "definitions of the model that proofs unfold together"
named_theorems bytes_simps "lengths and injectivity of byte encodings"

subsection \<open>Error codes\<close>

datatype esp_err =
    ESP_OK | ESP_FAIL | ESP_ERR_NO_MEM | ESP_ERR_INVALID_ARG | ESP_ERR_INVALID_STATE
  | ESP_ERR_INVALID_SIZE | ESP_ERR_NOT_FOUND | ESP_ERR_NOT_SUPPORTED | ESP_ERR_TIMEOUT
  | ESP_ERR_INVALID_RESPONSE | ESP_ERR_INVALID_CRC | ESP_ERR_INVALID_MAC
  | ESP_ERR_NVS_NOT_FOUND | ESP_ERR_NVS_INVALID_LENGTH | ESP_ERR_HTTP_INCOMPLETE_DATA
  | ESP_ERR_CODE u32

text \<open>The integer a code is stored as when it is part of a persisted record.\<close>

fun esp_err_code :: "esp_err \<Rightarrow> u32" where
  "esp_err_code ESP_OK = 0"
| "esp_err_code ESP_FAIL = - 1"
| "esp_err_code ESP_ERR_NO_MEM = 0x101"
| "esp_err_code ESP_ERR_INVALID_ARG = 0x102"
| "esp_err_code ESP_ERR_INVALID_STATE = 0x103"
| "esp_err_code ESP_ERR_INVALID_SIZE = 0x104"
| "esp_err_code ESP_ERR_NOT_FOUND = 0x105"
| "esp_err_code ESP_ERR_NOT_SUPPORTED = 0x106"
| "esp_err_code ESP_ERR_TIMEOUT = 0x107"
| "esp_err_code ESP_ERR_INVALID_RESPONSE = 0x108"
| "esp_err_code ESP_ERR_INVALID_CRC = 0x109"
| "esp_err_code ESP_ERR_INVALID_MAC = 0x10B"
| "esp_err_code ESP_ERR_NVS_NOT_FOUND = 0x1102"
| "esp_err_code ESP_ERR_NVS_INVALID_LENGTH = 0x110C"
| "esp_err_code ESP_ERR_HTTP_INCOMPLETE_DATA = 0x700C"
| "esp_err_code (ESP_ERR_CODE c) = c"

text \<open>The idiom \<open>if (error == ESP_OK) error = f (...)\<close>, threading a state.\<close>

definition ok_then :: "esp_err \<times> 's \<Rightarrow> ('s \<Rightarrow> esp_err \<times> 's) \<Rightarrow> esp_err \<times> 's" where
  "ok_then r f = (if fst r = ESP_OK then f (snd r) else r)"

lemma ok_then_simps [simp]:
  "ok_then (ESP_OK, s) f = f s"
  "e \<noteq> ESP_OK \<Longrightarrow> ok_then (e, s) f = (e, s)"
  by (simp_all add: ok_then_def)

subsection \<open>Signed conversions and C division\<close>

definition to_i32 :: "int \<Rightarrow> int" where
  "to_i32 x = signed_take_bit 31 x"

definition c_div :: "int \<Rightarrow> int \<Rightarrow> int" where
  "c_div a b = sgn a * sgn b * (\<bar>a\<bar> div \<bar>b\<bar>)"

definition INT64_MAX :: int where
  "INT64_MAX = 9223372036854775807"

lemma to_i32_id: "- (2 ^ 31) \<le> x \<Longrightarrow> x < 2 ^ 31 \<Longrightarrow> to_i32 x = x"
  by (simp add: to_i32_def signed_take_bit_int_eq_self_iff)

lemma to_i32_id_nonneg: "0 \<le> x \<Longrightarrow> x < 2147483648 \<Longrightarrow> to_i32 x = x"
  by (rule to_i32_id) simp_all

lemma to_i32_within:
  fixes w :: u32
  assumes "0 \<le> b" "b < 2 ^ 31"
  shows "0 \<le> to_i32 (uint w) \<and> to_i32 (uint w) \<le> b \<longleftrightarrow> uint w \<le> b"
proof (cases "uint w < 2 ^ 31")
  case True
  then show ?thesis by (simp add: to_i32_id_nonneg)
next
  case False
  have "uint w < 2 ^ 32" using uint_lt2p [of w] by simp
  with False have "uint w div 2 ^ 31 = 1" by (simp add: div_pos_geq div_pos_pos_trivial)
  then have "to_i32 (uint w) < 0" by (simp add: to_i32_def signed_take_bit_negative_iff bit_iff_odd)
  with False assms show ?thesis by auto
qed

lemma to_i32_range: "- (2 ^ 31) \<le> to_i32 x \<and> to_i32 x < 2 ^ 31"
  unfolding to_i32_def
  using signed_take_bit_int_greater_eq_minus_exp [of 31 x] signed_take_bit_int_less_exp [of 31 x]
  by simp

lemma c_div_nonneg: "0 \<le> a \<Longrightarrow> 0 < b \<Longrightarrow> c_div a b = a div b"
  by (cases "a = 0") (auto simp: c_div_def)

lemma c_div_mono:
  assumes "a \<le> a'" "0 < b"
  shows "c_div a b \<le> c_div a' b"
proof (cases "0 \<le> a")
  case True
  with assms show ?thesis by (simp add: c_div_nonneg zdiv_mono1)
next
  case False
  have "- (- a div b) \<le> (if 0 \<le> a' then a' div b else - (- a' div b))"
  proof (cases "0 \<le> a'")
    case True
    with False assms have "0 \<le> a' div b" "0 \<le> - a div b"
      by (auto intro: pos_imp_zdiv_nonneg_iff [THEN iffD2])
    with True show ?thesis by simp
  next
    case False
    with assms show ?thesis by (simp add: zdiv_mono1)
  qed
  with False assms show ?thesis
    by (cases "a' = 0") (auto simp: c_div_def sgn_if)
qed

subsection \<open>C strings and object bytes\<close>

text \<open>
  A \<open>char\<close> array is the list of its elements. \<open>cstr\<close> is what the string functions of C
  see of it: the part before the first NUL. \<open>store_str n s\<close> is the array of size \<open>n\<close>
  after \<open>snprintf (dst, n, "%s", s)\<close> into a zeroed object.
\<close>

abbreviation NUL :: char where
  "NUL \<equiv> CHR 0x00"

definition cstr :: "char list \<Rightarrow> string" where
  "cstr a = takeWhile (\<lambda>c. c \<noteq> NUL) a"

definition nul_terminated :: "char list \<Rightarrow> bool" where
  "nul_terminated a \<longleftrightarrow> NUL \<in> set a"

definition store_str :: "nat \<Rightarrow> string \<Rightarrow> char list" where
  "store_str n s = take (n - 1) (cstr s) @ replicate (n - min (n - 1) (length (cstr s))) NUL"

definition chars_bytes :: "char list \<Rightarrow> u8 list" where
  "chars_bytes cs = map of_char cs"

definition le_bytes :: "nat \<Rightarrow> 'a::len word \<Rightarrow> u8 list" where
  "le_bytes n w = map (\<lambda>i. ucast (drop_bit (8 * i) w)) [0..<n]"

text \<open>The inverse loop: \<open>value |= buffer[i] << 8 * i\<close> for \<open>i < n\<close>.\<close>

definition get_le :: "nat \<Rightarrow> u8 list \<Rightarrow> 'a::len word" where
  "get_le n bs = foldl (\<lambda>v i. v OR push_bit (8 * i) (ucast (bs ! i))) 0 [0..<n]"

definition pad :: "nat \<Rightarrow> u8 list" where
  "pad n = replicate n 0"

definition bool_byte :: "bool \<Rightarrow> u8 list" where
  "bool_byte b = [if b then 1 else 0]"

lemma cstr_no_NUL: "NUL \<notin> set (cstr a)"
  unfolding cstr_def by (metis (mono_tags, lifting) set_takeWhileD)

lemma cstr_id: "NUL \<notin> set s \<Longrightarrow> cstr s = s"
  unfolding cstr_def by (rule takeWhile_eq_all_conv [THEN iffD2]) auto

lemma cstr_idem [simp]: "cstr (cstr a) = cstr a"
  by (simp add: cstr_id cstr_no_NUL)

lemma cstr_append_NUL:
  "NUL \<notin> set s \<Longrightarrow> 0 < n \<Longrightarrow> cstr (s @ replicate n NUL) = s"
  unfolding cstr_def by (subst takeWhile_append2) (auto simp: gr0_conv_Suc)

lemma length_store_str [bytes_simps]: "0 < n \<Longrightarrow> length (store_str n s) = n"
  by (simp add: store_str_def)

lemma cstr_store_str:
  assumes "0 < n"
  shows "cstr (store_str n s) = take (n - 1) (cstr s)"
proof -
  have "NUL \<notin> set (take (n - 1) (cstr s))"
    using cstr_no_NUL [of s] by (meson in_set_takeD)
  moreover have "0 < n - min (n - 1) (length (cstr s))"
    using assms by simp
  ultimately show ?thesis
    unfolding store_str_def by (rule cstr_append_NUL)
qed

lemma nul_terminated_store_str: "0 < n \<Longrightarrow> nul_terminated (store_str n s)"
  by (auto simp: nul_terminated_def store_str_def)

lemma length_chars_bytes [simp, bytes_simps]: "length (chars_bytes cs) = length cs"
  by (simp add: chars_bytes_def)

lemma length_le_bytes [simp, bytes_simps]: "length (le_bytes n w) = n"
  by (simp add: le_bytes_def)

lemma length_pad [simp, bytes_simps]: "length (pad n) = n"
  by (simp add: pad_def)

lemma length_bool_byte [simp, bytes_simps]: "length (bool_byte b) = 1"
  by (simp add: bool_byte_def)

lemma bit_get_le:
  "bit (get_le n bs :: 'a::len word) k \<longleftrightarrow>
     k < LENGTH('a) \<and> k div 8 < n \<and> bit (bs ! (k div 8)) (k mod 8)"
proof (induction n)
  case 0
  then show ?case by (simp add: get_le_def)
next
  case (Suc n)
  have "bit (push_bit (8 * n) (ucast (bs ! n) :: 'a word)) k \<longleftrightarrow>
      k < LENGTH('a) \<and> k div 8 = n \<and> bit (bs ! n) (k mod 8)"
  proof (cases "8 * n \<le> k \<and> k < 8 * n + 8")
    case True
    then have "k div 8 = n" "k mod 8 = k - 8 * n"
      by (auto simp: div_nat_eqI minus_mult_div_eq_mod [symmetric])
    with True show ?thesis
      by (auto simp: bit_push_bit_iff bit_ucast_iff)
  next
    case False
    then have "k div 8 \<noteq> n" by auto
    moreover have "\<not> bit (bs ! n) (k - 8 * n)" if "8 * n \<le> k"
      using False that bit_imp_le_length [of "bs ! n" "k - 8 * n"] by auto
    ultimately show ?thesis
      by (auto simp: bit_push_bit_iff bit_ucast_iff)
  qed
  with Suc show ?case
    by (auto simp: get_le_def bit_or_iff less_Suc_eq)
qed

lemma bit_le_bytes: "i < n \<Longrightarrow> j < 8 \<Longrightarrow> bit (le_bytes n w ! i) j = bit w (8 * i + j)"
  for w :: "'a::len word"
  by (auto simp: le_bytes_def bit_ucast_iff bit_drop_bit_eq add.commute)

lemma get_le_le_bytes:
  assumes "LENGTH('a::len) \<le> 8 * n"
  shows "get_le n (le_bytes n w) = (w :: 'a word)"
proof (rule bit_word_eqI)
  fix k assume k: "k < LENGTH('a)"
  with assms have "k div 8 < n" by auto
  moreover have "8 * (k div 8) + k mod 8 = k" by simp
  ultimately show "bit (get_le n (le_bytes n w) :: 'a word) k = bit w k"
    using k by (simp add: bit_get_le bit_le_bytes)
qed

lemma get_le_cong:
  "(\<And>i. i < n \<Longrightarrow> xs ! i = ys ! i) \<Longrightarrow> get_le n xs = (get_le n ys :: 'a::len word)"
  by (rule bit_word_eqI) (auto simp: bit_get_le)

subsection \<open>Selecting the newer of two generations\<close>

text \<open>
  The expression \<open>valid_a \<and> (\<not> valid_b \<or> gen_a \<ge> gen_b) ? a : b\<close> of every A/B loader.
\<close>

definition select_a :: "bool \<Rightarrow> bool \<Rightarrow> 'g::linorder \<Rightarrow> 'g \<Rightarrow> bool" where
  "select_a valid_a valid_b gen_a gen_b \<longleftrightarrow> valid_a \<and> (\<not> valid_b \<or> gen_b \<le> gen_a)"

lemma select_a_valid:
  "valid_a \<or> valid_b \<Longrightarrow> if select_a valid_a valid_b ga gb then valid_a else valid_b"
  by (auto simp: select_a_def)

lemma select_a_newest:
  "valid_a \<Longrightarrow> valid_b \<Longrightarrow> (if select_a valid_a valid_b ga gb then ga else gb) = max ga gb"
  by (auto simp: select_a_def max_def)

subsection \<open>Words\<close>

lemma unat_max [simp]:
  "unat (- 1 :: u64) = 18446744073709551615" "unat (- 1 :: u32) = 4294967295"
  by (simp_all add: unsigned_minus_1_eq_mask mask_eq_exp_minus_1)

lemma unat_u64_less: "unat x < 18446744073709551616" for x :: u64
  using unsigned_less [of x, where 'a = nat] by simp

lemma unat_u32_less: "unat x < 4294967296" for x :: u32
  using unsigned_less [of x, where 'a = nat] by simp

lemma unat_Suc_word: "x \<noteq> - 1 \<Longrightarrow> unat (x + 1) = Suc (unat x)" for x :: "'a::len word"
  by (metis add.commute add_diff_cancel_left' diff_0 unatSuc)

lemma word_Suc_gt: "x \<noteq> - 1 \<Longrightarrow> x < x + 1" for x :: "'a::len word"
  by (simp add: word_less_nat_alt unat_Suc_word)

end
