(* ===== verification/PM_State.thy ===== *)
theory PM_State
  imports PM_Prelude
begin

text \<open>
  components/pm_config/pm_state.c: the operating state of the device. The transition function
  is modelled as written, one equation per event; \<open>state_step\<close> and \<open>reachable\<close> are the
  behaviours of a machine that starts in \<open>pm_state_init\<close> and receives arbitrary events.
\<close>

subsection \<open>Data\<close>

text \<open>The \<open>RAW\<close> constructors stand for values outside the enumerations.\<close>

datatype pm_operating_state =
    PM_STATE_BOOT | PM_STATE_SELF_TEST | PM_STATE_UNPROVISIONED_COM | PM_STATE_CONNECTING_WIFI
  | PM_STATE_ENROLLING | PM_STATE_RUNNING | PM_STATE_DEGRADED_NETWORK | PM_STATE_DEGRADED_SERVER
  | PM_STATE_DEGRADED_METER | PM_STATE_OTA_PENDING | PM_STATE_OTA_INSTALLING | PM_STATE_RECOVERY_COM
  | PM_STATE_SAFE_REBOOT | PM_STATE_RAW u32

datatype pm_state_event =
    PM_EVENT_BOOTSTRAP | PM_EVENT_SELF_TEST_OK | PM_EVENT_SELF_TEST_FAILED | PM_EVENT_CONFIG_MISSING
  | PM_EVENT_CONFIG_VALID | PM_EVENT_WIFI_CONNECTED | PM_EVENT_WIFI_FAILED | PM_EVENT_ENROLLMENT_REQUIRED
  | PM_EVENT_ENROLLED | PM_EVENT_SERVER_FAILED | PM_EVENT_SERVER_RECOVERED | PM_EVENT_METER_FAILED
  | PM_EVENT_METER_RECOVERED | PM_EVENT_OTA_AVAILABLE | PM_EVENT_OTA_STARTED | PM_EVENT_OTA_FINISHED
  | PM_EVENT_PHYSICAL_RECOVERY | PM_EVENT_SAFE_REBOOT | PM_EVENT_RAW u32

datatype pm_health_flag =
  PM_HEALTH_NETWORK | PM_HEALTH_SERVER | PM_HEALTH_METER | PM_HEALTH_TIME

record pm_state_machine =
  op_state :: pm_operating_state
  health_flags :: u32
  transition_count :: u32
  entered_monotonic_us :: int

fun health_bit :: "pm_health_flag \<Rightarrow> nat" where
  "health_bit PM_HEALTH_NETWORK = 0"
| "health_bit PM_HEALTH_SERVER = 1"
| "health_bit PM_HEALTH_METER = 2"
| "health_bit PM_HEALTH_TIME = 3"

fun is_raw_state :: "pm_operating_state \<Rightarrow> bool" where
  "is_raw_state (PM_STATE_RAW _) = True"
| "is_raw_state _ = False"

subsection \<open>Operations\<close>

definition transition_to ::
    "pm_state_machine \<Rightarrow> pm_operating_state \<Rightarrow> int \<Rightarrow> bool \<times> pm_state_machine" where
  "transition_to m nxt now_us =
     (if is_raw_state nxt then (False, m)
      else if op_state m \<noteq> nxt
      then (True, m\<lparr>op_state := nxt, transition_count := transition_count m + 1,
                    entered_monotonic_us := now_us\<rparr>)
      else (True, m))"

definition pm_state_init :: "int \<Rightarrow> pm_state_machine" where
  "pm_state_init now_us = \<lparr>op_state = PM_STATE_BOOT, health_flags = 0, transition_count = 0,
     entered_monotonic_us = now_us\<rparr>"

text \<open>The expression \<open>guard && transition_to (machine, next, now_us)\<close>.\<close>

definition guarded_transition ::
    "bool \<Rightarrow> pm_state_machine \<Rightarrow> pm_operating_state \<Rightarrow> int \<Rightarrow> bool \<times> pm_state_machine" where
  "guarded_transition g m nxt now_us = (if g then transition_to m nxt now_us else (False, m))"

fun pm_state_transition ::
    "pm_state_machine \<Rightarrow> pm_state_event \<Rightarrow> int \<Rightarrow> bool \<times> pm_state_machine" where
  "pm_state_transition m PM_EVENT_BOOTSTRAP t =
     guarded_transition (op_state m = PM_STATE_BOOT) m PM_STATE_SELF_TEST t"
| "pm_state_transition m PM_EVENT_SELF_TEST_OK t =
     guarded_transition (op_state m = PM_STATE_SELF_TEST) m PM_STATE_CONNECTING_WIFI t"
| "pm_state_transition m PM_EVENT_SELF_TEST_FAILED t =
     guarded_transition (op_state m = PM_STATE_SELF_TEST) m PM_STATE_RECOVERY_COM t"
| "pm_state_transition m PM_EVENT_CONFIG_MISSING t =
     guarded_transition (op_state m = PM_STATE_BOOT \<or> op_state m = PM_STATE_SELF_TEST)
       m PM_STATE_UNPROVISIONED_COM t"
| "pm_state_transition m PM_EVENT_CONFIG_VALID t =
     guarded_transition (op_state m = PM_STATE_BOOT \<or> op_state m = PM_STATE_SELF_TEST \<or>
         op_state m = PM_STATE_RECOVERY_COM \<or> op_state m = PM_STATE_UNPROVISIONED_COM)
       m PM_STATE_CONNECTING_WIFI t"
| "pm_state_transition m PM_EVENT_WIFI_CONNECTED t =
     guarded_transition (op_state m = PM_STATE_CONNECTING_WIFI \<or> op_state m = PM_STATE_DEGRADED_NETWORK)
       m PM_STATE_RUNNING t"
| "pm_state_transition m PM_EVENT_WIFI_FAILED t = transition_to m PM_STATE_DEGRADED_NETWORK t"
| "pm_state_transition m PM_EVENT_ENROLLMENT_REQUIRED t = transition_to m PM_STATE_ENROLLING t"
| "pm_state_transition m PM_EVENT_ENROLLED t =
     guarded_transition (op_state m = PM_STATE_ENROLLING) m PM_STATE_RUNNING t"
| "pm_state_transition m PM_EVENT_SERVER_FAILED t = transition_to m PM_STATE_DEGRADED_SERVER t"
| "pm_state_transition m PM_EVENT_SERVER_RECOVERED t = transition_to m PM_STATE_RUNNING t"
| "pm_state_transition m PM_EVENT_METER_RECOVERED t = transition_to m PM_STATE_RUNNING t"
| "pm_state_transition m PM_EVENT_METER_FAILED t = transition_to m PM_STATE_DEGRADED_METER t"
| "pm_state_transition m PM_EVENT_OTA_AVAILABLE t = transition_to m PM_STATE_OTA_PENDING t"
| "pm_state_transition m PM_EVENT_OTA_STARTED t =
     guarded_transition (op_state m = PM_STATE_OTA_PENDING) m PM_STATE_OTA_INSTALLING t"
| "pm_state_transition m PM_EVENT_OTA_FINISHED t =
     guarded_transition (op_state m = PM_STATE_OTA_INSTALLING) m PM_STATE_SAFE_REBOOT t"
| "pm_state_transition m PM_EVENT_PHYSICAL_RECOVERY t = transition_to m PM_STATE_RECOVERY_COM t"
| "pm_state_transition m PM_EVENT_SAFE_REBOOT t = transition_to m PM_STATE_SAFE_REBOOT t"
| "pm_state_transition m (PM_EVENT_RAW _) t = (False, m)"

definition pm_state_health_set ::
    "pm_state_machine \<Rightarrow> pm_health_flag \<Rightarrow> bool \<Rightarrow> pm_state_machine" where
  "pm_state_health_set m flag healthy =
     m\<lparr>health_flags := (if healthy then health_flags m OR push_bit (health_bit flag) 1
                        else health_flags m AND NOT (push_bit (health_bit flag) 1))\<rparr>"

fun pm_state_name :: "pm_operating_state \<Rightarrow> string" where
  "pm_state_name PM_STATE_BOOT = ''BOOT''"
| "pm_state_name PM_STATE_SELF_TEST = ''SELF_TEST''"
| "pm_state_name PM_STATE_UNPROVISIONED_COM = ''UNPROVISIONED_COM''"
| "pm_state_name PM_STATE_CONNECTING_WIFI = ''CONNECTING_WIFI''"
| "pm_state_name PM_STATE_ENROLLING = ''ENROLLING''"
| "pm_state_name PM_STATE_RUNNING = ''RUNNING''"
| "pm_state_name PM_STATE_DEGRADED_NETWORK = ''DEGRADED_NETWORK''"
| "pm_state_name PM_STATE_DEGRADED_SERVER = ''DEGRADED_SERVER''"
| "pm_state_name PM_STATE_DEGRADED_METER = ''DEGRADED_METER''"
| "pm_state_name PM_STATE_OTA_PENDING = ''OTA_PENDING''"
| "pm_state_name PM_STATE_OTA_INSTALLING = ''OTA_INSTALLING''"
| "pm_state_name PM_STATE_RECOVERY_COM = ''RECOVERY_COM''"
| "pm_state_name PM_STATE_SAFE_REBOOT = ''SAFE_REBOOT''"
| "pm_state_name (PM_STATE_RAW _) = ''INVALID''"

subsection \<open>Behaviours\<close>

inductive state_step :: "pm_state_machine \<Rightarrow> pm_state_machine \<Rightarrow> bool" where
  event: "pm_state_transition m ev t = (True, m') \<Longrightarrow> state_step m m'"
| health: "state_step m (pm_state_health_set m flag healthy)"

text \<open>\<open>reachable t0 m k\<close>: a machine booted at \<open>t0\<close> can be \<open>m\<close> after \<open>k\<close> changes of state.\<close>

inductive reachable :: "int \<Rightarrow> pm_state_machine \<Rightarrow> nat \<Rightarrow> bool" for t0 :: int where
  init: "reachable t0 (pm_state_init t0) 0"
| step: "reachable t0 m k \<Longrightarrow> state_step m m' \<Longrightarrow>
     reachable t0 m' (if op_state m' = op_state m then k else Suc k)"

lemma transition_to_cases:
  "\<not> is_raw_state nxt \<Longrightarrow> transition_to m nxt t = (b, m') \<Longrightarrow>
     b \<and> op_state m' = nxt \<and> health_flags m' = health_flags m \<and>
     transition_count m' = transition_count m + (if nxt = op_state m then 0 else 1)"
  by (auto simp: transition_to_def split: if_splits)

lemma refused_unchanged: "pm_state_transition m ev t = (False, m') \<Longrightarrow> m' = m"
  by (cases ev) (auto simp: guarded_transition_def transition_to_def split: if_splits)

text \<open>What every accepted event does.\<close>

lemma accepted_transition:
  assumes "pm_state_transition m ev t = (True, m')"
  shows "\<not> is_raw_state (op_state m') \<and> op_state m' \<noteq> PM_STATE_BOOT \<and>
    transition_count m' = transition_count m + (if op_state m' = op_state m then 0 else 1) \<and>
    health_flags m' = health_flags m \<and>
    (op_state m' = PM_STATE_OTA_INSTALLING \<longrightarrow> op_state m = PM_STATE_OTA_PENDING) \<and>
    (op_state m' = PM_STATE_SELF_TEST \<longrightarrow> op_state m = PM_STATE_BOOT)"
  using assms
  by (cases ev) (auto simp: guarded_transition_def dest!: transition_to_cases [rotated] split: if_splits)

lemma health_set_simps [simp]:
  "op_state (pm_state_health_set m f h) = op_state m"
  "transition_count (pm_state_health_set m f h) = transition_count m"
  "entered_monotonic_us (pm_state_health_set m f h) = entered_monotonic_us m"
  by (simp_all add: pm_state_health_set_def)

text \<open>
  Every behaviour of the state machine: the state always has a name of its own, the
  transition counter counts the changes of state (modulo 2^32), the machine is in BOOT
  exactly as long as nothing changed, so BOOT is never entered again, an OTA installation
  is entered only from OTA_PENDING and the self test only from BOOT.
\<close>

theorem state_machine_behaviour:
  assumes "reachable t0 m k"
  shows "pm_state_name (op_state m) \<noteq> ''INVALID'' \<and> transition_count m = of_nat k \<and>
    (op_state m = PM_STATE_BOOT \<longleftrightarrow> k = 0) \<and>
    (\<forall>ev t m'. pm_state_transition m ev t = (True, m') \<longrightarrow>
       (op_state m' = PM_STATE_OTA_INSTALLING \<longrightarrow> op_state m = PM_STATE_OTA_PENDING) \<and>
       (op_state m' = PM_STATE_SELF_TEST \<longrightarrow> op_state m = PM_STATE_BOOT))"
proof -
  have inv: "\<not> is_raw_state (op_state m) \<and> transition_count m = of_nat k \<and>
      (op_state m = PM_STATE_BOOT \<longleftrightarrow> k = 0)"
    using assms
  proof (induction rule: reachable.induct)
    case init
    then show ?case by (simp add: pm_state_init_def)
  next
    case (step m k m')
    from \<open>state_step m m'\<close> show ?case
    proof (cases rule: state_step.cases)
      case (event ev t)
      from accepted_transition [OF event] step.IH show ?thesis by auto
    next
      case (health flag healthy)
      with step.IH show ?thesis by simp
    qed
  qed
  then have "pm_state_name (op_state m) \<noteq> ''INVALID''"
    by (cases "op_state m") auto
  with inv accepted_transition show ?thesis by blast
qed

theorem state_machine_behaviour_witness:
  "\<exists>m. reachable 0 m 2 \<and> op_state m = PM_STATE_CONNECTING_WIFI \<and> transition_count m = 2"
proof -
  let ?m1 = "\<lparr>op_state = PM_STATE_SELF_TEST, health_flags = 0, transition_count = 1,
    entered_monotonic_us = 5\<rparr>"
  let ?m2 = "\<lparr>op_state = PM_STATE_CONNECTING_WIFI, health_flags = 0, transition_count = 2,
    entered_monotonic_us = 9\<rparr>"
  have "state_step (pm_state_init 0) ?m1"
    by (rule state_step.event [of _ PM_EVENT_BOOTSTRAP 5])
       (simp add: pm_state_init_def guarded_transition_def transition_to_def)
  moreover have "state_step ?m1 ?m2"
    by (rule state_step.event [of _ PM_EVENT_SELF_TEST_OK 9])
       (simp add: guarded_transition_def transition_to_def)
  ultimately have "reachable 0 ?m2 2"
    using reachable.step [OF reachable.step [OF reachable.init]]
    by (fastforce simp: pm_state_init_def numeral_2_eq_2)
  then show ?thesis
    using state_machine_behaviour [of 0 ?m2 2] by (intro exI [of _ ?m2]) simp
qed

text \<open>
  Health flags are independent: setting one flag makes exactly that flag what was asked
  for, keeps every other flag and the operating state.
\<close>

theorem health_flags_independent:
  "let m' = pm_state_health_set m f h in
     bit (health_flags m') (health_bit f) = h \<and>
     (g \<noteq> f \<longrightarrow> bit (health_flags m') (health_bit g) = bit (health_flags m) (health_bit g)) \<and>
     op_state m' = op_state m \<and> transition_count m' = transition_count m"
  by (cases f; cases g)
     (auto simp: pm_state_health_set_def bit_or_iff bit_and_iff bit_not_iff bit_push_bit_iff Let_def
       bit_1_iff)

theorem health_flags_independent_witness:
  "PM_HEALTH_METER \<noteq> PM_HEALTH_TIME \<and>
   bit (health_flags (pm_state_health_set (pm_state_init 0) PM_HEALTH_TIME True)) (health_bit PM_HEALTH_TIME) \<and>
   \<not> bit (health_flags (pm_state_health_set (pm_state_init 0) PM_HEALTH_TIME True)) (health_bit PM_HEALTH_METER)"
  using health_flags_independent [of "pm_state_init 0" PM_HEALTH_TIME True PM_HEALTH_METER]
  by (simp add: Let_def pm_state_init_def)

text \<open>
  The recovery events are unguarded: from every state, an installation in progress and
  the pending reboot included, a meter or server recovery puts the device in RUNNING.
\<close>

lemma recovery_overrides_every_state:
  "op_state (snd (pm_state_transition m PM_EVENT_METER_RECOVERED t)) = PM_STATE_RUNNING \<and>
   op_state (snd (pm_state_transition m PM_EVENT_SERVER_RECOVERED t)) = PM_STATE_RUNNING \<and>
   fst (pm_state_transition m PM_EVENT_METER_RECOVERED t)"
  by (simp add: transition_to_def)

end
