(* ===== verification/PM_Nvs.thy ===== *)
theory PM_Nvs
  imports PM_Prelude
begin

text \<open>
  The non-volatile storage of ESP-IDF as the firmware uses it: one namespace with typed
  blobs and bytes under string keys. \<open>faults\<close> is the outcome the environment has chosen for
  each of the coming calls, in order: a call that meets an entry other than \<open>ESP_OK\<close> returns it
  and changes nothing, a call past the end of the list succeeds. A list that fails every call
  from some point on is a reset at that point, so a statement about every \<open>faults\<close> covers power
  loss between any two calls. NVS writes one entry atomically, as its documentation says.

  A blob of the size of the expected struct is a value of the struct's type; a shorter one
  reads as its prefix over a zeroed object and reports its size; a longer one is refused by
  \<open>nvs_get_blob\<close>.

  The second half is the A/B record scheme shared by the command ledger, the OTA checkpoint
  and the time checkpoint: the locale \<open>ab_slots\<close>.
\<close>

subsection \<open>A namespace and its calls\<close>

datatype 'a blob = Blob 'a | Short_Blob nat 'a | Long_Blob

record 'a nvs =
  blobs :: "string \<Rightarrow> 'a blob option"
  u8s :: "string \<Rightarrow> u8 option"
  faults :: "esp_err list"

datatype 'a blob_read = Read_Err esp_err | Read_Full 'a | Read_Short nat 'a

fun nvs_tick :: "'a nvs \<Rightarrow> esp_err \<times> 'a nvs" where
  "nvs_tick s = (case faults s of [] \<Rightarrow> (ESP_OK, s) | e # es \<Rightarrow> (e, s\<lparr>faults := es\<rparr>))"

declare nvs_tick.simps [simp del]

definition nvs_open :: "'a nvs \<Rightarrow> esp_err \<times> 'a nvs" where
  "nvs_open s = nvs_tick s"

definition nvs_commit :: "'a nvs \<Rightarrow> esp_err \<times> 'a nvs" where
  "nvs_commit s = nvs_tick s"

definition nvs_get_blob :: "string \<Rightarrow> 'a nvs \<Rightarrow> 'a blob_read \<times> 'a nvs" where
  "nvs_get_blob key s = (case nvs_tick s of (e, s') \<Rightarrow>
     (if e \<noteq> ESP_OK then Read_Err e
      else case blobs s key of
        None \<Rightarrow> Read_Err ESP_ERR_NVS_NOT_FOUND
      | Some (Blob v) \<Rightarrow> Read_Full v
      | Some (Short_Blob n v) \<Rightarrow> Read_Short n v
      | Some Long_Blob \<Rightarrow> Read_Err ESP_ERR_NVS_INVALID_LENGTH, s'))"

definition nvs_set_blob :: "string \<Rightarrow> 'a \<Rightarrow> 'a nvs \<Rightarrow> esp_err \<times> 'a nvs" where
  "nvs_set_blob key v s = (case nvs_tick s of (e, s') \<Rightarrow>
     (e, if e = ESP_OK then s'\<lparr>blobs := (blobs s')(key \<mapsto> Blob v)\<rparr> else s'))"

definition nvs_get_u8 :: "string \<Rightarrow> 'a nvs \<Rightarrow> (esp_err + u8) \<times> 'a nvs" where
  "nvs_get_u8 key s = (case nvs_tick s of (e, s') \<Rightarrow>
     (if e \<noteq> ESP_OK then Inl e
      else case u8s s key of None \<Rightarrow> Inl ESP_ERR_NVS_NOT_FOUND | Some v \<Rightarrow> Inr v, s'))"

definition nvs_set_u8 :: "string \<Rightarrow> u8 \<Rightarrow> 'a nvs \<Rightarrow> esp_err \<times> 'a nvs" where
  "nvs_set_u8 key v s = (case nvs_tick s of (e, s') \<Rightarrow>
     (e, if e = ESP_OK then s'\<lparr>u8s := (u8s s')(key \<mapsto> v)\<rparr> else s'))"

definition nvs_erase_key :: "string \<Rightarrow> 'a nvs \<Rightarrow> esp_err \<times> 'a nvs" where
  "nvs_erase_key key s = (case nvs_tick s of (e, s') \<Rightarrow>
     if e \<noteq> ESP_OK then (e, s')
     else if blobs s key = None \<and> u8s s key = None then (ESP_ERR_NVS_NOT_FOUND, s')
     else (ESP_OK, s'\<lparr>blobs := (blobs s')(key := None), u8s := (u8s s')(key := None)\<rparr>))"

text \<open>
  What a namespace holds, apart from the schedule of faults, and the same namespace after a
  restart in which no call fails.
\<close>

definition nvs_store :: "'a nvs \<Rightarrow> (string \<Rightarrow> 'a blob option) \<times> (string \<Rightarrow> u8 option)" where
  "nvs_store s = (blobs s, u8s s)"

definition reboot :: "'a nvs \<Rightarrow> 'a nvs" where
  "reboot s = s\<lparr>faults := []\<rparr>"

named_theorems nvs_simps "what the storage calls do to the store"

lemma nvs_tick_store [nvs_simps]:
  "blobs (snd (nvs_tick s)) = blobs s" "u8s (snd (nvs_tick s)) = u8s s"
  by (simp_all add: nvs_tick.simps split: list.split)

lemma nvs_read_store [nvs_simps]:
  "blobs (snd (nvs_open s)) = blobs s" "u8s (snd (nvs_open s)) = u8s s"
  "blobs (snd (nvs_commit s)) = blobs s" "u8s (snd (nvs_commit s)) = u8s s"
  "blobs (snd (nvs_get_blob k s)) = blobs s" "u8s (snd (nvs_get_blob k s)) = u8s s"
  "blobs (snd (nvs_get_u8 k s)) = blobs s" "u8s (snd (nvs_get_u8 k s)) = u8s s"
  using nvs_tick_store [of s]
  by (cases "nvs_tick s"; simp add: nvs_open_def nvs_commit_def nvs_get_blob_def nvs_get_u8_def)+

lemma nvs_read_eq:
  "nvs_open s = (e, s') \<Longrightarrow> blobs s' = blobs s \<and> u8s s' = u8s s"
  "nvs_commit s = (e, s') \<Longrightarrow> blobs s' = blobs s \<and> u8s s' = u8s s"
  "nvs_get_blob k s = (r, s') \<Longrightarrow> blobs s' = blobs s \<and> u8s s' = u8s s"
  "nvs_get_u8 k s = (b, s') \<Longrightarrow> blobs s' = blobs s \<and> u8s s' = u8s s"
  by (metis nvs_read_store snd_conv)+

lemma nvs_write_store [nvs_simps]:
  "blobs (snd (nvs_set_blob k v s)) =
     (if fst (nvs_set_blob k v s) = ESP_OK then (blobs s)(k \<mapsto> Blob v) else blobs s)"
  "u8s (snd (nvs_set_blob k v s)) = u8s s"
  "blobs (snd (nvs_set_u8 k b s)) = blobs s"
  "u8s (snd (nvs_set_u8 k b s)) =
     (if fst (nvs_set_u8 k b s) = ESP_OK then (u8s s)(k \<mapsto> b) else u8s s)"
  "blobs (snd (nvs_erase_key k s)) =
     (if fst (nvs_erase_key k s) = ESP_OK then (blobs s)(k := None) else blobs s)"
  "u8s (snd (nvs_erase_key k s)) =
     (if fst (nvs_erase_key k s) = ESP_OK then (u8s s)(k := None) else u8s s)"
  using nvs_tick_store [of s]
  by (auto simp: nvs_set_blob_def nvs_set_u8_def nvs_erase_key_def split: prod.split)

lemma nvs_write_eq:
  "nvs_set_blob k v s = (e, s') \<Longrightarrow> u8s s' = u8s s \<and>
     blobs s' = (if e = ESP_OK then (blobs s)(k \<mapsto> Blob v) else blobs s)"
  "nvs_set_u8 k b s = (e, s') \<Longrightarrow> blobs s' = blobs s \<and>
     u8s s' = (if e = ESP_OK then (u8s s)(k \<mapsto> b) else u8s s)"
  using nvs_write_store(1-4) [of _ _ s] by (metis fst_conv snd_conv)+

lemma nvs_get_blob_ok:
  "fst (nvs_get_blob k s) = Read_Full v \<Longrightarrow> blobs s k = Some (Blob v)"
  by (auto simp: nvs_get_blob_def split: prod.splits if_splits option.splits blob.splits)

lemma nvs_get_u8_ok: "fst (nvs_get_u8 k s) = Inr v \<Longrightarrow> u8s s k = Some v"
  by (auto simp: nvs_get_u8_def split: prod.splits if_splits option.splits)

lemma nvs_get_u8_not_Inl_OK: "fst (nvs_get_u8 k s) \<noteq> Inl ESP_OK"
  by (simp add: nvs_get_u8_def split: prod.split option.split)

text \<open>Without pending faults every call does its work.\<close>

lemma nvs_fault_free:
  assumes "faults s = []"
  shows "nvs_open s = (ESP_OK, s)" "nvs_commit s = (ESP_OK, s)"
    "nvs_get_blob k s = (case blobs s k of None \<Rightarrow> Read_Err ESP_ERR_NVS_NOT_FOUND
       | Some (Blob v) \<Rightarrow> Read_Full v | Some (Short_Blob n v) \<Rightarrow> Read_Short n v
       | Some Long_Blob \<Rightarrow> Read_Err ESP_ERR_NVS_INVALID_LENGTH, s)"
    "nvs_set_blob k x s = (ESP_OK, s\<lparr>blobs := (blobs s)(k \<mapsto> Blob x)\<rparr>)"
    "nvs_get_u8 k s = (case u8s s k of None \<Rightarrow> Inl ESP_ERR_NVS_NOT_FOUND | Some b \<Rightarrow> Inr b, s)"
    "nvs_set_u8 k b s = (ESP_OK, s\<lparr>u8s := (u8s s)(k \<mapsto> b)\<rparr>)"
  using assms
  by (simp_all add: nvs_open_def nvs_commit_def nvs_get_blob_def nvs_set_blob_def nvs_get_u8_def
      nvs_set_u8_def nvs_tick.simps)

lemma reboot_simps [simp]:
  "faults (reboot s) = []" "blobs (reboot s) = blobs s" "u8s (reboot s) = u8s s"
  "reboot (reboot s) = reboot s"
  by (simp_all add: reboot_def)

lemma reboot_eqI: "blobs s = blobs t \<Longrightarrow> u8s s = u8s t \<Longrightarrow> reboot s = reboot t"
  by (simp add: reboot_def)

text \<open>
  The documented meaning of \<open>ESP_ERR_NVS_NOT_FOUND\<close>: a call returns it when the key is absent and
  for no other reason, so it is not among the injected outcomes.
\<close>

definition honest :: "'a nvs \<Rightarrow> bool" where
  "honest s \<longleftrightarrow> ESP_ERR_NVS_NOT_FOUND \<notin> set (faults s)"

lemma honest_reboot [simp]: "honest (reboot s)"
  by (simp add: honest_def)

lemma nvs_tick_honest: "honest s \<Longrightarrow> fst (nvs_tick s) \<noteq> ESP_ERR_NVS_NOT_FOUND"
  "honest s \<Longrightarrow> honest (snd (nvs_tick s))"
  by (auto simp: honest_def nvs_tick.simps split: list.splits)

lemma honest_ops [nvs_simps]:
  assumes "honest s"
  shows "honest (snd (nvs_open s))" "honest (snd (nvs_commit s))" "honest (snd (nvs_get_blob k s))"
    "honest (snd (nvs_set_blob k v s))" "honest (snd (nvs_get_u8 k s))" "honest (snd (nvs_set_u8 k b s))"
  using nvs_tick_honest [OF assms]
  by (cases "nvs_tick s"; simp add: nvs_open_def nvs_commit_def nvs_get_blob_def nvs_get_u8_def
      nvs_set_blob_def nvs_set_u8_def honest_def)+

lemma nvs_get_u8_not_found:
  "honest s \<Longrightarrow> fst (nvs_get_u8 k s) = Inl ESP_ERR_NVS_NOT_FOUND \<Longrightarrow> u8s s k = None"
  using nvs_tick_honest(1) [of s]
  by (auto simp: nvs_get_u8_def split: prod.splits if_splits option.splits)

lemma nvs_get_blob_not_found:
  "honest s \<Longrightarrow> fst (nvs_get_blob k s) = Read_Err ESP_ERR_NVS_NOT_FOUND \<Longrightarrow> blobs s k = None"
  using nvs_tick_honest(1) [of s]
  by (auto simp: nvs_get_blob_def split: prod.splits if_splits option.splits blob.splits)

subsection \<open>Two slots, selected by generation parity\<close>

definition ab_key :: "u32 \<Rightarrow> string" where
  "ab_key g = (if g AND 1 \<noteq> 0 then ''slot_a'' else ''slot_b'')"

definition ab_slot :: "('a \<Rightarrow> bool) \<Rightarrow> 'a blob option \<Rightarrow> 'a option" where
  "ab_slot ok b = (case b of Some (Blob v) \<Rightarrow> if ok v then Some v else None | _ \<Rightarrow> None)"

definition ab_newest :: "('a \<Rightarrow> u32) \<Rightarrow> ('a \<Rightarrow> bool) \<Rightarrow> (string \<Rightarrow> 'a blob option) \<Rightarrow> 'a option" where
  "ab_newest gen ok m =
     (case (ab_slot ok (m ''slot_a''), ab_slot ok (m ''slot_b'')) of
        (None, None) \<Rightarrow> None
      | (Some a, None) \<Rightarrow> Some a
      | (None, Some b) \<Rightarrow> Some b
      | (Some a, Some b) \<Rightarrow> if gen b \<le> gen a then Some a else Some b)"

text \<open>
  The discipline a writer at generation \<open>g\<close> keeps: every valid record sits in the slot of its own
  generation, and none is more than one ahead of the writer (a write whose commit failed).
\<close>

definition ab_paced :: "('a \<Rightarrow> u32) \<Rightarrow> ('a \<Rightarrow> bool) \<Rightarrow> u32 \<Rightarrow> (string \<Rightarrow> 'a blob option) \<Rightarrow> bool" where
  "ab_paced gen ok g m \<longleftrightarrow>
     (\<forall>k y. k = ''slot_a'' \<or> k = ''slot_b'' \<longrightarrow> m k = Some (Blob y) \<longrightarrow> ok y \<longrightarrow>
        ab_key (gen y) = k \<and> unat (gen y) \<le> Suc (unat g))"

lemma ab_paced_mono: "ab_paced gen ok g m \<Longrightarrow> unat g \<le> unat g' \<Longrightarrow> ab_paced gen ok g' m"
  by (fastforce simp: ab_paced_def)

text \<open>Every \<open>persist\<close> opens the namespace, writes one blob and commits.\<close>

definition ab_store :: "string \<Rightarrow> 'a \<Rightarrow> 'a nvs \<Rightarrow> esp_err \<times> 'a nvs" where
  "ab_store key v n = ok_then (ok_then (nvs_open n) (nvs_set_blob key v)) nvs_commit"

lemma ab_store_cases:
  assumes "ab_store key v n = (e, n')"
  shows "u8s n' = u8s n \<and>
    (blobs n' = (blobs n)(key \<mapsto> Blob v) \<or> e \<noteq> ESP_OK \<and> blobs n' = blobs n)"
proof -
  obtain e1 n1 where o: "nvs_open n = (e1, n1)" by fastforce
  obtain e2 n2 where w: "nvs_set_blob key v n1 = (e2, n2)" by fastforce
  obtain e3 n3 where c: "nvs_commit n2 = (e3, n3)" by fastforce
  from assms o w c nvs_read_eq(1) [OF o] nvs_write_eq(1) [OF w] nvs_read_eq(2) [OF c] show ?thesis
    by (cases "e1 = ESP_OK"; cases "e2 = ESP_OK") (auto simp: ab_store_def)
qed

lemma ab_store_fault_free:
  "faults n = [] \<Longrightarrow> ab_store key v n = (ESP_OK, n\<lparr>blobs := (blobs n)(key \<mapsto> Blob v)\<rparr>)"
  by (simp add: ab_store_def nvs_fault_free)

lemma ab_newestI:
  "m ''slot_a'' = Some (Blob x) \<Longrightarrow> ok x \<Longrightarrow>
     (\<And>y. m ''slot_b'' = Some (Blob y) \<Longrightarrow> ok y \<Longrightarrow> gen y \<le> gen x) \<Longrightarrow> ab_newest gen ok m = Some x"
  "m ''slot_b'' = Some (Blob x) \<Longrightarrow> ok x \<Longrightarrow>
     (\<And>y. m ''slot_a'' = Some (Blob y) \<Longrightarrow> ok y \<Longrightarrow> gen y < gen x) \<Longrightarrow> ab_newest gen ok m = Some x"
  by (fastforce simp: ab_newest_def ab_slot_def split: option.split blob.split)+

lemma ab_key_Suc: "ab_key (g + 1) \<noteq> ab_key g"
proof -
  have "(w AND 1 \<noteq> 0) = odd w" for w :: u32
    by (simp add: and_one_eq mod_2_eq_odd)
  then show ?thesis by (simp add: ab_key_def)
qed

lemma ab_key_cases: "ab_key g = ''slot_a'' \<or> ab_key g = ''slot_b''"
  by (simp add: ab_key_def)

text \<open>
  A record type with a generation, a validity test and the \<open>seal\<close> operation that \<open>persist\<close>
  applies before it writes: bump the generation, recompute the checksums.
\<close>

locale ab_slots =
  fixes gen :: "'a \<Rightarrow> u32" and ok :: "'a \<Rightarrow> bool" and seal :: "'a \<Rightarrow> 'a" and wf :: "'a \<Rightarrow> bool"
  assumes gen_seal: "gen (seal x) = gen x + 1"
    and ok_seal: "wf x \<Longrightarrow> ok (seal x)"
begin

lemma newest_ok: "ab_newest gen ok m = Some x \<Longrightarrow> ok x"
  by (auto simp: ab_newest_def ab_slot_def split: option.splits blob.splits if_splits)

lemma newest_slot:
  "ab_newest gen ok m = Some x \<Longrightarrow> m ''slot_a'' = Some (Blob x) \<or> m ''slot_b'' = Some (Blob x)"
  by (auto simp: ab_newest_def ab_slot_def split: option.splits blob.splits if_splits)

lemma newest_max:
  assumes "ab_newest gen ok m = Some x" "m k = Some (Blob y)" "k = ''slot_a'' \<or> k = ''slot_b''" "ok y"
  shows "gen y \<le> gen x"
  using assms by (auto simp: ab_newest_def ab_slot_def split: option.splits blob.splits if_splits)

text \<open>No two valid records of a paced store share a generation.\<close>

lemma paced_distinct:
  assumes "ab_paced gen ok g m" "m ''slot_a'' = Some (Blob a)" "m ''slot_b'' = Some (Blob b)" "ok a" "ok b"
  shows "gen a \<noteq> gen b"
proof -
  have "ab_key (gen a) = ''slot_a''" "ab_key (gen b) = ''slot_b''"
    using assms unfolding ab_paced_def by blast+
  then show ?thesis by auto
qed

text \<open>
  Writing the sealed record makes it the newest, and the writer may stay at the old
  generation (it gave up after the write) or move to the new one.
\<close>

lemma paced_write:
  assumes "ab_paced gen ok (gen x) m" "gen x \<noteq> - 1" "wf x"
  defines "m' \<equiv> m(ab_key (gen (seal x)) \<mapsto> Blob (seal x))"
  shows "ab_newest gen ok m' = Some (seal x)"
    and "ab_paced gen ok (gen x) m'" and "ab_paced gen ok (gen (seal x)) m'"
proof -
  let ?k = "ab_key (gen (seal x))"
  have new: "m' ?k = Some (Blob (seal x))" "ok (seal x)" "unat (gen (seal x)) = Suc (unat (gen x))"
    using assms(2,3) by (simp_all add: m'_def ok_seal gen_seal unat_Suc_word)
  have older: "gen y < gen (seal x) \<and> ab_key (gen y) = k"
    if "k \<noteq> ?k" "k = ''slot_a'' \<or> k = ''slot_b''" "m' k = Some (Blob y)" "ok y" for k y
  proof -
    have y: "ab_key (gen y) = k" "unat (gen y) \<le> Suc (unat (gen x))"
      using assms(1) that unfolding m'_def ab_paced_def by auto
    with \<open>k \<noteq> ?k\<close> have "gen y \<noteq> gen (seal x)" by auto
    then have "unat (gen y) \<noteq> unat (gen (seal x))" by (metis word_unat_eq_iff)
    with y new(3) show ?thesis by (simp add: word_less_nat_alt)
  qed
  show "ab_newest gen ok m' = Some (seal x)"
  proof (rule disjE [OF ab_key_cases [of "gen (seal x)"]])
    assume k: "?k = ''slot_a''"
    then show ?thesis
      using new older [of "''slot_b''"] by (intro ab_newestI(1)) (simp_all add: order_less_imp_le)
  next
    assume k: "?k = ''slot_b''"
    then show ?thesis
      using new older [of "''slot_a''"] by (intro ab_newestI(2)) simp_all
  qed
  have paced: "ab_paced gen ok g m'" if "Suc (unat g) \<ge> unat (gen (seal x))" for g
    unfolding ab_paced_def
  proof (intro allI impI)
    fix k y assume a: "k = ''slot_a'' \<or> k = ''slot_b''" "m' k = Some (Blob y)" "ok y"
    show "ab_key (gen y) = k \<and> unat (gen y) \<le> Suc (unat g)"
    proof (cases "k = ?k")
      case True
      with a new(1) have "y = seal x" by simp
      with True that show ?thesis by simp
    next
      case False
      from older [OF False a] that show ?thesis by (simp add: word_less_nat_alt)
    qed
  qed
  show "ab_paced gen ok (gen x) m'" by (rule paced) (simp add: new(3))
  show "ab_paced gen ok (gen (seal x)) m'" by (rule paced) simp
qed

end

end
