(* ===== verification/PM_Crc.thy ===== *)
theory PM_Crc
  imports PM_Prelude
begin

text \<open>
  The two checksum routines: \<open>pm_crc32_ieee\<close> (components/pm_config/pm_config.c, the CRC of
  every persisted record) and \<open>pm_modbus_crc16\<close> (components/pm_meter, the CRC of the PZEM
  frames). Both are shift registers fed byte by byte; the locale \<open>crc_register\<close> states
  what such a register needs to detect every single-byte corruption, and both routines
  are interpretations of it.
\<close>

subsection \<open>The routines\<close>

definition crc32_bit :: "u32 \<Rightarrow> u32" where
  "crc32_bit crc = (let mask = - (crc AND 1) in drop_bit 1 crc XOR (0xEDB88320 AND mask))"

definition crc32_byte :: "u32 \<Rightarrow> u8 \<Rightarrow> u32" where
  "crc32_byte crc b = (crc32_bit ^^ 8) (crc XOR ucast b)"

definition pm_crc32_ieee :: "u8 list \<Rightarrow> u32" where
  "pm_crc32_ieee bytes = NOT (foldl crc32_byte 0xFFFFFFFF bytes)"

definition modbus_bit :: "u16 \<Rightarrow> u16" where
  "modbus_bit crc = (if crc AND 1 \<noteq> 0 then drop_bit 1 crc XOR 0xA001 else drop_bit 1 crc)"

definition modbus_byte :: "u16 \<Rightarrow> u8 \<Rightarrow> u16" where
  "modbus_byte crc b = (modbus_bit ^^ 8) (crc XOR ucast b)"

definition pm_modbus_crc16 :: "u8 list \<Rightarrow> u16" where
  "pm_modbus_crc16 data = foldl modbus_byte 0xFFFF data"

subsection \<open>Registers that lose no information\<close>

lemma xor_right_cancel: "c XOR z = d XOR z \<longleftrightarrow> c = d" for c d z :: "'a::len word"
  by (auto simp: bit_eq_iff bit_xor_iff)

lemma ucast_byte_cancel:
  fixes x y :: u8
  assumes "8 \<le> LENGTH('w::len)"
  shows "(ucast x :: 'w word) = ucast y \<longleftrightarrow> x = y"
proof
  assume eq: "(ucast x :: 'w word) = ucast y"
  show "x = y"
  proof (rule bit_word_eqI)
    fix n assume "n < LENGTH(8)"
    with assms arg_cong [OF eq, of "\<lambda>w. bit w n"] show "bit x n = bit y n"
      by (simp add: bit_ucast_iff)
  qed
qed simp

locale crc_register =
  fixes shift8 :: "'w::len word \<Rightarrow> 'w word"
    and absorb :: "'w word \<Rightarrow> u8 \<Rightarrow> 'w word"
  assumes inj_shift8: "inj shift8"
    and wide: "8 \<le> LENGTH('w)"
    and absorb_eq: "absorb c b = shift8 (c XOR ucast b)"
begin

lemma absorb_cancel: "absorb c b = absorb d b \<longleftrightarrow> c = d"
proof -
  have "c XOR ucast b = d XOR ucast b \<longleftrightarrow> c = d"
    by (rule xor_right_cancel)
  then show ?thesis
    using inj_shift8 by (simp add: absorb_eq inj_eq)
qed

lemma absorb_byte_cancel: "absorb c x = absorb c y \<longleftrightarrow> x = y"
proof -
  have "(ucast x :: 'w word) = ucast y \<longleftrightarrow> x = y"
    using wide by (rule ucast_byte_cancel)
  moreover have "c XOR ucast x = c XOR ucast y \<longleftrightarrow> (ucast x :: 'w word) = ucast y"
    by (simp add: xor.commute [of c] xor_right_cancel)
  ultimately show ?thesis
    using inj_shift8 by (simp add: absorb_eq inj_eq)
qed

lemma foldl_absorb_cancel: "foldl absorb c xs = foldl absorb d xs \<longleftrightarrow> c = d"
  by (induction xs arbitrary: c d) (auto simp: absorb_cancel)

lemma detects_byte:
  "foldl absorb c (xs @ x # zs) = foldl absorb c (xs @ y # zs) \<longleftrightarrow> x = y"
  by (simp add: foldl_absorb_cancel absorb_byte_cancel)

lemma detects_update:
  assumes "i < length xs"
  shows "foldl absorb c (xs[i := y]) = foldl absorb c xs \<longleftrightarrow> y = xs ! i"
  using detects_byte [of c "take i xs" y "drop (Suc i) xs" "xs ! i"] assms
  by (simp add: upd_conv_take_nth_drop id_take_nth_drop [symmetric])

end

text \<open>One step of either register: shift right, and add the polynomial when a bit falls out.\<close>

lemma shift_poly_inj:
  fixes P :: "'a::len word"
  assumes top: "bit P (LENGTH('a) - 1)"
  shows "inj (\<lambda>c :: 'a word. drop_bit 1 c XOR (if odd c then P else 0))"
proof (rule injI)
  fix c d :: "'a word"
  assume eq: "drop_bit 1 c XOR (if odd c then P else 0) = drop_bit 1 d XOR (if odd d then P else 0)"
  have high: "\<not> bit (drop_bit 1 x) (LENGTH('a) - 1)" for x :: "'a word"
    by (simp add: bit_drop_bit_eq)
  have odds: "odd c = odd d"
    using arg_cong [OF eq, of "\<lambda>w. bit w (LENGTH('a) - 1)"] top high
    by (auto simp: bit_xor_iff split: if_splits)
  with eq have "drop_bit 1 c = drop_bit 1 d"
    by (simp add: xor_right_cancel)
  then have "c div 2 = d div 2"
    by (simp add: drop_bit_Suc)
  moreover have "c mod 2 = d mod 2"
    using odds by (metis even_iff_mod_2_eq_zero odd_iff_mod_2_eq_one)
  ultimately show "c = d"
    by (metis div_mult_mod_eq)
qed

lemma word_and_one_odd: "(c AND 1 :: 'a::len word) = (if odd c then 1 else 0)"
  by (simp add: and_one_eq mod_2_eq_odd)

lemma crc32_bit_alt: "crc32_bit c = drop_bit 1 c XOR (if odd c then 0xEDB88320 else 0)"
  by (simp add: crc32_bit_def word_and_one_odd)

lemma modbus_bit_alt: "modbus_bit c = drop_bit 1 c XOR (if odd c then 0xA001 else 0)"
  by (simp add: modbus_bit_def word_and_one_odd)

interpretation crc32: crc_register "crc32_bit ^^ 8" crc32_byte
proof
  show "inj (crc32_bit ^^ 8)"
    unfolding crc32_bit_alt [abs_def] by (rule inj_fn [OF shift_poly_inj]) simp
qed (simp_all add: crc32_byte_def)

interpretation modbus: crc_register "modbus_bit ^^ 8" modbus_byte
proof
  show "inj (modbus_bit ^^ 8)"
    unfolding modbus_bit_alt [abs_def] by (rule inj_fn [OF shift_poly_inj]) simp
qed (simp_all add: modbus_byte_def)

text \<open>
  A checksum stored behind the data, low byte first, as the PZEM frames have it: one byte
  changed anywhere, in the data or in the checksum, is noticed.
\<close>

lemma crc32_detects_update:
  "i < length xs \<Longrightarrow> pm_crc32_ieee (xs[i := y]) = pm_crc32_ieee xs \<longleftrightarrow> y = xs ! i"
  using crc32.detects_update [of i xs _ y] by (simp add: pm_crc32_ieee_def)

lemma modbus_detects_update:
  "i < length xs \<Longrightarrow> pm_modbus_crc16 (xs[i := y]) = pm_modbus_crc16 xs \<longleftrightarrow> y = xs ! i"
  using modbus.detects_update [of i xs _ y] by (simp add: pm_modbus_crc16_def)

end
