(* ===== verification/PM_Time.thy ===== *)
theory PM_Time
  imports PM_Nvs PM_Crc
begin

text \<open>
  components/pm_protocol/pm_time.c: trusted time. The device projects the last trusted UTC
  observation by its monotonic clock, never returns a smaller time than it already did, and
  keeps the last observation in two NVS slots. Times are mathematical integers; the code's
  64-bit sums stay in range for the accepted UTC window and a monotonic clock below 2^62.
  The CRC loop of this file is the one of pm_config.c, written a second time.
\<close>

subsection \<open>Data\<close>

record time_checkpoint =
  ckpt_utc_ms :: int
  ckpt_generation :: u32
  ckpt_crc32 :: u32

datatype pm_time_source =
  PM_TIME_UNTRUSTED | PM_TIME_PERSISTED_CHECKPOINT | PM_TIME_SNTP | PM_TIME_SERVER_CORROBORATED | PM_TIME_RAW u32

record pm_time_state =
  time_source :: pm_time_source
  utc_checkpoint_ms :: int
  monotonic_checkpoint_us :: int
  last_returned_utc_ms :: int
  maximum_backward_step_ms :: int
  trusted :: bool

definition zero_checkpoint :: time_checkpoint where
  "zero_checkpoint = \<lparr>ckpt_utc_ms = 0, ckpt_generation = 0, ckpt_crc32 = 0\<rparr>"

definition checkpoint_crc :: "time_checkpoint \<Rightarrow> u32" where
  "checkpoint_crc c =
     pm_crc32_ieee (le_bytes 8 (word_of_int (ckpt_utc_ms c) :: u64) @ le_bytes 4 (ckpt_generation c))"

definition utc_plausible :: "int \<Rightarrow> bool" where
  "utc_plausible t \<longleftrightarrow> 1704067200000 \<le> t \<and> t < 4102444800000"

definition checkpoint_valid :: "time_checkpoint \<Rightarrow> bool" where
  "checkpoint_valid c \<longleftrightarrow> utc_plausible (ckpt_utc_ms c) \<and> ckpt_crc32 c = checkpoint_crc c"

subsection \<open>Checkpoints in storage\<close>

text \<open>What \<open>(void)nvs_get_blob (handle, key, &x, &length)\<close> leaves in the zeroed \<open>x\<close>.\<close>

fun read_into :: "time_checkpoint blob_read \<Rightarrow> time_checkpoint" where
  "read_into (Read_Full c) = c"
| "read_into (Read_Short _ c) = c"
| "read_into (Read_Err _) = zero_checkpoint"

fun read_exact :: "time_checkpoint blob_read \<Rightarrow> bool" where
  "read_exact (Read_Full c) = checkpoint_valid c"
| "read_exact _ = False"

definition last_generation :: "time_checkpoint \<Rightarrow> time_checkpoint \<Rightarrow> u32" where
  "last_generation a b =
     (if checkpoint_valid a \<and> checkpoint_valid b
      then (if ckpt_generation a > ckpt_generation b then ckpt_generation a else ckpt_generation b)
      else if checkpoint_valid a then ckpt_generation a
      else if checkpoint_valid b then ckpt_generation b else 0)"

definition next_checkpoint :: "int \<Rightarrow> u32 \<Rightarrow> time_checkpoint" where
  "next_checkpoint utc_ms g =
     (let c = \<lparr>ckpt_utc_ms = utc_ms, ckpt_generation = g + 1, ckpt_crc32 = 0\<rparr>
      in c\<lparr>ckpt_crc32 := checkpoint_crc c\<rparr>)"

definition time_persist :: "int \<Rightarrow> time_checkpoint nvs \<Rightarrow> esp_err \<times> time_checkpoint nvs" where
  "time_persist utc_ms n0 =
     (let (e, n1) = nvs_open n0 in
      if e \<noteq> ESP_OK then (e, n1)
      else let (ra, n2) = nvs_get_blob ''slot_a'' n1;
               (rb, n3) = nvs_get_blob ''slot_b'' n2;
               c = next_checkpoint utc_ms (last_generation (read_into ra) (read_into rb))
        in ok_then (nvs_set_blob (ab_key (ckpt_generation c)) c n3) nvs_commit)"

definition pm_time_init :: "int \<Rightarrow> pm_time_state" where
  "pm_time_init monotonic_us = \<lparr>time_source = PM_TIME_UNTRUSTED, utc_checkpoint_ms = 0,
     monotonic_checkpoint_us = monotonic_us, last_returned_utc_ms = 0,
     maximum_backward_step_ms = 300000, trusted = False\<rparr>"

definition pm_time_load_checkpoint ::
    "pm_time_state \<Rightarrow> int \<Rightarrow> time_checkpoint nvs \<Rightarrow> esp_err \<times> pm_time_state \<times> time_checkpoint nvs" where
  "pm_time_load_checkpoint st monotonic_us n0 =
     (let (e, n1) = nvs_open n0 in
      if e \<noteq> ESP_OK then (e, st, n1)
      else let (ra, n2) = nvs_get_blob ''slot_a'' n1;
               (rb, n3) = nvs_get_blob ''slot_b'' n2;
               valid_a = read_exact ra; valid_b = read_exact rb
        in if \<not> valid_a \<and> \<not> valid_b then (ESP_ERR_NOT_FOUND, st, n3)
           else let selected = (if select_a valid_a valid_b (ckpt_generation (read_into ra))
                                     (ckpt_generation (read_into rb))
                                then read_into ra else read_into rb)
             in (ESP_OK, st\<lparr>time_source := PM_TIME_PERSISTED_CHECKPOINT,
                            utc_checkpoint_ms := ckpt_utc_ms selected,
                            last_returned_utc_ms := ckpt_utc_ms selected,
                            monotonic_checkpoint_us := monotonic_us, trusted := True\<rparr>, n3))"

subsection \<open>Observing and telling the time\<close>

definition projected_ms :: "pm_time_state \<Rightarrow> int \<Rightarrow> int" where
  "projected_ms st monotonic_us =
     utc_checkpoint_ms st + c_div (monotonic_us - monotonic_checkpoint_us st) 1000"

definition pm_time_observe ::
    "pm_time_state \<Rightarrow> pm_time_source \<Rightarrow> int \<Rightarrow> int \<Rightarrow> time_checkpoint nvs \<Rightarrow>
      esp_err \<times> pm_time_state \<times> time_checkpoint nvs" where
  "pm_time_observe st source utc_ms monotonic_us n =
     (if (source \<noteq> PM_TIME_SNTP \<and> source \<noteq> PM_TIME_SERVER_CORROBORATED) \<or> \<not> utc_plausible utc_ms
      then (ESP_ERR_INVALID_ARG, st, n)
      else if trusted st \<and> utc_ms + maximum_backward_step_ms st < projected_ms st monotonic_us
      then (ESP_ERR_INVALID_STATE, st, n)
      else let st' = st\<lparr>time_source := source, utc_checkpoint_ms := utc_ms,
                        monotonic_checkpoint_us := monotonic_us,
                        last_returned_utc_ms := (if utc_ms > last_returned_utc_ms st then utc_ms
                                                 else last_returned_utc_ms st),
                        trusted := True\<rparr>;
               (e, n') = time_persist (last_returned_utc_ms st') n
        in (e, st', n'))"

definition pm_time_now :: "pm_time_state \<Rightarrow> int \<Rightarrow> int option \<times> pm_time_state" where
  "pm_time_now st monotonic_us =
     (if \<not> trusted st \<or> monotonic_us < monotonic_checkpoint_us st then (None, st)
      else let p = projected_ms st monotonic_us;
               projected = (if p < last_returned_utc_ms st then last_returned_utc_ms st else p)
        in (Some projected, st\<lparr>last_returned_utc_ms := projected\<rparr>))"

subsection \<open>Time does not run backwards\<close>

datatype time_event = Observe pm_time_source int int | Now int

text \<open>A run of the clock between two restarts: its state, its storage, the times it told.\<close>

fun time_step ::
    "pm_time_state \<times> time_checkpoint nvs \<times> int list \<Rightarrow> time_event \<Rightarrow>
     pm_time_state \<times> time_checkpoint nvs \<times> int list" where
  "time_step (st, n, out) (Observe src utc us) =
     (case pm_time_observe st src utc us n of (e, st', n') \<Rightarrow> (st', n', out))"
| "time_step (st, n, out) (Now us) =
     (case pm_time_now st us of (r, st') \<Rightarrow> (st', n, out @ (case r of None \<Rightarrow> [] | Some t \<Rightarrow> [t])))"

lemma pm_time_observe_mono:
  "pm_time_observe st src utc us n = (e, st', n') \<Longrightarrow> last_returned_utc_ms st \<le> last_returned_utc_ms st'"
  by (auto simp: pm_time_observe_def Let_def split: if_splits prod.splits)

lemma pm_time_now_mono:
  "pm_time_now st us = (r, st') \<Longrightarrow> last_returned_utc_ms st \<le> last_returned_utc_ms st' \<and>
     (\<forall>t. r = Some t \<longrightarrow> t = last_returned_utc_ms st')"
  by (auto simp: pm_time_now_def Let_def split: if_splits)

lemma time_run_sorted:
  assumes "sorted out" "\<forall>t \<in> set out. t \<le> last_returned_utc_ms st"
  shows "let (st', n', out') = foldl time_step (st, n, out) evs in
     sorted out' \<and> last_returned_utc_ms st \<le> last_returned_utc_ms st' \<and>
     (\<forall>t \<in> set out'. t \<le> last_returned_utc_ms st')"
  using assms
proof (induction evs arbitrary: st n out)
  case Nil
  then show ?case by simp
next
  case (Cons ev evs)
  obtain st1 n1 out1 where s: "time_step (st, n, out) ev = (st1, n1, out1)" by (metis prod.exhaust)
  have le: "last_returned_utc_ms st \<le> last_returned_utc_ms st1" and out: "sorted out1"
    "\<forall>t \<in> set out1. t \<le> last_returned_utc_ms st1"
    using s Cons.prems
    by (cases ev; fastforce split: prod.splits option.splits
        dest!: pm_time_observe_mono pm_time_now_mono simp: sorted_append)+
  from Cons.IH [OF out, of n1] le s show ?case by (auto simp: Let_def split: prod.splits)
qed

text \<open>
  The clock never runs backwards: over every sequence of time observations (accepted or
  refused, forward or backward in time, with any outcome of storage) and queries, the times
  returned are in order, and none is before what a restart restored.
\<close>

theorem time_never_runs_backwards:
  "let (st', n', told) = foldl time_step (st, n, []) evs in
     sorted told \<and> last_returned_utc_ms st \<le> last_returned_utc_ms st' \<and>
     (\<forall>t \<in> set told. t \<le> last_returned_utc_ms st')"
  using time_run_sorted [of "[]" st n evs] by simp

theorem time_never_runs_backwards_witness:
  "let (st', n', told) = foldl time_step (pm_time_init 0, \<lparr>blobs = Map.empty, u8s = Map.empty, faults = []\<rparr>, [])
         [Observe PM_TIME_SNTP 1800000000000 0, Now 5000, Observe PM_TIME_SNTP 1799999999000 6000, Now 7000] in
     sorted told \<and> told = [1800000000005, 1800000000005] \<and>
     (\<forall>t \<in> set told. t \<le> last_returned_utc_ms st')"
proof -
  let ?r = "foldl time_step (pm_time_init 0, \<lparr>blobs = Map.empty, u8s = Map.empty, faults = []\<rparr>, [])
         [Observe PM_TIME_SNTP 1800000000000 0, Now 5000, Observe PM_TIME_SNTP 1799999999000 6000, Now 7000]"
  have "snd (snd ?r) = [1800000000005, 1800000000005]"
    by (simp add: pm_time_init_def pm_time_observe_def pm_time_now_def projected_ms_def utc_plausible_def
        c_div_def Let_def split_beta)
  then show ?thesis
    using time_never_runs_backwards [of "pm_time_init 0" "\<lparr>blobs = Map.empty, u8s = Map.empty, faults = []\<rparr>"
      "[Observe PM_TIME_SNTP 1800000000000 0, Now 5000, Observe PM_TIME_SNTP 1799999999000 6000, Now 7000]"]
    by (simp add: split_beta del: foldl_Cons)
qed

subsection \<open>What a restart restores\<close>

definition seal_checkpoint :: "time_checkpoint \<Rightarrow> time_checkpoint" where
  "seal_checkpoint c = next_checkpoint (ckpt_utc_ms c) (ckpt_generation c)"

lemma checkpoint_crc_update [simp]: "checkpoint_crc (c\<lparr>ckpt_crc32 := x\<rparr>) = checkpoint_crc c"
  by (simp add: checkpoint_crc_def)

interpretation clock: ab_slots ckpt_generation checkpoint_valid seal_checkpoint "\<lambda>c. utc_plausible (ckpt_utc_ms c)"
  by unfold_locales (simp_all add: seal_checkpoint_def next_checkpoint_def Let_def checkpoint_valid_def
      checkpoint_crc_def)

text \<open>Storage as the code leaves it: no truncated record, every record in the slot of its generation.\<close>

definition no_short_records :: "time_checkpoint nvs \<Rightarrow> bool" where
  "no_short_records n \<longleftrightarrow>
     (\<forall>i c. blobs n ''slot_a'' \<noteq> Some (Short_Blob i c) \<and> blobs n ''slot_b'' \<noteq> Some (Short_Blob i c))"

definition time_storage_ok :: "time_checkpoint nvs \<Rightarrow> bool" where
  "time_storage_ok n \<longleftrightarrow> no_short_records n \<and>
     ab_paced ckpt_generation checkpoint_valid
       (case ab_newest ckpt_generation checkpoint_valid (blobs n) of None \<Rightarrow> 0 | Some c \<Rightarrow> ckpt_generation c)
       (blobs n)"

lemma zero_checkpoint_invalid [simp]: "\<not> checkpoint_valid zero_checkpoint"
  by (simp add: checkpoint_valid_def zero_checkpoint_def utc_plausible_def)

definition read_agrees :: "time_checkpoint blob option \<Rightarrow> time_checkpoint blob_read \<Rightarrow> bool" where
  "read_agrees b r \<longleftrightarrow> (case ab_slot checkpoint_valid b of
       None \<Rightarrow> \<not> checkpoint_valid (read_into r) \<and> \<not> read_exact r
     | Some c \<Rightarrow> read_into r = c \<and> checkpoint_valid c \<and> read_exact r)"

lemma read_both:
  assumes "faults n = []" "no_short_records n"
  obtains ra rb where "nvs_get_blob ''slot_a'' n = (ra, n)" "nvs_get_blob ''slot_b'' n = (rb, n)"
    "read_agrees (blobs n ''slot_a'') ra" "read_agrees (blobs n ''slot_b'') rb"
proof -
  have "\<exists>r. nvs_get_blob k n = (r, n) \<and> read_agrees (blobs n k) r"
    if "\<And>i c. blobs n k \<noteq> Some (Short_Blob i c)" for k
    using assms(1) that
    by (auto simp: nvs_fault_free ab_slot_def read_agrees_def split: option.split blob.split)
  from this [of "''slot_a''"] this [of "''slot_b''"] that assms(2) show ?thesis
    unfolding no_short_records_def by blast
qed

abbreviation newest_checkpoint :: "time_checkpoint nvs \<Rightarrow> time_checkpoint option" where
  "newest_checkpoint n \<equiv> ab_newest ckpt_generation checkpoint_valid (blobs n)"

definition newest_generation :: "time_checkpoint nvs \<Rightarrow> u32" where
  "newest_generation n = (case newest_checkpoint n of None \<Rightarrow> 0 | Some c \<Rightarrow> ckpt_generation c)"

lemma time_persist_fault_free:
  assumes "faults n = []" "no_short_records n"
  defines "g \<equiv> newest_generation n"
  shows "time_persist utc n = (ESP_OK, n\<lparr>blobs := (blobs n)(ab_key (g + 1) \<mapsto> Blob (next_checkpoint utc g))\<rparr>)"
proof -
  obtain ra rb where r: "nvs_get_blob ''slot_a'' n = (ra, n)" "nvs_get_blob ''slot_b'' n = (rb, n)"
    "read_agrees (blobs n ''slot_a'') ra" "read_agrees (blobs n ''slot_b'') rb"
    using assms(1,2) by (rule read_both)
  then have "last_generation (read_into ra) (read_into rb) = g"
    unfolding g_def newest_generation_def ab_newest_def read_agrees_def
    by (auto simp: last_generation_def split: option.splits if_splits)
  then show ?thesis
    using assms(1) r(1,2) by (simp add: time_persist_def nvs_fault_free next_checkpoint_def Let_def)
qed

lemma time_load_newest:
  assumes "faults n = []" "no_short_records n" "newest_checkpoint n = Some c"
  shows "pm_time_load_checkpoint st us n =
    (ESP_OK, st\<lparr>time_source := PM_TIME_PERSISTED_CHECKPOINT, utc_checkpoint_ms := ckpt_utc_ms c,
        last_returned_utc_ms := ckpt_utc_ms c, monotonic_checkpoint_us := us, trusted := True\<rparr>, n)"
proof -
  obtain ra rb where r: "nvs_get_blob ''slot_a'' n = (ra, n)" "nvs_get_blob ''slot_b'' n = (rb, n)"
    "read_agrees (blobs n ''slot_a'') ra" "read_agrees (blobs n ''slot_b'') rb"
    using assms(1,2) by (rule read_both)
  then have "\<not> (\<not> read_exact ra \<and> \<not> read_exact rb)"
    "(if select_a (read_exact ra) (read_exact rb) (ckpt_generation (read_into ra)) (ckpt_generation (read_into rb))
      then read_into ra else read_into rb) = c"
    using assms(3) unfolding ab_newest_def read_agrees_def
    by (auto simp: select_a_def split: option.splits if_splits)
  then show ?thesis
    using assms(1) r(1,2) by (simp add: pm_time_load_checkpoint_def nvs_fault_free Let_def)
qed

text \<open>
  An accepted observation survives a restart: with working storage whose generation counter is
  not used up, \<open>pm_time_observe\<close> stores a checkpoint, and the next boot restores exactly the
  latest time known when it was taken, which is not before the observed one.
\<close>

theorem time_observation_durable:
  assumes "faults n = []" "time_storage_ok n" "newest_generation n \<noteq> - 1"
    and "last_returned_utc_ms st < 4102444800000"
    and "pm_time_observe st src utc us n = (e, st', n')" and "e \<noteq> ESP_ERR_INVALID_ARG" "e \<noteq> ESP_ERR_INVALID_STATE"
  shows "e = ESP_OK \<and> time_storage_ok n' \<and> utc \<le> last_returned_utc_ms st' \<and>
    (\<exists>st1. pm_time_load_checkpoint st0 us0 n' = (ESP_OK, st1, n') \<and> trusted st1 \<and>
       utc_checkpoint_ms st1 = last_returned_utc_ms st' \<and> last_returned_utc_ms st1 = last_returned_utc_ms st')"
proof -
  let ?g = "newest_generation n"
  let ?c0 = "\<lparr>ckpt_utc_ms = last_returned_utc_ms st', ckpt_generation = ?g, ckpt_crc32 = 0\<rparr>"
  have obs: "time_persist (last_returned_utc_ms st') n = (e, n')" "utc_plausible utc"
    "utc \<le> last_returned_utc_ms st'" "last_returned_utc_ms st' < 4102444800000"
    using assms(4-7) by (auto simp: pm_time_observe_def Let_def utc_plausible_def split: if_splits prod.splits)
  have nos: "no_short_records n" and paced: "ab_paced ckpt_generation checkpoint_valid ?g (blobs n)"
    using assms(2) by (simp_all add: time_storage_ok_def newest_generation_def)
  have e: "e = ESP_OK" "n' = n\<lparr>blobs := (blobs n)(ab_key (?g + 1) \<mapsto> Blob (seal_checkpoint ?c0))\<rparr>"
    using time_persist_fault_free [OF assms(1) nos] obs(1) by (auto simp: seal_checkpoint_def)
  have "utc_plausible (ckpt_utc_ms ?c0)" using obs by (simp add: utc_plausible_def)
  note w = clock.paced_write [of ?c0 "blobs n", simplified, OF paced assms(3), simplified, OF this [simplified]]
  have gen: "ckpt_generation (seal_checkpoint ?c0) = ?g + 1" "ckpt_utc_ms (seal_checkpoint ?c0) = last_returned_utc_ms st'"
    by (simp_all add: seal_checkpoint_def next_checkpoint_def Let_def)
  have new: "newest_checkpoint n' = Some (seal_checkpoint ?c0)" using w(1) gen by (simp add: e(2))
  have nos': "no_short_records n'" using nos by (simp add: no_short_records_def e(2))
  moreover have "ab_paced ckpt_generation checkpoint_valid (?g + 1) (blobs n')"
    using w(3) gen by (simp add: e(2))
  moreover have "faults n' = []" using assms(1) by (simp add: e(2))
  ultimately show ?thesis
    using time_load_newest [OF _ nos' new, of st0 us0] e(1) obs(3) new gen by (simp add: time_storage_ok_def)
qed

theorem time_observation_durable_witness:
  "let n = \<lparr>blobs = Map.empty, u8s = Map.empty, faults = []\<rparr>;
       (e, st', n') = pm_time_observe (pm_time_init 0) PM_TIME_SNTP 1800000000000 0 n in
     e = ESP_OK \<and> (\<exists>st1. pm_time_load_checkpoint (pm_time_init 0) 9 n' = (ESP_OK, st1, n') \<and>
       utc_checkpoint_ms st1 = 1800000000000)"
proof -
  let ?n = "\<lparr>blobs = Map.empty, u8s = Map.empty, faults = []\<rparr> :: time_checkpoint nvs"
  obtain e st' n' where o: "pm_time_observe (pm_time_init 0) PM_TIME_SNTP 1800000000000 0 ?n = (e, st', n')"
    by (metis prod.exhaust)
  have ok: "time_storage_ok ?n" "newest_generation ?n = 0"
    by (simp_all add: time_storage_ok_def no_short_records_def ab_newest_def ab_slot_def ab_paced_def
        newest_generation_def)
  have st: "e = ESP_OK" "last_returned_utc_ms st' = 1800000000000"
    using o time_persist_fault_free [of ?n] ok
    by (auto simp: pm_time_observe_def pm_time_init_def utc_plausible_def Let_def time_storage_ok_def)
  have "last_returned_utc_ms (pm_time_init 0) < 4102444800000" by (simp add: pm_time_init_def)
  from time_observation_durable [OF _ ok(1) _ this o] ok(2) st o show ?thesis by fastforce
qed

end
