(* ===== verification/PM_Sequence.thy ===== *)
theory PM_Sequence
  imports PM_Nvs PM_Crc
begin

text \<open>
  components/pm_storage/pm_sequence.c: the numbers that identify journal records. The state
  lives in RAM and in two NVS slots with a selector byte; numbers are reserved in blocks of
  64 and every allocation is stored before the caller may use it. The history of operations,
  failed storage calls and restarts is the inductive relation \<open>seq_reach\<close>, with the numbers handed out.
\<close>

subsection \<open>The code\<close>

definition PM_SEQUENCE_RESERVATION_BLOCK :: u64 where "PM_SEQUENCE_RESERVATION_BLOCK = 64"

record pm_sequence_state =
  next_sequence :: u64
  reserved_through :: u64
  maximum_seen :: u64
  acknowledged :: u64
  reset_generation :: u32
  seq_generation :: u32

record sequence_slot =
  slot_state :: pm_sequence_state
  slot_crc32 :: u32

definition sequence_bytes :: "pm_sequence_state \<Rightarrow> u8 list" where
  "sequence_bytes s = le_bytes 8 (next_sequence s) @ le_bytes 8 (reserved_through s) @ le_bytes 8 (maximum_seen s) @
     le_bytes 8 (acknowledged s) @ le_bytes 4 (reset_generation s) @ le_bytes 4 (seq_generation s)"

definition slot_crc :: "sequence_slot \<Rightarrow> u32" where
  "slot_crc s = pm_crc32_ieee (sequence_bytes (slot_state s))"

definition slot_valid :: "sequence_slot \<Rightarrow> bool" where
  "slot_valid s \<longleftrightarrow> next_sequence (slot_state s) > 0 \<and>
     reserved_through (slot_state s) \<ge> next_sequence (slot_state s) - 1 \<and>
     maximum_seen (slot_state s) < next_sequence (slot_state s) \<and>
     acknowledged (slot_state s) \<le> maximum_seen (slot_state s) \<and> slot_crc32 s = slot_crc s"

definition seq_read_slot :: "string \<Rightarrow> sequence_slot nvs \<Rightarrow> (esp_err + sequence_slot) \<times> sequence_slot nvs" where
  "seq_read_slot key n =
     (case nvs_get_blob key n of (r, n') \<Rightarrow>
        (case r of
           Read_Err e \<Rightarrow> Inl e
         | Read_Short _ _ \<Rightarrow> Inl ESP_ERR_INVALID_CRC
         | Read_Full s \<Rightarrow> if slot_valid s then Inr s else Inl ESP_ERR_INVALID_CRC, n'))"

definition sealed_slot :: "pm_sequence_state \<Rightarrow> sequence_slot" where
  "sealed_slot st = (let s = \<lparr>slot_state = st\<lparr>seq_generation := seq_generation st + 1\<rparr>, slot_crc32 = 0\<rparr>
     in s\<lparr>slot_crc32 := slot_crc s\<rparr>)"

text \<open>Writing the inactive slot, reading it back and only then moving the selector.\<close>

definition write_inactive ::
    "char \<Rightarrow> pm_sequence_state \<Rightarrow> sequence_slot nvs \<Rightarrow> esp_err \<times> pm_sequence_state \<times> sequence_slot nvs" where
  "write_inactive active st n0 =
     (let inactive = (if active = CHR ''A'' then CHR ''B'' else CHR ''A'');
          key = (if inactive = CHR ''A'' then ''slot_a'' else ''slot_b'');
          slot = sealed_slot st;
          (e1, n1) = ok_then (nvs_set_blob key slot n0) nvs_commit
      in if e1 \<noteq> ESP_OK then (e1, st, n1)
         else let (r, n2) = seq_read_slot key n1 in
           case r of
             Inl e \<Rightarrow> (e, st, n2)
           | Inr verified \<Rightarrow>
               if verified \<noteq> slot then (ESP_FAIL, st, n2)
               else (case ok_then (nvs_set_u8 ''active'' (of_char inactive) n2) nvs_commit of (e3, n3) \<Rightarrow>
                       (e3, if e3 = ESP_OK then slot_state slot else st, n3)))"

definition seq_persist ::
    "pm_sequence_state \<Rightarrow> sequence_slot nvs \<Rightarrow> esp_err \<times> pm_sequence_state \<times> sequence_slot nvs" where
  "seq_persist st n0 =
     (if seq_generation st = - 1 then (ESP_ERR_INVALID_STATE, st, n0)
      else let (e, n1) = nvs_open n0 in
        if e \<noteq> ESP_OK then (e, st, n1)
        else let (sel, n2) = nvs_get_u8 ''active'' n1 in
          case sel of
            Inl e1 \<Rightarrow> if \<not> (e1 = ESP_ERR_NVS_NOT_FOUND \<and> seq_generation st = 0) then (e1, st, n2)
                      else write_inactive CHR ''A'' st n2
          | Inr active \<Rightarrow>
              if active \<noteq> of_char CHR ''A'' \<and> active \<noteq> of_char CHR ''B'' then (ESP_ERR_INVALID_STATE, st, n2)
              else write_inactive (if active = of_char CHR ''A'' then CHR ''A'' else CHR ''B'') st n2)"

definition initial_sequence :: pm_sequence_state where
  "initial_sequence = \<lparr>next_sequence = 1, reserved_through = 0, maximum_seen = 0, acknowledged = 0,
     reset_generation = 0, seq_generation = 0\<rparr>"

text \<open>The end of \<open>pm_sequence_load\<close>: numbers that were reserved and not seen are skipped.\<close>

definition skip_reserved :: "pm_sequence_state \<Rightarrow> esp_err + pm_sequence_state" where
  "skip_reserved st =
     (if next_sequence st \<le> reserved_through st
      then if reserved_through st = - 1 then Inl ESP_ERR_INVALID_STATE
           else Inr (st\<lparr>next_sequence := reserved_through st + 1\<rparr>)
      else Inr st)"

definition pm_sequence_load :: "sequence_slot nvs \<Rightarrow> (esp_err + pm_sequence_state) \<times> sequence_slot nvs" where
  "pm_sequence_load n0 =
     (let (e, n1) = nvs_open n0 in
      if e \<noteq> ESP_OK then (Inl e, n1)
      else let (ra, n2) = seq_read_slot ''slot_a'' n1;
               (rb, n3) = seq_read_slot ''slot_b'' n2
        in case (ra, rb) of
             (Inl ea, Inl eb) \<Rightarrow>
               if ea \<noteq> ESP_ERR_NVS_NOT_FOUND \<or> eb \<noteq> ESP_ERR_NVS_NOT_FOUND
               then (Inl (if ea \<noteq> ESP_ERR_NVS_NOT_FOUND then ea else eb), n3)
               else (case seq_persist initial_sequence n3 of (e2, st, n4) \<Rightarrow>
                       (if e2 = ESP_OK then Inr st else Inl e2, n4))
           | (Inr a, Inl eb) \<Rightarrow>
               (if eb \<noteq> ESP_ERR_NVS_NOT_FOUND then Inl eb else skip_reserved (slot_state a), n3)
           | (Inl ea, Inr b) \<Rightarrow>
               (if ea \<noteq> ESP_ERR_NVS_NOT_FOUND then Inl ea else skip_reserved (slot_state b), n3)
           | (Inr a, Inr b) \<Rightarrow>
               (if seq_generation (slot_state a) = seq_generation (slot_state b) \<and> slot_state a \<noteq> slot_state b
                then Inl ESP_ERR_INVALID_STATE
                else skip_reserved (slot_state
                       (if seq_generation (slot_state a) \<ge> seq_generation (slot_state b) then a else b)), n3))"

text \<open>The number is written through \<open>sequence\<close> once it is allocated, also when storing the allocation fails.\<close>

definition pm_sequence_next ::
    "pm_sequence_state \<Rightarrow> sequence_slot nvs \<Rightarrow> esp_err \<times> u64 option \<times> pm_sequence_state \<times> sequence_slot nvs" where
  "pm_sequence_next st0 n0 =
     (if next_sequence st0 = - 1 then (ESP_ERR_INVALID_ARG, None, st0, n0)
      else let (e1, st, n1) =
             (if next_sequence st0 > reserved_through st0
              then if - 1 - next_sequence st0 < PM_SEQUENCE_RESERVATION_BLOCK - 1 then (ESP_ERR_INVALID_SIZE, st0, n0)
                   else (case seq_persist (st0\<lparr>reserved_through := next_sequence st0 + PM_SEQUENCE_RESERVATION_BLOCK - 1\<rparr>) n0 of
                           (e, c, n) \<Rightarrow> (e, if e = ESP_OK then c else st0, n))
              else (ESP_OK, st0, n0))
        in if e1 \<noteq> ESP_OK then (e1, None, st, n1)
           else let allocated = st\<lparr>next_sequence := next_sequence st + 1, maximum_seen := next_sequence st\<rparr>;
                    (e2, c, n2) = seq_persist allocated n1
             in (e2, Some (next_sequence st), if e2 = ESP_OK then c else st, n2))"

definition pm_sequence_acknowledge ::
    "pm_sequence_state \<Rightarrow> u64 \<Rightarrow> sequence_slot nvs \<Rightarrow> esp_err \<times> pm_sequence_state \<times> sequence_slot nvs" where
  "pm_sequence_acknowledge st ack n =
     (if ack < acknowledged st \<or> ack > maximum_seen st then (ESP_ERR_INVALID_ARG, st, n)
      else if ack = acknowledged st then (ESP_OK, st, n)
      else case seq_persist (st\<lparr>acknowledged := ack\<rparr>) n of (e, c, n') \<Rightarrow> (e, if e = ESP_OK then c else st, n'))"

definition pm_sequence_raise_floor ::
    "pm_sequence_state \<Rightarrow> u64 \<Rightarrow> u32 \<Rightarrow> sequence_slot nvs \<Rightarrow> esp_err \<times> pm_sequence_state \<times> sequence_slot nvs" where
  "pm_sequence_raise_floor st floor reset n =
     (if floor = - 1 then (ESP_ERR_INVALID_ARG, st, n)
      else if reset = reset_generation st
      then (if maximum_seen st = floor \<and> next_sequence st = floor + 1 \<and> reserved_through st = floor \<and>
               acknowledged st = floor then ESP_OK else ESP_ERR_INVALID_STATE, st, n)
      else if floor < maximum_seen st \<or> reset < reset_generation st then (ESP_ERR_INVALID_ARG, st, n)
      else case seq_persist (st\<lparr>maximum_seen := floor, next_sequence := floor + 1, reserved_through := floor,
                               acknowledged := floor, reset_generation := reset\<rparr>) n of
        (e, c, n') \<Rightarrow> (e, if e = ESP_OK then c else st, n'))"

subsection \<open>Storage\<close>

definition seq_wf :: "pm_sequence_state \<Rightarrow> bool" where
  "seq_wf st \<longleftrightarrow> next_sequence st > 0 \<and> reserved_through st \<ge> next_sequence st - 1 \<and>
     maximum_seen st < next_sequence st \<and> acknowledged st \<le> maximum_seen st"

lemma sealed_slot_simps [simp]:
  "slot_state (sealed_slot st) = st\<lparr>seq_generation := seq_generation st + 1\<rparr>" "slot_valid (sealed_slot st) = seq_wf st"
  by (simp_all add: sealed_slot_def Let_def slot_valid_def seq_wf_def slot_crc_def)

lemma seq_wf_generation [simp]: "seq_wf (st\<lparr>seq_generation := g\<rparr>) = seq_wf st"
  by (simp add: seq_wf_def)

lemma seq_read_slot_store:
  "seq_read_slot k n = (r, n') \<Longrightarrow> blobs n' = blobs n \<and> u8s n' = u8s n"
  unfolding seq_read_slot_def by (auto split: prod.splits dest: nvs_read_eq(3))

lemma seq_read_slot_ok: "fst (seq_read_slot k n) = Inr s \<Longrightarrow> blobs n k = Some (Blob s) \<and> slot_valid s"
  unfolding seq_read_slot_def
  using nvs_get_blob_ok [of k n] by (auto split: prod.splits blob_read.splits if_splits)

lemma seq_read_slot_not_ok: "fst (seq_read_slot k n) \<noteq> Inl ESP_OK"
  by (auto simp: seq_read_slot_def nvs_get_blob_def
      split: prod.splits blob_read.splits if_splits option.splits blob.splits)

lemma seq_read_slot_absent:
  "honest n \<Longrightarrow> fst (seq_read_slot k n) = Inl ESP_ERR_NVS_NOT_FOUND \<Longrightarrow> blobs n k = None"
  using nvs_get_blob_not_found [of n k]
  by (auto simp: seq_read_slot_def split: prod.splits blob_read.splits if_splits)

lemma seq_read_slot_honest: "honest n \<Longrightarrow> honest (snd (seq_read_slot k n))"
  using honest_ops(3) [of n k] by (auto simp: seq_read_slot_def split: prod.splits)

text \<open>What a write leaves: the slots as they were, or one of them replaced by the sealed state.\<close>

definition slot_written :: "pm_sequence_state \<Rightarrow> sequence_slot nvs \<Rightarrow> sequence_slot nvs \<Rightarrow> bool" where
  "slot_written st n n' \<longleftrightarrow> (\<exists>k. (k = ''slot_a'' \<or> k = ''slot_b'') \<and> blobs n' = (blobs n)(k \<mapsto> Blob (sealed_slot st)))"

lemma write_inactive_cases:
  assumes "write_inactive active st n = (e, st', n')"
  shows "if e = ESP_OK then st' = st\<lparr>seq_generation := seq_generation st + 1\<rparr> \<and> slot_written st n n'
    else st' = st \<and> (blobs n' = blobs n \<or> slot_written st n n')"
proof -
  define inactive where "inactive = (if active = CHR ''A'' then CHR ''B'' else CHR ''A'')"
  define key where "key = (if inactive = CHR ''A'' then ''slot_a'' else ''slot_b'')"
  obtain e0 n0 where w: "nvs_set_blob key (sealed_slot st) n = (e0, n0)" by (metis prod.exhaust)
  obtain e1 n1 where c: "nvs_commit n0 = (e1, n1)" by (metis prod.exhaust)
  obtain r n2 where rd: "seq_read_slot key n1 = (r, n2)" by (metis prod.exhaust)
  obtain e3 n3 where u: "nvs_set_u8 ''active'' (of_char inactive) n2 = (e3, n3)" by (metis prod.exhaust)
  obtain e4 n4 where c4: "nvs_commit n3 = (e4, n4)" by (metis prod.exhaust)
  have b: "blobs n1 = blobs n0" "blobs n2 = blobs n0" "blobs n3 = blobs n0" "blobs n4 = blobs n0"
    using nvs_read_eq(2) [OF c] seq_read_slot_store [OF rd] nvs_write_eq(2) [OF u] nvs_read_eq(2) [OF c4] by simp_all
  have n0: "blobs n0 = (if e0 = ESP_OK then (blobs n)(key \<mapsto> Blob (sealed_slot st)) else blobs n)"
    using nvs_write_eq(1) [OF w] by simp
  have k: "key = ''slot_a'' \<or> key = ''slot_b''" by (simp add: key_def)
  have nok: "r \<noteq> Inl ESP_OK" using seq_read_slot_not_ok [of key n1] by (simp add: rd)
  note step = assms [unfolded write_inactive_def Let_def, folded inactive_def, folded key_def, unfolded w]
  show ?thesis
  proof (cases "e0 = ESP_OK \<and> e1 = ESP_OK \<and> r = Inr (sealed_slot st)")
    case True
    then have "slot_written st n n4" "slot_written st n n3" using n0 b k by (auto simp: slot_written_def)
    moreover have "(e, st', n') = (if e3 = ESP_OK then (e4, if e4 = ESP_OK then slot_state (sealed_slot st) else st, n4)
        else (e3, st, n3))"
      using step True by (simp add: ok_then_def c rd u c4 del: sealed_slot_simps split del: if_split split: if_split_asm)
    ultimately show ?thesis by (auto split: if_splits)
  next
    case False
    have *: "e \<noteq> ESP_OK \<and> st' = st \<and> (n' = n0 \<or> n' = n1 \<or> n' = n2)"
      using step False nok by (auto simp: c rd ok_then_def split: if_splits sum.splits)
    then have bn: "blobs n' = blobs n0" using b by auto
    have "blobs n' = blobs n \<or> slot_written st n n'"
    proof (cases "e0 = ESP_OK")
      case True
      then show ?thesis using bn n0 k unfolding slot_written_def by auto
    next
      case False
      then show ?thesis using bn n0 by simp
    qed
    with * show ?thesis by simp
  qed
qed

lemma seq_persist_cases:
  assumes "seq_persist st n = (e, st', n')"
  shows "if e = ESP_OK then seq_generation st \<noteq> - 1 \<and> st' = st\<lparr>seq_generation := seq_generation st + 1\<rparr> \<and> slot_written st n n'
    else st' = st \<and> (blobs n' = blobs n \<or> seq_generation st \<noteq> - 1 \<and> slot_written st n n')"
proof (cases "seq_generation st = - 1")
  case True
  with assms show ?thesis by (auto simp: seq_persist_def)
next
  case False
  obtain e0 n1 where o: "nvs_open n = (e0, n1)" by (metis prod.exhaust)
  obtain sel n2 where s: "nvs_get_u8 ''active'' n1 = (sel, n2)" by (metis prod.exhaust)
  have b: "blobs n1 = blobs n" "blobs n2 = blobs n" using nvs_read_eq(1) [OF o] nvs_read_eq(4) [OF s] by simp_all
  have sw: "slot_written st n2 x = slot_written st n x" for x by (simp add: slot_written_def b)
  have nok: "sel \<noteq> Inl ESP_OK" using nvs_get_u8_not_Inl_OK [of "''active''" n1] s by simp
  consider (stop) "e \<noteq> ESP_OK" "st' = st" "blobs n' = blobs n"
    | (go) active where "write_inactive active st n2 = (e, st', n')"
  proof (cases "e0 = ESP_OK")
    case False
    with assms \<open>seq_generation st \<noteq> - 1\<close> b show ?thesis by (intro stop) (simp_all add: seq_persist_def o)
  next
    case ok: True
    note p = assms [unfolded seq_persist_def Let_def o prod.case s]
    show ?thesis
    proof (cases sel)
      case (Inl e1)
      with nok have "e1 \<noteq> ESP_OK" by simp
      with p False ok b Inl stop go show ?thesis by (simp split: if_split_asm)
    next
      case (Inr a)
      with p False ok b stop go show ?thesis by (simp del: of_char_Char split: if_split_asm)
    qed
  qed
  then show ?thesis
  proof cases
    case stop
    then show ?thesis by simp
  next
    case go
    from write_inactive_cases [OF this] False show ?thesis unfolding sw b(2) by (simp split: if_split_asm)
  qed
qed

subsection \<open>Histories\<close>

text \<open>
  Before each operation the environment chooses the outcome of the storage calls it makes; a
  restart forgets the state in RAM and loads it again. \<open>issued\<close> is what \<open>pm_sequence_next\<close> handed out with
  \<open>ESP_OK\<close>, the latest first.
\<close>

definition with_faults :: "esp_err list \<Rightarrow> 'a nvs \<Rightarrow> 'a nvs" where
  "with_faults fs n = n\<lparr>faults := fs\<rparr>"

lemma with_faults_store [simp]: "blobs (with_faults fs n) = blobs n" "u8s (with_faults fs n) = u8s n"
  "honest (with_faults fs n) \<longleftrightarrow> ESP_ERR_NVS_NOT_FOUND \<notin> set fs"
  by (simp_all add: with_faults_def honest_def)

definition loaded :: "esp_err + pm_sequence_state \<Rightarrow> pm_sequence_state option" where
  "loaded r = (case r of Inl _ \<Rightarrow> None | Inr st \<Rightarrow> Some st)"

inductive seq_reach :: "pm_sequence_state option \<Rightarrow> sequence_slot nvs \<Rightarrow> u64 list \<Rightarrow> bool" where
  start: "blobs n ''slot_a'' = None \<Longrightarrow> blobs n ''slot_b'' = None \<Longrightarrow> seq_reach None n []"
| restart: "seq_reach st n issued \<Longrightarrow> ESP_ERR_NVS_NOT_FOUND \<notin> set fs \<Longrightarrow>
     pm_sequence_load (with_faults fs n) = (r, n') \<Longrightarrow> seq_reach (loaded r) n' issued"
| allocate: "seq_reach (Some st) n issued \<Longrightarrow> pm_sequence_next st (with_faults fs n) = (e, x, st', n') \<Longrightarrow>
     seq_reach (Some st') n' (case x of Some q \<Rightarrow> if e = ESP_OK then q # issued else issued | None \<Rightarrow> issued)"
| acknowledge: "seq_reach (Some st) n issued \<Longrightarrow> pm_sequence_acknowledge st ack (with_faults fs n) = (e, st', n') \<Longrightarrow>
     seq_reach (Some st') n' issued"
| raise_floor: "seq_reach (Some st) n issued \<Longrightarrow> pm_sequence_raise_floor st floor reset (with_faults fs n) = (e, st', n') \<Longrightarrow>
     seq_reach (Some st') n' issued"

text \<open>
  \<open>seen\<close> is the highest number handed out. Every valid slot is at most one generation ahead of RAM, and
  then it has seen as much; one slot of the current or the next generation exists.
\<close>

definition seq_slots :: "(string \<Rightarrow> sequence_slot blob option) \<Rightarrow> pm_sequence_state set" where
  "seq_slots m = {slot_state s | s k. (k = ''slot_a'' \<or> k = ''slot_b'') \<and> m k = Some (Blob s) \<and> slot_valid s}"

definition seq_ahead :: "u32 \<Rightarrow> u64 \<Rightarrow> sequence_slot nvs \<Rightarrow> bool" where
  "seq_ahead g seen n \<longleftrightarrow>
     (\<forall>y \<in> seq_slots (blobs n). unat (seq_generation y) \<le> Suc (unat g) \<and>
        (unat (seq_generation y) = Suc (unat g) \<longrightarrow> seen \<le> maximum_seen y))"

definition seq_durable :: "u32 \<Rightarrow> u64 \<Rightarrow> sequence_slot nvs \<Rightarrow> bool" where
  "seq_durable g seen n \<longleftrightarrow>
     (\<exists>y \<in> seq_slots (blobs n). unat g \<le> unat (seq_generation y) \<and> seen \<le> maximum_seen y)"

definition seq_inv :: "pm_sequence_state \<Rightarrow> u64 \<Rightarrow> sequence_slot nvs \<Rightarrow> bool" where
  "seq_inv st seen n \<longleftrightarrow> seq_wf st \<and> seen \<le> maximum_seen st \<and>
     seq_ahead (seq_generation st) seen n \<and> seq_durable (seq_generation st) seen n"

lemma seq_slots_written:
  assumes "slot_written c n n'" "seq_wf c"
  shows "seq_slots (blobs n') \<subseteq> insert (c\<lparr>seq_generation := seq_generation c + 1\<rparr>) (seq_slots (blobs n))"
    and "c\<lparr>seq_generation := seq_generation c + 1\<rparr> \<in> seq_slots (blobs n')"
proof -
  obtain k where k: "k = ''slot_a'' \<or> k = ''slot_b''" "blobs n' = (blobs n)(k \<mapsto> Blob (sealed_slot c))"
    using assms(1) by (auto simp: slot_written_def)
  show "seq_slots (blobs n') \<subseteq> insert (c\<lparr>seq_generation := seq_generation c + 1\<rparr>) (seq_slots (blobs n))"
  proof
    fix y assume "y \<in> seq_slots (blobs n')"
    then obtain s j where "y = slot_state s" "j = ''slot_a'' \<or> j = ''slot_b''" "blobs n' j = Some (Blob s)" "slot_valid s"
      unfolding seq_slots_def by blast
    then show "y \<in> insert (c\<lparr>seq_generation := seq_generation c + 1\<rparr>) (seq_slots (blobs n))"
      unfolding k(2) seq_slots_def by (cases "j = k") auto
  qed
  show "c\<lparr>seq_generation := seq_generation c + 1\<rparr> \<in> seq_slots (blobs n')"
    unfolding seq_slots_def k(2) mem_Collect_eq using k(1) assms(2)
    by (intro exI [of _ "sealed_slot c"] exI [of _ k]) simp
qed

text \<open>Every operation is a write of a state that has seen at least as much, taken over on success.\<close>

lemma seq_persist_inv:
  assumes p: "seq_persist c n = (e, c', n')" and inv: "seq_inv st seen n"
    and c: "seq_wf c" "seq_generation c = seq_generation st" "maximum_seen st \<le> maximum_seen c"
  shows "if e = ESP_OK then seq_inv c' seen n' \<and> c' = c\<lparr>seq_generation := seq_generation c + 1\<rparr> \<and>
      seq_ahead (seq_generation c') (maximum_seen c) n' \<and> seq_durable (seq_generation c') (maximum_seen c) n'
    else seq_inv st seen n' \<and> c' = c"
proof -
  let ?s = "c\<lparr>seq_generation := seq_generation c + 1\<rparr>"
  have seen: "seen \<le> maximum_seen c" using inv c(3) by (auto simp: seq_inv_def)
  have written: "seq_ahead (seq_generation st) seen n' \<and> seq_durable (seq_generation st) seen n' \<and>
      seq_ahead (seq_generation c + 1) (maximum_seen c) n' \<and> seq_durable (seq_generation c + 1) (maximum_seen c) n'"
    if w: "slot_written c n n'" and g: "seq_generation c \<noteq> - 1"
  proof -
    have suc: "unat (seq_generation c + 1) = Suc (unat (seq_generation c))" using g by (rule unat_Suc_word)
    have old: "\<forall>y \<in> seq_slots (blobs n). unat (seq_generation y) \<le> Suc (unat (seq_generation c)) \<and>
        (unat (seq_generation y) = Suc (unat (seq_generation c)) \<longrightarrow> seen \<le> maximum_seen y)"
      using inv c(2) by (simp add: seq_inv_def seq_ahead_def)
    note sub = seq_slots_written [OF w c(1)]
    have "seq_ahead (seq_generation st) seen n'" "seq_ahead (seq_generation c + 1) (maximum_seen c) n'"
      unfolding seq_ahead_def using sub(1) old seen suc c(2) by fastforce+
    moreover have "seq_durable (seq_generation st) seen n'" "seq_durable (seq_generation c + 1) (maximum_seen c) n'"
      unfolding seq_durable_def using sub(2) seen suc c(2) by (auto intro!: bexI [of _ ?s])
    ultimately show ?thesis by simp
  qed
  show ?thesis
  proof (cases "e = ESP_OK")
    case True
    with seq_persist_cases [OF p] written have "c' = ?s" "seq_ahead (seq_generation c + 1) (maximum_seen c) n'"
      "seq_durable (seq_generation c + 1) (maximum_seen c) n'" by simp_all
    moreover from this seen have "seq_ahead (seq_generation c + 1) seen n'" "seq_durable (seq_generation c + 1) seen n'"
      unfolding seq_ahead_def seq_durable_def by (meson order_trans)+
    ultimately show ?thesis using True c(1) seen by (simp add: seq_inv_def)
  next
    case False
    have "seq_inv st seen n'" if "blobs n' = blobs n"
      using inv that by (simp add: seq_inv_def seq_ahead_def seq_durable_def)
    with False seq_persist_cases [OF p] written inv show ?thesis by (auto simp: seq_inv_def)
  qed
qed

lemma slot_valid_wf: "slot_valid s \<Longrightarrow> seq_wf (slot_state s)"
  by (simp add: slot_valid_def seq_wf_def)

lemma skip_reserved_inv:
  assumes "skip_reserved y = Inr st" "seq_inv y seen n"
  shows "seq_inv st seen n"
proof -
  have "seq_wf st \<and> maximum_seen st = maximum_seen y \<and> seq_generation st = seq_generation y"
  proof (cases "next_sequence y \<le> reserved_through y")
    case True
    then have r: "reserved_through y \<noteq> - 1" "st = y\<lparr>next_sequence := reserved_through y + 1\<rparr>"
      using assms(1) by (auto simp: skip_reserved_def split: if_splits)
    have "reserved_through y < reserved_through y + 1" using r(1) by (rule word_Suc_gt)
    moreover have "maximum_seen y < next_sequence y" using assms(2) by (simp add: seq_inv_def seq_wf_def)
    ultimately show ?thesis using True assms(2) r(2) by (auto simp: seq_inv_def seq_wf_def word_gt_0)
  next
    case False
    with assms show ?thesis by (auto simp: skip_reserved_def seq_inv_def)
  qed
  with assms(2) show ?thesis by (simp add: seq_inv_def)
qed

text \<open>The newest of the slots, with no disagreement in its generation, has seen everything.\<close>

lemma newest_slot_inv:
  assumes "seq_ahead g seen n" "seq_durable g seen n" "y \<in> seq_slots (blobs n)" "seq_wf y"
    and "\<forall>z \<in> seq_slots (blobs n). seq_generation z \<le> seq_generation y"
    and "\<forall>z \<in> seq_slots (blobs n). seq_generation z = seq_generation y \<longrightarrow> z = y"
  shows "seq_inv y seen n"
proof -
  obtain d where d: "d \<in> seq_slots (blobs n)" "unat g \<le> unat (seq_generation d)" "seen \<le> maximum_seen d"
    using assms(2) by (auto simp: seq_durable_def)
  have gy: "unat (seq_generation d) \<le> unat (seq_generation y)" using assms(5) d(1) by (simp add: word_le_nat_alt)
  have ay: "unat (seq_generation y) \<le> Suc (unat g)" "unat (seq_generation y) = Suc (unat g) \<Longrightarrow> seen \<le> maximum_seen y"
    using assms(1,3) by (auto simp: seq_ahead_def)
  have "seen \<le> maximum_seen y"
  proof (cases "unat (seq_generation y) = Suc (unat g)")
    case True
    then show ?thesis by (rule ay(2))
  next
    case False
    with gy d(2) ay(1) have "unat (seq_generation d) = unat (seq_generation y)" by simp
    then have "d = y" using assms(6) d(1) by (metis word_unat_eq_iff)
    with d(3) show ?thesis by simp
  qed
  moreover have "unat (seq_generation z) \<le> unat (seq_generation y)" if "z \<in> seq_slots (blobs n)" for z
    using assms(5) that by (simp add: word_le_nat_alt)
  ultimately show ?thesis
    using assms(3,4) unfolding seq_inv_def seq_ahead_def seq_durable_def by fastforce
qed

lemma seq_slots_eq:
  "seq_slots m = set (map slot_state (List.filter slot_valid
     (concat (map (\<lambda>k. case m k of Some (Blob s) \<Rightarrow> [s] | _ \<Rightarrow> []) [''slot_a'', ''slot_b'']))))"
  unfolding seq_slots_def by (auto split: option.splits blob.splits) metis+

lemma load_inv:
  assumes l: "pm_sequence_load n = (r, n')" and h: "honest n"
    and inv: "seq_ahead g seen n" "seq_durable g seen n"
  shows "blobs n' = blobs n \<and> (\<forall>st. r = Inr st \<longrightarrow> seq_inv st seen n')"
proof -
  obtain e n1 where o: "nvs_open n = (e, n1)" by (metis prod.exhaust)
  obtain ra n2 where a: "seq_read_slot ''slot_a'' n1 = (ra, n2)" by (metis prod.exhaust)
  obtain rb n3 where b: "seq_read_slot ''slot_b'' n2 = (rb, n3)" by (metis prod.exhaust)
  have bl: "blobs n1 = blobs n" "blobs n2 = blobs n" "blobs n3 = blobs n"
    using nvs_read_eq(1) [OF o] seq_read_slot_store [OF a] seq_read_slot_store [OF b] by simp_all
  have h12: "honest n1" "honest n2"
    using honest_ops(1) [OF h] o seq_read_slot_honest [of n1 "''slot_a''"] a by simp_all
  have A: "ra = Inr x \<Longrightarrow> blobs n ''slot_a'' = Some (Blob x) \<and> slot_valid x"
    "ra = Inl ESP_ERR_NVS_NOT_FOUND \<Longrightarrow> blobs n ''slot_a'' = None" for x
    using seq_read_slot_ok [of "''slot_a''" n1] seq_read_slot_absent [OF h12(1), of "''slot_a''"] a bl by simp_all
  have B: "rb = Inr x \<Longrightarrow> blobs n ''slot_b'' = Some (Blob x) \<and> slot_valid x"
    "rb = Inl ESP_ERR_NVS_NOT_FOUND \<Longrightarrow> blobs n ''slot_b'' = None" for x
    using seq_read_slot_ok [of "''slot_b''" n2] seq_read_slot_absent [OF h12(2), of "''slot_b''"] b bl by simp_all
  have ne: "\<not> (ra = Inl ESP_ERR_NVS_NOT_FOUND \<and> rb = Inl ESP_ERR_NVS_NOT_FOUND)"
    using A(2) B(2) inv(2) by (auto simp: seq_durable_def seq_slots_eq)
  have cong: "seq_inv st seen n3 = seq_inv st seen n" for st
    by (simp add: seq_inv_def seq_ahead_def seq_durable_def bl)
  have skip: "seq_inv st seen n3" if "skip_reserved y = Inr st" "seq_inv y seen n" for y st
    using skip_reserved_inv [OF that] cong by simp
  note load = l [unfolded pm_sequence_load_def Let_def o prod.case a b]
  show ?thesis
  proof (cases "e = ESP_OK")
    case False
    then have "r = Inl e" "n' = n1" using load by simp_all
    with bl(1) show ?thesis by simp
  next
    case ok: True
    show ?thesis
    proof (cases ra; cases rb)
      fix ea eb assume "ra = Inl ea" "rb = Inl eb"
      then have "\<exists>e. r = Inl e" "n' = n3" using load ok ne by (auto split: if_split_asm)
      with bl(3) show ?thesis by auto
    next
      fix x eb assume r: "ra = Inr x" "rb = Inl eb"
      show ?thesis
      proof (cases "eb = ESP_ERR_NVS_NOT_FOUND")
        case True
        have s: "seq_slots (blobs n) = {slot_state x}" using A(1) [OF r(1)] B(2) r True by (simp add: seq_slots_eq)
        have "seq_inv (slot_state x) seen n"
          using A(1) [OF r(1)] slot_valid_wf by (intro newest_slot_inv [OF inv]) (simp_all add: s)
        moreover have "r = skip_reserved (slot_state x)" "n' = n3" using load ok r True by simp_all
        ultimately show ?thesis using skip [of "slot_state x"] bl(3) by simp
      qed (use load ok r bl(3) in \<open>clarsimp\<close>)
    next
      fix x ea assume r: "ra = Inl ea" "rb = Inr x"
      show ?thesis
      proof (cases "ea = ESP_ERR_NVS_NOT_FOUND")
        case True
        have s: "seq_slots (blobs n) = {slot_state x}" using A(2) B(1) [OF r(2)] r True by (simp add: seq_slots_eq)
        have "seq_inv (slot_state x) seen n"
          using B(1) [OF r(2)] slot_valid_wf by (intro newest_slot_inv [OF inv]) (simp_all add: s)
        moreover have "r = skip_reserved (slot_state x)" "n' = n3" using load ok r True by simp_all
        ultimately show ?thesis using skip [of "slot_state x"] bl(3) by simp
      qed (use load ok r bl(3) in \<open>clarsimp\<close>)
    next
      fix x y assume r: "ra = Inr x" "rb = Inr y"
      let ?z = "if seq_generation (slot_state x) \<ge> seq_generation (slot_state y) then x else y"
      have s: "seq_slots (blobs n) = {slot_state x, slot_state y}"
        using A(1) [OF r(1)] B(1) [OF r(2)] by (simp add: seq_slots_eq)
      show ?thesis
      proof (cases "seq_generation (slot_state x) = seq_generation (slot_state y) \<and> slot_state x \<noteq> slot_state y")
        case False
        have "seq_inv (slot_state ?z) seen n"
          using A(1) [OF r(1)] B(1) [OF r(2)] slot_valid_wf [of x] slot_valid_wf [of y] False
          by (intro newest_slot_inv [OF inv]) (simp_all add: s not_le order_less_imp_le, metis)
        moreover have "r = skip_reserved (slot_state ?z)" "n' = n3" using load ok r False by simp_all
        ultimately show ?thesis using skip [of "slot_state ?z"] bl(3) by simp
      qed (use load ok r bl(3) in \<open>clarsimp\<close>)
    qed
  qed
qed

lemma next_inv:
  assumes nx: "pm_sequence_next st n = (e, x, st', n')" and inv: "seq_inv st seen n"
  shows "if e = ESP_OK then \<exists>q. x = Some q \<and> seen < q \<and> seq_inv st' q n' else seq_inv st' seen n'"
proof (cases "next_sequence st = - 1")
  case True
  with nx inv show ?thesis by (auto simp: pm_sequence_next_def)
next
  case False
  let ?c = "st\<lparr>reserved_through := next_sequence st + PM_SEQUENCE_RESERVATION_BLOCK - 1\<rparr>"
  obtain e1 c1 n1 where p: "seq_persist ?c n = (e1, c1, n1)" by (metis prod.exhaust)
  have wf: "seq_wf st" using inv by (simp add: seq_inv_def)
  consider (refused) "e \<noteq> ESP_OK" "seq_inv st' seen n'"
    | (go) st1 n1 where "seq_inv st1 seen n1" "next_sequence st1 \<noteq> - 1" "next_sequence st1 \<le> reserved_through st1"
        "(case seq_persist (st1\<lparr>next_sequence := next_sequence st1 + 1, maximum_seen := next_sequence st1\<rparr>) n1 of
            (e2, c, n2) \<Rightarrow> (e2, Some (next_sequence st1), if e2 = ESP_OK then c else st1, n2)) = (e, x, st', n')"
  proof (cases "next_sequence st > reserved_through st")
    case res: True
    show ?thesis
    proof (cases "- 1 - next_sequence st < PM_SEQUENCE_RESERVATION_BLOCK - 1")
      case True
      with nx res False inv show ?thesis by (intro refused) (auto simp: pm_sequence_next_def)
    next
      case room: False
      have "unat (- 1 - next_sequence st) = 18446744073709551615 - unat (next_sequence st)"
        by (simp add: unat_sub)
      with room have "unat (next_sequence st) + 63 < 2 ^ 64"
        by (simp add: PM_SEQUENCE_RESERVATION_BLOCK_def not_less word_le_nat_alt)
      then have "unat (next_sequence st + 63) = unat (next_sequence st) + 63" by (simp add: unat_word_ariths)
      then have ge: "next_sequence st \<le> next_sequence st + PM_SEQUENCE_RESERVATION_BLOCK - 1"
        by (simp add: PM_SEQUENCE_RESERVATION_BLOCK_def word_le_nat_alt add.commute)
      moreover have "next_sequence st - 1 \<le> next_sequence st"
        using wf by (intro word_sub_le) (simp add: seq_wf_def word_le_nat_alt word_less_nat_alt)
      ultimately have wfc: "seq_wf ?c" using wf by (auto simp: seq_wf_def)
      have step: "if e1 = ESP_OK then seq_inv c1 seen n1 \<and> c1 = ?c\<lparr>seq_generation := seq_generation ?c + 1\<rparr>
        else seq_inv st seen n1"
        using seq_persist_inv [OF p inv wfc] by (auto split: if_splits)
      show ?thesis
      proof (cases "e1 = ESP_OK")
        case True
        with nx res room False p ge step show ?thesis
          by (intro go [of c1 n1]) (auto simp: pm_sequence_next_def Let_def)
      next
        case bad: False
        with nx res room False p step show ?thesis by (intro refused) (auto simp: pm_sequence_next_def Let_def)
      qed
    qed
  next
    case res: False
    with nx False inv show ?thesis by (intro go [of st n]) (auto simp: pm_sequence_next_def Let_def)
  qed
  then show ?thesis
  proof cases
    case refused
    then show ?thesis by simp
  next
    case (go st1 n1)
    let ?q = "next_sequence st1"
    let ?a = "st1\<lparr>next_sequence := ?q + 1, maximum_seen := ?q\<rparr>"
    obtain e2 c n2 where p2: "seq_persist ?a n1 = (e2, c, n2)" by (metis prod.exhaust)
    have wf1: "seq_wf st1" "seen \<le> maximum_seen st1" using go(1) by (simp_all add: seq_inv_def)
    have "?q < ?q + 1" using go(2) by (rule word_Suc_gt)
    then have wfa: "seq_wf ?a" "maximum_seen st1 \<le> maximum_seen ?a"
      using wf1 go(3) by (auto simp: seq_wf_def word_gt_0)
    have "seen < ?q" using wf1 by (auto simp: seq_wf_def)
    with go(4) p2 seq_persist_inv [OF p2 go(1) wfa(1) _ wfa(2)] show ?thesis
      by (auto simp: seq_inv_def split: if_splits)
  qed
qed

lemma acknowledge_inv:
  assumes "pm_sequence_acknowledge st ack n = (e, st', n')" "seq_inv st seen n"
  shows "seq_inv st' seen n'"
proof (cases "ack < acknowledged st \<or> ack > maximum_seen st \<or> ack = acknowledged st")
  case True
  with assms show ?thesis by (auto simp: pm_sequence_acknowledge_def split: if_splits)
next
  case False
  let ?c = "st\<lparr>acknowledged := ack\<rparr>"
  obtain e1 c n1 where p: "seq_persist ?c n = (e1, c, n1)" by (metis prod.exhaust)
  have "seq_wf ?c" using assms(2) False by (simp add: seq_inv_def seq_wf_def not_less)
  with seq_persist_inv [OF p assms(2)] assms(1) False p show ?thesis
    by (auto simp: pm_sequence_acknowledge_def split: if_splits)
qed

lemma raise_floor_inv:
  assumes "pm_sequence_raise_floor st fl reset n = (e, st', n')" "seq_inv st seen n"
  shows "seq_inv st' seen n'"
proof (cases "fl = - 1 \<or> reset = reset_generation st \<or> fl < maximum_seen st \<or> reset < reset_generation st")
  case True
  with assms show ?thesis by (auto simp: pm_sequence_raise_floor_def split: if_splits)
next
  case False
  let ?c = "st\<lparr>maximum_seen := fl, next_sequence := fl + 1, reserved_through := fl, acknowledged := fl, reset_generation := reset\<rparr>"
  obtain e1 c n1 where p: "seq_persist ?c n = (e1, c, n1)" by (metis prod.exhaust)
  have "fl < fl + 1" using False by (intro word_Suc_gt) simp
  then have "seq_wf ?c" by (auto simp: seq_wf_def word_gt_0)
  moreover have "maximum_seen st \<le> maximum_seen ?c" using False by (simp add: not_less)
  ultimately show ?thesis
    using seq_persist_inv [OF p assms(2)] assms(1) False p
    by (auto simp: pm_sequence_raise_floor_def split: if_splits)
qed

definition seq_fresh :: "sequence_slot nvs \<Rightarrow> bool" where
  "seq_fresh n \<longleftrightarrow> blobs n ''slot_a'' = None \<and> blobs n ''slot_b'' = None"

lemma fresh_load:
  assumes l: "pm_sequence_load n = (r, n')" and fresh: "seq_fresh n"
  shows "(\<forall>st. r = Inr st \<longrightarrow> seq_inv st 0 n') \<and> (seq_fresh n' \<or> seq_ahead 0 0 n' \<and> seq_durable 0 0 n')"
proof -
  obtain e n1 where o: "nvs_open n = (e, n1)" by (metis prod.exhaust)
  obtain ra n2 where a: "seq_read_slot ''slot_a'' n1 = (ra, n2)" by (metis prod.exhaust)
  obtain rb n3 where b: "seq_read_slot ''slot_b'' n2 = (rb, n3)" by (metis prod.exhaust)
  obtain e2 st2 n4 where p: "seq_persist initial_sequence n3 = (e2, st2, n4)" by (metis prod.exhaust)
  have bl: "blobs n1 = blobs n" "blobs n2 = blobs n" "blobs n3 = blobs n"
    using nvs_read_eq(1) [OF o] seq_read_slot_store [OF a] seq_read_slot_store [OF b] by simp_all
  have "ra \<noteq> Inr x" "rb \<noteq> Inr x" for x
    using seq_read_slot_ok [of "''slot_a''" n1 x] seq_read_slot_ok [of "''slot_b''" n2 x] a b bl fresh
    by (auto simp: seq_fresh_def)
  then obtain ea eb where r: "ra = Inl ea" "rb = Inl eb" by (metis obj_sumE)
  have init: "seq_wf initial_sequence" "seq_generation initial_sequence = 0" "maximum_seen initial_sequence = 0"
    by (simp_all add: initial_sequence_def seq_wf_def)
  have written: "seq_slots (blobs n4) = {initial_sequence\<lparr>seq_generation := 1\<rparr>}" if "slot_written initial_sequence n3 n4"
  proof -
    have "seq_slots (blobs n3) = {}" using fresh bl(3) by (simp add: seq_slots_eq seq_fresh_def)
    with seq_slots_written [OF that init(1)] init(2) show ?thesis by auto
  qed
  consider "\<exists>e. r = Inl e" "blobs n' = blobs n"
    | "(r, n') = (if e2 = ESP_OK then Inr st2 else Inl e2, n4)"
    using l bl unfolding pm_sequence_load_def Let_def o prod.case a b r
    by (auto simp: p split: if_splits)
  then show ?thesis
  proof cases
    case 1
    with fresh show ?thesis by (auto simp: seq_fresh_def)
  next
    case 2
    have "seq_slots (blobs n4) = {initial_sequence\<lparr>seq_generation := 1\<rparr>} \<Longrightarrow>
        seq_ahead 0 0 n4 \<and> seq_durable 0 0 n4 \<and> seq_inv (initial_sequence\<lparr>seq_generation := 1\<rparr>) 0 n4"
      using init by (simp add: seq_ahead_def seq_durable_def seq_inv_def)
    with 2 seq_persist_cases [OF p] written fresh bl(3) init(2) show ?thesis
      by (cases "e2 = ESP_OK") (auto simp: seq_fresh_def)
  qed
qed

text \<open>The invariant of a history.\<close>

definition last_issued :: "u64 list \<Rightarrow> u64" where
  "last_issued issued = (case issued of [] \<Rightarrow> 0 | q # _ \<Rightarrow> q)"

definition history_inv :: "pm_sequence_state option \<Rightarrow> sequence_slot nvs \<Rightarrow> u64 list \<Rightarrow> bool" where
  "history_inv st n issued \<longleftrightarrow> sorted_wrt (>) issued \<and>
     (case st of Some s \<Rightarrow> seq_inv s (last_issued issued) n
      | None \<Rightarrow> seq_fresh n \<and> issued = [] \<or>
          (\<exists>g. seq_ahead g (last_issued issued) n \<and> seq_durable g (last_issued issued) n))"

lemma sorted_push: "sorted_wrt (>) issued \<Longrightarrow> last_issued issued < q \<Longrightarrow> sorted_wrt (>) (q # issued)"
  by (cases issued) (auto simp: last_issued_def intro: order.strict_trans)

lemma seq_inv_store: "blobs n' = blobs n \<Longrightarrow> seq_inv st seen n' = seq_inv st seen n"
  by (simp add: seq_inv_def seq_ahead_def seq_durable_def)

lemma seq_storage_cong:
  "blobs n' = blobs n \<Longrightarrow> seq_ahead g seen n' = seq_ahead g seen n"
  "blobs n' = blobs n \<Longrightarrow> seq_durable g seen n' = seq_durable g seen n"
  "blobs n' = blobs n \<Longrightarrow> seq_fresh n' = seq_fresh n"
  by (simp_all add: seq_ahead_def seq_durable_def seq_fresh_def)

lemma restart_inv:
  assumes "history_inv st n issued" "ESP_ERR_NVS_NOT_FOUND \<notin> set fs" "pm_sequence_load (with_faults fs n) = (r, n')"
  shows "history_inv (loaded r) n' issued"
proof (cases "seq_fresh n \<and> issued = []")
  case True
  then have "seq_fresh (with_faults fs n)" by (simp add: seq_fresh_def)
  from fresh_load [OF assms(3) this] True show ?thesis
    by (cases r) (auto simp: history_inv_def loaded_def last_issued_def)
next
  case False
  then obtain g where g: "seq_ahead g (last_issued issued) n" "seq_durable g (last_issued issued) n"
    using assms(1) by (auto simp: history_inv_def seq_inv_def split: option.splits)
  have wfn: "blobs (with_faults fs n) = blobs n" by simp
  have "blobs n' = blobs n \<and> (\<forall>s. r = Inr s \<longrightarrow> seq_inv s (last_issued issued) n')"
    using load_inv [OF assms(3), of g "last_issued issued"] assms(2) g seq_storage_cong [OF wfn] by simp
  with assms(1) g seq_storage_cong [of n' n] show ?thesis
    by (cases r) (auto simp: history_inv_def loaded_def)
qed

lemma seq_reach_inv: "seq_reach st n issued \<Longrightarrow> history_inv st n issued"
proof (induction rule: seq_reach.induct)
  case (start n)
  then show ?case by (simp add: history_inv_def seq_fresh_def)
next
  case (restart st n issued fs r n')
  from restart.IH restart.hyps(2,3) show ?case by (rule restart_inv)
next
  case (allocate st n issued fs e x st' n')
  have "seq_inv st (last_issued issued) (with_faults fs n)"
    using allocate.IH seq_inv_store [of "with_faults fs n" n] by (simp add: history_inv_def)
  from next_inv [OF allocate.hyps(2) this] allocate.IH sorted_push show ?case
    by (cases "e = ESP_OK") (auto simp: history_inv_def last_issued_def split: option.splits)
next
  case (acknowledge st n issued ack fs e st' n')
  have "seq_inv st (last_issued issued) (with_faults fs n)"
    using acknowledge.IH seq_inv_store [of "with_faults fs n" n] by (simp add: history_inv_def)
  from acknowledge_inv [OF acknowledge.hyps(2) this] acknowledge.IH show ?case by (simp add: history_inv_def)
next
  case (raise_floor st n issued fl reset fs e st' n')
  have "seq_inv st (last_issued issued) (with_faults fs n)"
    using raise_floor.IH seq_inv_store [of "with_faults fs n" n] by (simp add: history_inv_def)
  from raise_floor_inv [OF raise_floor.hyps(2) this] raise_floor.IH show ?case by (simp add: history_inv_def)
qed

text \<open>
  C18. A sequence number is never handed out twice. Over every history of allocations,
  acknowledgements, raised floors, restarts and failures of any storage call, the numbers that
  \<open>pm_sequence_next\<close> returned with \<open>ESP_OK\<close> are strictly increasing, and the state in RAM has seen them all.
\<close>

theorem sequence_never_reused:
  assumes "seq_reach st n issued"
  shows "sorted_wrt (>) issued \<and> distinct issued \<and> (\<forall>s. st = Some s \<longrightarrow> (\<forall>q \<in> set issued. q \<le> maximum_seen s \<and> q < next_sequence s))"
proof -
  have inv: "history_inv st n issued" using assms by (rule seq_reach_inv)
  then have s: "sorted_wrt (>) issued" by (simp add: history_inv_def)
  have "distinct issued" using s by (induction issued) auto
  moreover have "q \<le> last_issued issued" if "q \<in> set issued" for q
    using s that by (cases issued) (auto simp: last_issued_def)
  moreover have "last_issued issued \<le> maximum_seen s \<and> maximum_seen s < next_sequence s" if "st = Some s" for s
    using inv that by (simp add: history_inv_def seq_inv_def seq_wf_def)
  ultimately show ?thesis using s by fastforce
qed

subsection \<open>With working storage\<close>

definition selector_ok :: "sequence_slot nvs \<Rightarrow> bool" where
  "selector_ok n \<longleftrightarrow> u8s n ''active'' = Some (of_char CHR ''A'') \<or> u8s n ''active'' = Some (of_char CHR ''B'')"

lemma write_inactive_calm:
  assumes "faults n = []" "seq_wf st"
  shows "\<exists>n'. write_inactive active st n = (ESP_OK, st\<lparr>seq_generation := seq_generation st + 1\<rparr>, n') \<and> faults n' = [] \<and> selector_ok n'"
  using assms
  by (simp add: write_inactive_def Let_def nvs_fault_free seq_read_slot_def selector_ok_def)

lemma seq_persist_calm:
  assumes "faults n = []" "seq_wf st" "seq_generation st \<noteq> - 1"
    and "selector_ok n \<or> u8s n ''active'' = None \<and> seq_generation st = 0"
  shows "\<exists>n'. seq_persist st n = (ESP_OK, st\<lparr>seq_generation := seq_generation st + 1\<rparr>, n') \<and> faults n' = [] \<and> selector_ok n'"
proof -
  obtain active where "seq_persist st n = write_inactive active st n"
    using assms(1,3,4) by (auto simp: seq_persist_def nvs_fault_free selector_ok_def)
  with write_inactive_calm [OF assms(1,2), of active] show ?thesis by simp
qed

lemma next_calm:
  assumes "faults n = []" "seq_wf st" "unat (seq_generation st) + 2 < 2 ^ 32" "selector_ok n" "unat (next_sequence st) + 64 < 2 ^ 64"
    and "reserved_through st = next_sequence st - 1"
  shows "\<exists>st' n'. pm_sequence_next st n = (ESP_OK, Some (next_sequence st), st', n')"
proof -
  let ?c = "st\<lparr>reserved_through := next_sequence st + PM_SEQUENCE_RESERVATION_BLOCK - 1\<rparr>"
  let ?c1 = "?c\<lparr>seq_generation := seq_generation st + 1\<rparr>"
  let ?a = "?c1\<lparr>next_sequence := next_sequence st + 1, maximum_seen := next_sequence st\<rparr>"
  have nx: "next_sequence st \<noteq> - 1" "next_sequence st \<noteq> 0" "seq_generation st \<noteq> - 1"
    using assms(2,3,5) by (auto simp: seq_wf_def)
  have r: "reserved_through st < next_sequence st"
    using nx(2) assms(6) by (simp add: word_less_nat_alt unat_minus_one unat_gt_0)
  have "unat (next_sequence st + 63) = unat (next_sequence st) + 63" "unat (next_sequence st + 1) = unat (next_sequence st) + 1"
    using assms(5) by (simp_all add: unat_word_ariths)
  note u = this
  have le: "next_sequence st \<le> next_sequence st + PM_SEQUENCE_RESERVATION_BLOCK - 1"
    using u by (simp add: PM_SEQUENCE_RESERVATION_BLOCK_def word_le_nat_alt add.commute)
  have room: "\<not> - 1 - next_sequence st < PM_SEQUENCE_RESERVATION_BLOCK - 1"
    using assms(5) by (simp add: PM_SEQUENCE_RESERVATION_BLOCK_def word_less_nat_alt unat_sub)
  have "next_sequence st - 1 \<le> next_sequence st" using assms(6) r by simp
  then have wfc: "seq_wf ?c" using assms(2) le by (auto simp: seq_wf_def)
  obtain n1 where p1: "seq_persist ?c n = (ESP_OK, ?c1, n1)" "faults n1 = []" "selector_ok n1"
    using seq_persist_calm [OF assms(1) wfc] nx(3) assms(4) by auto
  have "next_sequence st < next_sequence st + 1" using nx(1) by (rule word_Suc_gt)
  then have wfa: "seq_wf ?a" using assms(2) le by (auto simp: seq_wf_def word_gt_0)
  have "unat (seq_generation st + 1) \<noteq> unat (- 1 :: u32)" using assms(3) unat_Suc_word [OF nx(3)] by simp
  then have "seq_generation st + 1 \<noteq> - 1" by metis
  then have "seq_generation ?a \<noteq> - 1" by simp
  then obtain n2 where p2: "seq_persist ?a n1 = (ESP_OK, ?a\<lparr>seq_generation := seq_generation ?a + 1\<rparr>, n2)"
    using seq_persist_calm [OF p1(2) wfa] p1(3) by blast
  have "?c1\<lparr>next_sequence := next_sequence ?c1 + 1, maximum_seen := next_sequence ?c1\<rparr> = ?a" by simp
  then show ?thesis
    unfolding pm_sequence_next_def Let_def using nx(1) r room p1(1) p2 by simp
qed

abbreviation blank_nvs :: "sequence_slot nvs" where
  "blank_nvs \<equiv> \<lparr>blobs = Map.empty, u8s = Map.empty, faults = []\<rparr>"

lemma initial_sequence_wf: "seq_wf initial_sequence" "seq_generation initial_sequence = 0"
  by (simp_all add: initial_sequence_def seq_wf_def)

lemma with_faults_same: "faults n = [] \<Longrightarrow> with_faults [] n = n"
  by (simp add: with_faults_def)

lemma first_boot:
  "\<exists>n. pm_sequence_load blank_nvs = (Inr (initial_sequence\<lparr>seq_generation := 1\<rparr>), n) \<and> faults n = [] \<and> selector_ok n"
  using seq_persist_calm [of blank_nvs initial_sequence] initial_sequence_wf
  by (auto simp: pm_sequence_load_def nvs_fault_free seq_read_slot_def)

lemma first_allocation: "\<exists>st n. seq_reach (Some st) n [1]"
proof -
  let ?st = "initial_sequence\<lparr>seq_generation := 1\<rparr>"
  obtain n where n: "pm_sequence_load blank_nvs = (Inr ?st, n)" "faults n = []" "selector_ok n" using first_boot by blast
  have "seq_reach None blank_nvs []" by (rule seq_reach.start) simp_all
  then have "seq_reach (loaded (Inr ?st)) n []"
    by (rule seq_reach.restart [where fs = "[]"]) (use n in \<open>simp_all add: with_faults_same\<close>)
  then have r: "seq_reach (Some ?st) n []" by (simp add: loaded_def)
  obtain st' n' where nx: "pm_sequence_next ?st n = (ESP_OK, Some 1, st', n')"
    using next_calm [OF n(2), of ?st] n(3) by (auto simp: initial_sequence_def seq_wf_def)
  from seq_reach.allocate [OF r, of "[]" ESP_OK "Some 1" st' n'] nx n(2) show ?thesis by (auto simp: with_faults_same)
qed

theorem sequence_never_reused_witness:
  "\<exists>st n. seq_reach (Some st) n [1] \<and> distinct [1 :: u64] \<and> 1 < next_sequence st"
  using first_allocation sequence_never_reused [of "Some _" _ "[1]"] by fastforce

text \<open>
  A device that lost power between its very first slot write and the selector write never
  hands out a number: a history of one failed storage call reaches a state that every
  further restart restores and in which, with working storage, \<open>pm_sequence_next\<close> fails with \<open>ESP_ERR_NVS_NOT_FOUND\<close> and
  changes nothing.
\<close>

theorem sequence_stuck_without_selector:
  "\<exists>st n. seq_reach (Some st) n [] \<and> faults n = [] \<and> pm_sequence_load n = (Inr st, n) \<and>
     pm_sequence_next st n = (ESP_ERR_NVS_NOT_FOUND, None, st, n)"
proof -
  let ?st = "initial_sequence\<lparr>seq_generation := 1\<rparr>"
  let ?s = "sealed_slot initial_sequence"
  let ?n = "\<lparr>blobs = [''slot_b'' \<mapsto> Blob ?s], u8s = Map.empty, faults = []\<rparr> :: sequence_slot nvs"
  have s: "slot_valid ?s" "slot_state ?s = ?st" using initial_sequence_wf by simp_all
  have "pm_sequence_load (with_faults (replicate 8 ESP_OK @ [ESP_FAIL]) blank_nvs) = (Inl ESP_FAIL, ?n)"
    using s initial_sequence_wf
    by (simp add: pm_sequence_load_def with_faults_def nvs_open_def nvs_tick.simps seq_read_slot_def nvs_get_blob_def
        seq_persist_def nvs_get_u8_def write_inactive_def Let_def nvs_set_blob_def nvs_commit_def nvs_set_u8_def
        eval_nat_numeral del: sealed_slot_simps)
  moreover have "seq_reach None blank_nvs []" by (rule seq_reach.start) simp_all
  ultimately have "seq_reach (loaded (Inl ESP_FAIL)) ?n []"
    by (intro seq_reach.restart [where fs = "replicate 8 ESP_OK @ [ESP_FAIL]" and st = None and n = blank_nvs]) simp_all
  moreover have l: "pm_sequence_load ?n = (Inr ?st, ?n)"
    using s by (simp add: pm_sequence_load_def nvs_fault_free seq_read_slot_def skip_reserved_def del: sealed_slot_simps)
      (simp add: initial_sequence_def)
  ultimately have "seq_reach (loaded (Inr ?st)) ?n []"
    by (intro seq_reach.restart [where fs = "[]" and n = ?n]) (simp_all add: with_faults_same)
  moreover have "pm_sequence_next ?st ?n = (ESP_ERR_NVS_NOT_FOUND, None, ?st, ?n)"
    by (simp add: pm_sequence_next_def seq_persist_def nvs_fault_free PM_SEQUENCE_RESERVATION_BLOCK_def initial_sequence_def Let_def)
  ultimately show ?thesis using l by (intro exI [of _ ?st] exI [of _ ?n]) (simp add: loaded_def)
qed

end
