(* ===== verification/PM_Meter.thy ===== *)
theory PM_Meter
  imports PM_Crc
begin

text \<open>
  components/pm_meter: the PZEM-004T request and response frames
  (pm_meter_pzem_v4_classic.c) and the driver table with its physical and simulated
  implementations (pm_meter.c). The UART driver of ESP-IDF is a parameter, the record
  \<open>uart\<close>. The locale \<open>meter_driver\<close> is the contract of \<open>pm_meter_driver_ops_t.read\<close>; both
  implementations are interpretations of it.
\<close>

subsection \<open>Data\<close>

datatype pm_pzem_status =
    PM_PZEM_OK | PM_PZEM_TIMEOUT | PM_PZEM_SHORT_FRAME | PM_PZEM_BAD_CRC | PM_PZEM_WRONG_SLAVE
  | PM_PZEM_WRONG_FUNCTION | PM_PZEM_INVALID_RANGE | PM_PZEM_NOT_VERIFIED | PM_PZEM_UART_ERROR

record pm_meter_sample =
  voltage_mv :: int
  current_ma :: int
  active_power_mw :: int
  frequency_mhz :: int
  power_factor_milli :: int
  energy_wh :: u64
  alarm_status :: u16
  status :: pm_pzem_status
  error_code :: u16
  sample_timestamp_utc_ms :: int
  sample_monotonic_us :: int
  time_trusted :: bool
  simulated :: bool

text \<open>The compound literal \<open>(pm_meter_sample_t){.status = st}\<close>: every other field zero.\<close>

definition empty_sample :: "pm_pzem_status \<Rightarrow> pm_meter_sample" where
  "empty_sample st = \<lparr>voltage_mv = 0, current_ma = 0, active_power_mw = 0, frequency_mhz = 0,
     power_factor_milli = 0, energy_wh = 0, alarm_status = 0, status = st, error_code = 0,
     sample_timestamp_utc_ms = 0, sample_monotonic_us = 0, time_trusted = False, simulated = False\<rparr>"

text \<open>\<open>PM_METER_RAW\<close> is a stored value outside the enumeration.\<close>

datatype pm_meter_variant =
  PM_METER_UNSPECIFIED | PM_METER_PZEM004T_V4_CLASSIC | PM_METER_RAW u32

datatype pm_meter_driver_ops = pzem_ops | simulated_ops

record pm_meter_driver =
  drv_ops :: "pm_meter_driver_ops option"
  drv_variant :: pm_meter_variant
  slave_address :: u8
  physical_reads_enabled :: bool
  drv_simulated :: bool
  simulation_tick :: u64

text \<open>
  The ESP-IDF UART driver as the code uses it: the three set-up results, the number of
  bytes a write accepts, and the bytes a read delivers (\<open>None\<close> for its error return).
  \<open>signed_overflow\<close> is the value of a product of two \<open>int32_t\<close> that does not fit, which C leaves undefined: an
  arbitrary function of the exact product.
\<close>

record uart =
  uart_driver_install :: esp_err
  uart_param_config :: esp_err
  uart_set_pin :: esp_err
  uart_write_bytes :: "u8 list \<Rightarrow> int"
  uart_read_bytes :: "nat \<Rightarrow> u8 list option"
  signed_overflow :: "int \<Rightarrow> int"

definition PM_PZEM_REQUEST_SIZE :: nat where "PM_PZEM_REQUEST_SIZE = 8"
definition PM_PZEM_RESPONSE_SIZE :: nat where "PM_PZEM_RESPONSE_SIZE = 25"
definition PM_PZEM_SLAVE_ADDRESS :: u8 where "PM_PZEM_SLAVE_ADDRESS = 1"

subsection \<open>Frames\<close>

definition pm_pzem_v4_classic_build_request :: "u8 \<Rightarrow> u8 list" where
  "pm_pzem_v4_classic_build_request slave =
     (let prefix = [slave, 0x04, 0x00, 0x00, 0x00, 0x0A];
          crc = pm_modbus_crc16 prefix
      in prefix @ [ucast (crc AND 0xFF), ucast (drop_bit 8 crc)])"

definition word_be :: "u8 list \<Rightarrow> u16" where
  "word_be bytes = push_bit 8 (ucast (bytes ! 0)) OR ucast (bytes ! 1)"

definition low_high_words :: "u8 list \<Rightarrow> u32" where
  "low_high_words bytes =
     (let low = ucast (word_be bytes); high = ucast (word_be (drop 2 bytes))
      in low OR push_bit 16 high)"

definition pm_meter_sample_valid :: "pm_meter_sample \<Rightarrow> u16 \<Rightarrow> bool" where
  "pm_meter_sample_valid s ct_rating_a \<longleftrightarrow> ct_rating_a \<noteq> 0 \<and>
     0 \<le> voltage_mv s \<and> voltage_mv s \<le> 300000 \<and> 0 \<le> current_ma s \<and>
     current_ma s \<le> uint ct_rating_a * 1100 \<and> 0 \<le> active_power_mw s \<and>
     active_power_mw s \<le> 30000000 \<and> 40000 \<le> frequency_mhz s \<and>
     frequency_mhz s \<le> 70000 \<and> 0 \<le> power_factor_milli s \<and> power_factor_milli s \<le> 1000"

definition mul_i32 :: "(int \<Rightarrow> int) \<Rightarrow> int \<Rightarrow> int \<Rightarrow> int" where
  "mul_i32 overflow a b = (if - (2 ^ 31) \<le> a * b \<and> a * b < 2 ^ 31 then a * b else overflow (a * b))"

definition decode_registers :: "(int \<Rightarrow> int) \<Rightarrow> u8 list \<Rightarrow> pm_meter_sample" where
  "decode_registers overflow frame = (empty_sample PM_PZEM_OK)
     \<lparr>voltage_mv := uint (word_be (drop 3 frame)) * 100,
      current_ma := to_i32 (uint (low_high_words (drop 5 frame))),
      active_power_mw := mul_i32 overflow (to_i32 (uint (low_high_words (drop 9 frame)))) 100,
      energy_wh := ucast (low_high_words (drop 13 frame)),
      frequency_mhz := uint (word_be (drop 17 frame)) * 100,
      power_factor_milli := uint (word_be (drop 19 frame)) * 10,
      alarm_status := word_be (drop 21 frame)\<rparr>"

definition pm_pzem_v4_classic_parse_response ::
    "(int \<Rightarrow> int) \<Rightarrow> u8 \<Rightarrow> u8 list \<Rightarrow> pm_pzem_status \<times> pm_meter_sample" where
  "pm_pzem_v4_classic_parse_response overflow slave frame =
     (if length frame \<noteq> PM_PZEM_RESPONSE_SIZE
      then (PM_PZEM_SHORT_FRAME, empty_sample PM_PZEM_SHORT_FRAME)
      else let received_crc = ucast (frame ! 23) OR push_bit 8 (ucast (frame ! 24)) in
        if pm_modbus_crc16 (take 23 frame) \<noteq> received_crc
        then (PM_PZEM_BAD_CRC, empty_sample PM_PZEM_BAD_CRC)
        else if frame ! 0 \<noteq> slave then (PM_PZEM_WRONG_SLAVE, empty_sample PM_PZEM_WRONG_SLAVE)
        else if frame ! 1 \<noteq> 0x04 \<or> frame ! 2 \<noteq> 20
        then (PM_PZEM_WRONG_FUNCTION, empty_sample PM_PZEM_WRONG_FUNCTION)
        else let sample = decode_registers overflow frame in
          if \<not> pm_meter_sample_valid sample 100
          then (PM_PZEM_INVALID_RANGE, sample\<lparr>status := PM_PZEM_INVALID_RANGE\<rparr>)
          else (PM_PZEM_OK, sample))"

fun pm_pzem_status_name :: "pm_pzem_status \<Rightarrow> string" where
  "pm_pzem_status_name PM_PZEM_OK = ''ok''"
| "pm_pzem_status_name PM_PZEM_TIMEOUT = ''timeout''"
| "pm_pzem_status_name PM_PZEM_SHORT_FRAME = ''short_frame''"
| "pm_pzem_status_name PM_PZEM_BAD_CRC = ''bad_crc''"
| "pm_pzem_status_name PM_PZEM_WRONG_SLAVE = ''wrong_slave''"
| "pm_pzem_status_name PM_PZEM_WRONG_FUNCTION = ''wrong_function''"
| "pm_pzem_status_name PM_PZEM_INVALID_RANGE = ''invalid_range''"
| "pm_pzem_status_name PM_PZEM_NOT_VERIFIED = ''hardware_identity_not_verified''"
| "pm_pzem_status_name PM_PZEM_UART_ERROR = ''uart_error''"

subsection \<open>Drivers\<close>

definition pzem_initialize :: "uart \<Rightarrow> pm_meter_driver \<Rightarrow> esp_err" where
  "pzem_initialize u drv =
     (if \<not> physical_reads_enabled drv then ESP_ERR_INVALID_STATE
      else if uart_driver_install u \<noteq> ESP_OK \<and> uart_driver_install u \<noteq> ESP_ERR_INVALID_STATE
      then uart_driver_install u
      else if uart_param_config u = ESP_OK then uart_set_pin u else uart_param_config u)"

definition pzem_read ::
    "uart \<Rightarrow> int \<Rightarrow> pm_meter_driver \<Rightarrow> pm_meter_sample \<Rightarrow> esp_err \<times> pm_meter_sample \<times> pm_meter_driver" where
  "pzem_read u now drv sample =
     (if \<not> physical_reads_enabled drv
      then (ESP_ERR_INVALID_STATE, empty_sample PM_PZEM_NOT_VERIFIED, drv)
      else let request = pm_pzem_v4_classic_build_request (slave_address drv) in
        if uart_write_bytes u request \<noteq> int (length request)
        then (ESP_FAIL, sample\<lparr>status := PM_PZEM_UART_ERROR\<rparr>, drv)
        else case uart_read_bytes u PM_PZEM_RESPONSE_SIZE of
          None \<Rightarrow> (ESP_ERR_TIMEOUT, (empty_sample PM_PZEM_TIMEOUT)\<lparr>sample_monotonic_us := now\<rparr>, drv)
        | Some response \<Rightarrow>
            if response = []
            then (ESP_ERR_TIMEOUT, (empty_sample PM_PZEM_TIMEOUT)\<lparr>sample_monotonic_us := now\<rparr>, drv)
            else let (st, parsed) = pm_pzem_v4_classic_parse_response (signed_overflow u) (slave_address drv) response
              in (if st = PM_PZEM_OK then ESP_OK else ESP_ERR_INVALID_RESPONSE,
                  parsed\<lparr>sample_monotonic_us := now\<rparr>, drv))"

definition simulated_initialize :: "pm_meter_driver \<Rightarrow> esp_err" where
  "simulated_initialize drv = ESP_OK"

definition simulated_read ::
    "int \<Rightarrow> pm_meter_driver \<Rightarrow> pm_meter_sample \<Rightarrow> esp_err \<times> pm_meter_sample \<times> pm_meter_driver" where
  "simulated_read now drv sample =
     (let tick = simulation_tick drv; wave = uint (tick mod 120) - 60
      in (ESP_OK,
          (empty_sample PM_PZEM_OK)
            \<lparr>voltage_mv := 120000 + wave * 10,
             current_ma := 5000 + uint (tick mod 100),
             active_power_mw := 580000 + wave * 100,
             frequency_mhz := 60000,
             power_factor_milli := 967,
             energy_wh := tick div 6,
             sample_monotonic_us := now,
             simulated := True\<rparr>,
          drv\<lparr>simulation_tick := tick + 1\<rparr>))"

definition pm_meter_create ::
    "uart \<Rightarrow> pm_meter_driver \<Rightarrow> pm_meter_variant \<Rightarrow> bool \<Rightarrow> bool \<Rightarrow> esp_err \<times> pm_meter_driver" where
  "pm_meter_create u drv variant physical sim =
     (if variant \<noteq> PM_METER_PZEM004T_V4_CLASSIC then (ESP_ERR_NOT_SUPPORTED, drv)
      else let drv' = \<lparr>drv_ops = Some (if sim then simulated_ops else pzem_ops),
                       drv_variant = variant, slave_address = PM_PZEM_SLAVE_ADDRESS,
                       physical_reads_enabled = physical, drv_simulated = sim,
                       simulation_tick = 0\<rparr>
        in (if sim then simulated_initialize drv' else pzem_initialize u drv', drv'))"

definition pm_meter_read ::
    "uart \<Rightarrow> int \<Rightarrow> pm_meter_driver \<Rightarrow> pm_meter_sample \<Rightarrow> esp_err \<times> pm_meter_sample \<times> pm_meter_driver" where
  "pm_meter_read u now drv sample =
     (case drv_ops drv of
        None \<Rightarrow> (ESP_ERR_INVALID_STATE,
                 (empty_sample PM_PZEM_NOT_VERIFIED)\<lparr>sample_monotonic_us := now\<rparr>, drv)
      | Some pzem_ops \<Rightarrow> pzem_read u now drv sample
      | Some simulated_ops \<Rightarrow> simulated_read now drv sample)"

subsection \<open>The register file a frame carries\<close>

text \<open>
  The reference encoder of the meter's side: the documented register layout, big-endian
  words, 32-bit quantities as low word then high word, closed by the CRC, low byte first.
\<close>

definition be_bytes :: "u16 \<Rightarrow> u8 list" where
  "be_bytes w = [ucast (drop_bit 8 w), ucast w]"

definition lh_bytes :: "u32 \<Rightarrow> u8 list" where
  "lh_bytes w = be_bytes (ucast w) @ be_bytes (ucast (drop_bit 16 w))"

definition crc_bytes :: "u16 \<Rightarrow> u8 list" where
  "crc_bytes crc = [ucast crc, ucast (drop_bit 8 crc)]"

record registers =
  reg_voltage :: u16
  reg_current :: u32
  reg_power :: u32
  reg_energy :: u32
  reg_frequency :: u16
  reg_pf :: u16
  reg_alarm :: u16

definition pzem_payload :: "u8 \<Rightarrow> registers \<Rightarrow> u8 list" where
  "pzem_payload slave r = [slave, 0x04, 20] @ be_bytes (reg_voltage r) @ lh_bytes (reg_current r) @
     lh_bytes (reg_power r) @ lh_bytes (reg_energy r) @ be_bytes (reg_frequency r) @
     be_bytes (reg_pf r) @ be_bytes (reg_alarm r)"

definition pzem_frame :: "u8 \<Rightarrow> registers \<Rightarrow> u8 list" where
  "pzem_frame slave r = pzem_payload slave r @ crc_bytes (pm_modbus_crc16 (pzem_payload slave r))"

definition registers_plausible :: "registers \<Rightarrow> bool" where
  "registers_plausible r \<longleftrightarrow> uint (reg_voltage r) \<le> 3000 \<and> uint (reg_current r) \<le> 110000 \<and>
     uint (reg_power r) \<le> 300000 \<and> 400 \<le> uint (reg_frequency r) \<and> uint (reg_frequency r) \<le> 700 \<and>
     uint (reg_pf r) \<le> 100"

definition registers_sample :: "registers \<Rightarrow> pm_meter_sample" where
  "registers_sample r = (empty_sample PM_PZEM_OK)
     \<lparr>voltage_mv := uint (reg_voltage r) * 100, current_ma := uint (reg_current r),
      active_power_mw := uint (reg_power r) * 100, energy_wh := ucast (reg_energy r),
      frequency_mhz := uint (reg_frequency r) * 100, power_factor_milli := uint (reg_pf r) * 10,
      alarm_status := reg_alarm r\<rparr>"

lemma word_be_be_bytes: "word_be (be_bytes w @ zs) = w"
  by (rule bit_word_eqI)
     (auto simp: word_be_def be_bytes_def bit_or_iff bit_push_bit_iff bit_ucast_iff bit_drop_bit_eq)

lemma crc_bytes_join: "ucast (crc_bytes c ! 0) OR push_bit 8 (ucast (crc_bytes c ! 1)) = c"
  by (rule bit_word_eqI)
     (auto simp: crc_bytes_def bit_or_iff bit_push_bit_iff bit_ucast_iff bit_drop_bit_eq)

lemma low_high_words_lh_bytes: "low_high_words (lh_bytes w @ zs) = w"
proof -
  have "drop 2 (lh_bytes w @ zs) = be_bytes (ucast (drop_bit 16 w)) @ zs"
    by (simp add: lh_bytes_def be_bytes_def)
  moreover have "(ucast (ucast w :: u16) :: u32) OR push_bit 16 (ucast (ucast (drop_bit 16 w) :: u16)) = w"
    by (rule bit_word_eqI) (auto simp: bit_or_iff bit_push_bit_iff bit_ucast_iff bit_drop_bit_eq)
  ultimately show ?thesis
    by (simp add: low_high_words_def lh_bytes_def word_be_be_bytes)
qed

lemma length_pzem_payload [simp]: "length (pzem_payload slave r) = 23"
  by (simp add: pzem_payload_def be_bytes_def lh_bytes_def)

lemma length_pzem_frame [simp]: "length (pzem_frame slave r) = 25"
  by (simp add: pzem_frame_def crc_bytes_def)

lemma payload_drops:
  "drop 3 (pzem_payload slave r @ z) = be_bytes (reg_voltage r) @ drop 5 (pzem_payload slave r @ z)"
  "drop 5 (pzem_payload slave r @ z) = lh_bytes (reg_current r) @ drop 9 (pzem_payload slave r @ z)"
  "drop 9 (pzem_payload slave r @ z) = lh_bytes (reg_power r) @ drop 13 (pzem_payload slave r @ z)"
  "drop 13 (pzem_payload slave r @ z) = lh_bytes (reg_energy r) @ drop 17 (pzem_payload slave r @ z)"
  "drop 17 (pzem_payload slave r @ z) = be_bytes (reg_frequency r) @ drop 19 (pzem_payload slave r @ z)"
  "drop 19 (pzem_payload slave r @ z) = be_bytes (reg_pf r) @ drop 21 (pzem_payload slave r @ z)"
  "drop 21 (pzem_payload slave r @ z) = be_bytes (reg_alarm r) @ z"
  by (simp_all add: pzem_payload_def be_bytes_def lh_bytes_def)

lemma decode_registers_frame:
  "decode_registers overflow (pzem_frame slave r) = (registers_sample r)
     \<lparr>current_ma := to_i32 (uint (reg_current r)),
      active_power_mw := mul_i32 overflow (to_i32 (uint (reg_power r))) 100\<rparr>"
proof -
  let ?f = "pzem_frame slave r"
  have "word_be (drop 3 ?f) = reg_voltage r" "word_be (drop 17 ?f) = reg_frequency r"
    "word_be (drop 19 ?f) = reg_pf r" "word_be (drop 21 ?f) = reg_alarm r"
    unfolding pzem_frame_def
    by (simp_all only: payload_drops(1,5,6,7) word_be_be_bytes)
  moreover have "low_high_words (drop 5 ?f) = reg_current r"
    "low_high_words (drop 9 ?f) = reg_power r" "low_high_words (drop 13 ?f) = reg_energy r"
    unfolding pzem_frame_def
    by (simp_all only: payload_drops(2,3,4) low_high_words_lh_bytes)
  ultimately show ?thesis
    by (simp add: decode_registers_def registers_sample_def empty_sample_def)
qed

lemma frame_crc_ok:
  "take 23 (pzem_frame slave r) = pzem_payload slave r"
  "ucast (pzem_frame slave r ! 23) OR push_bit 8 (ucast (pzem_frame slave r ! 24)) =
     pm_modbus_crc16 (pzem_payload slave r)"
  using crc_bytes_join [of "pm_modbus_crc16 (pzem_payload slave r)"]
  by (simp_all add: pzem_frame_def nth_append)

lemma frame_header:
  "pzem_frame slave r ! 0 = slave" "pzem_frame slave r ! Suc 0 = 0x04" "pzem_frame slave r ! 2 = 20"
  by (simp_all add: pzem_frame_def pzem_payload_def)

lemma parse_pzem_frame:
  "pm_pzem_v4_classic_parse_response overflow slave (pzem_frame slave r) =
     (let sample = decode_registers overflow (pzem_frame slave r) in
      if pm_meter_sample_valid sample 100 then (PM_PZEM_OK, sample)
      else (PM_PZEM_INVALID_RANGE, sample\<lparr>status := PM_PZEM_INVALID_RANGE\<rparr>))"
  unfolding pm_pzem_v4_classic_parse_response_def PM_PZEM_RESPONSE_SIZE_def
  by (simp add: frame_crc_ok frame_header Let_def)

lemma registers_sample_valid:
  "registers_plausible r \<Longrightarrow> pm_meter_sample_valid (registers_sample r) 100"
  by (simp add: registers_plausible_def registers_sample_def pm_meter_sample_valid_def
      empty_sample_def)

lemma mul_i32_exact: "0 \<le> x \<Longrightarrow> x \<le> 300000 \<Longrightarrow> mul_i32 overflow x 100 = x * 100"
  by (auto simp: mul_i32_def)

lemma decode_registers_plausible:
  assumes "registers_plausible r"
  shows "decode_registers overflow (pzem_frame slave r) = registers_sample r"
proof -
  have "to_i32 (uint (reg_current r)) = uint (reg_current r)"
    using assms by (intro to_i32_id_nonneg) (auto simp: registers_plausible_def)
  moreover have p: "to_i32 (uint (reg_power r)) = uint (reg_power r)"
    using assms by (intro to_i32_id_nonneg) (auto simp: registers_plausible_def)
  moreover have "mul_i32 overflow (uint (reg_power r)) 100 = uint (reg_power r) * 100"
    using assms by (intro mul_i32_exact) (simp_all add: registers_plausible_def)
  ultimately show ?thesis
    unfolding decode_registers_frame by (simp add: registers_sample_def empty_sample_def)
qed

text \<open>
  C12. Round trip of the PZEM protocol: for every register file inside the accepted ranges
  (up to 300 V, 110 A, 30 kW, 40 to 70 Hz, power factor 1), parsing the frame the meter
  sends for it succeeds and yields exactly the registers' values in the sample's units
  (mV, mA, mW, Wh, mHz, thousandths), with no overflow of the 32-bit fields.
\<close>

theorem pzem_parse_roundtrip:
  assumes "registers_plausible r"
  shows "pm_pzem_v4_classic_parse_response overflow slave (pzem_frame slave r) =
     (PM_PZEM_OK, registers_sample r)"
  using assms
  by (simp add: parse_pzem_frame decode_registers_plausible registers_sample_valid)

theorem pzem_parse_roundtrip_witness:
  "let r = \<lparr>reg_voltage = 1203, reg_current = 70000, reg_power = 8412, reg_energy = 123456,
            reg_frequency = 600, reg_pf = 99, reg_alarm = 0\<rparr> in
   registers_plausible r \<and>
   pm_pzem_v4_classic_parse_response (\<lambda>_. 0) 1 (pzem_frame 1 r) = (PM_PZEM_OK, registers_sample r) \<and>
   active_power_mw (registers_sample r) = 841200"
proof -
  let ?r = "\<lparr>reg_voltage = 1203, reg_current = 70000, reg_power = 8412, reg_energy = 123456,
            reg_frequency = 600, reg_pf = 99, reg_alarm = 0\<rparr>"
  have h: "registers_plausible ?r" by (simp add: registers_plausible_def)
  then show ?thesis
    using pzem_parse_roundtrip [OF h, of "\<lambda>_. 0" 1] by (simp add: registers_sample_def)
qed

subsection \<open>Corrupted frames\<close>

definition join_bytes :: "u8 \<Rightarrow> u8 \<Rightarrow> u16" where
  "join_bytes lo hi = ucast lo OR push_bit 8 (ucast hi)"

lemma join_bytes_low: "ucast (join_bytes lo hi) = lo"
  by (rule bit_word_eqI) (auto simp: join_bytes_def bit_or_iff bit_push_bit_iff bit_ucast_iff)

lemma join_bytes_high: "ucast (drop_bit 8 (join_bytes lo hi)) = hi"
  by (rule bit_word_eqI)
     (auto simp: join_bytes_def bit_or_iff bit_push_bit_iff bit_ucast_iff bit_drop_bit_eq
       dest: bit_imp_le_length)

lemma join_bytes_inject: "join_bytes a b = join_bytes c d \<longleftrightarrow> a = c \<and> b = d"
  by (metis join_bytes_high join_bytes_low)

definition crc_matches :: "u8 list \<Rightarrow> bool" where
  "crc_matches frame \<longleftrightarrow>
     length frame = 25 \<and> pm_modbus_crc16 (take 23 frame) = join_bytes (frame ! 23) (frame ! 24)"

lemma parse_status_crc:
  "fst (pm_pzem_v4_classic_parse_response overflow slave f) \<notin> {PM_PZEM_SHORT_FRAME, PM_PZEM_BAD_CRC} \<longleftrightarrow>
     crc_matches f"
  by (auto simp: pm_pzem_v4_classic_parse_response_def crc_matches_def join_bytes_def
      PM_PZEM_RESPONSE_SIZE_def Let_def)

lemma parse_bad_crc:
  "length f = 25 \<Longrightarrow> \<not> crc_matches f \<Longrightarrow>
     pm_pzem_v4_classic_parse_response overflow slave f = (PM_PZEM_BAD_CRC, empty_sample PM_PZEM_BAD_CRC)"
  by (simp add: pm_pzem_v4_classic_parse_response_def crc_matches_def join_bytes_def
      PM_PZEM_RESPONSE_SIZE_def)

lemma crc_matches_update:
  assumes "crc_matches f" and i: "i < 25" and "b \<noteq> f ! i"
  shows "\<not> crc_matches (f[i := b])"
proof
  assume "crc_matches (f[i := b])"
  with assms(1) have crc: "pm_modbus_crc16 (take 23 f) = join_bytes (f ! 23) (f ! 24)"
    "pm_modbus_crc16 (take 23 (f[i := b])) = join_bytes (f[i := b] ! 23) (f[i := b] ! 24)"
    and len: "length f = 25"
    by (auto simp: crc_matches_def)
  consider "i < 23" | "i = 23 \<or> i = 24" using i by linarith
  then show False
  proof cases
    case 1
    then have "pm_modbus_crc16 ((take 23 f)[i := b]) = pm_modbus_crc16 (take 23 f)"
      using crc len by (simp add: take_update_swap nth_list_update)
    with 1 len assms(3) show False
      by (simp add: modbus_detects_update)
  next
    case 2
    then have "take 23 (f[i := b]) = take 23 f" by auto
    with crc have "join_bytes (f ! 23) (f ! 24) = join_bytes (f[i := b] ! 23) (f[i := b] ! 24)"
      by simp
    with 2 len assms(3) show False
      by (auto simp: join_bytes_inject)
  qed
qed

text \<open>
  Integrity of the meter link: take any frame whose CRC the parser accepts (whatever
  the verdict on its address, function or ranges) and change one byte of it, in the
  payload or in the CRC itself. The parser answers \<open>PM_PZEM_BAD_CRC\<close> and the sample carries
  no measurement.
\<close>

theorem pzem_single_byte_corruption_rejected:
  assumes "fst (pm_pzem_v4_classic_parse_response overflow slave f) \<notin> {PM_PZEM_SHORT_FRAME, PM_PZEM_BAD_CRC}"
    and "i < 25" and "b \<noteq> f ! i"
  shows "pm_pzem_v4_classic_parse_response overflow slave (f[i := b]) =
     (PM_PZEM_BAD_CRC, empty_sample PM_PZEM_BAD_CRC)"
proof -
  from assms(1) have "crc_matches f"
    by (simp only: parse_status_crc)
  then show ?thesis
    using assms(2,3) by (intro parse_bad_crc crc_matches_update) (auto simp: crc_matches_def)
qed

theorem pzem_single_byte_corruption_rejected_witness:
  "let r = \<lparr>reg_voltage = 1203, reg_current = 70000, reg_power = 8412, reg_energy = 123456,
            reg_frequency = 600, reg_pf = 99, reg_alarm = 0\<rparr>; f = pzem_frame 1 r in
   fst (pm_pzem_v4_classic_parse_response (\<lambda>_. 0) 1 f) \<notin> {PM_PZEM_SHORT_FRAME, PM_PZEM_BAD_CRC} \<and>
   2 \<noteq> f ! 0 \<and>
   pm_pzem_v4_classic_parse_response (\<lambda>_. 0) 1 (f[0 := 2]) =
     (PM_PZEM_BAD_CRC, empty_sample PM_PZEM_BAD_CRC)"
proof -
  let ?r = "\<lparr>reg_voltage = 1203, reg_current = 70000, reg_power = 8412, reg_energy = 123456,
            reg_frequency = 600, reg_pf = 99, reg_alarm = 0\<rparr>"
  have "registers_plausible ?r" by (simp add: registers_plausible_def)
  then have "fst (pm_pzem_v4_classic_parse_response (\<lambda>_. 0) 1 (pzem_frame 1 ?r))
      \<notin> {PM_PZEM_SHORT_FRAME, PM_PZEM_BAD_CRC}"
    by (simp add: parse_pzem_frame decode_registers_plausible registers_sample_valid)
  moreover have "2 \<noteq> pzem_frame 1 ?r ! 0"
    by (simp add: frame_header)
  ultimately show ?thesis
    using pzem_single_byte_corruption_rejected [of "\<lambda>_. 0" 1 "pzem_frame 1 ?r" 0 2] by (simp add: Let_def)
qed

lemma decoded_valid:
  "pm_meter_sample_valid (decode_registers overflow (pzem_frame slave r)) 100 \<longleftrightarrow>
     registers_plausible (r\<lparr>reg_power := 0\<rparr>) \<and> 0 \<le> mul_i32 overflow (to_i32 (uint (reg_power r))) 100 \<and>
     mul_i32 overflow (to_i32 (uint (reg_power r))) 100 \<le> 30000000"
proof -
  have "0 \<le> to_i32 (uint (reg_current r)) \<and> to_i32 (uint (reg_current r)) \<le> 110000 \<longleftrightarrow> uint (reg_current r) \<le> 110000"
    by (rule to_i32_within) simp_all
  then show ?thesis
    unfolding decode_registers_frame by (auto simp: pm_meter_sample_valid_def registers_sample_def registers_plausible_def empty_sample_def)
qed

text \<open>
  C16. What the range check lets through, over every register file that arrives in a well-formed frame. As long as the power register times
  100 fits in \<open>int32_t\<close> a frame is accepted exactly when all its registers are inside the documented limits, and then the sample holds
  their values. When it does not fit (more than 2.1 MW, which is never plausible) the check sees the result of a
  signed overflow: the frame is accepted exactly when the other registers are inside their limits and the
  undefined value happens to lie between 0 and 30 kW.
\<close>

theorem pzem_acceptance_exact:
  "let power = to_i32 (uint (reg_power r)) * 100; (st, sample) = pm_pzem_v4_classic_parse_response overflow slave (pzem_frame slave r) in
     st \<in> {PM_PZEM_OK, PM_PZEM_INVALID_RANGE} \<and>
     (if - (2 ^ 31) \<le> power \<and> power < 2 ^ 31
      then (st = PM_PZEM_OK \<longleftrightarrow> registers_plausible r) \<and> (st = PM_PZEM_OK \<longrightarrow> sample = registers_sample r)
      else \<not> registers_plausible r \<and>
        (st = PM_PZEM_OK \<longleftrightarrow> registers_plausible (r\<lparr>reg_power := 0\<rparr>) \<and> 0 \<le> overflow power \<and> overflow power \<le> 30000000))"
proof -
  let ?p = "to_i32 (uint (reg_power r))"
  have range: "0 \<le> ?p \<and> ?p \<le> 300000 \<longleftrightarrow> uint (reg_power r) \<le> 300000" by (rule to_i32_within) simp_all
  have split: "registers_plausible r \<longleftrightarrow> registers_plausible (r\<lparr>reg_power := 0\<rparr>) \<and> uint (reg_power r) \<le> 300000"
    by (auto simp: registers_plausible_def)
  show ?thesis
  proof (cases "- (2 ^ 31) \<le> ?p * 100 \<and> ?p * 100 < 2 ^ 31")
    case True
    then have "mul_i32 overflow ?p 100 = ?p * 100" unfolding mul_i32_def by (rule if_P)
    then have "pm_meter_sample_valid (decode_registers overflow (pzem_frame slave r)) 100 \<longleftrightarrow> registers_plausible r"
      unfolding decoded_valid split range [symmetric] by auto
    then show ?thesis using True decode_registers_plausible [of r overflow slave] by (simp add: parse_pzem_frame Let_def)
  next
    case False
    then have "mul_i32 overflow ?p 100 = overflow (?p * 100)" unfolding mul_i32_def by (rule if_not_P)
    moreover have "\<not> registers_plausible r" using False unfolding split range [symmetric] by auto
    ultimately show ?thesis using False decoded_valid [of overflow slave r] by (auto simp: parse_pzem_frame Let_def)
  qed
qed

theorem pzem_acceptance_exact_witness:
  "let r = \<lparr>reg_voltage = 1200, reg_current = 100, reg_power = 42949673, reg_energy = 0,
            reg_frequency = 600, reg_pf = 100, reg_alarm = 0\<rparr> in
   fst (pm_pzem_v4_classic_parse_response (\<lambda>_. 4) 1 (pzem_frame 1 r)) = PM_PZEM_OK \<and>
   fst (pm_pzem_v4_classic_parse_response (\<lambda>_. - 1) 1 (pzem_frame 1 r)) = PM_PZEM_INVALID_RANGE \<and>
   fst (pm_pzem_v4_classic_parse_response (\<lambda>_. 4) 1 (pzem_frame 1 (r\<lparr>reg_power := 300001\<rparr>))) = PM_PZEM_INVALID_RANGE"
proof -
  let ?r = "\<lparr>reg_voltage = 1200, reg_current = 100, reg_power = 42949673, reg_energy = 0,
            reg_frequency = 600, reg_pf = 100, reg_alarm = 0\<rparr>"
  have p: "to_i32 42949673 = 42949673" "to_i32 300001 = 300001" by (simp_all add: to_i32_id_nonneg)
  show ?thesis
    using pzem_acceptance_exact [of ?r "\<lambda>_. 4" 1] pzem_acceptance_exact [of ?r "\<lambda>_. - 1" 1]
      pzem_acceptance_exact [of "?r\<lparr>reg_power := 300001\<rparr>" "\<lambda>_. 4" 1]
    by (auto simp: Let_def p registers_plausible_def split: prod.splits)
qed

subsection \<open>The driver contract\<close>

text \<open>
  What \<open>measurement_task\<close> relies on of a driver's \<open>read\<close>: success and only success delivers
  a sample marked \<open>PM_PZEM_OK\<close>, such a sample is inside the physical ranges, and the time
  of a successful sample is the clock's. A driver whose physical reads are disabled and
  which is not the simulator never succeeds.
\<close>

locale meter_driver =
  fixes read :: "int \<Rightarrow> pm_meter_driver \<Rightarrow> pm_meter_sample \<Rightarrow>
      esp_err \<times> pm_meter_sample \<times> pm_meter_driver"
    and is_simulated :: bool
  assumes ok_status: "read now drv s = (ESP_OK, s', drv') \<Longrightarrow> status s' = PM_PZEM_OK"
    and err_status: "read now drv s = (e, s', drv') \<Longrightarrow> e \<noteq> ESP_OK \<Longrightarrow> status s' \<noteq> PM_PZEM_OK"
    and ok_valid: "read now drv s = (ESP_OK, s', drv') \<Longrightarrow>
      pm_meter_sample_valid s' 100 \<and> simulated s' = is_simulated \<and> sample_monotonic_us s' = now"
begin

lemma ok_iff: "fst (read now drv s) = ESP_OK \<longleftrightarrow> status (fst (snd (read now drv s))) = PM_PZEM_OK"
  using ok_status [of now drv s] err_status [of now drv s] by (cases "read now drv s") auto

lemma ok_measured:
  "fst (read now drv s) = ESP_OK \<Longrightarrow>
     pm_meter_sample_valid (fst (snd (read now drv s))) 100 \<and>
     simulated (fst (snd (read now drv s))) = is_simulated"
  using ok_valid [of now drv s] by (cases "read now drv s") auto

end

lemma parse_sample_status: "status (snd (pm_pzem_v4_classic_parse_response overflow slave f)) =
    fst (pm_pzem_v4_classic_parse_response overflow slave f)"
  by (simp add: pm_pzem_v4_classic_parse_response_def empty_sample_def decode_registers_def Let_def)

lemma parse_ok_sample:
  "pm_pzem_v4_classic_parse_response overflow slave f = (PM_PZEM_OK, s) \<Longrightarrow>
     pm_meter_sample_valid s 100 \<and> \<not> simulated s \<and> status s = PM_PZEM_OK"
  by (auto simp: pm_pzem_v4_classic_parse_response_def decode_registers_def empty_sample_def Let_def
      split: if_splits)

interpretation pzem: meter_driver "pzem_read u" False for u
proof
  fix now drv s s' drv' e
  show "pzem_read u now drv s = (ESP_OK, s', drv') \<Longrightarrow> status s' = PM_PZEM_OK"
    by (auto simp: pzem_read_def Let_def dest: parse_ok_sample
        split: if_splits option.splits prod.splits)
  show "pzem_read u now drv s = (e, s', drv') \<Longrightarrow> e \<noteq> ESP_OK \<Longrightarrow> status s' \<noteq> PM_PZEM_OK"
    using parse_sample_status [of "signed_overflow u" "slave_address drv" "the (uart_read_bytes u 25)"]
    by (auto simp: pzem_read_def Let_def empty_sample_def PM_PZEM_RESPONSE_SIZE_def
        split: if_splits option.splits prod.splits)
  show "pzem_read u now drv s = (ESP_OK, s', drv') \<Longrightarrow>
      pm_meter_sample_valid s' 100 \<and> simulated s' = False \<and> sample_monotonic_us s' = now"
    by (auto simp: pzem_read_def Let_def pm_meter_sample_valid_def dest!: parse_ok_sample
        split: if_splits option.splits prod.splits)
qed

lemma uint_mod_less: "0 < n \<Longrightarrow> uint (w mod n) < uint n" for w n :: u64
  using pos_mod_bound [of "uint n" "uint w"] by (simp add: uint_mod word_less_def)

interpretation sim: meter_driver simulated_read True
proof
  fix now :: int and drv :: pm_meter_driver and s s' drv' e
  have "uint (simulation_tick drv mod 120) < 120" "uint (simulation_tick drv mod 100) < 100"
    using uint_mod_less [of 120 "simulation_tick drv"] uint_mod_less [of 100 "simulation_tick drv"]
    by simp_all
  then show "simulated_read now drv s = (ESP_OK, s', drv') \<Longrightarrow>
      pm_meter_sample_valid s' 100 \<and> simulated s' = True \<and> sample_monotonic_us s' = now"
    by (auto simp: simulated_read_def Let_def pm_meter_sample_valid_def empty_sample_def)
qed (auto simp: simulated_read_def Let_def empty_sample_def)

text \<open>
  \<open>pm_meter_read\<close> through any driver table: it returns \<open>ESP_OK\<close> exactly when the sample
  is marked \<open>PM_PZEM_OK\<close>; such a sample is inside the physical ranges, its \<open>simulated\<close> mark
  tells which driver produced it, and a physical driver that is not enabled never yields
  one.
\<close>

theorem pm_meter_read_ok_iff_measured:
  "let (e, s', drv') = pm_meter_read u now drv s in
     (e = ESP_OK) = (status s' = PM_PZEM_OK) \<and>
     (status s' = PM_PZEM_OK \<longrightarrow>
        pm_meter_sample_valid s' 100 \<and> simulated s' = (drv_ops drv = Some simulated_ops) \<and>
        (simulated s' \<or> physical_reads_enabled drv))"
proof (cases "drv_ops drv")
  case None
  then show ?thesis by (simp add: pm_meter_read_def empty_sample_def)
next
  case (Some ops)
  show ?thesis
  proof (cases ops)
    case pzem_ops
    have "\<not> physical_reads_enabled drv \<Longrightarrow> fst (pzem_read u now drv s) \<noteq> ESP_OK"
      by (simp add: pzem_read_def)
    then show ?thesis
      using Some pzem_ops pzem.ok_iff [of u now drv s] pzem.ok_measured [of u now drv s]
      by (auto simp: pm_meter_read_def split: prod.splits)
  next
    case simulated_ops
    then show ?thesis
      using Some sim.ok_iff [of now drv s] sim.ok_measured [of now drv s]
      by (auto simp: pm_meter_read_def split: prod.splits)
  qed
qed

theorem pm_meter_read_ok_iff_measured_witness:
  "let drv = \<lparr>drv_ops = Some simulated_ops, drv_variant = PM_METER_PZEM004T_V4_CLASSIC,
              slave_address = 1, physical_reads_enabled = False, drv_simulated = True,
              simulation_tick = 7\<rparr>;
       u = \<lparr>uart_driver_install = ESP_OK, uart_param_config = ESP_OK, uart_set_pin = ESP_OK,
            uart_write_bytes = (\<lambda>_. 0), uart_read_bytes = (\<lambda>_. None), signed_overflow = (\<lambda>_. 0)\<rparr>;
       (e, s', drv') = pm_meter_read u 5 drv (empty_sample PM_PZEM_OK) in
   e = ESP_OK \<and> status s' = PM_PZEM_OK \<and> pm_meter_sample_valid s' 100 \<and> simulated s'"
  using pm_meter_read_ok_iff_measured
    [of "\<lparr>uart_driver_install = ESP_OK, uart_param_config = ESP_OK, uart_set_pin = ESP_OK,
           uart_write_bytes = (\<lambda>_. 0), uart_read_bytes = (\<lambda>_. None), signed_overflow = (\<lambda>_. 0)\<rparr>" 5
        "\<lparr>drv_ops = Some simulated_ops, drv_variant = PM_METER_PZEM004T_V4_CLASSIC,
           slave_address = 1, physical_reads_enabled = False, drv_simulated = True,
           simulation_tick = 7\<rparr>" "empty_sample PM_PZEM_OK"]
  by (simp add: pm_meter_read_def simulated_read_def empty_sample_def)

end
