(* ===== verification/PM_Telemetry.thy ===== *)
theory PM_Telemetry
  imports PM_Meter
begin

text \<open>
  components/pm_telemetry: the fixed-memory latest-value-wins slot between the measurement
  task and the network task, the retry backoff and the fixed-deadline scheduler. The locale
  \<open>latest_value\<close> is the interface the two tasks share, stated over an abstract slot; the
  slot of the source is its interpretation.
\<close>

subsection \<open>The slot\<close>

record pm_telemetry_sample =
  measurement :: pm_meter_sample
  sample_sequence :: u64

record pm_telemetry_slot =
  in_flight :: pm_telemetry_sample
  pending :: pm_telemetry_sample
  next_sequence :: u64
  replaced_pending :: u64
  failed_transmissions :: u64
  in_flight_present :: bool
  pending_present :: bool

text \<open>An object of all-zero bytes: \<open>PM_PZEM_OK\<close> is the status with code 0.\<close>

definition zero_sample :: pm_telemetry_sample where
  "zero_sample = \<lparr>measurement = empty_sample PM_PZEM_OK, sample_sequence = 0\<rparr>"

definition pm_telemetry_slot_init :: pm_telemetry_slot where
  "pm_telemetry_slot_init = \<lparr>in_flight = zero_sample, pending = zero_sample, next_sequence = 1,
     replaced_pending = 0, failed_transmissions = 0, in_flight_present = False,
     pending_present = False\<rparr>"

definition pm_telemetry_offer ::
    "pm_telemetry_slot \<Rightarrow> pm_meter_sample \<Rightarrow> esp_err \<times> u64 option \<times> pm_telemetry_slot" where
  "pm_telemetry_offer slot m =
     (if next_sequence slot = 0 \<or> next_sequence slot = - 1 then (ESP_ERR_INVALID_ARG, None, slot)
      else let offered = \<lparr>measurement = m, sample_sequence = next_sequence slot\<rparr>
        in (ESP_OK, Some (sample_sequence offered),
            slot\<lparr>next_sequence := next_sequence slot + 1,
                 replaced_pending := replaced_pending slot + (if pending_present slot then 1 else 0),
                 pending := offered,
                 pending_present := True\<rparr>))"

definition pm_telemetry_begin_send ::
    "pm_telemetry_slot \<Rightarrow> pm_telemetry_sample option \<times> pm_telemetry_slot" where
  "pm_telemetry_begin_send slot =
     (if in_flight_present slot \<or> \<not> pending_present slot then (None, slot)
      else (Some (pending slot),
            slot\<lparr>in_flight := pending slot, in_flight_present := True,
                 pending := zero_sample, pending_present := False\<rparr>))"

definition pm_telemetry_complete_send ::
    "pm_telemetry_slot \<Rightarrow> u64 \<Rightarrow> bool \<Rightarrow> esp_err \<times> pm_telemetry_slot" where
  "pm_telemetry_complete_send slot seq accepted =
     (if \<not> in_flight_present slot \<or> seq = 0 \<or> sample_sequence (in_flight slot) \<noteq> seq
      then (ESP_ERR_INVALID_STATE, slot)
      else (ESP_OK,
            slot\<lparr>failed_transmissions := failed_transmissions slot + (if accepted then 0 else 1),
                 in_flight := zero_sample, in_flight_present := False\<rparr>))"

definition pm_telemetry_resident_samples :: "pm_telemetry_slot \<Rightarrow> nat" where
  "pm_telemetry_resident_samples slot =
     (if in_flight_present slot then 1 else 0) + (if pending_present slot then 1 else 0)"

subsection \<open>Backoff and deadlines\<close>

record pm_telemetry_backoff =
  failures :: u32
  next_attempt_us :: int

definition pm_telemetry_backoff_reset :: "int \<Rightarrow> pm_telemetry_backoff" where
  "pm_telemetry_backoff_reset now_us = \<lparr>failures = 0, next_attempt_us = now_us\<rparr>"

definition pm_telemetry_backoff_fail ::
    "pm_telemetry_backoff \<Rightarrow> int \<Rightarrow> u32 \<Rightarrow> u32 \<times> pm_telemetry_backoff" where
  "pm_telemetry_backoff_fail backoff now_us random_value =
     (let exponent = (if failures backoff > 6 then 6 else failures backoff);
          base = push_bit (unat exponent) (1000 :: u32);
          capped = (if base > 60000 then 60000 else base);
          jitter_width = capped div 4 + 1;
          delay = capped - capped div 8 + random_value mod jitter_width;
          delay_ms = (if delay > 60000 then 60000 else delay)
      in (delay_ms,
          \<lparr>failures = (if failures backoff \<noteq> - 1 then failures backoff + 1 else failures backoff),
           next_attempt_us = now_us + uint delay_ms * 1000\<rparr>))"

definition pm_telemetry_backoff_due :: "pm_telemetry_backoff \<Rightarrow> int \<Rightarrow> bool" where
  "pm_telemetry_backoff_due backoff now_us \<longleftrightarrow> next_attempt_us backoff \<le> now_us"

definition pm_telemetry_next_fixed_deadline :: "int \<Rightarrow> int \<Rightarrow> int \<Rightarrow> int" where
  "pm_telemetry_next_fixed_deadline previous_deadline_us now_us period_us =
     (if previous_deadline_us < 0 \<or> now_us < 0 \<or> period_us \<le> 0 then now_us
      else if previous_deadline_us > now_us then previous_deadline_us
      else let elapsed_us = now_us - previous_deadline_us;
               periods = c_div elapsed_us period_us + 1
        in if periods > c_div (INT64_MAX - previous_deadline_us) period_us then INT64_MAX
           else previous_deadline_us + periods * period_us)"

subsection \<open>The interface between the measurement and the network task\<close>

text \<open>
  \<open>room\<close> is the number of offers a slot can still take before its 64-bit sequence is used
  up; \<open>waiting\<close> and \<open>in_air\<close> are what the slot holds.
\<close>

locale latest_value =
  fixes room :: "'s \<Rightarrow> nat"
    and waiting :: "'s \<Rightarrow> 't option"
    and in_air :: "'s \<Rightarrow> 't option"
    and value_of :: "'t \<Rightarrow> 'm"
    and offer :: "'s \<Rightarrow> 'm \<Rightarrow> 's"
    and take_newest :: "'s \<Rightarrow> 't option \<times> 's"
  assumes offer_waiting: "0 < room s \<Longrightarrow> map_option value_of (waiting (offer s m)) = Some m"
    and offer_in_air: "in_air (offer s m) = in_air s"
    and offer_room: "room (offer s m) = room s - 1"
    and take_free: "in_air s = None \<Longrightarrow> fst (take_newest s) = waiting s"
    and take_waiting: "in_air s = None \<Longrightarrow> waiting (snd (take_newest s)) = None"
    and take_in_air: "in_air s = None \<Longrightarrow> in_air (snd (take_newest s)) = waiting s"
begin

lemma foldl_offer_in_air: "in_air (foldl offer s ms) = in_air s"
  by (induction ms arbitrary: s) (auto simp: offer_in_air)

lemma foldl_offer_waiting:
  "ms \<noteq> [] \<Longrightarrow> length ms \<le> room s \<Longrightarrow>
     map_option value_of (waiting (foldl offer s ms)) = Some (last ms)"
proof (induction ms arbitrary: s)
  case (Cons m ms)
  show ?case
  proof (cases "ms = []")
    case True
    with Cons.prems show ?thesis by (simp add: offer_waiting)
  next
    case False
    with Cons.prems have "length ms \<le> room (offer s m)" by (simp add: offer_room)
    with Cons.IH [OF False] False show ?thesis by simp
  qed
qed simp

lemma newest_wins:
  assumes "in_air s = None" "ms \<noteq> []" "length ms \<le> room s"
  shows "map_option value_of (fst (take_newest (foldl offer s ms))) = Some (last ms)"
    and "waiting (snd (take_newest (foldl offer s ms))) = None"
  using assms
  by (simp_all add: take_free take_waiting foldl_offer_in_air foldl_offer_waiting)

end

definition slot_room :: "pm_telemetry_slot \<Rightarrow> nat" where
  "slot_room slot = (if next_sequence slot = 0 then 0 else unat (- 1 - next_sequence slot))"

definition slot_waiting :: "pm_telemetry_slot \<Rightarrow> pm_telemetry_sample option" where
  "slot_waiting slot = (if pending_present slot then Some (pending slot) else None)"

definition slot_in_air :: "pm_telemetry_slot \<Rightarrow> pm_telemetry_sample option" where
  "slot_in_air slot = (if in_flight_present slot then Some (in_flight slot) else None)"

definition slot_offer :: "pm_telemetry_slot \<Rightarrow> pm_meter_sample \<Rightarrow> pm_telemetry_slot" where
  "slot_offer slot m = snd (snd (pm_telemetry_offer slot m))"

lemma slot_room_Suc:
  fixes n :: u64
  assumes "n \<noteq> 0" "n \<noteq> - 1"
  shows "unat (- 1 - (n + 1)) = unat (- 1 - n) - 1 \<and> n + 1 \<noteq> 0"
proof -
  have "- 1 - n \<noteq> 0" using assms by (metis right_minus_eq)
  moreover have "- 1 - (n + 1) = - 1 - n - 1" by simp
  ultimately show ?thesis
    using assms by (metis add.commute eq_neg_iff_add_eq_0 unat_minus_one)
qed

lemmas slot_defs = pm_telemetry_offer_def pm_telemetry_begin_send_def
  pm_telemetry_complete_send_def pm_telemetry_resident_samples_def
  slot_waiting_def slot_in_air_def slot_offer_def slot_room_def Let_def

interpretation slot: latest_value slot_room slot_waiting slot_in_air measurement slot_offer
    pm_telemetry_begin_send
proof
  fix s m
  show "0 < slot_room s \<Longrightarrow> map_option measurement (slot_waiting (slot_offer s m)) = Some m"
    by (auto simp: slot_defs split: if_splits)
  show "slot_room (slot_offer s m) = slot_room s - 1"
    using slot_room_Suc [of "next_sequence s"] by (auto simp: slot_defs)
qed (auto simp: slot_defs)

text \<open>
  Latest value wins: however many samples the measurement task offers while the network
  task is away, the next send takes exactly the newest one and leaves nothing older behind.
\<close>

theorem telemetry_newest_sample_sent:
  assumes "\<not> in_flight_present slot" and "ms \<noteq> []" and "length ms \<le> slot_room slot"
  shows "map_option measurement (fst (pm_telemetry_begin_send (foldl slot_offer slot ms))) =
      Some (last ms) \<and>
     \<not> pending_present (snd (pm_telemetry_begin_send (foldl slot_offer slot ms)))"
proof -
  have "slot_in_air slot = None" using assms(1) by (simp add: slot_in_air_def)
  then show ?thesis
    using slot.newest_wins [OF _ assms(2,3)] by (auto simp: slot_waiting_def split: if_splits)
qed

theorem telemetry_newest_sample_sent_witness:
  "\<not> in_flight_present pm_telemetry_slot_init \<and> 2 \<le> slot_room pm_telemetry_slot_init \<and>
   map_option measurement (fst (pm_telemetry_begin_send (foldl slot_offer pm_telemetry_slot_init
      [empty_sample PM_PZEM_OK, empty_sample PM_PZEM_TIMEOUT]))) = Some (empty_sample PM_PZEM_TIMEOUT)"
proof -
  have "\<not> in_flight_present pm_telemetry_slot_init" "2 \<le> slot_room pm_telemetry_slot_init"
    by (simp_all add: pm_telemetry_slot_init_def slot_room_def)
  then show ?thesis
    using telemetry_newest_sample_sent [of pm_telemetry_slot_init
        "[empty_sample PM_PZEM_OK, empty_sample PM_PZEM_TIMEOUT]"] by simp
qed

subsection \<open>Runs of the slot\<close>

datatype slot_event =
    Offer pm_meter_sample
  | Begin_send
  | Complete_send u64 bool

text \<open>
  A run carries two ghost values: the sequence numbers handed to the network task, oldest
  first, and the number of transmissions completed as accepted.
\<close>

record slot_run =
  run_slot :: pm_telemetry_slot
  run_sent :: "u64 list"
  run_accepted :: nat

fun slot_step :: "slot_run \<Rightarrow> slot_event \<Rightarrow> slot_run" where
  "slot_step r (Offer m) = r\<lparr>run_slot := slot_offer (run_slot r) m\<rparr>"
| "slot_step r Begin_send =
     (case pm_telemetry_begin_send (run_slot r) of
        (None, slot) \<Rightarrow> r\<lparr>run_slot := slot\<rparr>
      | (Some sample, slot) \<Rightarrow>
          r\<lparr>run_slot := slot, run_sent := run_sent r @ [sample_sequence sample]\<rparr>)"
| "slot_step r (Complete_send seq accepted) =
     (case pm_telemetry_complete_send (run_slot r) seq accepted of
        (e, slot) \<Rightarrow> r\<lparr>run_slot := slot,
          run_accepted := run_accepted r + (if e = ESP_OK \<and> accepted then 1 else 0)\<rparr>)"

definition slot_run_init :: slot_run where
  "slot_run_init = \<lparr>run_slot = pm_telemetry_slot_init, run_sent = [], run_accepted = 0\<rparr>"

text \<open>
  The invariant: a pending sample is the last one numbered, everything sent is older than
  it, and every number given out is accounted for.
\<close>

definition slot_inv :: "slot_run \<Rightarrow> bool" where
  "slot_inv r \<longleftrightarrow> (let s = run_slot r in
     next_sequence s \<noteq> 0 \<and>
     (pending_present s \<longrightarrow> Suc (unat (sample_sequence (pending s))) = unat (next_sequence s)) \<and>
     (\<forall>q \<in> set (run_sent r).
        Suc (unat q) \<le> unat (next_sequence s) - (if pending_present s then 1 else 0)) \<and>
     sorted_wrt (<) (run_sent r) \<and>
     unat (next_sequence s) = 1 + unat (replaced_pending s) + unat (failed_transmissions s) +
       run_accepted r + pm_telemetry_resident_samples s)"

lemma slot_inv_init: "slot_inv slot_run_init"
  by (simp add: slot_inv_def slot_run_init_def pm_telemetry_slot_init_def slot_defs)

lemma slot_inv_offer:
  assumes "slot_inv r"
  shows "slot_inv (slot_step r (Offer m))"
proof (cases "next_sequence (run_slot r) = - 1")
  case True
  then have "slot_offer (run_slot r) m = run_slot r" by (simp add: slot_defs)
  with assms show ?thesis by simp
next
  case False
  let ?s = "run_slot r"
  have n: "unat (next_sequence ?s + 1) = Suc (unat (next_sequence ?s))"
    using False by (rule unat_Suc_word)
  have "unat (next_sequence ?s) < 2 ^ 64 - 1"
    using n unat_u64_less [of "next_sequence ?s + 1"] by simp
  then have "replaced_pending ?s \<noteq> - 1"
    using assms by (auto simp: slot_inv_def Let_def)
  then have "unat (replaced_pending ?s + 1) = Suc (unat (replaced_pending ?s))"
    by (rule unat_Suc_word)
  with assms False n show ?thesis
    by (auto simp: slot_inv_def slot_defs split: if_splits)
qed

lemma slot_inv_begin:
  assumes "slot_inv r"
  shows "slot_inv (slot_step r Begin_send)"
proof (cases "in_flight_present (run_slot r) \<or> \<not> pending_present (run_slot r)")
  case True
  with assms show ?thesis by (auto simp: slot_inv_def slot_defs)
next
  case False
  have "\<forall>q \<in> set (run_sent r). q < sample_sequence (pending (run_slot r))"
    using assms False by (auto simp: slot_inv_def Let_def word_less_nat_alt)
  with assms False show ?thesis
    by (auto simp: slot_inv_def slot_defs sorted_wrt_append)
qed

lemma slot_inv_complete:
  assumes "slot_inv r"
  shows "slot_inv (slot_step r (Complete_send seq accepted))"
proof -
  let ?s = "run_slot r"
  have "failed_transmissions ?s \<noteq> - 1" if "in_flight_present ?s"
  proof
    assume "failed_transmissions ?s = - 1"
    with assms that have "unat (next_sequence ?s) \<ge> 2 ^ 64"
      by (auto simp: slot_inv_def slot_defs)
    then show False using unat_u64_less [of "next_sequence ?s"] by simp
  qed
  then have "in_flight_present ?s \<Longrightarrow>
      unat (failed_transmissions ?s + 1) = Suc (unat (failed_transmissions ?s))"
    by (blast intro: unat_Suc_word)
  with assms show ?thesis
    by (auto simp: slot_inv_def slot_defs)
qed

lemma slot_inv_step: "slot_inv r \<Longrightarrow> slot_inv (slot_step r ev)"
  by (cases ev) (simp_all only: slot_inv_offer slot_inv_begin slot_inv_complete)

lemma slot_inv_run: "slot_inv r \<Longrightarrow> slot_inv (foldl slot_step r evs)"
  by (induction evs arbitrary: r) (simp_all add: slot_inv_step)

text \<open>
  C15. For every interleaving of offers, sends and completions since boot: the slot never
  holds more than two samples, the sequence numbers handed to the network strictly increase
  (no sample is sent twice and none out of order), and every sequence number ever given to a
  sample is accounted for as replaced, failed, accepted or still resident. The 64-bit
  counters never wrap.
\<close>

theorem telemetry_run_accounting:
  "let r = foldl slot_step slot_run_init evs; s = run_slot r in
     pm_telemetry_resident_samples s \<le> 2 \<and>
     sorted_wrt (<) (run_sent r) \<and>
     unat (next_sequence s) = 1 + unat (replaced_pending s) + unat (failed_transmissions s) +
       run_accepted r + pm_telemetry_resident_samples s"
  using slot_inv_run [OF slot_inv_init, of evs]
  by (simp add: slot_inv_def Let_def pm_telemetry_resident_samples_def)

subsection \<open>Backoff bounds\<close>

definition backoff_base :: "u32 \<Rightarrow> nat" where
  "backoff_base f = min 60000 (1000 * 2 ^ min 6 (unat f))"

lemma exponent_cases:
  "f = 0 \<or> f = 1 \<or> f = 2 \<or> f = 3 \<or> f = 4 \<or> f = 5 \<or> 6 \<le> unat f" for f :: u32
  by (simp add: word_unat_eq_iff) arith

lemma capped_base:
  "(if push_bit (unat (if f > 6 then 6 else f)) (1000 :: u32) > 60000 then 60000
    else push_bit (unat (if f > 6 then 6 else f)) 1000) = of_nat (backoff_base f)"
proof -
  consider "f = 0 \<or> f = 1 \<or> f = 2 \<or> f = 3 \<or> f = 4 \<or> f = 5" | "6 \<le> unat f"
    using exponent_cases [of f] by blast
  then show ?thesis
  proof cases
    case 1
    then show ?thesis by (auto simp: backoff_base_def)
  next
    case 2
    then have "(if f > 6 then 6 else f) = 6"
      by (auto simp: word_less_nat_alt word_unat_eq_iff)
    with 2 show ?thesis by (simp add: backoff_base_def min_def)
  qed
qed

lemma backoff_base_bounds: "1000 \<le> backoff_base f" "backoff_base f \<le> 60000"
proof -
  have "(1000 :: nat) * 1 \<le> 1000 * 2 ^ min 6 (unat f)"
    by (rule mult_le_mono2) simp
  then show "1000 \<le> backoff_base f" by (simp add: backoff_base_def)
qed (simp add: backoff_base_def)

lemma unat_delay:
  assumes "c \<le> 60000"
  shows "unat (of_nat c - of_nat c div 8 + r mod (of_nat c div 4 + 1) :: u32) =
     c - c div 8 + unat r mod (c div 4 + 1)"
proof -
  have c: "unat (of_nat c :: u32) = c"
    using assms by (simp add: unat_of_nat)
  have w: "unat (of_nat c div 4 + 1 :: u32) = c div 4 + 1"
    using assms by (simp add: unat_word_ariths unat_div c)
  have le: "of_nat c div 8 \<le> (of_nat c :: u32)"
    by (simp add: word_le_nat_alt unat_div c)
  have "unat r mod (c div 4 + 1) < c div 4 + 1"
    by (rule mod_less_divisor) simp
  with assms have "c - c div 8 + unat r mod (c div 4 + 1) < 4294967296" by linarith
  then show ?thesis
    by (simp add: unat_word_ariths(1) unat_sub [OF le] unat_div unat_mod c w)
qed

text \<open>
  Retry backoff: after a failure, whatever the failure count and the random value, the
  delay lies within an eighth on either side of the exponential schedule
  1, 2, 4, ... seconds, it is at least 875 ms and at most 60 s, and the next attempt becomes
  due exactly when the delay has passed. The failure counter saturates instead of wrapping.
\<close>

theorem telemetry_backoff_bounds:
  "let (d, b') = pm_telemetry_backoff_fail b now r; base = backoff_base (failures b) in
     base - base div 8 \<le> unat d \<and> unat d \<le> base - base div 8 + base div 4 \<and>
     875 \<le> unat d \<and> unat d \<le> 60000 \<and>
     unat (failures b') = min 4294967295 (unat (failures b) + 1) \<and>
     pm_telemetry_backoff_due b' t = (now + int (unat d) * 1000 \<le> t)"
proof -
  define c where "c = backoff_base (failures b)"
  define raw :: u32 where
    "raw = of_nat c - of_nat c div 8 + r mod (of_nat c div 4 + 1)"
  have c: "1000 \<le> c" "c \<le> 60000"
    using backoff_base_bounds [of "failures b"] by (simp_all add: c_def)
  have raw: "unat raw = c - c div 8 + unat r mod (c div 4 + 1)"
    unfolding raw_def using c(2) by (rule unat_delay)
  have "unat r mod (c div 4 + 1) < c div 4 + 1"
    by (rule mod_less_divisor) simp
  then have bounds: "c - c div 8 \<le> unat raw" "unat raw \<le> c - c div 8 + c div 4" "875 \<le> unat raw"
    using raw c by linarith+
  define d where "d = (if raw > 60000 then 60000 else raw)"
  have "unat d = min 60000 (unat raw)"
    by (auto simp: d_def word_less_nat_alt min_def)
  then have d: "c - c div 8 \<le> unat d" "unat d \<le> c - c div 8 + c div 4" "875 \<le> unat d" "unat d \<le> 60000"
    using bounds c by linarith+
  have f: "unat (if failures b \<noteq> - 1 then failures b + 1 else failures b) =
      min 4294967295 (unat (failures b) + 1)"
    using unat_Suc_word [of "failures b"] unat_u32_less [of "failures b + 1"] by auto
  have "fst (pm_telemetry_backoff_fail b now r) = d"
    by (simp only: pm_telemetry_backoff_fail_def Let_def capped_base raw_def c_def d_def fst_conv)
  moreover have "failures (snd (pm_telemetry_backoff_fail b now r)) =
      (if failures b \<noteq> - 1 then failures b + 1 else failures b)"
    "next_attempt_us (snd (pm_telemetry_backoff_fail b now r)) =
      now + uint (fst (pm_telemetry_backoff_fail b now r)) * 1000"
    by (simp_all add: pm_telemetry_backoff_fail_def Let_def)
  ultimately show ?thesis
    using d f
    by (auto simp: pm_telemetry_backoff_due_def c_def [symmetric] split: prod.splits)
qed

subsection \<open>Fixed deadlines\<close>

lemma div_less_iff_mult:
  fixes a k q :: int
  assumes "0 < q"
  shows "a div q < k \<longleftrightarrow> a < k * q"
proof -
  have "k \<le> a div q \<longleftrightarrow> k * q \<le> a"
  proof
    assume "k \<le> a div q"
    then have "k * q \<le> a div q * q" using assms by (simp add: mult_right_mono)
    also have "\<dots> \<le> a" using assms div_mult_mod_eq [of a q] pos_mod_sign [of q a] by linarith
    finally show "k * q \<le> a" .
  next
    assume "k * q \<le> a"
    then have "k * q div q \<le> a div q" using assms by (rule zdiv_mono1)
    then show "k \<le> a div q" using assms by simp
  qed
  then show ?thesis by linarith
qed

lemma next_multiple:
  fixes p n q :: int
  assumes "0 \<le> n - p" "0 < q"
  shows "n < p + (c_div (n - p) q + 1) * q \<and> p + (c_div (n - p) q + 1) * q \<le> n + q"
proof -
  have "c_div (n - p) q = (n - p) div q"
    using assms by (rule c_div_nonneg)
  then have "(c_div (n - p) q + 1) * q = n - p - (n - p) mod q + q"
    by (simp add: distrib_right minus_mod_eq_div_mult [symmetric])
  moreover have "0 \<le> (n - p) mod q" "(n - p) mod q < q" using assms by simp_all
  ultimately show ?thesis by linarith
qed

text \<open>
  The telemetry schedule does not drift: from a deadline in the past, the next deadline is
  the first point of the same grid (previous deadline plus whole periods) strictly after
  now, so request latency never shifts it; the computation never exceeds \<open>INT64_MAX\<close>, to
  which it saturates exactly when that grid point is not representable.
\<close>

theorem telemetry_deadline_on_grid:
  assumes "0 \<le> p" "p \<le> n" "n \<le> INT64_MAX" "0 < q"
  shows "let d = pm_telemetry_next_fixed_deadline p n q;
             g = p + (c_div (n - p) q + 1) * q in
     n < g \<and> g \<le> n + q \<and> q dvd (g - p) \<and> d = min INT64_MAX g"
proof -
  let ?k = "c_div (n - p) q + 1"
  have "?k > c_div (INT64_MAX - p) q \<longleftrightarrow> INT64_MAX < p + ?k * q"
  proof -
    have e: "c_div (INT64_MAX - p) q = (INT64_MAX - p) div q"
      using assms by (intro c_div_nonneg) auto
    have "c_div (INT64_MAX - p) q < ?k \<longleftrightarrow> INT64_MAX - p < ?k * q"
      unfolding e using assms(4) by (rule div_less_iff_mult)
    then show ?thesis by auto
  qed
  then have "pm_telemetry_next_fixed_deadline p n q = min INT64_MAX (p + ?k * q)"
    using assms by (auto simp: pm_telemetry_next_fixed_deadline_def Let_def)
  then show ?thesis
    using next_multiple [of n p q] assms by (simp add: Let_def)
qed

theorem telemetry_deadline_on_grid_witness:
  "pm_telemetry_next_fixed_deadline 1000000 3400000 1000000 = 4000000 \<and>
   (let g = 1000000 + (c_div (3400000 - 1000000) 1000000 + 1) * 1000000 in
      3400000 < g \<and> (1000000 :: int) dvd (g - 1000000))"
proof -
  have "c_div (3400000 - 1000000) 1000000 = 2" by (simp add: c_div_def)
  then show ?thesis
    using telemetry_deadline_on_grid [of 1000000 3400000 1000000]
    by (simp add: Let_def INT64_MAX_def)
qed

end
