(* ===== verification/PM_Hash.thy ===== *)
theory PM_Hash
  imports PM_Prelude
begin

text \<open>
  The hash and encoding helpers of components/pm_protocol/pm_protocol.c. The SHA-256 of the
  PSA crypto library is the parameter \<open>psa\<close> (\<open>None\<close> for a call that does not return
  \<open>PSA_SUCCESS\<close>); what the code relies on is \<open>psa_ok\<close>, a digest of 32 bytes for every input.
  The HMAC construction, the lower-case hexadecimal codec and the constant-time comparison
  are the program's own code.
\<close>

type_synonym psa_hash = "u8 list \<Rightarrow> u8 list option"

definition PM_SHA256_SIZE :: nat where "PM_SHA256_SIZE = 32"

definition psa_ok :: "psa_hash \<Rightarrow> bool" where
  "psa_ok psa \<longleftrightarrow> (\<forall>d. \<exists>h. psa d = Some h \<and> length h = 32)"

definition pm_sha256 :: "psa_hash \<Rightarrow> u8 list \<Rightarrow> u8 list" where
  "pm_sha256 psa data =
     (case psa data of
        Some digest \<Rightarrow> if length digest \<noteq> PM_SHA256_SIZE then replicate PM_SHA256_SIZE 0 else digest
      | None \<Rightarrow> replicate PM_SHA256_SIZE 0)"

definition pm_hmac_sha256 :: "psa_hash \<Rightarrow> u8 list \<Rightarrow> u8 list \<Rightarrow> esp_err \<times> u8 list" where
  "pm_hmac_sha256 psa key data =
     (let key_block = (if length key > 64 then pm_sha256 psa key @ replicate 32 0
                       else key @ replicate (64 - length key) 0);
          inner_pad = map (\<lambda>b. b XOR 0x36) key_block;
          outer_pad = map (\<lambda>b. b XOR 0x5C) key_block;
          failed = (ESP_FAIL, replicate PM_SHA256_SIZE 0)
      in case psa (inner_pad @ data) of
           None \<Rightarrow> failed
         | Some inner_digest \<Rightarrow>
             if length inner_digest \<noteq> PM_SHA256_SIZE then failed
             else case psa (outer_pad @ inner_digest) of
                    None \<Rightarrow> failed
                  | Some digest \<Rightarrow>
                      if length digest \<noteq> PM_SHA256_SIZE then failed else (ESP_OK, digest))"

definition hex_digit :: "u8 \<Rightarrow> char" where
  "hex_digit n = ''0123456789abcdef'' ! unat n"

definition pm_hex_lower :: "u8 list \<Rightarrow> string" where
  "pm_hex_lower data = concat (map (\<lambda>b. [hex_digit (drop_bit 4 b), hex_digit (b AND 0x0F)]) data)"

definition pm_constant_time_equal :: "u8 list \<Rightarrow> u8 list \<Rightarrow> nat \<Rightarrow> bool" where
  "pm_constant_time_equal left right len \<longleftrightarrow>
     foldl (\<lambda>difference i. difference OR (left ! i XOR right ! i)) 0 [0..<len] = 0"

subsection \<open>Lemmas\<close>

lemma length_pm_sha256 [simp, bytes_simps]: "length (pm_sha256 psa d) = 32"
  by (simp add: pm_sha256_def PM_SHA256_SIZE_def split: option.split)

lemma word_or_zero_iff: "a OR b = 0 \<longleftrightarrow> a = 0 \<and> b = 0" for a b :: "'a::len word"
  by (auto simp: bit_eq_iff bit_or_iff)

lemma word_xor_zero_iff: "a XOR b = 0 \<longleftrightarrow> a = b" for a b :: "'a::len word"
  by (auto simp: bit_eq_iff bit_xor_iff)

lemma foldl_or_zero_iff:
  "foldl (\<lambda>d i. d OR f i) c is = 0 \<longleftrightarrow> c = 0 \<and> (\<forall>i \<in> set is. f i = 0)" for c :: "'a::len word"
  by (induction "is" arbitrary: c) (auto simp: word_or_zero_iff)

text \<open>The comparison without early exit decides equality of the first \<open>len\<close> bytes.\<close>

lemma pm_constant_time_equal_iff:
  "pm_constant_time_equal xs ys len \<longleftrightarrow> (\<forall>i < len. xs ! i = ys ! i)"
  by (auto simp: pm_constant_time_equal_def foldl_or_zero_iff word_xor_zero_iff)

lemma pm_constant_time_equal_list:
  "length xs = len \<Longrightarrow> length ys = len \<Longrightarrow> pm_constant_time_equal xs ys len \<longleftrightarrow> xs = ys"
  by (auto simp: pm_constant_time_equal_iff list_eq_iff_nth_eq)

lemma hex_digit_less: "unat (drop_bit 4 b) < 16" "unat (b AND 0x0F) < 16" for b :: u8
proof -
  have "unat (drop_bit 4 b) = unat b div 16"
    by (simp add: drop_bit_eq_div unat_div)
  then show "unat (drop_bit 4 b) < 16"
    using unsigned_less [of b, where 'a = nat] by simp
  have "b AND 0x0F \<le> 0x0F" by (rule word_and_le1)
  then show "unat (b AND 0x0F) < 16" by (simp add: word_le_nat_alt)
qed

lemma length_pm_hex_lower [simp, bytes_simps]: "length (pm_hex_lower d) = 2 * length d"
  by (induction d) (auto simp: pm_hex_lower_def)

end
