(* ===== verification/PM_Config.thy ===== *)
theory PM_Config
  imports PM_Nvs PM_Hash PM_Crc PM_Meter
begin

text \<open>
  components/pm_config/pm_config.c: the device configuration, its validation and its A/B
  transactions. The state of the component is the namespace \<open>pm_config\<close> of NVS and the
  three statics that make mutations exclusive (\<open>config_env\<close>); the heap's answer to
  \<open>allocate_config_workspace\<close> is the argument \<open>alloc\<close>.
\<close>

subsection \<open>Data\<close>

datatype pm_ipv4_mode = PM_IPV4_DHCP | PM_IPV4_STATIC | PM_IPV4_RAW u32

record pm_config =
  schema_version :: u32
  cfg_generation :: u32
  device_id :: "u8 list"
  friendly_name :: "char list"
  wifi_ssid :: "char list"
  wifi_password :: "char list"
  ipv4_mode :: pm_ipv4_mode
  ipv4_address :: u32
  ipv4_gateway :: u32
  ipv4_netmask :: u32
  dns_primary :: u32
  dns_secondary :: u32
  server_origin :: "char list"
  ca_pem :: "char list"
  timezone :: "char list"
  ct_rating_a :: u16
  meter_variant :: pm_meter_variant
  device_secret :: "u8 list"
  device_secret_len :: u8
  sequence_floor :: u64
  acknowledged_sequence :: u64
  cfg_reset_generation :: u32
  cfg_crc32 :: u32

datatype pm_config_stage =
    PM_CONFIG_STAGE_NONE | PM_CONFIG_STAGE_VALIDATED | PM_CONFIG_STAGE_WRITTEN_INACTIVE
  | PM_CONFIG_STAGE_READBACK_VERIFIED | PM_CONFIG_STAGE_NETWORK_TESTED | PM_CONFIG_STAGE_COMMITTED

record pm_config_transaction =
  stage :: pm_config_stage
  candidate_generation :: u32
  transaction_id :: u32
  candidate_slot :: char
  candidate_sha256 :: "u8 list"

record config_env =
  s_next_transaction_id :: u32
  s_active_transaction_id :: u32
  s_mutation_in_progress :: bool
  cfg_nvs :: "pm_config nvs"

definition zero_config :: pm_config where
  "zero_config = \<lparr>schema_version = 0, cfg_generation = 0, device_id = replicate 16 0,
     friendly_name = replicate 49 NUL, wifi_ssid = replicate 33 NUL, wifi_password = replicate 64 NUL,
     ipv4_mode = PM_IPV4_DHCP, ipv4_address = 0, ipv4_gateway = 0, ipv4_netmask = 0, dns_primary = 0,
     dns_secondary = 0, server_origin = replicate 193 NUL, ca_pem = replicate 4097 NUL,
     timezone = replicate 65 NUL, ct_rating_a = 0, meter_variant = PM_METER_UNSPECIFIED,
     device_secret = replicate 32 0, device_secret_len = 0, sequence_floor = 0,
     acknowledged_sequence = 0, cfg_reset_generation = 0, cfg_crc32 = 0\<rparr>"

definition zero_transaction :: pm_config_transaction where
  "zero_transaction = \<lparr>stage = PM_CONFIG_STAGE_NONE, candidate_generation = 0, transaction_id = 0,
     candidate_slot = NUL, candidate_sha256 = replicate 32 0\<rparr>"

subsection \<open>Object bytes, checksum, validation\<close>

fun ipv4_mode_code :: "pm_ipv4_mode \<Rightarrow> u32" where
  "ipv4_mode_code PM_IPV4_DHCP = 0"
| "ipv4_mode_code PM_IPV4_STATIC = 1"
| "ipv4_mode_code (PM_IPV4_RAW c) = c"

fun meter_variant_code :: "pm_meter_variant \<Rightarrow> u32" where
  "meter_variant_code PM_METER_UNSPECIFIED = 0"
| "meter_variant_code PM_METER_PZEM004T_V4_CLASSIC = 1"
| "meter_variant_code (PM_METER_RAW c) = c"

text \<open>The bytes of the struct before its \<open>crc32\<close> member, with the padding of the target's ABI.\<close>

definition config_prefix_bytes :: "pm_config \<Rightarrow> u8 list" where
  "config_prefix_bytes c =
     le_bytes 4 (schema_version c) @ le_bytes 4 (cfg_generation c) @ device_id c @
     chars_bytes (friendly_name c) @ chars_bytes (wifi_ssid c) @ chars_bytes (wifi_password c) @ pad 2 @
     le_bytes 4 (ipv4_mode_code (ipv4_mode c)) @ le_bytes 4 (ipv4_address c) @
     le_bytes 4 (ipv4_gateway c) @ le_bytes 4 (ipv4_netmask c) @ le_bytes 4 (dns_primary c) @
     le_bytes 4 (dns_secondary c) @ chars_bytes (server_origin c) @ chars_bytes (ca_pem c) @
     chars_bytes (timezone c) @ pad 1 @ le_bytes 2 (ct_rating_a c) @ pad 2 @
     le_bytes 4 (meter_variant_code (meter_variant c)) @ device_secret c @ [device_secret_len c] @ pad 7 @
     le_bytes 8 (sequence_floor c) @ le_bytes 8 (acknowledged_sequence c) @
     le_bytes 4 (cfg_reset_generation c)"

definition config_bytes :: "pm_config \<Rightarrow> u8 list" where
  "config_bytes c = config_prefix_bytes c @ le_bytes 4 (cfg_crc32 c)"

definition config_crc :: "pm_config \<Rightarrow> u32" where
  "config_crc c = pm_crc32_ieee (config_prefix_bytes c)"

definition pm_config_validate :: "pm_config \<Rightarrow> bool \<Rightarrow> esp_err" where
  "pm_config_validate c production_gate =
     (if schema_version c \<noteq> 1 \<or> cfg_crc32 c \<noteq> config_crc c then ESP_ERR_INVALID_CRC
      else if \<not> nul_terminated (friendly_name c) \<or> \<not> nul_terminated (wifi_ssid c) \<or>
          \<not> nul_terminated (wifi_password c) \<or> \<not> nul_terminated (server_origin c) \<or>
          \<not> nul_terminated (ca_pem c) \<or> \<not> nul_terminated (timezone c)
      then ESP_ERR_INVALID_SIZE
      else if cstr (friendly_name c) = [] \<or> cstr (wifi_ssid c) = [] \<or>
          take 8 (cstr (server_origin c)) \<noteq> ''https://'' \<or> cstr (ca_pem c) = [] \<or>
          cstr (timezone c) = [] \<or> ct_rating_a c = 0 \<or> ct_rating_a c > 100 \<or>
          device_secret_len c > 32 \<or> acknowledged_sequence c > sequence_floor c
      then ESP_ERR_INVALID_ARG
      else if production_gate \<and> meter_variant c \<noteq> PM_METER_PZEM004T_V4_CLASSIC
      then ESP_ERR_NOT_SUPPORTED
      else if ipv4_mode c = PM_IPV4_STATIC \<and>
          (ipv4_address c = 0 \<or> ipv4_gateway c = 0 \<or> ipv4_netmask c = 0 \<or> dns_primary c = 0)
      then ESP_ERR_INVALID_ARG
      else ESP_OK)"

definition pm_config_secret_field_name :: "string \<Rightarrow> bool" where
  "pm_config_secret_field_name name \<longleftrightarrow>
     name \<in> set [''wifi_password'', ''enrollment_token'', ''device_secret'', ''hmac_key'',
       ''private_key'', ''session_cookie'', ''administrator_credential'']"

subsection \<open>Exclusive mutation\<close>

definition claim_new_transaction :: "config_env \<Rightarrow> u32 option \<times> config_env" where
  "claim_new_transaction env =
     (if s_active_transaction_id env = 0 \<and> \<not> s_mutation_in_progress env
      then let n = s_next_transaction_id env;
               (tid, n') = (if n = 0 then (n + 1, n + 2) else (n, n + 1))
        in (Some tid, env\<lparr>s_next_transaction_id := n', s_active_transaction_id := tid,
                          s_mutation_in_progress := True\<rparr>)
      else (None, env))"

definition claim_transaction_mutation :: "u32 \<Rightarrow> config_env \<Rightarrow> bool \<times> config_env" where
  "claim_transaction_mutation tid env =
     (if tid \<noteq> 0 \<and> s_active_transaction_id env = tid \<and> \<not> s_mutation_in_progress env
      then (True, env\<lparr>s_mutation_in_progress := True\<rparr>) else (False, env))"

definition claim_unowned_mutation :: "config_env \<Rightarrow> bool \<times> config_env" where
  "claim_unowned_mutation env =
     (if s_active_transaction_id env = 0 \<and> \<not> s_mutation_in_progress env
      then (True, env\<lparr>s_mutation_in_progress := True\<rparr>) else (False, env))"

definition finish_mutation :: "config_env \<Rightarrow> config_env" where
  "finish_mutation env = env\<lparr>s_mutation_in_progress := False\<rparr>"

definition release_transaction :: "u32 \<Rightarrow> config_env \<Rightarrow> config_env" where
  "release_transaction tid env =
     (if tid \<noteq> 0 \<and> s_active_transaction_id env = tid
      then env\<lparr>s_active_transaction_id := 0, s_mutation_in_progress := False\<rparr> else env)"

definition transaction_is_active :: "u32 \<Rightarrow> config_env \<Rightarrow> bool" where
  "transaction_is_active tid env \<longleftrightarrow>
     tid \<noteq> 0 \<and> s_active_transaction_id env = tid \<and> \<not> s_mutation_in_progress env"

subsection \<open>Slots\<close>

definition slot_key :: "char \<Rightarrow> string option" where
  "slot_key slot = (if slot = CHR ''A'' then Some ''slot_a''
     else if slot = CHR ''B'' then Some ''slot_b'' else None)"

definition read_slot :: "string \<Rightarrow> pm_config nvs \<Rightarrow> (esp_err \<times> pm_config) \<times> pm_config nvs" where
  "read_slot key s = (case nvs_get_blob key s of
       (Read_Err e, s') \<Rightarrow> ((e, zero_config), s')
     | (Read_Short n c, s') \<Rightarrow> ((ESP_ERR_INVALID_SIZE, zero_config), s')
     | (Read_Full c, s') \<Rightarrow>
         (let e = pm_config_validate c False in (e, if e = ESP_OK then c else zero_config), s'))"

abbreviation byte_A :: u8 where "byte_A \<equiv> 0x41"
abbreviation byte_B :: u8 where "byte_B \<equiv> 0x42"

definition pm_config_load :: "pm_config nvs \<Rightarrow> (esp_err \<times> pm_config) \<times> pm_config nvs" where
  "pm_config_load s0 =
     (let (e, s1) = nvs_open s0 in
      if e \<noteq> ESP_OK then ((e, zero_config), s1)
      else case nvs_get_u8 ''active'' s1 of
        (Inl e, s2) \<Rightarrow>
          ((if e = ESP_ERR_NVS_NOT_FOUND then ESP_ERR_NOT_FOUND else e, zero_config), s2)
      | (Inr active, s2) \<Rightarrow>
          if active \<noteq> byte_A \<and> active \<noteq> byte_B then ((ESP_ERR_INVALID_STATE, zero_config), s2)
          else read_slot (if active = byte_B then ''slot_b'' else ''slot_a'') s2)"

subsection \<open>Transactions\<close>

text \<open>
  The storage part of \<open>pm_config_begin\<close>: pick the inactive slot (or the slot being staged
  again), write the candidate there and read it back. \<open>restaged\<close> is the slot of a
  transaction that stages again.
\<close>

definition select_inactive :: "char option \<Rightarrow> esp_err + u8 \<Rightarrow> esp_err \<times> char" where
  "select_inactive restaged r =
     (let active = (case r of Inr a \<Rightarrow> a | Inl _ \<Rightarrow> byte_A);
          e2 = (case r of
                  Inl e \<Rightarrow> if e = ESP_ERR_NVS_NOT_FOUND then ESP_OK else e
                | Inr a \<Rightarrow> if a \<noteq> byte_A \<and> a \<noteq> byte_B then ESP_ERR_INVALID_STATE else ESP_OK);
          inactive = (case restaged of Some slot \<Rightarrow> slot
                      | None \<Rightarrow> if active = byte_A then CHR ''B'' else CHR ''A'')
      in (if restaged \<noteq> None \<and> active = of_char inactive then ESP_ERR_INVALID_STATE else e2, inactive))"

definition stage_candidate ::
    "char option \<Rightarrow> pm_config \<Rightarrow> pm_config nvs \<Rightarrow> (esp_err \<times> char) \<times> pm_config nvs" where
  "stage_candidate restaged staged n1 =
     (let (r, n2) = nvs_get_u8 ''active'' n1;
          (e3, inactive) = select_inactive restaged r;
          key = (if inactive = CHR ''B'' then ''slot_b'' else ''slot_a'');
          (e4, n4) = ok_then (ok_then (e3, n2) (nvs_set_blob key staged)) nvs_commit;
          ((e5, verified), n5) = (if e4 = ESP_OK then read_slot key n4 else ((e4, zero_config), n4))
      in ((if e5 = ESP_OK \<and> verified \<noteq> staged then ESP_FAIL else e5, inactive), n5))"

definition staged_config :: "pm_config \<Rightarrow> pm_config" where
  "staged_config candidate =
     (let c = candidate\<lparr>schema_version := 1\<rparr> in c\<lparr>cfg_crc32 := config_crc c\<rparr>)"

definition restaging :: "pm_config_transaction \<Rightarrow> bool" where
  "restaging t \<longleftrightarrow> stage t = PM_CONFIG_STAGE_READBACK_VERIFIED \<and> transaction_id t \<noteq> 0 \<and>
     (candidate_slot t = CHR ''A'' \<or> candidate_slot t = CHR ''B'')"

definition pm_config_begin ::
    "psa_hash \<Rightarrow> bool \<Rightarrow> pm_config \<Rightarrow> pm_config_transaction \<Rightarrow> config_env \<Rightarrow>
      esp_err \<times> pm_config_transaction \<times> config_env" where
  "pm_config_begin psa alloc candidate t env =
     (if \<not> alloc then (ESP_ERR_NO_MEM, t, env)
      else let staged = staged_config candidate; e0 = pm_config_validate staged False in
      if e0 \<noteq> ESP_OK then (e0, t, env)
      else let (claimed, env1) =
          (if restaging t
           then (case claim_transaction_mutation (transaction_id t) env of
                   (b, env') \<Rightarrow> (if b then Some (transaction_id t) else None, env'))
           else claim_new_transaction env)
      in case claimed of
        None \<Rightarrow> (ESP_ERR_INVALID_STATE, t, env1)
      | Some tid \<Rightarrow>
          let (e1, n1) = nvs_open (cfg_nvs env1) in
          if e1 \<noteq> ESP_OK
          then (e1, zero_transaction, release_transaction tid (env1\<lparr>cfg_nvs := n1\<rparr>))
          else let ((e, inactive), n5) =
                stage_candidate (if restaging t then Some (candidate_slot t) else None) staged n1;
              env2 = env1\<lparr>cfg_nvs := n5\<rparr>
            in if e = ESP_OK
               then (ESP_OK,
                     \<lparr>stage = PM_CONFIG_STAGE_READBACK_VERIFIED,
                      candidate_generation = cfg_generation staged, transaction_id = tid,
                      candidate_slot = inactive,
                      candidate_sha256 = pm_sha256 psa (config_bytes staged)\<rparr>,
                     finish_mutation env2)
               else (e, zero_transaction, release_transaction tid env2))"

definition pm_config_mark_network_tested ::
    "pm_config_transaction \<Rightarrow> config_env \<Rightarrow> esp_err \<times> pm_config_transaction" where
  "pm_config_mark_network_tested t env =
     (if stage t \<noteq> PM_CONFIG_STAGE_READBACK_VERIFIED \<or>
         \<not> transaction_is_active (transaction_id t) env
      then (ESP_ERR_INVALID_STATE, t)
      else (ESP_OK, t\<lparr>stage := PM_CONFIG_STAGE_NETWORK_TESTED\<rparr>))"

text \<open>The storage part of \<open>pm_config_commit\<close>: re-check the candidate, move the selector.\<close>

definition commit_candidate ::
    "psa_hash \<Rightarrow> pm_config_transaction \<Rightarrow> string \<Rightarrow> pm_config nvs \<Rightarrow> esp_err \<times> pm_config nvs" where
  "commit_candidate psa t key n0 =
     (let (e1, n1) = nvs_open n0;
          ((e2, candidate), n2) = (if e1 = ESP_OK then read_slot key n1 else ((e1, zero_config), n1));
          e3 = (if e2 = ESP_OK \<and>
                  (cfg_generation candidate \<noteq> candidate_generation t \<or>
                   \<not> pm_constant_time_equal (pm_sha256 psa (config_bytes candidate))
                       (candidate_sha256 t) 32)
                then ESP_ERR_INVALID_STATE else e2)
      in ok_then (ok_then (e3, n2) (nvs_set_u8 ''active'' (of_char (candidate_slot t)))) nvs_commit)"

definition pm_config_commit ::
    "psa_hash \<Rightarrow> bool \<Rightarrow> pm_config_transaction \<Rightarrow> config_env \<Rightarrow>
      esp_err \<times> pm_config_transaction \<times> config_env" where
  "pm_config_commit psa alloc t env =
     (case slot_key (candidate_slot t) of
        None \<Rightarrow> (ESP_ERR_INVALID_STATE, t, env)
      | Some key \<Rightarrow>
        if stage t \<noteq> PM_CONFIG_STAGE_NETWORK_TESTED \<or> transaction_id t = 0
        then (ESP_ERR_INVALID_STATE, t, env)
        else if \<not> alloc then (ESP_ERR_NO_MEM, t, env)
        else case claim_transaction_mutation (transaction_id t) env of
          (False, env1) \<Rightarrow> (ESP_ERR_INVALID_STATE, t, env1)
        | (True, env1) \<Rightarrow>
            let (e, n') = commit_candidate psa t key (cfg_nvs env1)
            in (e,
                zero_transaction\<lparr>stage := (if e = ESP_OK then PM_CONFIG_STAGE_COMMITTED
                                           else PM_CONFIG_STAGE_NONE)\<rparr>,
                release_transaction (transaction_id t) (env1\<lparr>cfg_nvs := n'\<rparr>)))"

definition pm_config_abort :: "pm_config_transaction \<Rightarrow> config_env \<Rightarrow> pm_config_transaction \<times> config_env" where
  "pm_config_abort t env = (zero_transaction, release_transaction (transaction_id t) env)"

subsection \<open>Operations without a transaction\<close>

definition pm_config_load_staged ::
    "char \<Rightarrow> u32 \<Rightarrow> pm_config nvs \<Rightarrow> (esp_err \<times> pm_config) \<times> pm_config nvs" where
  "pm_config_load_staged slot expected_generation n0 =
     (case slot_key slot of
        None \<Rightarrow> ((ESP_ERR_INVALID_ARG, zero_config), n0)
      | Some key \<Rightarrow>
        if expected_generation = 0 then ((ESP_ERR_INVALID_ARG, zero_config), n0)
        else let (e1, n1) = nvs_open n0 in
          if e1 \<noteq> ESP_OK then ((e1, zero_config), n1)
          else case read_slot key n1 of
            ((e2, c), n2) \<Rightarrow>
              if e2 = ESP_OK \<and> cfg_generation c \<noteq> expected_generation
              then ((ESP_ERR_INVALID_STATE, zero_config), n2) else ((e2, c), n2))"

text \<open>
  The frame the remaining four share: allocate, claim the unowned mutation, open the
  namespace, do the work, finish the mutation.
\<close>

definition unowned_mutation ::
    "bool \<Rightarrow> (pm_config nvs \<Rightarrow> esp_err \<times> pm_config nvs) \<Rightarrow> config_env \<Rightarrow> esp_err \<times> config_env" where
  "unowned_mutation alloc work env =
     (if \<not> alloc then (ESP_ERR_NO_MEM, env)
      else case claim_unowned_mutation env of
        (False, env1) \<Rightarrow> (ESP_ERR_INVALID_STATE, env1)
      | (True, env1) \<Rightarrow>
          let (e, n') = ok_then (nvs_open (cfg_nvs env1)) work
          in (e, finish_mutation (env1\<lparr>cfg_nvs := n'\<rparr>)))"

definition activate_work :: "string \<Rightarrow> char \<Rightarrow> u32 \<Rightarrow> pm_config nvs \<Rightarrow> esp_err \<times> pm_config nvs" where
  "activate_work key slot expected_generation n1 =
     (let ((e2, candidate), n2) = read_slot key n1;
          e3 = (if e2 = ESP_OK \<and> cfg_generation candidate \<noteq> expected_generation
                then ESP_ERR_INVALID_STATE else e2)
      in if e3 \<noteq> ESP_OK then (e3, n2)
         else case nvs_get_u8 ''active'' n2 of
           (Inl e, n3) \<Rightarrow> (e, n3)
         | (Inr active, n3) \<Rightarrow>
             if active \<noteq> of_char slot
             then ok_then (nvs_set_u8 ''active'' (of_char slot) n3) nvs_commit
             else (ESP_OK, n3))"

definition pm_config_activate_staged :: "bool \<Rightarrow> char \<Rightarrow> u32 \<Rightarrow> config_env \<Rightarrow> esp_err \<times> config_env" where
  "pm_config_activate_staged alloc slot expected_generation env =
     (case slot_key slot of
        None \<Rightarrow> (ESP_ERR_INVALID_ARG, env)
      | Some key \<Rightarrow>
        if expected_generation = 0 then (ESP_ERR_INVALID_ARG, env)
        else unowned_mutation alloc (activate_work key slot expected_generation) env)"

definition discard_work :: "string \<Rightarrow> char \<Rightarrow> u32 \<Rightarrow> pm_config nvs \<Rightarrow> esp_err \<times> pm_config nvs" where
  "discard_work key slot expected_generation n1 =
     (case nvs_get_u8 ''active'' n1 of
        (Inl e, n2) \<Rightarrow> (e, n2)
      | (Inr active, n2) \<Rightarrow>
          if active = of_char slot then (ESP_ERR_INVALID_STATE, n2)
          else case read_slot key n2 of
            ((e, candidate), n3) \<Rightarrow>
              if e = ESP_ERR_NVS_NOT_FOUND then (ESP_OK, n3)
              else if e = ESP_OK \<and> cfg_generation candidate \<noteq> expected_generation
              then (ESP_ERR_INVALID_STATE, n3)
              else if e = ESP_OK then ok_then (nvs_erase_key key n3) nvs_commit
              else (e, n3))"

definition pm_config_discard_staged :: "bool \<Rightarrow> char \<Rightarrow> u32 \<Rightarrow> config_env \<Rightarrow> esp_err \<times> config_env" where
  "pm_config_discard_staged alloc slot expected_generation env =
     (case slot_key slot of
        None \<Rightarrow> (ESP_ERR_INVALID_ARG, env)
      | Some key \<Rightarrow>
        if expected_generation = 0 then (ESP_ERR_INVALID_ARG, env)
        else unowned_mutation alloc (discard_work key slot expected_generation) env)"

definition discard_inactive_work :: "u32 \<Rightarrow> pm_config nvs \<Rightarrow> esp_err \<times> pm_config nvs" where
  "discard_inactive_work expected_generation n1 =
     (case nvs_get_u8 ''active'' n1 of
        (Inl e, n2) \<Rightarrow> (e, n2)
      | (Inr active, n2) \<Rightarrow>
          if active \<noteq> byte_A \<and> active \<noteq> byte_B then (ESP_ERR_INVALID_STATE, n2)
          else let key = (if active = byte_A then ''slot_b'' else ''slot_a'') in
            case read_slot key n2 of
              ((e, candidate), n3) \<Rightarrow>
                if e = ESP_ERR_NVS_NOT_FOUND \<or>
                   (e = ESP_OK \<and> cfg_generation candidate \<noteq> expected_generation)
                then (ESP_OK, n3)
                else if e = ESP_OK then ok_then (nvs_erase_key key n3) nvs_commit
                else (e, n3))"

definition pm_config_discard_inactive_generation :: "bool \<Rightarrow> u32 \<Rightarrow> config_env \<Rightarrow> esp_err \<times> config_env" where
  "pm_config_discard_inactive_generation alloc expected_generation env =
     (if expected_generation = 0 then (ESP_ERR_INVALID_ARG, env)
      else unowned_mutation alloc (discard_inactive_work expected_generation) env)"

definition erase_inactive_work :: "pm_config nvs \<Rightarrow> esp_err \<times> pm_config nvs" where
  "erase_inactive_work n1 =
     (case nvs_get_u8 ''active'' n1 of
        (Inl e, n2) \<Rightarrow> (e, n2)
      | (Inr active, n2) \<Rightarrow>
          if active \<noteq> byte_A \<and> active \<noteq> byte_B then (ESP_ERR_INVALID_STATE, n2)
          else let (e, n3) = nvs_erase_key (if active = byte_A then ''slot_b'' else ''slot_a'') n2
            in ok_then (if e = ESP_ERR_NVS_NOT_FOUND then ESP_OK else e, n3) nvs_commit)"

definition pm_config_erase_inactive :: "config_env \<Rightarrow> esp_err \<times> config_env" where
  "pm_config_erase_inactive env = unowned_mutation True erase_inactive_work env"

subsection \<open>The committed configuration\<close>

text \<open>What \<open>pm_config_load\<close> returns at the next boot, and the slot that decides it.\<close>

definition committed :: "pm_config nvs \<Rightarrow> esp_err \<times> pm_config" where
  "committed s = fst (pm_config_load (reboot s))"

definition selected_key :: "u8 \<Rightarrow> string" where
  "selected_key active = (if active = byte_B then ''slot_b'' else ''slot_a'')"

definition slot_value :: "pm_config blob option \<Rightarrow> esp_err \<times> pm_config" where
  "slot_value b = (case b of
       None \<Rightarrow> (ESP_ERR_NVS_NOT_FOUND, zero_config)
     | Some (Short_Blob _ _) \<Rightarrow> (ESP_ERR_INVALID_SIZE, zero_config)
     | Some Long_Blob \<Rightarrow> (ESP_ERR_NVS_INVALID_LENGTH, zero_config)
     | Some (Blob c) \<Rightarrow> (let e = pm_config_validate c False in (e, if e = ESP_OK then c else zero_config)))"

lemma read_slot_fault_free: "faults s = [] \<Longrightarrow> read_slot key s = (slot_value (blobs s key), s)"
  by (simp add: read_slot_def nvs_fault_free slot_value_def split: option.split blob.split)

lemma read_slot_ok:
  "fst (fst (read_slot key s)) = ESP_OK \<Longrightarrow>
     blobs s key = Some (Blob (snd (fst (read_slot key s)))) \<and>
     pm_config_validate (snd (fst (read_slot key s))) False = ESP_OK"
  using nvs_get_blob_ok [of key s]
  by (auto simp: read_slot_def nvs_get_blob_def Let_def
      split: prod.splits blob_read.splits if_splits option.splits blob.splits)

lemma read_slot_store [nvs_simps]:
  "blobs (snd (read_slot key s)) = blobs s" "u8s (snd (read_slot key s)) = u8s s"
  using nvs_read_store(5,6) [of key s]
  by (auto simp: read_slot_def split: prod.splits blob_read.splits)

lemma read_slot_eq: "read_slot key s = (r, s') \<Longrightarrow> blobs s' = blobs s \<and> u8s s' = u8s s"
  by (metis read_slot_store snd_conv)

lemma committed_alt:
  "committed s = (case u8s s ''active'' of
       None \<Rightarrow> (ESP_ERR_NOT_FOUND, zero_config)
     | Some a \<Rightarrow> if a \<noteq> byte_A \<and> a \<noteq> byte_B then (ESP_ERR_INVALID_STATE, zero_config)
                 else slot_value (blobs s (selected_key a)))"
  by (simp add: committed_def pm_config_load_def nvs_fault_free read_slot_fault_free
      selected_key_def split: option.split)

text \<open>
  A change of the store that leaves the selector and the selected slot alone leaves the
  committed configuration alone.
\<close>

definition keeps_selected :: "pm_config nvs \<Rightarrow> pm_config nvs \<Rightarrow> bool" where
  "keeps_selected s s' \<longleftrightarrow> u8s s' ''active'' = u8s s ''active'' \<and>
     (\<forall>a. u8s s ''active'' = Some a \<longrightarrow> a = byte_A \<or> a = byte_B \<longrightarrow>
        blobs s' (selected_key a) = blobs s (selected_key a))"

lemma keeps_selected_committed: "keeps_selected s s' \<Longrightarrow> committed s' = committed s"
  by (auto simp: keeps_selected_def committed_alt split: option.split)

lemma keeps_selected_refl: "blobs s' = blobs s \<Longrightarrow> u8s s' = u8s s \<Longrightarrow> keeps_selected s s'"
  by (simp add: keeps_selected_def)

lemma ok_then_commit_store [nvs_simps]:
  "blobs (snd (ok_then r nvs_commit)) = blobs (snd r)" "u8s (snd (ok_then r nvs_commit)) = u8s (snd r)"
  by (simp_all add: ok_then_def nvs_simps)

lemma ok_then_set_blob_store [nvs_simps]:
  "blobs (snd (ok_then (e, n) (nvs_set_blob k c))) =
     (if e = ESP_OK \<and> fst (nvs_set_blob k c n) = ESP_OK then (blobs n)(k \<mapsto> Blob c) else blobs n)"
  "u8s (snd (ok_then (e, n) (nvs_set_blob k c))) = u8s n"
  by (simp_all add: ok_then_def nvs_simps)

lemma select_inactive_ok:
  assumes "fst (select_inactive restaged r) = ESP_OK"
    and "r \<noteq> Inl ESP_OK" and "\<And>slot. restaged = Some slot \<Longrightarrow> slot = CHR ''A'' \<or> slot = CHR ''B''"
  shows "r = Inl ESP_ERR_NVS_NOT_FOUND \<or>
    (\<exists>a. r = Inr a \<and> selected_key a \<noteq>
       (if snd (select_inactive restaged r) = CHR ''B'' then ''slot_b'' else ''slot_a''))"
  using assms(1,2) assms(3) [of "the restaged"]
  by (cases r; cases restaged) (auto simp: select_inactive_def selected_key_def split: if_splits)

lemma stage_candidate_store:
  fixes n :: "pm_config nvs"
  defines "r \<equiv> fst (nvs_get_u8 ''active'' n)"
  shows "u8s (snd (stage_candidate restaged c n)) = u8s n"
    and "blobs (snd (stage_candidate restaged c n)) = blobs n \<or>
      fst (select_inactive restaged r) = ESP_OK \<and>
      blobs (snd (stage_candidate restaged c n)) =
        (blobs n)(if snd (select_inactive restaged r) = CHR ''B'' then ''slot_b'' else ''slot_a'' \<mapsto> Blob c)"
proof -
  define n4 where "n4 = snd (ok_then (ok_then (fst (select_inactive restaged r), snd (nvs_get_u8 ''active'' n))
     (nvs_set_blob (if snd (select_inactive restaged r) = CHR ''B'' then ''slot_b'' else ''slot_a'') c)) nvs_commit)"
  have "blobs (snd (stage_candidate restaged c n)) = blobs n4"
    "u8s (snd (stage_candidate restaged c n)) = u8s n4"
    by (simp_all add: stage_candidate_def Let_def split_beta n4_def r_def nvs_simps)
  moreover have "u8s n4 = u8s n"
    by (simp add: n4_def nvs_simps)
  moreover have "blobs n4 = blobs n \<or> fst (select_inactive restaged r) = ESP_OK \<and> blobs n4 =
      (blobs n)(if snd (select_inactive restaged r) = CHR ''B'' then ''slot_b'' else ''slot_a'' \<mapsto> Blob c)"
    by (simp add: n4_def nvs_simps)
  ultimately show "u8s (snd (stage_candidate restaged c n)) = u8s n"
    and "blobs (snd (stage_candidate restaged c n)) = blobs n \<or>
      fst (select_inactive restaged r) = ESP_OK \<and>
      blobs (snd (stage_candidate restaged c n)) =
        (blobs n)(if snd (select_inactive restaged r) = CHR ''B'' then ''slot_b'' else ''slot_a'' \<mapsto> Blob c)"
    by simp_all
qed

lemma stage_candidate_keeps:
  assumes "honest n" "\<And>slot. restaged = Some slot \<Longrightarrow> slot = CHR ''A'' \<or> slot = CHR ''B''"
  shows "keeps_selected n (snd (stage_candidate restaged c n))"
proof -
  let ?r = "fst (nvs_get_u8 ''active'' n)"
  have "?r = Inl ESP_ERR_NVS_NOT_FOUND \<Longrightarrow> u8s n ''active'' = None"
    using assms(1) by (rule nvs_get_u8_not_found)
  moreover have "?r = Inr a \<Longrightarrow> u8s n ''active'' = Some a" for a
    by (rule nvs_get_u8_ok)
  moreover have "fst (select_inactive restaged ?r) = ESP_OK \<Longrightarrow> ?r = Inl ESP_ERR_NVS_NOT_FOUND \<or>
    (\<exists>a. ?r = Inr a \<and> selected_key a \<noteq>
       (if snd (select_inactive restaged ?r) = CHR ''B'' then ''slot_b'' else ''slot_a''))"
    using assms(2) nvs_get_u8_not_Inl_OK by (intro select_inactive_ok) auto
  ultimately show ?thesis
    using stage_candidate_store [of restaged c n] by (auto simp: keeps_selected_def)
qed

text \<open>Claims and releases do not touch storage.\<close>

lemma claims_nvs [simp]:
  "cfg_nvs (snd (claim_new_transaction env)) = cfg_nvs env"
  "cfg_nvs (snd (claim_transaction_mutation tid env)) = cfg_nvs env"
  "cfg_nvs (snd (claim_unowned_mutation env)) = cfg_nvs env"
  "cfg_nvs (finish_mutation env) = cfg_nvs env"
  "cfg_nvs (release_transaction tid env) = cfg_nvs env"
  by (simp_all add: claim_new_transaction_def claim_transaction_mutation_def
      claim_unowned_mutation_def finish_mutation_def release_transaction_def Let_def split_beta)

lemma claims_nvs_eq:
  "claim_new_transaction env = (x, env') \<Longrightarrow> cfg_nvs env' = cfg_nvs env"
  "claim_transaction_mutation tid env = (b, env') \<Longrightarrow> cfg_nvs env' = cfg_nvs env"
  "claim_unowned_mutation env = (b, env') \<Longrightarrow> cfg_nvs env' = cfg_nvs env"
  by (metis claims_nvs snd_conv)+

text \<open>Whatever way \<open>pm_config_begin\<close> takes, its effect on storage is that of \<open>stage_candidate\<close>, or none.\<close>

lemma pm_config_begin_nvs:
  "cfg_nvs (snd (snd (pm_config_begin psa alloc c t env))) = cfg_nvs env \<or>
   cfg_nvs (snd (snd (pm_config_begin psa alloc c t env))) = snd (nvs_open (cfg_nvs env)) \<or>
   cfg_nvs (snd (snd (pm_config_begin psa alloc c t env))) =
     snd (stage_candidate (if restaging t then Some (candidate_slot t) else None) (staged_config c)
       (snd (nvs_open (cfg_nvs env))))"
  by (auto simp: pm_config_begin_def Let_def split_beta split: option.split)

lemma config_begin_keeps:
  assumes "honest (cfg_nvs env)"
  shows "committed (cfg_nvs (snd (snd (pm_config_begin psa alloc c t env)))) = committed (cfg_nvs env)"
proof -
  let ?n1 = "snd (nvs_open (cfg_nvs env))"
  let ?r = "if restaging t then Some (candidate_slot t) else None"
  have open_keeps: "committed ?n1 = committed (cfg_nvs env)"
    by (rule keeps_selected_committed, rule keeps_selected_refl) (simp_all add: nvs_simps)
  have "committed (snd (stage_candidate ?r (staged_config c) ?n1)) = committed ?n1"
    using assms
    by (intro keeps_selected_committed stage_candidate_keeps)
       (auto simp: honest_ops restaging_def split: if_splits)
  then show ?thesis
    using pm_config_begin_nvs [of psa alloc c t env] open_keeps by auto
qed

text \<open>
  Staging is harmless: \<open>pm_config_begin\<close>, with any candidate, any transaction object, at
  whatever point storage fails or power is lost, leaves the configuration that the next
  boot loads exactly as it was.
\<close>

theorem config_begin_preserves_committed:
  assumes "honest (cfg_nvs env)"
  shows "committed (cfg_nvs (snd (snd (pm_config_begin psa alloc c t env)))) = committed (cfg_nvs env)"
  using assms by (rule config_begin_keeps)

subsection \<open>A concrete configuration\<close>

definition demo_config :: pm_config where
  "demo_config = zero_config\<lparr>cfg_generation := 7, friendly_name := store_str 49 ''garage'',
     wifi_ssid := store_str 33 ''net'', server_origin := store_str 193 ''https://pm.example'',
     ca_pem := store_str 4097 ''PEM'', timezone := store_str 65 ''UTC'', ct_rating_a := 100\<rparr>"

lemma config_crc_update [simp]: "config_crc (c\<lparr>cfg_crc32 := x\<rparr>) = config_crc c"
  by (simp add: config_crc_def config_prefix_bytes_def)

lemma staged_config_simps [simp]:
  "schema_version (staged_config c) = 1" "cfg_crc32 (staged_config c) = config_crc (staged_config c)"
  by (simp_all add: staged_config_def Let_def)

lemma demo_config_valid: "pm_config_validate (staged_config demo_config) False = ESP_OK"
  unfolding pm_config_validate_def staged_config_simps
  by (simp add: staged_config_def Let_def demo_config_def zero_config_def nul_terminated_store_str
      cstr_store_str) (simp add: nul_terminated_def cstr_def)

definition demo_env :: "esp_err list \<Rightarrow> config_env" where
  "demo_env fs = \<lparr>s_next_transaction_id = 1, s_active_transaction_id = 0,
     s_mutation_in_progress = False,
     cfg_nvs = \<lparr>blobs = Map.empty(''slot_a'' \<mapsto> Blob (staged_config demo_config)),
                u8s = Map.empty(''active'' \<mapsto> byte_A), faults = fs\<rparr>\<rparr>"

lemma demo_committed: "committed (cfg_nvs (demo_env fs)) = (ESP_OK, staged_config demo_config)"
  by (simp add: committed_alt demo_env_def slot_value_def selected_key_def demo_config_valid)

theorem config_begin_preserves_committed_witness:
  "honest (cfg_nvs (demo_env [ESP_OK, ESP_OK, ESP_FAIL])) \<and>
   committed (cfg_nvs (snd (snd (pm_config_begin (\<lambda>_. None) True
      (demo_config\<lparr>cfg_generation := 8\<rparr>) zero_transaction (demo_env [ESP_OK, ESP_OK, ESP_FAIL]))))) =
    (ESP_OK, staged_config demo_config)"
proof -
  have h: "honest (cfg_nvs (demo_env [ESP_OK, ESP_OK, ESP_FAIL]))"
    by (simp add: honest_def demo_env_def)
  show ?thesis
    using config_begin_preserves_committed [OF h] h by (simp add: demo_committed)
qed

subsection \<open>A whole transaction\<close>

lemma stage_candidate_ok:
  assumes "stage_candidate restaged c n = ((ESP_OK, slot), n')"
    and "\<And>sl. restaged = Some sl \<Longrightarrow> sl = CHR ''A'' \<or> sl = CHR ''B''"
  shows "\<exists>key. slot_key slot = Some key \<and> blobs n' key = Some (Blob c) \<and>
     pm_config_validate c False = ESP_OK \<and> selected_key (of_char slot) = key"
proof -
  let ?sel = "select_inactive restaged (fst (nvs_get_u8 ''active'' n))"
  let ?key = "if slot = CHR ''B'' then ''slot_b'' else ''slot_a''"
  have slot: "slot = snd ?sel"
    using assms(1) by (auto simp: stage_candidate_def Let_def split_beta)
  then have AB: "slot = CHR ''A'' \<or> slot = CHR ''B''"
    using assms(2) by (auto simp: select_inactive_def Let_def split: option.splits)
  obtain m where m: "fst (fst (read_slot ?key m)) = ESP_OK" "snd (fst (read_slot ?key m)) = c"
      "n' = snd (read_slot ?key m)"
    using assms(1) slot by (auto simp: stage_candidate_def Let_def split_beta split: if_splits)
  then have "blobs n' ?key = Some (Blob c)" "pm_config_validate c False = ESP_OK"
    using read_slot_ok [OF m(1)] by (simp_all add: nvs_simps)
  with AB show ?thesis
    by (auto simp: slot_key_def selected_key_def)
qed

lemma claim_new_transaction_Some:
  "claim_new_transaction env = (Some tid, env') \<Longrightarrow>
     tid \<noteq> 0 \<and> s_active_transaction_id env' = tid \<and> s_mutation_in_progress env'"
  by (auto simp: claim_new_transaction_def Let_def split: if_splits prod.splits)

lemma claim_transaction_mutation_True:
  "claim_transaction_mutation tid env = (True, env') \<Longrightarrow>
     tid \<noteq> 0 \<and> s_active_transaction_id env' = tid \<and> s_mutation_in_progress env'"
  by (auto simp: claim_transaction_mutation_def split: if_splits)

lemma pm_config_begin_ok:
  assumes "pm_config_begin psa alloc c t env = (ESP_OK, t1, env1)"
  shows "\<exists>key. slot_key (candidate_slot t1) = Some key \<and>
      blobs (cfg_nvs env1) key = Some (Blob (staged_config c)) \<and>
      selected_key (of_char (candidate_slot t1)) = key \<and>
      pm_config_validate (staged_config c) False = ESP_OK"
    and "transaction_id t1 \<noteq> 0 \<and> s_active_transaction_id env1 = transaction_id t1 \<and>
      \<not> s_mutation_in_progress env1"
proof -
  let ?r = "if restaging t then Some (candidate_slot t) else None"
  have AB: "\<And>sl. ?r = Some sl \<Longrightarrow> sl = CHR ''A'' \<or> sl = CHR ''B''"
    by (auto simp: restaging_def split: if_splits)
  obtain envc n1 n5 where
    st: "stage_candidate ?r (staged_config c) n1 = ((ESP_OK, candidate_slot t1), n5)" and
    e1: "env1 = finish_mutation (envc\<lparr>cfg_nvs := n5\<rparr>)" and
    tid: "transaction_id t1 \<noteq> 0" "s_active_transaction_id envc = transaction_id t1"
    using assms
    by (auto simp: pm_config_begin_def Let_def split: if_splits option.splits prod.splits
        dest!: claim_new_transaction_Some claim_transaction_mutation_True)
  from stage_candidate_ok [OF st AB] e1
  show "\<exists>key. slot_key (candidate_slot t1) = Some key \<and>
      blobs (cfg_nvs env1) key = Some (Blob (staged_config c)) \<and>
      selected_key (of_char (candidate_slot t1)) = key \<and>
      pm_config_validate (staged_config c) False = ESP_OK"
    by auto
  show "transaction_id t1 \<noteq> 0 \<and> s_active_transaction_id env1 = transaction_id t1 \<and>
      \<not> s_mutation_in_progress env1"
    using e1 tid by (simp add: finish_mutation_def)
qed

lemma commit_candidate_store:
  "blobs (snd (commit_candidate psa t key n)) = blobs n"
  "u8s (snd (commit_candidate psa t key n)) = u8s n \<or>
   u8s (snd (commit_candidate psa t key n)) = (u8s n)(''active'' \<mapsto> of_char (candidate_slot t))"
  by (simp_all add: commit_candidate_def Let_def split_beta ok_then_def nvs_simps)

lemma commit_candidate_ok:
  "fst (commit_candidate psa t key n) = ESP_OK \<Longrightarrow>
     u8s (snd (commit_candidate psa t key n)) = (u8s n)(''active'' \<mapsto> of_char (candidate_slot t))"
  by (auto simp: commit_candidate_def Let_def split_beta ok_then_def nvs_simps split: if_splits)

lemma slot_key_byte:
  "slot_key slot = Some key \<Longrightarrow> of_char slot = byte_A \<or> of_char slot = byte_B"
  "slot_key slot = Some key \<Longrightarrow> selected_key (of_char slot) = key"
  by (auto simp: slot_key_def selected_key_def split: if_splits)

lemma pm_config_commit_nvs:
  assumes "pm_config_commit psa alloc t env = (e, t', env')"
  shows "cfg_nvs env' = cfg_nvs env \<and> e \<noteq> ESP_OK \<or>
    (\<exists>key. slot_key (candidate_slot t) = Some key \<and> stage t = PM_CONFIG_STAGE_NETWORK_TESTED \<and>
       (e, cfg_nvs env') = commit_candidate psa t key (cfg_nvs env))"
  using assms
  by (auto simp: pm_config_commit_def Let_def dest: claims_nvs_eq
      split: option.splits if_splits prod.splits bool.splits)

text \<open>
  C1. A configuration transaction is atomic and durable. Whatever fails on the way (storage
  errors or power loss at any call), after begin, network test and commit the next boot
  loads either the previous configuration or the candidate, never anything else; when the
  commit reports success it loads the candidate, with its checksum and schema version set.
\<close>

theorem config_transaction_atomic:
  assumes "honest (cfg_nvs env)"
    and "pm_config_begin psa alloc c t env = (ESP_OK, t1, env1)"
    and "pm_config_mark_network_tested t1 env1 = (ESP_OK, t2)"
    and "pm_config_commit psa alloc' t2 env1 = (e, t3, env2)"
  shows "(e = ESP_OK \<longrightarrow> committed (cfg_nvs env2) = (ESP_OK, staged_config c)) \<and>
     committed (cfg_nvs env2) \<in> {committed (cfg_nvs env), (ESP_OK, staged_config c)}"
proof -
  have old: "committed (cfg_nvs env1) = committed (cfg_nvs env)"
    using config_begin_keeps [OF assms(1), of psa alloc c t] assms(2) by simp
  have t2: "candidate_slot t2 = candidate_slot t1"
    using assms(3) by (auto simp: pm_config_mark_network_tested_def split: if_splits)
  obtain key where key: "slot_key (candidate_slot t1) = Some key"
    "blobs (cfg_nvs env1) key = Some (Blob (staged_config c))"
    "selected_key (of_char (candidate_slot t1)) = key"
    "pm_config_validate (staged_config c) False = ESP_OK"
    using pm_config_begin_ok(1) [OF assms(2)] by blast
  have switched: "committed n = (ESP_OK, staged_config c)"
    if "blobs n = blobs (cfg_nvs env1)" "u8s n ''active'' = Some (of_char (candidate_slot t1))" for n
    using that key slot_key_byte(1) [OF key(1)] by (auto simp: committed_alt slot_value_def)
  have kept: "committed n = committed (cfg_nvs env)"
    if "blobs n = blobs (cfg_nvs env1)" "u8s n = u8s (cfg_nvs env1)" for n
    using keeps_selected_committed [OF keeps_selected_refl [OF that]] old by simp
  from pm_config_commit_nvs [OF assms(4)] show ?thesis
  proof
    assume "cfg_nvs env2 = cfg_nvs env1 \<and> e \<noteq> ESP_OK"
    then show ?thesis using old by simp
  next
    assume "\<exists>key. slot_key (candidate_slot t2) = Some key \<and> stage t2 = PM_CONFIG_STAGE_NETWORK_TESTED \<and>
       (e, cfg_nvs env2) = commit_candidate psa t2 key (cfg_nvs env1)"
    then obtain k where k: "commit_candidate psa t2 k (cfg_nvs env1) = (e, cfg_nvs env2)" by metis
    then show ?thesis
      using commit_candidate_store [of psa t2 k "cfg_nvs env1"]
        commit_candidate_ok [of psa t2 k "cfg_nvs env1"] t2 switched kept by auto
  qed
qed

definition demo_next :: pm_config where
  "demo_next = demo_config\<lparr>cfg_generation := 8\<rparr>"

lemma demo_next_valid: "pm_config_validate (staged_config demo_next) False = ESP_OK"
  unfolding pm_config_validate_def staged_config_simps
  by (simp add: staged_config_def Let_def demo_next_def demo_config_def zero_config_def
      nul_terminated_store_str cstr_store_str) (simp add: nul_terminated_def cstr_def)

lemma demo_transaction:
  fixes t1
  defines "t1 \<equiv> \<lparr>stage = PM_CONFIG_STAGE_READBACK_VERIFIED, candidate_generation = 8,
    transaction_id = 1, candidate_slot = CHR ''B'', candidate_sha256 = replicate 32 0\<rparr>"
  shows "\<exists>env1. pm_config_begin (\<lambda>_. None) True demo_next zero_transaction (demo_env []) = (ESP_OK, t1, env1) \<and>
     pm_config_mark_network_tested t1 env1 = (ESP_OK, t1\<lparr>stage := PM_CONFIG_STAGE_NETWORK_TESTED\<rparr>) \<and>
     fst (pm_config_commit (\<lambda>_. None) True (t1\<lparr>stage := PM_CONFIG_STAGE_NETWORK_TESTED\<rparr>) env1) = ESP_OK"
proof -
  have gen: "cfg_generation (staged_config demo_next) = 8"
    by (simp add: staged_config_def Let_def demo_next_def)
  let ?n = "(cfg_nvs (demo_env []))\<lparr>blobs := (blobs (cfg_nvs (demo_env [])))(''slot_b'' \<mapsto> Blob (staged_config demo_next))\<rparr>"
  let ?env1 = "(demo_env [])\<lparr>s_next_transaction_id := 2, s_active_transaction_id := 1, cfg_nvs := ?n\<rparr>"
  have "pm_config_begin (\<lambda>_. None) True demo_next zero_transaction (demo_env []) = (ESP_OK, t1, ?env1)"
    by (simp add: pm_config_begin_def demo_next_valid restaging_def zero_transaction_def
        claim_new_transaction_def demo_env_def nvs_fault_free stage_candidate_def select_inactive_def
        read_slot_fault_free slot_value_def t1_def gen finish_mutation_def pm_sha256_def PM_SHA256_SIZE_def)
  moreover have "pm_config_mark_network_tested t1 ?env1 = (ESP_OK, t1\<lparr>stage := PM_CONFIG_STAGE_NETWORK_TESTED\<rparr>)"
    by (simp add: pm_config_mark_network_tested_def t1_def transaction_is_active_def demo_env_def)
  moreover have "fst (pm_config_commit (\<lambda>_. None) True (t1\<lparr>stage := PM_CONFIG_STAGE_NETWORK_TESTED\<rparr>) ?env1) = ESP_OK"
    by (simp add: pm_config_commit_def t1_def slot_key_def claim_transaction_mutation_def demo_env_def
        commit_candidate_def nvs_fault_free read_slot_fault_free slot_value_def demo_next_valid gen
        pm_constant_time_equal_list pm_sha256_def PM_SHA256_SIZE_def)
  ultimately show ?thesis by blast
qed

theorem config_transaction_atomic_witness:
  "\<exists>env1 t1 t2. honest (cfg_nvs (demo_env [])) \<and>
     pm_config_begin (\<lambda>_. None) True demo_next zero_transaction (demo_env []) = (ESP_OK, t1, env1) \<and>
     pm_config_mark_network_tested t1 env1 = (ESP_OK, t2) \<and>
     committed (cfg_nvs (snd (snd (pm_config_commit (\<lambda>_. None) True t2 env1)))) = (ESP_OK, staged_config demo_next)"
proof -
  have h: "honest (cfg_nvs (demo_env []))" by (simp add: honest_def demo_env_def)
  obtain t1 env1 t2 where st:
    "pm_config_begin (\<lambda>_. None) True demo_next zero_transaction (demo_env []) = (ESP_OK, t1, env1)"
    "pm_config_mark_network_tested t1 env1 = (ESP_OK, t2)"
    "fst (pm_config_commit (\<lambda>_. None) True t2 env1) = ESP_OK"
    using demo_transaction by blast
  obtain t3 env2 where "pm_config_commit (\<lambda>_. None) True t2 env1 = (ESP_OK, t3, env2)"
    using st(3) by (metis prod.collapse)
  then show ?thesis
    using config_transaction_atomic [OF h st(1,2)] st h by fastforce
qed

subsection \<open>Operations outside a transaction\<close>

lemma unowned_mutation_cases:
  assumes "unowned_mutation alloc work env = (e, env')"
  shows "cfg_nvs env' = cfg_nvs env \<and> e \<noteq> ESP_OK \<or>
    (e, cfg_nvs env') = ok_then (nvs_open (cfg_nvs env)) work"
proof (cases "alloc \<and> fst (claim_unowned_mutation env)")
  case True
  obtain env1 where c: "claim_unowned_mutation env = (True, env1)"
    using True by (metis prod.collapse)
  with True assms claims_nvs_eq(3) [OF c] show ?thesis
    by (cases "ok_then (nvs_open (cfg_nvs env)) work") (auto simp: unowned_mutation_def)
next
  case False
  with assms show ?thesis
    by (auto simp: unowned_mutation_def claim_unowned_mutation_def split: if_splits)
qed

lemma unowned_mutation_nvs:
  "cfg_nvs (snd (unowned_mutation alloc work env)) = cfg_nvs env \<or>
   cfg_nvs (snd (unowned_mutation alloc work env)) = snd (ok_then (nvs_open (cfg_nvs env)) work)"
  by (auto simp: unowned_mutation_def Let_def split_beta dest: claims_nvs_eq
      split: prod.split bool.split)

lemma ok_then_open_keeps:
  assumes "\<And>n. keeps_selected n (snd (work n))"
  shows "keeps_selected n0 (snd (ok_then (nvs_open n0) work))"
  using assms [of "snd (nvs_open n0)"] by (auto simp: ok_then_def keeps_selected_def nvs_simps)

lemma unowned_mutation_keeps:
  "(\<And>n. keeps_selected n (snd (work n))) \<Longrightarrow>
     committed (cfg_nvs (snd (unowned_mutation alloc work env))) = committed (cfg_nvs env)"
  using unowned_mutation_nvs [of alloc work env] ok_then_open_keeps [of work "cfg_nvs env"]
  by (auto dest: keeps_selected_committed)

lemma erase_keeps:
  assumes "key = ''slot_a'' \<or> key = ''slot_b''"
    and "\<And>a. u8s n ''active'' = Some a \<Longrightarrow> a = byte_A \<or> a = byte_B \<Longrightarrow> selected_key a \<noteq> key"
    and "blobs n' = blobs n" "u8s n' = u8s n"
  shows "keeps_selected n (snd (ok_then (nvs_erase_key key n') nvs_commit))"
  using assms by (auto simp: keeps_selected_def nvs_simps)

lemma active_read_keeps:
  assumes "\<And>a n2. u8s n ''active'' = Some a \<Longrightarrow> blobs n2 = blobs n \<Longrightarrow> u8s n2 = u8s n \<Longrightarrow>
      keeps_selected n (snd (f a n2))"
  shows "keeps_selected n (snd (case nvs_get_u8 ''active'' n of
      (Inl e, n2) \<Rightarrow> (e, n2) | (Inr a, n2) \<Rightarrow> f a n2))"
proof (cases "nvs_get_u8 ''active'' n")
  case (Pair r n2)
  with assms nvs_get_u8_ok [of "''active''" n] nvs_read_eq(4) [OF Pair] show ?thesis
    by (auto intro: keeps_selected_refl split: sum.split)
qed

lemma cleanup_work_keeps:
  "slot_key slot = Some key \<Longrightarrow> keeps_selected n (snd (discard_work key slot g n))"
  "keeps_selected n (snd (discard_inactive_work g n))"
  "keeps_selected n (snd (erase_inactive_work n))"
  unfolding discard_work_def discard_inactive_work_def erase_inactive_work_def
  by (rule active_read_keeps;
      auto simp: keeps_selected_def selected_key_def slot_key_def Let_def split_beta nvs_simps
        split: if_splits)+

text \<open>
  Cleaning up never costs the device its configuration: discarding a staged slot,
  discarding the inactive generation and erasing the inactive slot leave the configuration
  of the next boot as it was, whatever storage does meanwhile.
\<close>

theorem config_cleanup_preserves_committed:
  "committed (cfg_nvs (snd (pm_config_discard_staged alloc slot g env))) = committed (cfg_nvs env) \<and>
   committed (cfg_nvs (snd (pm_config_discard_inactive_generation alloc g env))) = committed (cfg_nvs env) \<and>
   committed (cfg_nvs (snd (pm_config_erase_inactive env))) = committed (cfg_nvs env)"
  by (simp add: pm_config_discard_staged_def pm_config_discard_inactive_generation_def
      pm_config_erase_inactive_def unowned_mutation_keeps cleanup_work_keeps
      split: option.split)

text \<open>
  Mutations are exclusive: while a transaction owns the configuration, every operation
  outside it, a fresh begin, a begin or a commit under any other transaction id fails and
  changes neither storage nor the owner.
\<close>

theorem config_mutations_exclusive:
  assumes "s_active_transaction_id env \<noteq> 0"
  shows "(\<exists>e. e \<noteq> ESP_OK \<and> pm_config_activate_staged alloc slot g env = (e, env)) \<and>
    (\<exists>e. e \<noteq> ESP_OK \<and> pm_config_discard_staged alloc slot g env = (e, env)) \<and>
    (\<exists>e. e \<noteq> ESP_OK \<and> pm_config_discard_inactive_generation alloc g env = (e, env)) \<and>
    (\<exists>e. e \<noteq> ESP_OK \<and> pm_config_erase_inactive env = (e, env)) \<and>
    (\<not> restaging t \<or> transaction_id t \<noteq> s_active_transaction_id env \<longrightarrow>
      (\<exists>e. e \<noteq> ESP_OK \<and> pm_config_begin psa alloc c t env = (e, t, env))) \<and>
    (transaction_id t \<noteq> s_active_transaction_id env \<longrightarrow>
      (\<exists>e. e \<noteq> ESP_OK \<and> pm_config_commit psa alloc t env = (e, t, env)))"
  using assms
  by (simp add: pm_config_activate_staged_def pm_config_discard_staged_def pm_config_erase_inactive_def
      pm_config_discard_inactive_generation_def unowned_mutation_def claim_unowned_mutation_def
      pm_config_begin_def pm_config_commit_def claim_new_transaction_def claim_transaction_mutation_def
      Let_def split: option.split)

theorem config_mutations_exclusive_witness:
  "(\<exists>e. e \<noteq> ESP_OK \<and> pm_config_erase_inactive ((demo_env [])\<lparr>s_active_transaction_id := 5\<rparr>) =
      (e, (demo_env [])\<lparr>s_active_transaction_id := 5\<rparr>)) \<and>
   (\<exists>e. e \<noteq> ESP_OK \<and> pm_config_begin (\<lambda>_. None) True demo_next zero_transaction
      ((demo_env [])\<lparr>s_active_transaction_id := 5\<rparr>) =
      (e, zero_transaction, (demo_env [])\<lparr>s_active_transaction_id := 5\<rparr>))"
proof -
  have "s_active_transaction_id ((demo_env [])\<lparr>s_active_transaction_id := 5\<rparr>) \<noteq> 0" by simp
  from config_mutations_exclusive [OF this, of True "CHR ''A''" 1 zero_transaction "\<lambda>_. None" demo_next]
  show ?thesis by (simp add: zero_transaction_def restaging_def)
qed

lemma activate_work_cases:
  assumes "slot_key slot = Some key" "activate_work key slot g n = (e, n')"
  shows "blobs n' = blobs n \<and> (u8s n' = u8s n \<and> e \<noteq> ESP_OK \<or>
    (\<exists>c. blobs n key = Some (Blob c) \<and> pm_config_validate c False = ESP_OK \<and>
       cfg_generation c = g \<and> u8s n' ''active'' = Some (of_char slot)))"
proof -
  obtain e2 c n2 where rs: "read_slot key n = ((e2, c), n2)" by (metis prod.exhaust)
  note n2 = read_slot_eq [OF rs] and ok = read_slot_ok [of key n]
  obtain r n3 where ga: "nvs_get_u8 ''active'' n2 = (r, n3)" by (metis prod.exhaust)
  note n3 = nvs_read_eq(4) [OF ga] and ra = nvs_get_u8_ok [of "''active''" n2]
  obtain e4 n4 where sa: "nvs_set_u8 ''active'' (of_char slot) n3 = (e4, n4)" by (metis prod.exhaust)
  note n4 = nvs_write_eq(2) [OF sa]
  show ?thesis
    using assms(2) rs ga sa n2 n3 n4 ok ra nvs_get_u8_not_Inl_OK [of "''active''" n2]
    by (auto simp: activate_work_def Let_def ok_then_def split: if_splits sum.splits
        dest!: nvs_read_eq(2))
qed

lemma committed_switched:
  assumes "slot_key slot = Some key" "u8s n ''active'' = Some (of_char slot)"
    "blobs n key = Some (Blob c)" "pm_config_validate c False = ESP_OK"
  shows "committed n = (ESP_OK, c)"
  using assms(2-4) slot_key_byte [OF assms(1)] by (auto simp: committed_alt slot_value_def)

lemma committed_cong: "blobs n' = blobs n \<Longrightarrow> u8s n' = u8s n \<Longrightarrow> committed n' = committed n"
  by (intro keeps_selected_committed keeps_selected_refl)

lemma activate_work_committed:
  assumes "slot_key slot = Some key" "(e, n') = ok_then (nvs_open n) (activate_work key slot g)"
  shows "(\<exists>c. blobs n key = Some (Blob c) \<and> cfg_generation c = g \<and> committed n' = (ESP_OK, c)) \<or>
     e \<noteq> ESP_OK \<and> committed n' = committed n"
proof (cases "nvs_open n")
  case (Pair e1 n1)
  note n1 = nvs_read_eq(1) [OF Pair]
  show ?thesis
  proof (cases "e1 = ESP_OK")
    case False
    with assms(2) Pair n1 committed_cong [of n1 n] show ?thesis by simp
  next
    case True
    with assms(2) Pair have "activate_work key slot g n1 = (e, n')" by simp
    note cases = activate_work_cases [OF assms(1) this]
    show ?thesis
    proof (cases "u8s n' = u8s n1 \<and> e \<noteq> ESP_OK")
      case True
      then show ?thesis using cases n1 committed_cong [of n' n] by simp
    next
      case False
      with cases obtain c where c: "blobs n1 key = Some (Blob c)" "cfg_generation c = g"
        "pm_config_validate c False = ESP_OK" "u8s n' ''active'' = Some (of_char slot)"
        "blobs n' = blobs n1" by blast
      with committed_switched [OF assms(1) c(4) _ c(3)] n1 show ?thesis by simp
    qed
  qed
qed

text \<open>
  Activating a staged slot selects exactly the configuration that was asked for: when it
  reports success, the next boot loads a valid configuration of the expected generation from
  the requested slot; when it fails, the next boot loads that one or what it loaded before.
\<close>
theorem config_activate_selects:
  assumes "pm_config_activate_staged alloc slot g env = (e, env')"
  shows "(\<exists>key c. slot_key slot = Some key \<and> blobs (cfg_nvs env) key = Some (Blob c) \<and>
       cfg_generation c = g \<and> committed (cfg_nvs env') = (ESP_OK, c)) \<or>
     e \<noteq> ESP_OK \<and> committed (cfg_nvs env') = committed (cfg_nvs env)"
proof (cases "slot_key slot")
  case None
  with assms show ?thesis by (simp add: pm_config_activate_staged_def)
next
  case (Some key)
  consider "cfg_nvs env' = cfg_nvs env" "e \<noteq> ESP_OK"
    | "(e, cfg_nvs env') = ok_then (nvs_open (cfg_nvs env)) (activate_work key slot g)"
    using assms Some unowned_mutation_cases [of alloc "activate_work key slot g" env e env']
    by (auto simp: pm_config_activate_staged_def split: if_splits)
  then show ?thesis
    by cases (use activate_work_committed [OF Some] in \<open>auto simp: Some\<close>)
qed

theorem config_activate_selects_witness:
  "\<exists>env'. pm_config_activate_staged True (CHR ''A'') 7 (demo_env []) = (ESP_OK, env') \<and>
     (\<exists>c. cfg_generation c = 7 \<and> committed (cfg_nvs env') = (ESP_OK, c))"
proof -
  have g: "cfg_generation (staged_config demo_config) = 7"
    by (simp add: staged_config_def Let_def demo_config_def)
  have "fst (pm_config_activate_staged True (CHR ''A'') 7 (demo_env [])) = ESP_OK"
    by (simp add: pm_config_activate_staged_def slot_key_def unowned_mutation_def
        claim_unowned_mutation_def demo_env_def nvs_fault_free activate_work_def read_slot_fault_free
        slot_value_def demo_config_valid g)
  then obtain env' where "pm_config_activate_staged True (CHR ''A'') 7 (demo_env []) = (ESP_OK, env')"
    by (metis prod.collapse)
  with config_activate_selects [OF this] show ?thesis by blast
qed

end
