(* ===== verification/PM_Json.thy ===== *)
theory PM_Json
  imports Complex_Main PM_Prelude
begin

text \<open>
  What the firmware uses of the cJSON library, as a parameter: a record of the functions it
  calls on an arbitrary type \<open>'j\<close> of parsed values. \<open>cJSON_valuestring\<close> is \<open>Some\<close> for an item on which
  \<open>cJSON_IsString\<close> holds and whose \<open>valuestring\<close> is not NULL, \<open>cJSON_valuedouble\<close> is \<open>Some\<close> for an item on
  which \<open>cJSON_IsNumber\<close> holds; a finite double is a rational number, and an infinite one is as
  good as any rational above \<open>UINT32_MAX\<close> to the code below, which compares it first. A NULL
  item is \<open>None\<close>.
\<close>

record 'j cjson =
  cJSON_Parse :: "string \<Rightarrow> 'j option"
  cJSON_IsObject :: "'j \<Rightarrow> bool"
  cJSON_GetArraySize :: "'j \<Rightarrow> nat"
  cJSON_GetObjectItem :: "'j \<Rightarrow> string \<Rightarrow> 'j option"
  cJSON_valuestring :: "'j \<Rightarrow> string option"
  cJSON_valuedouble :: "'j \<Rightarrow> rat option"

text \<open>
  A concrete instance for evaluation: a flat object is an association list that the text
  determines through a given parser.
\<close>

datatype flat_json = FObject "(string \<times> flat_json) list" | FString string | FNumber rat

definition flat_cjson :: "(string \<Rightarrow> flat_json option) \<Rightarrow> flat_json cjson" where
  "flat_cjson parser = \<lparr>cJSON_Parse = parser,
     cJSON_IsObject = (\<lambda>j. case j of FObject _ \<Rightarrow> True | _ \<Rightarrow> False),
     cJSON_GetArraySize = (\<lambda>j. case j of FObject kvs \<Rightarrow> length kvs | _ \<Rightarrow> 0),
     cJSON_GetObjectItem = (\<lambda>j key. case j of FObject kvs \<Rightarrow> map_of kvs key | _ \<Rightarrow> None),
     cJSON_valuestring = (\<lambda>j. case j of FString s \<Rightarrow> Some s | _ \<Rightarrow> None),
     cJSON_valuedouble = (\<lambda>j. case j of FNumber q \<Rightarrow> Some q | _ \<Rightarrow> None)\<rparr>"

end
