(* ===== verification/PM_Text.thy ===== *)
theory PM_Text
  imports PM_Prelude
begin

text \<open>
  Text as the C library sees it: character classes in the C locale, decimal printing
  (\<open>dec\<close>, \<open>show_int\<close> for \<open>%lld\<close>), \<open>strtoll\<close>, splitting and joining at a separator, and the lemmas
  on them that the version, protocol and response parsers share.
\<close>

subsection \<open>Digits and numbers\<close>

definition is_digit :: "char \<Rightarrow> bool" where
  "is_digit c \<longleftrightarrow> of_char c \<ge> (48 :: nat) \<and> of_char c \<le> (57 :: nat)"

definition digit_value :: "char \<Rightarrow> nat" where
  "digit_value c = of_char c - 48"

definition digit_char :: "nat \<Rightarrow> char" where
  "digit_char d = ''0123456789'' ! d"

fun dec :: "nat \<Rightarrow> string" where
  "dec n = (if n < 10 then [digit_char n] else dec (n div 10) @ [digit_char (n mod 10)])"

declare dec.simps [simp del]

definition digits_value :: "nat \<Rightarrow> string \<Rightarrow> nat" where
  "digits_value a ds = foldl (\<lambda>v c. v * 10 + digit_value c) a ds"

lemma digit_char_cases: "d < 10 \<Longrightarrow> is_digit (digit_char d) \<and> digit_value (digit_char d) = d"
proof -
  assume "d < 10"
  then have "d \<in> {0, 1, 2, 3, 4, 5, 6, 7, 8, 9}" by auto
  then show ?thesis by (auto simp: digit_char_def is_digit_def digit_value_def)
qed

lemma is_digit_char: "is_digit c \<Longrightarrow> digit_value c < 10 \<and> digit_char (digit_value c) = c"
proof -
  assume c: "is_digit c"
  define k :: nat where "k = of_char c"
  have ck: "c = char_of k" by (simp add: k_def)
  have "48 \<le> k" "k \<le> 57" using c by (simp_all add: is_digit_def k_def)
  then have "k = 48 \<or> k = 49 \<or> k = 50 \<or> k = 51 \<or> k = 52 \<or> k = 53 \<or> k = 54 \<or> k = 55 \<or> k = 56 \<or> k = 57"
    by presburger
  then show ?thesis unfolding ck by (auto simp: digit_value_def digit_char_def char_of_def bit_0)
qed

lemma digits_value_le: "a \<le> digits_value a ds"
proof (induction ds arbitrary: a)
  case (Cons c ds)
  have "a \<le> a * 10 + digit_value c" by simp
  also have "\<dots> \<le> digits_value (a * 10 + digit_value c) ds" by (rule Cons)
  finally show ?case by (simp add: digits_value_def)
qed (simp add: digits_value_def)

text \<open>Digit strings without a superfluous leading zero are the printed numbers.\<close>

definition canonical_digits :: "string \<Rightarrow> bool" where
  "canonical_digits ds \<longleftrightarrow> ds \<noteq> [] \<and> list_all is_digit ds \<and> (hd ds = CHR ''0'' \<longrightarrow> length ds = 1)"

lemma digit_zero: "is_digit c \<Longrightarrow> digit_value c = 0 \<longleftrightarrow> c = CHR ''0''"
  using is_digit_char [of c] by (auto simp: digit_char_def digit_value_def)

lemma dec_digits_value: "canonical_digits ds \<Longrightarrow> dec (digits_value 0 ds) = ds"
proof (induction ds rule: rev_induct)
  case (snoc c ds)
  have c: "is_digit c" "digit_value c < 10" "digit_char (digit_value c) = c"
    using snoc.prems is_digit_char by (auto simp: canonical_digits_def)
  have v: "digits_value 0 (ds @ [c]) = digits_value 0 ds * 10 + digit_value c" by (simp add: digits_value_def)
  show ?case
  proof (cases "ds = []")
    case True
    with c v show ?thesis by (simp add: digits_value_def dec.simps)
  next
    case False
    then have ds: "canonical_digits ds" and nz: "hd ds \<noteq> CHR ''0''" "is_digit (hd ds)"
      using snoc.prems by (auto simp: canonical_digits_def list_all_iff)
    have "0 < digit_value (hd ds)" using nz digit_zero by blast
    also have "\<dots> \<le> digits_value 0 ds"
      using digits_value_le [of "digit_value (hd ds)" "tl ds"] False
      by (cases ds) (simp_all add: digits_value_def)
    finally have "\<not> digits_value 0 (ds @ [c]) < 10" by (simp add: v)
    then have "dec (digits_value 0 (ds @ [c])) = dec (digits_value 0 ds) @ [c]"
      using c by (subst dec.simps) (simp add: v)
    then show ?thesis by (simp add: snoc.IH [OF ds])
  qed
qed (simp add: canonical_digits_def)

lemma digits_value_dec: "canonical_digits (dec n) \<and> digits_value 0 (dec n) = n"
proof (induction n rule: dec.induct)
  case (1 n)
  show ?case
  proof (cases "n < 10")
    case True
    then show ?thesis
      using digit_char_cases [OF True]
      by (simp add: dec.simps [of n] canonical_digits_def digits_value_def)
  next
    case False
    note IH = 1 [OF False]
    let ?m = "dec (n div 10)"
    have d: "is_digit (digit_char (n mod 10))" "digit_value (digit_char (n mod 10)) = n mod 10"
      using digit_char_cases [of "n mod 10"] by simp_all
    have "hd ?m \<noteq> CHR ''0''"
    proof
      assume z: "hd ?m = CHR ''0''"
      then have "length ?m = 1" using IH by (simp add: canonical_digits_def)
      then obtain c where "?m = [c]" by (cases ?m) auto
      with z IH have "n div 10 = 0" by (simp add: digits_value_def digit_value_def)
      with False show False by simp
    qed
    then show ?thesis
      using IH d False by (simp add: dec.simps [of n] canonical_digits_def digits_value_def)
  qed
qed

lemma not_digits [simp]: "\<not> is_digit CHR ''.''" "\<not> is_digit CHR ''-''"
  by (simp_all add: is_digit_def)

subsection \<open>Character classes\<close>

definition is_xdigit :: "char \<Rightarrow> bool" where
  "is_xdigit c \<longleftrightarrow> is_digit c \<or> (65 \<le> (of_char c :: nat) \<and> (of_char c :: nat) \<le> 70) \<or>
     (97 \<le> (of_char c :: nat) \<and> (of_char c :: nat) \<le> 102)"

definition is_space :: "char \<Rightarrow> bool" where
  "is_space c \<longleftrightarrow> of_char c = (32 :: nat) \<or> (9 \<le> (of_char c :: nat) \<and> (of_char c :: nat) \<le> 13)"

definition to_upper :: "char \<Rightarrow> char" where
  "to_upper c = (if 97 \<le> (of_char c :: nat) \<and> (of_char c :: nat) \<le> 122
     then char_of ((of_char c :: nat) - 32) else c)"

definition lower_hex :: "char \<Rightarrow> bool" where
  "lower_hex c \<longleftrightarrow> is_digit c \<or> (97 \<le> (of_char c :: nat) \<and> (of_char c :: nat) \<le> 102)"

lemma to_upper_code:
  "of_char (to_upper c) = (let k = of_char c :: nat in if 97 \<le> k \<and> k \<le> 122 then k - 32 else k)"
proof (cases "97 \<le> (of_char c :: nat) \<and> (of_char c :: nat) \<le> 122")
  case True
  then have "(of_char c - 32 :: nat) < 256" by linarith
  then have "(of_char (char_of (of_char c - 32 :: nat)) :: nat) = of_char c - 32"
    by (simp add: of_char_mod_256)
  with True show ?thesis by (simp add: to_upper_def)
qed (auto simp: to_upper_def Let_def)

lemma to_upper_idem [simp]: "to_upper (to_upper c) = to_upper c"
proof -
  have "\<not> (97 \<le> (of_char (to_upper c) :: nat) \<and> (of_char (to_upper c) :: nat) \<le> 122)"
    unfolding to_upper_code Let_def by (auto split: if_splits)
  then show ?thesis by (auto simp: to_upper_def [of "to_upper c"])
qed

subsection \<open>Printing and reading integers\<close>

definition show_int :: "int \<Rightarrow> string" where
  "show_int i = (if i < 0 then CHR ''-'' # dec (nat (- i)) else dec (nat i))"

text \<open>\<open>strtoll (s, &end, 10)\<close>: the value and the text at \<open>end\<close>, \<open>None\<close> when no conversion took place.\<close>

definition strtoll :: "string \<Rightarrow> (int \<times> string) option" where
  "strtoll s =
     (let s1 = dropWhile is_space s;
          neg = (s1 \<noteq> [] \<and> hd s1 = CHR ''-'');
          s2 = (if s1 \<noteq> [] \<and> (hd s1 = CHR ''-'' \<or> hd s1 = CHR ''+'') then tl s1 else s1);
          ds = takeWhile is_digit s2;
          v = int (digits_value 0 ds)
      in if ds = [] then None
         else Some (if neg then max (- v) (- INT64_MAX - 1) else min v INT64_MAX, dropWhile is_digit s2))"

lemma strtoll_dec:
  assumes "int n \<le> INT64_MAX"
  shows "strtoll (dec n) = Some (int n, [])"
proof -
  have ds: "dec n \<noteq> []" "list_all is_digit (dec n)" "digits_value 0 (dec n) = n"
    using digits_value_dec [of n] by (simp_all add: canonical_digits_def)
  obtain c cs where c: "dec n = c # cs" "is_digit c" using ds(1,2) by (cases "dec n") auto
  have nc: "\<not> is_space c" "c \<noteq> CHR ''-''" "c \<noteq> CHR ''+''"
    using c(2) by (auto simp: is_digit_def is_space_def)
  have tw: "takeWhile is_digit (dec n) = dec n" "dropWhile is_digit (dec n) = []"
    using ds(2) by (simp_all add: list_all_iff takeWhile_eq_all_conv dropWhile_eq_Nil_conv)
  have sp: "dropWhile is_space (dec n) = dec n" "hd (dec n) = c" using nc(1) by (simp_all add: c(1))
  show ?thesis
    using assms by (simp add: strtoll_def Let_def tw sp nc ds)
qed

subsection \<open>Splitting at a separator\<close>

fun split_at :: "char \<Rightarrow> string \<Rightarrow> string list" where
  "split_at sep [] = [[]]"
| "split_at sep (c # cs) =
     (if c = sep then [] # split_at sep cs
      else case split_at sep cs of p # ps \<Rightarrow> (c # p) # ps | [] \<Rightarrow> [[c]])"

fun join_with :: "char \<Rightarrow> string list \<Rightarrow> string" where
  "join_with sep [] = []"
| "join_with sep [p] = p"
| "join_with sep (p # q # ps) = p @ sep # join_with sep (q # ps)"

lemma split_at_not_Nil [simp]: "split_at sep s \<noteq> []"
  by (induction s) (auto split: list.splits)

lemma split_at_no_sep: "p \<in> set (split_at sep s) \<Longrightarrow> sep \<notin> set p"
  by (induction s arbitrary: p) (auto split: if_splits list.splits)

lemma split_at_prefix: "sep \<notin> set p \<Longrightarrow> split_at sep (p @ sep # s) = p # split_at sep s"
  by (induction p) auto

lemma split_at_single: "sep \<notin> set p \<Longrightarrow> split_at sep p = [p]"
  by (induction p) auto

lemma split_join: "ps \<noteq> [] \<Longrightarrow> \<forall>p \<in> set ps. sep \<notin> set p \<Longrightarrow> split_at sep (join_with sep ps) = ps"
  by (induction sep ps rule: join_with.induct) (auto simp: split_at_prefix split_at_single)

lemma join_split [simp]: "join_with sep (split_at sep s) = s"
proof (induction s)
  case (Cons c s)
  then show ?case by (cases "split_at sep s"; cases "tl (split_at sep s)") auto
qed simp

lemma join_length:
  "length (join_with sep ps) = sum_list (map length ps) + (length ps - 1)"
  by (induction sep ps rule: join_with.induct) auto

lemma join_inj:
  assumes "join_with sep ps = join_with sep qs" "ps \<noteq> []" "qs \<noteq> []"
    and "\<forall>p \<in> set ps. sep \<notin> set p" "\<forall>p \<in> set qs. sep \<notin> set p"
  shows "ps = qs"
  using assms split_join by metis

end
