(* ===== verification/PM_Protocol.thy ===== *)
theory PM_Protocol
  imports PM_Hash PM_Text "HOL-Library.List_Lexorder" "HOL-Library.Char_ord" "HOL-Library.Multiset"
begin

text \<open>
  components/pm_protocol/pm_protocol.c: canonical requests, directional keys, request signing,
  response verification and the replay cache. SHA-256 is the parameter \<open>psa\<close> of PM_Hash, the
  base64 codec of mbedTLS the parameters \<open>b64enc\<close> and \<open>b64dec\<close>, \<open>None\<close> for a non-zero return.
  Out parameters are given back only with \<open>ESP_OK\<close>, as the right side of a sum.
\<close>

subsection \<open>Constants and data\<close>

definition PM_PROTOCOL_ID :: string where "PM_PROTOCOL_ID = ''pm-protocol/1.0.0''"
definition PM_HMAC_SCHEME :: string where "PM_HMAC_SCHEME = ''PM-HMAC-SHA256-V1''"
definition PM_CANONICAL_MAX :: nat where "PM_CANONICAL_MAX = 1024"
definition PM_CANONICAL_QUERY_MAX :: nat where "PM_CANONICAL_QUERY_MAX = 384"
definition PM_NONCE_CACHE_SIZE :: nat where "PM_NONCE_CACHE_SIZE = 32"
definition PM_RESPONSE_NONCE_MAX :: nat where "PM_RESPONSE_NONCE_MAX = 128"
definition PM_SIGNATURE_BASE64_SIZE :: nat where "PM_SIGNATURE_BASE64_SIZE = 44"

record pm_auth_headers =
  protocol :: string
  hdr_device_id :: string
  timestamp :: string
  nonce :: string
  content_sha256 :: string
  signature :: string

record pm_nonce_cache =
  nc_values :: "u8 list list"
  nc_count :: nat
  nc_next :: nat

abbreviation newline :: char where "newline \<equiv> CHR 0x0A"
abbreviation ampersand :: char where "ampersand \<equiv> CHR 0x26"

subsection \<open>Canonical query and request\<close>

fun valid_encoded_component :: "string \<Rightarrow> bool" where
  "valid_encoded_component [] = True"
| "valid_encoded_component (c # cs) =
     (if c = CHR ''%'' \<and> \<not> (2 \<le> length cs \<and> is_xdigit (cs ! 0) \<and> is_xdigit (cs ! 1)) then False
      else if (of_char c :: nat) \<le> 0x20 \<or> of_char c = (0x7F :: nat) \<or> c = CHR ''#'' \<or> c = CHR ''+'' then False
      else valid_encoded_component cs)"

text \<open>The loop that capitalises the two characters after each per cent sign.\<close>

fun uppercase_escapes :: "string \<Rightarrow> string" where
  "uppercase_escapes (c # a # b # cs) =
     (if c = CHR ''%'' then c # to_upper a # to_upper b # uppercase_escapes cs
      else c # uppercase_escapes (a # b # cs))"
| "uppercase_escapes cs = cs"

text \<open>
  \<open>query\<close> is \<open>None\<close> for NULL. \<open>strcmp\<close> is the lexicographic order of unsigned characters, the order
  of \<open>string\<close> here; \<open>qsort\<close> under it has one result, since equal strings are identical.
\<close>

definition pm_canonical_query :: "string option \<Rightarrow> nat \<Rightarrow> esp_err + string" where
  "pm_canonical_query query output_size =
     (if output_size = 0 then Inl ESP_ERR_INVALID_ARG
      else case query of
        None \<Rightarrow> Inr []
      | Some q0 \<Rightarrow>
        let q = cstr q0 in
        if q = [] then Inr []
        else if length q \<ge> PM_CANONICAL_QUERY_MAX \<or> length q + 1 > output_size then Inl ESP_ERR_INVALID_SIZE
        else let parts = split_at ampersand q in
          if length parts > 32 then Inl ESP_ERR_INVALID_SIZE
          else if list_ex (\<lambda>p. p = [] \<or> \<not> valid_encoded_component p) parts then Inl ESP_ERR_INVALID_ARG
          else let joined = join_with ampersand (sort (map uppercase_escapes parts)) in
            if length joined + 1 > output_size then Inl ESP_ERR_INVALID_SIZE else Inr joined)"

definition pm_build_canonical ::
    "string \<Rightarrow> string \<Rightarrow> string option \<Rightarrow> string \<Rightarrow> string \<Rightarrow> string \<Rightarrow> nat \<Rightarrow> esp_err + string" where
  "pm_build_canonical meth path query ts non sha output_size =
     (if cstr path = [] \<or> hd (cstr path) \<noteq> CHR ''/'' then Inl ESP_ERR_INVALID_ARG
      else if cstr meth = [] \<or> length (cstr meth) \<ge> 16 then Inl ESP_ERR_INVALID_SIZE
      else case pm_canonical_query query PM_CANONICAL_QUERY_MAX of
        Inl e \<Rightarrow> Inl e
      | Inr cq \<Rightarrow>
        let target = cstr path @ (if cq = [] then [] else ''?'') @ cq in
        if length target \<ge> 512 then Inl ESP_ERR_INVALID_SIZE
        else let canonical = join_with newline
               [PM_HMAC_SCHEME, map to_upper (cstr meth), target, cstr ts, cstr non, cstr sha] in
          if length canonical < output_size then Inr canonical else Inl ESP_ERR_INVALID_SIZE)"

subsection \<open>Keys and signatures\<close>

definition outbound_info :: "u8 list" where
  "outbound_info = chars_bytes ''PowerMeter V2'' @ [0] @ chars_bytes ''device-to-server''"

definition inbound_info :: "u8 list" where
  "inbound_info = chars_bytes ''PowerMeter V2'' @ [0] @ chars_bytes ''server-to-device''"

definition pm_hkdf_directional_keys ::
    "psa_hash \<Rightarrow> u8 list \<Rightarrow> string \<Rightarrow> esp_err + (u8 list \<times> u8 list)" where
  "pm_hkdf_directional_keys psa device_secret device_id =
     (if length device_secret < 16 \<or> length (cstr device_id) \<noteq> 36 then Inl ESP_ERR_INVALID_ARG
      else let salt = chars_bytes PM_PROTOCOL_ID @ [0] @ chars_bytes (cstr device_id);
               (e1, prk) = pm_hmac_sha256 psa salt device_secret
        in if e1 \<noteq> ESP_OK then Inl ESP_FAIL
           else let (e2, device_to_server) = pm_hmac_sha256 psa prk (outbound_info @ [1])
             in if e2 \<noteq> ESP_OK then Inl ESP_FAIL
                else let (e3, server_to_device) = pm_hmac_sha256 psa prk (inbound_info @ [1])
                  in if e3 \<noteq> ESP_OK then Inl ESP_FAIL else Inr (device_to_server, server_to_device))"

definition pm_sign_request ::
    "psa_hash \<Rightarrow> (u8 list \<Rightarrow> string option) \<Rightarrow> u8 list \<Rightarrow> string \<Rightarrow> string \<Rightarrow> string \<Rightarrow> string option \<Rightarrow> int \<Rightarrow>
      u8 list \<Rightarrow> u8 list \<Rightarrow> esp_err + pm_auth_headers" where
  "pm_sign_request psa b64enc key device_id meth path query utc_ms nonce_bytes body =
     (let sha = pm_hex_lower (pm_sha256 psa body);
          ts = take 23 (show_int (c_div utc_ms 1000));
          non = pm_hex_lower nonce_bytes
      in case pm_build_canonical meth path query ts non sha PM_CANONICAL_MAX of
           Inl e \<Rightarrow> Inl e
         | Inr canonical \<Rightarrow>
           case pm_hmac_sha256 psa key (chars_bytes canonical) of (e, hmac) \<Rightarrow>
             if e \<noteq> ESP_OK then Inl ESP_FAIL
             else case b64enc hmac of
               None \<Rightarrow> Inl ESP_FAIL
             | Some sig \<Rightarrow>
                 if length sig \<noteq> PM_SIGNATURE_BASE64_SIZE then Inl ESP_FAIL
                 else Inr \<lparr>protocol = PM_PROTOCOL_ID, hdr_device_id = take 36 (cstr device_id), timestamp = ts,
                           nonce = non, content_sha256 = sha, signature = sig\<rparr>)"

subsection \<open>Replay cache\<close>

definition nonce_seen :: "pm_nonce_cache \<Rightarrow> u8 list \<Rightarrow> bool" where
  "nonce_seen cache digest \<longleftrightarrow>
     list_ex (\<lambda>i. pm_constant_time_equal (nc_values cache ! i) digest 32) [0..<nc_count cache]"

definition nonce_record :: "pm_nonce_cache \<Rightarrow> u8 list \<Rightarrow> pm_nonce_cache" where
  "nonce_record cache digest =
     \<lparr>nc_values = (nc_values cache)[nc_next cache := digest],
      nc_count = (if nc_count cache < PM_NONCE_CACHE_SIZE then nc_count cache + 1 else nc_count cache),
      nc_next = (nc_next cache + 1) mod PM_NONCE_CACHE_SIZE\<rparr>"

definition pm_nonce_accept :: "psa_hash \<Rightarrow> pm_nonce_cache \<Rightarrow> u8 list \<Rightarrow> bool \<times> pm_nonce_cache" where
  "pm_nonce_accept psa cache nonce_bytes =
     (let digest = pm_sha256 psa nonce_bytes in
      if nonce_seen cache digest then (False, cache) else (True, nonce_record cache digest))"

definition empty_cache :: pm_nonce_cache where
  "empty_cache = \<lparr>nc_values = replicate 32 (replicate 32 0), nc_count = 0, nc_next = 0\<rparr>"

subsection \<open>Response verification\<close>

definition lowercase_hex_sha256 :: "string \<Rightarrow> bool" where
  "lowercase_hex_sha256 s \<longleftrightarrow> length (cstr s) = 64 \<and> list_all lower_hex (cstr s)"

definition timestamp_fresh :: "string \<Rightarrow> int \<Rightarrow> bool" where
  "timestamp_fresh ts now_utc_ms \<longleftrightarrow>
     (case strtoll (cstr ts) of
        None \<Rightarrow> False
      | Some (t, rest) \<Rightarrow> rest = [] \<and> 0 \<le> t \<and> 0 \<le> now_utc_ms \<and> \<bar>t - c_div now_utc_ms 1000\<bar> \<le> 300)"

definition mac_matches ::
    "psa_hash \<Rightarrow> (string \<Rightarrow> u8 list option) \<Rightarrow> u8 list \<Rightarrow> string \<Rightarrow> string \<Rightarrow> bool" where
  "mac_matches psa b64dec key canonical sig \<longleftrightarrow>
     (case pm_hmac_sha256 psa key (chars_bytes canonical) of (e, expected) \<Rightarrow>
        e = ESP_OK \<and>
        (case b64dec (cstr sig) of
           None \<Rightarrow> False
         | Some presented \<Rightarrow> length presented = 32 \<and> pm_constant_time_equal expected presented 32))"

definition pm_verify_response_digest ::
    "psa_hash \<Rightarrow> (string \<Rightarrow> u8 list option) \<Rightarrow> u8 list \<Rightarrow> string \<Rightarrow> string \<Rightarrow> string option \<Rightarrow> int \<Rightarrow>
      pm_auth_headers \<Rightarrow> string \<Rightarrow> pm_nonce_cache \<Rightarrow> esp_err \<times> pm_nonce_cache" where
  "pm_verify_response_digest psa b64dec key expected_device_id path query now_utc_ms h expected_sha cache =
     (if \<not> lowercase_hex_sha256 expected_sha \<or> cstr (protocol h) \<noteq> PM_PROTOCOL_ID \<or>
         cstr (hdr_device_id h) \<noteq> cstr expected_device_id \<or> \<not> lowercase_hex_sha256 (content_sha256 h)
      then (ESP_ERR_INVALID_ARG, cache)
      else if \<not> timestamp_fresh (timestamp h) now_utc_ms then (ESP_ERR_INVALID_RESPONSE, cache)
      else if length (cstr (nonce h)) < 16 \<or> length (cstr (nonce h)) > PM_RESPONSE_NONCE_MAX \<or>
         length (cstr (signature h)) \<noteq> PM_SIGNATURE_BASE64_SIZE
      then (ESP_ERR_INVALID_RESPONSE, cache)
      else if \<not> pm_constant_time_equal (chars_bytes expected_sha) (chars_bytes (content_sha256 h)) 64
      then (ESP_ERR_INVALID_CRC, cache)
      else case pm_build_canonical ''RESPONSE'' path query (timestamp h) (nonce h) (content_sha256 h) PM_CANONICAL_MAX of
        Inl e \<Rightarrow> (e, cache)
      | Inr canonical \<Rightarrow>
          if \<not> mac_matches psa b64dec key canonical (signature h) then (ESP_ERR_INVALID_MAC, cache)
          else let digest = pm_sha256 psa (chars_bytes (cstr (nonce h))) in
            if nonce_seen cache digest then (ESP_ERR_INVALID_STATE, cache)
            else (ESP_OK, nonce_record cache digest))"

definition pm_verify_response ::
    "psa_hash \<Rightarrow> (string \<Rightarrow> u8 list option) \<Rightarrow> u8 list \<Rightarrow> string \<Rightarrow> string \<Rightarrow> string option \<Rightarrow> int \<Rightarrow>
      pm_auth_headers \<Rightarrow> u8 list \<Rightarrow> pm_nonce_cache \<Rightarrow> esp_err \<times> pm_nonce_cache" where
  "pm_verify_response psa b64dec key expected_device_id path query now_utc_ms h body cache =
     pm_verify_response_digest psa b64dec key expected_device_id path query now_utc_ms h
       (pm_hex_lower (pm_sha256 psa body)) cache"

subsection \<open>Canonical queries\<close>

lemma to_upper_amp: "to_upper c = ampersand \<Longrightarrow> c = ampersand"
proof -
  assume a: "to_upper c = ampersand"
  then have "(of_char (to_upper c) :: nat) = 38" by simp
  then have "\<not> (97 \<le> (of_char c :: nat) \<and> (of_char c :: nat) \<le> 122)"
    unfolding to_upper_code Let_def by (auto split: if_splits)
  with a show ?thesis by (auto simp: to_upper_def split: if_splits)
qed

lemma to_upper_xdigit: "is_xdigit c \<Longrightarrow> is_xdigit (to_upper c)"
  unfolding is_xdigit_def is_digit_def to_upper_code Let_def by (auto split: if_splits)

lemma xdigit_plain:
  "is_xdigit c \<Longrightarrow> c \<noteq> CHR ''%'' \<and> c \<noteq> CHR ''#'' \<and> c \<noteq> CHR ''+'' \<and> \<not> (of_char c :: nat) \<le> 0x20 \<and>
     of_char c \<noteq> (0x7F :: nat)"
  by (auto simp: is_xdigit_def is_digit_def)

lemma length_uppercase [simp]: "length (uppercase_escapes p) = length p"
  by (induction p rule: uppercase_escapes.induct) auto

lemma uppercase_Nil [simp]: "uppercase_escapes p = [] \<longleftrightarrow> p = []"
  by (metis length_0_conv length_uppercase)

lemma uppercase_no_amp: "ampersand \<notin> set p \<Longrightarrow> ampersand \<notin> set (uppercase_escapes p)"
  by (induction p rule: uppercase_escapes.induct) (auto dest: to_upper_amp [OF sym])

lemma uppercase_step:
  "c \<noteq> CHR ''%'' \<Longrightarrow> 2 \<le> length s \<Longrightarrow> uppercase_escapes (c # s) = c # uppercase_escapes s"
  by (cases s; cases "tl s") auto

lemma valid_step:
  "c \<noteq> CHR ''%'' \<Longrightarrow> valid_encoded_component (c # s) =
     (\<not> ((of_char c :: nat) \<le> 0x20 \<or> of_char c = (0x7F :: nat) \<or> c = CHR ''#'' \<or> c = CHR ''+'') \<and>
      valid_encoded_component s)"
  by simp

lemma valid_uppercase: "valid_encoded_component p \<Longrightarrow> valid_encoded_component (uppercase_escapes p)"
proof (induction p rule: uppercase_escapes.induct)
  case (1 c a b cs)
  show ?case
  proof (cases "c = CHR ''%''")
    case True
    with 1 have "is_xdigit a" "is_xdigit b" "valid_encoded_component cs"
      by (auto split: if_splits dest: xdigit_plain)
    with 1(1) True to_upper_xdigit xdigit_plain [OF to_upper_xdigit] show ?thesis by simp
  next
    case False
    have "valid_encoded_component (a # b # cs)" using 1(3) valid_step [OF False] by blast
    then have "valid_encoded_component (uppercase_escapes (a # b # cs))" by (rule 1(2) [OF False])
    with 1(3) valid_step [OF False] False show ?thesis by auto
  qed
qed auto

lemma uppercase_idem: "uppercase_escapes (uppercase_escapes p) = uppercase_escapes p"
proof (induction p rule: uppercase_escapes.induct)
  case (1 c a b cs)
  then show ?case by (cases "c = CHR ''%''") (simp_all add: uppercase_step)
qed auto

lemma canonical_query_Inr:
  "pm_canonical_query (Some q) n = Inr s \<Longrightarrow> cstr q \<noteq> [] \<Longrightarrow>
     s = join_with ampersand (sort (map uppercase_escapes (split_at ampersand (cstr q)))) \<and>
     n \<noteq> 0 \<and> length (cstr q) < PM_CANONICAL_QUERY_MAX \<and> length (cstr q) < n \<and>
     length (split_at ampersand (cstr q)) \<le> 32 \<and>
     (\<forall>p \<in> set (split_at ampersand (cstr q)). p \<noteq> [] \<and> valid_encoded_component p)"
  by (auto simp: pm_canonical_query_def Let_def list_ex_iff split: if_splits)

lemma canonical_queryI:
  assumes "cstr q \<noteq> []" "n \<noteq> 0" "length (cstr q) < PM_CANONICAL_QUERY_MAX" "length (cstr q) < n"
    and "mset (split_at ampersand (cstr q)) = mset ps" "length ps \<le> 32"
    and "\<forall>p \<in> set ps. p \<noteq> [] \<and> valid_encoded_component p"
  shows "pm_canonical_query (Some q) n = Inr (join_with ampersand (sort (map uppercase_escapes ps)))"
proof -
  let ?qs = "split_at ampersand (cstr q)"
  have len: "length ?qs = length ps" and set: "set ?qs = set ps"
    using assms(5) by (metis size_mset, metis set_mset_mset)
  have "mset (map uppercase_escapes ?qs) = mset (map uppercase_escapes ps)"
    using assms(5) by simp
  then have sorted: "sort (map uppercase_escapes ?qs) = sort (map uppercase_escapes ps)"
    by (metis sort_key_id_if_sorted sorted_sort mset_sort properties_for_sort)
  have "length (join_with ampersand (sort (map uppercase_escapes ?qs))) = length (join_with ampersand ?qs)"
  proof -
    have "sum_list (map length (sort (map uppercase_escapes ?qs))) = sum_list (map length ?qs)"
      by (metis (no_types, lifting) length_uppercase map_eq_conv map_map mset_map mset_sort o_apply sum_mset_sum_list)
    then show ?thesis by (simp add: join_length del: join_split)
  qed
  then have "length (join_with ampersand (sort (map uppercase_escapes ?qs))) < n" using assms(4) by simp
  then show ?thesis
    using assms(1-4,6,7) len set
    by (simp add: pm_canonical_query_def Let_def list_ex_iff sorted not_le not_less)
qed

lemma cstr_of_parts: "cstr s = s" if "s = join_with ampersand ps" "\<forall>p \<in> set ps. valid_encoded_component p" for s ps
proof -
  have nul: "valid_encoded_component p \<Longrightarrow> NUL \<notin> set p" for p
    by (induction p rule: valid_encoded_component.induct) (auto split: if_splits)
  have "NUL \<notin> set (join_with ampersand ps)" using that(2) nul
    by (induction ampersand ps rule: join_with.induct) auto
  with that(1) show ?thesis by (simp add: cstr_id)
qed

text \<open>
  The canonical query is a normal form: whatever the order of the parameters and the case of
  the escapes, the same parameters give the same text, and canonicalising the result changes
  nothing. So the signature does not depend on how a client spelled the query.
\<close>

theorem canonical_query_normal_form:
  assumes "pm_canonical_query (Some q) n = Inr s"
  shows "pm_canonical_query (Some s) n = Inr s \<and>
    (\<forall>q'. mset (split_at ampersand (cstr q')) = mset (split_at ampersand (cstr q)) \<longrightarrow>
       pm_canonical_query (Some q') n = Inr s)"
proof (cases "cstr q = []")
  case True
  then have s: "s = []" "n \<noteq> 0" using assms by (auto simp: pm_canonical_query_def split: if_splits)
  have "cstr q' = []" if "mset (split_at ampersand (cstr q')) = mset (split_at ampersand (cstr q))" for q'
  proof -
    from that True have "split_at ampersand (cstr q') = [[]]" by simp
    with join_split [of ampersand "cstr q'"] show ?thesis by simp
  qed
  then show ?thesis using s by (auto simp: pm_canonical_query_def cstr_def)
next
  case False
  let ?ps = "split_at ampersand (cstr q)"
  let ?us = "sort (map uppercase_escapes ?ps)"
  note q = canonical_query_Inr [OF assms False]
  have ne: "?us \<noteq> []" by (metis length_0_conv length_map length_sort split_at_not_Nil)
  have us: "?us \<noteq> []" "\<forall>p \<in> set ?us. ampersand \<notin> set p" "\<forall>p \<in> set ?us. p \<noteq> [] \<and> valid_encoded_component p"
    "length ?us \<le> 32"
    using q ne uppercase_no_amp [OF split_at_no_sep] valid_uppercase by auto
  have cs: "cstr s = s" using q us(3) by (intro cstr_of_parts [of _ ?us]) auto
  have split: "split_at ampersand (cstr s) = ?us" using split_join [OF us(1,2)] q cs by simp
  have up: "map uppercase_escapes ?us = ?us"
  proof (rule map_idI)
    fix p assume "p \<in> set ?us"
    then show "uppercase_escapes p = p" by (auto simp: uppercase_idem)
  qed
  have len: "length s = length (cstr q)"
  proof -
    have "sum_list (map length ?us) = sum_list (map length ?ps)"
      by (metis (no_types, lifting) length_uppercase map_eq_conv map_map mset_map mset_sort o_apply sum_mset_sum_list)
    then have "length (join_with ampersand ?us) = length (join_with ampersand ?ps)"
      by (simp add: join_length del: join_split)
    then show ?thesis using q by simp
  qed
  have "pm_canonical_query (Some s) n = Inr (join_with ampersand (sort (map uppercase_escapes ?us)))"
    using q cs split us len False by (intro canonical_queryI) auto
  then have "pm_canonical_query (Some s) n = Inr s" using q up by (simp add: sort_key_id_if_sorted)
  moreover have "pm_canonical_query (Some q') n = Inr s"
    if m: "mset (split_at ampersand (cstr q')) = mset ?ps" for q'
  proof -
    have "sum_list (map length (split_at ampersand (cstr q'))) = sum_list (map length ?ps)"
      using m by (metis mset_map sum_mset_sum_list)
    moreover have "length (split_at ampersand (cstr q')) = length ?ps" using m by (metis size_mset)
    ultimately have "length (cstr q') = length (cstr q)"
      using join_length [of ampersand "split_at ampersand (cstr q')"] join_length [of ampersand ?ps] by simp
    then show ?thesis
      using q m False canonical_queryI [of q' n ?ps] by fastforce
  qed
  ultimately show ?thesis by blast
qed

theorem canonical_query_normal_form_witness:
  "pm_canonical_query (Some ''b=%c3%a9&a=1'') 384 = Inr ''a=1&b=%C3%A9'' \<and>
   pm_canonical_query (Some ''a=1&b=%C3%A9'') 384 = Inr ''a=1&b=%C3%A9''"
proof -
  have "pm_canonical_query (Some ''b=%c3%a9&a=1'') 384 = Inr ''a=1&b=%C3%A9''" by code_simp
  then show ?thesis using canonical_query_normal_form by blast
qed

subsection \<open>The canonical request\<close>

definition canonical_fields :: "string \<Rightarrow> string \<Rightarrow> string \<Rightarrow> string \<Rightarrow> string \<Rightarrow> string \<Rightarrow> string list" where
  "canonical_fields m p cq ts no sha = [PM_HMAC_SCHEME, map to_upper (cstr m),
     cstr p @ (if cq = [] then [] else ''?'') @ cq, cstr ts, cstr no, cstr sha]"

lemma build_canonical_query_error:
  "pm_canonical_query q PM_CANONICAL_QUERY_MAX = Inl e \<Longrightarrow> pm_build_canonical m p q ts no sha sz \<noteq> Inr c"
  unfolding pm_build_canonical_def by (simp only: sum.case split: if_split) simp

lemma build_canonical_fields:
  assumes "pm_canonical_query q PM_CANONICAL_QUERY_MAX = Inr cq"
  shows "pm_build_canonical m p q ts no sha sz =
    (if cstr p = [] \<or> hd (cstr p) \<noteq> CHR ''/'' then Inl ESP_ERR_INVALID_ARG
     else if cstr m = [] \<or> length (cstr m) \<ge> 16 then Inl ESP_ERR_INVALID_SIZE
     else if length (cstr p @ (if cq = [] then [] else ''?'') @ cq) \<ge> 512 then Inl ESP_ERR_INVALID_SIZE
     else if length (join_with newline (canonical_fields m p cq ts no sha)) < sz
     then Inr (join_with newline (canonical_fields m p cq ts no sha)) else Inl ESP_ERR_INVALID_SIZE)"
  unfolding pm_build_canonical_def assms canonical_fields_def Let_def sum.case ..

lemma nested_Inr:
  "(if a then Inl e1 else if b then Inl e2 else if c then Inl e3 else if d then Inr x else Inl e4) = Inr y \<Longrightarrow>
     y = x \<and> d"
  by (auto split: if_splits)

lemma build_canonical_Inr:
  assumes "pm_build_canonical m p q ts no sha sz = Inr c"
  shows "\<exists>cq. pm_canonical_query q PM_CANONICAL_QUERY_MAX = Inr cq \<and>
       c = join_with newline (canonical_fields m p cq ts no sha)"
proof (cases "pm_canonical_query q PM_CANONICAL_QUERY_MAX")
  case (Inl e)
  with assms build_canonical_query_error show ?thesis by blast
next
  case (Inr cq)
  from assms [unfolded build_canonical_fields [OF Inr]] Inr show ?thesis
    by (blast dest: nested_Inr)
qed

lemma cstr_set: "x \<in> set (cstr s) \<Longrightarrow> x \<in> set s"
  unfolding cstr_def by (rule set_takeWhileD [THEN conjunct1])

lemma to_upper_newline: "to_upper c = newline \<Longrightarrow> c = newline"
proof -
  assume a: "to_upper c = newline"
  then have "(of_char (to_upper c) :: nat) = 10" by simp
  then have "\<not> (97 \<le> (of_char c :: nat) \<and> (of_char c :: nat) \<le> 122)"
    unfolding to_upper_code Let_def by (auto split: if_splits)
  with a show ?thesis by (auto simp: to_upper_def split: if_splits)
qed

lemma canonical_query_no_newline:
  assumes "pm_canonical_query q n = Inr cq"
  shows "newline \<notin> set cq"
proof (cases "q = None \<or> cstr (the q) = []")
  case True
  with assms show ?thesis by (auto simp: pm_canonical_query_def split: if_splits option.splits)
next
  case False
  then obtain q0 where q0: "q = Some q0" "cstr q0 \<noteq> []" by auto
  have nl: "valid_encoded_component p \<Longrightarrow> newline \<notin> set p" for p
    by (induction p rule: valid_encoded_component.induct) (auto split: if_splits)
  have up: "newline \<notin> set p \<Longrightarrow> newline \<notin> set (uppercase_escapes p)" for p
    by (induction p rule: uppercase_escapes.induct) (auto dest: to_upper_newline [OF sym])
  have join: "\<forall>p \<in> set ps. newline \<notin> set p \<Longrightarrow> newline \<notin> set (join_with ampersand ps)" for ps
    by (induction ampersand ps rule: join_with.induct) auto
  show ?thesis
    using canonical_query_Inr [OF assms [unfolded q0(1)] q0(2)] nl up by (auto intro!: join)
qed

lemma canonical_fields_no_newline:
  assumes "\<forall>s \<in> {m, p, ts, no, sha}. newline \<notin> set s" "newline \<notin> set cq"
  shows "\<forall>f \<in> set (canonical_fields m p cq ts no sha). newline \<notin> set f"
  using assms
  by (auto simp: canonical_fields_def PM_HMAC_SCHEME_def dest!: cstr_set to_upper_newline [OF sym])

text \<open>
  The signed text is unambiguous: when two requests or responses have the same canonical text and
  no field contains a line feed, they agree in the (capitalised) method, the target, the timestamp,
  the nonce and the content digest. A signature for one message is no signature for another.
\<close>

theorem canonical_unambiguous:
  assumes "pm_build_canonical m p q ts no sha sz = Inr c" "pm_build_canonical m' p' q' ts' no' sha' sz' = Inr c"
    and "\<forall>s \<in> {m, p, ts, no, sha, m', p', ts', no', sha'}. newline \<notin> set s"
  shows "map to_upper (cstr m) = map to_upper (cstr m') \<and> cstr ts = cstr ts' \<and> cstr no = cstr no' \<and>
    cstr sha = cstr sha' \<and>
    (\<exists>cq cq'. pm_canonical_query q PM_CANONICAL_QUERY_MAX = Inr cq \<and>
       pm_canonical_query q' PM_CANONICAL_QUERY_MAX = Inr cq' \<and>
       cstr p @ (if cq = [] then [] else ''?'') @ cq = cstr p' @ (if cq' = [] then [] else ''?'') @ cq')"
proof -
  obtain cq cq' where cq: "pm_canonical_query q PM_CANONICAL_QUERY_MAX = Inr cq"
      "pm_canonical_query q' PM_CANONICAL_QUERY_MAX = Inr cq'"
    and c: "c = join_with newline (canonical_fields m p cq ts no sha)"
      "c = join_with newline (canonical_fields m' p' cq' ts' no' sha')"
    using build_canonical_Inr [OF assms(1)] build_canonical_Inr [OF assms(2)] by blast
  have "canonical_fields m p cq ts no sha = canonical_fields m' p' cq' ts' no' sha'"
  proof (rule join_inj [of newline])
    show "\<forall>f \<in> set (canonical_fields m p cq ts no sha). newline \<notin> set f"
      using assms(3) canonical_query_no_newline [OF cq(1)] by (intro canonical_fields_no_newline) auto
    show "\<forall>f \<in> set (canonical_fields m' p' cq' ts' no' sha'). newline \<notin> set f"
      using assms(3) canonical_query_no_newline [OF cq(2)] by (intro canonical_fields_no_newline) auto
  qed (use c in \<open>simp_all add: canonical_fields_def\<close>)
  then show ?thesis using cq by (simp add: canonical_fields_def)
qed

theorem canonical_unambiguous_witness:
  "\<exists>c. pm_build_canonical ''get'' ''/v1'' (Some ''b=2&a=1'') ''17'' ''n'' ''d'' 1024 = Inr c \<and>
     pm_build_canonical ''GET'' ''/v1'' (Some ''a=1&b=2'') ''17'' ''n'' ''d'' 1024 = Inr c \<and>
     map to_upper (cstr ''get'') = map to_upper (cstr ''GET'')"
proof -
  let ?c = "join_with newline [''PM-HMAC-SHA256-V1'', ''GET'', ''/v1?a=1&b=2'', ''17'', ''n'', ''d'']"
  have a: "pm_build_canonical ''get'' ''/v1'' (Some ''b=2&a=1'') ''17'' ''n'' ''d'' 1024 = Inr ?c" by code_simp
  have b: "pm_build_canonical ''GET'' ''/v1'' (Some ''a=1&b=2'') ''17'' ''n'' ''d'' 1024 = Inr ?c" by code_simp
  from canonical_unambiguous [OF a b] a b show ?thesis by simp
qed

subsection \<open>Replay protection\<close>

text \<open>What the ring buffer stands for: the digests of the last 32 accepted nonces, oldest first.\<close>

definition nonce_window :: "pm_nonce_cache \<Rightarrow> u8 list list" where
  "nonce_window c = (if nc_count c < 32 then take (nc_count c) (nc_values c)
     else drop (nc_next c) (nc_values c) @ take (nc_next c) (nc_values c))"

definition cache_ok :: "pm_nonce_cache \<Rightarrow> bool" where
  "cache_ok c \<longleftrightarrow> length (nc_values c) = 32 \<and> list_all (\<lambda>v. length v = 32) (nc_values c) \<and>
     nc_count c \<le> 32 \<and> nc_next c < 32 \<and> (nc_count c < 32 \<longrightarrow> nc_next c = nc_count c)"

definition window_push :: "'a list \<Rightarrow> 'a \<Rightarrow> 'a list" where
  "window_push w d = (if length w < 32 then w @ [d] else tl w @ [d])"

lemma cache_ok_empty: "cache_ok empty_cache" "nonce_window empty_cache = []"
  by (simp_all add: cache_ok_def empty_cache_def nonce_window_def list_all_iff)

lemma nonce_seen_window:
  assumes "cache_ok c" "length d = 32"
  shows "nonce_seen c d \<longleftrightarrow> d \<in> set (nonce_window c)"
proof -
  have "nonce_seen c d \<longleftrightarrow> (\<exists>i < nc_count c. nc_values c ! i = d)"
    using assms by (auto simp: nonce_seen_def list_ex_iff pm_constant_time_equal_list cache_ok_def list_all_length)
  also have "\<dots> \<longleftrightarrow> d \<in> set (take (nc_count c) (nc_values c))"
    using assms(1) by (auto simp: in_set_conv_nth cache_ok_def)
  also have "\<dots> \<longleftrightarrow> d \<in> set (nonce_window c)"
  proof (cases "nc_count c < 32")
    case False
    then have "nc_count c = length (nc_values c)" using assms(1) by (simp add: cache_ok_def)
    moreover have "set (drop k xs) \<union> set (take k xs) = set xs" for k and xs :: "u8 list list"
      by (metis append_take_drop_id set_append sup_commute)
    ultimately show ?thesis using False by (simp add: nonce_window_def)
  qed (simp add: nonce_window_def)
  finally show ?thesis .
qed

lemma nonce_record_window:
  assumes "cache_ok c" "length d = 32"
  shows "cache_ok (nonce_record c d) \<and> nonce_window (nonce_record c d) = window_push (nonce_window c) d"
proof -
  let ?vs = "nc_values c"
  have c: "length ?vs = 32" "nc_next c < 32" using assms(1) by (simp_all add: cache_ok_def)
  have put: "take (Suc k) (?vs[k := d]) = take k ?vs @ [d]" "drop (Suc k) (?vs[k := d]) = drop (Suc k) ?vs"
    if "k < 32" for k using that c by (simp_all add: take_Suc_conv_app_nth)
  have all: "list_all (\<lambda>v. length v = 32) (?vs[nc_next c := d])"
    using assms c by (auto simp: cache_ok_def list_all_length nth_list_update)
  show ?thesis
  proof (cases "nc_count c < 32")
    case True
    then have k: "nc_next c = nc_count c" using assms(1) by (simp add: cache_ok_def)
    have "nonce_window (nonce_record c d) = take (Suc (nc_count c)) (?vs[nc_count c := d])"
    proof (cases "nc_count c = 31")
      case True
      with c show ?thesis by (simp add: nonce_window_def nonce_record_def k PM_NONCE_CACHE_SIZE_def)
    next
      case False
      with \<open>nc_count c < 32\<close> show ?thesis
        by (simp add: nonce_window_def nonce_record_def k PM_NONCE_CACHE_SIZE_def)
    qed
    then show ?thesis
      using True all c k put(1) [of "nc_count c"]
      by (auto simp: cache_ok_def nonce_record_def window_push_def nonce_window_def PM_NONCE_CACHE_SIZE_def)
  next
    case False
    then have cnt: "nc_count c = 32" using assms(1) by (simp add: cache_ok_def)
    have w: "nonce_window c = drop (nc_next c) ?vs @ take (nc_next c) ?vs" by (simp add: nonce_window_def cnt)
    have "tl (drop (nc_next c) ?vs) = drop (Suc (nc_next c)) ?vs" "drop (nc_next c) ?vs \<noteq> []"
      using c by (simp_all add: drop_Suc tl_drop)
    then have tl: "tl (nonce_window c) @ [d] = drop (Suc (nc_next c)) ?vs @ take (nc_next c) ?vs @ [d]"
      by (simp add: w)
    have "nonce_window (nonce_record c d) = drop (Suc (nc_next c)) ?vs @ take (nc_next c) ?vs @ [d]"
    proof (cases "nc_next c = 31")
      case True
      then have "?vs[31 := d] = take 31 ?vs @ [d]" using put(1) [of 31] c by simp
      with True cnt c show ?thesis by (simp add: nonce_window_def nonce_record_def PM_NONCE_CACHE_SIZE_def)
    next
      case False
      then show ?thesis using c cnt put [of "nc_next c"]
        by (simp add: nonce_window_def nonce_record_def PM_NONCE_CACHE_SIZE_def mod_less)
    qed
    moreover have "length (nonce_window c) = 32" using c by (simp add: w)
    ultimately show ?thesis
      using tl all c cnt
      by (simp add: cache_ok_def nonce_record_def window_push_def PM_NONCE_CACHE_SIZE_def)
  qed
qed

text \<open>
  The interface of a replay guard: a state that stands for a window of digests, a membership
  test and an insertion that pushes out the oldest digest of a full window.
\<close>

fun guard_run :: "('c \<Rightarrow> 'd \<Rightarrow> bool) \<Rightarrow> ('c \<Rightarrow> 'd \<Rightarrow> 'c) \<Rightarrow> 'c \<Rightarrow> 'd list \<Rightarrow> bool list" where
  "guard_run seen push c [] = []"
| "guard_run seen push c (d # ds) =
     (if seen c d then False # guard_run seen push c ds else True # guard_run seen push (push c d) ds)"

fun window_run :: "'d list \<Rightarrow> 'd list \<Rightarrow> bool list" where
  "window_run w [] = []"
| "window_run w (d # ds) =
     (if d \<in> set w then False # window_run w ds else True # window_run (window_push w d) ds)"

locale replay_guard =
  fixes ok :: "'c \<Rightarrow> bool" and win :: "'c \<Rightarrow> 'd list" and seen :: "'c \<Rightarrow> 'd \<Rightarrow> bool"
    and push :: "'c \<Rightarrow> 'd \<Rightarrow> 'c" and digest :: "'d \<Rightarrow> bool"
  assumes seen_win: "ok c \<Longrightarrow> digest d \<Longrightarrow> seen c d \<longleftrightarrow> d \<in> set (win c)"
    and push_ok: "ok c \<Longrightarrow> digest d \<Longrightarrow> ok (push c d)"
    and push_win: "ok c \<Longrightarrow> digest d \<Longrightarrow> win (push c d) = window_push (win c) d"
    and win_length: "ok c \<Longrightarrow> length (win c) \<le> 32"
begin

lemma run_refines:
  "ok c \<Longrightarrow> \<forall>d \<in> set ds. digest d \<Longrightarrow> guard_run seen push c ds = window_run (win c) ds"
  by (induction ds arbitrary: c) (auto simp: seen_win push_ok push_win)

text \<open>A recorded digest stays in the window for at least 31 more insertions.\<close>

lemma stays:
  assumes "ok c" "digest d" "\<forall>x \<in> set ds. digest x" "length ds < 32"
  shows "seen (foldl push (push c d) ds) d"
proof -
  have inv: "ok c' \<and> (\<exists>pre suf. win c' = pre @ d # suf \<and> length suf \<le> length xs)"
    if "c' = foldl push (push c d) xs" "\<forall>x \<in> set xs. digest x" "length xs < 32" for c' xs
    using that
  proof (induction xs arbitrary: c' rule: rev_induct)
    case Nil
    then show ?case
      using push_ok [OF assms(1,2)] push_win [OF assms(1,2)] by (auto simp: window_push_def)
  next
    case (snoc x xs)
    let ?c = "foldl push (push c d) xs"
    have IH: "ok ?c" "\<exists>pre suf. win ?c = pre @ d # suf \<and> length suf \<le> length xs"
      using snoc.IH [OF refl] snoc.prems by auto
    then obtain pre suf where w: "win ?c = pre @ d # suf" "length suf \<le> length xs" by blast
    have "ok c'" "win c' = window_push (win ?c) x"
      using snoc.prems IH(1) push_ok push_win by auto
    moreover have "length (win ?c) < 32 \<or> pre \<noteq> []"
      using win_length [OF IH(1)] w snoc.prems(3) by (cases pre) auto
    then have "\<exists>pre'. window_push (win ?c) x = pre' @ d # (suf @ [x])"
      by (cases pre) (auto simp: window_push_def w(1))
    ultimately show ?case using w(2) by fastforce
  qed
  from inv [OF refl assms(3,4)] seen_win assms(2) show ?thesis by fastforce
qed

end

lemma nonce_window_length: "cache_ok c \<Longrightarrow> length (nonce_window c) \<le> 32"
  by (auto simp: nonce_window_def cache_ok_def)

interpretation nonces: replay_guard cache_ok nonce_window nonce_seen nonce_record "\<lambda>d. length d = 32"
  by unfold_locales (auto simp: nonce_seen_window nonce_record_window nonce_window_length)

text \<open>The answers of \<open>pm_nonce_accept\<close> to a series of nonces.\<close>

fun accept_all :: "psa_hash \<Rightarrow> pm_nonce_cache \<Rightarrow> u8 list list \<Rightarrow> bool list" where
  "accept_all psa c [] = []"
| "accept_all psa c (x # xs) =
     (case pm_nonce_accept psa c x of (b, c') \<Rightarrow> b # accept_all psa c' xs)"

lemma accept_all_guard: "accept_all psa c xs = guard_run nonce_seen nonce_record c (map (pm_sha256 psa) xs)"
  by (induction xs arbitrary: c) (auto simp: pm_nonce_accept_def Let_def)

text \<open>
  C13. The replay cache is a sliding window: over any series of nonces, starting from an empty
  cache, the ring buffer accepts a nonce exactly when its digest is not among those of the last
  32 accepted nonces.
\<close>

theorem nonce_cache_is_window:
  "accept_all psa empty_cache xs = window_run [] (map (pm_sha256 psa) xs)"
  using nonces.run_refines [OF cache_ok_empty(1), of "map (pm_sha256 psa) xs"]
  by (simp add: accept_all_guard cache_ok_empty(2))

subsection \<open>Verified responses\<close>

lemma canonical_query_error: "pm_canonical_query q n \<noteq> Inl ESP_OK"
  by (auto simp: pm_canonical_query_def Let_def split: option.split)

lemma build_canonical_error: "pm_build_canonical m p q ts no sha sz \<noteq> Inl ESP_OK"
proof (cases "pm_canonical_query q PM_CANONICAL_QUERY_MAX")
  case (Inl e)
  with canonical_query_error [of q] have "e \<noteq> ESP_OK" by auto
  then show ?thesis unfolding pm_build_canonical_def Inl sum.case by (simp split: if_split)
next
  case (Inr cq)
  show ?thesis unfolding build_canonical_fields [OF Inr] by (simp split: if_split)
qed

lemma verify_ok_cases:
  assumes "pm_verify_response_digest psa b64dec key dev path query now h sha cache = (ESP_OK, cache')"
  obtains canonical where
    "lowercase_hex_sha256 sha" "cstr (protocol h) = PM_PROTOCOL_ID" "cstr (hdr_device_id h) = cstr dev"
    "lowercase_hex_sha256 (content_sha256 h)" "timestamp_fresh (timestamp h) now"
    "pm_constant_time_equal (chars_bytes sha) (chars_bytes (content_sha256 h)) 64"
    "pm_build_canonical ''RESPONSE'' path query (timestamp h) (nonce h) (content_sha256 h) PM_CANONICAL_MAX = Inr canonical"
    "mac_matches psa b64dec key canonical (signature h)"
    "\<not> nonce_seen cache (pm_sha256 psa (chars_bytes (cstr (nonce h))))"
    "cache' = nonce_record cache (pm_sha256 psa (chars_bytes (cstr (nonce h))))"
  using assms build_canonical_error [of "''RESPONSE''" path query "timestamp h" "nonce h" "content_sha256 h" PM_CANONICAL_MAX]
  unfolding pm_verify_response_digest_def Let_def
  by (auto split: if_splits sum.splits)

lemma verify_error_keeps_cache:
  "pm_verify_response_digest psa b64dec key dev path query now h sha cache = (e, cache') \<Longrightarrow> e \<noteq> ESP_OK \<Longrightarrow>
     cache' = cache"
  unfolding pm_verify_response_digest_def Let_def by (auto split: if_splits sum.splits)

lemma of_char_u8_inj: "(of_char a :: u8) = of_char b \<longleftrightarrow> a = b"
proof
  assume "(of_char a :: u8) = of_char b"
  then have "unat (of_nat (of_char a) :: u8) = unat (of_nat (of_char b) :: u8)" by (metis of_nat_of_char)
  then have "(of_char a :: nat) mod 256 = of_char b mod 256" by (simp add: unat_of_nat)
  then show "a = b" by simp
qed simp

lemma chars_bytes_inj: "chars_bytes xs = chars_bytes ys \<longleftrightarrow> xs = ys"
  unfolding chars_bytes_def by (rule inj_map_eq_map) (simp add: inj_def of_char_u8_inj)

lemma hex_lower_text: "list_all lower_hex (pm_hex_lower d)" "NUL \<notin> set (pm_hex_lower d)"
proof -
  have sixteen: "k < 16 \<Longrightarrow> k = 0 \<or> k = 1 \<or> k = 2 \<or> k = 3 \<or> k = 4 \<or> k = 5 \<or> k = 6 \<or> k = 7 \<or> k = 8 \<or> k = 9 \<or>
      k = 10 \<or> k = 11 \<or> k = 12 \<or> k = 13 \<or> k = 14 \<or> k = 15" for k :: nat
    by presburger
  have digit: "lower_hex (hex_digit x)" if "unat x < 16" for x
    using sixteen [OF that] by (auto simp: hex_digit_def lower_hex_def is_digit_def)
  show all: "list_all lower_hex (pm_hex_lower d)"
    using digit [OF hex_digit_less(1)] digit [OF hex_digit_less(2)]
    by (induction d) (auto simp: pm_hex_lower_def)
  then show "NUL \<notin> set (pm_hex_lower d)"
    by (auto simp: list_all_iff lower_hex_def is_digit_def)
qed

lemma cstr_hex_lower [simp]: "cstr (pm_hex_lower d) = pm_hex_lower d"
  by (rule cstr_id) (rule hex_lower_text)

lemma build_canonical_cstr: "pm_build_canonical m p q ts no (cstr sha) sz = pm_build_canonical m p q ts no sha sz"
  unfolding pm_build_canonical_def cstr_idem ..

text \<open>Equality of the first 64 characters of two digest texts is equality of the texts.\<close>

lemma digest_text_equal:
  assumes "lowercase_hex_sha256 x" "lowercase_hex_sha256 y"
  shows "pm_constant_time_equal (chars_bytes x) (chars_bytes y) 64 \<longleftrightarrow> cstr x = cstr y"
proof -
  have prefix: "cstr z = take 64 z \<and> 64 \<le> length z" if "lowercase_hex_sha256 z" for z
  proof -
    have l: "length (cstr z) = 64" using that by (simp add: lowercase_hex_sha256_def)
    then show ?thesis
      unfolding cstr_def by (metis length_takeWhile_le takeWhile_eq_take)
  qed
  have "pm_constant_time_equal (chars_bytes x) (chars_bytes y) 64 \<longleftrightarrow> (\<forall>i < 64. x ! i = y ! i)"
    using prefix [OF assms(1)] prefix [OF assms(2)]
    by (auto simp: pm_constant_time_equal_iff chars_bytes_def of_char_u8_inj)
  also have "\<dots> \<longleftrightarrow> take 64 x = take 64 y"
    using prefix [OF assms(1)] prefix [OF assms(2)] by (auto simp: list_eq_iff_nth_eq)
  finally show ?thesis using prefix [OF assms(1)] prefix [OF assms(2)] by simp
qed

lemma lowercase_hex_lower: "length d = 32 \<Longrightarrow> lowercase_hex_sha256 (pm_hex_lower d)"
  by (simp add: lowercase_hex_sha256_def hex_lower_text(1))

lemma mac_matches_iff:
  "mac_matches psa b64dec key canonical sig \<longleftrightarrow>
     (\<exists>mac. pm_hmac_sha256 psa key (chars_bytes canonical) = (ESP_OK, mac) \<and> b64dec (cstr sig) = Some mac)"
proof -
  have len: "pm_hmac_sha256 psa key x = (ESP_OK, mac) \<Longrightarrow> length mac = 32" for x mac
    by (auto simp: pm_hmac_sha256_def Let_def PM_SHA256_SIZE_def split: option.splits if_splits)
  show ?thesis
    using len [of "chars_bytes canonical"]
    by (auto simp: mac_matches_def pm_constant_time_equal_list split: option.splits)
qed

text \<open>
  C4. An accepted response is authentic, current and new. \<open>pm_verify_response\<close> returns \<open>ESP_OK\<close> only for
  a response to this device whose timestamp is within 300 seconds of the device's time, whose
  digest header is the digest of the body, and whose signature decodes to the HMAC under the
  server key of the canonical text of exactly this path, query, timestamp, nonce and digest,
  and whose nonce is not among the last 32 accepted ones; the nonce is then recorded.
\<close>

theorem verified_response_authentic:
  assumes "cache_ok cache"
    and "pm_verify_response psa b64dec key dev path query now h body cache = (ESP_OK, cache')"
  shows "cstr (hdr_device_id h) = cstr dev \<and> timestamp_fresh (timestamp h) now \<and>
    cstr (content_sha256 h) = pm_hex_lower (pm_sha256 psa body) \<and>
    (\<exists>canonical mac. pm_build_canonical ''RESPONSE'' path query (timestamp h) (nonce h)
         (pm_hex_lower (pm_sha256 psa body)) PM_CANONICAL_MAX = Inr canonical \<and>
       pm_hmac_sha256 psa key (chars_bytes canonical) = (ESP_OK, mac) \<and> b64dec (cstr (signature h)) = Some mac) \<and>
    (let d = pm_sha256 psa (chars_bytes (cstr (nonce h))) in d \<notin> set (nonce_window cache) \<and>
       cache_ok cache' \<and> nonce_window cache' = window_push (nonce_window cache) d)"
proof -
  let ?d = "pm_sha256 psa (chars_bytes (cstr (nonce h)))"
  obtain canonical where c:
    "cstr (hdr_device_id h) = cstr dev" "lowercase_hex_sha256 (content_sha256 h)" "timestamp_fresh (timestamp h) now"
    "pm_constant_time_equal (chars_bytes (pm_hex_lower (pm_sha256 psa body))) (chars_bytes (content_sha256 h)) 64"
    "pm_build_canonical ''RESPONSE'' path query (timestamp h) (nonce h) (content_sha256 h) PM_CANONICAL_MAX = Inr canonical"
    "mac_matches psa b64dec key canonical (signature h)" "\<not> nonce_seen cache ?d" "cache' = nonce_record cache ?d"
    using assms(2) unfolding pm_verify_response_def by (rule verify_ok_cases) blast
  have sha: "cstr (content_sha256 h) = pm_hex_lower (pm_sha256 psa body)"
    using digest_text_equal [OF lowercase_hex_lower c(2), of "pm_sha256 psa body"] c(4) by simp
  then have "pm_build_canonical ''RESPONSE'' path query (timestamp h) (nonce h)
      (pm_hex_lower (pm_sha256 psa body)) PM_CANONICAL_MAX = Inr canonical"
    using c(5) build_canonical_cstr by metis
  moreover have "?d \<notin> set (nonce_window cache)" "cache_ok cache'"
    "nonce_window cache' = window_push (nonce_window cache) ?d"
    using c(7,8) nonce_seen_window [OF assms(1)] nonce_record_window [OF assms(1)] by simp_all
  ultimately show ?thesis
    using c(1,3,6) sha by (auto simp: mac_matches_iff Let_def)
qed

text \<open>
  C6. A response is accepted once: after \<open>pm_verify_response\<close> accepted it, presenting it again fails and
  leaves the cache alone, now and after up to 31 more accepted responses, whatever the time.
\<close>

theorem response_replay_refused:
  assumes "cache_ok cache" and "length later < 32" and "\<forall>d \<in> set later. length d = 32"
    and "pm_verify_response psa b64dec key dev path query now h body cache = (ESP_OK, cache')"
    and "pm_verify_response psa b64dec key dev path query now' h body (foldl nonce_record cache' later) = (e, cache'')"
  shows "e \<noteq> ESP_OK \<and> cache'' = foldl nonce_record cache' later"
proof -
  let ?d = "pm_sha256 psa (chars_bytes (cstr (nonce h)))"
  have c': "cache' = nonce_record cache ?d"
    using assms(4) unfolding pm_verify_response_def by (rule verify_ok_cases)
  have "nonce_seen (foldl nonce_record cache' later) ?d"
    unfolding c' using assms(1-3) by (intro nonces.stays) simp_all
  then have "e \<noteq> ESP_OK"
    using assms(5) unfolding pm_verify_response_def by (metis verify_ok_cases)
  with assms(5) verify_error_keeps_cache show ?thesis
    unfolding pm_verify_response_def by blast
qed

subsection \<open>Signing and verifying agree\<close>

text \<open>The documented law of the base64 codec: decoding inverts encoding, and the text has no NUL.\<close>

definition b64_ok :: "(u8 list \<Rightarrow> string option) \<Rightarrow> (string \<Rightarrow> u8 list option) \<Rightarrow> bool" where
  "b64_ok b64enc b64dec \<longleftrightarrow> (\<forall>d s. b64enc d = Some s \<longrightarrow> NUL \<notin> set s \<and> b64dec s = Some d)"

lemma length_dec: "n < 10 ^ k \<Longrightarrow> 0 < k \<Longrightarrow> length (dec n) \<le> k"
proof (induction k arbitrary: n)
  case (Suc k)
  show ?case
  proof (cases "n < 10")
    case True
    then show ?thesis by (simp add: dec.simps)
  next
    case False
    then have "0 < k" using Suc.prems(1) by (cases k) auto
    moreover have "n div 10 < 10 ^ k" using Suc.prems(1) by (simp add: less_mult_imp_div_less mult.commute)
    ultimately have "length (dec (n div 10)) \<le> k" using Suc.IH by blast
    with False show ?thesis by (simp add: dec.simps [of n])
  qed
qed simp

lemma dec_no_NUL: "NUL \<notin> set (dec n)"
  using digits_value_dec [of n] by (auto simp: canonical_digits_def list_all_iff is_digit_def)

lemma timestamp_text:
  assumes "0 \<le> utc" "utc \<le> INT64_MAX"
  defines "ts \<equiv> take 23 (show_int (c_div utc 1000))"
  shows "cstr ts = ts" "strtoll ts = Some (c_div utc 1000, [])" "0 \<le> c_div utc 1000"
proof -
  have q: "0 \<le> c_div utc 1000" "c_div utc 1000 \<le> utc"
    using assms(1) by (simp_all add: c_div_nonneg)
  then have n: "nat (c_div utc 1000) < 10 ^ 19" "int (nat (c_div utc 1000)) = c_div utc 1000"
    using assms(2) by (auto simp: INT64_MAX_def)
  have ts: "ts = dec (nat (c_div utc 1000))"
    using q(1) length_dec [OF n(1)] by (simp add: ts_def show_int_def)
  show "cstr ts = ts" unfolding ts by (rule cstr_id) (rule dec_no_NUL)
  show "strtoll ts = Some (c_div utc 1000, [])"
    unfolding ts using strtoll_dec [of "nat (c_div utc 1000)"] n(2) q assms(2) by simp
  show "0 \<le> c_div utc 1000" by (rule q)
qed

lemma sign_request_Inr:
  assumes "pm_sign_request psa b64enc key dev meth path query utc nb body = Inr h"
  defines "ts \<equiv> take 23 (show_int (c_div utc 1000))"
  obtains canonical mac sig where
    "pm_build_canonical meth path query ts (pm_hex_lower nb) (pm_hex_lower (pm_sha256 psa body)) PM_CANONICAL_MAX = Inr canonical"
    "pm_hmac_sha256 psa key (chars_bytes canonical) = (ESP_OK, mac)" "b64enc mac = Some sig" "length sig = 44"
    "h = \<lparr>protocol = PM_PROTOCOL_ID, hdr_device_id = take 36 (cstr dev), timestamp = ts,
           nonce = pm_hex_lower nb, content_sha256 = pm_hex_lower (pm_sha256 psa body), signature = sig\<rparr>"
  using assms unfolding pm_sign_request_def Let_def
  by (auto simp: PM_SIGNATURE_BASE64_SIZE_def split: sum.splits prod.splits if_splits option.splits)

lemma signed_response_ok:
  assumes "b64_ok b64enc b64dec" and "cache_ok cache"
    and "pm_sign_request psa b64enc key dev ''RESPONSE'' path query utc nb body = Inr h"
    and "0 \<le> utc" "utc \<le> INT64_MAX" "0 \<le> now" "\<bar>c_div utc 1000 - c_div now 1000\<bar> \<le> 300"
    and "8 \<le> length nb" "length nb \<le> 64" "length (cstr dev) \<le> 36"
    and "pm_sha256 psa (chars_bytes (pm_hex_lower nb)) \<notin> set (nonce_window cache)"
  shows "fst (pm_verify_response psa b64dec key dev path query now h body cache) = ESP_OK"
proof -
  let ?ts = "take 23 (show_int (c_div utc 1000))"
  let ?sha = "pm_hex_lower (pm_sha256 psa body)"
  obtain canonical mac sig where s:
    "pm_build_canonical ''RESPONSE'' path query ?ts (pm_hex_lower nb) ?sha PM_CANONICAL_MAX = Inr canonical"
    "pm_hmac_sha256 psa key (chars_bytes canonical) = (ESP_OK, mac)" "b64enc mac = Some sig" "length sig = 44"
    "h = \<lparr>protocol = PM_PROTOCOL_ID, hdr_device_id = take 36 (cstr dev), timestamp = ?ts,
           nonce = pm_hex_lower nb, content_sha256 = ?sha, signature = sig\<rparr>"
    using assms(3) by (rule sign_request_Inr)
  have sig: "cstr sig = sig" "b64dec sig = Some mac"
    using assms(1) s(3) by (auto simp: b64_ok_def intro: cstr_id)
  have fresh: "timestamp_fresh ?ts now"
    using timestamp_text [OF assms(4,5)] assms(6,7) by (simp add: timestamp_fresh_def)
  have mac: "mac_matches psa b64dec key canonical sig"
    using s(2) sig by (simp add: mac_matches_iff)
  have seen: "\<not> nonce_seen cache (pm_sha256 psa (chars_bytes (pm_hex_lower nb)))"
    using nonce_seen_window [OF assms(2)] assms(11) by simp
  have sha: "lowercase_hex_sha256 ?sha" by (simp add: lowercase_hex_lower)
  have ids: "cstr PM_PROTOCOL_ID = PM_PROTOCOL_ID" by (simp add: PM_PROTOCOL_ID_def cstr_def)
  show ?thesis
    using assms(8-10) s(1,4) sig(1) fresh mac seen sha ids digest_text_equal [OF sha sha]
    by (simp add: pm_verify_response_def pm_verify_response_digest_def s(5) PM_RESPONSE_NONCE_MAX_def
        PM_SIGNATURE_BASE64_SIZE_def Let_def)
qed

text \<open>
  What is signed is accepted: a response signed by the rules of \<open>pm_sign_request\<close> with the key the
  device holds, for the same path and query, within 300 seconds of the device's time and with a
  nonce that was not used lately, passes \<open>pm_verify_response\<close>.
\<close>

theorem signed_response_accepted:
  assumes "b64_ok b64enc b64dec" and "cache_ok cache"
    and "pm_sign_request psa b64enc key dev ''RESPONSE'' path query utc nb body = Inr h"
    and "0 \<le> utc" "utc \<le> INT64_MAX" "0 \<le> now" "\<bar>c_div utc 1000 - c_div now 1000\<bar> \<le> 300"
    and "8 \<le> length nb" "length nb \<le> 64" "length (cstr dev) \<le> 36"
    and "pm_sha256 psa (chars_bytes (pm_hex_lower nb)) \<notin> set (nonce_window cache)"
  shows "fst (pm_verify_response psa b64dec key dev path query now h body cache) = ESP_OK"
  using assms by (rule signed_response_ok)

text \<open>A concrete exchange, with a constant hash and a codec for the one digest it produces.\<close>

definition demo_psa :: psa_hash where "demo_psa = (\<lambda>_. Some (replicate 32 7))"
definition demo_enc :: "u8 list \<Rightarrow> string option" where
  "demo_enc d = (if d = replicate 32 7 then Some (replicate 44 CHR ''A'') else None)"
definition demo_dec :: "string \<Rightarrow> u8 list option" where
  "demo_dec s = (if s = replicate 44 CHR ''A'' then Some (replicate 32 7) else None)"

lemma demo_b64: "b64_ok demo_enc demo_dec"
  by (simp add: b64_ok_def demo_enc_def demo_dec_def)

lemma demo_sign:
  "\<exists>h. pm_sign_request demo_psa demo_enc (replicate 32 0) ''d'' ''RESPONSE'' ''/v1'' None 1800000000000
     (replicate 16 0) [] = Inr h"
proof -
  have q: "pm_canonical_query None PM_CANONICAL_QUERY_MAX = Inr []"
    by (simp add: pm_canonical_query_def PM_CANONICAL_QUERY_MAX_def)
  have len: "length (cstr (take 23 (show_int (c_div 1800000000000 1000)))) \<le> 23"
    by (metis cstr_def length_take length_takeWhile_le min.bounded_iff min.cobounded2 order_trans)
  have "cstr ''/v1'' = ''/v1''" "cstr ''RESPONSE'' = ''RESPONSE''" by (simp_all add: cstr_def)
  then have "\<exists>c. pm_build_canonical ''RESPONSE'' ''/v1'' None (take 23 (show_int (c_div 1800000000000 1000)))
      (pm_hex_lower (replicate 16 0)) (pm_hex_lower (pm_sha256 demo_psa [])) PM_CANONICAL_MAX = Inr c"
    unfolding build_canonical_fields [OF q]
    using len by (simp add: canonical_fields_def PM_HMAC_SCHEME_def PM_CANONICAL_MAX_def)
  then show ?thesis
    by (auto simp: pm_sign_request_def Let_def pm_hmac_sha256_def demo_psa_def demo_enc_def
        PM_SHA256_SIZE_def PM_SIGNATURE_BASE64_SIZE_def)
qed

theorem signed_response_accepted_witness:
  "\<exists>h. pm_sign_request demo_psa demo_enc (replicate 32 0) ''d'' ''RESPONSE'' ''/v1'' None 1800000000000
     (replicate 16 0) [] = Inr h \<and>
   fst (pm_verify_response demo_psa demo_dec (replicate 32 0) ''d'' ''/v1'' None 1800000120000 h [] empty_cache) = ESP_OK"
proof -
  obtain h where h: "pm_sign_request demo_psa demo_enc (replicate 32 0) ''d'' ''RESPONSE'' ''/v1'' None 1800000000000
     (replicate 16 0) [] = Inr h" using demo_sign by blast
  have "length (cstr ''d'') \<le> 36" by (simp add: cstr_def)
  from signed_response_accepted [OF demo_b64 cache_ok_empty(1) h _ _ _ _ _ _ this, of 1800000120000] h show ?thesis
    by (auto simp: INT64_MAX_def c_div_def cache_ok_empty(2))
qed

lemma demo_accepted:
  "\<exists>h cache'. pm_verify_response demo_psa demo_dec (replicate 32 0) ''d'' ''/v1'' None 1800000120000 h []
     empty_cache = (ESP_OK, cache')"
proof -
  obtain h where h: "pm_sign_request demo_psa demo_enc (replicate 32 0) ''d'' ''RESPONSE'' ''/v1'' None 1800000000000
     (replicate 16 0) [] = Inr h" using demo_sign by blast
  have "length (cstr ''d'') \<le> 36" by (simp add: cstr_def)
  from signed_response_ok [OF demo_b64 cache_ok_empty(1) h _ _ _ _ _ _ this, of 1800000120000]
  have "fst (pm_verify_response demo_psa demo_dec (replicate 32 0) ''d'' ''/v1'' None 1800000120000 h [] empty_cache) = ESP_OK"
    by (auto simp: INT64_MAX_def c_div_def cache_ok_empty(2))
  then show ?thesis by (metis prod.collapse)
qed

theorem verified_response_authentic_witness:
  "\<exists>h cache'. pm_verify_response demo_psa demo_dec (replicate 32 0) ''d'' ''/v1'' None 1800000120000 h []
     empty_cache = (ESP_OK, cache') \<and> cstr (hdr_device_id h) = cstr ''d'' \<and> length (nonce_window cache') = 1"
proof -
  obtain h cache' where a: "pm_verify_response demo_psa demo_dec (replicate 32 0) ''d'' ''/v1'' None 1800000120000 h []
     empty_cache = (ESP_OK, cache')" using demo_accepted by blast
  from verified_response_authentic [OF cache_ok_empty(1) a] a show ?thesis
    by (intro exI [of _ h] exI [of _ cache']) (simp add: Let_def cache_ok_empty(2) window_push_def)
qed

theorem response_replay_refused_witness:
  "\<exists>h cache' e. pm_verify_response demo_psa demo_dec (replicate 32 0) ''d'' ''/v1'' None 1800000120000 h []
     empty_cache = (ESP_OK, cache') \<and> e \<noteq> ESP_OK \<and>
   pm_verify_response demo_psa demo_dec (replicate 32 0) ''d'' ''/v1'' None 1800000130000 h []
     (foldl nonce_record cache' [replicate 32 1]) = (e, foldl nonce_record cache' [replicate 32 1])"
proof -
  obtain h cache' where a: "pm_verify_response demo_psa demo_dec (replicate 32 0) ''d'' ''/v1'' None 1800000120000 h []
     empty_cache = (ESP_OK, cache')" using demo_accepted by blast
  obtain e c2 where b: "pm_verify_response demo_psa demo_dec (replicate 32 0) ''d'' ''/v1'' None 1800000130000 h []
     (foldl nonce_record cache' [replicate 32 1]) = (e, c2)" by fastforce
  from response_replay_refused [OF cache_ok_empty(1) _ _ a b] a b show ?thesis by auto
qed

end
