(* ===== verification/PM_Ota_Version.thy ===== *)
theory PM_Ota_Version
  imports PM_Text "HOL-Library.Product_Lexorder"
begin

text \<open>
  components/pm_ota/pm_ota_version.c: the strict version grammar and the upgrade rule. The
  reference is the printer \<open>show_version\<close>: a text parses exactly when it is the printed form of a
  version, so every version has one spelling; \<open>version_key\<close> is the precedence as a
  lexicographic key.
\<close>

subsection \<open>The code\<close>

record pm_ota_version =
  major :: u32
  minor :: u32
  patch :: u32
  release_candidate :: u32
  is_release_candidate :: bool

text \<open>The loop of \<open>parse_number\<close>; the NUL that ends a C string is the end of the list.\<close>

fun parse_digits :: "u32 \<Rightarrow> string \<Rightarrow> (u32 \<times> string) option" where
  "parse_digits parsed [] = Some (parsed, [])"
| "parse_digits parsed (c # cs) =
     (if is_digit c
      then let digit = of_nat (digit_value c) in
        if parsed > (- 1 - digit) div 10 then None else parse_digits (parsed * 10 + digit) cs
      else Some (parsed, c # cs))"

definition parse_number :: "string \<Rightarrow> (u32 \<times> string) option" where
  "parse_number value =
     (case value of
        [] \<Rightarrow> None
      | c # cs \<Rightarrow>
          if \<not> is_digit c then None
          else if c = CHR ''0'' \<and> cs \<noteq> [] \<and> is_digit (hd cs) then None
          else parse_digits 0 value)"

text \<open>\<open>*cursor++ != '.'\<close>\<close>

definition skip_dot :: "string \<Rightarrow> string option" where
  "skip_dot s = (case s of c # cs \<Rightarrow> if c = CHR ''.'' then Some cs else None | [] \<Rightarrow> None)"

definition parse_version :: "string \<Rightarrow> pm_ota_version option" where
  "parse_version text =
     (case parse_number text of None \<Rightarrow> None | Some (ma, s1) \<Rightarrow>
      case skip_dot s1 of None \<Rightarrow> None | Some s2 \<Rightarrow>
      case parse_number s2 of None \<Rightarrow> None | Some (mi, s3) \<Rightarrow>
      case skip_dot s3 of None \<Rightarrow> None | Some s4 \<Rightarrow>
      case parse_number s4 of None \<Rightarrow> None | Some (pa, s5) \<Rightarrow>
      if s5 = [] then Some \<lparr>major = ma, minor = mi, patch = pa, release_candidate = 0,
                            is_release_candidate = False\<rparr>
      else if take 4 s5 \<noteq> ''-rc.'' then None
      else case parse_number (drop 4 s5) of None \<Rightarrow> None | Some (rc, s6) \<Rightarrow>
        if rc = 0 \<or> s6 \<noteq> [] then None
        else Some \<lparr>major = ma, minor = mi, patch = pa, release_candidate = rc,
                   is_release_candidate = True\<rparr>)"

definition compare_versions :: "pm_ota_version \<Rightarrow> pm_ota_version \<Rightarrow> int" where
  "compare_versions l r =
     (if major l \<noteq> major r then if major l > major r then 1 else - 1
      else if minor l \<noteq> minor r then if minor l > minor r then 1 else - 1
      else if patch l \<noteq> patch r then if patch l > patch r then 1 else - 1
      else if is_release_candidate l \<noteq> is_release_candidate r
      then if is_release_candidate l then - 1 else 1
      else if \<not> is_release_candidate l \<or> release_candidate l = release_candidate r then 0
      else if release_candidate l > release_candidate r then 1 else - 1)"

definition pm_ota_version_require_upgrade :: "string \<Rightarrow> string \<Rightarrow> esp_err" where
  "pm_ota_version_require_upgrade current candidate =
     (case parse_version (cstr current) of None \<Rightarrow> ESP_ERR_INVALID_ARG
      | Some cur \<Rightarrow>
        case parse_version (cstr candidate) of None \<Rightarrow> ESP_ERR_INVALID_ARG
        | Some cand \<Rightarrow> if compare_versions cand cur > 0 then ESP_OK else ESP_ERR_NOT_SUPPORTED)"

subsection \<open>Decimal numbers\<close>

lemma overflow_test:
  fixes w :: u32
  assumes "d < 10"
  shows "w > (- 1 - of_nat d) div 10 \<longleftrightarrow> unat w * 10 + d \<ge> 2 ^ 32"
    and "unat w * 10 + d < 2 ^ 32 \<Longrightarrow> unat (w * 10 + of_nat d) = unat w * 10 + d"
proof -
  have d: "unat (of_nat d :: u32) = d" using assms by (simp add: unat_of_nat)
  have "(of_nat d :: u32) \<le> - 1" by simp
  then have "unat (- 1 - of_nat d :: u32) = 4294967295 - d" by (simp add: unat_sub d)
  then have "unat ((- 1 - of_nat d :: u32) div 10) = (4294967295 - d) div 10" by (simp add: unat_div)
  then have "w > (- 1 - of_nat d) div 10 \<longleftrightarrow> unat w > (4294967295 - d) div 10"
    by (simp add: word_less_nat_alt)
  also have "\<dots> \<longleftrightarrow> unat w * 10 + d \<ge> 2 ^ 32" using assms by auto
  finally show "w > (- 1 - of_nat d) div 10 \<longleftrightarrow> unat w * 10 + d \<ge> 2 ^ 32" .
  show "unat (w * 10 + of_nat d) = unat w * 10 + d" if "unat w * 10 + d < 2 ^ 32"
    using that d by (simp add: unat_word_ariths)
qed

lemma parse_digits_value:
  assumes "list_all is_digit ds" "rest = [] \<or> \<not> is_digit (hd rest)"
  shows "parse_digits w (ds @ rest) =
    (if digits_value (unat w) ds < 2 ^ 32 then Some (of_nat (digits_value (unat w) ds), rest) else None)"
  using assms(1)
proof (induction ds arbitrary: w)
  case Nil
  have "unat w < 2 ^ 32" using unat_u32_less [of w] by simp
  with assms(2) show ?case by (cases rest) (simp_all add: digits_value_def)
next
  case (Cons c ds)
  have c: "is_digit c" "digit_value c < 10" using Cons.prems is_digit_char by simp_all
  let ?v = "unat w * 10 + digit_value c"
  have step: "digits_value (unat w) (c # ds) = digits_value ?v ds" by (simp add: digits_value_def)
  show ?case
  proof (cases "?v < 2 ^ 32")
    case True
    have "parse_digits w ((c # ds) @ rest) = parse_digits (w * 10 + of_nat (digit_value c)) (ds @ rest)"
      using True c overflow_test(1) [OF c(2), of w] by simp
    also have "\<dots> = (if digits_value ?v ds < 2 ^ 32 then Some (of_nat (digits_value ?v ds), rest) else None)"
      using Cons.IH Cons.prems overflow_test(2) [OF c(2) True] by simp
    finally show ?thesis by (simp only: step)
  next
    case False
    then have "\<not> digits_value ?v ds < 2 ^ 32" using digits_value_le [of ?v ds] by linarith
    with False c overflow_test(1) [OF c(2), of w] show ?thesis by (simp add: step)
  qed
qed

text \<open>\<open>parse_number\<close> reads exactly the printed 32-bit numbers.\<close>

lemma parse_number_dec:
  assumes "rest = [] \<or> \<not> is_digit (hd rest)"
  shows "parse_number (dec (unat w) @ rest) = Some (w, rest)"
proof -
  let ?ds = "dec (unat w)"
  have ds: "?ds \<noteq> []" "list_all is_digit ?ds" "hd ?ds = CHR ''0'' \<Longrightarrow> length ?ds = 1" "digits_value 0 ?ds = unat w"
    using digits_value_dec [of "unat w"] by (auto simp: canonical_digits_def)
  obtain c cs where cs: "?ds = c # cs" using ds(1) by (cases ?ds) auto
  have "\<not> (c = CHR ''0'' \<and> cs @ rest \<noteq> [] \<and> is_digit (hd (cs @ rest)))"
    using ds(3) assms by (auto simp: cs hd_append split: if_splits)
  moreover have "is_digit c" using ds(2) by (simp add: cs)
  moreover have "parse_digits 0 (?ds @ rest) = Some (w, rest)"
    using parse_digits_value [OF ds(2) assms, of 0] ds(4) unat_u32_less [of w] by simp
  ultimately show ?thesis by (simp add: parse_number_def cs)
qed

lemma parse_number_Some:
  assumes "parse_number s = Some (w, rest)"
  shows "s = dec (unat w) @ rest \<and> (rest = [] \<or> \<not> is_digit (hd rest))"
proof -
  let ?ds = "takeWhile is_digit s"
  let ?rest = "dropWhile is_digit s"
  have s: "s = ?ds @ ?rest" by simp
  have all: "list_all is_digit ?ds" by (auto simp: list_all_iff dest: set_takeWhileD)
  have r: "?rest = [] \<or> \<not> is_digit (hd ?rest)" using hd_dropWhile by blast
  have "parse_digits 0 s = Some (w, rest)" "canonical_digits ?ds"
    using assms all
    by (auto simp: parse_number_def canonical_digits_def takeWhile_eq_Nil_iff split: list.splits if_splits)
  with parse_digits_value [OF all r, of 0]
  have v: "digits_value 0 ?ds < 2 ^ 32" "w = of_nat (digits_value 0 ?ds)" "rest = ?rest"
    by (auto split: if_splits)
  then have "unat w = digits_value 0 ?ds" by (simp add: unat_of_nat)
  with dec_digits_value [OF \<open>canonical_digits ?ds\<close>] s v(3) r show ?thesis by metis
qed

subsection \<open>Versions\<close>

definition show_version :: "pm_ota_version \<Rightarrow> string" where
  "show_version v = dec (unat (major v)) @ ''.'' @ dec (unat (minor v)) @ ''.'' @ dec (unat (patch v)) @
     (if is_release_candidate v then ''-rc.'' @ dec (unat (release_candidate v)) else [])"

definition version_ok :: "pm_ota_version \<Rightarrow> bool" where
  "version_ok v \<longleftrightarrow> is_release_candidate v = (release_candidate v \<noteq> 0)"

definition version_key :: "pm_ota_version \<Rightarrow> u32 \<times> u32 \<times> u32 \<times> nat \<times> u32" where
  "version_key v = (major v, minor v, patch v,
     if is_release_candidate v then (0, release_candidate v) else (1, 0))"

lemma skip_dot_Some: "skip_dot s = Some t \<longleftrightarrow> s = CHR ''.'' # t"
  by (auto simp: skip_dot_def split: list.splits)

lemma parse_show_version: "version_ok v \<Longrightarrow> parse_version (show_version v) = Some v"
  by (cases v)
     (auto simp: parse_version_def show_version_def version_ok_def parse_number_dec
       parse_number_dec [where rest = "[]", simplified] skip_dot_def)

lemma parse_version_Some:
  assumes "parse_version t = Some v"
  shows "t = show_version v \<and> version_ok v"
proof -
  obtain ma s1 s2 mi s3 s4 pa s5 where n: "parse_number t = Some (ma, s1)" "skip_dot s1 = Some s2"
    "parse_number s2 = Some (mi, s3)" "skip_dot s3 = Some s4" "parse_number s4 = Some (pa, s5)"
    using assms by (auto simp: parse_version_def split: option.splits)
  have t: "t = dec (unat ma) @ ''.'' @ dec (unat mi) @ ''.'' @ dec (unat pa) @ s5"
    using parse_number_Some [OF n(1)] parse_number_Some [OF n(3)] parse_number_Some [OF n(5)] n(2,4)
    by (simp add: skip_dot_Some)
  show ?thesis
  proof (cases "s5 = []")
    case True
    with assms n t show ?thesis by (auto simp: parse_version_def show_version_def version_ok_def)
  next
    case False
    then obtain rc where rc: "take 4 s5 = ''-rc.''" "parse_number (drop 4 s5) = Some (rc, [])" "rc \<noteq> 0"
      "v = \<lparr>major = ma, minor = mi, patch = pa, release_candidate = rc, is_release_candidate = True\<rparr>"
      using assms n by (auto simp: parse_version_def split: if_splits option.splits)
    then have "s5 = ''-rc.'' @ dec (unat rc)"
      using parse_number_Some [OF rc(2)] append_take_drop_id [of 4 s5] by simp
    with t rc(3,4) show ?thesis by (simp add: show_version_def version_ok_def)
  qed
qed

lemma parse_version_iff: "parse_version t = Some v \<longleftrightarrow> t = show_version v \<and> version_ok v"
  using parse_show_version parse_version_Some by blast

lemma compare_versions_key:
  "compare_versions l r =
     (if version_key r < version_key l then 1 else if version_key l < version_key r then - 1 else 0)"
  by (auto simp: compare_versions_def version_key_def)

lemma require_upgrade_key:
  "pm_ota_version_require_upgrade current candidate = ESP_OK \<longleftrightarrow>
     (\<exists>u v. parse_version (cstr current) = Some u \<and> parse_version (cstr candidate) = Some v \<and>
        version_key u < version_key v)"
  by (auto simp: pm_ota_version_require_upgrade_def compare_versions_key split: option.splits if_splits)

text \<open>
  A version text has exactly one spelling: \<open>parse_version\<close> accepts a text exactly when it is
  the printed form (decimal 32-bit numbers without leading zeros, a release candidate numbered
  from 1) of the version it returns.
\<close>

theorem version_parse_exact:
  "parse_version t = Some v \<longleftrightarrow> t = show_version v \<and> version_ok v"
  by (rule parse_version_iff)

text \<open>
  The upgrade rule: an update is allowed exactly when both texts are well-formed versions and
  the candidate is strictly higher in the order major, minor, patch, where the release
  candidates of a version come before the version, in the order of their numbers.
\<close>

theorem version_upgrade_rule:
  "pm_ota_version_require_upgrade current candidate = ESP_OK \<longleftrightarrow>
     (\<exists>u v. version_ok u \<and> version_ok v \<and> cstr current = show_version u \<and>
        cstr candidate = show_version v \<and> version_key u < version_key v)"
  unfolding require_upgrade_key parse_version_iff by blast

text \<open>
  No rollback: along any chain of allowed updates, however long, no version text occurs
  twice.
\<close>

theorem version_no_rollback:
  assumes "\<And>i. Suc i < length vs \<Longrightarrow> pm_ota_version_require_upgrade (vs ! i) (vs ! Suc i) = ESP_OK"
  shows "distinct (map cstr vs)"
proof -
  let ?k = "\<lambda>s. version_key (the (parse_version s))"
  have "?k (cstr (vs ! i)) < ?k (cstr (vs ! Suc i))" if "Suc i < length vs" for i
    using assms [OF that] by (auto simp: require_upgrade_key)
  then have "sorted_wrt (<) (map ?k (map cstr vs))"
    by (simp add: sorted_wrt_iff_nth_Suc_transp)
  then have "distinct (map ?k (map cstr vs))"
    using strict_sorted_iff by blast
  then show ?thesis unfolding distinct_map [of _ "map cstr vs"] by blast
qed

theorem version_no_rollback_witness:
  "pm_ota_version_require_upgrade ''1.2.0-rc.3'' ''1.2.0'' = ESP_OK \<and>
   distinct (map cstr [''1.2.0-rc.3'', ''1.2.0''])"
proof -
  have "pm_ota_version_require_upgrade ''1.2.0-rc.3'' ''1.2.0'' = ESP_OK" by code_simp
  then show ?thesis
    using version_no_rollback [of "[''1.2.0-rc.3'', ''1.2.0'']"] by (simp add: less_Suc_eq)
qed

end
