(* ===== verification/PM_Ota_Manifest.thy ===== *)
theory PM_Ota_Manifest
  imports PM_Json PM_Protocol PM_Ota_Version "HOL-Library.Monad_Syntax"
begin

text \<open>
  The manifest half of components/pm_ota/pm_ota.c: parsing the command payload that describes a
  firmware release, the canonical text the server signs, and the verification before an
  installation. The character arrays of \<open>pm_ota_manifest_t\<close> are lists of their elements, so a parsed
  field is \<open>store_str\<close> of its size. cJSON, the base64 decoder, SHA-256 and the version of the running
  image are arguments.
\<close>

subsection \<open>Data\<close>

definition PM_OTA_VERSION_MAX :: nat where "PM_OTA_VERSION_MAX = 31"
definition PM_OTA_PROJECT_MAX :: nat where "PM_OTA_PROJECT_MAX = 47"
definition PM_OTA_TARGET_MAX :: nat where "PM_OTA_TARGET_MAX = 15"
definition PM_OTA_BOARD_MAX :: nat where "PM_OTA_BOARD_MAX = 63"
definition PM_OTA_URL_MAX :: nat where "PM_OTA_URL_MAX = 255"
definition PM_OTA_PROTOCOL_MAX :: nat where "PM_OTA_PROTOCOL_MAX = 31"
definition PM_OTA_UUID_MAX :: nat where "PM_OTA_UUID_MAX = 36"
definition PM_OTA_DOWNLOAD_PATH_MAX :: nat where "PM_OTA_DOWNLOAD_PATH_MAX = 95"
definition PM_OTA_SCHEMA :: string where "PM_OTA_SCHEMA = ''pm-ota-manifest/1.0.0''"
definition PM_BOOT_ABI_VERSION :: u32 where "PM_BOOT_ABI_VERSION = 1"
definition PM_CONFIG_SCHEMA_VERSION :: u32 where "PM_CONFIG_SCHEMA_VERSION = 1"
definition PM_BOARD_PROFILE :: string where "PM_BOARD_PROFILE = ''esp32-s3-devkitc-n16r8-reference/1''"

lemmas ota_limits = PM_OTA_VERSION_MAX_def PM_OTA_PROJECT_MAX_def PM_OTA_TARGET_MAX_def PM_OTA_BOARD_MAX_def
  PM_OTA_URL_MAX_def PM_OTA_PROTOCOL_MAX_def PM_OTA_UUID_MAX_def PM_OTA_DOWNLOAD_PATH_MAX_def

record pm_ota_manifest =
  mf_schema :: "char list"
  mf_device_id :: "char list"
  mf_deployment_id :: "char list"
  mf_release_id :: "char list"
  mf_version :: "char list"
  mf_build_number :: u32
  mf_project_name :: "char list"
  mf_target_chip :: "char list"
  mf_board_profile :: "char list"
  mf_minimum_boot_version :: u32
  mf_minimum_config_version :: u32
  mf_minimum_protocol :: "char list"
  mf_image_size :: u32
  mf_image_sha256 :: "u8 list"
  mf_download_path :: "char list"
  mf_download_url :: "char list"
  mf_manifest_nonce :: "u8 list"
  mf_signature :: "u8 list"

subsection \<open>Parsing\<close>

definition uuid_valid :: "string \<Rightarrow> bool" where
  "uuid_valid s \<longleftrightarrow> length (cstr s) = PM_OTA_UUID_MAX \<and>
     list_all (\<lambda>i. if i = 8 \<or> i = 13 \<or> i = 18 \<or> i = 23 then cstr s ! i = CHR ''-'' else lower_hex (cstr s ! i))
       [0..<PM_OTA_UUID_MAX]"

definition string_copy :: "'j cjson \<Rightarrow> 'j \<Rightarrow> string \<Rightarrow> nat \<Rightarrow> char list option" where
  "string_copy J object name capacity =
     (case cJSON_GetObjectItem J object name of
        None \<Rightarrow> None
      | Some item \<Rightarrow>
        (case cJSON_valuestring J item of
           None \<Rightarrow> None
         | Some v \<Rightarrow>
             if cstr v = [] \<or> length (cstr v) \<ge> capacity \<or> CHR 0x0A \<in> set (cstr v) \<or> CHR 0x0D \<in> set (cstr v)
             then None else Some (store_str capacity v)))"

definition u32_value :: "'j cjson \<Rightarrow> 'j \<Rightarrow> string \<Rightarrow> u32 \<Rightarrow> u32 option" where
  "u32_value J object name minimum =
     (case cJSON_GetObjectItem J object name of
        None \<Rightarrow> None
      | Some item \<Rightarrow>
        (case cJSON_valuedouble J item of
           None \<Rightarrow> None
         | Some d \<Rightarrow>
             if d < of_int (uint minimum) \<or> d > 4294967295 then None
             else let v = word_of_int \<lfloor>d\<rfloor> :: u32 in
               if of_int (uint v) \<noteq> d then None else Some v))"

definition hex_nibble :: "char \<Rightarrow> nat option" where
  "hex_nibble c = (let k = of_char c :: nat in
     if 48 \<le> k \<and> k \<le> 57 then Some (k - 48) else if 97 \<le> k \<and> k \<le> 102 then Some (k - 97 + 10) else None)"

fun hex_pairs :: "string \<Rightarrow> u8 list option" where
  "hex_pairs (h # l # cs) =
     (case (hex_nibble h, hex_nibble l) of
        (Some hv, Some lv) \<Rightarrow> map_option (Cons (push_bit 4 (of_nat hv) OR of_nat lv)) (hex_pairs cs)
      | _ \<Rightarrow> None)"
| "hex_pairs _ = Some []"

definition hex_decode :: "string \<Rightarrow> nat \<Rightarrow> u8 list option" where
  "hex_decode input len = (if length (cstr input) \<noteq> len * 2 then None else hex_pairs (cstr input))"

text \<open>The loop that drops the slashes at the end of the origin.\<close>

fun origin_length :: "string \<Rightarrow> nat \<Rightarrow> nat" where
  "origin_length origin n = (if n > 8 \<and> origin ! (n - 1) = CHR ''/'' then origin_length origin (n - 1) else n)"

declare origin_length.simps [simp del]

definition firmware_path :: "string \<Rightarrow> string" where
  "firmware_path release = ''/api/v1/device/firmware/'' @ cstr release"

text \<open>The fields of the JSON object, in the order the code reads them.\<close>

definition manifest_fields ::
    "'j cjson \<Rightarrow> 'j \<Rightarrow> (pm_ota_manifest \<times> string \<times> string \<times> string) option" where
  "manifest_fields J json = do {
       schema \<leftarrow> string_copy J json ''schema'' (length PM_OTA_SCHEMA + 1);
       device_id \<leftarrow> string_copy J json ''device_id'' (PM_OTA_UUID_MAX + 1);
       deployment_id \<leftarrow> string_copy J json ''deployment_id'' (PM_OTA_UUID_MAX + 1);
       release_id \<leftarrow> string_copy J json ''release_id'' (PM_OTA_UUID_MAX + 1);
       version \<leftarrow> string_copy J json ''semantic_version'' (PM_OTA_VERSION_MAX + 1);
       build_number \<leftarrow> u32_value J json ''build_number'' 1;
       project_name \<leftarrow> string_copy J json ''project_name'' (PM_OTA_PROJECT_MAX + 1);
       target_chip \<leftarrow> string_copy J json ''target_chip'' (PM_OTA_TARGET_MAX + 1);
       board_profile \<leftarrow> string_copy J json ''board_profile'' (PM_OTA_BOARD_MAX + 1);
       boot_version \<leftarrow> u32_value J json ''minimum_boot_version'' 1;
       config_version \<leftarrow> u32_value J json ''minimum_config_version'' 1;
       proto \<leftarrow> string_copy J json ''minimum_protocol'' (PM_OTA_PROTOCOL_MAX + 1);
       image_size \<leftarrow> u32_value J json ''image_size'' 1;
       digest_hex \<leftarrow> string_copy J json ''sha256'' 65;
       download_path \<leftarrow> string_copy J json ''download_path'' (PM_OTA_DOWNLOAD_PATH_MAX + 1);
       nonce_hex \<leftarrow> string_copy J json ''manifest_nonce'' 33;
       signature_base64 \<leftarrow> string_copy J json ''signature'' 45;
       Some (\<lparr>mf_schema = schema, mf_device_id = device_id, mf_deployment_id = deployment_id,
            mf_release_id = release_id, mf_version = version, mf_build_number = build_number,
            mf_project_name = project_name, mf_target_chip = target_chip, mf_board_profile = board_profile,
            mf_minimum_boot_version = boot_version, mf_minimum_config_version = config_version,
            mf_minimum_protocol = proto, mf_image_size = image_size, mf_image_sha256 = replicate 32 0,
            mf_download_path = download_path, mf_download_url = replicate (PM_OTA_URL_MAX + 1) NUL,
            mf_manifest_nonce = replicate 16 0, mf_signature = replicate 32 0\<rparr>,
           digest_hex, nonce_hex, signature_base64)
     }"

definition manifest_identity_ok :: "string \<Rightarrow> pm_ota_manifest \<Rightarrow> bool" where
  "manifest_identity_ok expected_device_id m \<longleftrightarrow>
     cstr (mf_schema m) = PM_OTA_SCHEMA \<and> cstr (mf_device_id m) = cstr expected_device_id \<and>
     uuid_valid (mf_device_id m) \<and> uuid_valid (mf_deployment_id m) \<and> uuid_valid (mf_release_id m) \<and>
     length (firmware_path (mf_release_id m)) < PM_OTA_DOWNLOAD_PATH_MAX + 1 \<and>
     cstr (mf_download_path m) = firmware_path (mf_release_id m)"

definition pm_ota_manifest_parse_payload ::
    "'j cjson \<Rightarrow> (string \<Rightarrow> u8 list option) \<Rightarrow> string \<Rightarrow> string \<Rightarrow> string \<Rightarrow> esp_err + pm_ota_manifest" where
  "pm_ota_manifest_parse_payload J b64dec payload server_origin expected_device_id =
     (if \<not> uuid_valid expected_device_id \<or> take 8 (cstr server_origin) \<noteq> ''https://'' \<or>
         CHR ''?'' \<in> set (cstr server_origin) \<or> CHR ''#'' \<in> set (cstr server_origin)
      then Inl ESP_ERR_INVALID_ARG
      else case cJSON_Parse J (cstr payload) of
        None \<Rightarrow> Inl ESP_ERR_INVALID_ARG
      | Some json \<Rightarrow>
        if \<not> cJSON_IsObject J json \<or> cJSON_GetArraySize J json \<noteq> 17 then Inl ESP_ERR_INVALID_ARG
        else case manifest_fields J json of
          None \<Rightarrow> Inl ESP_ERR_INVALID_ARG
        | Some (m, digest_hex, nonce_hex, signature_base64) \<Rightarrow>
          if \<not> manifest_identity_ok expected_device_id m then Inl ESP_ERR_INVALID_ARG
          else case (hex_decode digest_hex 32, hex_decode nonce_hex 16) of
            (Some digest, Some non) \<Rightarrow>
              if length (cstr signature_base64) \<noteq> PM_SIGNATURE_BASE64_SIZE then Inl ESP_ERR_INVALID_ARG
              else (case b64dec (cstr signature_base64) of
                None \<Rightarrow> Inl ESP_ERR_INVALID_ARG
              | Some sig \<Rightarrow>
                if length sig \<noteq> 32 then Inl ESP_ERR_INVALID_ARG
                else let origin = cstr server_origin;
                         url = take (origin_length origin (length origin)) origin @ cstr (mf_download_path m)
                  in if length url < PM_OTA_URL_MAX + 1
                     then Inr (m\<lparr>mf_image_sha256 := digest, mf_manifest_nonce := non, mf_signature := sig,
                                 mf_download_url := store_str (PM_OTA_URL_MAX + 1) url\<rparr>)
                     else Inl ESP_ERR_INVALID_ARG)
          | _ \<Rightarrow> Inl ESP_ERR_INVALID_ARG)"

subsection \<open>The signed text\<close>

definition manifest_lines :: "pm_ota_manifest \<Rightarrow> string list" where
  "manifest_lines m =
     [''PM-OTA-MANIFEST-V1'', cstr (mf_schema m), cstr (mf_device_id m), cstr (mf_deployment_id m),
      cstr (mf_release_id m), cstr (mf_version m), dec (unat (mf_build_number m)), cstr (mf_project_name m),
      cstr (mf_target_chip m), cstr (mf_board_profile m), dec (unat (mf_minimum_boot_version m)),
      dec (unat (mf_minimum_config_version m)), cstr (mf_minimum_protocol m), dec (unat (mf_image_size m)),
      pm_hex_lower (mf_image_sha256 m), cstr (mf_download_path m), pm_hex_lower (mf_manifest_nonce m)]"

definition pm_ota_manifest_canonical :: "pm_ota_manifest \<Rightarrow> nat \<Rightarrow> esp_err + string" where
  "pm_ota_manifest_canonical m output_size =
     (if cstr (mf_schema m) = [] \<or> cstr (mf_device_id m) = [] \<or> cstr (mf_deployment_id m) = [] \<or>
         cstr (mf_release_id m) = [] \<or> cstr (mf_version m) = [] \<or> cstr (mf_project_name m) = [] \<or>
         cstr (mf_target_chip m) = [] \<or> cstr (mf_board_profile m) = [] \<or> cstr (mf_download_path m) = [] \<or>
         mf_image_size m = 0
      then Inl ESP_ERR_INVALID_ARG
      else let output = join_with newline (manifest_lines m) in
        if length output < output_size then Inr output else Inl ESP_ERR_INVALID_SIZE)"

text \<open>\<open>running\<close> is the version of \<open>esp_app_get_description ()\<close>, \<open>None\<close> when that is NULL.\<close>

definition manifest_supported :: "pm_ota_manifest \<Rightarrow> bool" where
  "manifest_supported m \<longleftrightarrow>
     cstr (mf_schema m) = PM_OTA_SCHEMA \<and>
     uuid_valid (mf_device_id m) \<and> uuid_valid (mf_deployment_id m) \<and> uuid_valid (mf_release_id m) \<and>
     cstr (mf_project_name m) = ''power-monitor-sensor-headless'' \<and>
     cstr (mf_target_chip m) = ''esp32s3'' \<and> cstr (mf_board_profile m) = PM_BOARD_PROFILE \<and>
     cstr (mf_minimum_protocol m) = PM_PROTOCOL_ID \<and>
     mf_minimum_boot_version m \<noteq> 0 \<and> mf_minimum_boot_version m \<le> PM_BOOT_ABI_VERSION \<and>
     mf_minimum_config_version m \<noteq> 0 \<and> mf_minimum_config_version m \<le> PM_CONFIG_SCHEMA_VERSION \<and>
     take 8 (cstr (mf_download_url m)) = ''https://''"

definition pm_ota_verify_manifest ::
    "psa_hash \<Rightarrow> string option \<Rightarrow> pm_ota_manifest \<Rightarrow> u8 list \<Rightarrow> esp_err" where
  "pm_ota_verify_manifest psa running m server_to_device_key =
     (if \<not> manifest_supported m then ESP_ERR_NOT_SUPPORTED
      else case pm_ota_manifest_canonical m 1024 of
        Inl e \<Rightarrow> e
      | Inr canonical \<Rightarrow>
        (case pm_hmac_sha256 psa server_to_device_key (chars_bytes canonical) of (e, expected) \<Rightarrow>
           if e \<noteq> ESP_OK then ESP_FAIL
           else if \<not> pm_constant_time_equal expected (mf_signature m) 32 then ESP_ERR_INVALID_CRC
           else (case running of
               None \<Rightarrow> ESP_ERR_NOT_SUPPORTED
             | Some v \<Rightarrow> if pm_ota_version_require_upgrade v (mf_version m) = ESP_OK
                         then ESP_OK else ESP_ERR_NOT_SUPPORTED)))"

subsection \<open>What a parsed field is\<close>

definition stored :: "nat \<Rightarrow> char list \<Rightarrow> bool" where
  "stored n a \<longleftrightarrow> a = store_str n (cstr a) \<and> cstr a \<noteq> [] \<and> length (cstr a) < n \<and>
     newline \<notin> set (cstr a) \<and> CHR 0x0D \<notin> set (cstr a)"

lemma string_copy_stored: "string_copy J obj name n = Some a \<Longrightarrow> stored n a"
proof -
  assume "string_copy J obj name n = Some a"
  then obtain v where v: "a = store_str n v" "cstr v \<noteq> []" "length (cstr v) < n" "newline \<notin> set (cstr v)"
      "CHR 0x0D \<notin> set (cstr v)"
    unfolding string_copy_def by (auto split: option.splits if_splits)
  from v(3) have "0 < n" "n - 1 \<ge> length (cstr v)" by linarith+
  then have "cstr a = cstr v" by (simp add: v(1) cstr_store_str)
  then show ?thesis using v by (simp add: stored_def) (simp add: store_str_def)
qed

lemma stored_inj: "stored n a \<Longrightarrow> stored n b \<Longrightarrow> cstr a = cstr b \<Longrightarrow> a = b"
  by (simp add: stored_def)

lemma of_int_uint_le: "(unsigned v :: rat) \<le> unsigned w \<longleftrightarrow> uint v \<le> uint w" for v w :: u32
  using of_int_le_iff [of "uint v" "uint w", where 'a = rat] by (simp only: of_int_uint)

lemma u32_value_Some: "u32_value J obj name minimum = Some v \<Longrightarrow> minimum \<le> v"
  unfolding u32_value_def
  by (auto simp: Let_def word_le_def not_less of_int_uint_le split: option.splits if_splits)

text \<open>Hexadecimal decoding inverts \<open>pm_hex_lower\<close>.\<close>

lemma hex_nibble_digit: "unat x < 16 \<Longrightarrow> hex_nibble (hex_digit x) = Some (unat x)" for x :: u8
proof -
  assume "unat x < 16"
  then have "unat x = 0 \<or> unat x = 1 \<or> unat x = 2 \<or> unat x = 3 \<or> unat x = 4 \<or> unat x = 5 \<or> unat x = 6 \<or> unat x = 7 \<or>
      unat x = 8 \<or> unat x = 9 \<or> unat x = 10 \<or> unat x = 11 \<or> unat x = 12 \<or> unat x = 13 \<or> unat x = 14 \<or> unat x = 15"
    by presburger
  then show ?thesis unfolding hex_digit_def hex_nibble_def by (elim disjE) simp_all
qed

lemma nibbles_join: "push_bit 4 (drop_bit 4 b) OR (b AND 0x0F) = b" for b :: u8
proof -
  have m: "(0x0F :: u8) = mask 4" by (simp add: mask_eq_exp_minus_1)
  show ?thesis unfolding m by (rule bit_word_eqI) (auto simp: bit_or_iff bit_push_bit_iff bit_drop_bit_eq bit_and_iff bit_mask_iff)
qed

lemma hex_pairs_lower: "hex_pairs (pm_hex_lower d) = Some d"
proof (induction d)
  case (Cons b d)
  then show ?case
    using hex_nibble_digit [OF hex_digit_less(1), of b] hex_nibble_digit [OF hex_digit_less(2), of b]
    by (simp add: pm_hex_lower_def nibbles_join)
qed (simp add: pm_hex_lower_def)

lemma pm_hex_lower_inj: "pm_hex_lower d = pm_hex_lower e \<Longrightarrow> d = e"
  by (metis hex_pairs_lower option.inject)

lemma hex_pairs_length: "hex_pairs s = Some d \<Longrightarrow> length d = length s div 2"
  by (induction s arbitrary: d rule: hex_pairs.induct) (auto split: option.splits)

lemma hex_decode_length: "hex_decode s n = Some d \<Longrightarrow> length d = n"
  by (auto simp: hex_decode_def dest: hex_pairs_length split: if_splits)

lemma lower_hex_plain: "lower_hex c \<Longrightarrow> c \<noteq> newline \<and> c \<noteq> CHR 0x0D"
  by (auto simp: lower_hex_def is_digit_def)

lemma dec_no_newline: "newline \<notin> set (dec n)"
  using digits_value_dec [of n] by (auto simp: canonical_digits_def list_all_iff is_digit_def)

lemma dec_inj: "dec m = dec n \<Longrightarrow> m = n"
  by (metis digits_value_dec)

text \<open>The arrays of a parsed manifest.\<close>

definition manifest_wf :: "pm_ota_manifest \<Rightarrow> bool" where
  "manifest_wf m \<longleftrightarrow> stored 22 (mf_schema m) \<and> stored 37 (mf_device_id m) \<and> stored 37 (mf_deployment_id m) \<and>
     stored 37 (mf_release_id m) \<and> stored 32 (mf_version m) \<and> stored 48 (mf_project_name m) \<and>
     stored 16 (mf_target_chip m) \<and> stored 64 (mf_board_profile m) \<and> stored 32 (mf_minimum_protocol m) \<and>
     stored 96 (mf_download_path m) \<and> length (mf_image_sha256 m) = 32 \<and> length (mf_manifest_nonce m) = 16 \<and>
     length (mf_signature m) = 32 \<and> length (mf_download_url m) = 256 \<and>
     1 \<le> mf_build_number m \<and> 1 \<le> mf_image_size m"

lemma length_schema: "length PM_OTA_SCHEMA = 21"
  by (simp add: PM_OTA_SCHEMA_def)

lemma manifest_fields_Some:
  assumes "manifest_fields J obj = Some (m, digest_hex, nonce_hex, sig)"
  shows "length d = 32 \<Longrightarrow> length n = 16 \<Longrightarrow> length s = 32 \<Longrightarrow> length u = 256 \<Longrightarrow>
    manifest_wf (m\<lparr>mf_image_sha256 := d, mf_manifest_nonce := n, mf_signature := s, mf_download_url := u\<rparr>)"
  using assms
  by (clarsimp simp: manifest_fields_def bind_eq_Some_conv manifest_wf_def ota_limits length_schema
      dest!: string_copy_stored u32_value_Some)

lemma parse_payload_Inr:
  assumes "pm_ota_manifest_parse_payload J b64dec payload origin dev = Inr m"
  obtains m0 where "manifest_wf m" "manifest_identity_ok dev m0" "take 8 (cstr origin) = ''https://''"
    "mf_download_url m = store_str 256
       (take (origin_length (cstr origin) (length (cstr origin))) (cstr origin) @ cstr (mf_download_path m0))"
    "length (take (origin_length (cstr origin) (length (cstr origin))) (cstr origin) @ cstr (mf_download_path m0)) < 256"
    "m = m0\<lparr>mf_image_sha256 := mf_image_sha256 m, mf_manifest_nonce := mf_manifest_nonce m,
       mf_signature := mf_signature m, mf_download_url := mf_download_url m\<rparr>"
proof -
  obtain json m0 dh nh sh d n s where p: "manifest_fields J json = Some (m0, dh, nh, sh)" "manifest_identity_ok dev m0"
    "hex_decode dh 32 = Some d" "hex_decode nh 16 = Some n" "length s = 32" "take 8 (cstr origin) = ''https://''"
    "length (take (origin_length (cstr origin) (length (cstr origin))) (cstr origin) @ cstr (mf_download_path m0)) < 256"
    and m: "m = m0\<lparr>mf_image_sha256 := d, mf_manifest_nonce := n, mf_signature := s, mf_download_url := store_str 256
       (take (origin_length (cstr origin) (length (cstr origin))) (cstr origin) @ cstr (mf_download_path m0))\<rparr>"
    using assms unfolding pm_ota_manifest_parse_payload_def Let_def ota_limits
    by (auto split: if_splits option.splits prod.splits)
  have "manifest_wf m"
    unfolding m using p(5) hex_decode_length [OF p(3)] hex_decode_length [OF p(4)]
    by (intro manifest_fields_Some [OF p(1)]) (simp_all add: length_store_str)
  with p m show ?thesis by (intro that [of m0]) simp_all
qed

lemma origin_length_ge: "8 \<le> n \<Longrightarrow> 8 \<le> origin_length s n"
proof (induction s n rule: origin_length.induct)
  case (1 s n)
  then show ?case by (subst origin_length.simps) auto
qed

text \<open>
  A parsed manifest is bound to this device and to this server: \<open>pm_ota_manifest_parse_payload\<close> succeeds only
  for a manifest with the device's own identifier and well-formed identifiers of deployment
  and release, whose download path is the firmware path of that release and whose URL is that
  path at the given https origin (without slashes at its end), untruncated; the image is not
  empty and the character fields hold no line break that could split a line of the signed text.
\<close>

theorem ota_manifest_bound:
  assumes "pm_ota_manifest_parse_payload J b64dec payload origin dev = Inr m"
  shows "manifest_wf m \<and> cstr (mf_schema m) = PM_OTA_SCHEMA \<and> cstr (mf_device_id m) = cstr dev \<and>
    uuid_valid (mf_device_id m) \<and> uuid_valid (mf_deployment_id m) \<and> uuid_valid (mf_release_id m) \<and>
    cstr (mf_download_path m) = ''/api/v1/device/firmware/'' @ cstr (mf_release_id m) \<and>
    cstr (mf_download_url m) = take (origin_length (cstr origin) (length (cstr origin))) (cstr origin) @
      cstr (mf_download_path m) \<and>
    take 8 (cstr (mf_download_url m)) = ''https://'' \<and> mf_image_size m \<noteq> 0"
proof -
  let ?o = "take (origin_length (cstr origin) (length (cstr origin))) (cstr origin)"
  obtain m0 where m0: "manifest_wf m" "manifest_identity_ok dev m0" "take 8 (cstr origin) = ''https://''"
    "mf_download_url m = store_str 256 (?o @ cstr (mf_download_path m0))"
    "length (?o @ cstr (mf_download_path m0)) < 256"
    "m = m0\<lparr>mf_image_sha256 := mf_image_sha256 m, mf_manifest_nonce := mf_manifest_nonce m,
       mf_signature := mf_signature m, mf_download_url := mf_download_url m\<rparr>"
    using assms by (rule parse_payload_Inr)
  have same: "mf_schema m = mf_schema m0" "mf_device_id m = mf_device_id m0" "mf_deployment_id m = mf_deployment_id m0"
    "mf_release_id m = mf_release_id m0" "mf_download_path m = mf_download_path m0"
    by (subst m0(6), simp)+
  have "NUL \<notin> set (?o @ cstr (mf_download_path m0))"
    using cstr_no_NUL [of origin] cstr_no_NUL [of "mf_download_path m0"] by (auto dest: in_set_takeD)
  then have "cstr (mf_download_url m) = take 255 (?o @ cstr (mf_download_path m))"
    unfolding m0(4) same by (subst cstr_store_str) (simp_all add: cstr_id)
  also have "\<dots> = ?o @ cstr (mf_download_path m)"
    using m0(5) unfolding same by (intro take_all) linarith
  finally have url: "cstr (mf_download_url m) = ?o @ cstr (mf_download_path m)" .
  have "length (take 8 (cstr origin)) = 8" by (simp add: m0(3))
  then have "8 \<le> length (cstr origin)" by (metis length_take min.cobounded1)
  then have "take 8 ?o = ''https://''" "8 \<le> length ?o"
    using m0(3) origin_length_ge [of "length (cstr origin)" "cstr origin"] by (simp_all add: min_def)
  then have "take 8 (cstr (mf_download_url m)) = ''https://''" by (simp add: url)
  with url m0(1,2) show ?thesis
    unfolding manifest_identity_ok_def firmware_path_def same [symmetric] by (auto simp: manifest_wf_def)
qed

subsection \<open>The signature covers the manifest\<close>

lemma manifest_canonical_Inr:
  "pm_ota_manifest_canonical m k = Inr c \<Longrightarrow> c = join_with newline (manifest_lines m) \<and> mf_image_size m \<noteq> 0"
  by (auto simp: pm_ota_manifest_canonical_def Let_def split: if_splits)

lemma manifest_lines_no_newline: "manifest_wf m \<Longrightarrow> p \<in> set (manifest_lines m) \<Longrightarrow> newline \<notin> set p"
  using hex_lower_text(1) lower_hex_plain
  by (auto simp: manifest_lines_def manifest_wf_def stored_def dec_no_newline list_all_iff)

lemma manifest_canonical_inj:
  assumes "manifest_wf m" "manifest_wf m'"
    and "pm_ota_manifest_canonical m k = Inr c" "pm_ota_manifest_canonical m' k' = Inr c"
  shows "m' = m\<lparr>mf_download_url := mf_download_url m', mf_signature := mf_signature m'\<rparr>"
proof -
  have "join_with newline (manifest_lines m) = join_with newline (manifest_lines m')"
    using assms(3,4) manifest_canonical_Inr by metis
  then have "manifest_lines m = manifest_lines m'"
    by (rule join_inj) (use assms(1,2) manifest_lines_no_newline in \<open>auto simp: manifest_lines_def\<close>)
  then have eq: "cstr (mf_schema m) = cstr (mf_schema m')" "cstr (mf_device_id m) = cstr (mf_device_id m')"
    "cstr (mf_deployment_id m) = cstr (mf_deployment_id m')" "cstr (mf_release_id m) = cstr (mf_release_id m')"
    "cstr (mf_version m) = cstr (mf_version m')" "cstr (mf_project_name m) = cstr (mf_project_name m')"
    "cstr (mf_target_chip m) = cstr (mf_target_chip m')" "cstr (mf_board_profile m) = cstr (mf_board_profile m')"
    "cstr (mf_minimum_protocol m) = cstr (mf_minimum_protocol m')"
    "cstr (mf_download_path m) = cstr (mf_download_path m')"
    "dec (unat (mf_build_number m)) = dec (unat (mf_build_number m'))"
    "dec (unat (mf_minimum_boot_version m)) = dec (unat (mf_minimum_boot_version m'))"
    "dec (unat (mf_minimum_config_version m)) = dec (unat (mf_minimum_config_version m'))"
    "dec (unat (mf_image_size m)) = dec (unat (mf_image_size m'))"
    "pm_hex_lower (mf_image_sha256 m) = pm_hex_lower (mf_image_sha256 m')"
    "pm_hex_lower (mf_manifest_nonce m) = pm_hex_lower (mf_manifest_nonce m')"
    unfolding manifest_lines_def by simp_all
  have "mf_schema m = mf_schema m'" "mf_device_id m = mf_device_id m'" "mf_deployment_id m = mf_deployment_id m'"
    "mf_release_id m = mf_release_id m'" "mf_version m = mf_version m'" "mf_project_name m = mf_project_name m'"
    "mf_target_chip m = mf_target_chip m'" "mf_board_profile m = mf_board_profile m'"
    "mf_minimum_protocol m = mf_minimum_protocol m'" "mf_download_path m = mf_download_path m'"
    using assms(1,2) eq(1-10) stored_inj unfolding manifest_wf_def by blast+
  moreover have "mf_build_number m = mf_build_number m'" "mf_minimum_boot_version m = mf_minimum_boot_version m'"
    "mf_minimum_config_version m = mf_minimum_config_version m'" "mf_image_size m = mf_image_size m'"
    using eq(11-14) dec_inj word_unat_eq_iff by blast+
  moreover have "mf_image_sha256 m = mf_image_sha256 m'" "mf_manifest_nonce m = mf_manifest_nonce m'"
    using eq(15,16) pm_hex_lower_inj by blast+
  ultimately show ?thesis by simp
qed

lemma manifest_canonical_error: "pm_ota_manifest_canonical m k \<noteq> Inl ESP_OK"
  by (simp add: pm_ota_manifest_canonical_def Let_def)

lemma hmac_length: "pm_hmac_sha256 psa key x = (ESP_OK, mac) \<Longrightarrow> length mac = 32"
  by (auto simp: pm_hmac_sha256_def Let_def PM_SHA256_SIZE_def split: option.splits if_splits)

lemma verify_manifest_ok:
  assumes "pm_ota_verify_manifest psa running m key = ESP_OK" "length (mf_signature m) = 32"
  obtains c v where "manifest_supported m" "pm_ota_manifest_canonical m 1024 = Inr c"
    "pm_hmac_sha256 psa key (chars_bytes c) = (ESP_OK, mf_signature m)" "running = Some v"
    "pm_ota_version_require_upgrade v (mf_version m) = ESP_OK"
proof -
  have sup: "manifest_supported m" using assms(1) by (auto simp: pm_ota_verify_manifest_def split: if_splits)
  obtain c where c: "pm_ota_manifest_canonical m 1024 = Inr c"
    using assms(1) sup manifest_canonical_error [of m 1024]
    by (auto simp: pm_ota_verify_manifest_def split: sum.splits)
  obtain e mac where h: "pm_hmac_sha256 psa key (chars_bytes c) = (e, mac)" by fastforce
  have *: "e = ESP_OK" "pm_constant_time_equal mac (mf_signature m) 32"
    "\<exists>v. running = Some v \<and> pm_ota_version_require_upgrade v (mf_version m) = ESP_OK"
    using assms(1) sup c h by (auto simp: pm_ota_verify_manifest_def split: if_splits option.splits)
  then have "mac = mf_signature m"
    using hmac_length h assms(2) by (simp add: pm_constant_time_equal_list)
  with * that sup c h show ?thesis by blast
qed

text \<open>
  C8. The signature binds the whole manifest. When two manifests parsed from any payloads are
  both verified under one key and carry the same signature, then they agree in every
  field but the origin of the URL, or the HMAC of two different texts is the same; and a verified
  manifest names this project, chip, board and protocol and a version the upgrade rule allows
  over the running one.
\<close>

theorem ota_manifest_signature_binds:
  assumes "pm_ota_manifest_parse_payload J b64dec payload origin dev = Inr m"
    and "pm_ota_manifest_parse_payload J' b64dec' payload' origin' dev' = Inr m'"
    and "pm_ota_verify_manifest psa running m key = ESP_OK" "pm_ota_verify_manifest psa running' m' key = ESP_OK"
    and "mf_signature m = mf_signature m'"
  shows "(m' = m\<lparr>mf_download_url := mf_download_url m'\<rparr> \<or>
      (\<exists>c c'. c \<noteq> c' \<and> pm_ota_manifest_canonical m 1024 = Inr c \<and> pm_ota_manifest_canonical m' 1024 = Inr c' \<and>
         pm_hmac_sha256 psa key (chars_bytes c) = pm_hmac_sha256 psa key (chars_bytes c'))) \<and>
    cstr (mf_project_name m) = ''power-monitor-sensor-headless'' \<and> cstr (mf_target_chip m) = ''esp32s3'' \<and>
    cstr (mf_board_profile m) = PM_BOARD_PROFILE \<and> cstr (mf_minimum_protocol m) = PM_PROTOCOL_ID \<and>
    (\<exists>v. running = Some v \<and> pm_ota_version_require_upgrade v (mf_version m) = ESP_OK)"
proof -
  obtain wf: "manifest_wf m" "manifest_wf m'"
    using assms(1,2) by (meson parse_payload_Inr)
  then have "length (mf_signature m) = 32" "length (mf_signature m') = 32" by (simp_all add: manifest_wf_def)
  note len = this
  obtain c v where c: "manifest_supported m" "pm_ota_manifest_canonical m 1024 = Inr c"
    "pm_hmac_sha256 psa key (chars_bytes c) = (ESP_OK, mf_signature m)" "running = Some v"
    "pm_ota_version_require_upgrade v (mf_version m) = ESP_OK"
    using assms(3) len(1) by (rule verify_manifest_ok)
  obtain c' where c': "pm_ota_manifest_canonical m' 1024 = Inr c'"
    "pm_hmac_sha256 psa key (chars_bytes c') = (ESP_OK, mf_signature m')"
    using assms(4) len(2) by (rule verify_manifest_ok)
  have "m' = m\<lparr>mf_download_url := mf_download_url m'\<rparr> \<or> c \<noteq> c'"
  proof (rule disjCI)
    assume "\<not> c \<noteq> c'"
    then have "m' = m\<lparr>mf_download_url := mf_download_url m', mf_signature := mf_signature m\<rparr>"
      using manifest_canonical_inj [OF wf c(2)] c'(1) assms(5) by simp
    then show "m' = m\<lparr>mf_download_url := mf_download_url m'\<rparr>" by simp
  qed
  then show ?thesis using c c' assms(5) unfolding manifest_supported_def by auto
qed

subsection \<open>A release\<close>

definition demo_uuid :: string where "demo_uuid = ''00000000-0000-4000-8000-00000000000a''"

definition demo_release :: flat_json where
  "demo_release = FObject
     [(''schema'', FString ''pm-ota-manifest/1.0.0''), (''device_id'', FString demo_uuid),
      (''deployment_id'', FString demo_uuid), (''release_id'', FString demo_uuid),
      (''semantic_version'', FString ''1.2.0''), (''build_number'', FNumber 7),
      (''project_name'', FString ''power-monitor-sensor-headless''), (''target_chip'', FString ''esp32s3''),
      (''board_profile'', FString ''esp32-s3-devkitc-n16r8-reference/1''), (''minimum_boot_version'', FNumber 1),
      (''minimum_config_version'', FNumber 1), (''minimum_protocol'', FString ''pm-protocol/1.0.0''),
      (''image_size'', FNumber 3), (''sha256'', FString (replicate 64 CHR ''0'')),
      (''download_path'', FString (''/api/v1/device/firmware/'' @ demo_uuid)),
      (''manifest_nonce'', FString (replicate 32 CHR ''1'')), (''signature'', FString (replicate 44 CHR ''A''))]"

definition demo_manifest :: pm_ota_manifest where
  "demo_manifest = \<lparr>mf_schema = store_str 22 PM_OTA_SCHEMA, mf_device_id = store_str 37 demo_uuid,
     mf_deployment_id = store_str 37 demo_uuid, mf_release_id = store_str 37 demo_uuid,
     mf_version = store_str 32 ''1.2.0'', mf_build_number = 7,
     mf_project_name = store_str 48 ''power-monitor-sensor-headless'', mf_target_chip = store_str 16 ''esp32s3'',
     mf_board_profile = store_str 64 PM_BOARD_PROFILE, mf_minimum_boot_version = 1, mf_minimum_config_version = 1,
     mf_minimum_protocol = store_str 32 PM_PROTOCOL_ID, mf_image_size = 3, mf_image_sha256 = replicate 32 0,
     mf_download_path = store_str 96 (''/api/v1/device/firmware/'' @ demo_uuid),
     mf_download_url = store_str 256 (''https://h/api/v1/device/firmware/'' @ demo_uuid),
     mf_manifest_nonce = replicate 16 17, mf_signature = replicate 32 7\<rparr>"

definition demo_cjson :: "flat_json cjson" where "demo_cjson = flat_cjson (\<lambda>_. Some demo_release)"

lemma demo_parse:
  "pm_ota_manifest_parse_payload demo_cjson (\<lambda>_. Some (replicate 32 7)) [] ''https://h//'' demo_uuid = Inr demo_manifest"
  by code_simp

lemma demo_verify: "pm_ota_verify_manifest demo_psa (Some ''1.1.9'') demo_manifest (replicate 32 0) = ESP_OK"
  by code_simp

theorem ota_manifest_bound_witness:
  "\<exists>m. pm_ota_manifest_parse_payload demo_cjson (\<lambda>_. Some (replicate 32 7)) [] ''https://h//'' demo_uuid = Inr m \<and>
     cstr (mf_device_id m) = cstr demo_uuid \<and> mf_image_size m = 3 \<and> take 8 (cstr (mf_download_url m)) = ''https://''"
  using ota_manifest_bound [OF demo_parse] demo_parse by (auto simp: demo_manifest_def)

theorem ota_manifest_signature_binds_witness:
  "\<exists>m. pm_ota_manifest_parse_payload demo_cjson (\<lambda>_. Some (replicate 32 7)) [] ''https://h//'' demo_uuid = Inr m \<and>
     pm_ota_verify_manifest demo_psa (Some ''1.1.9'') m (replicate 32 0) = ESP_OK \<and>
     cstr (mf_target_chip m) = ''esp32s3'' \<and> pm_ota_version_require_upgrade ''1.1.9'' (mf_version m) = ESP_OK"
  using ota_manifest_signature_binds [OF demo_parse demo_parse demo_verify demo_verify] demo_parse demo_verify by auto

end
