(* ===== verification/PM_Http_Response.thy ===== *)
theory PM_Http_Response
  imports PM_Protocol
begin

text \<open>
  components/pm_protocol/pm_http_response.c: collecting the authentication headers of a
  response while they arrive one by one. The destination buffers are C strings; \<open>field_capacity\<close>
  is the size of each. The reference is what the whole list of headers contains.
\<close>

subsection \<open>The code\<close>

datatype header_field =
    PM_HTTP_SEEN_PROTOCOL | PM_HTTP_SEEN_DEVICE_ID | PM_HTTP_SEEN_TIMESTAMP | PM_HTTP_SEEN_NONCE
  | PM_HTTP_SEEN_CONTENT_SHA256 | PM_HTTP_SEEN_SIGNATURE | PM_HTTP_SEEN_ETAG

fun field_bit :: "header_field \<Rightarrow> nat" where
  "field_bit PM_HTTP_SEEN_PROTOCOL = 0"
| "field_bit PM_HTTP_SEEN_DEVICE_ID = 1"
| "field_bit PM_HTTP_SEEN_TIMESTAMP = 2"
| "field_bit PM_HTTP_SEEN_NONCE = 3"
| "field_bit PM_HTTP_SEEN_CONTENT_SHA256 = 4"
| "field_bit PM_HTTP_SEEN_SIGNATURE = 5"
| "field_bit PM_HTTP_SEEN_ETAG = 6"

fun field_name :: "header_field \<Rightarrow> string" where
  "field_name PM_HTTP_SEEN_PROTOCOL = ''X-PM-Protocol''"
| "field_name PM_HTTP_SEEN_DEVICE_ID = ''X-PM-Device-ID''"
| "field_name PM_HTTP_SEEN_TIMESTAMP = ''X-PM-Timestamp''"
| "field_name PM_HTTP_SEEN_NONCE = ''X-PM-Nonce''"
| "field_name PM_HTTP_SEEN_CONTENT_SHA256 = ''X-PM-Content-SHA256''"
| "field_name PM_HTTP_SEEN_SIGNATURE = ''X-PM-Signature''"
| "field_name PM_HTTP_SEEN_ETAG = ''ETag''"

fun field_capacity :: "header_field \<Rightarrow> nat" where
  "field_capacity PM_HTTP_SEEN_PROTOCOL = 18"
| "field_capacity PM_HTTP_SEEN_DEVICE_ID = 37"
| "field_capacity PM_HTTP_SEEN_TIMESTAMP = 24"
| "field_capacity PM_HTTP_SEEN_NONCE = 129"
| "field_capacity PM_HTTP_SEEN_CONTENT_SHA256 = 65"
| "field_capacity PM_HTTP_SEEN_SIGNATURE = 45"
| "field_capacity PM_HTTP_SEEN_ETAG = 68"

record pm_http_response_capture =
  auth :: pm_auth_headers
  etag :: string
  seen_mask :: u8
  invalid :: bool

definition all_fields :: "header_field list" where
  "all_fields = [PM_HTTP_SEEN_PROTOCOL, PM_HTTP_SEEN_DEVICE_ID, PM_HTTP_SEEN_TIMESTAMP, PM_HTTP_SEEN_NONCE,
     PM_HTTP_SEEN_CONTENT_SHA256, PM_HTTP_SEEN_SIGNATURE, PM_HTTP_SEEN_ETAG]"

definition field_mask :: "header_field \<Rightarrow> u8" where
  "field_mask f = push_bit (field_bit f) 1"

definition ascii_lower :: "char \<Rightarrow> char" where
  "ascii_lower c = (if 65 \<le> (of_char c :: nat) \<and> (of_char c :: nat) \<le> 90
     then char_of ((of_char c :: nat) + 32) else c)"

fun name_equal :: "string \<Rightarrow> string \<Rightarrow> bool" where
  "name_equal actual [] = (actual = [])"
| "name_equal [] (e # es) = False"
| "name_equal (a # as) (e # es) = (ascii_lower a = ascii_lower e \<and> name_equal as es)"

definition header_name_equal :: "string \<Rightarrow> string \<Rightarrow> bool" where
  "header_name_equal actual expected = name_equal (cstr actual) (cstr expected)"

text \<open>The chain of comparisons: the first header name that matches.\<close>

definition field_of :: "string \<Rightarrow> header_field option" where
  "field_of name = List.find (\<lambda>f. header_name_equal name (field_name f)) all_fields"

definition bounded_value_length :: "string \<Rightarrow> nat \<Rightarrow> nat" where
  "bounded_value_length v capacity = min (length (cstr v)) capacity"

fun set_field :: "header_field \<Rightarrow> string \<Rightarrow> pm_http_response_capture \<Rightarrow> pm_http_response_capture" where
  "set_field PM_HTTP_SEEN_PROTOCOL v c = c\<lparr>auth := (auth c)\<lparr>protocol := v\<rparr>\<rparr>"
| "set_field PM_HTTP_SEEN_DEVICE_ID v c = c\<lparr>auth := (auth c)\<lparr>hdr_device_id := v\<rparr>\<rparr>"
| "set_field PM_HTTP_SEEN_TIMESTAMP v c = c\<lparr>auth := (auth c)\<lparr>timestamp := v\<rparr>\<rparr>"
| "set_field PM_HTTP_SEEN_NONCE v c = c\<lparr>auth := (auth c)\<lparr>nonce := v\<rparr>\<rparr>"
| "set_field PM_HTTP_SEEN_CONTENT_SHA256 v c = c\<lparr>auth := (auth c)\<lparr>content_sha256 := v\<rparr>\<rparr>"
| "set_field PM_HTTP_SEEN_SIGNATURE v c = c\<lparr>auth := (auth c)\<lparr>signature := v\<rparr>\<rparr>"
| "set_field PM_HTTP_SEEN_ETAG v c = c\<lparr>etag := v\<rparr>"

fun get_field :: "header_field \<Rightarrow> pm_http_response_capture \<Rightarrow> string" where
  "get_field PM_HTTP_SEEN_PROTOCOL c = protocol (auth c)"
| "get_field PM_HTTP_SEEN_DEVICE_ID c = hdr_device_id (auth c)"
| "get_field PM_HTTP_SEEN_TIMESTAMP c = timestamp (auth c)"
| "get_field PM_HTTP_SEEN_NONCE c = nonce (auth c)"
| "get_field PM_HTTP_SEEN_CONTENT_SHA256 c = content_sha256 (auth c)"
| "get_field PM_HTTP_SEEN_SIGNATURE c = signature (auth c)"
| "get_field PM_HTTP_SEEN_ETAG c = etag c"

definition pm_http_response_capture_init :: pm_http_response_capture where
  "pm_http_response_capture_init = \<lparr>auth = \<lparr>protocol = [], hdr_device_id = [], timestamp = [], nonce = [],
     content_sha256 = [], signature = []\<rparr>, etag = [], seen_mask = 0, invalid = False\<rparr>"

text \<open>\<open>None\<close> for a NULL name or value.\<close>

definition pm_http_response_capture_header ::
    "pm_http_response_capture \<Rightarrow> string option \<Rightarrow> string option \<Rightarrow> esp_err \<times> pm_http_response_capture" where
  "pm_http_response_capture_header c name val =
     (case (name, val) of
        (Some nm, Some v) \<Rightarrow>
          if invalid c then (ESP_ERR_INVALID_RESPONSE, c)
          else (case field_of nm of
            None \<Rightarrow> (ESP_OK, c)
          | Some f \<Rightarrow>
              let capacity = field_capacity f; len = bounded_value_length v capacity in
              if seen_mask c AND field_mask f \<noteq> 0 \<or> len = 0 \<or> len \<ge> capacity
              then (ESP_ERR_INVALID_RESPONSE, set_field f [] (c\<lparr>invalid := True\<rparr>))
              else (ESP_OK, set_field f (take len v) (c\<lparr>seen_mask := seen_mask c OR field_mask f\<rparr>)))
      | _ \<Rightarrow> (ESP_ERR_INVALID_ARG, c\<lparr>invalid := True\<rparr>))"

definition PM_HTTP_REQUIRED_AUTH_MASK :: u8 where
  "PM_HTTP_REQUIRED_AUTH_MASK = field_mask PM_HTTP_SEEN_PROTOCOL OR field_mask PM_HTTP_SEEN_DEVICE_ID OR
     field_mask PM_HTTP_SEEN_TIMESTAMP OR field_mask PM_HTTP_SEEN_NONCE OR
     field_mask PM_HTTP_SEEN_CONTENT_SHA256 OR field_mask PM_HTTP_SEEN_SIGNATURE"

definition pm_http_response_capture_validate :: "pm_http_response_capture \<Rightarrow> bool \<Rightarrow> esp_err" where
  "pm_http_response_capture_validate c require_etag =
     (let required = (if require_etag then PM_HTTP_REQUIRED_AUTH_MASK OR field_mask PM_HTTP_SEEN_ETAG
                      else PM_HTTP_REQUIRED_AUTH_MASK)
      in if \<not> invalid c \<and> seen_mask c AND required = required then ESP_OK else ESP_ERR_INVALID_RESPONSE)"

subsection \<open>What the headers contain\<close>

definition occurrences :: "header_field \<Rightarrow> (string \<times> string) list \<Rightarrow> string list" where
  "occurrences f hs = map (cstr \<circ> snd) (filter (\<lambda>(n, v). header_name_equal n (field_name f)) hs)"

definition well_sized :: "header_field \<Rightarrow> string \<Rightarrow> bool" where
  "well_sized f v \<longleftrightarrow> 0 < length v \<and> length v < field_capacity f"

definition once_or_never :: "header_field \<Rightarrow> string list \<Rightarrow> bool" where
  "once_or_never f vs \<longleftrightarrow> vs = [] \<or> (\<exists>v. vs = [v] \<and> well_sized f v)"

definition capture_all :: "(string \<times> string) list \<Rightarrow> pm_http_response_capture" where
  "capture_all hs = foldl (\<lambda>c (n, v). snd (pm_http_response_capture_header c (Some n) (Some v)))
     pm_http_response_capture_init hs"

lemma name_equal_map: "name_equal a e \<longleftrightarrow> map ascii_lower a = map ascii_lower e"
  by (induction a e rule: name_equal.induct) auto

lemma field_names_distinct:
  "map ascii_lower (cstr (field_name f)) = map ascii_lower (cstr (field_name g)) \<longleftrightarrow> f = g"
  by (cases f; cases g) (simp_all add: cstr_def ascii_lower_def char_of_def bit_0)

lemma field_of_Some: "field_of n = Some f \<Longrightarrow> header_name_equal n (field_name f)"
  unfolding field_of_def find_Some_iff by blast

lemma field_of_iff: "field_of n = Some f \<longleftrightarrow> header_name_equal n (field_name f)"
proof
  assume f: "header_name_equal n (field_name f)"
  have "f \<in> set all_fields" by (cases f) (simp_all add: all_fields_def)
  with f have "field_of n \<noteq> None" unfolding field_of_def find_None_iff by blast
  then obtain g where g: "field_of n = Some g" by blast
  have "g = f"
    using f field_of_Some [OF g] field_names_distinct [of g f]
    by (metis header_name_equal_def name_equal_map)
  with g show "field_of n = Some f" by simp
qed (rule field_of_Some)

lemma occurrences_snoc:
  "occurrences f (hs @ [(n, v)]) = occurrences f hs @ (if field_of n = Some f then [cstr v] else [])"
  by (simp add: occurrences_def field_of_iff)

lemma field_bit_inj [simp]: "field_bit f = field_bit g \<longleftrightarrow> f = g"
  by (cases f; cases g) simp_all

lemma field_bit_less: "field_bit f < 8"
  by (cases f) simp_all

lemma field_mask_bit: "bit (field_mask f) i \<longleftrightarrow> i = field_bit f"
  using field_bit_less [of f] by (auto simp: field_mask_def bit_exp_iff)

lemma mask_tests:
  "m AND field_mask f = 0 \<longleftrightarrow> \<not> bit m (field_bit f)"
  "bit (m OR field_mask f) (field_bit g) \<longleftrightarrow> bit m (field_bit g) \<or> g = f"
  by (simp add: field_mask_def flip: and_exp_eq_0_iff_not_bit)
     (auto simp: bit_or_iff field_mask_bit)

lemma set_field_simps [simp]:
  "get_field g (set_field f v c) = (if g = f then v else get_field g c)"
  "seen_mask (set_field f v c) = seen_mask c" "invalid (set_field f v c) = invalid c"
  "get_field g (c\<lparr>seen_mask := m\<rparr>) = get_field g c" "get_field g (c\<lparr>invalid := b\<rparr>) = get_field g c"
  by (cases f; cases g; simp)+

lemma take_cstr: "take (length (cstr v)) v = cstr v"
  unfolding cstr_def by (metis takeWhile_eq_take)

definition capture_inv :: "(string \<times> string) list \<Rightarrow> pm_http_response_capture \<Rightarrow> bool" where
  "capture_inv hs c \<longleftrightarrow> invalid c = (\<not> (\<forall>f. once_or_never f (occurrences f hs))) \<and>
     (\<not> invalid c \<longrightarrow> (\<forall>f. bit (seen_mask c) (field_bit f) = (occurrences f hs \<noteq> []) \<and>
        get_field f c = concat (occurrences f hs)))"

lemma capture_inv_step:
  assumes inv: "capture_inv hs c"
  shows "capture_inv (hs @ [(n, v)]) (snd (pm_http_response_capture_header c (Some n) (Some v)))"
proof (cases "invalid c")
  case True
  then obtain f where "\<not> once_or_never f (occurrences f hs)" using inv by (auto simp: capture_inv_def)
  then have "\<not> once_or_never f (occurrences f (hs @ [(n, v)]))"
    by (auto simp: once_or_never_def occurrences_snoc)
  with True show ?thesis by (auto simp: capture_inv_def pm_http_response_capture_header_def)
next
  case ok: False
  note all = inv [unfolded capture_inv_def]
  show ?thesis
  proof (cases "field_of n")
    case None
    with ok inv show ?thesis
      by (simp add: capture_inv_def pm_http_response_capture_header_def occurrences_snoc)
  next
    case (Some f)
    let ?vs = "occurrences f hs"
    have step: "once_or_never f (?vs @ [cstr v]) \<longleftrightarrow> ?vs = [] \<and> well_sized f (cstr v)"
      by (cases ?vs) (auto simp: once_or_never_def)
    have len: "bounded_value_length v (field_capacity f) = 0 \<or>
        bounded_value_length v (field_capacity f) \<ge> field_capacity f \<longleftrightarrow> \<not> well_sized f (cstr v)"
      by (cases f) (auto simp: bounded_value_length_def well_sized_def)
    have seen: "seen_mask c AND field_mask f \<noteq> 0 \<longleftrightarrow> ?vs \<noteq> []"
      using all ok by (auto simp: mask_tests)
    show ?thesis
    proof (cases "?vs = [] \<and> well_sized f (cstr v)")
      case True
      then have "bounded_value_length v (field_capacity f) = length (cstr v)"
        by (simp add: bounded_value_length_def well_sized_def)
      then have h: "snd (pm_http_response_capture_header c (Some n) (Some v)) =
          set_field f (cstr v) (c\<lparr>seen_mask := seen_mask c OR field_mask f\<rparr>)"
        using True ok Some len seen by (auto simp: pm_http_response_capture_header_def Let_def take_cstr)
      show ?thesis
        unfolding h capture_inv_def
        using all ok True step Some by (auto simp: occurrences_snoc mask_tests)
    next
      case False
      then have h: "snd (pm_http_response_capture_header c (Some n) (Some v)) = set_field f [] (c\<lparr>invalid := True\<rparr>)"
        using ok Some len seen by (auto simp: pm_http_response_capture_header_def Let_def)
      have "\<not> once_or_never f (occurrences f (hs @ [(n, v)]))"
        using False step Some by (simp add: occurrences_snoc)
      then show ?thesis unfolding h capture_inv_def by auto
    qed
  qed
qed

lemma capture_inv_all: "capture_inv hs (capture_all hs)"
proof (induction hs rule: rev_induct)
  case Nil
  have "get_field f pm_http_response_capture_init = []" for f
    by (cases f) (simp_all add: pm_http_response_capture_init_def)
  then show ?case
    by (simp add: capture_all_def capture_inv_def occurrences_def once_or_never_def)
       (simp add: pm_http_response_capture_init_def)
next
  case (snoc h hs)
  then show ?case using capture_inv_step [of hs "capture_all hs" "fst h" "snd h"]
    by (cases h) (simp add: capture_all_def)
qed

lemma and_mask_iff: "m AND r = r \<longleftrightarrow> (\<forall>i. bit r i \<longrightarrow> bit m i)" for m r :: u8
proof
  assume e: "m AND r = r"
  have "bit (m AND r) i = bit r i" for i by (simp only: e)
  then show "\<forall>i. bit r i \<longrightarrow> bit m i" unfolding bit_and_iff by blast
next
  assume "\<forall>i. bit r i \<longrightarrow> bit m i"
  then show "m AND r = r" by (intro bit_word_eqI) (auto simp: bit_and_iff)
qed

lemma required_bits: "bit PM_HTTP_REQUIRED_AUTH_MASK i \<longleftrightarrow> (\<exists>f. f \<noteq> PM_HTTP_SEEN_ETAG \<and> i = field_bit f)"
proof
  assume "bit PM_HTTP_REQUIRED_AUTH_MASK i"
  then show "\<exists>f. f \<noteq> PM_HTTP_SEEN_ETAG \<and> i = field_bit f"
    unfolding PM_HTTP_REQUIRED_AUTH_MASK_def bit_or_iff field_mask_bit by fastforce
next
  assume "\<exists>f. f \<noteq> PM_HTTP_SEEN_ETAG \<and> i = field_bit f"
  then obtain f where "f \<noteq> PM_HTTP_SEEN_ETAG" "i = field_bit f" by blast
  then show "bit PM_HTTP_REQUIRED_AUTH_MASK i"
    unfolding PM_HTTP_REQUIRED_AUTH_MASK_def bit_or_iff field_mask_bit by (cases f) simp_all
qed

lemma required_mask:
  "m AND PM_HTTP_REQUIRED_AUTH_MASK = PM_HTTP_REQUIRED_AUTH_MASK \<longleftrightarrow>
     (\<forall>f. f \<noteq> PM_HTTP_SEEN_ETAG \<longrightarrow> bit m (field_bit f))"
  "m AND (PM_HTTP_REQUIRED_AUTH_MASK OR field_mask PM_HTTP_SEEN_ETAG) =
     (PM_HTTP_REQUIRED_AUTH_MASK OR field_mask PM_HTTP_SEEN_ETAG) \<longleftrightarrow> (\<forall>f. bit m (field_bit f))"
proof -
  show "m AND PM_HTTP_REQUIRED_AUTH_MASK = PM_HTTP_REQUIRED_AUTH_MASK \<longleftrightarrow>
     (\<forall>f. f \<noteq> PM_HTTP_SEEN_ETAG \<longrightarrow> bit m (field_bit f))"
    unfolding and_mask_iff required_bits by auto
  have "bit (PM_HTTP_REQUIRED_AUTH_MASK OR field_mask PM_HTTP_SEEN_ETAG) i \<longleftrightarrow> (\<exists>f. i = field_bit f)" for i
    unfolding bit_or_iff required_bits field_mask_bit by (auto simp del: field_bit.simps)
  then show "m AND (PM_HTTP_REQUIRED_AUTH_MASK OR field_mask PM_HTTP_SEEN_ETAG) =
     (PM_HTTP_REQUIRED_AUTH_MASK OR field_mask PM_HTTP_SEEN_ETAG) \<longleftrightarrow> (\<forall>f. bit m (field_bit f))"
    unfolding and_mask_iff by auto
qed

text \<open>
  Header collection takes exactly what is unambiguous: after any list of headers, in any order and
  with names in any case, validation succeeds exactly when every authentication header (and the
  ETag, when it is required) occurs once, none occurs twice, and every one is neither empty nor too
  long for its buffer; and then each collected value is the value of that one header.
\<close>

theorem response_headers_exact:
  "(pm_http_response_capture_validate (capture_all hs) require_etag = ESP_OK) =
     ((\<forall>f. once_or_never f (occurrences f hs)) \<and>
      (\<forall>f. f \<noteq> PM_HTTP_SEEN_ETAG \<or> require_etag \<longrightarrow> occurrences f hs \<noteq> [])) \<and>
   (pm_http_response_capture_validate (capture_all hs) require_etag = ESP_OK \<longrightarrow>
      (\<forall>f. get_field f (capture_all hs) = concat (occurrences f hs)))"
proof -
  let ?c = "capture_all hs"
  have inv: "invalid ?c = (\<not> (\<forall>f. once_or_never f (occurrences f hs)))"
    "\<not> invalid ?c \<Longrightarrow> (\<forall>f. bit (seen_mask ?c) (field_bit f) = (occurrences f hs \<noteq> []) \<and>
        get_field f ?c = concat (occurrences f hs))"
    using capture_inv_all [of hs] by (auto simp: capture_inv_def)
  have v: "pm_http_response_capture_validate ?c require_etag = ESP_OK \<longleftrightarrow>
      \<not> invalid ?c \<and> (\<forall>f. f \<noteq> PM_HTTP_SEEN_ETAG \<or> require_etag \<longrightarrow> bit (seen_mask ?c) (field_bit f))"
    by (cases require_etag) (auto simp: pm_http_response_capture_validate_def required_mask)
  show ?thesis unfolding v using inv by blast
qed

theorem response_headers_exact_witness:
  "let hs = [(''x-pm-protocol'', ''pm-protocol/1.0.0''), (''X-PM-DEVICE-ID'', ''d''), (''Date'', ''now''),
         (''X-PM-Timestamp'', ''17''), (''X-PM-Nonce'', ''n''), (''X-PM-Content-SHA256'', ''s''), (''X-PM-Signature'', ''g'')] in
   pm_http_response_capture_validate (capture_all hs) False = ESP_OK \<and>
   get_field PM_HTTP_SEEN_NONCE (capture_all hs) = concat (occurrences PM_HTTP_SEEN_NONCE hs)"
proof -
  let ?hs = "[(''x-pm-protocol'', ''pm-protocol/1.0.0''), (''X-PM-DEVICE-ID'', ''d''), (''Date'', ''now''),
         (''X-PM-Timestamp'', ''17''), (''X-PM-Nonce'', ''n''), (''X-PM-Content-SHA256'', ''s''), (''X-PM-Signature'', ''g'')]"
  have "pm_http_response_capture_validate (capture_all ?hs) False = ESP_OK" by code_simp
  then show ?thesis using response_headers_exact [of ?hs False] by (simp only: Let_def) blast
qed

end
