(* ===== verification/PM_Ota.thy ===== *)
theory PM_Ota
  imports PM_Ota_Manifest PM_Http_Response PM_Nvs PM_Crc
begin

text \<open>
  The installation half of components/pm_ota/pm_ota.c: the checkpoint kept in two NVS slots, the
  download of an image, its verification, the choice of the boot partition, the check after the
  first boot and the cancellation of a pending boot.

  The platform is the state \<open>ota_world\<close>: the checkpoint namespace, the partition selected for the
  next boot, the bytes written to the update partition, and \<open>w_outcomes\<close>, the results of the coming
  calls of \<open>esp_ota_*\<close>, \<open>esp_http_client_*\<close> and \<open>psa_hash_*\<close> in order, with the convention of PM_Nvs: a call
  past the end succeeds. A failed call leaves the state alone. What the server and the rest of
  the platform answer is the record \<open>ota_peer\<close>: the partition to update, the events of the response,
  its length, status and body as the sequence of results of \<open>esp_http_client_read\<close> (the end of the list
  is a closed connection; a read delivers at most the 4096 bytes of the buffer), the
  description stored in an image, the clock. Every iteration of the download loop takes one
  element of the list, so recursion on it is the loop.
\<close>

subsection \<open>Checkpoints\<close>

datatype pm_ota_stage =
    PM_OTA_IDLE | PM_OTA_MANIFEST_VERIFIED | PM_OTA_DOWNLOADING | PM_OTA_IMAGE_VERIFIED | PM_OTA_BOOT_SELECTED
  | PM_OTA_PENDING_VERIFY | PM_OTA_VALID | PM_OTA_ROLLED_BACK | PM_OTA_FAILED | PM_OTA_STAGE_RAW u32

fun ota_stage_code :: "pm_ota_stage \<Rightarrow> u32" where
  "ota_stage_code PM_OTA_IDLE = 0"
| "ota_stage_code PM_OTA_MANIFEST_VERIFIED = 1"
| "ota_stage_code PM_OTA_DOWNLOADING = 2"
| "ota_stage_code PM_OTA_IMAGE_VERIFIED = 3"
| "ota_stage_code PM_OTA_BOOT_SELECTED = 4"
| "ota_stage_code PM_OTA_PENDING_VERIFY = 5"
| "ota_stage_code PM_OTA_VALID = 6"
| "ota_stage_code PM_OTA_ROLLED_BACK = 7"
| "ota_stage_code PM_OTA_FAILED = 8"
| "ota_stage_code (PM_OTA_STAGE_RAW c) = c"

record pm_ota_checkpoint =
  ck_stage :: pm_ota_stage
  ck_bytes_written :: u32
  ck_image_size :: u32
  ck_image_sha256 :: "u8 list"
  ck_generation :: u32
  ck_last_error :: u32
  ck_crc32 :: u32

definition zero_ota_checkpoint :: pm_ota_checkpoint where
  "zero_ota_checkpoint = \<lparr>ck_stage = PM_OTA_IDLE, ck_bytes_written = 0, ck_image_size = 0,
     ck_image_sha256 = replicate 32 0, ck_generation = 0, ck_last_error = 0, ck_crc32 = 0\<rparr>"

definition ota_checkpoint_crc :: "pm_ota_checkpoint \<Rightarrow> u32" where
  "ota_checkpoint_crc c = pm_crc32_ieee
     (le_bytes 4 (ota_stage_code (ck_stage c)) @ le_bytes 4 (ck_bytes_written c) @ le_bytes 4 (ck_image_size c) @
      ck_image_sha256 c @ le_bytes 4 (ck_generation c) @ le_bytes 4 (ck_last_error c))"

definition ota_checkpoint_valid :: "pm_ota_checkpoint \<Rightarrow> bool" where
  "ota_checkpoint_valid c \<longleftrightarrow> ota_stage_code (ck_stage c) \<le> 8 \<and> ck_bytes_written c \<le> ck_image_size c \<and>
     ck_crc32 c = ota_checkpoint_crc c"

definition read_checkpoint ::
    "string \<Rightarrow> pm_ota_checkpoint nvs \<Rightarrow> (esp_err + pm_ota_checkpoint) \<times> pm_ota_checkpoint nvs" where
  "read_checkpoint key n =
     (case nvs_get_blob key n of (r, n') \<Rightarrow>
        (case r of
           Read_Err e \<Rightarrow> Inl e
         | Read_Short _ _ \<Rightarrow> Inl ESP_ERR_INVALID_CRC
         | Read_Full c \<Rightarrow> if ota_checkpoint_valid c then Inr c else Inl ESP_ERR_INVALID_CRC, n'))"

definition seal_ota_checkpoint :: "pm_ota_checkpoint \<Rightarrow> pm_ota_checkpoint" where
  "seal_ota_checkpoint c = (let c' = c\<lparr>ck_generation := ck_generation c + 1\<rparr> in c'\<lparr>ck_crc32 := ota_checkpoint_crc c'\<rparr>)"

definition persist_checkpoint ::
    "pm_ota_checkpoint \<Rightarrow> pm_ota_checkpoint nvs \<Rightarrow> esp_err \<times> pm_ota_checkpoint \<times> pm_ota_checkpoint nvs" where
  "persist_checkpoint c n0 =
     (if ck_generation c = - 1 then (ESP_ERR_INVALID_STATE, c, n0)
      else let candidate = seal_ota_checkpoint c;
               key = ab_key (ck_generation candidate);
               (e1, n1) = ab_store key candidate n0
        in if e1 \<noteq> ESP_OK then (e1, c, n1)
           else let (r, n2) = read_checkpoint key n1 in
             case r of
               Inl e \<Rightarrow> (e, c, n2)
             | Inr verified \<Rightarrow> if verified \<noteq> candidate then (ESP_ERR_INVALID_STATE, c, n2)
                               else (ESP_OK, candidate, n2))"

text \<open>The caller's object is read only after \<open>ESP_OK\<close>.\<close>

definition pm_ota_load_checkpoint ::
    "pm_ota_checkpoint nvs \<Rightarrow> (esp_err + pm_ota_checkpoint) \<times> pm_ota_checkpoint nvs" where
  "pm_ota_load_checkpoint n0 =
     (let (e, n1) = nvs_open n0 in
      if e \<noteq> ESP_OK then (Inl e, n1)
      else let (ra, n2) = read_checkpoint ''slot_a'' n1;
               (rb, n3) = read_checkpoint ''slot_b'' n2
        in case (ra, rb) of
             (Inl ea, Inl eb) \<Rightarrow>
               if ea \<noteq> ESP_ERR_NVS_NOT_FOUND \<or> eb \<noteq> ESP_ERR_NVS_NOT_FOUND
               then (Inl (if ea \<noteq> ESP_ERR_NVS_NOT_FOUND then ea else eb), n3)
               else (case persist_checkpoint zero_ota_checkpoint n3 of (e2, c, n4) \<Rightarrow>
                       (if e2 = ESP_OK then Inr c else Inl e2, n4))
           | (Inr a, Inl eb) \<Rightarrow> (if eb \<noteq> ESP_ERR_NVS_NOT_FOUND then Inl eb else Inr a, n3)
           | (Inl ea, Inr b) \<Rightarrow> (if ea \<noteq> ESP_ERR_NVS_NOT_FOUND then Inl ea else Inr b, n3)
           | (Inr a, Inr b) \<Rightarrow>
               (if ck_generation a = ck_generation b \<and> a \<noteq> b then Inl ESP_ERR_INVALID_STATE
                else Inr (if ck_generation a \<ge> ck_generation b then a else b), n3))"

subsection \<open>The platform\<close>

definition PM_OTA_BUFFER_SIZE :: nat where "PM_OTA_BUFFER_SIZE = 4096"

record partition =
  part_id :: nat
  part_size :: u32

datatype img_state = ESP_OTA_IMG_NEW | ESP_OTA_IMG_PENDING_VERIFY | ESP_OTA_IMG_VALID | ESP_OTA_IMG_INVALID
  | ESP_OTA_IMG_ABORTED | ESP_OTA_IMG_UNDEFINED

record ota_world =
  w_nvs :: "pm_ota_checkpoint nvs"
  w_outcomes :: "esp_err list"
  w_boot :: nat
  w_flash :: "u8 list"
  w_ota_open :: bool
  w_request :: "(string \<times> string) list"
  w_reports :: "(u8 \<times> pm_ota_stage) list"
  w_image_state :: img_state
  w_rebooting :: bool

datatype http_event = HTTP_EVENT_ON_HEADER "string option" "string option" | HTTP_EVENT_OTHER

datatype http_read = Received "u8 list" | Read_Failed

record ota_peer =
  next_partition :: "partition option"
  running_partition :: "nat option"
  running_version :: "string option"
  request_nonce :: "u8 list"
  client_created :: bool
  events :: "http_event list"
  content_length :: int
  status_code :: int
  body_reads :: "http_read list"
  buffer_available :: bool
  hash_setup_ok :: bool
  data_complete :: bool
  elapsed_us :: int
  description :: "u8 list \<Rightarrow> esp_err + (string \<times> string)"

definition ota_tick :: "ota_world \<Rightarrow> esp_err \<times> ota_world" where
  "ota_tick w = (case w_outcomes w of [] \<Rightarrow> (ESP_OK, w) | e # es \<Rightarrow> (e, w\<lparr>w_outcomes := es\<rparr>))"

text \<open>A call that applies \<open>f\<close> to the platform when it succeeds.\<close>

definition ota_call :: "(ota_world \<Rightarrow> ota_world) \<Rightarrow> ota_world \<Rightarrow> esp_err \<times> ota_world" where
  "ota_call f w = (case ota_tick w of (e, w') \<Rightarrow> (e, if e = ESP_OK then f w' else w'))"

definition esp_ota_begin :: "ota_world \<Rightarrow> esp_err \<times> ota_world" where
  "esp_ota_begin = ota_call (\<lambda>w. w\<lparr>w_flash := [], w_ota_open := True\<rparr>)"

definition esp_ota_write :: "u8 list \<Rightarrow> ota_world \<Rightarrow> esp_err \<times> ota_world" where
  "esp_ota_write bytes = ota_call (\<lambda>w. w\<lparr>w_flash := w_flash w @ bytes\<rparr>)"

definition esp_ota_end :: "ota_world \<Rightarrow> esp_err \<times> ota_world" where
  "esp_ota_end w = (case ota_tick w of (e, w') \<Rightarrow> (e, w'\<lparr>w_ota_open := False\<rparr>))"

definition esp_ota_abort :: "ota_world \<Rightarrow> ota_world" where
  "esp_ota_abort w = (snd (ota_tick w))\<lparr>w_ota_open := False\<rparr>"

definition esp_ota_set_boot_partition :: "nat \<Rightarrow> ota_world \<Rightarrow> esp_err \<times> ota_world" where
  "esp_ota_set_boot_partition p = ota_call (\<lambda>w. w\<lparr>w_boot := p\<rparr>)"

definition esp_http_client_set_header :: "string \<Rightarrow> string \<Rightarrow> ota_world \<Rightarrow> esp_err \<times> ota_world" where
  "esp_http_client_set_header name v = ota_call (\<lambda>w. w\<lparr>w_request := w_request w @ [(name, v)]\<rparr>)"

definition persist_in :: "pm_ota_checkpoint \<Rightarrow> ota_world \<Rightarrow> esp_err \<times> pm_ota_checkpoint \<times> ota_world" where
  "persist_in c w = (case persist_checkpoint c (w_nvs w) of (e, c', n) \<Rightarrow> (e, c', w\<lparr>w_nvs := n\<rparr>))"

definition report :: "u8 \<Rightarrow> pm_ota_stage \<Rightarrow> ota_world \<Rightarrow> ota_world" where
  "report percent stage w = w\<lparr>w_reports := w_reports w @ [(percent, stage)]\<rparr>"

fun capture_response_header_event ::
    "pm_http_response_capture \<Rightarrow> http_event \<Rightarrow> pm_http_response_capture" where
  "capture_response_header_event c (HTTP_EVENT_ON_HEADER k v) = snd (pm_http_response_capture_header c k v)"
| "capture_response_header_event c HTTP_EVENT_OTHER = c"

subsection \<open>Installation\<close>

definition request_headers :: "pm_auth_headers \<Rightarrow> (string \<times> string) list" where
  "request_headers h = [(''Accept'', ''application/octet-stream''), (''X-PM-Protocol'', protocol h),
     (''X-PM-Device-ID'', hdr_device_id h), (''X-PM-Timestamp'', timestamp h), (''X-PM-Nonce'', nonce h),
     (''X-PM-Content-SHA256'', content_sha256 h), (''X-PM-Signature'', signature h)]"

definition send_request :: "pm_auth_headers \<Rightarrow> ota_world \<Rightarrow> esp_err \<times> ota_world" where
  "send_request h w =
     foldl (\<lambda>r (name, v). ok_then r (esp_http_client_set_header name v)) (ota_tick w) (request_headers h)"

definition download_percent :: "u32 \<Rightarrow> u32 \<Rightarrow> u8" where
  "download_percent written image_size = ucast ((ucast written :: u64) * 90 div ucast image_size)"

text \<open>The body of the download loop.\<close>

definition download_chunk ::
    "pm_ota_manifest \<Rightarrow> http_read \<Rightarrow> pm_ota_checkpoint \<Rightarrow> u8 list \<Rightarrow> ota_world \<Rightarrow>
      esp_err \<times> pm_ota_checkpoint \<times> u8 list \<times> ota_world" where
  "download_chunk m r c hashed w =
     (case r of
        Read_Failed \<Rightarrow> (ESP_ERR_HTTP_INCOMPLETE_DATA, c, hashed, w)
      | Received data \<Rightarrow>
        let bytes = take PM_OTA_BUFFER_SIZE data; received = of_nat (length bytes) :: u32 in
        if bytes = [] then (ESP_ERR_INVALID_SIZE, c, hashed, w)
        else if ck_bytes_written c + received > mf_image_size m then (ESP_ERR_HTTP_INCOMPLETE_DATA, c, hashed, w)
        else let (e1, w1) = ota_tick w in
          if e1 \<noteq> ESP_OK then (ESP_FAIL, c, hashed, w1)
          else let (e2, w2) = esp_ota_write bytes w1 in
            if e2 \<noteq> ESP_OK then (ESP_FAIL, c, hashed @ bytes, w2)
            else let c1 = c\<lparr>ck_bytes_written := ck_bytes_written c + received\<rparr>;
                     w3 = report (download_percent (ck_bytes_written c1) (mf_image_size m)) PM_OTA_DOWNLOADING w2
              in if ck_bytes_written c1 AND 0xFFFF < received
                 then (case persist_in c1 w3 of (e, c2, w4) \<Rightarrow> (e, c2, hashed @ bytes, w4))
                 else (ESP_OK, c1, hashed @ bytes, w3))"

fun download ::
    "pm_ota_manifest \<Rightarrow> http_read list \<Rightarrow> pm_ota_checkpoint \<Rightarrow> u8 list \<Rightarrow> ota_world \<Rightarrow>
      esp_err \<times> pm_ota_checkpoint \<times> u8 list \<times> ota_world" where
  "download m reads c hashed w =
     (if \<not> ck_bytes_written c < mf_image_size m then (ESP_OK, c, hashed, w)
      else case reads of
        [] \<Rightarrow> download_chunk m (Received []) c hashed w
      | r # rs \<Rightarrow>
          (case download_chunk m r c hashed w of (e, c', hashed', w') \<Rightarrow>
             if e \<noteq> ESP_OK then (e, c', hashed', w') else download m rs c' hashed' w'))"

declare download.simps [simp del]

text \<open>From the last byte to the choice of the boot partition.\<close>

definition select_boot ::
    "ota_peer \<Rightarrow> nat \<Rightarrow> pm_ota_checkpoint \<Rightarrow> ota_world \<Rightarrow> esp_err \<times> pm_ota_checkpoint \<times> ota_world" where
  "select_boot peer target c w0 =
     (let (e1, c1, w1) = persist_in (c\<lparr>ck_stage := PM_OTA_IMAGE_VERIFIED\<rparr>) w0 in
      if e1 \<noteq> ESP_OK then (e1, c1, w1)
      else let (e2, w2) = esp_ota_set_boot_partition target (report 95 (ck_stage c1) w1) in
        if e2 \<noteq> ESP_OK then (e2, c1, w2)
        else let (e3, c3, w3) = persist_in (c1\<lparr>ck_stage := PM_OTA_BOOT_SELECTED\<rparr>) w2 in
          if e3 = ESP_OK then (ESP_OK, c3, report 100 (ck_stage c3) w3)
          else (e3, c3, case running_partition peer of
                  None \<Rightarrow> w3
                | Some p \<Rightarrow> snd (esp_ota_set_boot_partition p w3)))"

definition image_matches :: "(esp_err + (string \<times> string)) \<Rightarrow> pm_ota_manifest \<Rightarrow> bool" where
  "image_matches d m \<longleftrightarrow>
     (case d of Inl _ \<Rightarrow> False
      | Inr (project, version) \<Rightarrow> cstr project = cstr (mf_project_name m) \<and> cstr version = cstr (mf_version m))"

definition verify_image ::
    "psa_hash \<Rightarrow> (string \<Rightarrow> u8 list option) \<Rightarrow> ota_peer \<Rightarrow> pm_ota_manifest \<Rightarrow> u8 list \<Rightarrow> int \<Rightarrow>
      pm_http_response_capture \<Rightarrow> u8 list \<Rightarrow> ota_world \<Rightarrow> esp_err \<times> ota_world" where
  "verify_image psa b64dec peer m server_key request_utc_ms capture hashed w =
     (case psa hashed of
        None \<Rightarrow> (ESP_ERR_INVALID_CRC, w)
      | Some digest \<Rightarrow>
        if length digest \<noteq> 32 \<or> \<not> pm_constant_time_equal digest (mf_image_sha256 m) 32 then (ESP_ERR_INVALID_CRC, w)
        else if \<not> data_complete peer then (ESP_ERR_HTTP_INCOMPLETE_DATA, w)
        else case pm_verify_response_digest psa b64dec server_key (mf_device_id m) (mf_download_path m) None
               (request_utc_ms + c_div (elapsed_us peer) 1000) (auth capture) (pm_hex_lower digest) empty_cache of
          (e, _) \<Rightarrow>
            if e \<noteq> ESP_OK then (e, w)
            else let (e1, w1) = esp_ota_end w in
              if e1 \<noteq> ESP_OK then (e1, w1)
              else if \<not> image_matches (description peer (w_flash w1)) m then (ESP_ERR_NOT_SUPPORTED, w1)
              else (ESP_OK, w1))"

text \<open>Everything between the creation of the HTTP client and the label \<open>cleanup\<close>.\<close>

definition transfer ::
    "psa_hash \<Rightarrow> (string \<Rightarrow> u8 list option) \<Rightarrow> ota_peer \<Rightarrow> pm_ota_manifest \<Rightarrow> u8 list \<Rightarrow> int \<Rightarrow> pm_auth_headers \<Rightarrow>
      nat \<Rightarrow> pm_ota_checkpoint \<Rightarrow> ota_world \<Rightarrow> esp_err \<times> pm_ota_checkpoint \<times> ota_world" where
  "transfer psa b64dec peer m server_key request_utc_ms request_auth target c w0 =
     (let (e1, w1) = send_request request_auth w0 in
      if e1 \<noteq> ESP_OK then (e1, c, w1)
      else let (e2, w2) = ota_tick w1 in
        if e2 \<noteq> ESP_OK then (e2, c, w2)
        else if content_length peer \<noteq> int (unat (mf_image_size m)) \<or> status_code peer \<noteq> 200
        then (ESP_ERR_INVALID_RESPONSE, c, w2)
        else let capture = foldl capture_response_header_event pm_http_response_capture_init (events peer) in
          if pm_http_response_capture_validate capture True \<noteq> ESP_OK \<or>
             cstr (etag capture) \<noteq> [CHR 0x22] @ pm_hex_lower (mf_image_sha256 m) @ [CHR 0x22]
          then (ESP_ERR_INVALID_RESPONSE, c, w2)
          else if \<not> buffer_available peer then (ESP_ERR_NO_MEM, c, w2)
          else if \<not> hash_setup_ok peer then (ESP_FAIL, c, w2)
          else let (e3, c3, w3) = persist_in (c\<lparr>ck_stage := PM_OTA_DOWNLOADING\<rparr>) w2 in
            if e3 \<noteq> ESP_OK then (e3, c3, w3)
            else let (e4, c4, hashed, w4) = download m (body_reads peer) c3 [] w3 in
              if e4 \<noteq> ESP_OK then (e4, c4, w4)
              else let (e5, w5) = verify_image psa b64dec peer m server_key request_utc_ms capture hashed w4 in
                if e5 \<noteq> ESP_OK then (e5, c4, w5) else select_boot peer target c4 w5)"

definition install_cleanup :: "esp_err \<times> pm_ota_checkpoint \<times> ota_world \<Rightarrow> esp_err \<times> ota_world" where
  "install_cleanup r =
     (case r of (e, c, w) \<Rightarrow>
        let w1 = (if w_ota_open w then esp_ota_abort w else w) in
        if e = ESP_OK then (ESP_OK, w1)
        else case persist_in (c\<lparr>ck_stage := PM_OTA_FAILED, ck_last_error := esp_err_code e\<rparr>) w1 of (e1, c1, w2) \<Rightarrow>
          (if e1 \<noteq> ESP_OK then e1 else e, report 0 PM_OTA_FAILED w2))"

definition initial_checkpoint :: "pm_ota_manifest \<Rightarrow> pm_ota_checkpoint" where
  "initial_checkpoint m = zero_ota_checkpoint\<lparr>ck_stage := PM_OTA_MANIFEST_VERIFIED, ck_image_size := mf_image_size m,
     ck_image_sha256 := mf_image_sha256 m\<rparr>"

definition pm_ota_install ::
    "psa_hash \<Rightarrow> (u8 list \<Rightarrow> string option) \<Rightarrow> (string \<Rightarrow> u8 list option) \<Rightarrow> ota_peer \<Rightarrow> pm_ota_manifest \<Rightarrow> string \<Rightarrow>
      u8 list \<Rightarrow> u8 list \<Rightarrow> int \<Rightarrow> ota_world \<Rightarrow> esp_err \<times> ota_world" where
  "pm_ota_install psa b64enc b64dec peer m ca_pem device_key server_key request_utc_ms w0 =
     (let e0 = pm_ota_verify_manifest psa (running_version peer) m server_key in
      if e0 \<noteq> ESP_OK then (e0, w0)
      else if cstr ca_pem = [] \<or> request_utc_ms < 1704067200000 then (ESP_ERR_INVALID_ARG, w0)
      else case pm_sign_request psa b64enc device_key (mf_device_id m) ''GET'' (mf_download_path m) None request_utc_ms
             (request_nonce peer) [] of
        Inl e \<Rightarrow> (e, w0)
      | Inr request_auth \<Rightarrow>
        let (e1, c1, w1) = persist_in (initial_checkpoint m) w0 in
        if e1 \<noteq> ESP_OK then (e1, w1)
        else let w2 = report 0 (ck_stage c1) w1 in
          (case next_partition peer of
             None \<Rightarrow> (ESP_ERR_INVALID_SIZE, w2)
           | Some p \<Rightarrow>
             if mf_image_size m > part_size p then (ESP_ERR_INVALID_SIZE, w2)
             else let (e3, w3) = esp_ota_begin w2 in
               if e3 \<noteq> ESP_OK then (e3, w3)
               else if \<not> client_created peer then (ESP_ERR_NO_MEM, esp_ota_abort w3)
               else install_cleanup
                 (transfer psa b64dec peer m server_key request_utc_ms request_auth (part_id p) c1
                   (w3\<lparr>w_request := []\<rparr>))))"

subsection \<open>After the first boot\<close>

definition checkpoint_stage_change ::
    "pm_ota_stage \<Rightarrow> u32 \<Rightarrow> ota_world \<Rightarrow> esp_err \<times> ota_world" where
  "checkpoint_stage_change stage err w =
     (case pm_ota_load_checkpoint (w_nvs w) of (r, n) \<Rightarrow>
        (case r of
           Inl e \<Rightarrow> (e, w\<lparr>w_nvs := n\<rparr>)
         | Inr c \<Rightarrow>
             (case persist_in (c\<lparr>ck_stage := stage, ck_last_error := err\<rparr>) (w\<lparr>w_nvs := n\<rparr>) of (e, c', w') \<Rightarrow> (e, w'))))"

definition esp_ota_mark_app_valid_cancel_rollback :: "ota_world \<Rightarrow> esp_err \<times> ota_world" where
  "esp_ota_mark_app_valid_cancel_rollback = ota_call (\<lambda>w. w\<lparr>w_image_state := ESP_OTA_IMG_VALID\<rparr>)"

definition esp_ota_mark_app_invalid_rollback_and_reboot :: "ota_world \<Rightarrow> esp_err \<times> ota_world" where
  "esp_ota_mark_app_invalid_rollback_and_reboot =
     ota_call (\<lambda>w. w\<lparr>w_image_state := ESP_OTA_IMG_INVALID, w_rebooting := True\<rparr>)"

definition pm_ota_post_boot_validate ::
    "bool \<Rightarrow> bool \<Rightarrow> bool \<Rightarrow> bool \<Rightarrow> bool \<Rightarrow> ota_world \<Rightarrow> esp_err \<times> ota_world" where
  "pm_ota_post_boot_validate config_readable scheduler_running watchdog_running telemetry_runtime_ready
     network_retry_capable w0 =
     (let (e, w1) = ota_tick w0;
          state = (if e = ESP_OK then w_image_state w1 else ESP_OTA_IMG_UNDEFINED)
      in if e = ESP_ERR_NOT_FOUND \<or> state \<noteq> ESP_OTA_IMG_PENDING_VERIFY then (ESP_OK, w1)
         else if config_readable \<and> scheduler_running \<and> watchdog_running \<and> telemetry_runtime_ready \<and>
                 network_retry_capable
         then ok_then (checkpoint_stage_change PM_OTA_VALID 0 w1) esp_ota_mark_app_valid_cancel_rollback
         else ok_then (checkpoint_stage_change PM_OTA_ROLLED_BACK (esp_err_code ESP_ERR_INVALID_STATE) w1)
                esp_ota_mark_app_invalid_rollback_and_reboot)"

definition pm_ota_cancel_pending_boot :: "ota_peer \<Rightarrow> esp_err \<Rightarrow> ota_world \<Rightarrow> esp_err \<times> ota_world" where
  "pm_ota_cancel_pending_boot peer reason w =
     (case running_partition peer of
        None \<Rightarrow> (ESP_ERR_NOT_FOUND, w)
      | Some p \<Rightarrow>
          ok_then (esp_ota_set_boot_partition p w)
            (checkpoint_stage_change PM_OTA_FAILED
               (esp_err_code (if reason = ESP_OK then ESP_ERR_INVALID_STATE else reason))))"

subsection \<open>Checkpoints survive\<close>

lemma ota_checkpoint_crc_update [simp]: "ota_checkpoint_crc (c\<lparr>ck_crc32 := x\<rparr>) = ota_checkpoint_crc c"
  by (simp add: ota_checkpoint_crc_def)

lemma seal_ota_checkpoint_simps [simp]:
  "ck_stage (seal_ota_checkpoint c) = ck_stage c" "ck_bytes_written (seal_ota_checkpoint c) = ck_bytes_written c"
  "ck_image_size (seal_ota_checkpoint c) = ck_image_size c"
  "ck_generation (seal_ota_checkpoint c) = ck_generation c + 1"
  by (simp_all add: seal_ota_checkpoint_def Let_def)

definition ota_checkpoint_wf :: "pm_ota_checkpoint \<Rightarrow> bool" where
  "ota_checkpoint_wf c \<longleftrightarrow> ota_stage_code (ck_stage c) \<le> 8 \<and> ck_bytes_written c \<le> ck_image_size c"

interpretation ota: ab_slots ck_generation ota_checkpoint_valid seal_ota_checkpoint ota_checkpoint_wf
  by unfold_locales (simp_all add: ota_checkpoint_valid_def ota_checkpoint_wf_def, simp add: seal_ota_checkpoint_def Let_def)

lemma seal_ota_wf: "ota_checkpoint_wf (seal_ota_checkpoint c) = ota_checkpoint_wf c"
  by (simp add: ota_checkpoint_wf_def)

text \<open>
  Storage a boot can work with: each slot is absent or holds a valid checkpoint of its own
  parity; \<open>ota_room\<close> says that the writer of \<open>c\<close> is at most one generation behind.
\<close>

definition ota_slot_ok :: "string \<Rightarrow> pm_ota_checkpoint nvs \<Rightarrow> bool" where
  "ota_slot_ok k n \<longleftrightarrow> (blobs n k = None \<or>
     (\<exists>c. blobs n k = Some (Blob c) \<and> ota_checkpoint_valid c \<and> ab_key (ck_generation c) = k))"

definition ota_slots_ok :: "pm_ota_checkpoint nvs \<Rightarrow> bool" where
  "ota_slots_ok n \<longleftrightarrow> ota_slot_ok ''slot_a'' n \<and> ota_slot_ok ''slot_b'' n"

definition newest_ota :: "pm_ota_checkpoint nvs \<Rightarrow> pm_ota_checkpoint option" where
  "newest_ota n = ab_newest ck_generation ota_checkpoint_valid (blobs n)"

definition ota_room :: "u32 \<Rightarrow> pm_ota_checkpoint nvs \<Rightarrow> bool" where
  "ota_room g n \<longleftrightarrow> (\<forall>x. newest_ota n = Some x \<longrightarrow> unat (ck_generation x) \<le> Suc (unat g))"

lemma ota_paced:
  assumes "ota_slots_ok n" "ota_room g n"
  shows "ab_paced ck_generation ota_checkpoint_valid g (blobs n)"
  unfolding ab_paced_def
proof (intro allI impI)
  fix k y assume k: "k = ''slot_a'' \<or> k = ''slot_b''" and y: "blobs n k = Some (Blob y)" "ota_checkpoint_valid y"
  have "ab_key (ck_generation y) = k" using assms(1) k y by (auto simp: ota_slots_ok_def ota_slot_ok_def)
  moreover obtain x where x: "newest_ota n = Some x"
    using k y by (fastforce simp: newest_ota_def ab_newest_def ab_slot_def split: option.splits blob.splits if_splits)
  moreover have "ck_generation y \<le> ck_generation x"
    using ota.newest_max [OF x [unfolded newest_ota_def] y(1) k y(2)] .
  ultimately show "ab_key (ck_generation y) = k \<and> unat (ck_generation y) \<le> Suc (unat g)"
    using assms(2) unfolding ota_room_def by (simp add: word_le_nat_alt)
qed

lemma read_checkpoint_store:
  "read_checkpoint k n = (r, n') \<Longrightarrow> blobs n' = blobs n \<and> u8s n' = u8s n"
  unfolding read_checkpoint_def by (auto split: prod.splits dest: nvs_read_eq(3))

lemma read_checkpoint_ok: "fst (read_checkpoint k n) = Inr c \<Longrightarrow> blobs n k = Some (Blob c) \<and> ota_checkpoint_valid c"
  unfolding read_checkpoint_def
  using nvs_get_blob_ok [of k n] by (auto split: prod.splits blob_read.splits if_splits)

lemma read_checkpoint_not_ok: "fst (read_checkpoint k n) \<noteq> Inl ESP_OK"
  by (auto simp: read_checkpoint_def nvs_get_blob_def split: prod.splits blob_read.splits if_splits option.splits blob.splits)

text \<open>Either nothing was written, or the sealed checkpoint is in its slot.\<close>

lemma persist_checkpoint_cases:
  assumes "persist_checkpoint c n = (e, c', n')"
  shows "u8s n' = u8s n \<and>
    (if e = ESP_OK then c' = seal_ota_checkpoint c \<and> ck_generation c \<noteq> - 1 \<and>
         blobs n' = (blobs n)(ab_key (ck_generation c + 1) \<mapsto> Blob (seal_ota_checkpoint c))
     else c' = c \<and> (blobs n' = blobs n \<or> ck_generation c \<noteq> - 1 \<and>
         blobs n' = (blobs n)(ab_key (ck_generation c + 1) \<mapsto> Blob (seal_ota_checkpoint c))))"
proof (cases "ck_generation c = - 1")
  case True
  with assms show ?thesis by (auto simp: persist_checkpoint_def)
next
  case False
  let ?k = "ab_key (ck_generation c + 1)"
  obtain e1 n1 where s: "ab_store ?k (seal_ota_checkpoint c) n = (e1, n1)" by fastforce
  obtain r n2 where rd: "read_checkpoint ?k n1 = (r, n2)" by fastforce
  note st = ab_store_cases [OF s] and rs = read_checkpoint_store [OF rd]
  have nok: "r \<noteq> Inl ESP_OK" using read_checkpoint_not_ok [of ?k n1] by (simp add: rd)
  show ?thesis
    using assms False s rd st rs nok unfolding persist_checkpoint_def Let_def
    by (cases "e1 = ESP_OK") (auto split: sum.splits if_splits)
qed

lemma persist_checkpoint_storage:
  assumes p: "persist_checkpoint c n = (e, c', n')" and ok: "ota_slots_ok n" "ota_room (ck_generation c) n"
    and wf: "ota_checkpoint_wf c"
  shows "ota_slots_ok n' \<and> ota_room (ck_generation c') n' \<and>
    (if e = ESP_OK then c' = seal_ota_checkpoint c \<and> newest_ota n' = Some c'
     else c' = c \<and> (blobs n' = blobs n \<or> newest_ota n' = Some (seal_ota_checkpoint c)))"
proof -
  let ?s = "seal_ota_checkpoint c"
  have paced: "ab_paced ck_generation ota_checkpoint_valid (ck_generation c) (blobs n)" using ok by (rule ota_paced)
  have valid: "ota_checkpoint_valid ?s" using wf by (rule ota.ok_seal)
  have written: "ota_slots_ok n' \<and> newest_ota n' = Some ?s \<and> ota_room (ck_generation c) n' \<and> ota_room (ck_generation c + 1) n'"
    if g: "ck_generation c \<noteq> - 1" and b: "blobs n' = (blobs n)(ab_key (ck_generation c + 1) \<mapsto> Blob ?s)"
  proof -
    have new: "newest_ota n' = Some ?s"
      using ota.paced_write(1) [OF paced g wf] by (simp add: newest_ota_def b)
    moreover have "ota_slots_ok n'"
      using ok(1) valid ab_key_cases [of "ck_generation c + 1"] by (auto simp: ota_slots_ok_def ota_slot_ok_def b)
    ultimately show ?thesis using g by (simp add: ota_room_def unat_Suc_word)
  qed
  from persist_checkpoint_cases [OF p] show ?thesis
  proof (cases "e = ESP_OK")
    case True
    with persist_checkpoint_cases [OF p] written show ?thesis by auto
  next
    case False
    have same: "blobs n' = blobs n \<Longrightarrow> ota_slots_ok n' \<and> ota_room (ck_generation c) n'"
      using ok by (simp add: ota_slots_ok_def ota_slot_ok_def ota_room_def newest_ota_def)
    from False persist_checkpoint_cases [OF p] written same show ?thesis by auto
  qed
qed

lemma read_checkpoint_fault_free:
  assumes "faults n = []" "ota_slot_ok k n"
  shows "read_checkpoint k n = (case ab_slot ota_checkpoint_valid (blobs n k) of
     None \<Rightarrow> Inl ESP_ERR_NVS_NOT_FOUND | Some c \<Rightarrow> Inr c, n)"
  using assms by (auto simp: read_checkpoint_def nvs_fault_free ota_slot_ok_def ab_slot_def)

lemma load_checkpoint_newest:
  assumes "faults n = []" "ota_slots_ok n" "newest_ota n = Some c"
  shows "pm_ota_load_checkpoint n = (Inr c, n)"
proof -
  have "\<exists>a. blobs n k = Some (Blob a) \<and> ab_key (ck_generation a) = k"
    if "ab_slot ota_checkpoint_valid (blobs n k) \<noteq> None" "k = ''slot_a'' \<or> k = ''slot_b''" for k
    using that assms(2) by (auto simp: ota_slots_ok_def ota_slot_ok_def ab_slot_def)
  note key = this
  have ne: "ck_generation a \<noteq> ck_generation b"
    if "ab_slot ota_checkpoint_valid (blobs n ''slot_a'') = Some a" "ab_slot ota_checkpoint_valid (blobs n ''slot_b'') = Some b"
    for a b
    using that key [of "''slot_a''"] key [of "''slot_b''"] by (auto simp: ab_slot_def split: if_splits)
  have rd: "read_checkpoint k n = (case ab_slot ota_checkpoint_valid (blobs n k) of
     None \<Rightarrow> Inl ESP_ERR_NVS_NOT_FOUND | Some c \<Rightarrow> Inr c, n)" if "k = ''slot_a'' \<or> k = ''slot_b''" for k
    using assms(1,2) that by (intro read_checkpoint_fault_free) (auto simp: ota_slots_ok_def)
  show ?thesis
    using assms(3) ne
    unfolding pm_ota_load_checkpoint_def nvs_fault_free(1) [OF assms(1)] Let_def prod.case rd [OF disjI1 [OF refl]]
      rd [OF disjI2 [OF refl]] newest_ota_def ab_newest_def
    by (auto split: option.splits if_splits)
qed

lemma slots_ok_reboot [simp]: "ota_slots_ok (reboot n) = ota_slots_ok n" "newest_ota (reboot n) = newest_ota n"
  by (simp_all add: ota_slots_ok_def ota_slot_ok_def newest_ota_def)

text \<open>
  C11. For a caller whose checkpoint is at most one generation behind the newest stored one (\<open>ota_room\<close>, which holds after a load and is
  kept by every store), with each slot empty or holding a valid checkpoint of its parity: a checkpoint that \<open>persist_checkpoint\<close>
  reports as stored is what the next boot loads, with the caller's stage, progress and error; when it reports an error the caller's checkpoint is unchanged and
  the next boot finds what it would have found before, or the new checkpoint, never anything
  else, whatever calls of storage failed.
\<close>

theorem ota_checkpoint_durable:
  assumes "persist_checkpoint c n = (e, c', n')" "ota_slots_ok n" "ota_room (ck_generation c) n" "ota_checkpoint_wf c"
  shows "ota_slots_ok n' \<and> ota_room (ck_generation c') n' \<and>
    (if e = ESP_OK then pm_ota_load_checkpoint (reboot n') = (Inr c', reboot n') \<and>
         c' = c\<lparr>ck_generation := ck_generation c + 1, ck_crc32 := ck_crc32 c'\<rparr>
     else c' = c \<and> (pm_ota_load_checkpoint (reboot n') = pm_ota_load_checkpoint (reboot n) \<or>
                     pm_ota_load_checkpoint (reboot n') = (Inr (seal_ota_checkpoint c), reboot n')))"
proof -
  note st = persist_checkpoint_storage [OF assms]
  have load: "newest_ota n' = Some x \<Longrightarrow> pm_ota_load_checkpoint (reboot n') = (Inr x, reboot n')" for x
    using st by (intro load_checkpoint_newest) simp_all
  show ?thesis
  proof (cases "e = ESP_OK")
    case True
    have "seal_ota_checkpoint c = c\<lparr>ck_generation := ck_generation c + 1, ck_crc32 := ck_crc32 (seal_ota_checkpoint c)\<rparr>"
      by (simp add: seal_ota_checkpoint_def Let_def)
    with True st load show ?thesis by metis
  next
    case False
    have "blobs n' = blobs n \<Longrightarrow> reboot n' = reboot n"
      using persist_checkpoint_cases [OF assms(1)] by (intro reboot_eqI) simp_all
    with False st load show ?thesis by auto
  qed
qed

theorem ota_checkpoint_durable_witness:
  "let (e, c', n') = persist_checkpoint (zero_ota_checkpoint\<lparr>ck_stage := PM_OTA_VALID\<rparr>)
         \<lparr>blobs = Map.empty, u8s = Map.empty, faults = [ESP_OK, ESP_OK, ESP_FAIL]\<rparr>
   in e = ESP_FAIL \<and> ck_generation c' = 0 \<and>
      (\<exists>c. pm_ota_load_checkpoint (reboot n') = (Inr c, reboot n') \<and> ck_stage c = PM_OTA_VALID)"
proof -
  let ?n = "\<lparr>blobs = Map.empty, u8s = Map.empty, faults = [ESP_OK, ESP_OK, ESP_FAIL]\<rparr>"
  let ?c = "zero_ota_checkpoint\<lparr>ck_stage := PM_OTA_VALID\<rparr>"
  obtain e c' n' where p: "persist_checkpoint ?c ?n = (e, c', n')" by (metis prod.exhaust)
  have e: "e = ESP_FAIL" "blobs n' \<noteq> Map.empty"
    using p by (auto simp: persist_checkpoint_def ab_store_def nvs_open_def nvs_set_blob_def nvs_commit_def nvs_tick.simps
        zero_ota_checkpoint_def Let_def fun_eq_iff)
  have ok: "ota_slots_ok ?n" "ota_room (ck_generation ?c) ?n" "ota_checkpoint_wf ?c"
    by (simp_all add: ota_slots_ok_def ota_slot_ok_def ota_room_def newest_ota_def ab_newest_def ab_slot_def
        ota_checkpoint_wf_def zero_ota_checkpoint_def)
  have "blobs n' = (blobs ?n)(ab_key 1 \<mapsto> Blob (seal_ota_checkpoint ?c))"
    using persist_checkpoint_cases [OF p] e by (auto simp: zero_ota_checkpoint_def split: if_splits)
  then have "newest_ota n' = Some (seal_ota_checkpoint ?c)"
    using persist_checkpoint_storage [OF p ok] e by (auto split: if_splits)
  then have "pm_ota_load_checkpoint (reboot n') = (Inr (seal_ota_checkpoint ?c), reboot n')"
    using ota_checkpoint_durable [OF p ok] by (intro load_checkpoint_newest) simp_all
  with ota_checkpoint_durable [OF p ok] e p show ?thesis by (simp add: zero_ota_checkpoint_def)
qed

lemma first_checkpoint_shadowed:
  assumes "faults n = []" "ota_slots_ok n" "blobs n ''slot_b'' = Some (Blob old)" "1 < ck_generation old"
    and "ck_generation c = 0" "ota_checkpoint_wf c"
  shows "\<exists>n'. persist_checkpoint c n = (ESP_OK, seal_ota_checkpoint c, n') \<and> blobs n' ''slot_a'' = Some (Blob (seal_ota_checkpoint c)) \<and>
    pm_ota_load_checkpoint (reboot n') = (Inr old, reboot n')"
proof -
  let ?s = "seal_ota_checkpoint c"
  let ?n = "n\<lparr>blobs := (blobs n)(''slot_a'' \<mapsto> Blob ?s)\<rparr>"
  have k: "ab_key 1 = ''slot_a''" by (simp add: ab_key_def)
  have valid: "ota_checkpoint_valid ?s" using assms(6) by (rule ota.ok_seal)
  have old: "ota_checkpoint_valid old" "ab_key (ck_generation old) = ''slot_b''"
    using assms(2,3) by (simp_all add: ota_slots_ok_def ota_slot_ok_def)
  have "persist_checkpoint c n = (ESP_OK, ?s, ?n)"
    using assms(1,5) valid by (simp add: persist_checkpoint_def Let_def k ab_store_fault_free read_checkpoint_def nvs_fault_free)
  moreover have "newest_ota ?n = Some old"
    using assms(3-5) old valid unfolding newest_ota_def by (intro ab_newestI(2)) auto
  moreover have "ota_slots_ok ?n"
    using assms(2,5) valid by (simp add: ota_slots_ok_def ota_slot_ok_def k)
  ultimately show ?thesis
    using load_checkpoint_newest [of "reboot ?n" old] by fastforce
qed

subsection \<open>What installing does to the platform\<close>

lemma ota_tick_eq: "ota_tick w = (e, w') \<Longrightarrow> \<exists>es. w' = w\<lparr>w_outcomes := es\<rparr>"
  by (cases "w_outcomes w") (auto simp: ota_tick_def intro: exI [of _ "w_outcomes w"])

lemma persist_in_eq:
  assumes "persist_in c w = (e, c', w')"
  obtains n where "w' = w\<lparr>w_nvs := n\<rparr>" "persist_checkpoint c (w_nvs w) = (e, c', n)"
    "ck_bytes_written c' = ck_bytes_written c" "ck_stage c' = ck_stage c" "ck_image_size c' = ck_image_size c"
proof -
  obtain n where p: "persist_checkpoint c (w_nvs w) = (e, c', n)" "w' = w\<lparr>w_nvs := n\<rparr>"
    using assms by (auto simp: persist_in_def split: prod.splits)
  with persist_checkpoint_cases [OF p(1)] that show ?thesis by (auto split: if_splits)
qed

text \<open>The parts of the platform that only the choice of the boot partition and the image writes touch.\<close>

definition same_image :: "ota_world \<Rightarrow> ota_world \<Rightarrow> bool" where
  "same_image w w' \<longleftrightarrow> w_boot w' = w_boot w \<and> w_flash w' = w_flash w \<and> w_ota_open w' = w_ota_open w \<and>
     w_image_state w' = w_image_state w \<and> w_rebooting w' = w_rebooting w"

lemma same_image_refl [simp]: "same_image w w" by (simp add: same_image_def)

lemma same_image_trans [trans]: "same_image u v \<Longrightarrow> same_image v w \<Longrightarrow> same_image u w"
  by (simp add: same_image_def)

lemma same_image_tick: "ota_tick w = (e, w') \<Longrightarrow> same_image w w' \<and> w_nvs w' = w_nvs w"
  using ota_tick_eq [of w e w'] by (auto simp: same_image_def)

lemma same_image_persist: "persist_in c w = (e, c', w') \<Longrightarrow> same_image w w'"
proof -
  assume "persist_in c w = (e, c', w')"
  then obtain n where "w' = w\<lparr>w_nvs := n\<rparr>" by (rule persist_in_eq)
  then show ?thesis by (simp add: same_image_def)
qed

lemma same_image_report [simp]: "same_image w (report p s w')  = same_image w w'" "w_nvs (report p s w) = w_nvs w"
  by (simp_all add: same_image_def report_def)

lemma same_image_set_header:
  "same_image w (snd (ok_then r (esp_http_client_set_header k v))) \<and>
     w_nvs (snd (ok_then r (esp_http_client_set_header k v))) = w_nvs w"
  if "same_image w (snd r) \<and> w_nvs (snd r) = w_nvs w"
proof (cases "fst r = ESP_OK")
  case True
  obtain e1 w1 where t: "ota_tick (snd r) = (e1, w1)" by (metis prod.exhaust)
  from same_image_tick [OF t] that True show ?thesis
    by (simp add: ok_then_def esp_http_client_set_header_def ota_call_def t same_image_def)
next
  case False
  with that show ?thesis by (simp add: ok_then_def)
qed

lemma same_image_headers:
  "same_image w (snd r) \<and> w_nvs (snd r) = w_nvs w \<Longrightarrow>
     same_image w (snd (foldl (\<lambda>r (name, v). ok_then r (esp_http_client_set_header name v)) r hs)) \<and>
     w_nvs (snd (foldl (\<lambda>r (name, v). ok_then r (esp_http_client_set_header name v)) r hs)) = w_nvs w"
proof (induction hs arbitrary: r)
  case (Cons h hs)
  show ?case
    unfolding foldl_Cons split_beta
    by (rule Cons.IH [unfolded split_beta]) (rule same_image_set_header [OF Cons.prems])
qed simp

lemma report_simps [simp]:
  "w_boot (report p s w) = w_boot w" "w_flash (report p s w) = w_flash w" "w_ota_open (report p s w) = w_ota_open w"
  "w_image_state (report p s w) = w_image_state w" "w_rebooting (report p s w) = w_rebooting w"
  "w_outcomes (report p s w) = w_outcomes w"
  by (simp_all add: report_def)

lemma same_image_send: "send_request h w = (e, w') \<Longrightarrow> same_image w w' \<and> w_nvs w' = w_nvs w"
proof -
  obtain e0 w0 where t: "ota_tick w = (e0, w0)" by (metis prod.exhaust)
  assume "send_request h w = (e, w')"
  then have "snd (foldl (\<lambda>r (name, v). ok_then r (esp_http_client_set_header name v)) (e0, w0) (request_headers h)) = w'"
    unfolding send_request_def t by simp
  with same_image_headers [of w "(e0, w0)" "request_headers h"] same_image_tick [OF t] show ?thesis by simp
qed

definition same_boot :: "ota_world \<Rightarrow> ota_world \<Rightarrow> bool" where
  "same_boot w w' \<longleftrightarrow> w_boot w' = w_boot w \<and> w_ota_open w' = w_ota_open w \<and>
     w_image_state w' = w_image_state w \<and> w_rebooting w' = w_rebooting w"

lemma same_boot_refl [simp]: "same_boot w w" by (simp add: same_boot_def)

lemma same_boot_trans [trans]: "same_boot u v \<Longrightarrow> same_boot v w \<Longrightarrow> same_boot u w"
  by (simp add: same_boot_def)

lemma same_image_boot: "same_image w w' \<Longrightarrow> same_boot w w'"
  by (simp add: same_image_def same_boot_def)

text \<open>A checkpoint that may be written next, over storage that is in step with it.\<close>

definition ota_writer :: "pm_ota_checkpoint \<Rightarrow> ota_world \<Rightarrow> bool" where
  "ota_writer c w \<longleftrightarrow> ota_slots_ok (w_nvs w) \<and> ota_room (ck_generation c) (w_nvs w) \<and> ota_checkpoint_wf c"

lemma ota_writer_persist:
  assumes "persist_in c w = (e, c', w')" "ota_writer c w"
  shows "ota_writer c' w' \<and> same_image w w' \<and> ck_bytes_written c' = ck_bytes_written c \<and> ck_stage c' = ck_stage c \<and>
    ck_image_size c' = ck_image_size c \<and> (e = ESP_OK \<longrightarrow> newest_ota (w_nvs w') = Some c')"
proof -
  obtain n where n: "w' = w\<lparr>w_nvs := n\<rparr>" "persist_checkpoint c (w_nvs w) = (e, c', n)"
    "ck_bytes_written c' = ck_bytes_written c" "ck_stage c' = ck_stage c" "ck_image_size c' = ck_image_size c"
    using assms(1) by (rule persist_in_eq)
  have "ota_slots_ok n \<and> ota_room (ck_generation c') n \<and> (e = ESP_OK \<longrightarrow> newest_ota n = Some c')"
    using persist_checkpoint_storage [OF n(2)] assms(2) by (auto simp: ota_writer_def split: if_splits)
  with assms(2) n show ?thesis by (simp add: ota_writer_def ota_checkpoint_wf_def same_image_def)
qed

lemma ota_writer_cong:
  "w_nvs w' = w_nvs w \<Longrightarrow> ck_generation c' = ck_generation c \<Longrightarrow> ota_checkpoint_wf c' \<Longrightarrow> ota_writer c w \<Longrightarrow> ota_writer c' w'"
  by (simp add: ota_writer_def)

definition download_inv :: "pm_ota_manifest \<Rightarrow> pm_ota_checkpoint \<Rightarrow> u8 list \<Rightarrow> ota_world \<Rightarrow> bool" where
  "download_inv m c hashed w \<longleftrightarrow> w_flash w = hashed \<and> length hashed = unat (ck_bytes_written c) \<and>
     ck_image_size c = mf_image_size m \<and> ck_stage c = PM_OTA_DOWNLOADING \<and> ota_writer c w"

lemma received_fits:
  fixes b size :: u32
  assumes "b \<le> size" "unat size + 4096 < 2 ^ 32" "length bytes \<le> 4096"
  shows "unat (b + of_nat (length bytes)) = unat b + length bytes"
proof -
  have "unat (of_nat (length bytes) :: u32) = length bytes" using assms(3) by (simp add: unat_of_nat)
  with assms show ?thesis by (simp add: unat_word_ariths word_le_nat_alt)
qed

definition chunk_written :: "pm_ota_manifest \<Rightarrow> pm_ota_checkpoint \<Rightarrow> u8 list \<Rightarrow> ota_world \<Rightarrow> pm_ota_checkpoint \<times> ota_world" where
  "chunk_written m c bytes w =
     (let c1 = c\<lparr>ck_bytes_written := ck_bytes_written c + of_nat (length bytes)\<rparr>
      in (c1, report (download_percent (ck_bytes_written c1) (mf_image_size m)) PM_OTA_DOWNLOADING
                (w\<lparr>w_flash := w_flash w @ bytes\<rparr>)))"

lemma download_chunk_cases:
  assumes ch: "download_chunk m r c hashed w = (e, c', hashed', w')"
  obtains (refused) "e \<noteq> ESP_OK" "c' = c" "same_image w w'" "w_nvs w' = w_nvs w"
    | (written) bytes w2 c1 w3 where "bytes \<noteq> []" "length bytes \<le> 4096"
        "ck_bytes_written c + of_nat (length bytes) \<le> mf_image_size m" "same_image w w2" "w_nvs w2 = w_nvs w"
        "chunk_written m c bytes w2 = (c1, w3)" "hashed' = hashed @ bytes"
        "persist_in c1 w3 = (e, c', w') \<or> (e, c', w') = (ESP_OK, c1, w3)"
proof (cases r)
  case Read_Failed
  with ch show ?thesis by (intro refused) (auto simp: download_chunk_def)
next
  case (Received data)
  define b where "b = take PM_OTA_BUFFER_SIZE data"
  obtain e1 w1 where t: "ota_tick w = (e1, w1)" by (metis prod.exhaust)
  obtain e2 w2 where t2: "ota_tick w1 = (e2, w2)" by (metis prod.exhaust)
  note s1 = same_image_tick [OF t] and s2 = same_image_tick [OF t2]
  have s12: "same_image w w2" "w_nvs w2 = w_nvs w" using s1 s2 same_image_trans by auto
  have wr: "esp_ota_write b w1 = (e2, if e2 = ESP_OK then w2\<lparr>w_flash := w_flash w2 @ b\<rparr> else w2)"
    by (simp add: esp_ota_write_def ota_call_def t2)
  obtain c1 w3 where cw: "chunk_written m c b w2 = (c1, w3)" by (metis prod.exhaust)
  note ch' = ch [unfolded download_chunk_def Received http_read.case Let_def, folded b_def]
  show ?thesis
  proof (cases "b = [] \<or> ck_bytes_written c + of_nat (length b) > mf_image_size m \<or> e1 \<noteq> ESP_OK")
    case True
    with ch' t s1 show ?thesis by (intro refused) (auto split: if_splits)
  next
    case go: False
    show ?thesis
    proof (cases "e2 = ESP_OK")
      case False
      with go ch' t wr s12 show ?thesis by (intro refused) auto
    next
      case True
      have "persist_in c1 w3 = (e, c', w') \<and> hashed' = hashed @ b \<or> (e, c', w') = (ESP_OK, c1, w3) \<and> hashed' = hashed @ b"
        using go True ch' cw by (auto simp: t wr chunk_written_def Let_def split: if_splits prod.splits)
      moreover have "length b \<le> 4096" by (simp add: b_def PM_OTA_BUFFER_SIZE_def)
      ultimately show ?thesis using go cw s12 by (intro written [of b w2 c1 w3]) (auto simp: not_less)
    qed
  qed
qed

lemma chunk_written_inv:
  assumes "download_inv m c hashed w" "same_image w w2" "w_nvs w2 = w_nvs w"
    and "ck_bytes_written c + of_nat (length bytes) \<le> mf_image_size m" "length bytes \<le> 4096"
    and "unat (mf_image_size m) + 4096 < 2 ^ 32"
    and "chunk_written m c bytes w2 = (c1, w3)"
  shows "download_inv m c1 (hashed @ bytes) w3 \<and> same_boot w w3"
proof -
  have le: "ck_bytes_written c \<le> mf_image_size m"
    using assms(1) by (auto simp: download_inv_def ota_writer_def ota_checkpoint_wf_def)
  have "unat (ck_bytes_written c + of_nat (length bytes)) = unat (ck_bytes_written c) + length bytes"
    using le assms(6,5) by (rule received_fits)
  then show ?thesis
    using assms
    by (auto simp: chunk_written_def Let_def download_inv_def ota_writer_def ota_checkpoint_wf_def same_image_def
        same_boot_def report_def)
qed

lemma download_chunk_step:
  assumes ch: "download_chunk m r c hashed w = (e, c', hashed', w')" and inv: "download_inv m c hashed w"
    and size: "unat (mf_image_size m) + 4096 < 2 ^ 32"
  shows "same_boot w w' \<and> ota_writer c' w' \<and> ck_image_size c' = mf_image_size m \<and>
    (e = ESP_OK \<longrightarrow> download_inv m c' hashed' w' \<and> length hashed < length hashed')"
  using ch
proof (cases rule: download_chunk_cases)
  case refused
  with inv show ?thesis by (auto simp: download_inv_def ota_writer_def same_image_boot)
next
  case (written bytes w2 c1 w3)
  have i: "download_inv m c1 (hashed @ bytes) w3" "same_boot w w3"
    using chunk_written_inv [OF inv written(4,5,3,2) size written(6)] by simp_all
  have lt: "length hashed < length hashed'" using written(1,7) by simp
  from written(8) show ?thesis
  proof
    assume p: "persist_in c1 w3 = (e, c', w')"
    have "ota_writer c1 w3" using i(1) by (simp add: download_inv_def)
    note ow = ota_writer_persist [OF p this]
    have "download_inv m c' hashed' w'" using ow i(1) written(7) by (simp add: download_inv_def same_image_def)
    with ow lt same_boot_trans [OF i(2) same_image_boot] show ?thesis by (simp add: download_inv_def)
  next
    assume "(e, c', w') = (ESP_OK, c1, w3)"
    with i lt written(7) show ?thesis by (auto simp: download_inv_def)
  qed
qed

lemma download_ends:
  assumes "download m reads c hashed w = (e, c', hashed', w')" "download_inv m c hashed w"
    and size: "unat (mf_image_size m) + 4096 < 2 ^ 32"
  shows "same_boot w w' \<and> ota_writer c' w' \<and> ck_image_size c' = mf_image_size m \<and>
    (e = ESP_OK \<longrightarrow> download_inv m c' hashed' w' \<and> length hashed' = unat (mf_image_size m))"
  using assms(1,2)
proof (induction reads arbitrary: c hashed w)
  case Nil
  show ?case
  proof (cases "ck_bytes_written c < mf_image_size m")
    case True
    with Nil.prems(1) have "download_chunk m (Received []) c hashed w = (e, c', hashed', w')"
      by (simp add: download.simps [of m "[]"])
    moreover have "e \<noteq> ESP_OK" using calculation by (auto simp: download_chunk_def)
    ultimately show ?thesis using download_chunk_step [OF _ Nil.prems(2) size] by blast
  next
    case False
    with Nil.prems show ?thesis
      by (auto simp: download.simps [of m "[]"] download_inv_def ota_writer_def ota_checkpoint_wf_def not_less)
  qed
next
  case (Cons r rs)
  show ?case
  proof (cases "ck_bytes_written c < mf_image_size m")
    case True
    obtain e1 c1 h1 w1 where ch: "download_chunk m r c hashed w = (e1, c1, h1, w1)" by (metis prod.exhaust)
    note st = download_chunk_step [OF ch Cons.prems(2) size]
    show ?thesis
    proof (cases "e1 = ESP_OK")
      case ok: True
      then have "download m rs c1 h1 w1 = (e, c', hashed', w')"
        using Cons.prems(1) True ch by (simp add: download.simps [of m "r # rs"])
      from Cons.IH [OF this] st ok same_boot_trans show ?thesis by blast
    next
      case no: False
      then have "(e, c', hashed', w') = (e1, c1, h1, w1)"
        using Cons.prems(1) True ch by (simp add: download.simps [of m "r # rs"])
      with st no show ?thesis by simp
    qed
  next
    case False
    with Cons.prems show ?thesis
      by (auto simp: download.simps [of m "r # rs"] download_inv_def ota_writer_def ota_checkpoint_wf_def not_less)
  qed
qed

subsection \<open>The boot partition changes only to a verified image\<close>

text \<open>What is known of an image when it is selected.\<close>

definition image_accepted ::
    "psa_hash \<Rightarrow> (string \<Rightarrow> u8 list option) \<Rightarrow> ota_peer \<Rightarrow> pm_ota_manifest \<Rightarrow> u8 list \<Rightarrow> int \<Rightarrow> u8 list \<Rightarrow> bool" where
  "image_accepted psa b64dec peer m server_key request_utc_ms img \<longleftrightarrow>
     length img = unat (mf_image_size m) \<and> psa img = Some (mf_image_sha256 m) \<and>
     image_matches (description peer img) m \<and>
     fst (pm_verify_response_digest psa b64dec server_key (mf_device_id m) (mf_download_path m) None
            (request_utc_ms + c_div (elapsed_us peer) 1000)
            (auth (foldl capture_response_header_event pm_http_response_capture_init (events peer)))
            (pm_hex_lower (mf_image_sha256 m)) empty_cache) = ESP_OK"

lemma verify_image_step:
  assumes "verify_image psa b64dec peer m key utc cap hashed w = (e, w')" "length (mf_image_sha256 m) = 32"
  shows "w_boot w' = w_boot w \<and> w_flash w' = w_flash w \<and> w_nvs w' = w_nvs w \<and>
    (e = ESP_OK \<longrightarrow> \<not> w_ota_open w' \<and> psa hashed = Some (mf_image_sha256 m) \<and>
       image_matches (description peer (w_flash w)) m \<and>
       fst (pm_verify_response_digest psa b64dec key (mf_device_id m) (mf_download_path m) None
          (utc + c_div (elapsed_us peer) 1000) (auth cap) (pm_hex_lower (mf_image_sha256 m)) empty_cache) = ESP_OK)"
proof -
  obtain e1 w1 where t: "ota_tick w = (e1, w1)" by (metis prod.exhaust)
  note s1 = same_image_tick [OF t]
  have ed: "esp_ota_end w = (e1, w1\<lparr>w_ota_open := False\<rparr>)" by (simp add: esp_ota_end_def t)
  show ?thesis
  proof (cases "\<exists>d. psa hashed = Some d \<and> length d = 32 \<and> pm_constant_time_equal d (mf_image_sha256 m) 32 \<and> data_complete peer")
    case False
    with assms(1) show ?thesis by (auto simp: verify_image_def split: option.splits if_splits)
  next
    case True
    then have d: "psa hashed = Some (mf_image_sha256 m)" "data_complete peer"
      using assms(2) by (auto simp: pm_constant_time_equal_list)
    obtain e2 cache where v: "pm_verify_response_digest psa b64dec key (mf_device_id m) (mf_download_path m) None
          (utc + c_div (elapsed_us peer) 1000) (auth cap) (pm_hex_lower (mf_image_sha256 m)) empty_cache = (e2, cache)"
      by (metis prod.exhaust)
    show ?thesis
      using assms d s1 unfolding verify_image_def
      by (auto simp: v ed same_image_def pm_constant_time_equal_list split: if_splits)
  qed
qed

lemma set_boot_step:
  assumes "esp_ota_set_boot_partition p w = (e, w')"
  shows "w_flash w' = w_flash w \<and> w_nvs w' = w_nvs w \<and> w_ota_open w' = w_ota_open w \<and>
    w_boot w' = (if e = ESP_OK then p else w_boot w)"
proof -
  obtain e1 w1 where t: "ota_tick w = (e1, w1)" by (metis prod.exhaust)
  from same_image_tick [OF t] assms show ?thesis
    by (auto simp: esp_ota_set_boot_partition_def ota_call_def t same_image_def)
qed

lemma ota_writer_stage:
  "ota_writer c w \<Longrightarrow> ota_stage_code s \<le> 8 \<Longrightarrow> ota_writer (c\<lparr>ck_stage := s\<rparr>) w"
  by (simp add: ota_writer_def ota_checkpoint_wf_def)

lemma select_boot_step:
  assumes "select_boot peer target c w = (e, c', w')" "ota_writer c w"
  shows "w_flash w' = w_flash w \<and> w_ota_open w' = w_ota_open w \<and>
    (w_boot w' = w_boot w \<or> w_boot w' = target \<or> Some (w_boot w') = running_partition peer) \<and>
    (e = ESP_OK \<longrightarrow> w_boot w' = target \<and> ota_slots_ok (w_nvs w') \<and>
       (\<exists>x. newest_ota (w_nvs w') = Some x \<and> ck_stage x = PM_OTA_BOOT_SELECTED))"
proof -
  obtain e1 c1 w1 where p1: "persist_in (c\<lparr>ck_stage := PM_OTA_IMAGE_VERIFIED\<rparr>) w = (e1, c1, w1)" by (metis prod.exhaust)
  obtain e2 w2 where b: "esp_ota_set_boot_partition target (report 95 (ck_stage c1) w1) = (e2, w2)" by (metis prod.exhaust)
  obtain e3 c3 w3 where p3: "persist_in (c1\<lparr>ck_stage := PM_OTA_BOOT_SELECTED\<rparr>) w2 = (e3, c3, w3)" by (metis prod.exhaust)
  have o1: "ota_writer c1 w1" "same_image w w1"
    using ota_writer_persist [OF p1 ota_writer_stage [OF assms(2)]] by simp_all
  note sb = set_boot_step [OF b]
  have "ota_writer c1 w2" using o1(1) sb by (simp add: ota_writer_def)
  then have o3: "ota_writer c3 w3" "same_image w2 w3" "ck_stage c3 = PM_OTA_BOOT_SELECTED"
      "e3 = ESP_OK \<longrightarrow> newest_ota (w_nvs w3) = Some c3"
    using ota_writer_persist [OF p3 ota_writer_stage] by simp_all
  consider "e1 \<noteq> ESP_OK" | "e1 = ESP_OK" "e2 \<noteq> ESP_OK" | "e1 = ESP_OK" "e2 = ESP_OK" "e3 = ESP_OK"
    | "e1 = ESP_OK" "e2 = ESP_OK" "e3 \<noteq> ESP_OK" by blast
  then show ?thesis
  proof cases
    case 1
    with assms(1) o1 p1 show ?thesis by (simp add: select_boot_def same_image_def)
  next
    case 2
    with assms(1) o1 p1 b sb show ?thesis by (simp add: select_boot_def same_image_def report_def)
  next
    case 3
    with assms(1) p1 b p3 have w': "w' = report 100 (ck_stage c3) w3" "c' = c3" by (auto simp: select_boot_def)
    with 3 o1 sb o3 show ?thesis by (auto simp: same_image_def report_def ota_writer_def)
  next
    case 4
    obtain e4 w4 where r: "running_partition peer = Some q \<Longrightarrow> esp_ota_set_boot_partition q w3 = (e4, w4)" for q
      by (cases "running_partition peer") (fastforce intro: that)+
    have "w' = (case running_partition peer of None \<Rightarrow> w3 | Some q \<Rightarrow> w4)" "e \<noteq> ESP_OK"
      using assms(1) p1 b p3 4 r by (auto simp: select_boot_def split: option.splits)
    with o1 o3 sb set_boot_step [OF r] 4 show ?thesis
      by (cases "running_partition peer") (auto simp: same_image_def report_def)
  qed
qed

text \<open>The second checkpoint of an installation brings both slots in step, whatever they held.\<close>

lemma second_checkpoint:
  assumes p: "persist_checkpoint c n = (ESP_OK, c', n')" and a: "blobs n ''slot_a'' = Some (Blob c1)"
    and c1: "ota_checkpoint_valid c1" "ck_generation c1 = 1" and c: "ck_generation c = 1" "ota_checkpoint_wf c"
  shows "ota_slots_ok n' \<and> ota_room (ck_generation c') n'"
proof -
  let ?s = "seal_ota_checkpoint c"
  have key: "ab_key 1 = ''slot_a''" "ab_key 2 = ''slot_b''" by (simp_all add: ab_key_def)
  have n': "c' = ?s" "blobs n' = (blobs n)(''slot_b'' \<mapsto> Blob ?s)"
    using persist_checkpoint_cases [OF p] c(1) by (simp_all add: key)
  have valid: "ota_checkpoint_valid ?s" using c(2) by (rule ota.ok_seal)
  then have "ota_slots_ok n'" using a c1 c(1) by (simp add: n' ota_slots_ok_def ota_slot_ok_def key)
  moreover have "newest_ota n' = Some ?s"
    unfolding newest_ota_def using a c1 c(1) valid by (intro ab_newestI(2)) (auto simp: n')
  ultimately show ?thesis by (simp add: ota_room_def n')
qed

definition boot_safe ::
    "psa_hash \<Rightarrow> (string \<Rightarrow> u8 list option) \<Rightarrow> ota_peer \<Rightarrow> pm_ota_manifest \<Rightarrow> u8 list \<Rightarrow> int \<Rightarrow> nat \<Rightarrow>
      ota_world \<Rightarrow> esp_err \<Rightarrow> ota_world \<Rightarrow> bool" where
  "boot_safe psa b64dec peer m key utc target w e w' \<longleftrightarrow>
     (w_boot w' = w_boot w \<or> Some (w_boot w') = running_partition peer \<or>
      w_boot w' = target \<and> image_accepted psa b64dec peer m key utc (w_flash w')) \<and>
     (e = ESP_OK \<longrightarrow> w_boot w' = target \<and> image_accepted psa b64dec peer m key utc (w_flash w') \<and>
        ota_slots_ok (w_nvs w') \<and> (\<exists>x. newest_ota (w_nvs w') = Some x \<and> ck_stage x = PM_OTA_BOOT_SELECTED))"

lemma boot_safe_refused: "w_boot w' = w_boot w \<Longrightarrow> e \<noteq> ESP_OK \<Longrightarrow> boot_safe psa b64dec peer m key utc target w e w'"
  by (simp add: boot_safe_def)

lemma image_after_download:
  assumes inv: "download_inv m c [] w0" and w: "w_boot w0 = w_boot w"
    and dl: "download m (body_reads peer) c [] w0 = (e4, c4, hashed, w4)"
    and r: "(if e4 \<noteq> ESP_OK then (e4, c4, w4)
       else case verify_image psa b64dec peer m key utc
              (foldl capture_response_header_event pm_http_response_capture_init (events peer)) hashed w4 of
         (e5, w5) \<Rightarrow> if e5 \<noteq> ESP_OK then (e5, c4, w5) else select_boot peer target c4 w5) = (e, c', w')"
    and size: "unat (mf_image_size m) + 4096 < 2 ^ 32" "length (mf_image_sha256 m) = 32"
  shows "boot_safe psa b64dec peer m key utc target w e w'"
proof -
  let ?cap = "foldl capture_response_header_event pm_http_response_capture_init (events peer)"
  note d = download_ends [OF dl inv size(1)]
  obtain e5 w5 where v: "verify_image psa b64dec peer m key utc ?cap hashed w4 = (e5, w5)" by (metis prod.exhaust)
  note vi = verify_image_step [OF v size(2)]
  have b5: "w_boot w5 = w_boot w" "w_boot w4 = w_boot w" using d vi w by (simp_all add: same_boot_def)
  consider "e4 \<noteq> ESP_OK" | "e4 = ESP_OK" "e5 \<noteq> ESP_OK" | "e4 = ESP_OK" "e5 = ESP_OK" by blast
  then show ?thesis
  proof cases
    case 1
    with r b5 show ?thesis by (intro boot_safe_refused) auto
  next
    case 2
    with r v b5 show ?thesis by (intro boot_safe_refused) auto
  next
    case 3
    have sel: "select_boot peer target c4 w5 = (e, c', w')" using r v 3 by simp
    have "ota_writer c4 w5" using d vi by (simp add: ota_writer_def)
    note sb = select_boot_step [OF sel this]
    have "w_flash w4 = hashed" "length hashed = unat (mf_image_size m)" using d 3 by (auto simp: download_inv_def)
    then have "image_accepted psa b64dec peer m key utc (w_flash w')"
      using vi 3 sb by (simp add: image_accepted_def)
    with sb b5 show ?thesis by (auto simp: boot_safe_def)
  qed
qed

lemma transfer_safe:
  assumes tr: "transfer psa b64dec peer m key utc h target c w = (e, c', w')"
    and a: "blobs (w_nvs w) ''slot_a'' = Some (Blob c)" "ota_checkpoint_valid c" "ck_generation c = 1"
    and c: "ck_image_size c = mf_image_size m" "ck_bytes_written c = 0" "w_flash w = []"
    and size: "unat (mf_image_size m) + 4096 < 2 ^ 32" "length (mf_image_sha256 m) = 32"
  shows "boot_safe psa b64dec peer m key utc target w e w'"
proof -
  let ?cap = "foldl capture_response_header_event pm_http_response_capture_init (events peer)"
  let ?c = "c\<lparr>ck_stage := PM_OTA_DOWNLOADING\<rparr>"
  obtain e1 w1 where s1: "send_request h w = (e1, w1)" by (metis prod.exhaust)
  obtain e2 w2 where s2: "ota_tick w1 = (e2, w2)" by (metis prod.exhaust)
  obtain e3 c3 w3 where s3: "persist_in ?c w2 = (e3, c3, w3)" by (metis prod.exhaust)
  obtain e4 c4 hashed w4 where s4: "download m (body_reads peer) c3 [] w3 = (e4, c4, hashed, w4)" by (metis prod.exhaust)
  have w2: "same_image w w1" "same_image w w2" "w_nvs w2 = w_nvs w"
    using same_image_send [OF s1] same_image_tick [OF s2] same_image_trans by auto
  define refused where "refused \<longleftrightarrow> content_length peer \<noteq> int (unat (mf_image_size m)) \<or> status_code peer \<noteq> 200 \<or>
    pm_http_response_capture_validate ?cap True \<noteq> ESP_OK \<or>
    cstr (etag ?cap) \<noteq> [CHR 0x22] @ pm_hex_lower (mf_image_sha256 m) @ [CHR 0x22] \<or>
    \<not> buffer_available peer \<or> \<not> hash_setup_ok peer"
  consider (sent) "e1 \<noteq> ESP_OK" | (opened) "e1 = ESP_OK" "e2 \<noteq> ESP_OK" | (answer) "e1 = ESP_OK" "e2 = ESP_OK" refused
    | (checkpoint) "e1 = ESP_OK" "e2 = ESP_OK" "\<not> refused" "e3 \<noteq> ESP_OK"
    | (go) "e1 = ESP_OK" "e2 = ESP_OK" "\<not> refused" "e3 = ESP_OK" by blast
  then show ?thesis
  proof cases
    case sent
    with tr s1 w2 show ?thesis by (intro boot_safe_refused) (auto simp: transfer_def same_image_def)
  next
    case opened
    with tr s1 s2 w2 show ?thesis by (intro boot_safe_refused) (auto simp: transfer_def same_image_def)
  next
    case answer
    have "w' = w2 \<and> e \<noteq> ESP_OK"
      using tr s1 s2 answer unfolding transfer_def refused_def Let_def by (auto split: if_splits)
    with w2 show ?thesis by (intro boot_safe_refused) (auto simp: same_image_def)
  next
    case checkpoint
    have "w' = w3 \<and> e \<noteq> ESP_OK"
      using tr s1 s2 s3 checkpoint unfolding transfer_def refused_def Let_def by auto
    with w2 same_image_persist [OF s3] show ?thesis by (intro boot_safe_refused) (auto simp: same_image_def)
  next
    case go
    have wf: "ota_checkpoint_wf ?c" using c by (simp add: ota_checkpoint_wf_def)
    obtain n where n: "w3 = w2\<lparr>w_nvs := n\<rparr>" "persist_checkpoint ?c (w_nvs w2) = (e3, c3, n)"
      "ck_bytes_written c3 = ck_bytes_written ?c" "ck_stage c3 = ck_stage ?c" "ck_image_size c3 = ck_image_size ?c"
      using s3 by (rule persist_in_eq)
    have "ota_slots_ok n \<and> ota_room (ck_generation c3) n"
      using second_checkpoint [of ?c "w_nvs w2" c3 n c] n(2) go(4) a wf w2(3) by simp
    then have inv: "download_inv m c3 [] w3"
      using n c w2(2) wf by (simp add: download_inv_def ota_writer_def ota_checkpoint_wf_def same_image_def)
    have b: "w_boot w3 = w_boot w" using n(1) w2(2) by (simp add: same_image_def)
    have "(if e4 \<noteq> ESP_OK then (e4, c4, w4)
       else case verify_image psa b64dec peer m key utc ?cap hashed w4 of
         (e5, w5) \<Rightarrow> if e5 \<noteq> ESP_OK then (e5, c4, w5) else select_boot peer target c4 w5) = (e, c', w')"
      using tr go s4 unfolding transfer_def refused_def Let_def by (simp add: s1 s2 s3)
    from image_after_download [OF inv b s4 this size] show ?thesis .
  qed
qed

lemma esp_ota_abort_simps [simp]:
  "w_boot (esp_ota_abort w) = w_boot w" "w_flash (esp_ota_abort w) = w_flash w" "w_nvs (esp_ota_abort w) = w_nvs w"
  "\<not> w_ota_open (esp_ota_abort w)"
proof -
  obtain e w1 where t: "ota_tick w = (e, w1)" by (metis prod.exhaust)
  from same_image_tick [OF t] show
    "w_boot (esp_ota_abort w) = w_boot w" "w_flash (esp_ota_abort w) = w_flash w" "w_nvs (esp_ota_abort w) = w_nvs w"
    "\<not> w_ota_open (esp_ota_abort w)"
    by (simp_all add: esp_ota_abort_def t same_image_def)
qed

lemma install_cleanup_step:
  assumes "install_cleanup (e, c, w) = (e', w')"
  shows "w_boot w' = w_boot w \<and> w_flash w' = w_flash w \<and> \<not> w_ota_open w' \<and>
    (e' = ESP_OK \<longrightarrow> e = ESP_OK \<and> w_nvs w' = w_nvs w)"
proof -
  define w1 where "w1 = (if w_ota_open w then esp_ota_abort w else w)"
  have w1: "w_boot w1 = w_boot w" "w_flash w1 = w_flash w" "\<not> w_ota_open w1" "w_nvs w1 = w_nvs w"
    by (simp_all add: w1_def)
  obtain e1 c1 w2 where p: "persist_in (c\<lparr>ck_stage := PM_OTA_FAILED, ck_last_error := esp_err_code e\<rparr>) w1 = (e1, c1, w2)"
    by (metis prod.exhaust)
  show ?thesis
    using assms w1 same_image_persist [OF p] unfolding install_cleanup_def prod.case Let_def w1_def [symmetric] p
    by (auto simp: same_image_def report_def split: if_splits)
qed

lemma initial_checkpoint_simps [simp]:
  "ck_generation (initial_checkpoint m) = 0" "ota_checkpoint_wf (initial_checkpoint m)"
  "ck_bytes_written (initial_checkpoint m) = 0" "ck_image_size (initial_checkpoint m) = mf_image_size m"
  by (simp_all add: initial_checkpoint_def ota_checkpoint_wf_def zero_ota_checkpoint_def)

text \<open>An installation ends before the transfer without touching the boot partition, or the transfer runs.\<close>

lemma install_cases:
  assumes inst: "pm_ota_install psa b64enc b64dec peer m ca dkey skey utc w = (e, w')"
    and part: "next_partition peer = Some p" and cl: "\<not> w_ota_open w"
  obtains (early) "w_boot w' = w_boot w" "e \<noteq> ESP_OK" "\<not> w_ota_open w'"
    | (run) h c1 w1 w3 where "pm_ota_verify_manifest psa (running_version peer) m skey = ESP_OK"
        "persist_in (initial_checkpoint m) w = (ESP_OK, c1, w1)" "same_image w w3" "w_nvs w3 = w_nvs w1"
        "mf_image_size m \<le> part_size p"
        "install_cleanup (transfer psa b64dec peer m skey utc h (part_id p) c1
           (w3\<lparr>w_flash := [], w_ota_open := True, w_request := []\<rparr>)) = (e, w')"
proof -
  obtain e1 c1 w1 where p1: "persist_in (initial_checkpoint m) w = (e1, c1, w1)" by (metis prod.exhaust)
  obtain e3 w3 where t: "ota_tick (report 0 (ck_stage c1) w1) = (e3, w3)" by (metis prod.exhaust)
  have bg: "esp_ota_begin (report 0 (ck_stage c1) w1) = (e3, if e3 = ESP_OK then w3\<lparr>w_flash := [], w_ota_open := True\<rparr> else w3)"
    by (simp add: esp_ota_begin_def ota_call_def t)
  have w1: "same_image w w1" using p1 by (rule same_image_persist)
  have w3: "same_image w w3" "w_nvs w3 = w_nvs w1"
    using same_image_tick [OF t] w1 same_image_trans by (auto simp: same_image_def)
  have kept: "w_boot w1 = w_boot w" "w_boot w3 = w_boot w" "\<not> w_ota_open w1" "\<not> w_ota_open w3"
    using w1 w3(1) cl by (simp_all add: same_image_def)
  note inst' = inst [unfolded pm_ota_install_def Let_def p1 prod.case part option.case bg]
  show ?thesis
  proof (cases "pm_sign_request psa b64enc dkey (mf_device_id m) ''GET'' (mf_download_path m) None utc (request_nonce peer) []")
    case (Inl es)
    moreover have "es \<noteq> ESP_OK"
      using Inl build_canonical_error
      by (auto simp: pm_sign_request_def Let_def split: sum.splits prod.splits if_splits option.splits)
    ultimately show ?thesis using inst' cl by (intro early) (auto split: if_splits)
  next
    case (Inr h)
    define guard where "guard \<longleftrightarrow> pm_ota_verify_manifest psa (running_version peer) m skey = ESP_OK \<and>
      \<not> (cstr ca = [] \<or> utc < 1704067200000)"
    show ?thesis
    proof (cases "guard \<and> e1 = ESP_OK \<and> \<not> mf_image_size m > part_size p \<and> e3 = ESP_OK \<and> client_created peer")
      case True
      then have "install_cleanup (transfer psa b64dec peer m skey utc h (part_id p) c1
          (w3\<lparr>w_flash := [], w_ota_open := True, w_request := []\<rparr>)) = (e, w')"
        using inst' Inr by (simp add: guard_def)
      with True p1 w3 show ?thesis by (intro run) (auto simp: guard_def)
    next
      case False
      with inst' Inr kept cl show ?thesis by (intro early) (auto simp: guard_def split: if_splits)
    qed
  qed
qed

lemma install_boot_safe:
  assumes "pm_ota_install psa b64enc b64dec peer m ca dkey skey utc w = (e, w')"
    and "next_partition peer = Some p" "unat (part_size p) + 4096 < 2 ^ 32" "length (mf_image_sha256 m) = 32"
    and "\<not> w_ota_open w"
  shows "(w_boot w' = w_boot w \<or> Some (w_boot w') = running_partition peer \<or>
      w_boot w' = part_id p \<and> image_accepted psa b64dec peer m skey utc (w_flash w') \<and>
      pm_ota_verify_manifest psa (running_version peer) m skey = ESP_OK) \<and>
    (e = ESP_OK \<longrightarrow> w_boot w' = part_id p \<and> image_accepted psa b64dec peer m skey utc (w_flash w') \<and>
      pm_ota_verify_manifest psa (running_version peer) m skey = ESP_OK \<and>
      (\<exists>c. pm_ota_load_checkpoint (reboot (w_nvs w')) = (Inr c, reboot (w_nvs w')) \<and> ck_stage c = PM_OTA_BOOT_SELECTED)) \<and>
    \<not> w_ota_open w'"
  using assms(1,2,5)
proof (cases rule: install_cases)
  case early
  then show ?thesis by simp
next
  case (run h c1 w1 w3)
  let ?wt = "w3\<lparr>w_flash := [], w_ota_open := True, w_request := []\<rparr>"
  obtain n where n: "w1 = w\<lparr>w_nvs := n\<rparr>" "persist_checkpoint (initial_checkpoint m) (w_nvs w) = (ESP_OK, c1, n)"
    "ck_bytes_written c1 = ck_bytes_written (initial_checkpoint m)" "ck_image_size c1 = ck_image_size (initial_checkpoint m)"
    using run(2) by (rule persist_in_eq)
  have c1: "c1 = seal_ota_checkpoint (initial_checkpoint m)" "blobs n ''slot_a'' = Some (Blob c1)"
    using persist_checkpoint_cases [OF n(2)] by (auto simp: ab_key_def)
  have valid: "ota_checkpoint_valid c1" unfolding c1(1) by (rule ota.ok_seal) simp
  obtain et ct wt where tr: "transfer psa b64dec peer m skey utc h (part_id p) c1 ?wt = (et, ct, wt)" by (metis prod.exhaust)
  have size: "unat (mf_image_size m) + 4096 < 2 ^ 32" using assms(3) run(5) by (simp add: word_le_nat_alt)
  have "boot_safe psa b64dec peer m skey utc (part_id p) ?wt et wt"
    using c1 n run(4) by (intro transfer_safe [OF tr _ valid _ _ _ _ size assms(4)]) simp_all
  moreover note cl = install_cleanup_step [OF run(6) [unfolded tr]]
  moreover have "ota_slots_ok (w_nvs w') \<Longrightarrow> newest_ota (w_nvs w') = Some x \<Longrightarrow>
    pm_ota_load_checkpoint (reboot (w_nvs w')) = (Inr x, reboot (w_nvs w'))" for x
    by (rule load_checkpoint_newest) simp_all
  ultimately show ?thesis using run(1,3) by (auto simp: boot_safe_def same_image_def)
qed

text \<open>
  C3. Installing never makes an unverified image bootable. Whatever storage, network and flash
  do, and whatever the two checkpoint slots held before, after \<open>pm_ota_install\<close> the partition selected for the next
  boot is the one selected before, or the running one, or the update partition with an image
  of exactly the manifest's size and SHA-256 digest, of the announced project and version, whose
  response was authenticated under the server key, for a manifest that passed
  \<open>pm_ota_verify_manifest\<close>. When \<open>ESP_OK\<close> is returned it is the last of these and the next boot loads a
  checkpoint at \<open>PM_OTA_BOOT_SELECTED\<close>. No OTA handle stays open.
\<close>

theorem ota_install_boot_safe:
  assumes "pm_ota_install psa b64enc b64dec peer m ca dkey skey utc w = (e, w')"
    and "next_partition peer = Some p" "unat (part_size p) + 4096 < 2 ^ 32" "length (mf_image_sha256 m) = 32"
    and "\<not> w_ota_open w"
  shows "(w_boot w' = w_boot w \<or> Some (w_boot w') = running_partition peer \<or>
      w_boot w' = part_id p \<and> image_accepted psa b64dec peer m skey utc (w_flash w') \<and>
      pm_ota_verify_manifest psa (running_version peer) m skey = ESP_OK) \<and>
    (e = ESP_OK \<longrightarrow> w_boot w' = part_id p \<and> image_accepted psa b64dec peer m skey utc (w_flash w') \<and>
      pm_ota_verify_manifest psa (running_version peer) m skey = ESP_OK \<and>
      (\<exists>c. pm_ota_load_checkpoint (reboot (w_nvs w')) = (Inr c, reboot (w_nvs w')) \<and> ck_stage c = PM_OTA_BOOT_SELECTED)) \<and>
    \<not> w_ota_open w'"
  using assms by (rule install_boot_safe)

subsection \<open>After the first boot\<close>

lemma newest_ota_NoneD: "ota_slots_ok n \<Longrightarrow> newest_ota n = None \<Longrightarrow> blobs n ''slot_a'' = None \<and> blobs n ''slot_b'' = None"
  by (auto simp: ota_slots_ok_def ota_slot_ok_def newest_ota_def ab_newest_def ab_slot_def split: option.splits if_splits)

lemma load_checkpoint_storage:
  assumes "pm_ota_load_checkpoint n = (Inr c, n')" "ota_slots_ok n" "honest n"
  shows "ota_slots_ok n' \<and> ota_room (ck_generation c) n' \<and> ota_checkpoint_wf c"
proof -
  obtain e n1 where o: "nvs_open n = (e, n1)" by (metis prod.exhaust)
  obtain ra n2 where a: "read_checkpoint ''slot_a'' n1 = (ra, n2)" by (metis prod.exhaust)
  obtain rb n3 where b: "read_checkpoint ''slot_b'' n2 = (rb, n3)" by (metis prod.exhaust)
  have bl: "blobs n1 = blobs n" "blobs n2 = blobs n" "blobs n3 = blobs n"
    using nvs_read_eq(1) [OF o] read_checkpoint_store [OF a] read_checkpoint_store [OF b] by simp_all
  have h1: "honest n1" using honest_ops(1) [OF assms(3)] o by simp
  have h2: "honest n2" using honest_ops(3) [OF h1, of "''slot_a''"] a by (auto simp: read_checkpoint_def split: prod.splits)
  have some: "blobs n ''slot_a'' = Some (Blob x) \<and> ota_checkpoint_valid x" if "ra = Inr x" for x
    using read_checkpoint_ok [of "''slot_a''" n1 x] a that bl by simp
  have some': "blobs n ''slot_b'' = Some (Blob x) \<and> ota_checkpoint_valid x" if "rb = Inr x" for x
    using read_checkpoint_ok [of "''slot_b''" n2 x] b that bl by simp
  have absent: "blobs n k = None" if "honest s" "fst (read_checkpoint k s) = Inl ESP_ERR_NVS_NOT_FOUND" "blobs s = blobs n" for k s
    using that nvs_get_blob_not_found [of s k]
    by (auto simp: read_checkpoint_def split: prod.splits blob_read.splits if_splits)
  have ok3: "ota_slots_ok n3" using assms(2) bl(3) by (simp add: ota_slots_ok_def ota_slot_ok_def)
  have e: "e = ESP_OK" using assms(1) o by (auto simp: pm_ota_load_checkpoint_def split: if_splits)
  note load = assms(1) [unfolded pm_ota_load_checkpoint_def o a b Let_def prod.case, simplified e, simplified]
  show ?thesis
  proof (cases ra; cases rb)
    fix ea eb assume "ra = Inl ea" "rb = Inl eb"
    then obtain n4 where p: "persist_checkpoint zero_ota_checkpoint n3 = (ESP_OK, c, n')"
        and nf: "ea = ESP_ERR_NVS_NOT_FOUND" "eb = ESP_ERR_NVS_NOT_FOUND"
      using load by (auto split: if_splits prod.splits)
    have "blobs n ''slot_a'' = None" "blobs n ''slot_b'' = None"
      using absent [OF h1, of "''slot_a''"] absent [OF h2, of "''slot_b''"] a b nf bl \<open>ra = Inl ea\<close> \<open>rb = Inl eb\<close> by simp_all
    then have room: "ota_room (ck_generation zero_ota_checkpoint) n3"
      by (simp add: ota_room_def newest_ota_def ab_newest_def ab_slot_def bl)
    have wf: "ota_checkpoint_wf zero_ota_checkpoint" by (simp add: ota_checkpoint_wf_def zero_ota_checkpoint_def)
    from persist_checkpoint_storage [OF p ok3 room wf] wf show ?thesis by (metis seal_ota_wf)
  next
    fix x eb assume r: "ra = Inr x" "rb = Inl eb"
    with load have c: "c = x" "n' = n3" "eb = ESP_ERR_NVS_NOT_FOUND" by (auto split: if_splits)
    have "blobs n ''slot_b'' = None" using absent [OF h2, of "''slot_b''"] b bl r c by simp
    with ok3 some [OF r(1)] c show ?thesis
      by (auto simp: ota_room_def newest_ota_def ab_newest_def ab_slot_def bl ota_checkpoint_wf_def ota_checkpoint_valid_def)
  next
    fix x ea assume r: "ra = Inl ea" "rb = Inr x"
    with load have c: "c = x" "n' = n3" "ea = ESP_ERR_NVS_NOT_FOUND" by (auto split: if_splits)
    have "blobs n ''slot_a'' = None" using absent [OF h1, of "''slot_a''"] a bl r c by simp
    with ok3 some' [OF r(2)] c show ?thesis
      by (auto simp: ota_room_def newest_ota_def ab_newest_def ab_slot_def bl ota_checkpoint_wf_def ota_checkpoint_valid_def)
  next
    fix x y assume r: "ra = Inr x" "rb = Inr y"
    with load have c: "c = (if ck_generation y \<le> ck_generation x then x else y)" "n' = n3" by (auto split: if_splits)
    with ok3 some [OF r(1)] some' [OF r(2)] show ?thesis
      by (auto simp: ota_room_def newest_ota_def ab_newest_def ab_slot_def bl ota_checkpoint_wf_def ota_checkpoint_valid_def)
  qed
qed

lemma checkpoint_stage_change_step:
  assumes ch: "checkpoint_stage_change stage err w = (e, w')" and code: "ota_stage_code stage \<le> 8"
    and ok: "ota_slots_ok (w_nvs w)" "honest (w_nvs w)"
  shows "same_image w w' \<and> (e = ESP_OK \<longrightarrow> (\<exists>c. pm_ota_load_checkpoint (reboot (w_nvs w')) = (Inr c, reboot (w_nvs w')) \<and>
    ck_stage c = stage \<and> ck_last_error c = err))"
proof -
  obtain r n where l: "pm_ota_load_checkpoint (w_nvs w) = (r, n)" by (metis prod.exhaust)
  show ?thesis
  proof (cases r)
    case (Inl e1)
    have "e1 \<noteq> ESP_OK"
      using l Inl read_checkpoint_not_ok unfolding pm_ota_load_checkpoint_def Let_def
      by (auto split: prod.splits if_splits sum.splits) (metis fst_conv)+
    with ch l Inl show ?thesis by (auto simp: checkpoint_stage_change_def same_image_def)
  next
    case (Inr c)
    let ?c = "c\<lparr>ck_stage := stage, ck_last_error := err\<rparr>"
    obtain c' where p: "persist_in ?c (w\<lparr>w_nvs := n\<rparr>) = (e, c', w')"
      using ch l Inr by (auto simp: checkpoint_stage_change_def split: prod.splits)
    have st: "ota_slots_ok n" "ota_room (ck_generation c) n" "ota_checkpoint_wf c"
      using load_checkpoint_storage [OF _ ok] l Inr by simp_all
    have "same_image w w'" using same_image_persist [OF p] by (simp add: same_image_def)
    moreover obtain n' where n': "w' = w\<lparr>w_nvs := n'\<rparr>" "persist_checkpoint ?c n = (e, c', n')"
      using p by (rule persist_in_eq) simp
    have "ota_slots_ok n' \<and> (e = ESP_OK \<longrightarrow> c' = seal_ota_checkpoint ?c \<and> newest_ota n' = Some c')"
      using persist_checkpoint_storage [OF n'(2)] st code by (auto simp: ota_checkpoint_wf_def split: if_splits)
    moreover have "ck_last_error (seal_ota_checkpoint ?c) = err" by (simp add: seal_ota_checkpoint_def Let_def)
    ultimately show ?thesis using n'(1) load_checkpoint_newest [of "reboot n'"] by auto
  qed
qed

text \<open>
  C7. A new image is confirmed only when it works. \<open>pm_ota_post_boot_validate\<close> marks the running image valid only
  if it was pending verification, all five health checks hold and the checkpoint of stage
  \<open>PM_OTA_VALID\<close> is durable; it starts a rollback only if the image was pending, a check fails and
  \<open>PM_OTA_ROLLED_BACK\<close> is durable. When it returns an error the image's state is what it was,
  so the boot loader rolls back at the next reset.
\<close>

theorem ota_confirmation_safe:
  assumes "pm_ota_post_boot_validate config scheduler watchdog telemetry network w = (e, w')"
    and "ota_slots_ok (w_nvs w)" "honest (w_nvs w)" "\<not> w_rebooting w"
  shows "(w_image_state w' = w_image_state w \<and> \<not> w_rebooting w' \<or>
     w_image_state w = ESP_OTA_IMG_PENDING_VERIFY \<and> w_image_state w' = ESP_OTA_IMG_VALID \<and> \<not> w_rebooting w' \<and> e = ESP_OK \<and>
       config \<and> scheduler \<and> watchdog \<and> telemetry \<and> network \<and>
       (\<exists>c. pm_ota_load_checkpoint (reboot (w_nvs w')) = (Inr c, reboot (w_nvs w')) \<and> ck_stage c = PM_OTA_VALID) \<or>
     w_image_state w = ESP_OTA_IMG_PENDING_VERIFY \<and> w_image_state w' = ESP_OTA_IMG_INVALID \<and> w_rebooting w' \<and> e = ESP_OK \<and>
       \<not> (config \<and> scheduler \<and> watchdog \<and> telemetry \<and> network) \<and>
       (\<exists>c. pm_ota_load_checkpoint (reboot (w_nvs w')) = (Inr c, reboot (w_nvs w')) \<and> ck_stage c = PM_OTA_ROLLED_BACK)) \<and>
    (e \<noteq> ESP_OK \<longrightarrow> w_image_state w' = w_image_state w) \<and> w_boot w' = w_boot w"
proof -
  let ?all = "config \<and> scheduler \<and> watchdog \<and> telemetry \<and> network"
  let ?stage = "if ?all then PM_OTA_VALID else PM_OTA_ROLLED_BACK"
  let ?err = "if ?all then 0 else esp_err_code ESP_ERR_INVALID_STATE"
  let ?mark = "if ?all then esp_ota_mark_app_valid_cancel_rollback else esp_ota_mark_app_invalid_rollback_and_reboot"
  obtain e1 w1 where t: "ota_tick w = (e1, w1)" by (metis prod.exhaust)
  note s1 = same_image_tick [OF t]
  obtain e2 w2 where c: "checkpoint_stage_change ?stage ?err w1 = (e2, w2)" by (metis prod.exhaust)
  obtain e3 w3 where t3: "ota_tick w2 = (e3, w3)" by (metis prod.exhaust)
  note s2 = checkpoint_stage_change_step [OF c, unfolded conjunct2 [OF s1], OF _ assms(2,3)] and s3 = same_image_tick [OF t3]
  have code: "ota_stage_code ?stage \<le> 8" by simp
  consider (skip) "(e, w') = (ESP_OK, w1)"
    | (pending) "w_image_state w = ESP_OTA_IMG_PENDING_VERIFY" "(e, w') = ok_then (e2, w2) ?mark"
    using assms(1) c s1 unfolding pm_ota_post_boot_validate_def Let_def t prod.case
    by (auto simp: same_image_def split: if_splits)
  then show ?thesis
  proof cases
    case skip
    with s1 assms(4) show ?thesis by (simp add: same_image_def)
  next
    case pending
    show ?thesis
    proof (cases "e2 = ESP_OK \<and> e3 = ESP_OK")
      case True
      have "w' = (if ?all then w3\<lparr>w_image_state := ESP_OTA_IMG_VALID\<rparr> else w3\<lparr>w_image_state := ESP_OTA_IMG_INVALID, w_rebooting := True\<rparr>)"
        "e = ESP_OK"
        using pending(2) True t3
        by (auto simp: esp_ota_mark_app_valid_cancel_rollback_def esp_ota_mark_app_invalid_rollback_and_reboot_def ota_call_def
            split: if_splits)
      moreover have "w_nvs w3 = w_nvs w2" "\<exists>c. pm_ota_load_checkpoint (reboot (w_nvs w2)) = (Inr c, reboot (w_nvs w2)) \<and> ck_stage c = ?stage"
        using s2 [OF code] s3 True by blast+
      ultimately show ?thesis using s1 s2 [OF code] s3 pending(1) assms(4) by (auto simp: same_image_def)
    next
      case False
      then have "w' = (if e2 = ESP_OK then w3 else w2)"
        using pending(2) t3
        by (auto simp: ok_then_def esp_ota_mark_app_valid_cancel_rollback_def esp_ota_mark_app_invalid_rollback_and_reboot_def
            ota_call_def split: if_splits)
      with s1 s2 [OF code] s3 assms(4) show ?thesis by (simp add: same_image_def)
    qed
  qed
qed

definition fresh_world :: ota_world where
  "fresh_world = \<lparr>w_nvs = \<lparr>blobs = Map.empty, u8s = Map.empty, faults = []\<rparr>, w_outcomes = [], w_boot = 0, w_flash = [],
     w_ota_open = False, w_request = [], w_reports = [], w_image_state = ESP_OTA_IMG_PENDING_VERIFY, w_rebooting = False\<rparr>"

subsection \<open>A good release is installed\<close>

text \<open>A platform on which no call fails.\<close>

definition calm :: "ota_world \<Rightarrow> bool" where
  "calm w \<longleftrightarrow> w_outcomes w = [] \<and> faults (w_nvs w) = []"

lemma calm_ops:
  assumes "calm w"
  shows "ota_tick w = (ESP_OK, w)" "ota_call f w = (ESP_OK, f w)" "calm (report p s w)"
  using assms by (simp_all add: calm_def ota_tick_def ota_call_def report_def)

lemma calm_persist:
  assumes "calm w" "ck_generation c \<noteq> - 1" "ota_checkpoint_wf c"
  shows "\<exists>w'. persist_in c w = (ESP_OK, seal_ota_checkpoint c, w') \<and> calm w'"
proof -
  have "ota_checkpoint_valid (seal_ota_checkpoint c)" using assms(3) by (rule ota.ok_seal)
  with assms(1,2) show ?thesis
    by (simp add: persist_in_def persist_checkpoint_def Let_def ab_store_fault_free read_checkpoint_def nvs_fault_free calm_def)
qed

lemma calm_stage_change:
  assumes "calm w" "blobs (w_nvs w) = Map.empty" "ota_stage_code stage \<le> 8"
  shows "\<exists>w'. checkpoint_stage_change stage err w = (ESP_OK, w') \<and> calm w'"
proof -
  have wf: "ota_checkpoint_wf zero_ota_checkpoint" "ck_generation zero_ota_checkpoint = 0"
    by (simp_all add: ota_checkpoint_wf_def zero_ota_checkpoint_def)
  let ?c = "seal_ota_checkpoint zero_ota_checkpoint"
  obtain n where n: "persist_checkpoint zero_ota_checkpoint (w_nvs w) = (ESP_OK, ?c, n)" "faults n = []"
    using calm_persist [OF assms(1), of zero_ota_checkpoint] wf by (auto simp: persist_in_def calm_def split: prod.splits)
  have "pm_ota_load_checkpoint (w_nvs w) = (Inr ?c, n)"
    using assms(1,2) n by (simp add: pm_ota_load_checkpoint_def read_checkpoint_def nvs_fault_free calm_def)
  moreover have "calm (w\<lparr>w_nvs := n\<rparr>)" using assms(1) n by (simp add: calm_def)
  then obtain w' where "persist_in (?c\<lparr>ck_stage := stage, ck_last_error := err\<rparr>) (w\<lparr>w_nvs := n\<rparr>) =
      (ESP_OK, seal_ota_checkpoint (?c\<lparr>ck_stage := stage, ck_last_error := err\<rparr>), w')" "calm w'"
    using calm_persist [of "w\<lparr>w_nvs := n\<rparr>" "?c\<lparr>ck_stage := stage, ck_last_error := err\<rparr>"] wf assms(3)
    by (auto simp: ota_checkpoint_wf_def)
  ultimately show ?thesis by (simp add: checkpoint_stage_change_def)
qed

lemma demo_confirmation:
  "\<exists>w'. pm_ota_post_boot_validate True True True True True fresh_world = (ESP_OK, w') \<and> w_image_state w' = ESP_OTA_IMG_VALID"
proof -
  have c: "calm fresh_world" by (simp add: fresh_world_def calm_def)
  obtain w' where w: "checkpoint_stage_change PM_OTA_VALID 0 fresh_world = (ESP_OK, w')" "calm w'"
    using calm_stage_change [OF c, of PM_OTA_VALID 0] by (auto simp: fresh_world_def)
  then show ?thesis
    unfolding pm_ota_post_boot_validate_def Let_def calm_ops(1) [OF c]
    by (simp add: esp_ota_mark_app_valid_cancel_rollback_def calm_ops) (simp add: fresh_world_def)
qed

theorem ota_confirmation_safe_witness:
  "let (e, w') = pm_ota_post_boot_validate True True True True True fresh_world in w_image_state w' = ESP_OTA_IMG_VALID \<and>
     (\<exists>c. pm_ota_load_checkpoint (reboot (w_nvs w')) = (Inr c, reboot (w_nvs w')) \<and> ck_stage c = PM_OTA_VALID)"
proof -
  obtain e w' where p: "pm_ota_post_boot_validate True True True True True fresh_world = (e, w')" by (metis prod.exhaust)
  have "ota_slots_ok (w_nvs fresh_world)" "honest (w_nvs fresh_world)" "\<not> w_rebooting fresh_world"
    by (simp_all add: fresh_world_def ota_slots_ok_def ota_slot_ok_def honest_def)
  from ota_confirmation_safe [OF p this] demo_confirmation p show ?thesis by (auto simp: fresh_world_def)
qed

lemma calm_send: "calm w \<Longrightarrow> \<exists>w'. send_request h w = (ESP_OK, w') \<and> calm w'"
  by (simp add: send_request_def request_headers_def esp_http_client_set_header_def calm_ops calm_def ota_call_def ota_tick_def)

text \<open>The chunks of a body: none is empty and none exceeds the buffer.\<close>

fun chunk_bytes :: "http_read \<Rightarrow> u8 list" where
  "chunk_bytes (Received b) = b"
| "chunk_bytes Read_Failed = []"

definition good_chunk :: "http_read \<Rightarrow> bool" where
  "good_chunk r \<longleftrightarrow> (case r of Received b \<Rightarrow> b \<noteq> [] \<and> length b \<le> PM_OTA_BUFFER_SIZE | Read_Failed \<Rightarrow> False)"

lemma calm_chunk:
  assumes "calm w" "good_chunk r" "ota_checkpoint_wf c" "ck_image_size c = mf_image_size m"
    and "unat (ck_bytes_written c) + length (chunk_bytes r) \<le> unat (mf_image_size m)" "unat (mf_image_size m) + 4096 < 2 ^ 32"
    and "unat (ck_generation c) \<le> 2 + unat (ck_bytes_written c)"
  shows "\<exists>c' w'. download_chunk m r c hashed w = (ESP_OK, c', hashed @ chunk_bytes r, w') \<and> calm w' \<and>
    w_flash w' = w_flash w @ chunk_bytes r \<and> ota_checkpoint_wf c' \<and>
    ck_image_size c' = mf_image_size m \<and> unat (ck_bytes_written c') = unat (ck_bytes_written c) + length (chunk_bytes r) \<and>
    unat (ck_generation c') \<le> 2 + unat (ck_bytes_written c')"
proof -
  obtain b where r: "r = Received b" "b \<noteq> []" "length b \<le> 4096" "take PM_OTA_BUFFER_SIZE b = b"
    using assms(2) by (auto simp: good_chunk_def PM_OTA_BUFFER_SIZE_def split: http_read.splits)
  let ?n = "ck_bytes_written c + of_nat (length b)"
  let ?c1 = "c\<lparr>ck_bytes_written := ?n\<rparr>"
  let ?w3 = "report (download_percent ?n (mf_image_size m)) PM_OTA_DOWNLOADING (w\<lparr>w_flash := w_flash w @ b\<rparr>)"
  have "ck_bytes_written c \<le> mf_image_size m" using assms(3,4) by (simp add: ota_checkpoint_wf_def)
  then have n: "unat ?n = unat (ck_bytes_written c) + length b" using assms(6) r(3) by (rule received_fits)
  have le: "\<not> mf_image_size m < ?n" using assms(5) n r by (simp add: not_less word_le_nat_alt)
  have wf: "ota_checkpoint_wf ?c1" using assms(3,4) le by (simp add: ota_checkpoint_wf_def not_less)
  have calm3: "calm ?w3" using assms(1) by (simp add: calm_def report_def)
  have "unat (ck_generation c) < 2 ^ 32 - 1"
    using assms(5-7) n r(2) by simp
  then have "ck_generation c \<noteq> - 1" by auto
  then have g: "ck_generation ?c1 \<noteq> - 1" "unat (ck_generation c + 1) = Suc (unat (ck_generation c))"
    by (simp_all add: unat_Suc_word)
  obtain w4 where p: "persist_in ?c1 ?w3 = (ESP_OK, seal_ota_checkpoint ?c1, w4)" "calm w4"
    using calm_persist [OF calm3 g(1) wf] by blast
  have "download_chunk m r c hashed w = (if ?n AND 0xFFFF < of_nat (length b) then (ESP_OK, seal_ota_checkpoint ?c1, hashed @ b, w4)
      else (ESP_OK, ?c1, hashed @ b, ?w3))"
    using r le p(1) by (simp add: download_chunk_def Let_def calm_ops(1) [OF assms(1)] esp_ota_write_def calm_ops(2) [OF assms(1)])
  moreover have "w_flash w4 = w_flash w @ b" using same_image_persist [OF p(1)] by (simp add: same_image_def)
  moreover have "Suc (unat (ck_generation c)) \<le> 2 + (unat (ck_bytes_written c) + length b)"
    using assms(7) r(2) by (cases b) simp_all
  ultimately show ?thesis
    using p(2) calm3 wf n g assms(4,7) r(1) by (simp add: seal_ota_wf)
qed

lemma calm_download:
  assumes "calm w" "list_all good_chunk reads" "ota_checkpoint_wf c" "ck_image_size c = mf_image_size m"
    and "unat (ck_bytes_written c) + length (concat (map chunk_bytes reads)) = unat (mf_image_size m)"
    and "unat (mf_image_size m) + 4096 < 2 ^ 32" "unat (ck_generation c) \<le> 2 + unat (ck_bytes_written c)"
  shows "\<exists>c' w'. download m reads c hashed w = (ESP_OK, c', hashed @ concat (map chunk_bytes reads), w') \<and> calm w' \<and>
    w_flash w' = w_flash w @ concat (map chunk_bytes reads) \<and> ota_checkpoint_wf c' \<and> unat (ck_generation c') \<le> 2 + unat (mf_image_size m)"
  using assms
proof (induction reads arbitrary: c hashed w)
  case Nil
  then have "\<not> ck_bytes_written c < mf_image_size m" by (simp add: word_less_nat_alt)
  with Nil show ?case by (simp add: download.simps [of m "[]"])
next
  case (Cons r rs)
  have "unat (ck_bytes_written c) + length (chunk_bytes r) \<le> unat (mf_image_size m)" "chunk_bytes r \<noteq> []"
    using Cons.prems(2,5) by (auto simp: good_chunk_def split: http_read.splits)
  note step = this
  obtain c1 w1 where ch: "download_chunk m r c hashed w = (ESP_OK, c1, hashed @ chunk_bytes r, w1)" "calm w1"
    "w_flash w1 = w_flash w @ chunk_bytes r" "ota_checkpoint_wf c1"
    "ck_image_size c1 = mf_image_size m" "unat (ck_bytes_written c1) = unat (ck_bytes_written c) + length (chunk_bytes r)"
    "unat (ck_generation c1) \<le> 2 + unat (ck_bytes_written c1)"
    using calm_chunk [of w r c m hashed] Cons.prems step(1) by auto
  have "ck_bytes_written c < mf_image_size m"
    using step by (cases "chunk_bytes r") (simp_all add: word_less_nat_alt)
  then have "download m (r # rs) c hashed w = download m rs c1 (hashed @ chunk_bytes r) w1"
    by (simp add: download.simps [of m "r # rs"] ch(1))
  moreover have "\<exists>c' w'. download m rs c1 (hashed @ chunk_bytes r) w1 =
      (ESP_OK, c', (hashed @ chunk_bytes r) @ concat (map chunk_bytes rs), w') \<and> calm w' \<and>
      w_flash w' = w_flash w1 @ concat (map chunk_bytes rs) \<and> ota_checkpoint_wf c' \<and>
      unat (ck_generation c') \<le> 2 + unat (mf_image_size m)"
    using Cons.prems ch by (intro Cons.IH) simp_all
  ultimately show ?case using ch(3) by simp
qed

text \<open>A server that delivers the image of the manifest with an authentic response.\<close>

definition peer_serves ::
    "psa_hash \<Rightarrow> (string \<Rightarrow> u8 list option) \<Rightarrow> ota_peer \<Rightarrow> pm_ota_manifest \<Rightarrow> u8 list \<Rightarrow> int \<Rightarrow> bool" where
  "peer_serves psa b64dec peer m server_key utc \<longleftrightarrow>
     (let cap = foldl capture_response_header_event pm_http_response_capture_init (events peer) in
      client_created peer \<and> buffer_available peer \<and> hash_setup_ok peer \<and> data_complete peer \<and>
      content_length peer = int (unat (mf_image_size m)) \<and> status_code peer = 200 \<and>
      pm_http_response_capture_validate cap True = ESP_OK \<and>
      cstr (etag cap) = [CHR 0x22] @ pm_hex_lower (mf_image_sha256 m) @ [CHR 0x22] \<and>
      list_all good_chunk (body_reads peer) \<and>
      image_accepted psa b64dec peer m server_key utc (concat (map chunk_bytes (body_reads peer))))"

lemma calm_select_boot:
  assumes "calm w" "ota_checkpoint_wf c" "unat (ck_generation c) + 2 < 2 ^ 32"
  shows "\<exists>c' w'. select_boot peer target c w = (ESP_OK, c', w')"
proof -
  have gen: "ck_generation c \<noteq> - 1" using assms(3) by auto
  let ?c1 = "seal_ota_checkpoint (c\<lparr>ck_stage := PM_OTA_IMAGE_VERIFIED\<rparr>)"
  let ?c2 = "?c1\<lparr>ck_stage := PM_OTA_BOOT_SELECTED\<rparr>"
  obtain w1 where p1: "persist_in (c\<lparr>ck_stage := PM_OTA_IMAGE_VERIFIED\<rparr>) w = (ESP_OK, ?c1, w1)" "calm w1"
    using calm_persist [OF assms(1), of "c\<lparr>ck_stage := PM_OTA_IMAGE_VERIFIED\<rparr>"] gen assms(2) by (auto simp: ota_checkpoint_wf_def)
  define w2 where "w2 = (report 95 (ck_stage ?c1) w1)\<lparr>w_boot := target\<rparr>"
  have w2: "calm w2" using p1(2) by (simp add: w2_def calm_def)
  have "unat (ck_generation c + 1) = Suc (unat (ck_generation c))" using gen by (rule unat_Suc_word)
  then have "unat (ck_generation c + 1) \<noteq> unat (- 1 :: u32)" using assms(3) by simp
  then have "ck_generation c + 1 \<noteq> - 1" by metis
  then have "ck_generation ?c2 \<noteq> - 1" by simp
  then obtain w3 where p3: "persist_in ?c2 w2 = (ESP_OK, seal_ota_checkpoint ?c2, w3)"
    using calm_persist [OF w2, of ?c2] assms(2) by (auto simp: ota_checkpoint_wf_def)
  have sb: "esp_ota_set_boot_partition target (report 95 (ck_stage ?c1) w1) = (ESP_OK, w2)"
    using p1(2) by (simp add: esp_ota_set_boot_partition_def calm_ops w2_def)
  show ?thesis unfolding select_boot_def Let_def p1(1) prod.case sb by (simp add: p3)
qed

lemma calm_transfer:
  assumes "calm w" "peer_serves psa b64dec peer m key utc" "w_flash w = []" "length (mf_image_sha256 m) = 32"
    and c: "ck_generation c = 1" "ck_image_size c = mf_image_size m" "ck_bytes_written c = 0"
    and size: "unat (mf_image_size m) + 4096 < 2 ^ 32"
  shows "\<exists>c' w'. transfer psa b64dec peer m key utc h target c w = (ESP_OK, c', w')"
proof -
  let ?img = "concat (map chunk_bytes (body_reads peer))"
  let ?cap = "foldl capture_response_header_event pm_http_response_capture_init (events peer)"
  let ?c = "c\<lparr>ck_stage := PM_OTA_DOWNLOADING\<rparr>"
  note serves = assms(2) [unfolded peer_serves_def Let_def]
  have wf: "ota_checkpoint_wf ?c" using c by (simp add: ota_checkpoint_wf_def)
  obtain w1 where s: "send_request h w = (ESP_OK, w1)" "calm w1" using calm_send [OF assms(1)] by blast
  have f1: "w_flash w1 = []" using same_image_send [OF s(1)] assms(3) by (simp add: same_image_def)
  obtain w3 where p: "persist_in ?c w1 = (ESP_OK, seal_ota_checkpoint ?c, w3)" "calm w3"
    using calm_persist [OF s(2) _ wf] c by auto
  have f3: "w_flash w3 = []" using same_image_persist [OF p(1)] f1 by (simp add: same_image_def)
  have len: "length ?img = unat (mf_image_size m)" "psa ?img = Some (mf_image_sha256 m)"
    "image_matches (description peer ?img) m" using serves by (simp_all add: image_accepted_def)
  obtain c4 w4 where d: "download m (body_reads peer) (seal_ota_checkpoint ?c) [] w3 = (ESP_OK, c4, ?img, w4)" "calm w4"
    "w_flash w4 = ?img" "ota_checkpoint_wf c4" "unat (ck_generation c4) \<le> 2 + unat (mf_image_size m)"
    using calm_download [OF p(2), of "body_reads peer" "seal_ota_checkpoint ?c" m "[]"] serves wf c len size f3
    by (auto simp: seal_ota_wf)
  obtain cache where v: "pm_verify_response_digest psa b64dec key (mf_device_id m) (mf_download_path m) None
     (utc + c_div (elapsed_us peer) 1000) (auth ?cap) (pm_hex_lower (mf_image_sha256 m)) empty_cache = (ESP_OK, cache)"
    using serves unfolding image_accepted_def by (metis prod.collapse)
  have vi: "verify_image psa b64dec peer m key utc ?cap ?img w4 = (ESP_OK, w4\<lparr>w_ota_open := False\<rparr>)"
    using len d(2,3) serves assms(4) v
    by (simp add: verify_image_def pm_constant_time_equal_list esp_ota_end_def calm_ops)
  have "calm (w4\<lparr>w_ota_open := False\<rparr>)" using d(2) by (simp add: calm_def)
  then obtain c5 w5 where b: "select_boot peer target c4 (w4\<lparr>w_ota_open := False\<rparr>) = (ESP_OK, c5, w5)"
    using calm_select_boot [of "w4\<lparr>w_ota_open := False\<rparr>" c4] d(4,5) size by fastforce
  show ?thesis
    unfolding transfer_def Let_def s(1) prod.case calm_ops(1) [OF s(2)] p(1) d(1) vi b using serves by simp
qed

lemma install_good_release:
  assumes "calm w" "pm_ota_verify_manifest psa (running_version peer) m skey = ESP_OK" "cstr ca \<noteq> []" "1704067200000 \<le> utc"
    and "pm_sign_request psa b64enc dkey (mf_device_id m) ''GET'' (mf_download_path m) None utc (request_nonce peer) [] = Inr h"
    and "next_partition peer = Some p" "mf_image_size m \<le> part_size p" "unat (part_size p) + 4096 < 2 ^ 32"
    and "length (mf_image_sha256 m) = 32" "peer_serves psa b64dec peer m skey utc"
  shows "\<exists>w'. pm_ota_install psa b64enc b64dec peer m ca dkey skey utc w = (ESP_OK, w')"
proof -
  let ?c1 = "seal_ota_checkpoint (initial_checkpoint m)"
  obtain w1 where p1: "persist_in (initial_checkpoint m) w = (ESP_OK, ?c1, w1)" "calm w1"
    using calm_persist [OF assms(1), of "initial_checkpoint m"] by auto
  let ?w2 = "report 0 (ck_stage ?c1) w1"
  have c2: "calm ?w2" using p1(2) by (simp add: calm_ops)
  let ?wt = "?w2\<lparr>w_flash := [], w_ota_open := True, w_request := []\<rparr>"
  have bg: "esp_ota_begin ?w2 = (ESP_OK, ?w2\<lparr>w_flash := [], w_ota_open := True\<rparr>)"
    using c2 by (simp add: esp_ota_begin_def calm_ops)
  have size: "unat (mf_image_size m) + 4096 < 2 ^ 32" using assms(7,8) by (simp add: word_le_nat_alt)
  have "calm ?wt" using c2 by (simp add: calm_def)
  then obtain c' w' where tr: "transfer psa b64dec peer m skey utc h (part_id p) ?c1 ?wt = (ESP_OK, c', w')"
    using calm_transfer [of ?wt psa b64dec peer m skey utc ?c1 h "part_id p"] assms(9,10) size by auto
  have "client_created peer" using assms(10) by (simp add: peer_serves_def Let_def)
  then show ?thesis
    unfolding pm_ota_install_def Let_def p1(1) assms(2,5,6) sum.case option.case prod.case bg
    using assms(3,4,7) tr by (simp add: install_cleanup_def Let_def)
qed


text \<open>
  C10. A good release is installed: when the manifest verifies, no platform call fails and the server
  delivers the manifest's image with an authentic response, in whatever chunks that fit the
  buffer, then \<open>pm_ota_install\<close> returns \<open>ESP_OK\<close> and the update partition is selected for the next boot.
\<close>

theorem ota_install_succeeds:
  assumes "calm w" "\<not> w_ota_open w" "pm_ota_verify_manifest psa (running_version peer) m skey = ESP_OK"
    and "cstr ca \<noteq> []" "1704067200000 \<le> utc"
    and "pm_sign_request psa b64enc dkey (mf_device_id m) ''GET'' (mf_download_path m) None utc (request_nonce peer) [] = Inr h"
    and "next_partition peer = Some p" "mf_image_size m \<le> part_size p" "unat (part_size p) + 4096 < 2 ^ 32"
    and "length (mf_image_sha256 m) = 32" "peer_serves psa b64dec peer m skey utc"
  shows "\<exists>w'. pm_ota_install psa b64enc b64dec peer m ca dkey skey utc w = (ESP_OK, w') \<and> w_boot w' = part_id p"
proof -
  obtain w' where i: "pm_ota_install psa b64enc b64dec peer m ca dkey skey utc w = (ESP_OK, w')"
    using install_good_release [OF assms(1,3-11)] by blast
  from install_boot_safe [OF i assms(7,9,10,2)] i show ?thesis by blast
qed

definition release_manifest :: pm_ota_manifest where
  "release_manifest = demo_manifest\<lparr>mf_image_sha256 := replicate 32 7\<rparr>"

definition release_peer :: ota_peer where
  "release_peer = \<lparr>next_partition = Some \<lparr>part_id = 1, part_size = 4194304\<rparr>, running_partition = Some 0,
     running_version = Some ''1.1.9'', request_nonce = replicate 16 5, client_created = True,
     events = [HTTP_EVENT_OTHER,
       HTTP_EVENT_ON_HEADER (Some ''x-pm-protocol'') (Some PM_PROTOCOL_ID),
       HTTP_EVENT_ON_HEADER (Some ''x-pm-device-id'') (Some demo_uuid),
       HTTP_EVENT_ON_HEADER (Some ''x-pm-timestamp'') (Some ''1800000001''),
       HTTP_EVENT_ON_HEADER (Some ''x-pm-nonce'') (Some ''0123456789abcdef''),
       HTTP_EVENT_ON_HEADER (Some ''x-pm-content-sha256'') (Some (pm_hex_lower (replicate 32 7))),
       HTTP_EVENT_ON_HEADER (Some ''x-pm-signature'') (Some (replicate 44 CHR ''A'')),
       HTTP_EVENT_ON_HEADER (Some ''etag'') (Some ([CHR 0x22] @ pm_hex_lower (replicate 32 7) @ [CHR 0x22]))],
     content_length = 3, status_code = 200, body_reads = [Received [1], Received [2, 3]],
     buffer_available = True, hash_setup_ok = True, data_complete = True, elapsed_us = 2000000,
     description = (\<lambda>_. Inr (''power-monitor-sensor-headless'', ''1.2.0''))\<rparr>"

lemma release_verified:
  "pm_ota_verify_manifest demo_psa (running_version release_peer) release_manifest (replicate 32 0) = ESP_OK"
  by code_simp

definition release_capture :: pm_http_response_capture where
  "release_capture = \<lparr>auth = \<lparr>protocol = PM_PROTOCOL_ID, hdr_device_id = demo_uuid, timestamp = ''1800000001'',
     nonce = ''0123456789abcdef'', content_sha256 = pm_hex_lower (replicate 32 7), signature = replicate 44 CHR ''A''\<rparr>,
     etag = [CHR 0x22] @ pm_hex_lower (replicate 32 7) @ [CHR 0x22], seen_mask = 127, invalid = False\<rparr>"

lemma release_captured:
  "foldl capture_response_header_event pm_http_response_capture_init (events release_peer) = release_capture"
  by code_simp

lemma release_timestamp: "timestamp_fresh ''1800000001'' (1800000000000 + c_div 2000000 1000)"
  by (simp add: timestamp_fresh_def cstr_def strtoll_def is_space_def is_digit_def digits_value_def digit_value_def
      INT64_MAX_def c_div_def)

lemma release_response_checks:
  "let h = auth release_capture; sha = pm_hex_lower (replicate 32 7) in
     lowercase_hex_sha256 sha \<and> cstr (protocol h) = PM_PROTOCOL_ID \<and>
     cstr (hdr_device_id h) = cstr (mf_device_id release_manifest) \<and> content_sha256 h = sha \<and> timestamp h = ''1800000001'' \<and>
     length (cstr (nonce h)) = 16 \<and> length (cstr (signature h)) = 44 \<and>
     (case pm_build_canonical ''RESPONSE'' (mf_download_path release_manifest) None (timestamp h) (nonce h) sha PM_CANONICAL_MAX of
        Inl _ \<Rightarrow> False | Inr c \<Rightarrow> mac_matches demo_psa demo_dec (replicate 32 0) c (signature h))"
  by code_simp

lemma release_response:
  "fst (pm_verify_response_digest demo_psa demo_dec (replicate 32 0) (mf_device_id release_manifest)
     (mf_download_path release_manifest) None (1800000000000 + c_div 2000000 1000) (auth release_capture)
     (pm_hex_lower (replicate 32 7)) empty_cache) = ESP_OK"
proof -
  have "\<not> nonce_seen empty_cache d" for d by (simp add: nonce_seen_def empty_cache_def)
  moreover have "pm_constant_time_equal xs xs 64" for xs by (simp add: pm_constant_time_equal_iff)
  ultimately show ?thesis
    using release_response_checks [unfolded Let_def] release_timestamp
    unfolding pm_verify_response_digest_def Let_def
    by (auto simp: PM_RESPONSE_NONCE_MAX_def PM_SIGNATURE_BASE64_SIZE_def split: sum.splits)
qed

lemma release_serves: "peer_serves demo_psa demo_dec release_peer release_manifest (replicate 32 0) 1800000000000"
proof -
  have v: "pm_http_response_capture_validate release_capture True = ESP_OK"
    "cstr (etag release_capture) = [CHR 0x22] @ pm_hex_lower (replicate 32 7) @ [CHR 0x22]"
    "image_matches (description release_peer []) release_manifest"
    by code_simp+
  have d: "description release_peer x = description release_peer []" "elapsed_us release_peer = 2000000"
    "mf_image_sha256 release_manifest = replicate 32 7" "mf_image_size release_manifest = 3"
    "concat (map chunk_bytes (body_reads release_peer)) = [1, 2, 3]" for x
    by (simp_all add: release_peer_def release_manifest_def demo_manifest_def)
  have "image_accepted demo_psa demo_dec release_peer release_manifest (replicate 32 0) 1800000000000 [1, 2, 3]"
    unfolding image_accepted_def d(2,3,4) release_captured d(1) [of "[1, 2, 3]"]
    using release_response v(3) by (simp add: demo_psa_def)
  moreover have "client_created release_peer" "buffer_available release_peer" "hash_setup_ok release_peer"
    "data_complete release_peer" "content_length release_peer = 3" "status_code release_peer = 200"
    "list_all good_chunk (body_reads release_peer)"
    by (simp_all add: release_peer_def good_chunk_def PM_OTA_BUFFER_SIZE_def)
  ultimately show ?thesis
    unfolding peer_serves_def Let_def release_captured d(3,4,5) using v by simp
qed

lemma release_signed:
  "\<exists>h. pm_sign_request demo_psa demo_enc (replicate 32 1) (mf_device_id release_manifest) ''GET'' (mf_download_path release_manifest)
     None 1800000000000 (request_nonce release_peer) [] = Inr h"
proof -
  let ?path = "mf_download_path release_manifest"
  have q: "pm_canonical_query None PM_CANONICAL_QUERY_MAX = Inr []"
    by (simp add: pm_canonical_query_def PM_CANONICAL_QUERY_MAX_def)
  have len: "length (cstr (take 23 (show_int (c_div 1800000000000 1000)))) \<le> 23"
    by (metis cstr_def length_take length_takeWhile_le min.bounded_iff min.cobounded2 order_trans)
  have path: "cstr ?path = ''/api/v1/device/firmware/'' @ demo_uuid" "cstr ''GET'' = ''GET''"
    by code_simp+
  have "length (pm_hex_lower (request_nonce release_peer)) = 32" by (simp add: release_peer_def)
  then have "\<exists>c. pm_build_canonical ''GET'' ?path None (take 23 (show_int (c_div 1800000000000 1000)))
      (pm_hex_lower (request_nonce release_peer)) (pm_hex_lower (pm_sha256 demo_psa [])) PM_CANONICAL_MAX = Inr c"
    unfolding build_canonical_fields [OF q] path
    using len by (simp add: canonical_fields_def PM_HMAC_SCHEME_def PM_CANONICAL_MAX_def path demo_uuid_def)
  then show ?thesis
    by (auto simp: pm_sign_request_def Let_def pm_hmac_sha256_def demo_psa_def demo_enc_def
        PM_SHA256_SIZE_def PM_SIGNATURE_BASE64_SIZE_def)
qed

theorem ota_install_succeeds_witness:
  "\<exists>w'. pm_ota_install demo_psa demo_enc demo_dec release_peer release_manifest ''CA'' (replicate 32 1) (replicate 32 0)
     1800000000000 fresh_world = (ESP_OK, w') \<and> w_boot w' = 1"
proof -
  obtain h where h: "pm_sign_request demo_psa demo_enc (replicate 32 1) (mf_device_id release_manifest) ''GET''
      (mf_download_path release_manifest) None 1800000000000 (request_nonce release_peer) [] = Inr h" using release_signed by blast
  have "calm fresh_world" "\<not> w_ota_open fresh_world" "cstr ''CA'' \<noteq> []"
    "next_partition release_peer = Some \<lparr>part_id = 1, part_size = 4194304\<rparr>"
    "mf_image_size release_manifest \<le> part_size \<lparr>part_id = 1, part_size = 4194304\<rparr>" "length (mf_image_sha256 release_manifest) = 32"
    by (simp_all add: calm_def fresh_world_def release_peer_def release_manifest_def demo_manifest_def cstr_def)
  from ota_install_succeeds [OF this(1,2) release_verified this(3) _ h this(4,5) _ this(6) release_serves] show ?thesis by simp
qed

theorem ota_install_boot_safe_witness:
  "\<exists>w'. pm_ota_install demo_psa demo_enc demo_dec release_peer release_manifest ''CA'' (replicate 32 1) (replicate 32 0)
     1800000000000 fresh_world = (ESP_OK, w') \<and> w_boot w' = 1 \<and> length (w_flash w') = 3"
proof -
  let ?p = "\<lparr>part_id = 1, part_size = 4194304\<rparr> :: partition"
  obtain h where h: "pm_sign_request demo_psa demo_enc (replicate 32 1) (mf_device_id release_manifest) ''GET''
      (mf_download_path release_manifest) None 1800000000000 (request_nonce release_peer) [] = Inr h" using release_signed by blast
  have f: "calm fresh_world" "\<not> w_ota_open fresh_world" "cstr ''CA'' \<noteq> []" "next_partition release_peer = Some ?p"
    "mf_image_size release_manifest \<le> part_size ?p" "length (mf_image_sha256 release_manifest) = 32"
    by (simp_all add: calm_def fresh_world_def release_peer_def release_manifest_def demo_manifest_def cstr_def)
  obtain w' where i: "pm_ota_install demo_psa demo_enc demo_dec release_peer release_manifest ''CA'' (replicate 32 1)
      (replicate 32 0) 1800000000000 fresh_world = (ESP_OK, w')"
    using install_good_release [OF f(1) release_verified f(3) _ h f(4,5) _ f(6) release_serves] by auto
  have "unat (part_size ?p) + 4096 < 2 ^ 32" by simp
  from ota_install_boot_safe [OF i f(4) this f(6,2)] i show ?thesis
    by (simp add: image_accepted_def release_manifest_def demo_manifest_def)
qed

text \<open>
  C17. An installation can be invisible to the next boot although its checkpoint was stored. \<open>pm_ota_install\<close> starts its checkpoint at
  generation 0 whatever storage holds. On a device whose slot B still has a checkpoint of an earlier installation with a generation above
  1, an installation of a verified manifest that ends between its first checkpoint and the transfer (no partition for it, image larger
  than the partition, no HTTP client) has written that checkpoint to slot A without an error, and the next boot loads the
  earlier installation's checkpoint instead, with its stage and error.
\<close>

theorem ota_first_checkpoint_shadowed:
  assumes "pm_ota_install psa b64enc b64dec peer m ca dkey skey utc w = (e, w')"
    and "pm_ota_verify_manifest psa (running_version peer) m skey = ESP_OK" "cstr ca \<noteq> []" "1704067200000 \<le> utc"
    and "pm_sign_request psa b64enc dkey (mf_device_id m) ''GET'' (mf_download_path m) None utc (request_nonce peer) [] = Inr h"
    and "next_partition peer = None \<or> (\<exists>p. next_partition peer = Some p \<and> (part_size p < mf_image_size m \<or> \<not> client_created peer))"
    and "faults (w_nvs w) = []" "ota_slots_ok (w_nvs w)" "blobs (w_nvs w) ''slot_b'' = Some (Blob old)" "1 < ck_generation old"
  shows "e \<noteq> ESP_OK \<and> (0, PM_OTA_MANIFEST_VERIFIED) \<in> set (w_reports w') \<and>
    (\<exists>c. blobs (w_nvs w') ''slot_a'' = Some (Blob c) \<and> ota_checkpoint_valid c \<and> ck_image_sha256 c = mf_image_sha256 m) \<and>
    pm_ota_load_checkpoint (reboot (w_nvs w')) = (Inr old, reboot (w_nvs w'))"
proof -
  let ?c = "seal_ota_checkpoint (initial_checkpoint m)"
  obtain n where n: "persist_checkpoint (initial_checkpoint m) (w_nvs w) = (ESP_OK, ?c, n)" "blobs n ''slot_a'' = Some (Blob ?c)"
    "pm_ota_load_checkpoint (reboot n) = (Inr old, reboot n)"
    using first_checkpoint_shadowed [OF assms(7-10), of "initial_checkpoint m"] by auto
  have p: "persist_in (initial_checkpoint m) w = (ESP_OK, ?c, w\<lparr>w_nvs := n\<rparr>)" by (simp add: persist_in_def n(1))
  let ?w = "report 0 PM_OTA_MANIFEST_VERIFIED (w\<lparr>w_nvs := n\<rparr>)"
  have stage: "ck_stage ?c = PM_OTA_MANIFEST_VERIFIED" "ck_image_sha256 ?c = mf_image_sha256 m"
    by (simp_all add: initial_checkpoint_def seal_ota_checkpoint_def Let_def)
  have valid: "ota_checkpoint_valid ?c" by (rule ota.ok_seal) simp
  obtain e3 w3 where t: "ota_tick ?w = (e3, w3)" by (metis prod.exhaust)
  obtain e4 w4 where t4: "ota_tick (w3\<lparr>w_flash := [], w_ota_open := True\<rparr>) = (e4, w4)" by (metis prod.exhaust)
  have rep: "w_reports w3 = w_reports ?w" "w_nvs w3 = n" "w_reports w4 = w_reports ?w" "w_nvs w4 = n"
    using ota_tick_eq [OF t] ota_tick_eq [OF t4] by (auto simp: report_def)
  have "e \<noteq> ESP_OK \<and> (w' = ?w \<or> w' = w3 \<or> w' = esp_ota_abort (w3\<lparr>w_flash := [], w_ota_open := True\<rparr>))"
    using assms(1-6) unfolding pm_ota_install_def Let_def p prod.case stage(1)
    by (auto simp: esp_ota_begin_def ota_call_def t split: if_splits)
  moreover have "w_reports (esp_ota_abort (w3\<lparr>w_flash := [], w_ota_open := True\<rparr>)) = w_reports ?w"
    using rep by (simp add: esp_ota_abort_def t4)
  ultimately show ?thesis using n stage valid rep by (auto simp: report_def)
qed

theorem ota_first_checkpoint_shadowed_witness:
  "let old = seal_ota_checkpoint (zero_ota_checkpoint\<lparr>ck_stage := PM_OTA_VALID, ck_generation := 1\<rparr>);
       n = \<lparr>blobs = [''slot_b'' \<mapsto> Blob old], u8s = Map.empty, faults = []\<rparr>
   in \<exists>e w'. pm_ota_install demo_psa demo_enc demo_dec (release_peer\<lparr>next_partition := None\<rparr>) release_manifest ''CA'' (replicate 32 1)
        (replicate 32 0) 1800000000000 (fresh_world\<lparr>w_nvs := n\<rparr>) = (e, w') \<and> e \<noteq> ESP_OK \<and>
      pm_ota_load_checkpoint (reboot (w_nvs w')) = (Inr old, reboot (w_nvs w'))"
proof -
  let ?old = "seal_ota_checkpoint (zero_ota_checkpoint\<lparr>ck_stage := PM_OTA_VALID, ck_generation := 1\<rparr>)"
  let ?n = "\<lparr>blobs = [''slot_b'' \<mapsto> Blob ?old], u8s = Map.empty, faults = []\<rparr> :: pm_ota_checkpoint nvs"
  let ?peer = "release_peer\<lparr>next_partition := None\<rparr>"
  obtain e w' where i: "pm_ota_install demo_psa demo_enc demo_dec ?peer release_manifest ''CA'' (replicate 32 1)
        (replicate 32 0) 1800000000000 (fresh_world\<lparr>w_nvs := ?n\<rparr>) = (e, w')" by (metis prod.exhaust)
  obtain h where h: "pm_sign_request demo_psa demo_enc (replicate 32 1) (mf_device_id release_manifest) ''GET''
      (mf_download_path release_manifest) None 1800000000000 (request_nonce ?peer) [] = Inr h" using release_signed by auto
  have v: "pm_ota_verify_manifest demo_psa (running_version ?peer) release_manifest (replicate 32 0) = ESP_OK" using release_verified by simp
  have "ota_checkpoint_valid ?old" by (rule ota.ok_seal) (simp add: ota_checkpoint_wf_def zero_ota_checkpoint_def)
  then have n: "faults ?n = []" "ota_slots_ok ?n" "blobs ?n ''slot_b'' = Some (Blob ?old)" "1 < ck_generation ?old"
    by (simp_all add: ota_slots_ok_def ota_slot_ok_def zero_ota_checkpoint_def ab_key_def)
  have "cstr ''CA'' \<noteq> []" by (simp add: cstr_def)
  from ota_first_checkpoint_shadowed [OF i v this _ h] n i show ?thesis by (simp add: Let_def)
qed

end
