(* ===== verification/PM_Network.thy ===== *)
theory PM_Network
  imports PM_Telemetry PM_Config PM_Ota
begin

text \<open>
  The transport half of components/pm_network/pm_network_v2.c: the runtime credentials and their
  snapshots, the telemetry schedule, error classes and health flags, the slot of live samples, and
  \<open>signed_request\<close>, one authenticated exchange with the server. The mutex over the credentials is the argument
  \<open>mutex\<close>, \<open>Some taken\<close> when it could be created. What the clock, the random number generator and the HTTP
  client answer during a request is the record \<open>net_peer\<close>; the request that is handed to the client is part of the
  result. Zeroisation of buffers is not modelled.
\<close>

subsection \<open>Data\<close>

definition PM_NETWORK_RESPONSE_MAX :: nat where "PM_NETWORK_RESPONSE_MAX = 4096"
definition PM_NETWORK_BODY_MAX :: nat where "PM_NETWORK_BODY_MAX = 8192"
definition PM_TELEMETRY_ENDPOINT :: string where "PM_TELEMETRY_ENDPOINT = ''/api/v1/device/telemetry/v2''"
definition PM_CONFIG_ORIGIN_MAX :: nat where "PM_CONFIG_ORIGIN_MAX = 192"
definition PM_TELEMETRY_MIN_SECONDS :: u32 where "PM_TELEMETRY_MIN_SECONDS = 2"
definition PM_TELEMETRY_MAX_SECONDS :: u32 where "PM_TELEMETRY_MAX_SECONDS = 60"

abbreviation ESP_ERR_HTTP_CONNECT :: esp_err where "ESP_ERR_HTTP_CONNECT \<equiv> ESP_ERR_CODE 0x7002"
abbreviation ESP_ERR_HTTP_WRITE_DATA :: esp_err where "ESP_ERR_HTTP_WRITE_DATA \<equiv> ESP_ERR_CODE 0x7003"

datatype pm_tls_error_class =
    PM_TLS_ERROR_NONE | PM_TLS_ERROR_DNS | PM_TLS_ERROR_CONNECT_TIMEOUT | PM_TLS_ERROR_HANDSHAKE | PM_TLS_ERROR_CA
  | PM_TLS_ERROR_HOSTNAME | PM_TLS_ERROR_SEND | PM_TLS_ERROR_RECEIVE | PM_TLS_ERROR_SERVER_RESET
  | PM_TLS_ERROR_HTTP_STATUS | PM_TLS_ERROR_RESPONSE_LIMIT

datatype pm_network_health_flag =
    PM_HEALTH_TLS_VALIDATION_FAILURE | PM_HEALTH_WIFI_REPEATED_FAILURE | PM_HEALTH_SERVER_UNAVAILABLE
  | PM_HEALTH_OTA_FAILED | PM_HEALTH_OTA_ROLLED_BACK

fun network_health_bit :: "pm_network_health_flag \<Rightarrow> u32" where
  "network_health_bit PM_HEALTH_TLS_VALIDATION_FAILURE = 1"
| "network_health_bit PM_HEALTH_WIFI_REPEATED_FAILURE = 2"
| "network_health_bit PM_HEALTH_SERVER_UNAVAILABLE = 4"
| "network_health_bit PM_HEALTH_OTA_FAILED = 8"
| "network_health_bit PM_HEALTH_OTA_ROLLED_BACK = 16"

record pm_network_scheduler =
  next_telemetry_us :: int
  telemetry_period_us :: int
  server_backoff :: pm_telemetry_backoff
  request_in_progress :: bool

record pm_network_auth_snapshot =
  as_server_origin :: "char list"
  as_ca_pem :: "char list"
  as_device_id_text :: "char list"
  as_device_to_server_key :: "u8 list"
  as_server_to_device_key :: "u8 list"
  as_config_generation :: u32

record pm_network_context =
  net_config :: pm_config
  device_id_text :: "char list"
  device_to_server_key :: "u8 list"
  server_to_device_key :: "u8 list"
  boot_id :: "char list"
  response_nonce_cache :: pm_nonce_cache
  health_flags :: u32
  last_request_error :: pm_tls_error_class

definition zero_snapshot :: pm_network_auth_snapshot where
  "zero_snapshot = \<lparr>as_server_origin = replicate 193 NUL, as_ca_pem = replicate 4097 NUL,
     as_device_id_text = replicate 37 NUL, as_device_to_server_key = replicate 32 0,
     as_server_to_device_key = replicate 32 0, as_config_generation = 0\<rparr>"

subsection \<open>Credentials\<close>

definition ensure_credential_mutex :: "bool option \<Rightarrow> esp_err" where
  "ensure_credential_mutex mutex = (if mutex = None then ESP_ERR_NO_MEM else ESP_OK)"

definition format_device_id :: "u8 list \<Rightarrow> string" where
  "format_device_id i = pm_hex_lower (take 4 i) @ ''-'' @ pm_hex_lower (take 2 (drop 4 i)) @ ''-'' @
     pm_hex_lower (take 2 (drop 6 i)) @ ''-'' @ pm_hex_lower (take 2 (drop 8 i)) @ ''-'' @
     pm_hex_lower (take 6 (drop 10 i))"

definition pm_network_apply_runtime_config ::
    "psa_hash \<Rightarrow> bool option \<Rightarrow> pm_network_context \<Rightarrow> pm_config \<Rightarrow> esp_err \<times> pm_network_context" where
  "pm_network_apply_runtime_config psa mutex ctx config =
     (if device_secret_len config < 16 \<or> device_secret_len config > 32 \<or>
         \<not> nul_terminated (server_origin config) \<or> \<not> nul_terminated (ca_pem config)
      then (ESP_ERR_INVALID_ARG, ctx)
      else let id_text = store_str 37 (format_device_id (device_id config)) in
        case pm_hkdf_directional_keys psa (take (unat (device_secret_len config)) (device_secret config)) id_text of
          Inl e \<Rightarrow> (e, ctx)
        | Inr (d2s, s2d) \<Rightarrow>
            if ensure_credential_mutex mutex \<noteq> ESP_OK then (ensure_credential_mutex mutex, ctx)
            else if mutex \<noteq> Some True then (ESP_ERR_TIMEOUT, ctx)
            else (ESP_OK, ctx\<lparr>net_config := config, device_id_text := id_text,
                    device_to_server_key := d2s, server_to_device_key := s2d\<rparr>))"

definition pm_network_capture_auth_snapshot ::
    "bool option \<Rightarrow> pm_network_context \<Rightarrow> esp_err \<times> pm_network_auth_snapshot" where
  "pm_network_capture_auth_snapshot mutex ctx =
     (if ensure_credential_mutex mutex \<noteq> ESP_OK then (ensure_credential_mutex mutex, zero_snapshot)
      else if mutex \<noteq> Some True then (ESP_ERR_TIMEOUT, zero_snapshot)
      else let s = \<lparr>as_server_origin = server_origin (net_config ctx), as_ca_pem = ca_pem (net_config ctx),
                    as_device_id_text = device_id_text ctx, as_device_to_server_key = device_to_server_key ctx,
                    as_server_to_device_key = server_to_device_key ctx,
                    as_config_generation = cfg_generation (net_config ctx)\<rparr>
        in if cstr (as_server_origin s) = [] \<or> cstr (as_ca_pem s) = [] \<or> length (cstr (as_device_id_text s)) \<noteq> 36
           then (ESP_ERR_INVALID_STATE, zero_snapshot) else (ESP_OK, s))"

subsection \<open>Schedule\<close>

definition pm_network_scheduler_init :: "int \<Rightarrow> u32 \<Rightarrow> pm_network_scheduler" where
  "pm_network_scheduler_init now_us telemetry_seconds =
     (let bounded = (if telemetry_seconds < PM_TELEMETRY_MIN_SECONDS then PM_TELEMETRY_MIN_SECONDS
                     else if telemetry_seconds > PM_TELEMETRY_MAX_SECONDS then PM_TELEMETRY_MAX_SECONDS
                     else telemetry_seconds)
      in \<lparr>next_telemetry_us = now_us, telemetry_period_us = uint bounded * 1000000,
          server_backoff = pm_telemetry_backoff_reset now_us, request_in_progress = False\<rparr>)"

definition pm_network_telemetry_due :: "pm_network_scheduler \<Rightarrow> int \<Rightarrow> bool" where
  "pm_network_telemetry_due s now_us \<longleftrightarrow> \<not> request_in_progress s \<and> now_us \<ge> next_telemetry_us s \<and>
     pm_telemetry_backoff_due (server_backoff s) now_us"

definition pm_network_telemetry_complete ::
    "pm_network_scheduler \<Rightarrow> int \<Rightarrow> bool \<Rightarrow> u32 \<Rightarrow> pm_network_scheduler" where
  "pm_network_telemetry_complete s now_us success random_value =
     (let s1 = s\<lparr>request_in_progress := False\<rparr> in
      if success
      then s1\<lparr>server_backoff := pm_telemetry_backoff_reset now_us,
              next_telemetry_us := pm_telemetry_next_fixed_deadline (next_telemetry_us s1) now_us (telemetry_period_us s1)\<rparr>
      else let (delay, backoff) = pm_telemetry_backoff_fail (server_backoff s1) now_us random_value
        in s1\<lparr>server_backoff := backoff, next_telemetry_us := now_us + uint delay * 1000\<rparr>)"

definition pm_network_reconnect_delay_ms :: "u32 \<Rightarrow> u32 \<Rightarrow> u32" where
  "pm_network_reconnect_delay_ms attempt random_value =
     fst (pm_telemetry_backoff_fail \<lparr>failures = attempt, next_attempt_us = 0\<rparr> 0 random_value)"

definition pm_network_classify_error :: "esp_err \<Rightarrow> int \<Rightarrow> pm_tls_error_class" where
  "pm_network_classify_error e http_status =
     (if e = ESP_OK \<and> http_status \<ge> 200 \<and> http_status < 300 then PM_TLS_ERROR_NONE
      else if http_status \<noteq> 0 \<and> (http_status < 200 \<or> http_status \<ge> 300) then PM_TLS_ERROR_HTTP_STATUS
      else if e = ESP_ERR_TIMEOUT then PM_TLS_ERROR_CONNECT_TIMEOUT
      else if e = ESP_ERR_HTTP_CONNECT then PM_TLS_ERROR_HANDSHAKE
      else if e = ESP_ERR_HTTP_WRITE_DATA then PM_TLS_ERROR_SEND
      else if e = ESP_ERR_HTTP_INCOMPLETE_DATA then PM_TLS_ERROR_RECEIVE
      else PM_TLS_ERROR_SERVER_RESET)"

subsection \<open>Live samples and health\<close>

definition pm_network_publish_live :: "pm_meter_sample \<Rightarrow> pm_telemetry_slot \<Rightarrow> esp_err \<times> pm_telemetry_slot" where
  "pm_network_publish_live sample slot = (case pm_telemetry_offer slot sample of (e, _, slot') \<Rightarrow> (e, slot'))"

text \<open>The sample and \<open>*present\<close>; an absent sample is zeroed.\<close>

definition pm_network_copy_live :: "pm_telemetry_slot \<Rightarrow> pm_meter_sample \<times> bool" where
  "pm_network_copy_live slot =
     (if pending_present slot then (measurement (pending slot), True)
      else if in_flight_present slot then (measurement (in_flight slot), True)
      else (empty_sample PM_PZEM_OK, False))"

definition pm_network_resident_telemetry_samples :: "pm_telemetry_slot \<Rightarrow> nat" where
  "pm_network_resident_telemetry_samples slot = pm_telemetry_resident_samples slot"

definition pm_network_health_update ::
    "pm_network_health_flag \<Rightarrow> bool \<Rightarrow> pm_network_context \<Rightarrow> pm_network_context" where
  "pm_network_health_update flag active ctx = ctx\<lparr>health_flags :=
     (if active then health_flags ctx OR network_health_bit flag
      else health_flags ctx AND NOT (network_health_bit flag))\<rparr>"

subsection \<open>One authenticated request\<close>

record net_peer =
  np_time :: int
  np_nonce :: "u8 list"
  np_client :: bool
  np_open :: esp_err
  np_written :: int
  np_events :: "http_event list"
  np_content_length :: int
  np_status :: int
  np_reads :: "http_read list"
  np_complete :: bool

record http_request =
  rq_url :: string
  rq_cert_pem :: "char list"
  rq_headers :: "(string \<times> string) list"
  rq_body :: string

definition net_capture_event :: "pm_http_response_capture \<Rightarrow> http_event \<Rightarrow> pm_http_response_capture" where
  "net_capture_event = capture_response_header_event"

fun read_body :: "nat \<Rightarrow> http_read list \<Rightarrow> u8 list \<Rightarrow> esp_err \<times> u8 list" where
  "read_body response_size reads used =
     (if \<not> length used + 1 < response_size then (ESP_OK, used)
      else case reads of
        [] \<Rightarrow> (ESP_OK, used)
      | Read_Failed # _ \<Rightarrow> (ESP_ERR_HTTP_INCOMPLETE_DATA, used)
      | Received data # rs \<Rightarrow>
          let bytes = take (response_size - length used - 1) data
          in if bytes = [] then (ESP_OK, used) else read_body response_size rs (used @ bytes))"

declare read_body.simps [simp del]

definition post_headers :: "pm_auth_headers \<Rightarrow> (string \<times> string) list" where
  "post_headers h = [(''Content-Type'', ''application/json''), (''X-PM-Protocol'', protocol h),
     (''X-PM-Device-ID'', hdr_device_id h), (''X-PM-Timestamp'', timestamp h), (''X-PM-Nonce'', nonce h),
     (''X-PM-Content-SHA256'', content_sha256 h), (''X-PM-Signature'', signature h)]"

abbreviation success_status :: "int \<Rightarrow> bool" where
  "success_status st \<equiv> 200 \<le> st \<and> st < 300"

definition captured_headers :: "net_peer \<Rightarrow> pm_http_response_capture" where
  "captured_headers peer = foldl net_capture_event pm_http_response_capture_init (np_events peer)"

text \<open>The verdict on the announced length and the captured headers, before the body is read.\<close>

definition headers_error :: "net_peer \<Rightarrow> nat \<Rightarrow> esp_err" where
  "headers_error peer response_size =
     (if np_content_length peer < 0 then ESP_ERR_HTTP_INCOMPLETE_DATA
      else if np_content_length peer > int response_size - 1 then ESP_ERR_INVALID_SIZE
      else if success_status (np_status peer) then pm_http_response_capture_validate (captured_headers peer) False
      else ESP_OK)"

text \<open>
  From \<open>esp_http_client_open\<close> to the end of the read loop: the error, the status and the bytes of the
  response.
\<close>

definition exchange :: "net_peer \<Rightarrow> nat \<Rightarrow> nat \<Rightarrow> int \<Rightarrow> esp_err \<times> int \<times> u8 list" where
  "exchange peer body_length response_size status0 =
     (if np_open peer \<noteq> ESP_OK then (np_open peer, status0, [])
      else if np_written peer \<noteq> int body_length then (ESP_ERR_HTTP_WRITE_DATA, status0, [])
      else if headers_error peer response_size \<noteq> ESP_OK then (headers_error peer response_size, np_status peer, [])
      else case read_body response_size (np_reads peer) [] of (e, used) \<Rightarrow>
        (if e = ESP_OK \<and> length used + 1 = response_size \<and> \<not> np_complete peer then ESP_ERR_INVALID_SIZE else e,
         np_status peer, used))"

text \<open>The error, \<open>*status\<close>, the response, the request handed to the client and the context.\<close>

definition signed_request ::
    "psa_hash \<Rightarrow> (u8 list \<Rightarrow> string option) \<Rightarrow> (string \<Rightarrow> u8 list option) \<Rightarrow> bool option \<Rightarrow> net_peer \<Rightarrow> string \<Rightarrow> string \<Rightarrow>
      nat \<Rightarrow> int \<Rightarrow> pm_network_context \<Rightarrow> esp_err \<times> int \<times> u8 list \<times> http_request option \<times> pm_network_context" where
  "signed_request psa b64enc b64dec mutex peer path body response_size status0 ctx =
     (if length (cstr body) > PM_NETWORK_BODY_MAX then (ESP_ERR_INVALID_ARG, status0, [], None, ctx)
      else case pm_network_capture_auth_snapshot mutex ctx of (e0, snap) \<Rightarrow>
        if e0 \<noteq> ESP_OK then (e0, status0, [], None, ctx)
        else let url = cstr (as_server_origin snap) @ cstr path; utc_ms = np_time peer * 1000 in
          if length url \<ge> PM_CONFIG_ORIGIN_MAX + 96 then (ESP_ERR_INVALID_SIZE, status0, [], None, ctx)
          else if utc_ms < 1704067200000 then (ESP_ERR_INVALID_STATE, status0, [], None, ctx)
          else case pm_sign_request psa b64enc (as_device_to_server_key snap) (as_device_id_text snap) ''POST'' path None
                 utc_ms (np_nonce peer) (chars_bytes (cstr body)) of
            Inl e \<Rightarrow> (e, status0, [], None, ctx)
          | Inr h \<Rightarrow>
            if \<not> np_client peer then (ESP_ERR_NO_MEM, status0, [], None, ctx)
            else let rq = \<lparr>rq_url = url, rq_cert_pem = as_ca_pem snap, rq_headers = post_headers h, rq_body = cstr body\<rparr>;
                     (e6, status, used) = exchange peer (length (cstr body)) response_size status0;
                     (e7, cache) =
                       (if e6 \<noteq> ESP_OK then (e6, response_nonce_cache ctx)
                        else if \<not> success_status status then (ESP_ERR_INVALID_RESPONSE, response_nonce_cache ctx)
                        else pm_verify_response psa b64dec (as_server_to_device_key snap) (as_device_id_text snap) path None
                               utc_ms (auth (captured_headers peer)) used (response_nonce_cache ctx));
                     cls = pm_network_classify_error e7 status;
                     ctx1 = ctx\<lparr>response_nonce_cache := cache, last_request_error := cls\<rparr>
              in (e7, status, used, Some rq,
                  pm_network_health_update PM_HEALTH_TLS_VALIDATION_FAILURE
                    (cls = PM_TLS_ERROR_HANDSHAKE \<or> cls = PM_TLS_ERROR_CA \<or> cls = PM_TLS_ERROR_HOSTNAME) ctx1))"

subsection \<open>What a successful request means\<close>

lemma length_read_body: "length used < n \<Longrightarrow> length (snd (read_body n reads used)) < n"
proof (induction n reads used rule: read_body.induct)
  case (1 n reads used)
  show ?case
  proof (cases "length used + 1 < n \<and> (\<exists>d rs. reads = Received d # rs \<and> take (n - length used - 1) d \<noteq> [])")
    case True
    then obtain d rs where r: "length used + 1 < n" "reads = Received d # rs" "take (n - length used - 1) d \<noteq> []" by blast
    have "length (used @ take (n - length used - 1) d) < n" using r(1) by simp
    then show ?thesis using r "1.IH" [of "Received d" rs d] by (simp add: read_body.simps [of n "Received d # rs"] Let_def)
  next
    case False
    then show ?thesis using "1.prems"
      by (auto simp: read_body.simps [of n reads] Let_def split: list.splits http_read.splits)
  qed
qed

lemma snapshot_ok:
  assumes "pm_network_capture_auth_snapshot mutex ctx = (ESP_OK, s)"
  shows "mutex = Some True" "as_server_origin s = server_origin (net_config ctx)" "as_ca_pem s = ca_pem (net_config ctx)"
    "as_device_id_text s = device_id_text ctx" "as_device_to_server_key s = device_to_server_key ctx"
    "as_server_to_device_key s = server_to_device_key ctx" "cstr (as_server_origin s) \<noteq> []" "cstr (as_ca_pem s) \<noteq> []"
    "length (cstr (device_id_text ctx)) = 36"
  using assms
  by (auto simp: pm_network_capture_auth_snapshot_def ensure_credential_mutex_def Let_def split: if_splits)

lemma exchange_ok:
  assumes "exchange peer n cap status0 = (ESP_OK, st, used)" "0 < cap"
  shows "st = np_status peer" "length used < cap"
    "success_status st \<Longrightarrow> pm_http_response_capture_validate (captured_headers peer) False = ESP_OK"
proof -
  obtain e u where r: "read_body cap (np_reads peer) [] = (e, u)" by (metis prod.exhaust)
  have h: "headers_error peer cap = ESP_OK" "st = np_status peer" "used = u"
    using assms(1) r by (auto simp: exchange_def split: if_splits)
  then show "st = np_status peer" "length used < cap"
    using length_read_body [of "[]" cap "np_reads peer"] assms(2) r by simp_all
  show "success_status st \<Longrightarrow> pm_http_response_capture_validate (captured_headers peer) False = ESP_OK"
    using h(1,2) by (simp add: headers_error_def split: if_splits)
qed

text \<open>What only a request that was answered authentically changes.\<close>

definition same_credentials :: "pm_network_context \<Rightarrow> pm_network_context \<Rightarrow> bool" where
  "same_credentials ctx ctx' \<longleftrightarrow> net_config ctx' = net_config ctx \<and> device_id_text ctx' = device_id_text ctx \<and>
     device_to_server_key ctx' = device_to_server_key ctx \<and> server_to_device_key ctx' = server_to_device_key ctx \<and>
     boot_id ctx' = boot_id ctx"

definition request_sent :: "psa_hash \<Rightarrow> (u8 list \<Rightarrow> string option) \<Rightarrow> net_peer \<Rightarrow> string \<Rightarrow> string \<Rightarrow> pm_network_context \<Rightarrow> http_request \<Rightarrow> bool" where
  "request_sent psa b64enc peer path body ctx rq \<longleftrightarrow>
     (\<exists>h. pm_sign_request psa b64enc (device_to_server_key ctx) (device_id_text ctx) ''POST'' path None (np_time peer * 1000)
            (np_nonce peer) (chars_bytes (cstr body)) = Inr h \<and>
          rq = \<lparr>rq_url = cstr (server_origin (net_config ctx)) @ cstr path, rq_cert_pem = ca_pem (net_config ctx),
                rq_headers = post_headers h, rq_body = cstr body\<rparr>)"

lemma sign_request_not_ok: "pm_sign_request psa b64enc key dev meth path q t n body \<noteq> Inl ESP_OK"
  using build_canonical_error
  by (auto simp: pm_sign_request_def Let_def split: sum.split option.split prod.split)

lemma verify_failure_keeps_cache:
  "pm_verify_response psa b64dec key dev path q now h body cache = (e, cache') \<Longrightarrow> e \<noteq> ESP_OK \<Longrightarrow> cache' = cache"
  unfolding pm_verify_response_def pm_verify_response_digest_def Let_def
  by (auto split: if_splits sum.splits)

lemma signed_request_cases:
  assumes r: "signed_request psa b64enc b64dec mutex peer path body cap status0 ctx = (e, st, used, rq, ctx')"
  shows "same_credentials ctx ctx' \<and> (\<forall>q. rq = Some q \<longrightarrow> request_sent psa b64enc peer path body ctx q) \<and>
    (if e = ESP_OK
     then (\<exists>q. rq = Some q) \<and> success_status (np_status peer) \<and>
       exchange peer (length (cstr body)) cap status0 = (ESP_OK, np_status peer, used) \<and>
       pm_verify_response psa b64dec (server_to_device_key ctx) (device_id_text ctx) path None (np_time peer * 1000)
         (auth (captured_headers peer)) used (response_nonce_cache ctx) = (ESP_OK, response_nonce_cache ctx')
     else response_nonce_cache ctx' = response_nonce_cache ctx)"
proof (cases "rq = None")
  case True
  with r have "ctx' = ctx \<and> e \<noteq> ESP_OK"
    by (auto simp: signed_request_def Let_def sign_request_not_ok split: if_splits prod.splits sum.splits)
  with True show ?thesis by (simp add: same_credentials_def)
next
  case False
  obtain e0 snap where s: "pm_network_capture_auth_snapshot mutex ctx = (e0, snap)" by (metis prod.exhaust)
  obtain h where h: "pm_sign_request psa b64enc (as_device_to_server_key snap) (as_device_id_text snap) ''POST'' path None
        (np_time peer * 1000) (np_nonce peer) (chars_bytes (cstr body)) = Inr h"
    and e0: "e0 = ESP_OK" and c: "np_client peer"
    using r False s by (auto simp: signed_request_def Let_def split: if_splits sum.splits)
  obtain e6 st6 u6 where x: "exchange peer (length (cstr body)) cap status0 = (e6, st6, u6)" by (metis prod.exhaust)
  note sn = snapshot_ok [OF s [unfolded e0]]
  let ?v = "if e6 \<noteq> ESP_OK then (e6, response_nonce_cache ctx)
      else if \<not> success_status st6 then (ESP_ERR_INVALID_RESPONSE, response_nonce_cache ctx)
      else pm_verify_response psa b64dec (server_to_device_key ctx) (device_id_text ctx) path None (np_time peer * 1000)
        (auth (captured_headers peer)) u6 (response_nonce_cache ctx)"
  obtain e7 cache where v: "?v = (e7, cache)" by (metis prod.exhaust)
  have q: "e = e7" "st = st6" "used = u6" "response_nonce_cache ctx' = cache" "same_credentials ctx ctx'"
    "rq = Some \<lparr>rq_url = cstr (server_origin (net_config ctx)) @ cstr path, rq_cert_pem = ca_pem (net_config ctx),
                rq_headers = post_headers h, rq_body = cstr body\<rparr>"
    using r False s e0 h c x v sn
    by (auto simp: signed_request_def Let_def pm_network_health_update_def same_credentials_def split: if_splits)
  have ok: "e6 = ESP_OK \<and> success_status st6 \<and>
      pm_verify_response psa b64dec (server_to_device_key ctx) (device_id_text ctx) path None (np_time peer * 1000)
        (auth (captured_headers peer)) u6 (response_nonce_cache ctx) = (ESP_OK, cache)" if "e7 = ESP_OK"
    using v that by (auto split: if_splits)
  have "cache = response_nonce_cache ctx" if "e7 \<noteq> ESP_OK"
    using v that by (auto dest: verify_failure_keeps_cache split: if_splits)
  moreover have "st6 = np_status peer" if "e6 = ESP_OK"
    using x that by (auto simp: exchange_def split: if_splits prod.splits)
  ultimately show ?thesis using q ok x h sn by (auto simp: request_sent_def)
qed

end
