(* ===== verification/PM_Commands.thy ===== *)
theory PM_Commands
  imports PM_Nvs PM_Hash PM_Crc
begin

text \<open>
  components/pm_commands: the ledger of server commands. Eight entries live in RAM and in two
  NVS slots; every operation rewrites the whole ledger under the next generation. A pointer to
  an entry is its index. The recursive mutex around each operation and the heap are the
  arguments \<open>lock\<close> and \<open>alloc\<close> (what \<open>pm_commands_lock\<close> and \<open>malloc\<close> answered); bodies that
  run under the mutex do not interleave. Padding bytes of the structs are zero.
\<close>

subsection \<open>Data\<close>

datatype pm_command_type =
    PM_COMMAND_REBOOT | PM_COMMAND_RESERVED_1 | PM_COMMAND_RESERVED_2 | PM_COMMAND_DIAGNOSTICS_SNAPSHOT
  | PM_COMMAND_NETWORK_SELF_TEST | PM_COMMAND_METER_SELF_TEST | PM_COMMAND_RESERVED_6
  | PM_COMMAND_RESERVED_7 | PM_COMMAND_RESERVED_8 | PM_COMMAND_RESERVED_9 | PM_COMMAND_RESERVED_10
  | PM_COMMAND_OTA_INSTALL | PM_COMMAND_RESERVED_12 | PM_COMMAND_RESERVED_13 | PM_COMMAND_RESERVED_14
  | PM_COMMAND_TYPE_RAW u32

datatype pm_command_state =
    PM_COMMAND_QUEUED | PM_COMMAND_DELIVERED | PM_COMMAND_ACCEPTED | PM_COMMAND_RUNNING
  | PM_COMMAND_SUCCEEDED | PM_COMMAND_FAILED | PM_COMMAND_EXPIRED | PM_COMMAND_CANCELLED
  | PM_COMMAND_SUPERSEDED | PM_COMMAND_AWAITING_REBOOT | PM_COMMAND_AWAITING_HEARTBEAT
  | PM_COMMAND_ROLLED_BACK | PM_COMMAND_STATE_RAW u32

record pm_command =
  command_id :: "char list"
  idempotency_key :: "char list"
  cmd_type :: pm_command_type
  cmd_state :: pm_command_state
  issued_utc_ms :: int
  not_before_utc_ms :: int
  expires_utc_ms :: int
  progress_percent :: u8
  cmd_attempt :: u8
  result_ack_required :: bool
  payload_redacted :: bool
  payload_sha256 :: "u8 list"
  cmd_payload :: "char list"
  result_text :: "char list"
  evidence_json :: "char list"
  result_code :: int
  cmd_crc32 :: u32

record pm_command_ledger =
  entries :: "pm_command list"
  ldg_generation :: u32
  ldg_next :: u8
  ldg_crc32 :: u32

datatype pm_command_boot_action_t =
    PM_COMMAND_BOOT_IGNORE | PM_COMMAND_BOOT_REQUEUE | PM_COMMAND_BOOT_FAIL_INTERRUPTED
  | PM_COMMAND_BOOT_COMPLETE_REBOOT | PM_COMMAND_BOOT_COMPLETE_WAKE | PM_COMMAND_BOOT_RECONCILE_OTA

definition PM_COMMAND_LEDGER_SIZE :: nat where "PM_COMMAND_LEDGER_SIZE = 8"
definition PM_COMMAND_ID_MAX :: nat where "PM_COMMAND_ID_MAX = 36"
definition PM_COMMAND_RESULT_MAX :: nat where "PM_COMMAND_RESULT_MAX = 160"

fun command_type_code :: "pm_command_type \<Rightarrow> u32" where
  "command_type_code PM_COMMAND_REBOOT = 0"
| "command_type_code PM_COMMAND_RESERVED_1 = 1"
| "command_type_code PM_COMMAND_RESERVED_2 = 2"
| "command_type_code PM_COMMAND_DIAGNOSTICS_SNAPSHOT = 3"
| "command_type_code PM_COMMAND_NETWORK_SELF_TEST = 4"
| "command_type_code PM_COMMAND_METER_SELF_TEST = 5"
| "command_type_code PM_COMMAND_RESERVED_6 = 6"
| "command_type_code PM_COMMAND_RESERVED_7 = 7"
| "command_type_code PM_COMMAND_RESERVED_8 = 8"
| "command_type_code PM_COMMAND_RESERVED_9 = 9"
| "command_type_code PM_COMMAND_RESERVED_10 = 10"
| "command_type_code PM_COMMAND_OTA_INSTALL = 11"
| "command_type_code PM_COMMAND_RESERVED_12 = 12"
| "command_type_code PM_COMMAND_RESERVED_13 = 13"
| "command_type_code PM_COMMAND_RESERVED_14 = 14"
| "command_type_code (PM_COMMAND_TYPE_RAW c) = c"

fun command_state_code :: "pm_command_state \<Rightarrow> u32" where
  "command_state_code PM_COMMAND_QUEUED = 0"
| "command_state_code PM_COMMAND_DELIVERED = 1"
| "command_state_code PM_COMMAND_ACCEPTED = 2"
| "command_state_code PM_COMMAND_RUNNING = 3"
| "command_state_code PM_COMMAND_SUCCEEDED = 4"
| "command_state_code PM_COMMAND_FAILED = 5"
| "command_state_code PM_COMMAND_EXPIRED = 6"
| "command_state_code PM_COMMAND_CANCELLED = 7"
| "command_state_code PM_COMMAND_SUPERSEDED = 8"
| "command_state_code PM_COMMAND_AWAITING_REBOOT = 9"
| "command_state_code PM_COMMAND_AWAITING_HEARTBEAT = 10"
| "command_state_code PM_COMMAND_ROLLED_BACK = 11"
| "command_state_code (PM_COMMAND_STATE_RAW c) = c"

definition zero_command :: pm_command where
  "zero_command = \<lparr>command_id = replicate 37 NUL, idempotency_key = replicate 101 NUL,
     cmd_type = PM_COMMAND_REBOOT, cmd_state = PM_COMMAND_QUEUED, issued_utc_ms = 0,
     not_before_utc_ms = 0, expires_utc_ms = 0, progress_percent = 0, cmd_attempt = 0,
     result_ack_required = False, payload_redacted = False, payload_sha256 = replicate 32 0,
     cmd_payload = replicate 1537 NUL, result_text = replicate 161 NUL,
     evidence_json = replicate 385 NUL, result_code = 0, cmd_crc32 = 0\<rparr>"

definition zero_ledger :: pm_command_ledger where
  "zero_ledger = \<lparr>entries = replicate 8 zero_command, ldg_generation = 0, ldg_next = 0, ldg_crc32 = 0\<rparr>"

subsection \<open>Object bytes and checksums\<close>

definition command_prefix_bytes :: "pm_command \<Rightarrow> u8 list" where
  "command_prefix_bytes c =
     chars_bytes (command_id c) @ chars_bytes (idempotency_key c) @ pad 2 @
     le_bytes 4 (command_type_code (cmd_type c)) @ le_bytes 4 (command_state_code (cmd_state c)) @ pad 4 @
     le_bytes 8 (word_of_int (issued_utc_ms c) :: u64) @
     le_bytes 8 (word_of_int (not_before_utc_ms c) :: u64) @
     le_bytes 8 (word_of_int (expires_utc_ms c) :: u64) @
     [progress_percent c, cmd_attempt c] @ bool_byte (result_ack_required c) @
     bool_byte (payload_redacted c) @ payload_sha256 c @ chars_bytes (cmd_payload c) @
     chars_bytes (result_text c) @ chars_bytes (evidence_json c) @ pad 1 @
     le_bytes 4 (word_of_int (result_code c) :: u32)"

definition command_crc :: "pm_command \<Rightarrow> u32" where
  "command_crc c = pm_crc32_ieee (command_prefix_bytes c)"

definition command_bytes :: "pm_command \<Rightarrow> u8 list" where
  "command_bytes c = command_prefix_bytes c @ le_bytes 4 (cmd_crc32 c)"

definition ledger_prefix_bytes :: "pm_command_ledger \<Rightarrow> u8 list" where
  "ledger_prefix_bytes l =
     concat (map command_bytes (entries l)) @ le_bytes 4 (ldg_generation l) @ [ldg_next l] @ pad 3"

definition ledger_crc :: "pm_command_ledger \<Rightarrow> u32" where
  "ledger_crc l = pm_crc32_ieee (ledger_prefix_bytes l)"

definition ledger_bytes :: "pm_command_ledger \<Rightarrow> u8 list" where
  "ledger_bytes l = ledger_prefix_bytes l @ le_bytes 4 (ldg_crc32 l) @ pad 4"

text \<open>\<open>command_id[0] == '\0'\<close>: the entry is free.\<close>

definition vacant :: "pm_command \<Rightarrow> bool" where
  "vacant c \<longleftrightarrow> cstr (command_id c) = []"

definition command_valid :: "psa_hash \<Rightarrow> pm_command \<Rightarrow> bool" where
  "command_valid psa c =
     (if vacant c \<or> command_type_code (cmd_type c) \<ge> 15 \<or> command_state_code (cmd_state c) > 11 \<or>
         progress_percent c > 100 \<or> (result_ack_required c \<and> cmd_state c \<noteq> PM_COMMAND_SUCCEEDED) \<or>
         cmd_crc32 c \<noteq> command_crc c \<or> \<not> nul_terminated (cmd_payload c)
      then False
      else if payload_redacted c then list_all (\<lambda>ch. ch = NUL) (cmd_payload c)
      else pm_constant_time_equal (pm_sha256 psa (chars_bytes (cstr (cmd_payload c)))) (payload_sha256 c) 32)"

fun command_terminal :: "pm_command_state \<Rightarrow> bool" where
  "command_terminal s = (s = PM_COMMAND_SUCCEEDED \<or> s = PM_COMMAND_FAILED \<or> s = PM_COMMAND_EXPIRED \<or>
     s = PM_COMMAND_CANCELLED \<or> s = PM_COMMAND_SUPERSEDED \<or> s = PM_COMMAND_ROLLED_BACK)"

definition ledger_valid :: "psa_hash \<Rightarrow> pm_command_ledger \<Rightarrow> bool" where
  "ledger_valid psa l \<longleftrightarrow> ldg_next l < 8 \<and> ldg_crc32 l = ledger_crc l \<and>
     list_all (\<lambda>c. vacant c \<or> command_valid psa c) (entries l)"

subsection \<open>Persisting and loading\<close>

text \<open>The in-memory part of \<open>persist\<close>.\<close>

definition seal_command :: "pm_command \<Rightarrow> pm_command" where
  "seal_command c = (if vacant c then c else c\<lparr>cmd_crc32 := command_crc c\<rparr>)"

definition seal_ledger :: "pm_command_ledger \<Rightarrow> pm_command_ledger" where
  "seal_ledger l =
     (let l1 = l\<lparr>ldg_generation := ldg_generation l + 1, entries := map seal_command (entries l)\<rparr>
      in l1\<lparr>ldg_crc32 := ledger_crc l1\<rparr>)"

definition persist_ledger ::
    "pm_command_ledger \<Rightarrow> pm_command_ledger nvs \<Rightarrow> esp_err \<times> pm_command_ledger \<times> pm_command_ledger nvs" where
  "persist_ledger l n =
     (if ldg_generation l = - 1 then (ESP_ERR_INVALID_STATE, l, n)
      else let l' = seal_ledger l; (e, n') = ab_store (ab_key (ldg_generation l')) l' n in (e, l', n'))"

datatype pm_ledger_slot_status = PM_LEDGER_SLOT_MISSING | PM_LEDGER_SLOT_INVALID | PM_LEDGER_SLOT_VALID

record pm_ledger_slot_meta =
  meta_status :: pm_ledger_slot_status
  meta_size :: nat
  meta_generation :: u32
  meta_sha256 :: "u8 list"

definition LEDGER_SIZEOF :: nat where "LEDGER_SIZEOF = 18448"

definition zero_meta :: pm_ledger_slot_meta where
  "zero_meta = \<lparr>meta_status = PM_LEDGER_SLOT_MISSING, meta_size = 0, meta_generation = 0,
     meta_sha256 = replicate 32 0\<rparr>"

definition inspect_slot ::
    "psa_hash \<Rightarrow> string \<Rightarrow> pm_command_ledger nvs \<Rightarrow>
      (esp_err \<times> pm_command_ledger \<times> pm_ledger_slot_meta) \<times> pm_command_ledger nvs" where
  "inspect_slot psa key n = (case nvs_get_blob key n of
       (Read_Err e, n') \<Rightarrow>
         ((if e = ESP_ERR_NVS_NOT_FOUND then ESP_OK else e, zero_ledger, zero_meta), n')
     | (Read_Short k l, n') \<Rightarrow>
         ((ESP_OK, l, \<lparr>meta_status = PM_LEDGER_SLOT_INVALID, meta_size = k, meta_generation = 0,
            meta_sha256 = pm_sha256 psa (take k (ledger_bytes l))\<rparr>), n')
     | (Read_Full l, n') \<Rightarrow>
         ((ESP_OK, l,
           \<lparr>meta_status = (if ledger_valid psa l then PM_LEDGER_SLOT_VALID else PM_LEDGER_SLOT_INVALID),
            meta_size = LEDGER_SIZEOF, meta_generation = ldg_generation l,
            meta_sha256 = pm_sha256 psa (ledger_bytes l)\<rparr>), n'))"

definition slot_meta_equal :: "pm_ledger_slot_meta \<Rightarrow> pm_ledger_slot_meta \<Rightarrow> bool" where
  "slot_meta_equal l r \<longleftrightarrow> meta_status l = meta_status r \<and> meta_size l = meta_size r \<and>
     meta_generation l = meta_generation r \<and>
     pm_constant_time_equal (meta_sha256 l) (meta_sha256 r) 32"

definition inspect_both ::
    "psa_hash \<Rightarrow> pm_command_ledger nvs \<Rightarrow>
      (esp_err \<times> pm_ledger_slot_meta \<times> pm_ledger_slot_meta) \<times> pm_command_ledger nvs" where
  "inspect_both psa n =
     (case inspect_slot psa ''slot_a'' n of ((e1, _, a), n1) \<Rightarrow>
        if e1 \<noteq> ESP_OK then ((e1, a, zero_meta), n1)
        else case inspect_slot psa ''slot_b'' n1 of ((e2, _, b), n2) \<Rightarrow> ((e2, a, b), n2))"

text \<open>The part of \<open>commands_load_locked\<close> after the selection: read everything again and compare.\<close>

definition load_selected ::
    "psa_hash \<Rightarrow> pm_ledger_slot_meta \<Rightarrow> pm_ledger_slot_meta \<Rightarrow> pm_command_ledger nvs \<Rightarrow>
      esp_err \<times> pm_command_ledger \<times> pm_command_ledger nvs" where
  "load_selected psa initial_a initial_b n =
     (let sel_a = select_a (meta_status initial_a = PM_LEDGER_SLOT_VALID)
            (meta_status initial_b = PM_LEDGER_SLOT_VALID) (meta_generation initial_a) (meta_generation initial_b);
          ((e, final_a, final_b), n1) = inspect_both psa n in
      if e \<noteq> ESP_OK then (e, zero_ledger, n1)
      else if \<not> slot_meta_equal initial_a final_a \<or> \<not> slot_meta_equal initial_b final_b
      then (ESP_ERR_INVALID_STATE, zero_ledger, n1)
      else let ((e', l, selected_final), n2) = inspect_slot psa (if sel_a then ''slot_a'' else ''slot_b'') n1 in
        if e' \<noteq> ESP_OK then (e', zero_ledger, n2)
        else if meta_status selected_final \<noteq> PM_LEDGER_SLOT_VALID \<or>
          \<not> slot_meta_equal (if sel_a then initial_a else initial_b) selected_final
        then (ESP_ERR_INVALID_STATE, zero_ledger, n2)
        else (ESP_OK, l, n2))"

definition commands_load_locked ::
    "psa_hash \<Rightarrow> pm_command_ledger \<Rightarrow> pm_command_ledger nvs \<Rightarrow>
      esp_err \<times> pm_command_ledger \<times> pm_command_ledger nvs" where
  "commands_load_locked psa l0 n0 =
     (let (e0, n1) = nvs_open n0 in
      if e0 \<noteq> ESP_OK then (e0, l0, n1)
      else let ((e1, a, b), n2) = inspect_both psa n1 in
        if e1 \<noteq> ESP_OK then (e1, zero_ledger, n2)
        else if meta_status a = PM_LEDGER_SLOT_MISSING \<and> meta_status b = PM_LEDGER_SLOT_MISSING
        then persist_ledger zero_ledger n2
        else if meta_status a \<noteq> PM_LEDGER_SLOT_VALID \<and> meta_status b \<noteq> PM_LEDGER_SLOT_VALID
        then (ESP_ERR_INVALID_CRC, zero_ledger, n2)
        else if meta_status a = PM_LEDGER_SLOT_VALID \<and> meta_status b = PM_LEDGER_SLOT_VALID \<and>
          meta_generation a = meta_generation b \<and>
          \<not> pm_constant_time_equal (meta_sha256 a) (meta_sha256 b) 32
        then (ESP_ERR_INVALID_STATE, zero_ledger, n2)
        else load_selected psa a b n2)"

subsection \<open>Operations\<close>

text \<open>
  The idiom of every operation but \<open>zeroize\<close>: \<open>l1\<close> is the ledger with entry \<open>i\<close> rewritten; when it
  cannot be persisted the entry, the cursor, the generation and the checksum of \<open>l\<close> are put back.
\<close>

definition persist_or_restore ::
    "pm_command_ledger \<Rightarrow> pm_command_ledger \<Rightarrow> nat \<Rightarrow> pm_command_ledger nvs \<Rightarrow>
      esp_err \<times> pm_command_ledger \<times> pm_command_ledger nvs" where
  "persist_or_restore l l1 i n =
     (case persist_ledger l1 n of (e, l', n') \<Rightarrow>
        if e \<noteq> ESP_OK
        then (e, l'\<lparr>entries := (entries l')[i := entries l ! i], ldg_next := ldg_next l,
                    ldg_generation := ldg_generation l, ldg_crc32 := ldg_crc32 l\<rparr>, n')
        else (e, l', n'))"

definition same_command :: "pm_command \<Rightarrow> pm_command \<Rightarrow> bool" where
  "same_command entry incoming \<longleftrightarrow> cstr (command_id entry) = cstr (command_id incoming) \<or>
     cstr (idempotency_key entry) = cstr (idempotency_key incoming)"

definition evictable :: "pm_command \<Rightarrow> bool" where
  "evictable c \<longleftrightarrow> vacant c \<or> command_terminal (cmd_state c) \<and> \<not> result_ack_required c"

definition accepted_candidate :: "psa_hash \<Rightarrow> pm_command \<Rightarrow> int \<Rightarrow> pm_command" where
  "accepted_candidate psa incoming now_utc_ms =
     (let c = incoming\<lparr>payload_sha256 := pm_sha256 psa (chars_bytes (cstr (cmd_payload incoming))),
                        payload_redacted := False,
                        cmd_state := (if now_utc_ms > expires_utc_ms incoming then PM_COMMAND_EXPIRED
                                      else PM_COMMAND_ACCEPTED),
                        progress_percent := 0\<rparr>
      in c\<lparr>cmd_crc32 := command_crc c\<rparr>)"

text \<open>The index stored through \<open>stored\<close> and the flag stored through \<open>duplicate\<close>, when they are.\<close>

type_synonym accept_result = "esp_err \<times> (nat \<times> bool) option \<times> pm_command_ledger \<times> pm_command_ledger nvs"

definition accept_new ::
    "psa_hash \<Rightarrow> bool \<Rightarrow> pm_command_ledger \<Rightarrow> pm_command \<Rightarrow> int \<Rightarrow> pm_command_ledger nvs \<Rightarrow> accept_result" where
  "accept_new psa alloc l incoming now_utc_ms n =
     (let candidate = accepted_candidate psa incoming now_utc_ms;
          slots = map (\<lambda>offset. (unat (ldg_next l) + offset) mod PM_COMMAND_LEDGER_SIZE)
                    [0..<PM_COMMAND_LEDGER_SIZE]
      in case List.find (\<lambda>i. evictable (entries l ! i)) slots of
           None \<Rightarrow> (ESP_ERR_NO_MEM, None, l, n)
         | Some selected \<Rightarrow>
             if \<not> alloc then (ESP_ERR_NO_MEM, None, l, n)
             else let l1 = l\<lparr>entries := (entries l)[selected := candidate],
                             ldg_next := of_nat ((selected + 1) mod PM_COMMAND_LEDGER_SIZE)\<rparr>;
                      (e, l', n') = persist_or_restore l l1 selected n
               in if e \<noteq> ESP_OK then (e, None, l', n')
                  else (if cmd_state candidate = PM_COMMAND_EXPIRED then ESP_ERR_TIMEOUT else ESP_OK,
                        Some (selected, False), l', n'))"

definition command_accept_locked ::
    "psa_hash \<Rightarrow> bool \<Rightarrow> pm_command_ledger \<Rightarrow> pm_command \<Rightarrow> int \<Rightarrow> pm_command_ledger nvs \<Rightarrow> accept_result" where
  "command_accept_locked psa alloc l incoming now_utc_ms n =
     (if vacant incoming \<or> cstr (idempotency_key incoming) = [] \<or>
         command_type_code (cmd_type incoming) \<ge> 15 \<or> \<not> nul_terminated (cmd_payload incoming)
      then (ESP_ERR_INVALID_ARG, None, l, n)
      else case List.find (\<lambda>i. same_command (entries l ! i) incoming) [0..<PM_COMMAND_LEDGER_SIZE] of
        Some i \<Rightarrow>
          if cmd_type (entries l ! i) \<noteq> cmd_type incoming \<or>
             \<not> pm_constant_time_equal (payload_sha256 (entries l ! i))
                 (pm_sha256 psa (chars_bytes (cstr (cmd_payload incoming)))) 32
          then (ESP_ERR_INVALID_CRC, None, l, n)
          else (ESP_OK, Some (i, True), l, n)
      | None \<Rightarrow> accept_new psa alloc l incoming now_utc_ms n)"

definition command_transition_locked ::
    "bool \<Rightarrow> pm_command_ledger \<Rightarrow> nat \<Rightarrow> pm_command_state \<Rightarrow> u8 \<Rightarrow> int \<Rightarrow> pm_command_ledger nvs \<Rightarrow>
      esp_err \<times> pm_command_ledger \<times> pm_command_ledger nvs" where
  "command_transition_locked alloc l i st progress code n =
     (let c = entries l ! i in
      if command_state_code st > 11 \<or> progress > 100 \<or> progress < progress_percent c
      then (ESP_ERR_INVALID_ARG, l, n)
      else if (cmd_state c = PM_COMMAND_SUCCEEDED \<or> cmd_state c = PM_COMMAND_FAILED \<or>
               cmd_state c = PM_COMMAND_EXPIRED \<or> cmd_state c = PM_COMMAND_CANCELLED \<or>
               cmd_state c = PM_COMMAND_ROLLED_BACK) \<and> st \<noteq> cmd_state c
      then (ESP_ERR_INVALID_STATE, l, n)
      else if \<not> alloc then (ESP_ERR_NO_MEM, l, n)
      else persist_or_restore l
        (l\<lparr>entries := (entries l)[i := c\<lparr>cmd_state := st, progress_percent := progress,
                                          result_code := code\<rparr>]\<rparr>) i n)"

definition command_acknowledge_result_locked ::
    "pm_command_ledger \<Rightarrow> string \<Rightarrow> pm_command_ledger nvs \<Rightarrow>
      esp_err \<times> pm_command_ledger \<times> pm_command_ledger nvs" where
  "command_acknowledge_result_locked l cid n =
     (if length (cstr cid) \<noteq> PM_COMMAND_ID_MAX then (ESP_ERR_INVALID_ARG, l, n)
      else case List.find (\<lambda>i. cstr (command_id (entries l ! i)) = cstr cid) [0..<PM_COMMAND_LEDGER_SIZE] of
        None \<Rightarrow> (ESP_ERR_NOT_FOUND, l, n)
      | Some i \<Rightarrow>
          if cmd_state (entries l ! i) \<noteq> PM_COMMAND_SUCCEEDED then (ESP_ERR_INVALID_STATE, l, n)
          else if \<not> result_ack_required (entries l ! i) then (ESP_OK, l, n)
          else persist_or_restore l
            (l\<lparr>entries := (entries l)[i := (entries l ! i)\<lparr>result_ack_required := False\<rparr>]\<rparr>) i n)"

definition command_zeroize_payload_locked ::
    "pm_command_ledger \<Rightarrow> nat \<Rightarrow> pm_command_ledger nvs \<Rightarrow>
      esp_err \<times> pm_command_ledger \<times> pm_command_ledger nvs" where
  "command_zeroize_payload_locked l i n =
     (let c = entries l ! i in
      if vacant c then (ESP_ERR_INVALID_ARG, l, n)
      else if payload_redacted c then persist_ledger l n
      else persist_ledger
        (l\<lparr>entries := (entries l)[i := c\<lparr>cmd_payload := replicate (length (cmd_payload c)) NUL,
                                          payload_redacted := True\<rparr>]\<rparr>) n)"

definition command_reconcile_boot_locked ::
    "bool \<Rightarrow> pm_command_ledger \<Rightarrow> nat \<Rightarrow> pm_command_state \<Rightarrow> int \<Rightarrow> string \<Rightarrow> pm_command_ledger nvs \<Rightarrow>
      esp_err \<times> pm_command_ledger \<times> pm_command_ledger nvs" where
  "command_reconcile_boot_locked alloc l i st code txt n =
     (let c = entries l ! i in
      if length (cstr txt) > PM_COMMAND_RESULT_MAX \<or>
         (st \<noteq> PM_COMMAND_SUCCEEDED \<and> st \<noteq> PM_COMMAND_FAILED \<and> st \<noteq> PM_COMMAND_ROLLED_BACK) \<or>
         command_terminal (cmd_state c)
      then (ESP_ERR_INVALID_ARG, l, n)
      else if \<not> alloc then (ESP_ERR_NO_MEM, l, n)
      else persist_or_restore l
        (l\<lparr>entries := (entries l)[i := c\<lparr>cmd_state := st,
             progress_percent := (if st = PM_COMMAND_SUCCEEDED then 100 else progress_percent c),
             result_code := code,
             result_text := cstr txt @ [NUL] @ drop (Suc (length (cstr txt))) (result_text c),
             evidence_json := (evidence_json c)[0 := NUL]\<rparr>]\<rparr>) i n)"

definition pm_command_boot_action :: "pm_command \<Rightarrow> pm_command_boot_action_t" where
  "pm_command_boot_action c =
     (if command_type_code (cmd_type c) \<ge> 15 then PM_COMMAND_BOOT_IGNORE
      else if cmd_state c = PM_COMMAND_ACCEPTED \<or> cmd_state c = PM_COMMAND_RUNNING
      then (if cmd_state c = PM_COMMAND_RUNNING \<and> cmd_type c = PM_COMMAND_OTA_INSTALL
            then PM_COMMAND_BOOT_RECONCILE_OTA
            else if cmd_type c = PM_COMMAND_DIAGNOSTICS_SNAPSHOT \<or>
              cmd_type c = PM_COMMAND_NETWORK_SELF_TEST \<or> cmd_type c = PM_COMMAND_METER_SELF_TEST
            then PM_COMMAND_BOOT_REQUEUE else PM_COMMAND_BOOT_FAIL_INTERRUPTED)
      else if cmd_state c = PM_COMMAND_AWAITING_REBOOT
      then (if cmd_type c = PM_COMMAND_REBOOT then PM_COMMAND_BOOT_COMPLETE_REBOOT
            else if cmd_type c = PM_COMMAND_OTA_INSTALL then PM_COMMAND_BOOT_RECONCILE_OTA
            else PM_COMMAND_BOOT_FAIL_INTERRUPTED)
      else if cmd_state c = PM_COMMAND_AWAITING_HEARTBEAT then PM_COMMAND_BOOT_FAIL_INTERRUPTED
      else PM_COMMAND_BOOT_IGNORE)"

text \<open>The public entry points take the mutex first.\<close>

definition locked :: "bool \<Rightarrow> pm_command_ledger \<Rightarrow> pm_command_ledger nvs \<Rightarrow>
      esp_err \<times> pm_command_ledger \<times> pm_command_ledger nvs \<Rightarrow>
      esp_err \<times> pm_command_ledger \<times> pm_command_ledger nvs" where
  "locked lock l n result = (if \<not> lock then (ESP_ERR_NO_MEM, l, n) else result)"

definition pm_commands_load where
  "pm_commands_load lock psa l n = locked lock l n (commands_load_locked psa l n)"

definition pm_command_accept where
  "pm_command_accept lock psa alloc l incoming now n =
     (if \<not> lock then (ESP_ERR_NO_MEM, None, l, n) else command_accept_locked psa alloc l incoming now n)"

definition pm_command_transition where
  "pm_command_transition lock alloc l i st progress code n =
     locked lock l n (command_transition_locked alloc l i st progress code n)"

definition pm_command_acknowledge_result where
  "pm_command_acknowledge_result lock l cid n =
     locked lock l n (command_acknowledge_result_locked l cid n)"

definition pm_command_zeroize_payload where
  "pm_command_zeroize_payload lock l i n = locked lock l n (command_zeroize_payload_locked l i n)"

definition pm_command_reconcile_boot where
  "pm_command_reconcile_boot lock alloc l i st code txt n =
     locked lock l n (command_reconcile_boot_locked alloc l i st code txt n)"

subsection \<open>Names\<close>

definition type_names :: "string list" where
  "type_names = [''reboot'', ''unsupported'', ''unsupported'', ''diagnostics_snapshot'',
     ''network_self_test'', ''meter_self_test'', ''unsupported'', ''unsupported'', ''unsupported'',
     ''unsupported'', ''unsupported'', ''ota_install'', ''unsupported'', ''unsupported'', ''unsupported'']"

definition state_names :: "string list" where
  "state_names = [''queued'', ''delivered'', ''accepted'', ''running'', ''succeeded'', ''failed'',
     ''expired'', ''cancelled'', ''superseded'', ''awaiting_reboot'', ''awaiting_heartbeat'', ''rolled_back'']"

definition pm_command_type_name :: "pm_command_type \<Rightarrow> string" where
  "pm_command_type_name t = (if command_type_code t < 15 then type_names ! unat (command_type_code t)
     else ''invalid'')"

definition pm_command_state_name :: "pm_command_state \<Rightarrow> string" where
  "pm_command_state_name st = (if command_state_code st \<le> 11 then state_names ! unat (command_state_code st)
     else ''invalid'')"

definition supported_commands :: "(string \<times> pm_command_type) list" where
  "supported_commands = [(''reboot'', PM_COMMAND_REBOOT),
     (''diagnostics_snapshot'', PM_COMMAND_DIAGNOSTICS_SNAPSHOT),
     (''network_self_test'', PM_COMMAND_NETWORK_SELF_TEST),
     (''meter_self_test'', PM_COMMAND_METER_SELF_TEST), (''ota_install'', PM_COMMAND_OTA_INSTALL)]"

definition pm_command_type_from_name :: "string \<Rightarrow> pm_command_type option" where
  "pm_command_type_from_name name = map_of supported_commands name"

subsection \<open>Sealing\<close>

lemma command_crc_update [simp]: "command_crc (c\<lparr>cmd_crc32 := x\<rparr>) = command_crc c"
  by (simp add: command_crc_def command_prefix_bytes_def)

lemma ledger_crc_update [simp]: "ledger_crc (l\<lparr>ldg_crc32 := x\<rparr>) = ledger_crc l"
  by (simp add: ledger_crc_def ledger_prefix_bytes_def)

lemma vacant_update [simp]: "vacant (c\<lparr>cmd_crc32 := x\<rparr>) = vacant c"
  by (simp add: vacant_def)

lemma seal_command_idem [simp]: "seal_command (seal_command c) = seal_command c"
  by (simp add: seal_command_def)

lemma seal_command_simps [simp]:
  "vacant (seal_command c) = vacant c" "command_id (seal_command c) = command_id c"
  "idempotency_key (seal_command c) = idempotency_key c"
  by (simp_all add: seal_command_def)

lemma seal_ledger_simps [simp]:
  "entries (seal_ledger l) = map seal_command (entries l)"
  "ldg_generation (seal_ledger l) = ldg_generation l + 1"
  "ldg_next (seal_ledger l) = ldg_next l"
  "ldg_crc32 (seal_ledger l) = ledger_crc (seal_ledger l)"
  by (simp_all add: seal_ledger_def Let_def)

text \<open>
  What the code keeps true of the ledger in RAM: eight entries, a cursor in range, every
  occupied entry valid once its checksum is current.
\<close>

definition ledger_wf :: "psa_hash \<Rightarrow> pm_command_ledger \<Rightarrow> bool" where
  "ledger_wf psa l \<longleftrightarrow> length (entries l) = 8 \<and> ldg_next l < 8 \<and>
     list_all (\<lambda>c. vacant c \<or> command_valid psa (seal_command c)) (entries l)"

text \<open>Two ledgers that differ at most in entries whose checksum the second has renewed.\<close>

definition refreshed :: "pm_command_ledger \<Rightarrow> pm_command_ledger \<Rightarrow> bool" where
  "refreshed l l' \<longleftrightarrow> l' = l\<lparr>entries := entries l'\<rparr> \<and>
     list_all2 (\<lambda>c c'. c' = c \<or> c' = seal_command c) (entries l) (entries l')"

lemma ledger_valid_seal: "ledger_wf psa l \<Longrightarrow> ledger_valid psa (seal_ledger l)"
  by (auto simp: ledger_valid_def ledger_wf_def list_all_iff)

lemma ledger_wf_seal [simp]: "ledger_wf psa (seal_ledger l) = ledger_wf psa l"
  by (auto simp: ledger_wf_def list_all_iff)

interpretation ledger: ab_slots ldg_generation "ledger_valid psa" seal_ledger "ledger_wf psa" for psa
  by unfold_locales (simp_all add: ledger_valid_seal)

subsection \<open>What the next boot loads\<close>

definition ledger_paced :: "psa_hash \<Rightarrow> u32 \<Rightarrow> pm_command_ledger nvs \<Rightarrow> bool" where
  "ledger_paced psa g n \<longleftrightarrow> ab_paced ldg_generation (ledger_valid psa) g (blobs n) \<and>
     blobs n ''slot_a'' \<noteq> Some Long_Blob \<and> blobs n ''slot_b'' \<noteq> Some Long_Blob"

definition newest_ledger :: "psa_hash \<Rightarrow> pm_command_ledger nvs \<Rightarrow> pm_command_ledger option" where
  "newest_ledger psa n = ab_newest ldg_generation (ledger_valid psa) (blobs n)"

fun slot_contents :: "psa_hash \<Rightarrow> pm_command_ledger blob option \<Rightarrow> pm_command_ledger \<times> pm_ledger_slot_meta" where
  "slot_contents psa None = (zero_ledger, zero_meta)"
| "slot_contents psa (Some (Blob l)) =
     (l, \<lparr>meta_status = (if ledger_valid psa l then PM_LEDGER_SLOT_VALID else PM_LEDGER_SLOT_INVALID),
          meta_size = LEDGER_SIZEOF, meta_generation = ldg_generation l,
          meta_sha256 = pm_sha256 psa (ledger_bytes l)\<rparr>)"
| "slot_contents psa (Some (Short_Blob k l)) =
     (l, \<lparr>meta_status = PM_LEDGER_SLOT_INVALID, meta_size = k, meta_generation = 0,
          meta_sha256 = pm_sha256 psa (take k (ledger_bytes l))\<rparr>)"
| "slot_contents psa (Some Long_Blob) = (zero_ledger, zero_meta)"

lemma inspect_slot_fault_free:
  "faults n = [] \<Longrightarrow> blobs n key \<noteq> Some Long_Blob \<Longrightarrow>
     inspect_slot psa key n = ((ESP_OK, slot_contents psa (blobs n key)), n)"
  by (auto simp: inspect_slot_def nvs_fault_free split: option.split blob.split)

lemma inspect_both_fault_free:
  "faults n = [] \<Longrightarrow> blobs n ''slot_a'' \<noteq> Some Long_Blob \<Longrightarrow> blobs n ''slot_b'' \<noteq> Some Long_Blob \<Longrightarrow>
     inspect_both psa n = ((ESP_OK, snd (slot_contents psa (blobs n ''slot_a'')),
       snd (slot_contents psa (blobs n ''slot_b''))), n)"
  by (simp add: inspect_both_def inspect_slot_fault_free split: prod.split)

lemma slot_meta_equal_refl [simp]: "slot_meta_equal m m"
  by (simp add: slot_meta_equal_def pm_constant_time_equal_iff)

lemma slot_contents_valid:
  "meta_status (snd (slot_contents psa b)) = PM_LEDGER_SLOT_VALID \<longleftrightarrow> ab_slot (ledger_valid psa) b \<noteq> None"
  "ab_slot (ledger_valid psa) b = Some l \<Longrightarrow> fst (slot_contents psa b) = l \<and>
     meta_generation (snd (slot_contents psa b)) = ldg_generation l \<and> b = Some (Blob l)"
  by (cases "(psa, b)" rule: slot_contents.cases; auto simp: ab_slot_def zero_meta_def split: if_splits)+

lemma ab_newest_select:
  assumes "ab_newest gen ok m = Some x"
  defines "a \<equiv> ab_slot ok (m ''slot_a'')" and "b \<equiv> ab_slot ok (m ''slot_b'')"
  shows "a \<noteq> None \<or> b \<noteq> None"
    and "(\<And>y. a = Some y \<Longrightarrow> ga = gen y) \<Longrightarrow> (\<And>y. b = Some y \<Longrightarrow> gb = gen y) \<Longrightarrow>
      (if select_a (a \<noteq> None) (b \<noteq> None) ga gb then a else b) = Some x"
  using assms(1) unfolding ab_newest_def a_def [symmetric] b_def [symmetric]
  by (cases a; cases b; auto simp: select_a_def split: if_splits)+

lemma commands_load_newest:
  assumes paced: "ledger_paced psa g n" and newest: "newest_ledger psa n = Some l" and ff: "faults n = []"
  shows "commands_load_locked psa l0 n = (ESP_OK, l, n)"
proof -
  let ?va = "ab_slot (ledger_valid psa) (blobs n ''slot_a'')"
  let ?vb = "ab_slot (ledger_valid psa) (blobs n ''slot_b'')"
  let ?ma = "snd (slot_contents psa (blobs n ''slot_a''))"
  let ?mb = "snd (slot_contents psa (blobs n ''slot_b''))"
  let ?sel = "select_a (?va \<noteq> None) (?vb \<noteq> None) (meta_generation ?ma) (meta_generation ?mb)"
  let ?key = "if ?sel then ''slot_a'' else ''slot_b''"
  have long: "blobs n ''slot_a'' \<noteq> Some Long_Blob" "blobs n ''slot_b'' \<noteq> Some Long_Blob"
    using paced by (simp_all add: ledger_paced_def)
  note both = inspect_both_fault_free [OF ff long]
  have some: "?va \<noteq> None \<or> ?vb \<noteq> None"
    using newest unfolding newest_ledger_def by (rule ab_newest_select(1))
  have sel: "(if ?sel then ?va else ?vb) = Some l"
    using newest unfolding newest_ledger_def
    by (rule ab_newest_select(2)) (simp_all add: slot_contents_valid(2))
  have sel': "ab_slot (ledger_valid psa) (blobs n ?key) = Some l"
    using sel by (cases ?sel) simp_all
  have distinct: "meta_generation ?ma \<noteq> meta_generation ?mb" if va: "?va = Some a" and vb: "?vb = Some b" for a b
  proof -
    have "blobs n ''slot_a'' = Some (Blob a)" "blobs n ''slot_b'' = Some (Blob b)"
      "ledger_valid psa a" "ledger_valid psa b"
      using va vb slot_contents_valid(2) [OF va] slot_contents_valid(2) [OF vb]
      by (auto simp: ab_slot_def split: option.splits blob.splits if_splits)
    then have "ldg_generation a \<noteq> ldg_generation b"
      using paced by (intro ledger.paced_distinct [of psa g "blobs n"]) (auto simp: ledger_paced_def)
    then show ?thesis
      using slot_contents_valid(2) [OF va] slot_contents_valid(2) [OF vb] by simp
  qed
  have "blobs n ?key \<noteq> Some Long_Blob" using long by simp
  note one = inspect_slot_fault_free [OF ff this]
  have load: "load_selected psa ?ma ?mb n = (ESP_OK, l, n)"
    unfolding load_selected_def slot_contents_valid(1) both Let_def prod.case one
    using slot_contents_valid(2) [OF sel'] slot_contents_valid(1) [of psa "blobs n ?key"] sel'
    by (cases "slot_contents psa (blobs n ?key)") (auto split: if_splits)
  show ?thesis
    using some load distinct slot_contents_valid(1) [of psa "blobs n ''slot_a''"]
      slot_contents_valid(1) [of psa "blobs n ''slot_b''"]
    by (auto simp: commands_load_locked_def nvs_fault_free [OF ff] both)
qed

subsection \<open>Persisting keeps the two slots in step\<close>

lemma persist_ledger_step:
  assumes "persist_ledger l n = (e, l', n')" "ledger_wf psa l" "ledger_paced psa (ldg_generation l) n"
  shows "e \<noteq> ESP_OK \<and> blobs n' = blobs n \<and> (l' = l \<and> ldg_generation l = - 1 \<or> l' = seal_ledger l) \<and>
      ledger_paced psa (ldg_generation l') n' \<or>
    l' = seal_ledger l \<and> newest_ledger psa n' = Some l' \<and>
      ledger_paced psa (ldg_generation l) n' \<and> ledger_paced psa (ldg_generation l') n'"
proof (cases "ldg_generation l = - 1")
  case True
  with assms show ?thesis by (simp add: persist_ledger_def)
next
  case False
  let ?k = "ab_key (ldg_generation (seal_ledger l))"
  have l': "l' = seal_ledger l" and st: "ab_store ?k (seal_ledger l) n = (e, n')"
    using assms(1) False by (auto simp: persist_ledger_def Let_def split: prod.splits)
  have paced: "ab_paced ldg_generation (ledger_valid psa) (ldg_generation l) (blobs n)"
    and long: "blobs n ''slot_a'' \<noteq> Some Long_Blob" "blobs n ''slot_b'' \<noteq> Some Long_Blob"
    using assms(3) by (simp_all add: ledger_paced_def)
  from ab_store_cases [OF st] consider
      (kept) "e \<noteq> ESP_OK" "blobs n' = blobs n"
    | (written) "blobs n' = (blobs n)(?k \<mapsto> Blob (seal_ledger l))" by blast
  then show ?thesis
  proof cases
    case kept
    moreover have "unat (ldg_generation l) \<le> unat (ldg_generation l')"
      using False by (simp add: l' unat_Suc_word)
    ultimately show ?thesis
      using assms(3) l' ab_paced_mono [OF paced] by (simp add: ledger_paced_def)
  next
    case written
    show ?thesis
      using ledger.paced_write [OF paced False assms(2)] written long l'
      by (auto simp: ledger_paced_def newest_ledger_def)
  qed
qed

lemma ledger_storage_cong:
  "blobs n' = blobs n \<Longrightarrow> newest_ledger psa n' = newest_ledger psa n"
  "blobs n' = blobs n \<Longrightarrow> ledger_paced psa g n' = ledger_paced psa g n"
  by (simp_all add: newest_ledger_def ledger_paced_def)

text \<open>
  The state the component keeps between operations. No two occupied entries carry the same
  command or the same idempotency key, and storage is at most one
  generation ahead and never without a valid copy.
\<close>

definition unique_commands :: "pm_command_ledger \<Rightarrow> bool" where
  "unique_commands l \<longleftrightarrow> (\<forall>i < 8. \<forall>j < 8. i \<noteq> j \<longrightarrow> \<not> vacant (entries l ! i) \<longrightarrow>
     \<not> vacant (entries l ! j) \<longrightarrow> \<not> same_command (entries l ! i) (entries l ! j))"

definition ledger_ok :: "psa_hash \<Rightarrow> pm_command_ledger \<Rightarrow> bool" where
  "ledger_ok psa l \<longleftrightarrow> ledger_wf psa l \<and> unique_commands l"

definition ledger_inv :: "psa_hash \<Rightarrow> pm_command_ledger \<Rightarrow> pm_command_ledger nvs \<Rightarrow> bool" where
  "ledger_inv psa l n \<longleftrightarrow> ledger_ok psa l \<and> ledger_paced psa (ldg_generation l) n \<and>
     (\<exists>x. newest_ledger psa n = Some x \<and> ledger_ok psa x \<and> ledger_paced psa (ldg_generation x) n)"

lemma same_command_seal [simp]:
  "same_command (seal_command c) d = same_command c d"
  "same_command c (seal_command d) = same_command c d"
  by (simp_all add: same_command_def)

lemma unique_commands_seal [simp]:
  "length (entries l) = 8 \<Longrightarrow> unique_commands (seal_ledger l) = unique_commands l"
  by (simp add: unique_commands_def)

lemma refreshed_refl [simp]: "refreshed l l"
  by (simp add: refreshed_def list_all2_refl)

lemma refreshed_simps:
  assumes "refreshed l l'"
  shows "length (entries l') = length (entries l)" "ldg_next l' = ldg_next l" "ldg_generation l' = ldg_generation l"
    "j < length (entries l) \<Longrightarrow> entries l' ! j = entries l ! j \<or> entries l' ! j = seal_command (entries l ! j)"
proof -
  have e: "l' = l\<lparr>entries := entries l'\<rparr>" "list_all2 (\<lambda>c c'. c' = c \<or> c' = seal_command c) (entries l) (entries l')"
    using assms by (simp_all add: refreshed_def)
  show "ldg_next l' = ldg_next l" "ldg_generation l' = ldg_generation l"
    by (subst e(1), simp)+
  show "length (entries l') = length (entries l)" using list_all2_lengthD [OF e(2)] by simp
  show "j < length (entries l) \<Longrightarrow> entries l' ! j = entries l ! j \<or> entries l' ! j = seal_command (entries l ! j)"
    using list_all2_nthD [OF e(2)] by blast
qed

lemma refreshed_ok:
  assumes "refreshed l l'" "ledger_ok psa l"
  shows "ledger_ok psa l'"
proof -
  note r = refreshed_simps [OF assms(1)]
  have len: "length (entries l) = 8" using assms(2) by (simp add: ledger_ok_def ledger_wf_def)
  have "vacant (entries l' ! j) = vacant (entries l ! j) \<and> seal_command (entries l' ! j) = seal_command (entries l ! j) \<and>
      same_command (entries l' ! j) = same_command (entries l ! j) \<and>
      (\<forall>d. same_command d (entries l' ! j) = same_command d (entries l ! j))" if "j < 8" for j
    using r(4) [of j] that len by (auto simp: same_command_def fun_eq_iff)
  with assms(2) r(1,2) len show ?thesis
    by (simp add: ledger_ok_def ledger_wf_def unique_commands_def list_all_length)
qed

lemma ledger_ok_seal: "ledger_wf psa l \<Longrightarrow> unique_commands l \<Longrightarrow> ledger_ok psa (seal_ledger l)"
  by (simp add: ledger_ok_def) (simp add: ledger_wf_def)

text \<open>
  Whether the write succeeds or not, storage keeps a newest copy the next boot can work with,
  and it is the copy of before or the ledger just written.
\<close>

lemma persist_ledger_storage:
  assumes p: "persist_ledger l1 n = (e, l', n')" and inv: "ledger_inv psa l n"
    and l1: "ledger_wf psa l1" "unique_commands l1" "ldg_generation l1 = ldg_generation l"
  shows "(\<exists>x. newest_ledger psa n' = Some x \<and> ledger_ok psa x \<and> ledger_paced psa (ldg_generation x) n') \<and>
    ledger_paced psa (ldg_generation l) n' \<and> ledger_paced psa (ldg_generation l') n' \<and>
    (if e = ESP_OK then l' = seal_ledger l1 \<and> newest_ledger psa n' = Some l'
     else (l' = l1 \<and> ldg_generation l1 = - 1 \<or> l' = seal_ledger l1) \<and>
       (newest_ledger psa n' = newest_ledger psa n \<or> newest_ledger psa n' = Some (seal_ledger l1)))"
proof -
  have paced: "ledger_paced psa (ldg_generation l1) n"
    using inv l1 by (simp add: ledger_inv_def)
  obtain x where x: "newest_ledger psa n = Some x" "ledger_ok psa x" "ledger_paced psa (ldg_generation x) n"
    using inv by (auto simp: ledger_inv_def)
  from persist_ledger_step [OF p l1(1) paced] show ?thesis
  proof
    assume a: "e \<noteq> ESP_OK \<and> blobs n' = blobs n \<and> (l' = l1 \<and> ldg_generation l1 = - 1 \<or> l' = seal_ledger l1) \<and>
      ledger_paced psa (ldg_generation l') n'"
    have same: "newest_ledger psa n' = newest_ledger psa n" "ledger_paced psa g n' = ledger_paced psa g n" for g
      using a ledger_storage_cong [of n' n psa] by blast+
    have "ledger_paced psa (ldg_generation l) n'" "ledger_paced psa (ldg_generation x) n'"
      using same(2) x(3) paced l1(3) by auto
    with a x(1,2) same(1) show ?thesis by auto
  next
    assume "l' = seal_ledger l1 \<and> newest_ledger psa n' = Some l' \<and>
      ledger_paced psa (ldg_generation l1) n' \<and> ledger_paced psa (ldg_generation l') n'"
    with ledger_ok_seal [OF l1(1,2)] l1(3) show ?thesis by auto
  qed
qed

text \<open>
  What every rewriting operation relies on: the result is durable when \<open>ESP_OK\<close> is returned,
  and after an error the ledger in RAM is the one before, up to renewed checksums.
\<close>

lemma persist_or_restore_step:
  assumes inv: "ledger_inv psa l n" and "i < 8"
    and l1: "l1 = l\<lparr>entries := (entries l)[i := c], ldg_next := nx\<rparr>"
    and wf1: "ledger_wf psa l1" and un1: "unique_commands l1"
    and step: "persist_or_restore l l1 i n = (e, l', n')"
  shows "ledger_inv psa l' n' \<and>
    (if e = ESP_OK then l' = seal_ledger l1 \<and> newest_ledger psa n' = Some l'
     else refreshed l l' \<and> (newest_ledger psa n' = newest_ledger psa n \<or>
                     newest_ledger psa n' = Some (seal_ledger l1)))"
proof -
  obtain l2 where p: "persist_ledger l1 n = (e, l2, n')"
    and l': "l' = (if e \<noteq> ESP_OK then l2\<lparr>entries := (entries l2)[i := entries l ! i], ldg_next := ldg_next l,
                    ldg_generation := ldg_generation l, ldg_crc32 := ldg_crc32 l\<rparr> else l2)"
    using step by (auto simp: persist_or_restore_def split: prod.splits if_splits)
  have gen: "ldg_generation l1 = ldg_generation l" by (simp add: l1)
  note st = persist_ledger_storage [OF p inv wf1 un1 gen]
  have len: "length (entries l) = 8"
    using inv by (simp add: ledger_inv_def ledger_ok_def ledger_wf_def)
  have undo: "refreshed l (l\<lparr>entries := (map seal_command (entries l))[i := entries l ! i]\<rparr>)"
    using len \<open>i < 8\<close> by (auto simp: refreshed_def list_all2_conv_all_nth nth_list_update)
  show ?thesis
  proof (cases "e = ESP_OK")
    case True
    with st l' ledger_ok_seal [OF wf1 un1] show ?thesis
      by (auto simp: ledger_inv_def)
  next
    case False
    have "l2 = l1 \<or> l2 = seal_ledger l1"
      using p st False gen by (auto simp: persist_ledger_def)
    then have "refreshed l l'"
    proof
      assume "l2 = l1"
      then have "l' = l" using False by (simp add: l' l1)
      then show ?thesis by simp
    next
      assume "l2 = seal_ledger l1"
      then have "l' = l\<lparr>entries := (map seal_command (entries l))[i := entries l ! i]\<rparr>"
        using False by (simp add: l' l1 map_update)
      with undo show ?thesis by simp
    qed
    with False st inv refreshed_ok [of l l' psa] refreshed_simps(3) [of l l'] show ?thesis
      by (simp add: ledger_inv_def)
  qed
qed

subsection \<open>Entries\<close>

text \<open>An entry that is valid once its checksum is current.\<close>

definition entry_ok :: "psa_hash \<Rightarrow> pm_command \<Rightarrow> bool" where
  "entry_ok psa c \<longleftrightarrow> command_type_code (cmd_type c) < 15 \<and> command_state_code (cmd_state c) \<le> 11 \<and>
     progress_percent c \<le> 100 \<and> (result_ack_required c \<longrightarrow> cmd_state c = PM_COMMAND_SUCCEEDED) \<and>
     nul_terminated (cmd_payload c) \<and>
     (if payload_redacted c then list_all (\<lambda>ch. ch = NUL) (cmd_payload c)
      else pm_constant_time_equal (pm_sha256 psa (chars_bytes (cstr (cmd_payload c)))) (payload_sha256 c) 32)"

lemma command_valid_seal: "\<not> vacant c \<Longrightarrow> command_valid psa (seal_command c) = entry_ok psa c"
  by (auto simp: command_valid_def seal_command_def entry_ok_def not_le not_less)

lemma ledger_wf_entries:
  "ledger_wf psa l \<longleftrightarrow> length (entries l) = 8 \<and> ldg_next l < 8 \<and>
     (\<forall>i < 8. vacant (entries l ! i) \<or> entry_ok psa (entries l ! i))"
proof -
  have "(vacant c \<or> command_valid psa (seal_command c)) = (vacant c \<or> entry_ok psa c)" for c
    using command_valid_seal by blast
  then show ?thesis by (auto simp: ledger_wf_def list_all_length)
qed

lemma ledger_wf_update:
  assumes "ledger_wf psa l" "i < 8" "nx < 8" "vacant c \<or> entry_ok psa c"
  shows "ledger_wf psa (l\<lparr>entries := (entries l)[i := c], ldg_next := nx\<rparr>)"
  using assms by (auto simp: ledger_wf_entries nth_list_update)

text \<open>A rewrite that keeps the identifiers, and one that brings a command no entry has.\<close>

lemma unique_commands_update:
  assumes "unique_commands l" "length (entries l) = 8" "i < 8"
    and "command_id c = command_id (entries l ! i) \<and> idempotency_key c = idempotency_key (entries l ! i) \<or>
      (\<forall>j < 8. \<not> same_command (entries l ! j) c)"
  shows "unique_commands (l\<lparr>entries := (entries l)[i := c], ldg_next := nx\<rparr>)"
  unfolding unique_commands_def
proof (intro allI impI)
  fix j k :: nat
  let ?es = "entries (l\<lparr>entries := (entries l)[i := c], ldg_next := nx\<rparr>)"
  assume jk: "j < 8" "k < 8" "j \<noteq> k" "\<not> vacant (?es ! j)" "\<not> vacant (?es ! k)"
  have old: "\<not> same_command (entries l ! a) (entries l ! b)"
    if "a < 8" "b < 8" "a \<noteq> b" "\<not> vacant (entries l ! a)" "\<not> vacant (entries l ! b)" for a b
    using assms(1) that by (simp add: unique_commands_def)
  show "\<not> same_command (?es ! j) (?es ! k)"
    using assms(2-4) jk old [of j k]
    by (auto simp: nth_list_update same_command_def vacant_def split: if_splits)
qed

definition rewritten ::
    "psa_hash \<Rightarrow> pm_command_ledger \<Rightarrow> pm_command_ledger nvs \<Rightarrow> pm_command_ledger \<Rightarrow>
      esp_err \<Rightarrow> pm_command_ledger \<Rightarrow> pm_command_ledger nvs \<Rightarrow> bool" where
  "rewritten psa l n l1 e l' n' \<longleftrightarrow> ledger_inv psa l' n' \<and>
     (if e = ESP_OK then l' = seal_ledger l1 \<and> newest_ledger psa n' = Some l'
      else refreshed l l' \<and> (newest_ledger psa n' = newest_ledger psa n \<or>
                      newest_ledger psa n' = Some (seal_ledger l1)))"

lemma rewrite_entry:
  assumes inv: "ledger_inv psa l n" and "i < 8" "nx < 8"
    and c: "vacant c \<or> entry_ok psa c"
    and ids: "command_id c = command_id (entries l ! i) \<and> idempotency_key c = idempotency_key (entries l ! i) \<or>
      (\<forall>j < 8. \<not> same_command (entries l ! j) c)"
    and step: "persist_or_restore l (l\<lparr>entries := (entries l)[i := c], ldg_next := nx\<rparr>) i n = (e, l', n')"
  shows "rewritten psa l n (l\<lparr>entries := (entries l)[i := c], ldg_next := nx\<rparr>) e l' n'"
proof -
  have ok: "ledger_wf psa l" "unique_commands l" "length (entries l) = 8"
    using inv by (simp_all add: ledger_inv_def ledger_ok_def ledger_wf_def)
  show ?thesis
    unfolding rewritten_def
    using persist_or_restore_step [OF inv \<open>i < 8\<close> refl ledger_wf_update [OF ok(1) \<open>i < 8\<close> \<open>nx < 8\<close> c]
        unique_commands_update [OF ok(2,3) \<open>i < 8\<close> ids] step] by blast
qed

text \<open>The same without moving the cursor.\<close>

lemma rewrite_entry_in_place:
  assumes inv: "ledger_inv psa l n" and "i < 8"
    and c: "vacant c \<or> entry_ok psa c"
    and ids: "command_id c = command_id (entries l ! i)" "idempotency_key c = idempotency_key (entries l ! i)"
    and step: "persist_or_restore l (l\<lparr>entries := (entries l)[i := c]\<rparr>) i n = (e, l', n')"
  shows "rewritten psa l n (l\<lparr>entries := (entries l)[i := c]\<rparr>) e l' n'"
proof -
  have "l\<lparr>entries := (entries l)[i := c], ldg_next := ldg_next l\<rparr> = l\<lparr>entries := (entries l)[i := c]\<rparr>" by simp
  moreover have "ldg_next l < 8"
    using inv by (simp add: ledger_inv_def ledger_ok_def ledger_wf_def)
  ultimately show ?thesis
    using rewrite_entry [OF inv \<open>i < 8\<close> _ c, of "ldg_next l"] ids step by simp
qed

lemma inv_entry: "ledger_inv psa l n \<Longrightarrow> i < 8 \<Longrightarrow> vacant (entries l ! i) \<or> entry_ok psa (entries l ! i)"
  by (simp add: ledger_inv_def ledger_ok_def ledger_wf_entries)

lemma command_transition_step:
  assumes inv: "ledger_inv psa l n" and i: "i < 8"
    and step: "command_transition_locked alloc l i st p code n = (e, l', n')"
  defines "c' \<equiv> (entries l ! i)\<lparr>cmd_state := st, progress_percent := p, result_code := code\<rparr>"
  shows "e \<noteq> ESP_OK \<and> l' = l \<and> n' = n \<or>
    rewritten psa l n (l\<lparr>entries := (entries l)[i := c']\<rparr>) e l' n'"
proof -
  let ?c = "entries l ! i"
  consider "e \<noteq> ESP_OK \<and> l' = l \<and> n' = n"
    | "command_state_code st \<le> 11" "p \<le> 100" "cmd_state ?c = PM_COMMAND_SUCCEEDED \<Longrightarrow> st = PM_COMMAND_SUCCEEDED"
      "persist_or_restore l (l\<lparr>entries := (entries l)[i := c']\<rparr>) i n = (e, l', n')"
    using step by (auto simp: command_transition_locked_def Let_def c'_def split: if_splits)
  then show ?thesis
  proof cases
    case 2
    then have "vacant c' \<or> entry_ok psa c'"
      using inv_entry [OF inv i] by (auto simp: c'_def entry_ok_def vacant_def)
    then show ?thesis
      using rewrite_entry_in_place [OF inv i _ _ _ 2(4)] by (simp add: c'_def)
  qed simp
qed

lemma command_acknowledge_step:
  assumes inv: "ledger_inv psa l n"
    and step: "command_acknowledge_result_locked l cid n = (e, l', n')"
  shows "l' = l \<and> n' = n \<or>
    (\<exists>i < 8. cstr (command_id (entries l ! i)) = cstr cid \<and>
      rewritten psa l n
        (l\<lparr>entries := (entries l)[i := (entries l ! i)\<lparr>result_ack_required := False\<rparr>]\<rparr>) e l' n')"
proof -
  consider "l' = l \<and> n' = n"
    | i where "List.find (\<lambda>i. cstr (command_id (entries l ! i)) = cstr cid) [0..<8] = Some i"
      "persist_or_restore l
         (l\<lparr>entries := (entries l)[i := (entries l ! i)\<lparr>result_ack_required := False\<rparr>]\<rparr>) i n = (e, l', n')"
    using step
    by (auto simp: command_acknowledge_result_locked_def PM_COMMAND_LEDGER_SIZE_def
        split: if_splits option.splits)
  then show ?thesis
  proof cases
    case (2 i)
    then have i: "i < 8" "cstr (command_id (entries l ! i)) = cstr cid"
      by (auto simp: find_Some_iff)
    have "vacant ((entries l ! i)\<lparr>result_ack_required := False\<rparr>) \<or>
        entry_ok psa ((entries l ! i)\<lparr>result_ack_required := False\<rparr>)"
      using inv_entry [OF inv i(1)] by (auto simp: entry_ok_def vacant_def)
    then show ?thesis
      using rewrite_entry_in_place [OF inv i(1) _ _ _ 2(2)] i by auto
  qed simp
qed

lemma command_reconcile_step:
  assumes inv: "ledger_inv psa l n" and i: "i < 8"
    and step: "command_reconcile_boot_locked alloc l i st code txt n = (e, l', n')"
  shows "e \<noteq> ESP_OK \<and> l' = l \<and> n' = n \<or>
    (\<exists>c'. cmd_state c' = st \<and> command_id c' = command_id (entries l ! i) \<and> cmd_type c' = cmd_type (entries l ! i) \<and>
      rewritten psa l n (l\<lparr>entries := (entries l)[i := c']\<rparr>) e l' n')"
proof -
  let ?c = "entries l ! i"
  let ?c' = "?c\<lparr>cmd_state := st,
       progress_percent := (if st = PM_COMMAND_SUCCEEDED then 100 else progress_percent ?c),
       result_code := code,
       result_text := cstr txt @ [NUL] @ drop (Suc (length (cstr txt))) (result_text ?c),
       evidence_json := (evidence_json ?c)[0 := NUL]\<rparr>"
  consider "e \<noteq> ESP_OK \<and> l' = l \<and> n' = n"
    | "st = PM_COMMAND_SUCCEEDED \<or> st = PM_COMMAND_FAILED \<or> st = PM_COMMAND_ROLLED_BACK"
      "\<not> command_terminal (cmd_state ?c)"
      "persist_or_restore l (l\<lparr>entries := (entries l)[i := ?c']\<rparr>) i n = (e, l', n')"
    using step by (auto simp: command_reconcile_boot_locked_def Let_def split: if_splits)
  then show ?thesis
  proof cases
    case 2
    then have "vacant ?c' \<or> entry_ok psa ?c'"
      using inv_entry [OF inv i] by (auto simp: entry_ok_def vacant_def)
    then show ?thesis
      using rewrite_entry_in_place [OF inv i _ _ _ 2(3)] by (intro disjI2 exI [of _ ?c']) simp
  qed simp
qed

text \<open>
  Redaction does not restore the plaintext when the write fails, so its outcome is not an
  instance of \<open>rewritten\<close>: the ledger in RAM is redacted whatever storage answers.
\<close>

lemma persist_ledger_keeps_inv:
  assumes p: "persist_ledger l1 n = (e, l', n')" and inv: "ledger_inv psa l n"
    and l1: "ledger_wf psa l1" "unique_commands l1" "ldg_generation l1 = ldg_generation l"
  shows "ledger_inv psa l' n'"
proof -
  note st = persist_ledger_storage [OF p inv l1]
  have "l' = l1 \<and> ldg_generation l1 = - 1 \<or> l' = seal_ledger l1"
    using st by (auto split: if_splits)
  then have "ledger_ok psa l'"
    using ledger_ok_seal [OF l1(1,2)] l1 by (auto simp: ledger_ok_def)
  with st show ?thesis by (auto simp: ledger_inv_def)
qed

lemma cstr_replicate_NUL [simp]: "cstr (replicate k NUL) = []"
  by (cases k) (simp_all add: cstr_def)

lemma command_zeroize_step:
  assumes inv: "ledger_inv psa l n" and i: "i < 8"
    and step: "command_zeroize_payload_locked l i n = (e, l', n')"
  shows "ledger_inv psa l' n' \<and>
    (\<not> vacant (entries l ! i) \<longrightarrow> payload_redacted (entries l' ! i) \<and> cstr (cmd_payload (entries l' ! i)) = []) \<and>
    (e = ESP_OK \<longrightarrow> newest_ledger psa n' = Some l')"
proof (cases "vacant (entries l ! i)")
  case True
  with step inv show ?thesis by (simp add: command_zeroize_payload_locked_def)
next
  case False
  let ?c = "entries l ! i"
  define c' where "c' = (if payload_redacted ?c then ?c
    else ?c\<lparr>cmd_payload := replicate (length (cmd_payload ?c)) NUL, payload_redacted := True\<rparr>)"
  let ?l1 = "l\<lparr>entries := (entries l)[i := c'], ldg_next := ldg_next l\<rparr>"
  have ok: "ledger_wf psa l" "unique_commands l" "length (entries l) = 8" "ldg_next l < 8" "entry_ok psa ?c"
    using inv inv_entry [OF inv i] False by (auto simp: ledger_inv_def ledger_ok_def ledger_wf_def)
  have p: "persist_ledger ?l1 n = (e, l', n')"
    using step False by (auto simp: command_zeroize_payload_locked_def Let_def c'_def split: if_splits)
  have c': "entry_ok psa c'" "command_id c' = command_id ?c" "idempotency_key c' = idempotency_key ?c"
    using ok(5)
    by (auto simp: c'_def entry_ok_def nul_terminated_def list_all_length set_replicate_conv_if)
  have l1: "ledger_wf psa ?l1" "unique_commands ?l1" "ldg_generation ?l1 = ldg_generation l"
    using ledger_wf_update [OF ok(1) i ok(4)] unique_commands_update [OF ok(2,3) i] c' by blast+ simp
  have "entries l' ! i = c' \<or> entries l' ! i = seal_command c'"
    using persist_ledger_storage [OF p inv l1] i ok(3) by (auto split: if_splits)
  moreover have "payload_redacted c'" by (simp add: c'_def)
  moreover from this c'(1) have "cstr (cmd_payload c') = []"
    by (cases "cmd_payload c'") (auto simp: entry_ok_def cstr_def)
  ultimately show ?thesis
    using persist_ledger_keeps_inv [OF p inv l1] persist_ledger_storage [OF p inv l1]
    by (auto simp: seal_command_def)
qed

subsection \<open>Accepting\<close>

lemma find_upt_None: "List.find P [0..<k] = None \<longleftrightarrow> (\<forall>i < k. \<not> P i)"
  by (auto simp: find_None_iff)

lemma accepted_candidate_simps [simp]:
  "command_id (accepted_candidate psa c now) = command_id c"
  "idempotency_key (accepted_candidate psa c now) = idempotency_key c"
  "cmd_type (accepted_candidate psa c now) = cmd_type c"
  "cmd_payload (accepted_candidate psa c now) = cmd_payload c"
  "vacant (accepted_candidate psa c now) = vacant c"
  "cmd_state (accepted_candidate psa c now) =
     (if now > expires_utc_ms c then PM_COMMAND_EXPIRED else PM_COMMAND_ACCEPTED)"
  by (simp_all add: accepted_candidate_def Let_def vacant_def)

lemma accepted_candidate_ok:
  assumes "\<not> result_ack_required c" "command_type_code (cmd_type c) < 15" "nul_terminated (cmd_payload c)"
  shows "entry_ok psa (accepted_candidate psa c now)"
  using assms by (simp add: entry_ok_def accepted_candidate_def Let_def pm_constant_time_equal_iff)

lemma accept_new_step:
  assumes inv: "ledger_inv psa l n" and "\<not> result_ack_required inc"
    and inc: "command_type_code (cmd_type inc) < 15" "nul_terminated (cmd_payload inc)"
    and fresh: "\<forall>j < 8. \<not> same_command (entries l ! j) inc"
    and step: "accept_new psa alloc l inc now n = (e, r, l', n')"
  defines "c \<equiv> accepted_candidate psa inc now"
  shows "e \<noteq> ESP_OK \<and> r = None \<and> l' = l \<and> n' = n \<or>
    (\<exists>i < 8. \<exists>e0. evictable (entries l ! i) \<and>
       rewritten psa l n (l\<lparr>entries := (entries l)[i := c], ldg_next := of_nat ((i + 1) mod 8)\<rparr>) e0 l' n' \<and>
       r = (if e0 = ESP_OK then Some (i, False) else None) \<and>
       e = (if e0 \<noteq> ESP_OK then e0 else if now > expires_utc_ms inc then ESP_ERR_TIMEOUT else ESP_OK))"
proof -
  let ?slots = "map (\<lambda>off. (unat (ldg_next l) + off) mod 8) [0..<8]"
  let ?l1 = "\<lambda>i. l\<lparr>entries := (entries l)[i := c], ldg_next := of_nat ((i + 1) mod 8)\<rparr>"
  consider (none) "e \<noteq> ESP_OK" "r = None" "l' = l" "n' = n"
    | (sel) i e0 where "List.find (\<lambda>i. evictable (entries l ! i)) ?slots = Some i"
      "persist_or_restore l (?l1 i) i n = (e0, l', n')"
      "r = (if e0 = ESP_OK then Some (i, False) else None)"
      "e = (if e0 \<noteq> ESP_OK then e0 else if now > expires_utc_ms inc then ESP_ERR_TIMEOUT else ESP_OK)"
    using step unfolding accept_new_def Let_def PM_COMMAND_LEDGER_SIZE_def c_def [symmetric]
    by (cases "List.find (\<lambda>i. evictable (entries l ! i)) ?slots")
       (auto simp: c_def split: if_splits prod.splits)
  then show ?thesis
  proof cases
    case (sel i e0)
    have i: "i < 8" "evictable (entries l ! i)"
      using sel(1) by (auto simp: find_Some_iff)
    have "(of_nat ((i + 1) mod 8) :: u8) < 8"
      by (simp add: word_less_nat_alt unat_of_nat)
    moreover have "vacant c \<or> entry_ok psa c"
      using assms accepted_candidate_ok by blast
    moreover have "\<forall>j < 8. \<not> same_command (entries l ! j) c"
      using fresh by (simp add: c_def same_command_def)
    ultimately have "rewritten psa l n (?l1 i) e0 l' n'"
      using rewrite_entry [OF inv i(1) _ _ _ sel(2)] by blast
    with i sel(3,4) show ?thesis by blast
  qed simp
qed

lemma command_accept_step:
  assumes inv: "ledger_inv psa l n" and "\<not> result_ack_required inc"
    and step: "command_accept_locked psa alloc l inc now n = (e, r, l', n')"
  defines "c \<equiv> accepted_candidate psa inc now"
  shows "l' = l \<and> n' = n \<and> (r = None \<and> e \<noteq> ESP_OK \<or>
      (\<exists>i < 8. r = Some (i, True) \<and> e = ESP_OK \<and> same_command (entries l ! i) inc)) \<or>
    (\<exists>i < 8. \<exists>e0. evictable (entries l ! i) \<and> (\<forall>j < 8. \<not> same_command (entries l ! j) inc) \<and> \<not> vacant inc \<and>
       rewritten psa l n (l\<lparr>entries := (entries l)[i := c], ldg_next := of_nat ((i + 1) mod 8)\<rparr>) e0 l' n' \<and>
       r = (if e0 = ESP_OK then Some (i, False) else None) \<and>
       e = (if e0 \<noteq> ESP_OK then e0 else if now > expires_utc_ms inc then ESP_ERR_TIMEOUT else ESP_OK))"
proof (cases "vacant inc \<or> cstr (idempotency_key inc) = [] \<or>
         command_type_code (cmd_type inc) \<ge> 15 \<or> \<not> nul_terminated (cmd_payload inc)")
  case True
  with step show ?thesis by (auto simp: command_accept_locked_def)
next
  case args: False
  show ?thesis
  proof (cases "List.find (\<lambda>i. same_command (entries l ! i) inc) [0..<8]")
    case None
    with step args have "accept_new psa alloc l inc now n = (e, r, l', n')"
      by (simp add: command_accept_locked_def PM_COMMAND_LEDGER_SIZE_def)
    moreover have fresh: "\<forall>j < 8. \<not> same_command (entries l ! j) inc"
      using None by (simp add: find_upt_None)
    moreover have "command_type_code (cmd_type inc) < 15" "nul_terminated (cmd_payload inc)"
      using args by (auto simp: not_le)
    ultimately show ?thesis
      using accept_new_step [OF inv assms(2)] args unfolding c_def by blast
  next
    case (Some i)
    then have "i < 8" "same_command (entries l ! i) inc" by (auto simp: find_Some_iff)
    with Some step args show ?thesis
      by (auto simp: command_accept_locked_def PM_COMMAND_LEDGER_SIZE_def split: if_splits)
  qed
qed

subsection \<open>Every history of operations, failures and restarts\<close>

text \<open>The application writes the text of a result into the entry it is working on; checksums follow with the
  next operation that persists.\<close>

definition write_result :: "pm_command_ledger \<Rightarrow> nat \<Rightarrow> string \<Rightarrow> pm_command_ledger" where
  "write_result l i s =
     l\<lparr>entries := (entries l)[i := (entries l ! i)\<lparr>result_text := store_str (PM_COMMAND_RESULT_MAX + 1) s\<rparr>]\<rparr>"

datatype ledger_op =
    Accept bool bool pm_command int
  | Transition bool bool nat pm_command_state u8 int
  | Acknowledge bool string
  | Zeroize bool nat
  | Reconcile bool bool nat pm_command_state int string
  | Annotate nat string

text \<open>What the callers promise: entry pointers point into the ledger, and a command off the
  wire does not ask for a result acknowledgement.\<close>

fun op_pre :: "ledger_op \<Rightarrow> bool" where
  "op_pre (Accept lk al inc now) = (\<not> result_ack_required inc)"
| "op_pre (Transition lk al i st p code) = (i < 8)"
| "op_pre (Acknowledge lk cid) = True"
| "op_pre (Zeroize lk i) = (i < 8)"
| "op_pre (Reconcile lk al i st code txt) = (i < 8)"
| "op_pre (Annotate i txt) = (i < 8)"

fun run_op :: "psa_hash \<Rightarrow> ledger_op \<Rightarrow> pm_command_ledger \<Rightarrow> pm_command_ledger nvs \<Rightarrow>
    pm_command_ledger \<times> pm_command_ledger nvs" where
  "run_op psa (Accept lk al inc now) l n = snd (snd (pm_command_accept lk psa al l inc now n))"
| "run_op psa (Transition lk al i st p code) l n = snd (pm_command_transition lk al l i st p code n)"
| "run_op psa (Acknowledge lk cid) l n = snd (pm_command_acknowledge_result lk l cid n)"
| "run_op psa (Zeroize lk i) l n = snd (pm_command_zeroize_payload lk l i n)"
| "run_op psa (Reconcile lk al i st code txt) l n = snd (pm_command_reconcile_boot lk al l i st code txt n)"
| "run_op psa (Annotate i txt) l n = (write_result l i txt, n)"

text \<open>
  The firmware runs operations and may restart at any time, in between or, since any storage
  call may fail from some point on, inside one. A restart loads the ledger from storage.
\<close>

inductive ledger_reach :: "psa_hash \<Rightarrow> pm_command_ledger \<Rightarrow> pm_command_ledger nvs \<Rightarrow> bool" for psa where
  first_boot: "blobs n ''slot_a'' = None \<Longrightarrow> blobs n ''slot_b'' = None \<Longrightarrow>
     pm_commands_load lk psa l0 n = (ESP_OK, l, n') \<Longrightarrow> ledger_reach psa l n'"
| operation: "ledger_reach psa l n \<Longrightarrow> op_pre op \<Longrightarrow> run_op psa op l n = (l', n') \<Longrightarrow>
     ledger_reach psa l' n'"
| faults_change: "ledger_reach psa l n \<Longrightarrow> ledger_reach psa l (n\<lparr>faults := fs\<rparr>)"
| restart: "ledger_reach psa l n \<Longrightarrow> pm_commands_load True psa l0 (reboot n) = (ESP_OK, l', n') \<Longrightarrow>
     ledger_reach psa l' n'"

lemma rewritten_inv: "rewritten psa l n l1 e l' n' \<Longrightarrow> ledger_inv psa l' n'"
  by (simp add: rewritten_def)

lemma locked_inv:
  assumes inv: "ledger_inv psa l n"
  shows "i < 8 \<Longrightarrow> snd (command_transition_locked al l i st p code n) = (l', n') \<Longrightarrow> ledger_inv psa l' n'"
    and "snd (command_acknowledge_result_locked l cid n) = (l', n') \<Longrightarrow> ledger_inv psa l' n'"
    and "i < 8 \<Longrightarrow> snd (command_zeroize_payload_locked l i n) = (l', n') \<Longrightarrow> ledger_inv psa l' n'"
    and "i < 8 \<Longrightarrow> snd (command_reconcile_boot_locked al l i st code txt n) = (l', n') \<Longrightarrow> ledger_inv psa l' n'"
    and "\<not> result_ack_required inc \<Longrightarrow> snd (snd (command_accept_locked psa al l inc now n)) = (l', n') \<Longrightarrow>
      ledger_inv psa l' n'"
  subgoal
    using command_transition_step [OF inv, of i al st p code] inv
    by (cases "command_transition_locked al l i st p code n") (auto dest: rewritten_inv)
  subgoal
    using command_acknowledge_step [OF inv, of cid] inv
    by (cases "command_acknowledge_result_locked l cid n") (auto dest: rewritten_inv)
  subgoal
    using command_zeroize_step [OF inv, of i]
    by (cases "command_zeroize_payload_locked l i n") auto
  subgoal
    using command_reconcile_step [OF inv, of i al st code "txt"] inv
    by (cases "command_reconcile_boot_locked al l i st code txt n") (auto dest: rewritten_inv)
  subgoal
    using command_accept_step [OF inv, of inc al now] inv
    by (cases "command_accept_locked psa al l inc now n") (auto dest: rewritten_inv)
  done

lemma write_result_inv:
  assumes inv: "ledger_inv psa l n" and i: "i < 8"
  shows "ledger_inv psa (write_result l i s) n"
proof -
  let ?c = "(entries l ! i)\<lparr>result_text := store_str (PM_COMMAND_RESULT_MAX + 1) s\<rparr>"
  have ok: "ledger_wf psa l" "unique_commands l" "length (entries l) = 8" "ldg_next l < 8"
    using inv by (simp_all add: ledger_inv_def ledger_ok_def ledger_wf_def)
  have "vacant ?c \<or> entry_ok psa ?c"
    using inv_entry [OF inv i] by (auto simp: entry_ok_def vacant_def)
  from ledger_wf_update [OF ok(1) i ok(4) this] unique_commands_update [OF ok(2,3) i, of ?c "ldg_next l"]
  show ?thesis using inv by (simp add: ledger_inv_def ledger_ok_def write_result_def)
qed

lemma run_op_inv:
  assumes "ledger_inv psa l n" "op_pre op" "run_op psa op l n = (l', n')"
  shows "ledger_inv psa l' n'"
  using assms(2,3) locked_inv [OF assms(1)] assms(1) write_result_inv [OF assms(1)]
  by (cases op) (auto simp: pm_command_accept_def pm_command_transition_def pm_command_reconcile_boot_def
      pm_command_acknowledge_result_def pm_command_zeroize_payload_def locked_def split: if_splits)

lemma ledger_inv_cong: "blobs n' = blobs n \<Longrightarrow> ledger_inv psa l n' = ledger_inv psa l n"
  by (simp add: ledger_inv_def newest_ledger_def ledger_paced_def)

lemma inv_restart:
  assumes "ledger_inv psa l n"
  shows "\<exists>x. newest_ledger psa n = Some x \<and> ledger_ok psa x \<and> ledger_inv psa x (reboot n) \<and>
    pm_commands_load True psa l0 (reboot n) = (ESP_OK, x, reboot n)"
proof -
  obtain x where x: "newest_ledger psa n = Some x" "ledger_ok psa x" "ledger_paced psa (ldg_generation x) n"
    using assms by (auto simp: ledger_inv_def)
  have same: "newest_ledger psa (reboot n) = newest_ledger psa n"
    "ledger_paced psa g (reboot n) = ledger_paced psa g n" for g
    by (rule ledger_storage_cong, simp)+
  have "commands_load_locked psa l0 (reboot n) = (ESP_OK, x, reboot n)"
    using x same by (intro commands_load_newest [of psa "ldg_generation x"]) simp_all
  with x same show ?thesis
    by (auto simp: pm_commands_load_def locked_def ledger_inv_def)
qed

lemma newest_restart:
  assumes "ledger_inv psa l n" "newest_ledger psa n = Some x"
  shows "pm_commands_load True psa l0 (reboot n) = (ESP_OK, x, reboot n)"
  using inv_restart [OF assms(1), of l0] assms(2) by auto

lemma inspect_slot_absent:
  "blobs n key = None \<Longrightarrow> inspect_slot psa key n = ((e, x, m), n') \<Longrightarrow> m = zero_meta \<and> blobs n' = blobs n"
proof (cases "nvs_get_blob key n")
  case (Pair r n1)
  assume "blobs n key = None" and i: "inspect_slot psa key n = ((e, x, m), n')"
  with Pair obtain e1 where "r = Read_Err e1"
    by (auto simp: nvs_get_blob_def split: prod.splits if_splits)
  with i Pair nvs_read_eq(3) [OF Pair] show ?thesis by (simp add: inspect_slot_def)
qed

lemma inspect_both_absent:
  assumes "blobs n ''slot_a'' = None" "blobs n ''slot_b'' = None"
    and "inspect_both psa n = ((e, a, b), n')"
  shows "a = zero_meta \<and> b = zero_meta \<and> blobs n' = blobs n"
proof -
  obtain e1 x a1 n1 where 1: "inspect_slot psa ''slot_a'' n = ((e1, x, a1), n1)" by (metis prod.exhaust)
  note a1 = inspect_slot_absent [OF assms(1) 1]
  obtain e2 y b1 n2 where 2: "inspect_slot psa ''slot_b'' n1 = ((e2, y, b1), n2)" by (metis prod.exhaust)
  have "blobs n1 ''slot_b'' = None" using a1 assms(2) by simp
  note b1 = inspect_slot_absent [OF this 2]
  show ?thesis
    using assms(3) 1 2 a1 b1 by (auto simp: inspect_both_def split: if_splits)
qed

lemma zero_ledger_ok: "ledger_wf psa zero_ledger" "unique_commands zero_ledger"
  by (auto simp: ledger_wf_def unique_commands_def zero_ledger_def zero_command_def vacant_def list_all_iff)

lemma first_boot_inv:
  assumes "blobs n ''slot_a'' = None" "blobs n ''slot_b'' = None"
    and "pm_commands_load lk psa l0 n = (ESP_OK, l, n')"
  shows "ledger_inv psa l n'"
proof -
  obtain e0 n1 where o: "nvs_open n = (e0, n1)" by fastforce
  have n1: "blobs n1 = blobs n" using nvs_read_eq(1) [OF o] by simp
  obtain e a b n2 where ib: "inspect_both psa n1 = ((e, a, b), n2)" by (metis prod.exhaust)
  have ab: "a = zero_meta" "b = zero_meta" "blobs n2 = blobs n"
    using inspect_both_absent [OF _ _ ib] n1 assms(1,2) by auto
  have p: "persist_ledger zero_ledger n2 = (ESP_OK, l, n')"
    using assms(3) o ib ab
    by (auto simp: pm_commands_load_def locked_def commands_load_locked_def zero_meta_def split: if_splits)
  have "ledger_paced psa (ldg_generation zero_ledger) n2"
    using ab(3) assms(1,2) by (auto simp: ledger_paced_def ab_paced_def)
  from persist_ledger_step [OF p zero_ledger_ok(1) this] ledger_ok_seal [OF zero_ledger_ok]
  show ?thesis by (auto simp: ledger_inv_def)
qed

lemma ledger_reach_inv: "ledger_reach psa l n \<Longrightarrow> ledger_inv psa l n"
proof (induction rule: ledger_reach.induct)
  case (first_boot n lk l0 l n')
  then show ?case by (rule first_boot_inv)
next
  case (operation l n op l' n')
  from run_op_inv [OF operation.IH operation.hyps(2,3)] show ?case .
next
  case (faults_change l n fs)
  then show ?case by (simp add: ledger_inv_cong [of "n\<lparr>faults := fs\<rparr>" n])
next
  case (restart l n l0 l' n')
  then show ?case using inv_restart [of psa l n l0] by auto
qed

text \<open>
  C2. The command ledger is never lost. From the first boot on, through every sequence of
  operations, storage failures and restarts, a restart finds a ledger in storage; it and the
  one in RAM hold eight entries, each free or valid, and never two entries for one command
  id or one idempotency key.
\<close>

theorem ledger_survives_every_history:
  assumes "ledger_reach psa l n"
  shows "\<exists>x. pm_commands_load True psa l0 (reboot n) = (ESP_OK, x, reboot n) \<and>
    (\<forall>y \<in> {l, x}. length (entries y) = 8 \<and> unique_commands y \<and>
       (\<forall>i < 8. vacant (entries y ! i) \<or> command_valid psa (seal_command (entries y ! i))))"
proof -
  have inv: "ledger_inv psa l n" using assms by (rule ledger_reach_inv)
  obtain x where x: "ledger_ok psa x" "pm_commands_load True psa l0 (reboot n) = (ESP_OK, x, reboot n)"
    using inv_restart [OF inv, of l0] by blast
  have "length (entries y) = 8 \<and> unique_commands y \<and>
       (\<forall>i < 8. vacant (entries y ! i) \<or> command_valid psa (seal_command (entries y ! i)))"
    if "ledger_ok psa y" for y
    using that by (auto simp: ledger_ok_def ledger_wf_def list_all_length)
  moreover have "ledger_ok psa l" using inv by (simp add: ledger_inv_def)
  ultimately show ?thesis using x by blast
qed

definition empty_nvs :: "pm_command_ledger nvs" where
  "empty_nvs = \<lparr>blobs = Map.empty, u8s = Map.empty, faults = []\<rparr>"

lemma first_load:
  "pm_commands_load True psa zero_ledger empty_nvs = (ESP_OK, seal_ledger zero_ledger,
     empty_nvs\<lparr>blobs := Map.empty(''slot_a'' \<mapsto> Blob (seal_ledger zero_ledger))\<rparr>)"
proof -
  have "ldg_generation zero_ledger = 0" by (simp add: zero_ledger_def)
  then show ?thesis
    by (simp add: pm_commands_load_def locked_def commands_load_locked_def nvs_fault_free empty_nvs_def
        inspect_both_fault_free zero_meta_def persist_ledger_def Let_def ab_store_fault_free ab_key_def)
qed

lemma demo_ledger_reach:
  "ledger_reach psa (seal_ledger zero_ledger)
     (empty_nvs\<lparr>blobs := Map.empty(''slot_a'' \<mapsto> Blob (seal_ledger zero_ledger))\<rparr>)"
  by (rule ledger_reach.first_boot [of empty_nvs True _ zero_ledger, OF _ _ first_load]) (simp_all add: empty_nvs_def)

theorem ledger_survives_every_history_witness:
  "\<exists>x. pm_commands_load True (\<lambda>_. None) zero_ledger
     (reboot (empty_nvs\<lparr>blobs := Map.empty(''slot_a'' \<mapsto> Blob (seal_ledger zero_ledger))\<rparr>)) =
     (ESP_OK, x, reboot (empty_nvs\<lparr>blobs := Map.empty(''slot_a'' \<mapsto> Blob (seal_ledger zero_ledger))\<rparr>))"
  using ledger_survives_every_history [OF demo_ledger_reach, where ?l0.0 = zero_ledger] by blast

subsection \<open>What the operations promise their callers\<close>

lemma rewritten_ok:
  assumes "rewritten psa l n l1 ESP_OK l' n'"
  shows "l' = seal_ledger l1" "pm_commands_load True psa l0 (reboot n') = (ESP_OK, l', reboot n')"
  using assms newest_restart [of psa l' n' l' l0] by (auto simp: rewritten_def)

text \<open>
  C9. A state change of a command is durable or did not happen: when
  \<open>pm_command_transition\<close> returns \<open>ESP_OK\<close> a restart loads exactly the ledger in RAM, in which the
  entry has the new state, progress and result and the other entries are as before; when it
  fails, the ledger in RAM is unchanged but for renewed checksums and a restart loads what it would have loaded
  before or exactly the requested change.
\<close>

theorem command_transition_durable:
  assumes "ledger_reach psa l n" and "i < 8"
    and "pm_command_transition lk al l i st p code n = (e, l', n')"
  defines "c \<equiv> (entries l ! i)\<lparr>cmd_state := st, progress_percent := p, result_code := code\<rparr>"
  shows "if e = ESP_OK
     then pm_commands_load True psa l0 (reboot n') = (ESP_OK, l', reboot n') \<and>
       entries l' = map seal_command ((entries l)[i := c]) \<and>
       ldg_generation l' = ldg_generation l + 1
     else refreshed l l' \<and> fst (snd (pm_commands_load True psa l0 (reboot n'))) \<in>
       {fst (snd (pm_commands_load True psa l0 (reboot n))), seal_ledger (l\<lparr>entries := (entries l)[i := c]\<rparr>)}"
proof -
  have inv: "ledger_inv psa l n" using assms(1) by (rule ledger_reach_inv)
  let ?l1 = "l\<lparr>entries := (entries l)[i := c]\<rparr>"
  consider "e \<noteq> ESP_OK" "l' = l" "n' = n" | "rewritten psa l n ?l1 e l' n'"
    using assms(3) command_transition_step [OF inv assms(2), of al st p code e l' n']
    unfolding c_def by (auto simp: pm_command_transition_def locked_def split: if_splits)
  then show ?thesis
  proof cases
    case 2
    show ?thesis
    proof (cases "e = ESP_OK")
      case True
      with 2 have "rewritten psa l n ?l1 ESP_OK l' n'" by simp
      from rewritten_ok [OF this] True show ?thesis by simp
    next
      case False
      obtain x where x: "newest_ledger psa n = Some x" using inv by (auto simp: ledger_inv_def)
      have l': "refreshed l l'" "ledger_inv psa l' n'"
        "newest_ledger psa n' = Some x \<or> newest_ledger psa n' = Some (seal_ledger ?l1)"
        using 2 False x by (auto simp: rewritten_def)
      show ?thesis
        using False l' newest_restart [OF l'(2), of _ l0] newest_restart [OF inv x, of l0] by auto
    qed
  qed simp
qed

lemma command_accept_preserves:
  assumes "ledger_reach psa l n" and "\<not> result_ack_required inc"
    and "pm_command_accept lk psa al l inc now n = (e, r, l', n')"
  shows "(\<forall>j < 8. \<not> evictable (entries l ! j) \<longrightarrow>
        entries l' ! j = entries l ! j \<or> entries l' ! j = seal_command (entries l ! j)) \<and>
    (case r of
       None \<Rightarrow> e \<noteq> ESP_OK \<and> refreshed l l'
     | Some (i, True) \<Rightarrow> i < 8 \<and> same_command (entries l ! i) inc \<and> l' = l \<and> n' = n
     | Some (i, False) \<Rightarrow> i < 8 \<and> evictable (entries l ! i) \<and>
         (\<forall>j < 8. \<not> same_command (entries l ! j) inc) \<and>
         command_id (entries l' ! i) = command_id inc \<and> cmd_payload (entries l' ! i) = cmd_payload inc \<and>
         cmd_state (entries l' ! i) =
           (if now > expires_utc_ms inc then PM_COMMAND_EXPIRED else PM_COMMAND_ACCEPTED) \<and>
         pm_commands_load True psa l0 (reboot n') = (ESP_OK, l', reboot n'))"
proof -
  have inv: "ledger_inv psa l n" using assms(1) by (rule ledger_reach_inv)
  have len: "length (entries l) = 8" using inv by (simp add: ledger_inv_def ledger_ok_def ledger_wf_def)
  let ?c = "accepted_candidate psa inc now"
  let ?l1 = "\<lambda>i. l\<lparr>entries := (entries l)[i := ?c], ldg_next := of_nat ((i + 1) mod 8)\<rparr>"
  consider (same) "l' = l" "n' = n" "r = None \<and> e \<noteq> ESP_OK \<or>
        (\<exists>i < 8. r = Some (i, True) \<and> e = ESP_OK \<and> same_command (entries l ! i) inc)"
    | (new) i e0 where "i < 8" "evictable (entries l ! i)" "\<forall>j < 8. \<not> same_command (entries l ! j) inc"
      "rewritten psa l n (?l1 i) e0 l' n'" "r = (if e0 = ESP_OK then Some (i, False) else None)"
      "e = (if e0 \<noteq> ESP_OK then e0 else if now > expires_utc_ms inc then ESP_ERR_TIMEOUT else ESP_OK)"
  proof (cases lk)
    case True
    then have "command_accept_locked psa al l inc now n = (e, r, l', n')"
      using assms(3) by (simp add: pm_command_accept_def)
    from command_accept_step [OF inv assms(2) this] that show ?thesis by blast
  next
    case False
    with assms(3) same show ?thesis by (simp add: pm_command_accept_def)
  qed
  then show ?thesis
  proof cases
    case same
    then show ?thesis by auto
  next
    case (new i e0)
    show ?thesis
    proof (cases "e0 = ESP_OK")
      case True
      with new have "rewritten psa l n (?l1 i) ESP_OK l' n'" by simp
      note ok = rewritten_ok [OF this]
      have "entries l' ! i = seal_command ?c"
        and others: "\<forall>j < 8. j \<noteq> i \<longrightarrow> entries l' ! j = seal_command (entries l ! j)"
        using ok(1) new(1) len by auto
      then have "command_id (entries l' ! i) = command_id inc" "cmd_payload (entries l' ! i) = cmd_payload inc"
        "cmd_state (entries l' ! i) = (if now > expires_utc_ms inc then PM_COMMAND_EXPIRED else PM_COMMAND_ACCEPTED)"
        by (simp_all add: seal_command_def)
      with others new True ok(2) [of l0] show ?thesis by auto
    next
      case False
      with new have r: "refreshed l l'" "e \<noteq> ESP_OK" "r = None" by (simp_all add: rewritten_def)
      then show ?thesis using refreshed_simps(4) [OF r(1)] len by simp
    qed
  qed
qed

text \<open>
  C5. Accepting a command never costs the device another one. An entry that is neither free
  nor finished and acknowledged is untouched; a command already in the ledger, by id or by
  idempotency key, is answered from its entry and changes nothing; a new one takes a free or
  finished entry, is stored durably, and is marked expired rather than accepted when its
  time has passed.
\<close>

theorem command_accept_safe:
  assumes "ledger_reach psa l n" and "\<not> result_ack_required inc"
    and "pm_command_accept lk psa al l inc now n = (e, r, l', n')"
  shows "(\<forall>j < 8. \<not> vacant (entries l ! j) \<and>
          (\<not> command_terminal (cmd_state (entries l ! j)) \<or> result_ack_required (entries l ! j)) \<longrightarrow>
        entries l' ! j = entries l ! j \<or> entries l' ! j = seal_command (entries l ! j)) \<and>
    (case r of
       None \<Rightarrow> e \<noteq> ESP_OK \<and> refreshed l l'
     | Some (i, True) \<Rightarrow> i < 8 \<and> same_command (entries l ! i) inc \<and> l' = l \<and> n' = n
     | Some (i, False) \<Rightarrow> i < 8 \<and> (vacant (entries l ! i) \<or>
           command_terminal (cmd_state (entries l ! i)) \<and> \<not> result_ack_required (entries l ! i)) \<and>
         (\<forall>j < 8. \<not> same_command (entries l ! j) inc) \<and>
         command_id (entries l' ! i) = command_id inc \<and> cmd_payload (entries l' ! i) = cmd_payload inc \<and>
         cmd_state (entries l' ! i) =
           (if now > expires_utc_ms inc then PM_COMMAND_EXPIRED else PM_COMMAND_ACCEPTED) \<and>
         pm_commands_load True psa l0 (reboot n') = (ESP_OK, l', reboot n'))"
  using command_accept_preserves [OF assms, of l0] unfolding evictable_def de_Morgan_conj de_Morgan_disj not_not .

subsection \<open>A concrete command\<close>

abbreviation demo_nvs :: "pm_command_ledger nvs" where
  "demo_nvs \<equiv> empty_nvs\<lparr>blobs := Map.empty(''slot_a'' \<mapsto> Blob (seal_ledger zero_ledger))\<rparr>"

definition demo_command :: pm_command where
  "demo_command = zero_command\<lparr>command_id := store_str 37 ''c1'', idempotency_key := store_str 101 ''k1'',
     cmd_type := PM_COMMAND_METER_SELF_TEST, expires_utc_ms := 1000\<rparr>"

lemma demo_command_fresh:
  "\<not> vacant demo_command" "cstr (idempotency_key demo_command) = ''k1''"
  "nul_terminated (cmd_payload demo_command)" "\<not> same_command zero_command demo_command"
  by (simp_all add: demo_command_def zero_command_def vacant_def same_command_def cstr_store_str
      nul_terminated_def) (simp_all add: cstr_def)

lemma zero_ledger_entries:
  "i < 8 \<Longrightarrow> entries (seal_ledger zero_ledger) ! i = zero_command" "evictable zero_command"
  by (simp_all add: zero_ledger_def seal_command_def zero_command_def vacant_def evictable_def)

lemma persist_fault_free:
  "faults n = [] \<Longrightarrow> ldg_generation l \<noteq> - 1 \<Longrightarrow> persist_ledger l n = (ESP_OK, seal_ledger l,
     n\<lparr>blobs := (blobs n)(ab_key (ldg_generation (seal_ledger l)) \<mapsto> Blob (seal_ledger l))\<rparr>)"
  by (simp add: persist_ledger_def Let_def ab_store_fault_free)

lemma zero_ledger_generation: "ldg_generation (seal_ledger zero_ledger) = 1" "ldg_next (seal_ledger zero_ledger) = 0"
  by (simp_all add: zero_ledger_def)

lemma first_accept:
  assumes "\<not> vacant c" "cstr (idempotency_key c) \<noteq> []" "command_type_code (cmd_type c) < 15"
    and "nul_terminated (cmd_payload c)" "now \<le> expires_utc_ms c"
  shows "\<exists>l' n'. pm_command_accept True psa True (seal_ledger zero_ledger) c now demo_nvs = (ESP_OK, Some (0, False), l', n')"
proof -
  have "\<not> same_command zero_command c"
    using assms(1,2) by (simp add: same_command_def vacant_def zero_command_def)
  then have "List.find (\<lambda>i. same_command (entries (seal_ledger zero_ledger) ! i) c) [0..<8] = None"
    using zero_ledger_entries(1) by (auto simp: find_None_iff)
  moreover have "List.find (\<lambda>i. evictable (entries (seal_ledger zero_ledger) ! i))
      (map (\<lambda>off. (unat (ldg_next (seal_ledger zero_ledger)) + off) mod 8) [0..<8]) = Some 0"
    by (simp add: zero_ledger_generation upt_rec [of 0] zero_ledger_entries del: seal_ledger_simps)
  ultimately show ?thesis using assms
    by (simp add: pm_command_accept_def command_accept_locked_def PM_COMMAND_LEDGER_SIZE_def
        accept_new_def Let_def persist_or_restore_def persist_fault_free empty_nvs_def zero_ledger_generation
        del: seal_ledger_simps)
qed

lemma demo_accept:
  "\<exists>l' n'. pm_command_accept True (\<lambda>_. None) True (seal_ledger zero_ledger) demo_command 5 demo_nvs =
     (ESP_OK, Some (0, False), l', n')"
proof -
  have "command_type_code (cmd_type demo_command) < 15" "5 \<le> expires_utc_ms demo_command"
    by (simp_all add: demo_command_def)
  then show ?thesis using demo_command_fresh by (intro first_accept) simp_all
qed

theorem command_accept_safe_witness:
  "\<exists>l' n'. pm_command_accept True (\<lambda>_. None) True (seal_ledger zero_ledger) demo_command 5 demo_nvs =
     (ESP_OK, Some (0, False), l', n') \<and> cmd_state (entries l' ! 0) = PM_COMMAND_ACCEPTED \<and>
     pm_commands_load True (\<lambda>_. None) zero_ledger (reboot n') = (ESP_OK, l', reboot n')"
proof -
  obtain l' n' where a: "pm_command_accept True (\<lambda>_. None) True (seal_ledger zero_ledger) demo_command 5 demo_nvs =
     (ESP_OK, Some (0, False), l', n')" using demo_accept by blast
  have "\<not> result_ack_required demo_command" "\<not> 5 > expires_utc_ms demo_command"
    by (simp_all add: demo_command_def zero_command_def)
  with command_accept_safe [OF demo_ledger_reach _ a, where ?l0.0 = zero_ledger] a show ?thesis by auto
qed

lemma demo_transition:
  "\<exists>l' n'. pm_command_transition True True (seal_ledger zero_ledger) 0 PM_COMMAND_FAILED 3 7 demo_nvs =
     (ESP_OK, l', n')"
proof -
  have "progress_percent (entries (seal_ledger zero_ledger) ! 0) = 0"
    "cmd_state (entries (seal_ledger zero_ledger) ! 0) = PM_COMMAND_QUEUED"
    using zero_ledger_entries(1) [of 0] by (simp_all add: zero_command_def)
  then show ?thesis
    by (simp add: pm_command_transition_def locked_def command_transition_locked_def Let_def
        persist_or_restore_def persist_fault_free empty_nvs_def zero_ledger_generation del: seal_ledger_simps)
qed

theorem command_transition_durable_witness:
  "\<exists>l' n'. pm_command_transition True True (seal_ledger zero_ledger) 0 PM_COMMAND_FAILED 3 7 demo_nvs =
     (ESP_OK, l', n') \<and> ldg_generation l' = 2 \<and>
     pm_commands_load True (\<lambda>_. None) zero_ledger (reboot n') = (ESP_OK, l', reboot n')"
proof -
  obtain l' n' where a: "pm_command_transition True True (seal_ledger zero_ledger) 0 PM_COMMAND_FAILED 3 7 demo_nvs =
     (ESP_OK, l', n')" using demo_transition by blast
  with command_transition_durable [OF demo_ledger_reach _ a, where ?l0.0 = zero_ledger] show ?thesis
    by (auto simp: zero_ledger_def)
qed

subsection \<open>Finished commands, secrets, restarts\<close>

text \<open>
  C14. Progress never goes back and finished states are final. A transition never lowers the progress of its entry and never changes its id
  or result text. An entry that succeeded, failed, expired, was cancelled or rolled back keeps that state whatever is asked of it; a
  transition of such an entry to any other state is refused and leaves result code and progress as they were. (A transition to the same
  state may rewrite both, and \<open>PM_COMMAND_SUPERSEDED\<close>, which the code does not list, is not protected.)
\<close>

theorem command_states_final:
  assumes "ledger_reach psa l n" and "i < 8"
    and "pm_command_transition lk al l i st p code n = (e, l', n')"
  shows "progress_percent (entries l ! i) \<le> progress_percent (entries l' ! i) \<and>
    command_id (entries l' ! i) = command_id (entries l ! i) \<and> result_text (entries l' ! i) = result_text (entries l ! i) \<and>
    (cmd_state (entries l ! i) \<in>
        {PM_COMMAND_SUCCEEDED, PM_COMMAND_FAILED, PM_COMMAND_EXPIRED, PM_COMMAND_CANCELLED, PM_COMMAND_ROLLED_BACK} \<longrightarrow>
       cmd_state (entries l' ! i) = cmd_state (entries l ! i) \<and>
       (st \<noteq> cmd_state (entries l ! i) \<longrightarrow> e \<noteq> ESP_OK \<and> result_code (entries l' ! i) = result_code (entries l ! i) \<and>
         progress_percent (entries l' ! i) = progress_percent (entries l ! i)))"
proof -
  have inv: "ledger_inv psa l n" using assms(1) by (rule ledger_reach_inv)
  have len: "length (entries l) = 8" using inv by (simp add: ledger_inv_def ledger_ok_def ledger_wf_def)
  let ?c = "entries l ! i"
  let ?c' = "?c\<lparr>cmd_state := st, progress_percent := p, result_code := code\<rparr>"
  let ?finished = "cmd_state ?c \<in>
    {PM_COMMAND_SUCCEEDED, PM_COMMAND_FAILED, PM_COMMAND_EXPIRED, PM_COMMAND_CANCELLED, PM_COMMAND_ROLLED_BACK}"
  have sealed: "progress_percent (seal_command d) = progress_percent d" "cmd_state (seal_command d) = cmd_state d"
    "result_code (seal_command d) = result_code d" "result_text (seal_command d) = result_text d" for d
    by (simp_all add: seal_command_def)
  have guards: "e = ESP_OK \<or> \<not> refreshed l l' \<Longrightarrow> progress_percent ?c \<le> p \<and> (?finished \<longrightarrow> st = cmd_state ?c)"
    using assms(3) by (auto simp: pm_command_transition_def locked_def command_transition_locked_def Let_def not_less split: if_splits)
  show ?thesis
  proof (cases "refreshed l l'")
    case True
    then have "entries l' ! i = ?c \<or> entries l' ! i = seal_command ?c"
      using refreshed_simps(4) assms(2) len by simp
    then show ?thesis using sealed [of ?c] guards by (elim disjE) auto
  next
    case False
    then have "entries l' ! i = seal_command ?c'"
      using command_transition_step [OF inv assms(2), of al st p code e l' n'] assms(2,3) len
      by (auto simp: pm_command_transition_def locked_def rewritten_def split: if_splits)
    with guards False show ?thesis by (simp add: sealed)
  qed
qed

theorem command_states_final_witness:
  "\<exists>l n e l' n'. pm_command_transition True True (seal_ledger zero_ledger) 0 PM_COMMAND_FAILED 3 7 demo_nvs = (ESP_OK, l, n) \<and>
     pm_command_transition True True l 0 PM_COMMAND_SUCCEEDED 100 0 n = (e, l', n') \<and> e \<noteq> ESP_OK \<and>
     cmd_state (entries l' ! 0) = PM_COMMAND_FAILED \<and> result_code (entries l' ! 0) = 7"
proof -
  obtain l n where a: "pm_command_transition True True (seal_ledger zero_ledger) 0 PM_COMMAND_FAILED 3 7 demo_nvs = (ESP_OK, l, n)"
    using demo_transition by blast
  have reach: "ledger_reach (\<lambda>_. None) l n"
    using ledger_reach.operation [OF demo_ledger_reach, where op = "Transition True True 0 PM_COMMAND_FAILED 3 7"] a by simp
  have "l = seal_ledger ((seal_ledger zero_ledger)\<lparr>entries := (entries (seal_ledger zero_ledger))
      [0 := (entries (seal_ledger zero_ledger) ! 0)\<lparr>cmd_state := PM_COMMAND_FAILED, progress_percent := 3, result_code := 7\<rparr>]\<rparr>)"
    using command_transition_step [OF ledger_reach_inv [OF demo_ledger_reach], of 0 True PM_COMMAND_FAILED 3 7 ESP_OK l n] a
    by (simp add: pm_command_transition_def locked_def rewritten_def del: seal_ledger_simps)
  then have s: "cmd_state (entries l ! 0) = PM_COMMAND_FAILED" "result_code (entries l ! 0) = 7"
    by (simp_all add: zero_ledger_def seal_command_def)
  obtain e l' n' where b: "pm_command_transition True True l 0 PM_COMMAND_SUCCEEDED 100 0 n = (e, l', n')" by (metis prod.exhaust)
  from command_states_final [OF reach _ b] s a b show ?thesis by auto
qed

text \<open>
  A redacted payload does not come back: after \<open>pm_command_zeroize_payload\<close> the entry in RAM
  holds no payload, even when storage failed; when it returns \<open>ESP_OK\<close>, neither does the copy a
  restart loads.
\<close>

theorem command_payload_redacted:
  assumes "ledger_reach psa l n" and "i < 8" and "\<not> vacant (entries l ! i)"
    and "pm_command_zeroize_payload True l i n = (e, l', n')"
  shows "payload_redacted (entries l' ! i) \<and> cstr (cmd_payload (entries l' ! i)) = [] \<and>
    (e = ESP_OK \<longrightarrow> pm_commands_load True psa l0 (reboot n') = (ESP_OK, l', reboot n'))"
proof -
  have inv: "ledger_inv psa l n" using assms(1) by (rule ledger_reach_inv)
  have "command_zeroize_payload_locked l i n = (e, l', n')"
    using assms(4) by (simp add: pm_command_zeroize_payload_def locked_def)
  from command_zeroize_step [OF inv assms(2) this] assms(3) newest_restart [of psa l' n' l' l0]
  show ?thesis by blast
qed

text \<open>
  What a restart does with an unfinished command. Every valid command that was accepted,
  running or waiting is acted on; only the read-only commands (diagnostics and self tests) are
  run again, a reboot or an update never is; an interrupted update is settled from its own
  checkpoint; finished and undelivered commands are left alone.
\<close>

theorem command_boot_action_safe:
  assumes "entry_ok psa c" and "\<And>w. cmd_state c \<noteq> PM_COMMAND_STATE_RAW w"
  shows "(pm_command_boot_action c = PM_COMMAND_BOOT_IGNORE \<longleftrightarrow>
      command_terminal (cmd_state c) \<or> cmd_state c = PM_COMMAND_QUEUED \<or> cmd_state c = PM_COMMAND_DELIVERED) \<and>
    (pm_command_boot_action c = PM_COMMAND_BOOT_REQUEUE \<longrightarrow>
      cmd_type c \<in> {PM_COMMAND_DIAGNOSTICS_SNAPSHOT, PM_COMMAND_NETWORK_SELF_TEST, PM_COMMAND_METER_SELF_TEST}) \<and>
    (pm_command_boot_action c = PM_COMMAND_BOOT_RECONCILE_OTA \<longleftrightarrow> cmd_type c = PM_COMMAND_OTA_INSTALL \<and>
      cmd_state c \<in> {PM_COMMAND_RUNNING, PM_COMMAND_AWAITING_REBOOT}) \<and>
    (pm_command_boot_action c = PM_COMMAND_BOOT_COMPLETE_REBOOT \<longleftrightarrow>
      cmd_type c = PM_COMMAND_REBOOT \<and> cmd_state c = PM_COMMAND_AWAITING_REBOOT)"
  using assms
  by (cases "cmd_state c") (auto simp: pm_command_boot_action_def entry_ok_def not_le)

lemma demo_entry_ok: "entry_ok (\<lambda>_. None) (accepted_candidate (\<lambda>_. None) demo_command 5)"
  using demo_command_fresh(3)
  by (intro accepted_candidate_ok) (simp_all add: demo_command_def zero_command_def)

theorem command_boot_action_safe_witness:
  "pm_command_boot_action (accepted_candidate (\<lambda>_. None) demo_command 5) \<noteq> PM_COMMAND_BOOT_IGNORE"
  using command_boot_action_safe [OF demo_entry_ok]
  by (simp add: demo_command_def)

lemma demo_redact:
  "\<exists>l n. ledger_reach (\<lambda>_. None) l n \<and> \<not> vacant (entries l ! 0)"
proof -
  obtain l' n' where a: "pm_command_accept True (\<lambda>_. None) True (seal_ledger zero_ledger) demo_command 5 demo_nvs =
     (ESP_OK, Some (0, False), l', n')" using demo_accept by blast
  have ack: "\<not> result_ack_required demo_command" by (simp add: demo_command_def zero_command_def)
  have "ledger_reach (\<lambda>_. None) l' n'"
    using a ack by (intro ledger_reach.operation [OF demo_ledger_reach, of "Accept True True demo_command 5"]) simp_all
  moreover from command_accept_step [OF ledger_reach_inv [OF demo_ledger_reach] ack, of "\<lambda>_. None" True 5] a
  have "\<not> vacant (entries l' ! 0)"
    by (auto simp: pm_command_accept_def rewritten_def zero_ledger_def split: if_splits)
  ultimately show ?thesis by blast
qed

theorem command_payload_redacted_witness:
  "\<exists>l n e l' n'. ledger_reach (\<lambda>_. None) l n \<and> pm_command_zeroize_payload True l 0 n = (e, l', n') \<and>
     payload_redacted (entries l' ! 0) \<and> cstr (cmd_payload (entries l' ! 0)) = []"
proof -
  obtain l n where l: "ledger_reach (\<lambda>_. None) l n" "\<not> vacant (entries l ! 0)" using demo_redact by blast
  obtain e l' n' where z: "pm_command_zeroize_payload True l 0 n = (e, l', n')" by (metis prod.exhaust)
  have "(0 :: nat) < 8" by simp
  from command_payload_redacted [OF l(1) this l(2) z] l(1) z show ?thesis by blast
qed

end
