(* ===== verification/PM_Rfc3339.thy ===== *)
theory PM_Rfc3339
  imports PM_Text
begin

text \<open>
  The timestamps of components/pm_network/pm_network_v2.c: \<open>format_rfc3339_ms\<close>, \<open>days_from_civil\<close> and
  \<open>pm_network_parse_rfc3339_ms\<close>, with what they use of the C library: \<open>sscanf\<close> on \<open>%Nd\<close> (leading white
  space, a sign that counts towards the width, at least one digit), \<open>gmtime_r\<close> on times after 1970
  as counting through the years and months of the Gregorian calendar, and zero-padded printing.
\<close>

subsection \<open>The calendar\<close>

definition leap_year :: "int \<Rightarrow> bool" where
  "leap_year y \<longleftrightarrow> y mod 4 = 0 \<and> (y mod 100 \<noteq> 0 \<or> y mod 400 = 0)"

definition mdays :: "int list" where
  "mdays = [31, 28, 31, 30, 31, 30, 31, 31, 30, 31, 30, 31]"

definition month_days :: "int \<Rightarrow> int \<Rightarrow> int" where
  "month_days y m = (if m = 2 then mdays ! 1 + (if leap_year y then 1 else 0) else mdays ! nat (m - 1))"

definition year_days :: "int \<Rightarrow> int" where
  "year_days y = (if leap_year y then 366 else 365)"

definition days_from_civil :: "int \<Rightarrow> int \<Rightarrow> int \<Rightarrow> int" where
  "days_from_civil year month day =
     (let y = year - (if month \<le> 2 then 1 else 0);
          era = c_div (if y \<ge> 0 then y else y - 399) 400;
          yoe = y - era * 400;
          doy = (153 * (if month > 2 then month - 3 else month + 9) + 2) div 5 + day - 1;
          doe = yoe * 365 + yoe div 4 - yoe div 100 + doy
      in era * 146097 + doe - 719468)"

record tm =
  tm_year :: int
  tm_mon :: int
  tm_mday :: int
  tm_hour :: int
  tm_min :: int
  tm_sec :: int

function civil_year :: "int \<Rightarrow> int \<Rightarrow> int \<times> int" where
  "civil_year y d = (if d < year_days y then (y, d) else civil_year (y + 1) (d - year_days y))"
  by pat_completeness auto
termination by (relation "measure (\<lambda>(_, d). nat d)") (auto simp: year_days_def split: if_splits)

function civil_month :: "int \<Rightarrow> int \<Rightarrow> int \<Rightarrow> int \<times> int" where
  "civil_month y m d =
     (if d < month_days y m \<or> 12 \<le> m then (m, d) else civil_month y (m + 1) (d - month_days y m))"
  by pat_completeness auto
termination by (relation "measure (\<lambda>(_, m, _). nat (12 - m))") auto

declare civil_year.simps [simp del] civil_month.simps [simp del]

text \<open>\<open>gmtime_r\<close> for a time of at least 0, with the calendar year and the month from 1.\<close>

definition gmtime :: "int \<Rightarrow> tm" where
  "gmtime seconds =
     (let (y, yd) = civil_year 1970 (seconds div 86400); (m, md) = civil_month y 1 yd; s = seconds mod 86400
      in \<lparr>tm_year = y, tm_mon = m, tm_mday = md + 1, tm_hour = s div 3600, tm_min = s mod 3600 div 60,
          tm_sec = s mod 60\<rparr>)"

subsection \<open>Printing and scanning\<close>

definition zpad :: "nat \<Rightarrow> int \<Rightarrow> string" where
  "zpad w n = replicate (w - length (dec (nat n))) CHR ''0'' @ dec (nat n)"

definition format_rfc3339_ms :: "int \<Rightarrow> string option" where
  "format_rfc3339_ms utc_ms =
     (if utc_ms < 1704067200000 then None
      else let utc = gmtime (c_div utc_ms 1000);
               output = zpad 4 (tm_year utc) @ ''-'' @ zpad 2 (tm_mon utc) @ ''-'' @ zpad 2 (tm_mday utc) @ ''T'' @
                 zpad 2 (tm_hour utc) @ '':'' @ zpad 2 (tm_min utc) @ '':'' @ zpad 2 (tm_sec utc) @ ''.'' @
                 zpad 3 (utc_ms mod 1000) @ ''Z''
        in if length output = 24 then Some output else None)"

fun scan_digits :: "nat \<Rightarrow> string \<Rightarrow> string \<times> string" where
  "scan_digits (Suc w) (c # cs) =
     (if is_digit c then let (ds, rest) = scan_digits w cs in (c # ds, rest) else ([], c # cs))"
| "scan_digits _ cs = ([], cs)"

definition scan_int :: "nat \<Rightarrow> string \<Rightarrow> (int \<times> string) option" where
  "scan_int w s =
     (let s1 = dropWhile is_space s;
          sign = (s1 \<noteq> [] \<and> (hd s1 = CHR ''-'' \<or> hd s1 = CHR ''+''));
          (ds, rest) = scan_digits (if sign then w - 1 else w) (if sign then tl s1 else s1);
          v = int (digits_value 0 ds)
      in if ds = [] then None else Some (if sign \<and> hd s1 = CHR ''-'' then - v else v, rest))"

definition scan_lit :: "char \<Rightarrow> string \<Rightarrow> string option" where
  "scan_lit c s = (case s of [] \<Rightarrow> None | d # rest \<Rightarrow> if d = c then Some rest else None)"

text \<open>\<open>sscanf (value, "%4d-%2d-%2dT%2d:%2d:%2d%n", ...) == 6\<close>: the six numbers and the unread text.\<close>

definition scan_timestamp :: "string \<Rightarrow> (tm \<times> string) option" where
  "scan_timestamp s0 =
     Option.bind (scan_int 4 s0) (\<lambda>(year, s1). Option.bind (scan_lit CHR ''-'' s1) (\<lambda>s2.
     Option.bind (scan_int 2 s2) (\<lambda>(month, s3). Option.bind (scan_lit CHR ''-'' s3) (\<lambda>s4.
     Option.bind (scan_int 2 s4) (\<lambda>(day, s5). Option.bind (scan_lit CHR ''T'' s5) (\<lambda>s6.
     Option.bind (scan_int 2 s6) (\<lambda>(hour, s7). Option.bind (scan_lit CHR '':'' s7) (\<lambda>s8.
     Option.bind (scan_int 2 s8) (\<lambda>(minute, s9). Option.bind (scan_lit CHR '':'' s9) (\<lambda>s10.
     Option.bind (scan_int 2 s10) (\<lambda>(second, s11).
       Some (\<lparr>tm_year = year, tm_mon = month, tm_mday = day, tm_hour = hour, tm_min = minute,
              tm_sec = second\<rparr>, s11))))))))))))"

text \<open>The milliseconds behind the decimal point and the text after them; digits past the third are dropped.\<close>

definition scan_fraction :: "string \<Rightarrow> (int \<times> string) option" where
  "scan_fraction cursor =
     (if cursor \<noteq> [] \<and> hd cursor = CHR ''.''
      then let ds = takeWhile is_digit (tl cursor)
        in if ds = [] then None
           else Some (int (digits_value 0 (take 3 ds)) * 10 ^ (3 - length ds), dropWhile is_digit (tl cursor))
      else Some (0, cursor))"

text \<open>The zone designator at the end of the text, in seconds.\<close>

definition scan_offset :: "string \<Rightarrow> int option" where
  "scan_offset cursor =
     (if cursor = ''Z'' then Some 0
      else if cursor \<noteq> [] \<and> (hd cursor = CHR ''+'' \<or> hd cursor = CHR ''-'') \<and> length cursor = 6 \<and>
        cursor ! 3 = CHR '':''
      then let sign = (if hd cursor = CHR ''+'' then 1 else - 1)
        in Option.bind (scan_int 2 (tl cursor)) (\<lambda>(oh, s1). Option.bind (scan_lit CHR '':'' s1) (\<lambda>s2.
           Option.bind (scan_int 2 s2) (\<lambda>(om, _).
             if oh > 23 \<or> om > 59 then None else Some (sign * (oh * 3600 + om * 60)))))
      else None)"

definition timestamp_in_range :: "tm \<Rightarrow> bool" where
  "timestamp_in_range t \<longleftrightarrow> 1970 \<le> tm_year t \<and> tm_year t \<le> 9999 \<and> 1 \<le> tm_mon t \<and> tm_mon t \<le> 12 \<and>
     0 \<le> tm_hour t \<and> tm_hour t \<le> 23 \<and> 0 \<le> tm_min t \<and> tm_min t \<le> 59 \<and> 0 \<le> tm_sec t \<and> tm_sec t \<le> 60 \<and>
     1 \<le> tm_mday t \<and> tm_mday t \<le> month_days (tm_year t) (tm_mon t)"

definition pm_network_parse_rfc3339_ms :: "string \<Rightarrow> int option" where
  "pm_network_parse_rfc3339_ms value =
     (if length value < 20 then None
      else Option.bind (scan_timestamp value) (\<lambda>(t, rest).
        if length value - length rest \<noteq> 19 \<or> \<not> timestamp_in_range t then None
        else Option.bind (scan_fraction (drop 19 value)) (\<lambda>(milliseconds, cursor).
          Option.bind (scan_offset cursor) (\<lambda>offset_seconds.
            let seconds = days_from_civil (tm_year t) (tm_mon t) (tm_mday t) * 86400 + tm_hour t * 3600 +
                  tm_min t * 60 + (if tm_sec t = 60 then 59 else tm_sec t) - offset_seconds
            in Some (seconds * 1000 + milliseconds)))))"

subsection \<open>Counting days\<close>

lemma div_step:
  fixes x k :: int
  assumes "0 < k"
  shows "(x + 1) div k = x div k + (if k dvd x + 1 then 1 else 0)"
proof -
  define q r where "q = x div k" and "r = x mod k"
  have r: "0 \<le> r" "r < k" using assms by (simp_all add: r_def)
  have x: "x + 1 = q * k + (r + 1)" by (simp add: q_def r_def)
  show ?thesis
  proof (cases "r + 1 = k")
    case True
    then have "x + 1 = (q + 1) * k" by (simp only: x) (simp add: algebra_simps)
    with assms show ?thesis by (simp flip: q_def)
  next
    case False
    then have "(r + 1) div k = 0" "(r + 1) mod k = r + 1" using r by simp_all
    moreover have "r + 1 \<noteq> 0" using r by simp
    moreover have "(x + 1) div k = q + (r + 1) div k" "(x + 1) mod k = (r + 1) mod k"
      using assms by (simp_all add: x)
    ultimately show ?thesis by (simp add: q_def dvd_eq_mod_eq_0)
  qed
qed

definition years_before :: "int \<Rightarrow> int" where
  "years_before y = 365 * y + y div 4 - y div 100 + y div 400"

lemma leap_year_dvd: "leap_year y \<longleftrightarrow> 4 dvd y \<and> (\<not> 100 dvd y \<or> 400 dvd y)"
  by (simp add: leap_year_def dvd_eq_mod_eq_0)

lemma leap_count:
  "(C \<Longrightarrow> B) \<Longrightarrow> (B \<Longrightarrow> A) \<Longrightarrow> x + (a + (if A then 1 else 0)) - (b + (if B then 1 else 0)) + (c + (if C then 1 else 0)) =
     x + a - b + c + (if A \<and> (\<not> B \<or> C) then 1 else 0 :: int)"
  by (cases A; cases B; cases C) simp_all

lemma add_year:
  "z = y + 1 \<Longrightarrow> l = 365 * z + a - b + c + e \<Longrightarrow> d = 365 + e \<Longrightarrow> l = 365 * y + a - b + c + d" for y :: int
  by simp

lemma years_before_Suc: "years_before (y + 1) = years_before y + year_days (y + 1)"
proof -
  define z where "z = y + 1"
  have d: "400 dvd z \<Longrightarrow> 100 dvd z" "100 dvd z \<Longrightarrow> 4 dvd z"
    using dvd_trans [of 100 400 z] dvd_trans [of 4 100 z] by simp_all
  have div: "z div 4 = y div 4 + (if 4 dvd z then 1 else 0)" "z div 100 = y div 100 + (if 100 dvd z then 1 else 0)"
    "z div 400 = y div 400 + (if 400 dvd z then 1 else 0)"
    unfolding z_def by (rule div_step; simp)+
  have "years_before z = 365 * (y + 1) + y div 4 - y div 100 + y div 400 +
      (if 4 dvd z \<and> (\<not> 100 dvd z \<or> 400 dvd z) then 1 else 0)"
    unfolding years_before_def div by (subst leap_count [OF d]) (simp_all only: z_def)
  moreover have "year_days z = 365 + (if 4 dvd z \<and> (\<not> 100 dvd z \<or> 400 dvd z) then 1 else 0)"
    unfolding year_days_def leap_year_dvd by (simp only: if_distrib [of "(+) 365"]) simp
  ultimately show ?thesis unfolding z_def [symmetric] years_before_def [of y] by (rule add_year [OF z_def])
qed

lemma era_sum:
  "y = 400 * q + r \<Longrightarrow> a = 100 * q + ra \<Longrightarrow> b = 4 * q + rb \<Longrightarrow>
     q * 146097 + (r * 365 + ra - rb + (x + d - 1)) - 719468 = 365 * y + a - b + q + x + d - 1 - 719468" for y :: int
  by simp

lemma era_split: "y div 4 = 100 * (y div 400) + y mod 400 div 4" "y div 100 = 4 * (y div 400) + y mod 400 div 100"
  for y :: int
proof -
  define q r where "q = y div 400" and "r = y mod 400"
  have y: "y = 4 * (100 * q) + r" "y = 100 * (4 * q) + r" by (simp_all add: q_def r_def)
  have "(4 * (100 * q) + r) div 4 = 100 * q + r div 4" "(100 * (4 * q) + r) div 100 = 4 * q + r div 100"
    by (rule div_mult_self4; simp)+
  with y show "y div 4 = 100 * (y div 400) + y mod 400 div 4" "y div 100 = 4 * (y div 400) + y mod 400 div 100"
    unfolding q_def r_def by metis+
qed

lemma days_from_civil_closed:
  assumes "1 \<le> y" "1 \<le> m" "m \<le> 12"
  shows "days_from_civil y m d = years_before (if m \<le> 2 then y - 1 else y) +
     (153 * (if m > 2 then m - 3 else m + 9) + 2) div 5 + d - 1 - 719468"
proof -
  define z where "z = y - (if m \<le> 2 then 1 else 0)"
  define x where "x = (153 * (if m > 2 then m - 3 else m + 9) + 2) div 5"
  have z: "0 \<le> z" "(if m \<le> 2 then y - 1 else y) = z" using assms by (simp_all add: z_def)
  have m: "z - z div 400 * 400 = z mod 400" by (simp only: minus_div_mult_eq_mod)
  have "days_from_civil y m d = z div 400 * 146097 + (z mod 400 * 365 + z mod 400 div 4 - z mod 400 div 100 + (x + d - 1)) - 719468"
    unfolding days_from_civil_def Let_def z_def [symmetric] x_def [symmetric] using z(1)
    by (simp only: c_div_nonneg if_True m zero_less_numeral)
  also have "\<dots> = years_before z + x + d - 1 - 719468"
    unfolding years_before_def by (rule era_sum [OF _ era_split]) simp
  finally show ?thesis unfolding z(2) x_def .
qed

lemma days_next_month:
  assumes "1 \<le> y" "1 \<le> m" "m \<le> 11"
  shows "days_from_civil y (m + 1) d = days_from_civil y m d + month_days y m"
proof -
  have "m = 1 \<or> m = 2 \<or> m = 3 \<or> m = 4 \<or> m = 5 \<or> m = 6 \<or> m = 7 \<or> m = 8 \<or> m = 9 \<or> m = 10 \<or> m = 11"
    using assms by presburger
  moreover have "years_before y = years_before (y - 1) + year_days y" using years_before_Suc [of "y - 1"] by simp
  ultimately show ?thesis
    using assms by (auto simp: days_from_civil_closed month_days_def mdays_def year_days_def)
qed

lemma days_next_year: "1 \<le> y \<Longrightarrow> days_from_civil (y + 1) 1 d = days_from_civil y 1 d + year_days y"
  using years_before_Suc [of "y - 1"] by (simp add: days_from_civil_closed)

lemma days_epoch: "days_from_civil 1970 1 1 = 0"
  by (simp add: days_from_civil_closed years_before_def)

text \<open>The day number of the first of a month, and of the first of January, by counting.\<close>

lemma days_by_month:
  assumes "1 \<le> y" "0 \<le> k" "k \<le> 11"
  shows "days_from_civil y (k + 1) d = days_from_civil y 1 d + (\<Sum>j \<in> {1..k}. month_days y j)"
  using assms(2,3)
proof (induction k rule: int_ge_induct)
  case (step k)
  have "{1..k + 1} = insert (k + 1) {1..k}" using step.hyps by auto
  then show ?case using step days_next_month [OF assms(1), of "k + 1"] by simp
qed simp

lemma days_by_year:
  assumes "1970 \<le> y"
  shows "days_from_civil y 1 1 = (\<Sum>k \<in> {1970..<y}. year_days k)"
  using assms
proof (induction y rule: int_ge_induct)
  case base
  then show ?case by (simp add: days_epoch)
next
  case (step y)
  have "{1970..<y + 1} = insert y {1970..<y}" using step.hyps by auto
  then show ?case using step days_next_year [of y 1] by simp
qed

lemma days_shift: "days_from_civil y m d = days_from_civil y m 1 + d - 1"
  by (simp add: days_from_civil_def Let_def)

lemma civil_year_spec:
  assumes "1 \<le> y" "0 \<le> d" "civil_year y d = (y', d')"
  shows "y \<le> y' \<and> 0 \<le> d' \<and> d' < year_days y' \<and>
     days_from_civil y' 1 1 + d' = days_from_civil y 1 1 + d"
  using assms
proof (induction y d arbitrary: y' d' rule: civil_year.induct)
  case (1 y d)
  show ?case
  proof (cases "d < year_days y")
    case True
    with 1 show ?thesis by (simp add: civil_year.simps [of y d])
  next
    case False
    with 1 days_next_year [of y 1] show ?thesis by (force simp: civil_year.simps [of y d])
  qed
qed

lemma month_days_pos: "1 \<le> m \<Longrightarrow> m \<le> 12 \<Longrightarrow> 28 \<le> month_days y m \<and> month_days y m \<le> 31"
proof -
  assume "1 \<le> m" "m \<le> 12"
  then have "m = 1 \<or> m = 2 \<or> m = 3 \<or> m = 4 \<or> m = 5 \<or> m = 6 \<or> m = 7 \<or> m = 8 \<or> m = 9 \<or> m = 10 \<or> m = 11 \<or> m = 12"
    by presburger
  then show ?thesis by (auto simp: month_days_def mdays_def)
qed

lemma days_december: "1 \<le> y \<Longrightarrow> days_from_civil (y + 1) 1 1 = days_from_civil y 12 1 + 31"
  by (simp add: days_from_civil_closed)

lemma civil_month_spec:
  assumes "1 \<le> y" "1 \<le> m" "m \<le> 12" "0 \<le> d" "civil_month y m d = (m', d')"
    and "days_from_civil y m 1 + d < days_from_civil (y + 1) 1 1"
  shows "m \<le> m' \<and> m' \<le> 12 \<and> 0 \<le> d' \<and> d' < month_days y m' \<and>
     days_from_civil y m' 1 + d' = days_from_civil y m 1 + d"
  using assms
proof (induction y m d arbitrary: m' d' rule: civil_month.induct)
  case (1 y m d)
  show ?case
  proof (cases "d < month_days y m \<or> 12 \<le> m")
    case True
    have e: "m' = m" "d' = d" using True 1(6) by (simp_all add: civil_month.simps [of y m d])
    have "d < month_days y m"
    proof (cases "m = 12")
      case m: True
      have "month_days y 12 = 31" by (simp add: month_days_def mdays_def)
      then show ?thesis using 1(7) days_december [OF 1(2)] unfolding m by linarith
    qed (use True 1(4) in simp)
    then show ?thesis using 1(3-5) unfolding e by simp
  next
    case False
    have n: "days_from_civil y (m + 1) 1 = days_from_civil y m 1 + month_days y m"
      using False 1(2,3) by (intro days_next_month) simp_all
    have "civil_month y (m + 1) (d - month_days y m) = (m', d')"
      using False 1(6) by (simp add: civil_month.simps [of y m d])
    from 1(1) [OF False 1(2) _ _ _ this] show ?thesis using False 1(3,4,7) unfolding n by simp
  qed
qed

lemma days_mono_year:
  assumes "1970 \<le> y" "y \<le> y'"
  shows "days_from_civil y 1 1 \<le> days_from_civil y' 1 1"
  using assms by (simp add: days_by_year) (rule sum_mono2; auto simp: year_days_def)

lemma clock_bounds:
  fixes s :: int
  assumes "0 \<le> s" "s < 86400"
  shows "0 \<le> s div 3600" "s div 3600 \<le> 23" "0 \<le> s mod 3600 div 60" "s mod 3600 div 60 \<le> 59" "s mod 60 \<le> 60"
proof -
  have "s div 3600 < 24" "s mod 3600 div 60 < 60" using assms by (simp_all add: div_less_iff_less_mult)
  then show "s div 3600 \<le> 23" "s mod 3600 div 60 \<le> 59" by simp_all
  show "0 \<le> s div 3600" "0 \<le> s mod 3600 div 60" using assms by (simp_all add: pos_imp_zdiv_nonneg_iff)
  have "s mod 60 < 60" by simp
  then show "s mod 60 \<le> 60" by (rule less_imp_le)
qed

lemma gmtime_spec:
  assumes "0 \<le> t" "t < 253402300800"
  shows "timestamp_in_range (gmtime t)"
    and "days_from_civil (tm_year (gmtime t)) (tm_mon (gmtime t)) (tm_mday (gmtime t)) * 86400 +
      tm_hour (gmtime t) * 3600 + tm_min (gmtime t) * 60 + tm_sec (gmtime t) = t"
    and "tm_sec (gmtime t) < 60"
proof -
  define s where "s = t mod 86400"
  obtain y yd where y: "civil_year 1970 (t div 86400) = (y, yd)" by (cases "civil_year 1970 (t div 86400)") auto
  obtain m md where m: "civil_month y 1 yd = (m, md)" by (cases "civil_month y 1 yd") auto
  have g: "gmtime t = \<lparr>tm_year = y, tm_mon = m, tm_mday = md + 1, tm_hour = s div 3600, tm_min = s mod 3600 div 60,
      tm_sec = s mod 60\<rparr>"
    by (simp add: gmtime_def y m s_def Let_def)
  have ys: "1970 \<le> y" "0 \<le> yd" "yd < year_days y" "days_from_civil y 1 1 + yd = t div 86400"
    using civil_year_spec [OF _ _ y] assms(1) days_epoch by simp_all
  have "1 \<le> m \<and> m \<le> 12 \<and> 0 \<le> md \<and> md < month_days y m \<and> days_from_civil y m 1 + md = t div 86400"
    using civil_month_spec [OF _ _ _ _ m] ys days_next_year [of y 1] by simp
  moreover have "y \<le> 9999"
  proof (rule ccontr)
    assume "\<not> y \<le> 9999"
    then have "days_from_civil 10000 1 1 \<le> days_from_civil y 1 1" by (intro days_mono_year) simp_all
    moreover have "days_from_civil 10000 1 1 = 2932897" by (simp add: days_from_civil_closed years_before_def)
    ultimately show False using ys assms(2) by simp
  qed
  moreover have s: "0 \<le> s" "s < 86400" by (simp_all add: s_def)
  moreover note clock_bounds [OF s]
  ultimately show "timestamp_in_range (gmtime t)"
    using ys(1) by (simp add: timestamp_in_range_def g)
  have "s div 3600 * 3600 + s mod 3600 div 60 * 60 + s mod 60 = s"
  proof -
    have "s mod 3600 mod 60 = s mod 60" by (simp add: mod_mod_cancel)
    then have "s mod 3600 div 60 * 60 + s mod 60 = s mod 3600" by (metis div_mult_mod_eq)
    then show ?thesis by (simp add: add.assoc)
  qed
  moreover have "days_from_civil y m (md + 1) = t div 86400"
    using days_shift [of y m "md + 1"] \<open>1 \<le> m \<and> _\<close> by simp
  moreover have "t div 86400 * 86400 + s = t" by (simp add: s_def)
  ultimately have "days_from_civil y m (md + 1) * 86400 + (s div 3600 * 3600 + s mod 3600 div 60 * 60 + s mod 60) = t"
    by (simp only:)
  then show "days_from_civil (tm_year (gmtime t)) (tm_mon (gmtime t)) (tm_mday (gmtime t)) * 86400 +
      tm_hour (gmtime t) * 3600 + tm_min (gmtime t) * 60 + tm_sec (gmtime t) = t"
    by (simp only: g tm.select_convs add.assoc)
  show "tm_sec (gmtime t) < 60" by (simp add: g)
qed

subsection \<open>Printed timestamps read back\<close>

lemma length_dec_pow: "0 < w \<Longrightarrow> n < 10 ^ w \<Longrightarrow> length (dec n) \<le> w"
proof (induction w arbitrary: n)
  case (Suc w)
  show ?case
  proof (cases "n < 10")
    case False
    then have "n div 10 < 10 ^ w" "0 < w" using Suc.prems by (cases w; auto simp: less_mult_imp_div_less)+
    with Suc.IH [of "n div 10"] False show ?thesis by (simp add: dec.simps [of n])
  qed (simp add: dec.simps [of n])
qed simp

lemma zpad_digits:
  assumes "0 \<le> n" "n < 10 ^ w" "0 < w"
  shows "length (zpad w n) = w" "list_all is_digit (zpad w n)" "digits_value 0 (zpad w n) = nat n"
proof -
  have "nat n < 10 ^ w" using assms(1,2) by (simp add: nat_less_iff)
  then have "length (dec (nat n)) \<le> w" using assms(3) by (rule length_dec_pow [rotated])
  then show "length (zpad w n) = w" by (simp add: zpad_def)
  have d: "list_all is_digit (dec (nat n))" "digits_value 0 (dec (nat n)) = nat n"
    using digits_value_dec [of "nat n"] by (simp_all add: canonical_digits_def)
  then show "list_all is_digit (zpad w n)" by (auto simp: zpad_def list_all_iff is_digit_def)
  have "digits_value 0 (replicate k CHR ''0'' @ ds) = digits_value 0 ds" for k ds
    by (induction k) (simp_all add: digits_value_def digit_value_def)
  with d(2) show "digits_value 0 (zpad w n) = nat n" by (simp add: zpad_def)
qed

lemma scan_digits_all: "list_all is_digit ds \<Longrightarrow> scan_digits (length ds) (ds @ rest) = (ds, rest)"
proof (induction ds)
  case Nil
  then show ?case by (cases rest) simp_all
qed simp

lemma scan_int_zpad:
  assumes "0 \<le> n" "n < 10 ^ w" "0 < w"
  shows "scan_int w (zpad w n @ rest) = Some (n, rest)"
proof -
  note z = zpad_digits [OF assms]
  obtain c cs where c: "zpad w n = c # cs" "is_digit c" using z(1,2) assms(3) by (cases "zpad w n") auto
  have "\<not> is_space c" "c \<noteq> CHR ''-''" "c \<noteq> CHR ''+''" using c(2) by (auto simp: is_digit_def is_space_def)
  moreover have "scan_digits w (zpad w n @ rest) = (zpad w n, rest)" using scan_digits_all [OF z(2)] z(1) by simp
  ultimately show ?thesis using z(3) assms(1) c(1) by (simp add: scan_int_def)
qed

lemma scan_lit_Cons [simp]: "scan_lit c (c # rest) = Some rest"
  by (simp add: scan_lit_def)

lemma scan_fraction_zpad:
  assumes "0 \<le> n" "n < 1000" "\<not> is_digit c"
  shows "scan_fraction (CHR ''.'' # zpad 3 n @ [c]) = Some (n, [c])"
proof -
  have z: "length (zpad 3 n) = 3" "list_all is_digit (zpad 3 n)" "digits_value 0 (zpad 3 n) = nat n"
    using zpad_digits [of n 3] assms by simp_all
  then have "takeWhile is_digit (zpad 3 n @ [c]) = zpad 3 n" "dropWhile is_digit (zpad 3 n @ [c]) = [c]"
    using assms(3) by (simp_all add: list_all_iff takeWhile_append2 dropWhile_append2)
  moreover have "zpad 3 n \<noteq> []" using z(1) by auto
  ultimately show ?thesis using z assms(1) by (simp add: scan_fraction_def)
qed

definition timestamp_text :: "tm \<Rightarrow> int \<Rightarrow> string" where
  "timestamp_text t ms = zpad 4 (tm_year t) @ ''-'' @ zpad 2 (tm_mon t) @ ''-'' @ zpad 2 (tm_mday t) @ ''T'' @
     zpad 2 (tm_hour t) @ '':'' @ zpad 2 (tm_min t) @ '':'' @ zpad 2 (tm_sec t) @ ''.'' @ zpad 3 ms @ ''Z''"

lemma scan_timestamp_text:
  assumes "timestamp_in_range t"
  shows "scan_timestamp (timestamp_text t ms) = Some (t, ''.'' @ zpad 3 ms @ ''Z'')"
proof -
  have "1 \<le> tm_mon t" "tm_mon t \<le> 12" "tm_mday t \<le> 31"
    using assms month_days_pos [of "tm_mon t" "tm_year t"] by (auto simp: timestamp_in_range_def)
  with assms have "scan_int 4 (zpad 4 (tm_year t) @ rest) = Some (tm_year t, rest)"
    "scan_int 2 (zpad 2 (tm_mon t) @ rest) = Some (tm_mon t, rest)"
    "scan_int 2 (zpad 2 (tm_mday t) @ rest) = Some (tm_mday t, rest)"
    "scan_int 2 (zpad 2 (tm_hour t) @ rest) = Some (tm_hour t, rest)"
    "scan_int 2 (zpad 2 (tm_min t) @ rest) = Some (tm_min t, rest)"
    "scan_int 2 (zpad 2 (tm_sec t) @ rest) = Some (tm_sec t, rest)" for rest
    by (simp_all add: scan_int_zpad timestamp_in_range_def)
  then show ?thesis by (simp add: scan_timestamp_def timestamp_text_def)
qed

lemma length_timestamp_text:
  assumes "timestamp_in_range t" "0 \<le> ms" "ms < 1000"
  shows "length (timestamp_text t ms) = 24" "drop 19 (timestamp_text t ms) = ''.'' @ zpad 3 ms @ ''Z''"
proof -
  have "tm_mday t \<le> 31" using assms month_days_pos [of "tm_mon t" "tm_year t"] by (auto simp: timestamp_in_range_def)
  with assms have "length (zpad 4 (tm_year t)) = 4" "length (zpad 2 (tm_mon t)) = 2" "length (zpad 2 (tm_mday t)) = 2"
    "length (zpad 2 (tm_hour t)) = 2" "length (zpad 2 (tm_min t)) = 2" "length (zpad 2 (tm_sec t)) = 2"
    "length (zpad 3 ms) = 3"
    by (simp_all add: zpad_digits timestamp_in_range_def)
  then show "length (timestamp_text t ms) = 24" "drop 19 (timestamp_text t ms) = ''.'' @ zpad 3 ms @ ''Z''"
    by (simp_all add: timestamp_text_def)
qed

lemma parse_timestamp_text:
  assumes "timestamp_in_range t" "0 \<le> ms" "ms < 1000" "tm_sec t < 60"
  shows "pm_network_parse_rfc3339_ms (timestamp_text t ms) = Some ((days_from_civil (tm_year t) (tm_mon t) (tm_mday t) * 86400 +
      tm_hour t * 3600 + tm_min t * 60 + tm_sec t) * 1000 + ms)"
proof -
  have "length (zpad 3 ms) = 3" using assms by (simp add: zpad_digits)
  moreover have "scan_fraction (''.'' @ zpad 3 ms @ ''Z'') = Some (ms, ''Z'')"
    using scan_fraction_zpad [of ms "CHR ''Z''"] assms by (simp add: is_digit_def)
  moreover have "scan_offset ''Z'' = Some 0" by (simp add: scan_offset_def)
  ultimately show ?thesis
    using assms scan_timestamp_text [OF assms(1), of ms] length_timestamp_text [OF assms(1-3)]
    by (simp add: pm_network_parse_rfc3339_ms_def)
qed

text \<open>
  Day numbers are exact: the closed formula for the day number of a date counts the days of all years
  since 1970, of the months of that year and of the month. Every time from 2024 up to the end of the year
  9999 is printed as a timestamp of 24 characters that reads back to the very millisecond.
\<close>

theorem timestamps_exact:
  assumes "1970 \<le> y" "1 \<le> m" "m \<le> 12" "1704067200000 \<le> t" "t < 253402300800000"
  shows "days_from_civil y m d =
      (\<Sum>k \<in> {1970..<y}. year_days k) + (\<Sum>j \<in> {1..m - 1}. month_days y j) + d - 1 \<and>
    (\<exists>s. format_rfc3339_ms t = Some s \<and> length s = 24 \<and> pm_network_parse_rfc3339_ms s = Some t)"
proof
  show "days_from_civil y m d = (\<Sum>k \<in> {1970..<y}. year_days k) + (\<Sum>j \<in> {1..m - 1}. month_days y j) + d - 1"
    using days_shift [of y m d] days_by_month [of y "m - 1" 1] days_by_year [of y] assms(1-3) by simp
  let ?g = "gmtime (t div 1000)"
  have r: "0 \<le> t div 1000" "t div 1000 < 253402300800" using assms(4,5) by auto
  note g = gmtime_spec [OF r]
  have ms: "0 \<le> t mod 1000" "t mod 1000 < 1000" by simp_all
  have "format_rfc3339_ms t = Some (timestamp_text ?g (t mod 1000))"
    using assms(4) length_timestamp_text(1) [OF g(1) ms]
    by (simp add: format_rfc3339_ms_def timestamp_text_def [symmetric] c_div_nonneg Let_def
        flip: append_Cons append_Nil)
  moreover have "t div 1000 * 1000 + t mod 1000 = t" by simp
  ultimately show "\<exists>s. format_rfc3339_ms t = Some s \<and> length s = 24 \<and> pm_network_parse_rfc3339_ms s = Some t"
    using parse_timestamp_text [OF g(1) ms g(3)] length_timestamp_text(1) [OF g(1) ms] g(2) by simp
qed

theorem timestamps_exact_witness:
  "days_from_civil 2024 3 1 = (\<Sum>k \<in> {1970..<2024}. year_days k) + (\<Sum>j \<in> {1..2}. month_days 2024 j) \<and>
   (\<exists>s. format_rfc3339_ms 1709210096789 = Some s \<and> pm_network_parse_rfc3339_ms s = Some 1709210096789)"
  using timestamps_exact [of 2024 3 1709210096789 1] by auto

end
