(* ===== verification/PM_Diagnostics.thy ===== *)
theory PM_Diagnostics
  imports PM_Text
begin

text \<open>
  components/pm_diagnostics: the table of task stacks and the redaction of secrets in result texts.
  \<open>redact_loop\<close> is the loop of \<open>pm_diagnostics_redact\<close> on the text from \<open>input[in]\<close> on, with the character before it;
  a character is appended to the output only while it and the final NUL fit.
\<close>

subsection \<open>Snapshots\<close>

definition PM_DIAGNOSTIC_TASKS_MAX :: nat where "PM_DIAGNOSTIC_TASKS_MAX = 8"
definition PM_DIAGNOSTIC_TASK_NAME_MAX :: nat where "PM_DIAGNOSTIC_TASK_NAME_MAX = 15"

record pm_task_diagnostic =
  td_name :: "char list"
  stack_high_water_bytes :: u32
  configured_stack_bytes :: u32
  watchdog_registered :: bool

record pm_diagnostics_snapshot =
  free_internal_heap :: u32
  minimum_free_internal_heap :: u32
  largest_internal_block :: u32
  free_psram :: u32
  tls_request_high_water_bytes :: u32
  reboot_reason :: u32
  diag_tasks :: "pm_task_diagnostic list"
  task_count :: nat

text \<open>What the heap and the reset controller report.\<close>

record heap_report =
  hr_free_internal :: u32
  hr_minimum_internal :: u32
  hr_largest_internal :: u32
  hr_free_psram :: u32
  hr_reset_reason :: u32

definition pm_diagnostics_capture :: "heap_report \<Rightarrow> pm_diagnostics_snapshot \<Rightarrow> pm_diagnostics_snapshot" where
  "pm_diagnostics_capture hr s = s\<lparr>free_internal_heap := hr_free_internal hr,
     minimum_free_internal_heap := hr_minimum_internal hr, largest_internal_block := hr_largest_internal hr,
     free_psram := hr_free_psram hr, reboot_reason := hr_reset_reason hr\<rparr>"

definition pm_diagnostics_add_task ::
    "pm_diagnostics_snapshot \<Rightarrow> string \<Rightarrow> u32 \<Rightarrow> u32 \<Rightarrow> bool \<Rightarrow> bool \<times> pm_diagnostics_snapshot" where
  "pm_diagnostics_add_task s name high_water configured watchdog =
     (if task_count s \<ge> PM_DIAGNOSTIC_TASKS_MAX \<or> length (cstr name) > PM_DIAGNOSTIC_TASK_NAME_MAX \<or>
         high_water > configured
      then (False, s)
      else (True, s\<lparr>task_count := task_count s + 1,
              diag_tasks := (diag_tasks s)[task_count s :=
                \<lparr>td_name = store_str (PM_DIAGNOSTIC_TASK_NAME_MAX + 1) name, stack_high_water_bytes = high_water,
                 configured_stack_bytes = configured, watchdog_registered = watchdog\<rparr>]\<rparr>))"

subsection \<open>Redaction\<close>

definition is_alnum :: "char \<Rightarrow> bool" where
  "is_alnum c \<longleftrightarrow> is_digit c \<or> (65 \<le> (of_char c :: nat) \<and> (of_char c :: nat) \<le> 90) \<or>
     (97 \<le> (of_char c :: nat) \<and> (of_char c :: nat) \<le> 122)"

definition to_lower :: "char \<Rightarrow> char" where
  "to_lower c = (if 65 \<le> (of_char c :: nat) \<and> (of_char c :: nat) \<le> 90
     then char_of ((of_char c :: nat) + 32) else c)"

definition secret_keys :: "string list" where
  "secret_keys = [''password'', ''secret'', ''token'', ''authorization'', ''cookie'', ''private_key'', ''hmac_key'']"

fun case_prefix :: "string \<Rightarrow> string \<Rightarrow> bool" where
  "case_prefix text [] = True"
| "case_prefix [] (k # ks) = False"
| "case_prefix (t # ts) (k # ks) = (to_lower t = k \<and> case_prefix ts ks)"

definition boundary :: "char option \<Rightarrow> bool" where
  "boundary c = (case c of None \<Rightarrow> True | Some ch \<Rightarrow> \<not> is_alnum ch \<and> ch \<noteq> CHR ''_'')"

definition head :: "string \<Rightarrow> char option" where
  "head s = (case s of [] \<Rightarrow> None | c # _ \<Rightarrow> Some c)"

definition matched_key :: "char option \<Rightarrow> string \<Rightarrow> string option" where
  "matched_key prev rest =
     List.find (\<lambda>k. boundary prev \<and> case_prefix rest k \<and> boundary (head (drop (length k) rest))) secret_keys"

definition emit :: "nat \<Rightarrow> string \<Rightarrow> char \<Rightarrow> string" where
  "emit cap out c = (if length out + 1 < cap then out @ [c] else out)"

abbreviation quote_mark :: char where "quote_mark \<equiv> CHR 0x22"
abbreviation apostrophe :: char where "apostrophe \<equiv> CHR 0x27"

definition is_separator :: "char \<Rightarrow> bool" where
  "is_separator c \<longleftrightarrow> c = CHR '' '' \<or> c = CHR 0x09 \<or> c = CHR '':'' \<or> c = CHR ''=''"

definition hidden_char :: "char option \<Rightarrow> char \<Rightarrow> bool" where
  "hidden_char quote c = (case quote of
     Some q \<Rightarrow> c \<noteq> q
   | None \<Rightarrow> c \<noteq> CHR '','' \<and> c \<noteq> CHR 0x7D \<and> c \<noteq> CHR 0x0D \<and> c \<noteq> CHR 0x0A \<and> \<not> is_space c)"

text \<open>The body of the loop for a key that was found: the new output and the text that is left.\<close>

definition redact_value :: "nat \<Rightarrow> string \<Rightarrow> string \<Rightarrow> string \<Rightarrow> string \<times> string" where
  "redact_value cap key out rest =
     (let n = min (length key) (cap - 1 - length out);
          out1 = out @ take n rest; r1 = drop n rest;
          out2 = foldl (emit cap) out1 (takeWhile is_separator r1); r2 = dropWhile is_separator r1;
          quote = (if r2 \<noteq> [] \<and> (hd r2 = quote_mark \<or> hd r2 = apostrophe) then Some (hd r2) else None);
          r3 = (if quote \<noteq> None then tl r2 else r2);
          out3 = (case quote of Some q \<Rightarrow> emit cap out2 q | None \<Rightarrow> out2);
          out4 = foldl (emit cap) out3 ''[REDACTED]'';
          r4 = dropWhile (hidden_char quote) r3
      in if quote \<noteq> None \<and> r4 \<noteq> [] then (emit cap out4 (hd r4), tl r4) else (out4, r4))"

lemma redact_value_shorter:
  assumes "rest \<noteq> []" "length out + 1 < cap" "key \<noteq> []"
  shows "length (snd (redact_value cap key out rest)) < length rest"
proof -
  let ?n = "min (length key) (cap - 1 - length out)"
  have n: "length (drop ?n rest) < length rest" using assms by (cases key) auto
  have "length (snd (redact_value cap key out rest)) \<le> length (drop ?n rest)"
    unfolding redact_value_def Let_def
    by (auto simp del: length_drop split: if_split
        intro!: le_trans [OF length_dropWhile_le] le_trans [OF diff_le_self])
  with n show ?thesis by simp
qed

lemma secret_keys_nonempty: "matched_key prev rest = Some k \<Longrightarrow> k \<noteq> []"
  by (auto simp: matched_key_def find_Some_iff secret_keys_def nth_Cons' split: if_splits)

function redact_loop :: "nat \<Rightarrow> string \<Rightarrow> char option \<Rightarrow> string \<Rightarrow> string" where
  "redact_loop cap out prev rest =
     (if rest = [] \<or> \<not> length out + 1 < cap then out
      else case matched_key prev rest of
        Some key \<Rightarrow>
          (let r = redact_value cap key out rest
           in redact_loop cap (fst r) (Some (rest ! (length rest - length (snd r) - 1))) (snd r))
      | None \<Rightarrow> redact_loop cap (out @ [hd rest]) (Some (hd rest)) (tl rest))"
  by pat_completeness auto
termination
  by (relation "measure (\<lambda>(_, _, _, rest). length rest)")
    (auto intro: redact_value_shorter dest: secret_keys_nonempty)

declare redact_loop.simps [simp del]

text \<open>The characters written before the final NUL.\<close>

definition pm_diagnostics_redact :: "string \<Rightarrow> nat \<Rightarrow> string" where
  "pm_diagnostics_redact input output_size =
     (if output_size = 0 then [] else redact_loop output_size [] None (cstr input))"

subsection \<open>The output fits and hides the value\<close>

lemma length_emit: "length out < cap \<Longrightarrow> length (emit cap out c) < cap"
  by (auto simp: emit_def)

lemma length_foldl_emit: "length out < cap \<Longrightarrow> length (foldl (emit cap) out cs) < cap"
  by (induction cs arbitrary: out) (simp_all add: length_emit)

lemma length_redact_value:
  "length out + 1 < cap \<Longrightarrow> length (fst (redact_value cap key out rest)) < cap"
  unfolding redact_value_def Let_def
  by (auto intro!: length_emit length_foldl_emit split: option.split)

lemma length_redact_loop: "length out < cap \<Longrightarrow> length (redact_loop cap out prev rest) < cap"
proof (induction cap out prev rest rule: redact_loop.induct)
  case (1 cap out prev rest)
  show ?case
  proof (cases "rest = [] \<or> \<not> length out + 1 < cap")
    case True
    with 1(3) show ?thesis by (simp add: redact_loop.simps [of cap out])
  next
    case False
    then show ?thesis
      using 1(1) [OF False] 1(2) [OF False _ refl] length_redact_value
      by (cases "matched_key prev rest") (simp_all add: redact_loop.simps [of cap out] Let_def)
  qed
qed

text \<open>
  A value as it may follow a key: bare up to a delimiter, or in quotes. What follows a bare value
  is empty or starts with a delimiter.
\<close>

definition written_value :: "char option \<Rightarrow> string \<Rightarrow> string" where
  "written_value quote v = (case quote of None \<Rightarrow> v | Some q \<Rightarrow> q # v @ [q])"

definition value_ok :: "char option \<Rightarrow> string \<Rightarrow> bool" where
  "value_ok quote v \<longleftrightarrow> list_all (hidden_char quote) v \<and>
     (case quote of
        None \<Rightarrow> v \<noteq> [] \<and> \<not> is_separator (hd v) \<and> hd v \<noteq> quote_mark \<and> hd v \<noteq> apostrophe
      | Some q \<Rightarrow> q = quote_mark \<or> q = apostrophe)"

definition tail_ok :: "char option \<Rightarrow> string \<Rightarrow> bool" where
  "tail_ok quote t \<longleftrightarrow> quote \<noteq> None \<or> t = [] \<or> \<not> hidden_char None (hd t)"

definition shown_value :: "nat \<Rightarrow> char option \<Rightarrow> string \<Rightarrow> string" where
  "shown_value cap quote out =
     (case quote of None \<Rightarrow> foldl (emit cap) out ''[REDACTED]''
      | Some q \<Rightarrow> emit cap (foldl (emit cap) (emit cap out q) ''[REDACTED]'') q)"

lemma dropWhile_hidden:
  "list_all (hidden_char None) v \<Longrightarrow> tail_ok None t \<Longrightarrow> dropWhile (hidden_char None) (v @ t) = t"
  "list_all (hidden_char (Some q)) v \<Longrightarrow> dropWhile (hidden_char (Some q)) (v @ q # t) = q # t"
  by (cases t; force simp: dropWhile_append2 list_all_iff tail_ok_def hidden_char_def)+

lemma separators_split:
  assumes "list_all is_separator seps" "value_ok quote v"
  shows "takeWhile is_separator (seps @ written_value quote v @ t) = seps"
    "dropWhile is_separator (seps @ written_value quote v @ t) = written_value quote v @ t"
proof -
  have "written_value quote v \<noteq> []" "\<not> is_separator (hd (written_value quote v))"
    using assms(2) by (auto simp: value_ok_def written_value_def is_separator_def split: option.splits)
  then have "takeWhile is_separator (written_value quote v @ t) = []"
    "dropWhile is_separator (written_value quote v @ t) = written_value quote v @ t"
    by (cases "written_value quote v"; simp)+
  then show "takeWhile is_separator (seps @ written_value quote v @ t) = seps"
    "dropWhile is_separator (seps @ written_value quote v @ t) = written_value quote v @ t"
    using assms(1) by (simp_all add: list_all_iff takeWhile_append2 dropWhile_append2)
qed

lemma redact_value_hides:
  assumes "length key < cap" "list_all is_separator seps" "value_ok quote v" "tail_ok quote t"
  shows "redact_value cap key [] (key @ seps @ written_value quote v @ t) =
     (shown_value cap quote (foldl (emit cap) key seps), t)"
proof -
  have "min (length key) (cap - 1 - length []) = length key" using assms(1) by simp
  then show ?thesis
    using assms(3) separators_split [OF assms(2,3), of t] dropWhile_hidden(1) [of v t] dropWhile_hidden(2) [of _ v t] assms(4)
    unfolding redact_value_def Let_def
    by (cases quote; cases v) (auto simp: written_value_def value_ok_def shown_value_def hidden_char_def)
qed

lemma redact_value_full:
  assumes "\<not> length key < cap" "0 < cap"
  shows "fst (redact_value cap key [] (key @ rest)) = take (cap - 1) key"
proof -
  have n: "min (length key) (cap - 1 - length []) = cap - 1" using assms(1) by simp
  have full: "length (take (cap - 1) key) = cap - 1" using assms by simp
  define k where "k = take (cap - 1) key"
  have e: "emit cap k c = k" for c using assms full by (auto simp: emit_def k_def)
  have f: "foldl (emit cap) k cs = k" for cs by (induction cs) (simp_all add: e)
  have t: "[] @ take (cap - 1) (key @ rest) = k" using assms by (simp add: k_def)
  show ?thesis unfolding k_def [symmetric] redact_value_def Let_def n t by (simp only: e f split: option.split if_split) simp
qed

lemma case_prefix_iff:
  "case_prefix s k \<longleftrightarrow> length k \<le> length s \<and> map to_lower (take (length k) s) = k"
  by (induction s k rule: case_prefix.induct) auto

lemma keys_lower: "\<forall>k \<in> set secret_keys. map to_lower k = k \<and> k \<noteq> [] \<and> 97 \<le> (of_char (hd k) :: nat) \<and> of_char (hd k) \<le> (122 :: nat)"
  by code_simp

lemma keys_prefix_free:
  "\<forall>k \<in> set secret_keys. \<forall>k' \<in> set secret_keys. k = k' \<or> take (length k') k \<noteq> take (length k) k'"
  by code_simp

lemma case_prefix_key:
  assumes "key \<in> set secret_keys" "k \<in> set secret_keys" "case_prefix (key @ rest) k"
  shows "k = key"
proof -
  have "map to_lower (take (length k) (key @ rest)) = k" using assms(3) by (simp only: case_prefix_iff)
  then have "take (length key) k = map to_lower (take (length key) (take (length k) (key @ rest)))"
    by (metis take_map)
  also have "\<dots> = take (length k) (map to_lower key)" by (simp add: take_map min.commute min_def)
  also have "\<dots> = take (length k) key" using keys_lower assms(1) by simp
  finally have "take (length key) k = take (length k) key" .
  then show ?thesis using keys_prefix_free assms(1,2) by blast
qed

lemma find_unique:
  assumes "x \<in> set xs" "P x" "\<And>y. y \<in> set xs \<Longrightarrow> P y \<Longrightarrow> y = x"
  shows "List.find P xs = Some x"
proof (cases "List.find P xs")
  case None
  with assms(1,2) show ?thesis by (simp add: find_None_iff)
next
  case (Some y)
  then have "y \<in> set xs" "P y" by (auto simp: find_Some_iff)
  with assms(3) Some show ?thesis by blast
qed

lemma matched_key_first:
  assumes "key \<in> set secret_keys" "boundary (head rest)"
  shows "matched_key None (key @ rest) = Some key"
proof -
  let ?P = "\<lambda>k. boundary None \<and> case_prefix (key @ rest) k \<and> boundary (head (drop (length k) (key @ rest)))"
  have "?P key" using assms keys_lower by (simp add: case_prefix_iff boundary_def)
  moreover have "k = key" if "k \<in> set secret_keys" "?P k" for k using that assms(1) case_prefix_key by blast
  ultimately have "List.find ?P secret_keys = Some key" using assms(1) by (intro find_unique) auto
  then show ?thesis by (simp only: matched_key_def)
qed

lemma delimiter_code: "\<not> hidden_char None c \<Longrightarrow> (of_char c :: nat) \<in> {9..13} \<union> {32, 44, 125}"
  by (auto simp: hidden_char_def is_space_def)

lemma no_key_at_delimiter:
  assumes "\<not> hidden_char None c"
  shows "matched_key prev (c # cs) = None"
proof -
  have c: "to_lower c = c" "\<not> (97 \<le> (of_char c :: nat) \<and> of_char c \<le> (122 :: nat))"
    using delimiter_code [OF assms] by (auto simp: to_lower_def)
  have "\<not> case_prefix (c # cs) k" if "k \<in> set secret_keys" for k
    using keys_lower that c by (cases k) auto
  then show ?thesis by (auto simp: matched_key_def find_None_iff)
qed

lemma redact_loop_tail:
  "t = [] \<or> \<not> hidden_char None (hd t) \<Longrightarrow> redact_loop cap out prev t = redact_loop cap out prev' t"
  by (cases t) (auto simp: redact_loop.simps [of _ _ prev] redact_loop.simps [of _ _ prev'] no_key_at_delimiter)

lemma separator_boundary: "is_separator c \<Longrightarrow> boundary (Some c)"
  by (auto simp: is_separator_def boundary_def is_alnum_def is_digit_def)

lemma redact_loop_hides:
  assumes key: "key \<in> set secret_keys" and seps: "seps \<noteq> []" "list_all is_separator seps" and cap: "0 < cap"
    and v: "value_ok quote v" and t: "tail_ok quote t"
  shows "redact_loop cap [] None (key @ seps @ written_value quote v @ t) =
    (if \<not> length key < cap then take (cap - 1) key
     else redact_loop cap (shown_value cap quote (foldl (emit cap) key seps))
       (case quote of Some q \<Rightarrow> quote | None \<Rightarrow> None) t)"
proof (cases "cap = 1")
  case True
  have "redact_loop 1 [] None r = []" for r by (subst redact_loop.simps) simp
  moreover have "key \<noteq> []" using key keys_lower by blast
  ultimately show ?thesis using True by simp
next
  case False
  let ?rest = "key @ seps @ written_value quote v @ t"
  have "key \<noteq> []" using key by (auto simp: secret_keys_def)
  have "boundary (head (seps @ written_value quote v @ t))"
    using seps by (cases seps) (simp_all add: head_def separator_boundary)
  from matched_key_first [OF key this]
  have step: "redact_loop cap [] None ?rest = (let r = redact_value cap key [] ?rest
      in redact_loop cap (fst r) (Some (?rest ! (length ?rest - length (snd r) - 1))) (snd r))"
    using False cap \<open>key \<noteq> []\<close> by (simp add: redact_loop.simps [of cap "[]"])
  show ?thesis
  proof (cases "length key < cap")
    case False
    have "length (take (cap - 1) key) = cap - 1" using False cap by simp
    then have "redact_loop cap (take (cap - 1) key) p r = take (cap - 1) key" for p r
      using cap by (subst redact_loop.simps) simp
    with False cap show ?thesis by (simp only: step Let_def redact_value_full if_True not_False_eq_True)
  next
    case True
    have last: "?rest ! (length ?rest - length t - 1) = (case quote of Some q \<Rightarrow> q | None \<Rightarrow> last v)"
      using v by (cases quote; cases v rule: rev_cases) (auto simp: written_value_def value_ok_def nth_append)
    have "redact_loop cap [] None ?rest =
        redact_loop cap (shown_value cap quote (foldl (emit cap) key seps)) (Some (case quote of Some q \<Rightarrow> q | None \<Rightarrow> last v)) t"
      unfolding step redact_value_hides [OF True seps(2) v t] Let_def fst_conv snd_conv last ..
    also have "\<dots> = redact_loop cap (shown_value cap quote (foldl (emit cap) key seps)) (case quote of Some q \<Rightarrow> quote | None \<Rightarrow> None) t"
      using t redact_loop_tail [of t cap _ "Some (last v)" None] by (cases quote) (simp_all add: tail_ok_def)
    finally show ?thesis using True by simp
  qed
qed

text \<open>
  The redacted text always fits its buffer with the final NUL, and it does not depend on the
  secret: for each of the protected keys, followed by separators and a bare or quoted value, any two values give the same
  output, at every buffer size.
\<close>

theorem redaction_hides_value:
  assumes "key \<in> set secret_keys" "seps \<noteq> []" "list_all is_separator seps"
    and "value_ok quote v" "value_ok quote v'" "tail_ok quote t"
    and "NUL \<notin> set (seps @ v @ v' @ t)" "0 < cap"
  shows "pm_diagnostics_redact (key @ seps @ written_value quote v @ t) cap =
      pm_diagnostics_redact (key @ seps @ written_value quote v' @ t) cap \<and>
    length (pm_diagnostics_redact (key @ seps @ written_value quote v @ t) cap) < cap"
proof -
  have "NUL \<notin> set key" using assms(1) by (auto simp: secret_keys_def)
  moreover have "NUL \<notin> set (written_value quote v)" "NUL \<notin> set (written_value quote v')"
    using assms(4,5,7) by (auto simp: written_value_def value_ok_def split: option.splits)
  ultimately have "cstr (key @ seps @ written_value quote v @ t) = key @ seps @ written_value quote v @ t"
    "cstr (key @ seps @ written_value quote v' @ t) = key @ seps @ written_value quote v' @ t"
    using assms(7) by (auto intro!: cstr_id)
  moreover have "redact_loop cap [] None (key @ seps @ written_value quote v @ t) =
      redact_loop cap [] None (key @ seps @ written_value quote v' @ t)"
    using redact_loop_hides [OF assms(1,2,3,8,4,6)] redact_loop_hides [OF assms(1,2,3,8,5,6)] by simp
  ultimately show ?thesis using assms(8) by (simp add: pm_diagnostics_redact_def length_redact_loop)
qed

theorem redaction_hides_value_witness:
  "pm_diagnostics_redact ''password = hunter2, ok'' 64 = pm_diagnostics_redact ''password = x, ok'' 64"
  using redaction_hides_value [of "''password''" "'' = ''" None "''hunter2''" "''x''" "'', ok''" 64]
  by (simp add: secret_keys_def is_separator_def value_ok_def tail_ok_def hidden_char_def is_space_def written_value_def)

text \<open>
  In JSON the closing quote of a key stands before the colon. The code takes it for the opening
  quote of the value, hides the colon and shows the secret.
\<close>

theorem redaction_leaks_json_value:
  "pm_diagnostics_redact [quote_mark, CHR ''t'', CHR ''o'', CHR ''k'', CHR ''e'', CHR ''n'', quote_mark, CHR '':'',
      quote_mark, CHR ''k'', CHR ''7'', quote_mark] 64 =
    [quote_mark] @ ''token'' @ [quote_mark] @ ''[REDACTED]'' @ [quote_mark] @ ''k7'' @ [quote_mark]"
  by code_simp

end
