(* ===== verification/PM_Exchange.thy ===== *)
theory PM_Exchange
  imports PM_Network PM_Commands PM_Rfc3339 PM_Diagnostics
begin

text \<open>
  The telemetry half of components/pm_network/pm_network_v2.c and pm_command_envelope.c: building the
  telemetry document with the results of commands, validating the server's answer, taking commands from
  it into the ledger, and \<open>send_current_telemetry\<close>, which composes them with the transport of PM_Network, the slot of
  PM_Telemetry and the ledger of PM_Commands.

  cJSON is a parameter in both directions: a document is built as a value of \<open>json\<close> and printed by
  \<open>cJSON_PrintPreallocated\<close>; a text is read through the record \<open>cjson_reader\<close>. The callbacks into the application are
  the lists of entries and command ids they are called with. Adding a member to a document succeeds when its creation
  did.
\<close>

subsection \<open>Reading and writing JSON\<close>

datatype json =
    JNull | JBool bool | JNumber int | JRaw string | JString string | JArray "json list" | JObject "(string \<times> json) list"

record 'j cjson_reader =
  reader :: "'j cjson"
  cJSON_IsNull :: "'j \<Rightarrow> bool"
  cJSON_IsArray :: "'j \<Rightarrow> bool"
  cJSON_children :: "'j \<Rightarrow> 'j list"
  cJSON_PrintUnformatted :: "'j \<Rightarrow> string option"

definition json_item :: "'j cjson_reader \<Rightarrow> 'j option \<Rightarrow> string \<Rightarrow> 'j option" where
  "json_item J object name = (case object of None \<Rightarrow> None | Some j \<Rightarrow> cJSON_GetObjectItem (reader J) j name)"

definition json_string :: "'j cjson_reader \<Rightarrow> 'j option \<Rightarrow> string option" where
  "json_string J item = (case item of None \<Rightarrow> None | Some j \<Rightarrow> map_option cstr (cJSON_valuestring (reader J) j))"

definition json_number :: "'j cjson_reader \<Rightarrow> 'j option \<Rightarrow> rat option" where
  "json_number J item = (case item of None \<Rightarrow> None | Some j \<Rightarrow> cJSON_valuedouble (reader J) j)"

definition json_is :: "('j \<Rightarrow> bool) \<Rightarrow> 'j option \<Rightarrow> bool" where
  "json_is p item = (case item of None \<Rightarrow> False | Some j \<Rightarrow> p j)"

text \<open>\<open>cJSON_ArrayForEach\<close>: the children of an item, none of NULL.\<close>

definition json_elements :: "'j cjson_reader \<Rightarrow> 'j option \<Rightarrow> 'j list" where
  "json_elements J item = (case item of None \<Rightarrow> [] | Some j \<Rightarrow> cJSON_children J j)"

definition pm_command_attempt_from_json_number :: "rat \<Rightarrow> u8 option" where
  "pm_command_attempt_from_json_number value =
     (if \<not> (value \<ge> 0 \<and> value \<le> 4294967295) then None
      else let wire_value = word_of_int \<lfloor>value\<rfloor> :: u32
        in if of_int (uint wire_value) \<noteq> value then None
           else Some (if wire_value > 255 then 255 else ucast wire_value))"

subsection \<open>The telemetry document\<close>

record app_info =
  ai_version :: string
  ai_elf_sha256 :: "u8 list"
  ai_rssi :: "int option"
  ai_alloc :: bool
  ai_err_name :: "int \<Rightarrow> string"

definition PM_TELEMETRY_PROTOCOL_ID :: string where "PM_TELEMETRY_PROTOCOL_ID = ''pm-telemetry/2.0.0''"

definition json_add_u64 :: "u64 \<Rightarrow> json" where
  "json_add_u64 v = JRaw (dec (unat v))"

definition json_add_decimal_milli :: "int \<Rightarrow> json" where
  "json_add_decimal_milli milli =
     (let magnitude = \<bar>milli\<bar>
      in JString ((if milli < 0 then ''-'' else []) @ dec (nat (magnitude div 1000)) @ ''.'' @ zpad 3 (magnitude mod 1000)))"

fun contract_pzem_status :: "pm_pzem_status \<Rightarrow> string" where
  "contract_pzem_status PM_PZEM_OK = ''ok''"
| "contract_pzem_status PM_PZEM_TIMEOUT = ''timeout''"
| "contract_pzem_status PM_PZEM_SHORT_FRAME = ''short_frame''"
| "contract_pzem_status PM_PZEM_BAD_CRC = ''bad_crc''"
| "contract_pzem_status PM_PZEM_WRONG_SLAVE = ''wrong_address''"
| "contract_pzem_status PM_PZEM_NOT_VERIFIED = ''absent''"
| "contract_pzem_status _ = ''invalid''"

definition command_result_state :: "pm_command_state \<Rightarrow> bool" where
  "command_result_state st \<longleftrightarrow> st = PM_COMMAND_ACCEPTED \<or> st = PM_COMMAND_RUNNING \<or> st = PM_COMMAND_SUCCEEDED \<or>
     st = PM_COMMAND_FAILED \<or> st = PM_COMMAND_AWAITING_REBOOT \<or> st = PM_COMMAND_ROLLED_BACK"

definition command_result_code :: "(int \<Rightarrow> string) \<Rightarrow> pm_command \<Rightarrow> string" where
  "command_result_code err_name c =
     (if cmd_state c = PM_COMMAND_ACCEPTED then ''accepted''
      else if cmd_state c = PM_COMMAND_RUNNING then ''in_progress''
      else if cmd_state c = PM_COMMAND_AWAITING_REBOOT then ''awaiting_reboot''
      else if cmd_state c = PM_COMMAND_ROLLED_BACK then ''rolled_back''
      else if cmd_state c = PM_COMMAND_SUCCEEDED \<and> result_code c = 0 then ''ok''
      else take 31 (err_name (result_code c)))"

definition command_result :: "app_info \<Rightarrow> pm_command \<Rightarrow> json" where
  "command_result app c = JObject
     [(''command_id'', JString (cstr (command_id c))), (''state'', JString (pm_command_state_name (cmd_state c))),
      (''progress_percent'', JNumber (uint (progress_percent c))),
      (''result_code'', JString (command_result_code (ai_err_name app) c)),
      (''evidence'', JObject ([(''attempt'', JNumber (uint (cmd_attempt c)))] @
         (if cstr (result_text c) = [] then []
          else [(''detail'', JString (pm_diagnostics_redact (result_text c) (PM_COMMAND_RESULT_MAX + 1)))])))]"

definition reported_entry :: "pm_command \<Rightarrow> bool" where
  "reported_entry c \<longleftrightarrow> length (cstr (command_id c)) = PM_COMMAND_ID_MAX \<and> command_result_state (cmd_state c)"

definition append_command_results :: "app_info \<Rightarrow> pm_command_ledger \<Rightarrow> esp_err + json list" where
  "append_command_results app l =
     (let reported = filter reported_entry (entries l)
      in if reported \<noteq> [] \<and> \<not> ai_alloc app then Inl ESP_ERR_NO_MEM else Inr (map (command_result app) reported))"

definition telemetry_document ::
    "app_info \<Rightarrow> pm_network_context \<Rightarrow> pm_telemetry_sample \<Rightarrow> json list \<Rightarrow> json" where
  "telemetry_document app ctx sample results =
     (let m = measurement sample;
          valid = (status m = PM_PZEM_OK);
          trusted = (valid \<and> time_trusted m);
          reading = (\<lambda>v. if valid then v else JNull)
      in JObject
        [(''telemetry_protocol'', JString PM_TELEMETRY_PROTOCOL_ID),
         (''sensor_id'', JString (cstr (device_id_text ctx))),
         (''boot_id'', JString (cstr (boot_id ctx))),
         (''sample_sequence'', json_add_u64 (sample_sequence sample)),
         (''sampled_at'', case (if trusted then format_rfc3339_ms (sample_timestamp_utc_ms m) else None) of
            Some t \<Rightarrow> JString t | None \<Rightarrow> JNull),
         (''uptime_ms'', json_add_u64 (if sample_monotonic_us m > 0
            then word_of_int (sample_monotonic_us m) div 1000 else 0)),
         (''voltage_v'', reading (json_add_decimal_milli (voltage_mv m))),
         (''current_a'', reading (json_add_decimal_milli (current_ma m))),
         (''active_power_w'', reading (json_add_decimal_milli (active_power_mw m))),
         (''frequency_hz'', reading (json_add_decimal_milli (frequency_mhz m))),
         (''power_factor'', reading (json_add_decimal_milli (power_factor_milli m))),
         (''pzem_energy_wh'', reading (json_add_u64 (energy_wh m))),
         (''pzem_status'', JString (contract_pzem_status (status m))),
         (''firmware_version'', JString (ai_version app)),
         (''firmware_build_id'', JString (pm_hex_lower (ai_elf_sha256 app))),
         (''time_status'', JString (if trusted then ''trusted'' else ''untrusted'')),
         (''wifi_rssi'', case ai_rssi app of Some r \<Rightarrow> JNumber r | None \<Rightarrow> JNull),
         (''command_results'', JArray results)])"

definition pm_network_serialize_telemetry ::
    "(json \<Rightarrow> nat \<Rightarrow> string option) \<Rightarrow> app_info \<Rightarrow> pm_network_context \<Rightarrow> pm_command_ledger \<Rightarrow> pm_telemetry_sample \<Rightarrow>
      nat \<Rightarrow> esp_err + string" where
  "pm_network_serialize_telemetry print app ctx l sample body_size =
     (if sample_sequence sample = 0 \<or> cstr (boot_id ctx) = [] \<or> body_size < 3 then Inl ESP_ERR_INVALID_ARG
      else if \<not> ai_alloc app then Inl ESP_ERR_NO_MEM
      else case append_command_results app l of
        Inl e \<Rightarrow> Inl e
      | Inr results \<Rightarrow>
          (case print (telemetry_document app ctx sample results) body_size of
             None \<Rightarrow> Inl ESP_ERR_INVALID_SIZE
           | Some body \<Rightarrow> Inr body))"

subsection \<open>The server's answer\<close>

definition telemetry_period_is_supported :: "u32 \<Rightarrow> bool" where
  "telemetry_period_is_supported s \<longleftrightarrow> s = 2 \<or> s = 5 \<or> s = 10 \<or> s = 15 \<or> s = 30 \<or> s = 60"

text \<open>
  The conversion of a 64-bit integer to a double: exact below \<open>2 ^ 53\<close>, else rounded to the nearest
  multiple of \<open>2 ^ k\<close> with 53 significant bits, ties to even.
\<close>

definition double_of_u64 :: "u64 \<Rightarrow> rat" where
  "double_of_u64 v =
     (let n = unat v; k = length (takeWhile (\<lambda>k. n \<ge> 2 ^ (53 + k)) [0..<12]); q = n div 2 ^ k; r = 2 * (n mod 2 ^ k)
      in of_nat ((if r > 2 ^ k \<or> r = 2 ^ k \<and> odd q \<and> k > 0 then q + 1 else q) * 2 ^ k))"

text \<open>The identity of the answered sample and the envelope of the answer.\<close>

definition response_identifies ::
    "'j cjson_reader \<Rightarrow> pm_network_context \<Rightarrow> pm_telemetry_sample \<Rightarrow> 'j option \<Rightarrow> bool" where
  "response_identifies J ctx sample doc \<longleftrightarrow>
     (let identity = json_item J doc ''sample'' in
      json_string J (json_item J doc ''protocol_id'') = Some PM_PROTOCOL_ID \<and>
      json_string J (json_item J doc ''telemetry_protocol'') = Some PM_TELEMETRY_PROTOCOL_ID \<and>
      (json_string J (json_item J doc ''status'') = Some ''accepted'' \<or>
       json_string J (json_item J doc ''status'') = Some ''duplicate'') \<and>
      Option.bind (json_string J (json_item J doc ''server_received_at'')) pm_network_parse_rfc3339_ms \<noteq> None \<and>
      json_is (cJSON_IsObject (reader J)) identity \<and>
      json_string J (json_item J identity ''sensor_id'') = Some (cstr (device_id_text ctx)) \<and>
      json_string J (json_item J identity ''boot_id'') = Some (cstr (boot_id ctx)) \<and>
      json_number J (json_item J identity ''sample_sequence'') = Some (double_of_u64 (sample_sequence sample)) \<and>
      (json_string J (json_item J doc ''timestamp_source'') = Some ''sensor'' \<or>
       json_string J (json_item J doc ''timestamp_source'') = Some ''server'') \<and>
      json_is (cJSON_IsArray J) (json_item J doc ''commands''))"

text \<open>\<open>(double)(uint32_t)d\<close> of a number that was found to be in range.\<close>

definition whole_u32 :: "rat \<Rightarrow> u32 option" where
  "whole_u32 d = (let v = word_of_int \<lfloor>d\<rfloor> :: u32 in if of_int (uint v) = d then Some v else None)"

definition response_period :: "'j cjson_reader \<Rightarrow> 'j option \<Rightarrow> u32 option" where
  "response_period J doc =
     (let configuration = json_item J doc ''configuration'' in
      if \<not> json_is (cJSON_IsObject (reader J)) configuration then None
      else case (json_number J (json_item J configuration ''version''),
                 json_number J (json_item J configuration ''telemetry_interval_seconds'')) of
        (Some version, Some period) \<Rightarrow>
          if version < 1 \<or> version > 4294967295 \<or> whole_u32 version = None \<or>
             period < of_int (uint PM_TELEMETRY_MIN_SECONDS) \<or> period > of_int (uint PM_TELEMETRY_MAX_SECONDS)
          then None
          else (case whole_u32 period of
                  None \<Rightarrow> None
                | Some s \<Rightarrow> if telemetry_period_is_supported s then Some s else None)
      | _ \<Rightarrow> None)"

definition validate_telemetry_response ::
    "'j cjson_reader \<Rightarrow> pm_network_context \<Rightarrow> pm_telemetry_sample \<Rightarrow> string \<Rightarrow> u32 \<Rightarrow> esp_err \<times> u32" where
  "validate_telemetry_response J ctx sample response seconds =
     (let doc = cJSON_Parse (reader J) (cstr response) in
      if \<not> response_identifies J ctx sample doc then (ESP_ERR_INVALID_RESPONSE, seconds)
      else case response_period J doc of
        None \<Rightarrow> (ESP_ERR_INVALID_RESPONSE, seconds)
      | Some s \<Rightarrow> (ESP_OK, s))"

subsection \<open>Commands from the answer\<close>

definition PM_IDEMPOTENCY_KEY_MAX :: nat where "PM_IDEMPOTENCY_KEY_MAX = 100"
definition PM_COMMAND_PAYLOAD_MAX :: nat where "PM_COMMAND_PAYLOAD_MAX = 1536"

definition command_supported :: "pm_command_type \<Rightarrow> bool" where
  "command_supported t \<longleftrightarrow> t = PM_COMMAND_REBOOT \<or> t = PM_COMMAND_DIAGNOSTICS_SNAPSHOT \<or>
     t = PM_COMMAND_NETWORK_SELF_TEST \<or> t = PM_COMMAND_METER_SELF_TEST \<or> t = PM_COMMAND_OTA_INSTALL"

definition capability_supported :: "'j cjson_reader \<Rightarrow> 'j option \<Rightarrow> bool" where
  "capability_supported J capability \<longleftrightarrow> json_is (cJSON_IsNull J) capability \<or>
     json_string J capability \<in> {Some PM_PROTOCOL_ID, Some ''headless-command-v1'', Some ''esp-idf-ota-v1'', Some ''ota_v1''}"

text \<open>The command an element of the array describes, unless the element is skipped.\<close>

definition command_of_item :: "'j cjson_reader \<Rightarrow> int \<Rightarrow> 'j \<Rightarrow> pm_command option" where
  "command_of_item J time_s item = (let field = json_item J (Some item) in
     do {
       cid \<leftarrow> json_string J (field ''command_id'');
       key \<leftarrow> json_string J (field ''idempotency_key'');
       type_name \<leftarrow> json_string J (field ''command_type'');
       not_before \<leftarrow> json_string J (field ''not_before'');
       expires \<leftarrow> json_string J (field ''expires_at'');
       number \<leftarrow> json_number J (field ''attempt'');
       attempt \<leftarrow> pm_command_attempt_from_json_number number;
       payload_item \<leftarrow> field ''payload'';
       t \<leftarrow> pm_command_type_from_name type_name;
       start \<leftarrow> pm_network_parse_rfc3339_ms not_before;
       stop \<leftarrow> pm_network_parse_rfc3339_ms expires;
       if length cid \<noteq> PM_COMMAND_ID_MAX \<or> key = [] \<or> length key > PM_IDEMPOTENCY_KEY_MAX \<or>
          \<not> capability_supported J (field ''required_firmware_capability'') \<or>
          \<not> cJSON_IsObject (reader J) payload_item \<or> \<not> command_supported t \<or> stop \<le> start
       then None
       else do {
         serialized \<leftarrow> cJSON_PrintUnformatted J payload_item;
         if length (cstr serialized) > PM_COMMAND_PAYLOAD_MAX then None
         else Some (zero_command\<lparr>command_id := store_str 37 cid, idempotency_key := store_str 101 key, cmd_type := t,
                issued_utc_ms := time_s * 1000, not_before_utc_ms := start, expires_utc_ms := stop,
                cmd_attempt := attempt, cmd_payload := store_str 1537 serialized\<rparr>)
       }
     })"

text \<open>
  The ledger, its storage and the entries \<open>command_callback\<close> was called with, by their index. \<open>env\<close> says for
  each element what \<open>time(NULL)\<close> returned and whether the mutex of the ledger and its workspace could be had.
\<close>

record command_intake =
  in_ledger :: pm_command_ledger
  in_store :: "pm_command_ledger nvs"
  in_delivered :: "nat list"

definition take_from ::
    "(int \<Rightarrow> 'j \<Rightarrow> pm_command option) \<Rightarrow> psa_hash \<Rightarrow> (nat \<Rightarrow> int \<times> bool \<times> bool) \<Rightarrow> command_intake \<Rightarrow> nat \<times> 'j \<Rightarrow>
      command_intake" where
  "take_from command_of psa env w = (\<lambda>(k, item). case env k of (time_s, lock, alloc) \<Rightarrow>
     (case command_of time_s item of
        None \<Rightarrow> w
      | Some c \<Rightarrow>
          if issued_utc_ms c \<ge> not_before_utc_ms c
          then case pm_command_accept lock psa alloc (in_ledger w) c (issued_utc_ms c) (in_store w) of
            (e, r, l, n) \<Rightarrow>
              \<lparr>in_ledger = l, in_store = n, in_delivered = in_delivered w @
                 (case r of Some (i, duplicate) \<Rightarrow> if e = ESP_OK \<and> \<not> duplicate then [i] else [] | None \<Rightarrow> [])\<rparr>
          else w))"

definition take_command ::
    "'j cjson_reader \<Rightarrow> psa_hash \<Rightarrow> (nat \<Rightarrow> int \<times> bool \<times> bool) \<Rightarrow> command_intake \<Rightarrow> nat \<times> 'j \<Rightarrow> command_intake" where
  "take_command J = take_from (command_of_item J)"

definition parse_commands ::
    "'j cjson_reader \<Rightarrow> psa_hash \<Rightarrow> (nat \<Rightarrow> int \<times> bool \<times> bool) \<Rightarrow> string \<Rightarrow> command_intake \<Rightarrow> command_intake" where
  "parse_commands J psa env response w =
     foldl (take_command J psa env) w
       (enumerate 0 (json_elements J (json_item J (cJSON_Parse (reader J) (cstr response)) ''commands'')))"

text \<open>The command ids \<open>result_ack_callback\<close> is called with.\<close>

definition notify_result_acceptance :: "'j cjson_reader \<Rightarrow> string \<Rightarrow> string list" where
  "notify_result_acceptance J body =
     filter (\<lambda>cid. length cid = PM_COMMAND_ID_MAX)
       (List.map_filter (\<lambda>item. json_string J (json_item J (Some item) ''command_id''))
         (json_elements J (json_item J (cJSON_Parse (reader J) (cstr body)) ''command_results'')))"

subsection \<open>What the intake of commands guarantees\<close>

definition fresh_entry :: "pm_command \<Rightarrow> bool" where
  "fresh_entry c \<longleftrightarrow> length (cstr (command_id c)) = PM_COMMAND_ID_MAX \<and> cmd_state c = PM_COMMAND_ACCEPTED \<and>
     command_supported (cmd_type c) \<and> not_before_utc_ms c \<le> issued_utc_ms c \<and> issued_utc_ms c \<le> expires_utc_ms c"

text \<open>No entry that is in use was replaced: at most its checksum was renewed.\<close>

definition entries_kept :: "pm_command_ledger \<Rightarrow> pm_command_ledger \<Rightarrow> bool" where
  "entries_kept l l' \<longleftrightarrow> (\<forall>j < 8. \<not> evictable (entries l ! j) \<longrightarrow>
     entries l' ! j = entries l ! j \<or> entries l' ! j = seal_command (entries l ! j))"

lemma evictable_seal [simp]: "evictable (seal_command c) = evictable c"
  by (simp add: evictable_def seal_command_def vacant_def)

lemma fresh_entry_seal [simp]: "fresh_entry (seal_command c) = fresh_entry c"
  by (simp add: fresh_entry_def seal_command_def)

lemma fresh_entry_in_use: "fresh_entry c \<Longrightarrow> \<not> evictable c"
  by (auto simp: fresh_entry_def evictable_def vacant_def PM_COMMAND_ID_MAX_def)

lemma entries_kept_refl [simp]: "entries_kept l l"
  by (simp add: entries_kept_def)

lemma entries_kept_trans: "entries_kept l l1 \<Longrightarrow> entries_kept l1 l2 \<Longrightarrow> entries_kept l l2"
  unfolding entries_kept_def by (metis evictable_seal seal_command_idem)

lemma entries_kept_fresh: "entries_kept l l' \<Longrightarrow> i < 8 \<Longrightarrow> fresh_entry (entries l ! i) \<Longrightarrow> fresh_entry (entries l' ! i)"
  unfolding entries_kept_def by (metis fresh_entry_in_use fresh_entry_seal)

lemma command_of_item_fields:
  assumes "command_of_item J t item = Some c"
  shows "\<not> result_ack_required c" "length (cstr (command_id c)) = PM_COMMAND_ID_MAX" "command_supported (cmd_type c)"
    "issued_utc_ms c = t * 1000"
proof -
  obtain cid key ty st sp att ser where
      c: "c = zero_command\<lparr>command_id := store_str 37 cid, idempotency_key := store_str 101 key, cmd_type := ty,
           issued_utc_ms := t * 1000, not_before_utc_ms := st, expires_utc_ms := sp,
           cmd_attempt := att, cmd_payload := store_str 1537 ser\<rparr>"
    and cid: "json_string J (json_item J (Some item) ''command_id'') = Some cid" "length cid = PM_COMMAND_ID_MAX"
    and ty: "command_supported ty"
    using assms unfolding command_of_item_def Let_def
    by (auto simp: bind_eq_Some_conv split: if_splits)
  have "cstr cid = cid" using cid(1) by (auto simp: json_string_def split: option.splits)
  then show "length (cstr (command_id c)) = PM_COMMAND_ID_MAX"
    using cid(2) c by (simp add: cstr_store_str PM_COMMAND_ID_MAX_def)
  show "\<not> result_ack_required c" "command_supported (cmd_type c)" "issued_utc_ms c = t * 1000"
    using c ty by (simp_all add: zero_command_def)
qed

lemma accept_reaches:
  assumes "ledger_reach psa l n" "\<not> result_ack_required c" "pm_command_accept lk psa al l c now n = (e, r, l', n')"
  shows "ledger_reach psa l' n'"
  using assms ledger_reach.operation [of psa l n "Accept lk al c now" l' n'] by simp

text \<open>The entry of a command that was accepted as new.\<close>

lemma accepted_entry:
  assumes "ledger_reach psa l n" "\<not> result_ack_required c"
    and "pm_command_accept lk psa al l c now n = (ESP_OK, Some (i, False), l', n')"
  shows "entries l' ! i = seal_command (accepted_candidate psa c now)" "i < 8" "evictable (entries l ! i)" "now \<le> expires_utc_ms c"
proof -
  have inv: "ledger_inv psa l n" using assms(1) by (rule ledger_reach_inv)
  have "length (entries l) = 8" using inv by (simp add: ledger_inv_def ledger_ok_def ledger_wf_def)
  moreover have "command_accept_locked psa al l c now n = (ESP_OK, Some (i, False), l', n')"
    using assms(3) by (simp add: pm_command_accept_def split: if_splits)
  from command_accept_step [OF inv assms(2) this] obtain
    "i < 8" "evictable (entries l ! i)" "now \<le> expires_utc_ms c"
    "rewritten psa l n (l\<lparr>entries := (entries l)[i := accepted_candidate psa c now], ldg_next := of_nat ((i + 1) mod 8)\<rparr>) ESP_OK l' n'"
    by (auto split: if_splits)
  moreover note rewritten_ok(1) [OF this(4)]
  ultimately show "entries l' ! i = seal_command (accepted_candidate psa c now)" "i < 8" "evictable (entries l ! i)"
    "now \<le> expires_utc_ms c" by simp_all
qed

definition intake_inv :: "psa_hash \<Rightarrow> pm_command_ledger \<Rightarrow> command_intake \<Rightarrow> bool" where
  "intake_inv psa l0 w \<longleftrightarrow> ledger_reach psa (in_ledger w) (in_store w) \<and> entries_kept l0 (in_ledger w) \<and>
     distinct (in_delivered w) \<and>
     (\<forall>i \<in> set (in_delivered w). i < 8 \<and> fresh_entry (entries (in_ledger w) ! i))"

text \<open>
  What the intake needs of a function that reads commands from a document: full ids of supported types, not yet finished, issued
  now.
\<close>

locale command_source =
  fixes command_of :: "int \<Rightarrow> 'j \<Rightarrow> pm_command option"
  assumes command_of_fields: "command_of t item = Some c \<Longrightarrow> \<not> result_ack_required c"
    "command_of t item = Some c \<Longrightarrow> length (cstr (command_id c)) = PM_COMMAND_ID_MAX"
    "command_of t item = Some c \<Longrightarrow> command_supported (cmd_type c)"
    "command_of t item = Some c \<Longrightarrow> issued_utc_ms c = t * 1000"
begin

lemma take_from_inv:
  assumes "intake_inv psa l0 w"
  shows "intake_inv psa l0 (take_from command_of psa env w (k, item))"
proof -
  obtain t lk al where env: "env k = (t, lk, al)" by (metis prod.exhaust)
  show ?thesis
  proof (cases "\<exists>c. command_of t item = Some c \<and> issued_utc_ms c \<ge> not_before_utc_ms c")
    case False
    then have "take_from command_of psa env w (k, item) = w"
      by (auto simp: take_from_def env split: option.splits)
    with assms show ?thesis by simp
  next
    case True
    then obtain c where c: "command_of t item = Some c" "issued_utc_ms c \<ge> not_before_utc_ms c" by blast
    note f = command_of_fields [OF c(1)]
    obtain e r l n where a: "pm_command_accept lk psa al (in_ledger w) c (issued_utc_ms c) (in_store w) = (e, r, l, n)"
      by (metis prod.exhaust)
    let ?new = "case r of Some (i, duplicate) \<Rightarrow> if e = ESP_OK \<and> \<not> duplicate then [i] else [] | None \<Rightarrow> []"
    have w': "take_from command_of psa env w (k, item) = \<lparr>in_ledger = l, in_store = n, in_delivered = in_delivered w @ ?new\<rparr>"
      using c a by (simp add: take_from_def env)
    have reach: "ledger_reach psa (in_ledger w) (in_store w)" using assms by (simp add: intake_inv_def)
    have kept: "entries_kept (in_ledger w) l"
      using command_accept_preserves [OF reach f(1) a] by (auto simp: entries_kept_def)
    consider (none) "?new = []" | (one) i where "?new = [i]" "i < 8" "fresh_entry (entries l ! i)"
      "evictable (entries (in_ledger w) ! i)"
    proof (cases "?new = []")
      case False
      then obtain i where r: "e = ESP_OK" "r = Some (i, False)" by (auto split: option.splits if_splits)
      note ae = accepted_entry [OF reach f(1) a [unfolded r]]
      have "fresh_entry (accepted_candidate psa c (issued_utc_ms c))"
        using f(2,3) c(2) ae(4) by (simp add: fresh_entry_def) (simp add: accepted_candidate_def Let_def)
      with ae r that(2) show ?thesis by simp
    qed
    note new = this
    have old: "i < 8" "fresh_entry (entries l ! i)" "\<not> evictable (entries (in_ledger w) ! i)" if "i \<in> set (in_delivered w)" for i
      using assms that kept entries_kept_fresh fresh_entry_in_use by (auto simp: intake_inv_def)
    have "distinct (in_delivered w @ ?new)"
      using new old assms by cases (auto simp: intake_inv_def)
    moreover have "\<forall>i \<in> set (in_delivered w @ ?new). i < 8 \<and> fresh_entry (entries l ! i)"
      using new old by cases auto
    ultimately show ?thesis
      using assms kept accept_reaches [OF reach f(1) a] entries_kept_trans [of l0 "in_ledger w" l]
      unfolding intake_inv_def w' by auto
  qed
qed

lemma take_all_inv: "intake_inv psa l0 w \<Longrightarrow> intake_inv psa l0 (foldl (take_from command_of psa env) w xs)"
  by (induction xs arbitrary: w) (auto intro: take_from_inv)

end

interpretation telemetry_commands: command_source "command_of_item J" for J
  by unfold_locales (fact command_of_item_fields)+

lemma parse_commands_inv: "intake_inv psa l0 w \<Longrightarrow> intake_inv psa l0 (parse_commands J psa env response w)"
  unfolding parse_commands_def take_command_def by (rule telemetry_commands.take_all_inv)

text \<open>
  C26. Taking the commands of an answer is safe whatever the document holds and whatever storage does.
  The ledger stays one that the operations of the ledger can reach, no entry in use is displaced, and
  \<open>command_callback\<close> is called with at most eight different entries, each of which the ledger then holds as an accepted
  command of a supported type with a full id, inside its window of validity.
\<close>

theorem commands_taken_safely:
  assumes "ledger_reach psa l n"
    and "parse_commands J psa env response \<lparr>in_ledger = l, in_store = n, in_delivered = []\<rparr> = w"
  shows "ledger_reach psa (in_ledger w) (in_store w) \<and>
    (\<forall>j < 8. \<not> vacant (entries l ! j) \<and> \<not> command_terminal (cmd_state (entries l ! j)) \<longrightarrow>
       entries (in_ledger w) ! j = entries l ! j \<or> entries (in_ledger w) ! j = seal_command (entries l ! j)) \<and>
    distinct (in_delivered w) \<and> length (in_delivered w) \<le> 8 \<and>
    (\<forall>i \<in> set (in_delivered w). i < 8 \<and>
       length (cstr (command_id (entries (in_ledger w) ! i))) = PM_COMMAND_ID_MAX \<and>
       cmd_state (entries (in_ledger w) ! i) = PM_COMMAND_ACCEPTED \<and>
       command_supported (cmd_type (entries (in_ledger w) ! i)) \<and>
       not_before_utc_ms (entries (in_ledger w) ! i) \<le> issued_utc_ms (entries (in_ledger w) ! i) \<and>
       issued_utc_ms (entries (in_ledger w) ! i) \<le> expires_utc_ms (entries (in_ledger w) ! i))"
proof -
  have "intake_inv psa l \<lparr>in_ledger = l, in_store = n, in_delivered = []\<rparr>"
    using assms(1) by (simp add: intake_inv_def)
  from parse_commands_inv [OF this, of J env response] have inv: "intake_inv psa l w" by (simp add: assms(2))
  then have "set (in_delivered w) \<subseteq> {..<8}" "distinct (in_delivered w)" by (auto simp: intake_inv_def)
  then have "length (in_delivered w) \<le> 8"
    using card_mono [of "{..<8::nat}" "set (in_delivered w)"] distinct_card [of "in_delivered w"] by simp
  with inv show ?thesis
    by (auto simp: intake_inv_def fresh_entry_def entries_kept_def evictable_def)
qed

subsection \<open>A concrete answer\<close>

fun json_field :: "json \<Rightarrow> string \<Rightarrow> json option" where
  "json_field (JObject kvs) key = map_of kvs key"
| "json_field _ key = None"

fun json_text :: "json \<Rightarrow> string option" where
  "json_text (JString s) = Some s"
| "json_text _ = None"

fun json_value :: "json \<Rightarrow> rat option" where
  "json_value (JNumber i) = Some (of_int i)"
| "json_value _ = None"

fun json_children :: "json \<Rightarrow> json list" where
  "json_children (JArray xs) = xs"
| "json_children (JObject kvs) = map snd kvs"
| "json_children _ = []"

fun json_object :: "json \<Rightarrow> bool" where
  "json_object (JObject _) = True"
| "json_object _ = False"

fun json_array :: "json \<Rightarrow> bool" where
  "json_array (JArray _) = True"
| "json_array _ = False"

definition json_reader :: "(string \<Rightarrow> json option) \<Rightarrow> (json \<Rightarrow> string option) \<Rightarrow> json cjson_reader" where
  "json_reader parser print = \<lparr>reader = \<lparr>cJSON_Parse = parser, cJSON_IsObject = json_object,
     cJSON_GetArraySize = (\<lambda>j. length (json_children j)), cJSON_GetObjectItem = json_field,
     cJSON_valuestring = json_text, cJSON_valuedouble = json_value\<rparr>,
     cJSON_IsNull = (\<lambda>j. j = JNull), cJSON_IsArray = json_array, cJSON_children = json_children,
     cJSON_PrintUnformatted = print\<rparr>"

definition demo_item :: json where
  "demo_item = JObject [(''command_id'', JString ''00000000-0000-4000-8000-00000000000a''),
     (''idempotency_key'', JString ''k1''), (''command_type'', JString ''meter_self_test''),
     (''not_before'', JString ''2026-01-01T00:00:00Z''), (''expires_at'', JString ''2026-01-01T01:00:00Z''),
     (''attempt'', JNumber 1), (''required_firmware_capability'', JNull), (''payload'', JObject [])]"

definition demo_reader :: "json cjson_reader" where
  "demo_reader = json_reader (\<lambda>_. Some (JObject [(''commands'', JArray [demo_item])])) (\<lambda>_. Some ''{}'')"

lemma demo_item_command:
  "case command_of_item demo_reader 1767226000 demo_item of None \<Rightarrow> False | Some c \<Rightarrow> \<not> vacant c \<and> cstr (idempotency_key c) \<noteq> [] \<and>
     cmd_type c = PM_COMMAND_METER_SELF_TEST \<and> nul_terminated (cmd_payload c) \<and> not_before_utc_ms c \<le> 1767226000000 \<and>
     expires_utc_ms c = 1767229200000 \<and> issued_utc_ms c = 1767226000000"
  by code_simp

theorem commands_taken_safely_witness:
  "\<exists>w. parse_commands demo_reader (\<lambda>_. None) (\<lambda>_. (1767226000, True, True)) ''answer''
       \<lparr>in_ledger = seal_ledger zero_ledger, in_store = demo_nvs, in_delivered = []\<rparr> = w \<and> in_delivered w = [0] \<and>
     cmd_state (entries (in_ledger w) ! 0) = PM_COMMAND_ACCEPTED"
proof -
  obtain c where c: "command_of_item demo_reader 1767226000 demo_item = Some c" "\<not> vacant c"
    "cstr (idempotency_key c) \<noteq> []" "cmd_type c = PM_COMMAND_METER_SELF_TEST" "nul_terminated (cmd_payload c)"
    "not_before_utc_ms c \<le> 1767226000000" "expires_utc_ms c = 1767229200000" "issued_utc_ms c = 1767226000000"
    using demo_item_command by (auto split: option.splits)
  obtain l' n' where "pm_command_accept True (\<lambda>_. None) True (seal_ledger zero_ledger) c 1767226000000 demo_nvs =
      (ESP_OK, Some (0, False), l', n')"
    using first_accept [of c 1767226000000 "\<lambda>_. None"] c by auto
  moreover have "json_elements demo_reader (json_item demo_reader (cJSON_Parse (reader demo_reader) (cstr ''answer'')) ''commands'') =
      [demo_item]" by code_simp
  ultimately have w: "parse_commands demo_reader (\<lambda>_. None) (\<lambda>_. (1767226000, True, True)) ''answer''
       \<lparr>in_ledger = seal_ledger zero_ledger, in_store = demo_nvs, in_delivered = []\<rparr> =
     \<lparr>in_ledger = l', in_store = n', in_delivered = [0]\<rparr>"
    using c by (simp add: parse_commands_def take_command_def take_from_def)
  from commands_taken_safely [OF demo_ledger_reach w] w show ?thesis by simp
qed

end
