(* ===== verification/PM_Network_Task.thy ===== *)
theory PM_Network_Task
  imports PM_Exchange
begin

text \<open>
  The network task of components/pm_network/pm_network_v2.c: \<open>send_current_telemetry\<close>, one round of the
  loop of \<open>network_task\<close>, and \<open>pm_network_start\<close>. The loop's environment is the record \<open>network_env\<close>: every
  reading of the clock, what the Wi-Fi driver, SNTP and the server answered, and the samples that the measurement
  task published meanwhile. Waiting and logging are not modelled; Wi-Fi configuration is the error it returns.
\<close>

subsection \<open>One telemetry exchange\<close>

record 'j platform =
  pf_psa :: psa_hash
  pf_b64enc :: "u8 list \<Rightarrow> string option"
  pf_b64dec :: "string \<Rightarrow> u8 list option"
  pf_json :: "'j cjson_reader"
  pf_print :: "json \<Rightarrow> nat \<Rightarrow> string option"

text \<open>
  What the task shares with others: the slot of samples, the network context, the ledger with its storage, and
  the calls of the two callbacks.
\<close>

record uplink =
  up_slot :: pm_telemetry_slot
  up_ctx :: pm_network_context
  up_ledger :: pm_command_ledger
  up_store :: "pm_command_ledger nvs"
  up_delivered :: "nat list"
  up_acknowledged :: "string list"

record exchange_env =
  xe_app :: app_info
  xe_lock :: bool
  xe_mutex :: "bool option"
  xe_peer :: net_peer
  xe_commands :: "nat \<Rightarrow> int \<times> bool \<times> bool"
  xe_offers :: "pm_meter_sample list"

definition bytes_chars :: "u8 list \<Rightarrow> string" where
  "bytes_chars bs = map (\<lambda>b. char_of (unat b)) bs"

text \<open>From the lock of the ledger to the intake of commands.\<close>

definition telemetry_attempt ::
    "'j platform \<Rightarrow> exchange_env \<Rightarrow> pm_telemetry_sample \<Rightarrow> u32 \<Rightarrow> uplink \<Rightarrow> esp_err \<times> u32 \<times> uplink" where
  "telemetry_attempt P env sample seconds u =
     (if \<not> xe_lock env then (ESP_ERR_NO_MEM, seconds, u)
      else case pm_network_serialize_telemetry (pf_print P) (xe_app env) (up_ctx u) (up_ledger u) sample
                  (PM_NETWORK_BODY_MAX + 1) of
        Inl e \<Rightarrow> (e, seconds, u)
      | Inr body \<Rightarrow>
          (case signed_request (pf_psa P) (pf_b64enc P) (pf_b64dec P) (xe_mutex env) (xe_peer env)
                  PM_TELEMETRY_ENDPOINT body PM_NETWORK_RESPONSE_MAX 0 (up_ctx u) of (e, _, used, _, ctx) \<Rightarrow>
            let u1 = u\<lparr>up_ctx := ctx\<rparr> in
            if e \<noteq> ESP_OK then (e, seconds, u1)
            else case validate_telemetry_response (pf_json P) ctx sample (bytes_chars used) seconds of (e2, seconds2) \<Rightarrow>
              if e2 \<noteq> ESP_OK then (e2, seconds2, u1)
              else let w = parse_commands (pf_json P) (pf_psa P) (xe_commands env) (bytes_chars used)
                             \<lparr>in_ledger = up_ledger u, in_store = up_store u, in_delivered = []\<rparr>
                in (ESP_OK, seconds2,
                    u1\<lparr>up_acknowledged := up_acknowledged u @ notify_result_acceptance (pf_json P) body,
                       up_ledger := in_ledger w, up_store := in_store w,
                       up_delivered := up_delivered u @ in_delivered w\<rparr>)))"

definition send_current_telemetry ::
    "'j platform \<Rightarrow> exchange_env \<Rightarrow> u32 \<Rightarrow> uplink \<Rightarrow> esp_err \<times> u32 \<times> uplink" where
  "send_current_telemetry P env seconds u =
     (case pm_telemetry_begin_send (up_slot u) of
        (None, slot) \<Rightarrow> (ESP_ERR_NOT_FOUND, seconds, u\<lparr>up_slot := slot\<rparr>)
      | (Some sample, slot) \<Rightarrow>
          (case telemetry_attempt P env sample seconds (u\<lparr>up_slot := slot\<rparr>) of (e, seconds2, u1) \<Rightarrow>
             case pm_telemetry_complete_send (foldl slot_offer (up_slot u1) (xe_offers env))
                    (sample_sequence sample) (e = ESP_OK) of (complete_error, slot2) \<Rightarrow>
               (if e = ESP_OK then complete_error else e, seconds2, u1\<lparr>up_slot := slot2\<rparr>)))"

subsection \<open>The loop of the task\<close>

record network_env =
  ne_now :: int
  ne_wifi :: esp_err
  ne_wifi_failed_at :: int
  ne_wifi_random :: u32
  ne_connected_at :: int
  ne_server_at :: int
  ne_next_at :: int
  ne_sntp :: esp_err
  ne_link :: bool
  ne_due_at :: int
  ne_exchange :: exchange_env
  ne_done_at :: int
  ne_random :: u32

record network_loop =
  nl_scheduler :: pm_network_scheduler
  nl_wifi_backoff :: pm_telemetry_backoff
  nl_connected :: bool
  nl_sntp_initialized :: bool
  nl_uplink :: uplink

abbreviation health_update :: "pm_network_health_flag \<Rightarrow> bool \<Rightarrow> uplink \<Rightarrow> uplink" where
  "health_update flag active u \<equiv> u\<lparr>up_ctx := pm_network_health_update flag active (up_ctx u)\<rparr>"

text \<open>Whether the round goes on, and the state.\<close>

definition network_connect :: "network_env \<Rightarrow> network_loop \<Rightarrow> bool \<times> network_loop" where
  "network_connect env s =
     (if nl_connected s then (True, s)
      else if \<not> pm_telemetry_backoff_due (nl_wifi_backoff s) (ne_now env) then (False, s)
      else if ne_wifi env \<noteq> ESP_OK
      then let backoff = snd (pm_telemetry_backoff_fail (nl_wifi_backoff s) (ne_wifi_failed_at env) (ne_wifi_random env))
        in (False, s\<lparr>nl_wifi_backoff := backoff,
                    nl_uplink := health_update PM_HEALTH_WIFI_REPEATED_FAILURE (failures backoff \<ge> 3) (nl_uplink s)\<rparr>)
      else (True, s\<lparr>nl_connected := True,
                    nl_wifi_backoff := pm_telemetry_backoff_reset (ne_connected_at env),
                    nl_scheduler := (nl_scheduler s)\<lparr>server_backoff := pm_telemetry_backoff_reset (ne_server_at env),
                                                     next_telemetry_us := ne_next_at env\<rparr>,
                    nl_uplink := health_update PM_HEALTH_WIFI_REPEATED_FAILURE False (nl_uplink s),
                    nl_sntp_initialized := (nl_sntp_initialized s \<or> ne_sntp env = ESP_OK)\<rparr>))"

definition network_request :: "'j platform \<Rightarrow> network_env \<Rightarrow> network_loop \<Rightarrow> network_loop" where
  "network_request P env s =
     (let scheduler = (nl_scheduler s)\<lparr>request_in_progress := True\<rparr>;
          seconds = word_of_int (c_div (telemetry_period_us scheduler) 1000000) :: u32
      in case send_current_telemetry P (ne_exchange env) seconds (nl_uplink s) of (e, seconds2, u) \<Rightarrow>
        let scheduler2 = (if e = ESP_OK \<and> seconds2 \<ge> PM_TELEMETRY_MIN_SECONDS \<and> seconds2 \<le> PM_TELEMETRY_MAX_SECONDS
                          then scheduler\<lparr>telemetry_period_us := uint seconds2 * 1000000\<rparr> else scheduler);
            success = (e = ESP_OK \<or> e = ESP_ERR_NOT_FOUND)
        in s\<lparr>nl_scheduler := pm_network_telemetry_complete scheduler2 (ne_done_at env) success (ne_random env),
             nl_uplink := health_update PM_HEALTH_SERVER_UNAVAILABLE (\<not> success) u\<rparr>)"

definition network_round :: "'j platform \<Rightarrow> network_env \<Rightarrow> network_loop \<Rightarrow> network_loop" where
  "network_round P env s =
     (case network_connect env s of (proceed, s1) \<Rightarrow>
        if \<not> proceed then s1
        else if \<not> ne_link env then s1\<lparr>nl_connected := False\<rparr>
        else if pm_network_telemetry_due (nl_scheduler s1) (ne_due_at env) then network_request P env s1
        else s1)"

definition network_task_init :: "u32 \<Rightarrow> int \<Rightarrow> int \<Rightarrow> uplink \<Rightarrow> network_loop" where
  "network_task_init telemetry_seconds scheduler_at wifi_at u =
     \<lparr>nl_scheduler = pm_network_scheduler_init scheduler_at telemetry_seconds,
      nl_wifi_backoff = pm_telemetry_backoff_reset wifi_at, nl_connected = False, nl_sntp_initialized = False, nl_uplink = u\<rparr>"

subsection \<open>Starting the task\<close>

text \<open>
  A fresh random boot id of version 4, an empty slot, then the checks that a request would make. \<open>wifi\<close> is the
  error of \<open>configure_wifi\<close>, \<open>retaken\<close> and \<open>created\<close> say whether the mutex was had again and the task created.
\<close>

definition boot_uuid :: "u8 list \<Rightarrow> u8 list" where
  "boot_uuid r = (let r1 = r[6 := (r ! 6 AND 0x0F) OR 0x40] in r1[8 := (r1 ! 8 AND 0x3F) OR 0x80])"

definition pm_network_start ::
    "u8 list \<Rightarrow> bool \<Rightarrow> bool option \<Rightarrow> bool \<Rightarrow> esp_err \<Rightarrow> bool \<Rightarrow> uplink \<Rightarrow> esp_err \<times> uplink" where
  "pm_network_start random alloc mutex retaken wifi created u =
     (let u1 = u\<lparr>up_ctx := (up_ctx u)\<lparr>boot_id := store_str 37 (format_device_id (boot_uuid random))\<rparr>,
                 up_slot := pm_telemetry_slot_init\<rparr>
      in if \<not> alloc then (ESP_ERR_NO_MEM, u1)
         else case pm_network_capture_auth_snapshot mutex (up_ctx u1) of (e, _) \<Rightarrow>
           let e2 = (if e \<noteq> ESP_OK then e else if \<not> retaken then ESP_ERR_TIMEOUT else wifi)
           in (if e2 \<noteq> ESP_OK then e2 else if \<not> created then ESP_ERR_NO_MEM else ESP_OK, u1))"


subsection \<open>What an exchange guarantees\<close>

text \<open>
  cJSON reads a printed document back: the command ids found in the text of a telemetry document are those of the ledger entries
  whose results the firmware put into it. This is asked of the documents that \<open>pm_network_serialize_telemetry\<close> builds and of no others.
\<close>

definition cjson_faithful :: "'j platform \<Rightarrow> bool" where
  "cjson_faithful P \<longleftrightarrow> (\<forall>app ctx sample cs n body. list_all reported_entry cs \<longrightarrow>
     pf_print P (telemetry_document app ctx sample (map (command_result app) cs)) n = Some body \<longrightarrow>
     List.map_filter (\<lambda>item. json_string (pf_json P) (json_item (pf_json P) (Some item) ''command_id''))
       (json_elements (pf_json P) (json_item (pf_json P) (cJSON_Parse (reader (pf_json P)) (cstr body)) ''command_results'')) =
     map (\<lambda>c. cstr (command_id c)) cs)"

lemma serialize_body:
  assumes "pm_network_serialize_telemetry print app ctx l sample n = Inr body"
  shows "print (telemetry_document app ctx sample (map (command_result app) (filter reported_entry (entries l)))) n = Some body"
  using assms
  by (auto simp: pm_network_serialize_telemetry_def append_command_results_def Let_def
      split: if_splits sum.splits option.splits)

lemma serialize_not_ok: "pm_network_serialize_telemetry print app ctx l sample n \<noteq> Inl ESP_OK"
  by (auto simp: pm_network_serialize_telemetry_def append_command_results_def Let_def split: sum.split option.split)

lemma acknowledged_ids:
  assumes "cjson_faithful P" "pm_network_serialize_telemetry (pf_print P) app ctx l sample n = Inr body"
  shows "notify_result_acceptance (pf_json P) body = map (\<lambda>c. cstr (command_id c)) (filter reported_entry (entries l))"
proof -
  let ?cs = "filter reported_entry (entries l)"
  have "list_all reported_entry ?cs" by (simp add: list_all_iff)
  then have "notify_result_acceptance (pf_json P) body =
      filter (\<lambda>cid. length cid = PM_COMMAND_ID_MAX) (map (\<lambda>c. cstr (command_id c)) ?cs)"
    using assms(1) serialize_body [OF assms(2)] unfolding notify_result_acceptance_def cjson_faithful_def by presburger
  also have "\<dots> = map (\<lambda>c. cstr (command_id c)) ?cs"
    by (rule filter_True) (simp add: reported_entry_def)
  finally show ?thesis .
qed

lemma validate_ok:
  assumes "validate_telemetry_response J ctx sample response s = (e, s')"
  shows "if e = ESP_OK
    then response_identifies J ctx sample (cJSON_Parse (reader J) (cstr response)) \<and> telemetry_period_is_supported s'
    else s' = s"
proof -
  have "telemetry_period_is_supported p" if "response_period J doc = Some p" for doc p
    using that by (auto simp: response_period_def Let_def split: if_splits option.splits)
  with assms show ?thesis
    by (auto simp: validate_telemetry_response_def Let_def split: if_splits option.splits)
qed

definition intake_unchanged :: "uplink \<Rightarrow> uplink \<Rightarrow> bool" where
  "intake_unchanged u u' \<longleftrightarrow> up_ledger u' = up_ledger u \<and> up_store u' = up_store u \<and> up_delivered u' = up_delivered u \<and>
     up_acknowledged u' = up_acknowledged u"

text \<open>The evidence behind a successful exchange.\<close>

definition answered ::
    "'j platform \<Rightarrow> exchange_env \<Rightarrow> pm_telemetry_sample \<Rightarrow> string \<Rightarrow> u8 list \<Rightarrow> uplink \<Rightarrow> uplink \<Rightarrow> bool" where
  "answered P env sample body used u u' \<longleftrightarrow>
     pm_network_serialize_telemetry (pf_print P) (xe_app env) (up_ctx u) (up_ledger u) sample (PM_NETWORK_BODY_MAX + 1) = Inr body \<and>
     success_status (np_status (xe_peer env)) \<and>
     pm_verify_response (pf_psa P) (pf_b64dec P) (server_to_device_key (up_ctx u)) (device_id_text (up_ctx u))
       PM_TELEMETRY_ENDPOINT None (np_time (xe_peer env) * 1000) (auth (captured_headers (xe_peer env))) used
       (response_nonce_cache (up_ctx u)) = (ESP_OK, response_nonce_cache (up_ctx u')) \<and>
     response_identifies (pf_json P) (up_ctx u) sample (cJSON_Parse (reader (pf_json P)) (cstr (bytes_chars used)))"

lemma response_identifies_cong:
  "same_credentials ctx ctx' \<Longrightarrow> response_identifies J ctx' sample doc = response_identifies J ctx sample doc"
  by (simp add: response_identifies_def same_credentials_def)

lemma intake_reaches:
  assumes "ledger_reach psa l n"
  shows "ledger_reach psa (in_ledger (parse_commands J psa env r \<lparr>in_ledger = l, in_store = n, in_delivered = []\<rparr>))
    (in_store (parse_commands J psa env r \<lparr>in_ledger = l, in_store = n, in_delivered = []\<rparr>))"
  using parse_commands_inv [of psa l "\<lparr>in_ledger = l, in_store = n, in_delivered = []\<rparr>" J env r] assms
  by (simp add: intake_inv_def)

lemma telemetry_attempt_cases:
  assumes a: "telemetry_attempt P env sample s u = (e, s', u')"
    and reach: "ledger_reach (pf_psa P) (up_ledger u) (up_store u)"
  shows "same_credentials (up_ctx u) (up_ctx u') \<and> up_slot u' = up_slot u \<and>
    ledger_reach (pf_psa P) (up_ledger u') (up_store u') \<and>
    (if e = ESP_OK
     then telemetry_period_is_supported s' \<and> (\<exists>body used. answered P env sample body used u u' \<and>
       up_acknowledged u' = up_acknowledged u @ notify_result_acceptance (pf_json P) body)
     else intake_unchanged u u' \<and> s' = s)"
proof (cases "xe_lock env \<and> (\<exists>body. pm_network_serialize_telemetry (pf_print P) (xe_app env) (up_ctx u) (up_ledger u)
    sample (PM_NETWORK_BODY_MAX + 1) = Inr body)")
  case False
  then consider "\<not> xe_lock env" | e0 where "pm_network_serialize_telemetry (pf_print P) (xe_app env) (up_ctx u)
      (up_ledger u) sample (PM_NETWORK_BODY_MAX + 1) = Inl e0" by (metis sum.exhaust)
  then have "u' = u \<and> s' = s \<and> e \<noteq> ESP_OK"
  proof cases
    case (2 e0)
    moreover have "e0 \<noteq> ESP_OK" using 2 serialize_not_ok by metis
    ultimately show ?thesis using a by (auto simp: telemetry_attempt_def split: if_splits)
  qed (use a in \<open>auto simp: telemetry_attempt_def\<close>)
  with reach show ?thesis by (simp add: same_credentials_def intake_unchanged_def)
next
  case True
  then obtain body where b: "xe_lock env" "pm_network_serialize_telemetry (pf_print P) (xe_app env) (up_ctx u) (up_ledger u)
    sample (PM_NETWORK_BODY_MAX + 1) = Inr body" by blast
  obtain e1 st used rq ctx where r: "signed_request (pf_psa P) (pf_b64enc P) (pf_b64dec P) (xe_mutex env) (xe_peer env)
      PM_TELEMETRY_ENDPOINT body PM_NETWORK_RESPONSE_MAX 0 (up_ctx u) = (e1, st, used, rq, ctx)" by (metis prod.exhaust)
  obtain e2 s2 where v: "validate_telemetry_response (pf_json P) ctx sample (bytes_chars used) s = (e2, s2)" by (metis prod.exhaust)
  note sr = signed_request_cases [OF r] and vo = validate_ok [OF v]
  let ?w = "parse_commands (pf_json P) (pf_psa P) (xe_commands env) (bytes_chars used)
    \<lparr>in_ledger = up_ledger u, in_store = up_store u, in_delivered = []\<rparr>"
  have c: "same_credentials (up_ctx u) ctx" using sr by simp
  show ?thesis
  proof (cases "e1 = ESP_OK \<and> e2 = ESP_OK")
    case False
    with a b r v vo have "e \<noteq> ESP_OK" "s' = s" "u' = u\<lparr>up_ctx := ctx\<rparr>"
      by (auto simp: telemetry_attempt_def Let_def split: if_splits)
    with c reach show ?thesis by (simp add: intake_unchanged_def)
  next
    case ok: True
    with a b r v have e: "e = ESP_OK" "s' = s2" "u' = u\<lparr>up_ctx := ctx,
        up_acknowledged := up_acknowledged u @ notify_result_acceptance (pf_json P) body,
        up_ledger := in_ledger ?w, up_store := in_store ?w, up_delivered := up_delivered u @ in_delivered ?w\<rparr>"
      by (simp_all add: telemetry_attempt_def Let_def)
    have "response_identifies (pf_json P) (up_ctx u) sample (cJSON_Parse (reader (pf_json P)) (cstr (bytes_chars used)))"
      using ok vo by (simp add: response_identifies_cong [OF c])
    with ok sr b(2) have "answered P env sample body used u u'" unfolding e(3) by (simp add: answered_def)
    with ok vo e c intake_reaches [OF reach] show ?thesis by auto
  qed
qed

lemma complete_after_begin:
  assumes "pm_telemetry_begin_send slot = (Some sample, slot1)" "sample_sequence sample \<noteq> 0"
  shows "\<exists>slot2. pm_telemetry_complete_send (foldl slot_offer slot1 ms) (sample_sequence sample) ok = (ESP_OK, slot2) \<and>
    \<not> in_flight_present slot2"
proof -
  have "slot_in_air (foldl slot_offer slot1 ms) = Some sample"
    using assms(1) slot.foldl_offer_in_air [of slot1 ms] by (auto simp: slot_defs split: if_splits)
  with assms(2) show ?thesis by (auto simp: slot_in_air_def pm_telemetry_complete_send_def split: if_splits)
qed

text \<open>
  C24. An exchange changes the device's obligations only on authentic evidence. Results are reported as
  delivered and commands are taken only after a response with a success status whose signature verifies under
  this device's key with a new nonce and whose body names this device, this boot and the sample that was sent; the results that are
  then acknowledged are exactly those in the request, and the new interval is a supported one. After every other
  outcome ledger, storage, callbacks and interval are as before. In every case the sample is no longer in flight, the credentials are
  unchanged and the ledger is still one that its operations can reach.
\<close>

theorem telemetry_exchange_safe:
  assumes "ledger_reach (pf_psa P) (up_ledger u) (up_store u)" and "cjson_faithful P"
    and "pending_present (up_slot u) \<Longrightarrow> sample_sequence (pending (up_slot u)) \<noteq> 0"
    and "\<not> in_flight_present (up_slot u)"
    and send: "send_current_telemetry P env s u = (e, s', u')"
  shows "same_credentials (up_ctx u) (up_ctx u') \<and> \<not> in_flight_present (up_slot u') \<and>
    ledger_reach (pf_psa P) (up_ledger u') (up_store u') \<and>
    (if e = ESP_OK
     then (\<exists>body used. pending_present (up_slot u) \<and> answered P env (pending (up_slot u)) body used u u') \<and>
       telemetry_period_is_supported s' \<and>
       up_acknowledged u' = up_acknowledged u @ map (\<lambda>c. cstr (command_id c)) (filter reported_entry (entries (up_ledger u)))
     else intake_unchanged u u' \<and> s' = s)"
proof (cases "pending_present (up_slot u)")
  case False
  with assms(1,4) send show ?thesis
    by (auto simp: send_current_telemetry_def pm_telemetry_begin_send_def same_credentials_def intake_unchanged_def)
next
  case True
  let ?sample = "pending (up_slot u)"
  obtain slot where b: "pm_telemetry_begin_send (up_slot u) = (Some ?sample, slot)"
    using True assms(4) by (simp add: pm_telemetry_begin_send_def)
  obtain e1 s1 u1 where t: "telemetry_attempt P env ?sample s (u\<lparr>up_slot := slot\<rparr>) = (e1, s1, u1)" by (metis prod.exhaust)
  have reach: "ledger_reach (pf_psa P) (up_ledger (u\<lparr>up_slot := slot\<rparr>)) (up_store (u\<lparr>up_slot := slot\<rparr>))"
    using assms(1) by simp
  note tc = telemetry_attempt_cases [OF t reach]
  then have "up_slot u1 = slot" by simp
  moreover obtain slot2 where "pm_telemetry_complete_send (foldl slot_offer slot (xe_offers env)) (sample_sequence ?sample)
      (e1 = ESP_OK) = (ESP_OK, slot2)" "\<not> in_flight_present slot2"
    using complete_after_begin [OF b assms(3) [OF True]] by blast
  ultimately have r: "e = e1" "s' = s1" "u' = u1\<lparr>up_slot := slot2\<rparr>" "\<not> in_flight_present slot2"
    using send b t by (auto simp: send_current_telemetry_def split: if_splits)
  have "answered P env ?sample body used (u\<lparr>up_slot := slot\<rparr>) u1 \<longleftrightarrow> answered P env ?sample body used u u'" for body used
    unfolding r(3) by (simp add: answered_def)
  moreover have "notify_result_acceptance (pf_json P) body = map (\<lambda>c. cstr (command_id c)) (filter reported_entry (entries (up_ledger u)))"
    if "answered P env ?sample body used u u'" for body used
    using acknowledged_ids [OF assms(2)] that by (auto simp: answered_def)
  ultimately show ?thesis
    using tc r True by (auto simp: intake_unchanged_def split: if_splits)
qed

subsection \<open>The loop never stalls\<close>

definition clock_ok :: "int \<Rightarrow> network_env \<Rightarrow> int \<Rightarrow> bool" where
  "clock_ok T env T' \<longleftrightarrow> sorted [T, ne_now env, ne_wifi_failed_at env, ne_connected_at env, ne_server_at env, ne_next_at env,
     ne_due_at env, ne_done_at env, T'] \<and> T' \<le> INT64_MAX"

text \<open>
  The rounds of the task, with the last reading of the clock; between them other tasks may do anything to
  what they share with it.
\<close>

inductive network_reach :: "'j platform \<Rightarrow> int \<Rightarrow> network_loop \<Rightarrow> bool" for P where
  started: "0 \<le> t0 \<Longrightarrow> t0 \<le> t1 \<Longrightarrow> t1 \<le> INT64_MAX \<Longrightarrow> network_reach P t1 (network_task_init seconds t0 t1 u)"
| round: "network_reach P T s \<Longrightarrow> clock_ok T env T' \<Longrightarrow> network_reach P T' (network_round P env s)"
| others: "network_reach P T s \<Longrightarrow> network_reach P T (s\<lparr>nl_uplink := u\<rparr>)"

definition on_time :: "int \<Rightarrow> pm_network_scheduler \<Rightarrow> bool" where
  "on_time T s \<longleftrightarrow> \<not> request_in_progress s \<and> 0 \<le> next_telemetry_us s \<and> next_telemetry_us s \<le> T + 60000000 \<and>
     next_attempt_us (server_backoff s) \<le> T + 60000000 \<and>
     2000000 \<le> telemetry_period_us s \<and> telemetry_period_us s \<le> 60000000"

definition loop_inv :: "int \<Rightarrow> network_loop \<Rightarrow> bool" where
  "loop_inv T s \<longleftrightarrow> 0 \<le> T \<and> T \<le> INT64_MAX \<and> on_time T (nl_scheduler s) \<and> next_attempt_us (nl_wifi_backoff s) \<le> T + 60000000"

lemma on_time_mono: "on_time T s \<Longrightarrow> T \<le> T' \<Longrightarrow> on_time T' s"
  by (simp add: on_time_def)

lemma backoff_fail_soon:
  assumes "pm_telemetry_backoff_fail b now r = (d, b')"
  shows "875 \<le> uint d" "uint d \<le> 60000" "next_attempt_us b' = now + uint d * 1000"
proof -
  have "875 \<le> unat d \<and> unat d \<le> 60000"
    using telemetry_backoff_bounds [of b now r] assms by (simp add: Let_def)
  moreover have "uint d = int (unat d)" by simp
  ultimately show "875 \<le> uint d" "uint d \<le> 60000" by linarith+
  show "next_attempt_us b' = now + uint d * 1000"
    using assms by (auto simp: pm_telemetry_backoff_fail_def Let_def)
qed

lemma uint_bounded:
  fixes v :: u32
  shows "PM_TELEMETRY_MIN_SECONDS \<le> v \<Longrightarrow> 2 \<le> uint v" "v \<le> PM_TELEMETRY_MAX_SECONDS \<Longrightarrow> uint v \<le> 60"
  by (simp_all add: PM_TELEMETRY_MIN_SECONDS_def PM_TELEMETRY_MAX_SECONDS_def word_le_def)

lemma init_on_time: "0 \<le> t \<Longrightarrow> t \<le> T \<Longrightarrow> on_time T (pm_network_scheduler_init t seconds)"
proof -
  let ?b = "if seconds < PM_TELEMETRY_MIN_SECONDS then PM_TELEMETRY_MIN_SECONDS
    else if seconds > PM_TELEMETRY_MAX_SECONDS then PM_TELEMETRY_MAX_SECONDS else seconds"
  have "PM_TELEMETRY_MIN_SECONDS \<le> ?b" "?b \<le> PM_TELEMETRY_MAX_SECONDS"
    by (auto simp: PM_TELEMETRY_MIN_SECONDS_def PM_TELEMETRY_MAX_SECONDS_def not_less)
  note uint_bounded(1) [OF this(1)] uint_bounded(2) [OF this(2)]
  then show "0 \<le> t \<Longrightarrow> t \<le> T \<Longrightarrow> ?thesis"
    by (simp add: on_time_def pm_network_scheduler_init_def Let_def pm_telemetry_backoff_reset_def)
qed

lemma complete_on_time:
  assumes "0 \<le> next_telemetry_us s" "next_telemetry_us s \<le> now" "now \<le> INT64_MAX"
    and p: "2000000 \<le> telemetry_period_us s" "telemetry_period_us s \<le> 60000000"
  shows "on_time now (pm_network_telemetry_complete s now ok r)" "now < INT64_MAX \<Longrightarrow> now < next_telemetry_us (pm_network_telemetry_complete s now ok r)"
proof -
  let ?d = "pm_telemetry_next_fixed_deadline (next_telemetry_us s) now (telemetry_period_us s)"
  have "0 < telemetry_period_us s" using p by simp
  note telemetry_deadline_on_grid [OF assms(1-3) this]
  then have d: "?d \<le> now + 60000000" "now \<le> ?d" "now < INT64_MAX \<Longrightarrow> now < ?d" using p assms(3) by (auto simp: Let_def)
  obtain dl b where f: "pm_telemetry_backoff_fail (server_backoff s) now r = (dl, b)" by (metis prod.exhaust)
  note b = backoff_fail_soon [OF f]
  show "on_time now (pm_network_telemetry_complete s now ok r)"
    using d b f p assms by (cases ok) (simp_all add: on_time_def pm_network_telemetry_complete_def pm_telemetry_backoff_reset_def)
  show "now < INT64_MAX \<Longrightarrow> now < next_telemetry_us (pm_network_telemetry_complete s now ok r)"
    using d b f by (cases ok) (simp_all add: pm_network_telemetry_complete_def)
qed

lemma request_on_time:
  assumes "on_time T (nl_scheduler s)" "next_telemetry_us (nl_scheduler s) \<le> ne_done_at env" "ne_done_at env \<le> INT64_MAX"
  shows "on_time (ne_done_at env) (nl_scheduler (network_request P env s))"
    "ne_done_at env < INT64_MAX \<Longrightarrow> \<not> pm_network_telemetry_due (nl_scheduler (network_request P env s)) (ne_done_at env)"
    "nl_wifi_backoff (network_request P env s) = nl_wifi_backoff s"
proof -
  let ?seconds = "word_of_int (c_div (telemetry_period_us (nl_scheduler s)) 1000000) :: u32"
  obtain e s2 u where x: "send_current_telemetry P (ne_exchange env) ?seconds (nl_uplink s) = (e, s2, u)" by (metis prod.exhaust)
  define sc where "sc = (if e = ESP_OK \<and> s2 \<ge> PM_TELEMETRY_MIN_SECONDS \<and> s2 \<le> PM_TELEMETRY_MAX_SECONDS
      then (nl_scheduler s)\<lparr>request_in_progress := True, telemetry_period_us := uint s2 * 1000000\<rparr>
      else (nl_scheduler s)\<lparr>request_in_progress := True\<rparr>)"
  have r: "nl_scheduler (network_request P env s) =
      pm_network_telemetry_complete sc (ne_done_at env) (e = ESP_OK \<or> e = ESP_ERR_NOT_FOUND) (ne_random env)"
    "nl_wifi_backoff (network_request P env s) = nl_wifi_backoff s"
    using x by (simp_all add: network_request_def Let_def sc_def)
  have "0 \<le> next_telemetry_us sc" "next_telemetry_us sc \<le> ne_done_at env" "2000000 \<le> telemetry_period_us sc"
    "telemetry_period_us sc \<le> 60000000"
    using assms uint_bounded [of s2] by (auto simp: sc_def on_time_def)
  note c = complete_on_time [OF this(1,2) assms(3) this(3,4)]
  show "on_time (ne_done_at env) (nl_scheduler (network_request P env s))" using c(1) r by simp
  show "ne_done_at env < INT64_MAX \<Longrightarrow> \<not> pm_network_telemetry_due (nl_scheduler (network_request P env s)) (ne_done_at env)"
    using c(2) r by (simp add: pm_network_telemetry_due_def not_le)
  show "nl_wifi_backoff (network_request P env s) = nl_wifi_backoff s" by (rule r(2))
qed

lemma connect_inv:
  assumes "loop_inv T s" "clock_ok T env T'" "network_connect env s = (go, s1)"
  shows "loop_inv (ne_due_at env) s1"
proof -
  obtain d b where f: "pm_telemetry_backoff_fail (nl_wifi_backoff s) (ne_wifi_failed_at env) (ne_wifi_random env) = (d, b)"
    by (metis prod.exhaust)
  note soon = backoff_fail_soon [OF f]
  have c: "T \<le> ne_wifi_failed_at env" "ne_wifi_failed_at env \<le> ne_connected_at env" "ne_connected_at env \<le> ne_server_at env"
    "ne_server_at env \<le> ne_next_at env" "ne_next_at env \<le> ne_due_at env" "ne_due_at env \<le> INT64_MAX"
    using assms(2) by (auto simp: clock_ok_def)
  then have same: "loop_inv (ne_due_at env) s"
    using assms(1) on_time_mono [of T "nl_scheduler s" "ne_due_at env"] by (auto simp: loop_inv_def)
  show ?thesis
    using assms(1,3) same c soon f
    by (auto simp: network_connect_def Let_def loop_inv_def on_time_def pm_telemetry_backoff_reset_def split: if_splits)
qed

lemma round_inv:
  assumes "loop_inv T s" "clock_ok T env T'"
  shows "loop_inv T' (network_round P env s)"
proof -
  obtain go s1 where n: "network_connect env s = (go, s1)" by (metis prod.exhaust)
  note i = connect_inv [OF assms n]
  have c: "ne_due_at env \<le> ne_done_at env" "ne_done_at env \<le> T'" "T' \<le> INT64_MAX"
    using assms(2) by (auto simp: clock_ok_def)
  have later: "loop_inv T' s1" "loop_inv T' (s1\<lparr>nl_connected := False\<rparr>)"
    using i c on_time_mono [of "ne_due_at env" "nl_scheduler s1" T'] by (auto simp: loop_inv_def)
  have "loop_inv T' (network_request P env s1)" if "pm_network_telemetry_due (nl_scheduler s1) (ne_due_at env)"
  proof -
    have "on_time (ne_due_at env) (nl_scheduler s1)" "next_telemetry_us (nl_scheduler s1) \<le> ne_done_at env" "ne_done_at env \<le> INT64_MAX"
      using i c that by (auto simp: loop_inv_def pm_network_telemetry_due_def)
    note r = request_on_time [OF this, of P]
    show ?thesis using r(1) r(3) later(1) on_time_mono [OF r(1) c(2)] by (simp add: loop_inv_def)
  qed
  with later show ?thesis by (auto simp: network_round_def n)
qed

lemma network_reach_inv: "network_reach P T s \<Longrightarrow> loop_inv T s"
proof (induction rule: network_reach.induct)
  case (started t0 t1 seconds u)
  then show ?case
    using init_on_time [of t0 t1 seconds]
    by (simp add: loop_inv_def network_task_init_def pm_telemetry_backoff_reset_def)
next
  case (round T s env T')
  then show ?case by (blast intro: round_inv)
next
  case (others T s u)
  then show ?case by (simp add: loop_inv_def)
qed

text \<open>
  C25. The network task never stalls. Through every sequence of rounds with failing or working Wi-Fi,
  server, clock synchronisation and storage, and whatever the other tasks do in between, no request stays
  marked as in progress, the interval is between 2 and 60 seconds, and 60 seconds after the last reading of the clock
  at the latest both the next connection attempt and the next telemetry request are due.
\<close>

theorem network_never_stalls:
  assumes "network_reach P T s" and "T + 60000000 \<le> t"
  shows "\<not> request_in_progress (nl_scheduler s) \<and> 2000000 \<le> telemetry_period_us (nl_scheduler s) \<and>
    telemetry_period_us (nl_scheduler s) \<le> 60000000 \<and>
    pm_telemetry_backoff_due (nl_wifi_backoff s) t \<and> pm_network_telemetry_due (nl_scheduler s) t"
  using network_reach_inv [OF assms(1)] assms(2)
  by (auto simp: loop_inv_def on_time_def pm_telemetry_backoff_due_def pm_network_telemetry_due_def)

subsection \<open>A concrete exchange\<close>

definition demo_answer :: json where
  "demo_answer = JObject [(''protocol_id'', JString PM_PROTOCOL_ID), (''telemetry_protocol'', JString PM_TELEMETRY_PROTOCOL_ID),
     (''status'', JString ''accepted''), (''server_received_at'', JString ''2027-01-15T08:00:00Z''),
     (''sample'', JObject [(''sensor_id'', JString demo_uuid), (''boot_id'', JString ''b''), (''sample_sequence'', JNumber 1)]),
     (''timestamp_source'', JString ''sensor''), (''commands'', JArray []),
     (''configuration'', JObject [(''version'', JNumber 1), (''telemetry_interval_seconds'', JNumber 30)])]"

text \<open>
  A printer that writes \<open>B\<close> and the ids of the results one after the other, and a parser that cuts them apart again; every
  other text is the answer.
\<close>

definition result_id :: "json \<Rightarrow> string" where
  "result_id r = (case Option.bind (json_field r ''command_id'') json_text of Some cid \<Rightarrow> cid | None \<Rightarrow> [])"

definition print_ids :: "json \<Rightarrow> nat \<Rightarrow> string option" where
  "print_ids doc n = (case json_field doc ''command_results'' of
     Some (JArray rs) \<Rightarrow> (let body = CHR ''B'' # concat (map result_id rs) in if length body < n then Some body else None) | _ \<Rightarrow> None)"

definition chunks :: "string \<Rightarrow> string list" where
  "chunks s = map (\<lambda>k. take 36 (drop (36 * k) s)) [0..<length s div 36]"

definition parse_ids :: "string \<Rightarrow> json" where
  "parse_ids s = (if take 1 s = ''B''
     then JObject [(''command_results'', JArray (map (\<lambda>cid. JObject [(''command_id'', JString cid)]) (chunks (drop 1 s))))]
     else demo_answer)"

definition demo_platform :: "json platform" where
  "demo_platform = \<lparr>pf_psa = demo_psa, pf_b64enc = demo_enc, pf_b64dec = demo_dec,
     pf_json = json_reader (\<lambda>s. Some (parse_ids s)) (\<lambda>_. None), pf_print = print_ids\<rparr>"

lemma chunks_concat: "\<forall>x \<in> set xs. length x = 36 \<Longrightarrow> chunks (concat xs) = xs"
proof (induction xs)
  case (Cons x xs)
  then have x: "length x = 36" and "chunks (concat xs) = xs" by simp_all
  moreover have "chunks (x @ s) = x # chunks s" for s
  proof -
    have n: "length (x @ s) div 36 = Suc (length s div 36)" using x by simp
    have d: "drop (36 * Suc k) (x @ s) = drop (36 * k) s" for k using x by simp
    show ?thesis unfolding chunks_def n map_upt_Suc d using x by simp
  qed
  ultimately show ?case by simp
qed (simp add: chunks_def)

definition demo_net_peer :: net_peer where
  "demo_net_peer = \<lparr>np_time = 1800000000, np_nonce = replicate 16 5, np_client = True, np_open = ESP_OK, np_written = 1,
     np_events = events release_peer, np_content_length = 3, np_status = 200, np_reads = [Received [1, 2, 3]], np_complete = True\<rparr>"

definition demo_context :: pm_network_context where
  "demo_context = \<lparr>net_config = demo_config, device_id_text = store_str 37 demo_uuid,
     device_to_server_key = replicate 32 1, server_to_device_key = replicate 32 0, boot_id = store_str 37 ''b'',
     response_nonce_cache = empty_cache, health_flags = 0, last_request_error = PM_TLS_ERROR_NONE\<rparr>"

definition demo_exchange_env :: exchange_env where
  "demo_exchange_env = \<lparr>xe_app = \<lparr>ai_version = ''1.2.0'', ai_elf_sha256 = replicate 32 0, ai_rssi = None, ai_alloc = True, ai_err_name = (\<lambda>_. ''ESP_FAIL'')\<rparr>,
     xe_lock = True, xe_mutex = Some True, xe_peer = demo_net_peer, xe_commands = (\<lambda>_. (0, True, True)), xe_offers = []\<rparr>"

definition demo_slot :: pm_telemetry_slot where
  "demo_slot = snd (snd (pm_telemetry_offer pm_telemetry_slot_init (empty_sample PM_PZEM_TIMEOUT)))"

definition demo_uplink :: uplink where
  "demo_uplink = \<lparr>up_slot = demo_slot, up_ctx = demo_context,
     up_ledger = seal_ledger zero_ledger, up_store = demo_nvs, up_delivered = [], up_acknowledged = []\<rparr>"

lemma demo_response_checks:
  "let h = auth release_capture; sha = pm_hex_lower (replicate 32 7) in
     lowercase_hex_sha256 sha \<and> cstr (protocol h) = PM_PROTOCOL_ID \<and>
     cstr (hdr_device_id h) = cstr (store_str 37 demo_uuid) \<and> content_sha256 h = sha \<and> timestamp h = ''1800000001'' \<and>
     length (cstr (nonce h)) = 16 \<and> length (cstr (signature h)) = 44 \<and>
     (case pm_build_canonical ''RESPONSE'' PM_TELEMETRY_ENDPOINT None (timestamp h) (nonce h) sha PM_CANONICAL_MAX of
        Inl _ \<Rightarrow> False | Inr c \<Rightarrow> mac_matches demo_psa demo_dec (replicate 32 0) c (signature h))"
  by code_simp

lemma demo_response:
  "\<exists>cache. pm_verify_response demo_psa demo_dec (replicate 32 0) (store_str 37 demo_uuid)
     PM_TELEMETRY_ENDPOINT None 1800000000000 (auth release_capture) [1, 2, 3] empty_cache = (ESP_OK, cache)"
proof -
  have "\<not> nonce_seen empty_cache d" for d by (simp add: nonce_seen_def empty_cache_def)
  moreover have "pm_constant_time_equal xs xs 64" for xs by (simp add: pm_constant_time_equal_iff)
  moreover have "timestamp_fresh ''1800000001'' 1800000000000"
    by (simp add: timestamp_fresh_def cstr_def strtoll_def is_space_def is_digit_def digits_value_def digit_value_def
        INT64_MAX_def c_div_def)
  moreover have "pm_sha256 demo_psa [1, 2, 3] = replicate 32 7" by (simp add: pm_sha256_def demo_psa_def PM_SHA256_SIZE_def)
  ultimately show ?thesis
    using demo_response_checks [unfolded Let_def]
    unfolding pm_verify_response_def pm_verify_response_digest_def Let_def
    by (auto simp: PM_RESPONSE_NONCE_MAX_def PM_SIGNATURE_BASE64_SIZE_def split: sum.splits)
qed

lemma demo_signed:
  "\<exists>h. pm_sign_request demo_psa demo_enc (replicate 32 1) (store_str 37 demo_uuid) ''POST'' PM_TELEMETRY_ENDPOINT
     None 1800000000000 (replicate 16 5) (chars_bytes body) = Inr h"
proof -
  have q: "pm_canonical_query None PM_CANONICAL_QUERY_MAX = Inr []"
    by (simp add: pm_canonical_query_def PM_CANONICAL_QUERY_MAX_def)
  have len: "length (cstr (take 23 (show_int (c_div 1800000000000 1000)))) \<le> 23"
    by (metis cstr_def length_take length_takeWhile_le min.bounded_iff min.cobounded2 order_trans)
  have path: "cstr PM_TELEMETRY_ENDPOINT = ''/api/v1/device/telemetry/v2''" "cstr ''POST'' = ''POST''"
    by code_simp+
  have "length (pm_hex_lower (replicate 16 5)) = 32" by simp
  then have "\<exists>c. pm_build_canonical ''POST'' PM_TELEMETRY_ENDPOINT None (take 23 (show_int (c_div 1800000000000 1000)))
      (pm_hex_lower (replicate 16 5)) (pm_hex_lower (pm_sha256 demo_psa (chars_bytes body))) PM_CANONICAL_MAX = Inr c"
    unfolding build_canonical_fields [OF q] path
    using len by (simp add: canonical_fields_def PM_HMAC_SCHEME_def PM_CANONICAL_MAX_def path)
  then show ?thesis
    by (auto simp: pm_sign_request_def Let_def pm_hmac_sha256_def demo_psa_def demo_enc_def
        PM_SHA256_SIZE_def PM_SIGNATURE_BASE64_SIZE_def)
qed

definition peer_reading :: "nat \<Rightarrow> net_peer" where
  "peer_reading k = demo_net_peer\<lparr>np_written := int k\<rparr>"

lemma demo_exchange: "exchange (peer_reading k) k PM_NETWORK_RESPONSE_MAX 0 = (ESP_OK, 200, [1, 2, 3])"
  "captured_headers (peer_reading k) = release_capture"
proof -
  show c: "captured_headers (peer_reading k) = release_capture"
    using release_captured by (simp add: captured_headers_def net_capture_event_def peer_reading_def demo_net_peer_def)
  have "pm_http_response_capture_validate release_capture False = ESP_OK" by code_simp
  then show "exchange (peer_reading k) k PM_NETWORK_RESPONSE_MAX 0 = (ESP_OK, 200, [1, 2, 3])"
    by (simp add: exchange_def headers_error_def c) (simp add: peer_reading_def demo_net_peer_def PM_NETWORK_RESPONSE_MAX_def read_body.simps)
qed

lemma demo_request_body:
  assumes "cstr body = body" "length body \<le> PM_NETWORK_BODY_MAX"
  shows "\<exists>rq ctx. signed_request demo_psa demo_enc demo_dec (Some True) (peer_reading (length body)) PM_TELEMETRY_ENDPOINT body
     PM_NETWORK_RESPONSE_MAX 0 demo_context = (ESP_OK, 200, [1, 2, 3], rq, ctx)"
proof -
  obtain h where h: "pm_sign_request demo_psa demo_enc (replicate 32 1) (store_str 37 demo_uuid) ''POST'' PM_TELEMETRY_ENDPOINT
     None 1800000000000 (replicate 16 5) (chars_bytes body) = Inr h" using demo_signed by blast
  obtain cache where v: "pm_verify_response demo_psa demo_dec (replicate 32 0) (store_str 37 demo_uuid)
     PM_TELEMETRY_ENDPOINT None 1800000000000 (auth release_capture) [1, 2, 3] empty_cache = (ESP_OK, cache)" using demo_response by blast
  have s: "pm_network_capture_auth_snapshot (Some True) demo_context = (ESP_OK, \<lparr>as_server_origin = store_str 193 ''https://pm.example'',
      as_ca_pem = store_str 4097 ''PEM'', as_device_id_text = store_str 37 demo_uuid, as_device_to_server_key = replicate 32 1,
      as_server_to_device_key = replicate 32 0, as_config_generation = 7\<rparr>)"
    by (simp add: pm_network_capture_auth_snapshot_def ensure_credential_mutex_def demo_context_def demo_config_def
        cstr_store_str demo_uuid_def) (simp add: cstr_def)
  have n: "np_time (peer_reading k) = 1800000000" "np_nonce (peer_reading k) = replicate 16 5" "np_client (peer_reading k)"
    "length (cstr (store_str 193 ''https://pm.example'') @ cstr PM_TELEMETRY_ENDPOINT) = 45" "response_nonce_cache demo_context = empty_cache" for k
    by (simp_all add: peer_reading_def demo_net_peer_def demo_context_def cstr_store_str PM_TELEMETRY_ENDPOINT_def) (simp_all add: cstr_def)
  show ?thesis
    using demo_exchange [of "length body"] h v s n assms
    by (simp add: signed_request_def Let_def PM_CONFIG_ORIGIN_MAX_def)
qed

lemma demo_request:
  "\<exists>rq ctx. signed_request demo_psa demo_enc demo_dec (Some True) demo_net_peer PM_TELEMETRY_ENDPOINT ''B'' PM_NETWORK_RESPONSE_MAX 0 demo_context
     = (ESP_OK, 200, [1, 2, 3], rq, ctx)"
proof -
  have "peer_reading 1 = demo_net_peer" by (simp add: peer_reading_def demo_net_peer_def)
  moreover have "cstr ''B'' = ''B''" by (simp add: cstr_def)
  ultimately show ?thesis using demo_request_body [of "''B''"] by (simp add: PM_NETWORK_BODY_MAX_def)
qed

lemma printed_ids:
  assumes "print_ids (telemetry_document app ctx sample (map (command_result app) cs)) n = Some body" "list_all reported_entry cs"
  shows "body = CHR ''B'' # concat (map (\<lambda>c. cstr (command_id c)) cs)" "cstr body = body"
proof -
  have "result_id (command_result app c) = cstr (command_id c)" for c by (simp add: result_id_def command_result_def)
  moreover have "json_field (telemetry_document app ctx sample rs) ''command_results'' = Some (JArray rs)" for rs
    by (simp add: telemetry_document_def Let_def)
  ultimately show b: "body = CHR ''B'' # concat (map (\<lambda>c. cstr (command_id c)) cs)"
    using assms(1) by (simp add: print_ids_def Let_def comp_def split: if_splits)
  have "CHR 0x00 \<notin> set (cstr x)" for x by (auto simp: cstr_def dest: set_takeWhileD)
  then have "\<forall>c \<in> set body. c \<noteq> CHR 0x00" unfolding b by auto
  then show "cstr body = body" by (simp add: cstr_def takeWhile_eq_all_conv)
qed

lemma demo_faithful: "cjson_faithful demo_platform"
  unfolding cjson_faithful_def
proof (intro allI impI)
  fix app ctx sample cs n body
  assume r: "list_all reported_entry cs"
    and "pf_print demo_platform (telemetry_document app ctx sample (map (command_result app) cs)) n = Some body"
  then have b: "body = CHR ''B'' # concat (map (\<lambda>c. cstr (command_id c)) cs)" "cstr body = body"
    using printed_ids [OF _ r] by (simp_all add: demo_platform_def)
  let ?ids = "map (\<lambda>c. cstr (command_id c)) cs"
  have "chunks (concat ?ids) = ?ids" using r by (intro chunks_concat) (auto simp: list_all_iff reported_entry_def PM_COMMAND_ID_MAX_def)
  then have "parse_ids body = JObject [(''command_results'', JArray (map (\<lambda>cid. JObject [(''command_id'', JString cid)]) ?ids))]"
    by (simp add: b(1) parse_ids_def)
  moreover have "List.map_filter (\<lambda>item. json_string (pf_json demo_platform) (json_item (pf_json demo_platform) (Some item) ''command_id''))
      (map (\<lambda>cid. JObject [(''command_id'', JString cid)]) xs) = map cstr xs" for xs
    by (induction xs) (simp_all add: demo_platform_def json_reader_def json_string_def json_item_def)
  moreover have "map cstr ?ids = ?ids" by simp
  moreover have "json_elements (pf_json demo_platform) (json_item (pf_json demo_platform)
          (cJSON_Parse (reader (pf_json demo_platform)) body) ''command_results'') = xs"
    if "parse_ids body = JObject [(''command_results'', JArray xs)]" for xs
    using that by (simp add: json_elements_def json_item_def demo_platform_def json_reader_def)
  ultimately show "List.map_filter (\<lambda>item. json_string (pf_json demo_platform) (json_item (pf_json demo_platform) (Some item) ''command_id''))
       (json_elements (pf_json demo_platform) (json_item (pf_json demo_platform)
          (cJSON_Parse (reader (pf_json demo_platform)) (cstr body)) ''command_results'')) = ?ids"
    unfolding b(2) by presburger
qed

lemma demo_slot_facts: "pending_present demo_slot" "sample_sequence (pending demo_slot) = 1" "\<not> in_flight_present demo_slot"
  by code_simp+

text \<open>A ledger with one accepted command, whose result is reported.\<close>

lemma first_accepted:
  assumes "\<not> vacant c" "cstr (idempotency_key c) \<noteq> []" "command_type_code (cmd_type c) < 15"
    and "nul_terminated (cmd_payload c)" "now \<le> expires_utc_ms c" and ack: "\<not> result_ack_required c"
  obtains l n where "ledger_reach psa l n" "entries l = seal_command (accepted_candidate psa c now) # replicate 7 zero_command"
proof -
  let ?l = "seal_ledger zero_ledger"
  obtain l n where a: "pm_command_accept True psa True ?l c now demo_nvs = (ESP_OK, Some (0, False), l, n)"
    using first_accept [OF assms(1-5), of psa] by blast
  then have "command_accept_locked psa True ?l c now demo_nvs = (ESP_OK, Some (0, False), l, n)"
    by (simp add: pm_command_accept_def)
  from command_accept_step [OF ledger_reach_inv [OF demo_ledger_reach] ack this]
  have "rewritten psa ?l demo_nvs (?l\<lparr>entries := (entries ?l)[0 := accepted_candidate psa c now], ldg_next := of_nat ((0 + 1) mod 8)\<rparr>) ESP_OK l n"
    by (auto split: if_splits simp del: seal_ledger_simps)
  from rewritten_ok(1) [OF this] have e: "entries l = map seal_command ((entries ?l)[0 := accepted_candidate psa c now])" by simp
  have z: "seal_command zero_command = zero_command" by (simp add: seal_command_def vacant_def zero_command_def cstr_def)
  have "entries ?l = replicate 8 zero_command" using z by (simp add: zero_ledger_def)
  moreover have "map seal_command ((replicate 8 zero_command)[0 := x]) = seal_command x # replicate 7 zero_command" for x
    using z by (simp add: eval_nat_numeral)
  ultimately have "entries l = seal_command (accepted_candidate psa c now) # replicate 7 zero_command" using e by presburger
  then show ?thesis using that accept_reaches [OF demo_ledger_reach ack a] by blast
qed

lemma demo_reported:
  "\<exists>l n d. ledger_reach demo_psa l n \<and> filter reported_entry (entries l) = [d] \<and> cstr (command_id d) = demo_uuid"
proof -
  let ?c = "demo_command\<lparr>command_id := store_str 37 demo_uuid\<rparr>"
  let ?d = "seal_command (accepted_candidate demo_psa ?c 5)"
  have id: "cstr (store_str 37 demo_uuid) = demo_uuid" "length demo_uuid = 36" "demo_uuid \<noteq> []" by code_simp+
  have c: "\<not> vacant ?c" "cstr (idempotency_key ?c) \<noteq> []" "nul_terminated (cmd_payload ?c)"
    using id demo_command_fresh by (auto simp: vacant_def)
  have t: "command_type_code (cmd_type ?c) < 15" "5 \<le> expires_utc_ms ?c" "\<not> result_ack_required ?c"
    by (simp_all add: demo_command_def zero_command_def)
  obtain l n where "ledger_reach demo_psa l n" "entries l = ?d # replicate 7 zero_command"
    by (rule first_accepted [OF c(1,2) t(1) c(3) t(2,3)])
  moreover have "\<not> reported_entry zero_command" by (simp add: reported_entry_def zero_command_def PM_COMMAND_ID_MAX_def cstr_def)
  moreover have "cstr (command_id ?d) = demo_uuid" "cmd_state ?d = PM_COMMAND_ACCEPTED"
    using id t(2) by (simp_all add: accepted_candidate_def Let_def seal_command_def)
  then have "reported_entry ?d" using id by (simp add: reported_entry_def command_result_state_def PM_COMMAND_ID_MAX_def)
  ultimately show ?thesis using \<open>cstr (command_id ?d) = demo_uuid\<close> by (intro exI [of _ l] exI [of _ n] exI [of _ ?d]) simp
qed

lemma demo_body:
  assumes "filter reported_entry (entries l) = [d]" "cstr (command_id d) = demo_uuid" "38 \<le> n"
  shows "pm_network_serialize_telemetry print_ids (xe_app demo_exchange_env) demo_context l (pending demo_slot) n = Inr (CHR ''B'' # demo_uuid)"
proof -
  have "append_command_results (xe_app demo_exchange_env) l = Inr [command_result (xe_app demo_exchange_env) d]"
    using assms(1) by (simp add: append_command_results_def demo_exchange_env_def)
  moreover have "cstr (boot_id demo_context) \<noteq> []" "ai_alloc (xe_app demo_exchange_env)"
    by (simp_all add: demo_context_def demo_exchange_env_def cstr_store_str) (simp add: cstr_def)
  moreover have "length demo_uuid = 36" by code_simp
  then have "print_ids (telemetry_document app ctx sample [command_result app d]) n = Some (CHR ''B'' # demo_uuid)" for app ctx sample
    using assms(2,3) by (simp add: print_ids_def telemetry_document_def Let_def result_id_def command_result_def)
  ultimately show ?thesis using assms(3) demo_slot_facts(2) by (simp add: pm_network_serialize_telemetry_def)
qed

lemma demo_validate:
  assumes "cstr (device_id_text ctx) = demo_uuid" "cstr (boot_id ctx) = ''b''"
  shows "validate_telemetry_response (pf_json demo_platform) ctx (pending demo_slot) (bytes_chars [1, 2, 3]) 5 = (ESP_OK, 30)"
proof -
  let ?J = "pf_json demo_platform" and ?doc = "cJSON_Parse (reader (pf_json demo_platform)) (cstr (bytes_chars [1, 2, 3]))"
  have doc: "?doc = Some demo_answer"
    by code_simp
  have "json_is (cJSON_IsObject (reader ?J)) (json_item ?J (Some demo_answer) ''configuration'')"
    "json_number ?J (json_item ?J (json_item ?J (Some demo_answer) ''configuration'') ''version'') = Some 1"
    "json_number ?J (json_item ?J (json_item ?J (Some demo_answer) ''configuration'') ''telemetry_interval_seconds'') = Some 30"
    by code_simp+
  moreover have "whole_u32 1 = Some 1" "whole_u32 30 = Some 30"
    by (simp_all add: whole_u32_def Let_def)
  ultimately have "response_period ?J (Some demo_answer) = Some 30"
    by (simp add: response_period_def Let_def PM_TELEMETRY_MIN_SECONDS_def PM_TELEMETRY_MAX_SECONDS_def telemetry_period_is_supported_def)
  moreover have one: "double_of_u64 1 = 1" by (simp add: double_of_u64_def Let_def upt_rec)
  have "response_identifies ?J ctx (pending demo_slot) (Some demo_answer)"
    unfolding response_identifies_def assms demo_slot_facts(2) one by code_simp
  ultimately show ?thesis by (simp add: validate_telemetry_response_def doc)
qed

definition reporting_env :: exchange_env where
  "reporting_env = demo_exchange_env\<lparr>xe_peer := peer_reading 37\<rparr>"

lemma demo_send:
  assumes "filter reported_entry (entries l) = [d]" "cstr (command_id d) = demo_uuid"
  shows "\<exists>u'. send_current_telemetry demo_platform reporting_env 5 (demo_uplink\<lparr>up_ledger := l, up_store := n\<rparr>) = (ESP_OK, 30, u')"
proof -
  let ?body = "CHR ''B'' # demo_uuid" and ?u = "demo_uplink\<lparr>up_ledger := l, up_store := n\<rparr>"
  have "cstr ?body = ?body" "length ?body = 37" by code_simp+
  then obtain rq ctx where r: "signed_request demo_psa demo_enc demo_dec (Some True) (peer_reading 37) PM_TELEMETRY_ENDPOINT ?body
      PM_NETWORK_RESPONSE_MAX 0 demo_context = (ESP_OK, 200, [1, 2, 3], rq, ctx)"
    using demo_request_body [of ?body] by (auto simp: PM_NETWORK_BODY_MAX_def)
  then have "same_credentials demo_context ctx" using signed_request_cases by fastforce
  moreover have "cstr (store_str 37 demo_uuid) = demo_uuid" "cstr (store_str 37 ''b'') = ''b''" by code_simp+
  ultimately have v: "validate_telemetry_response (pf_json demo_platform) ctx (pending demo_slot) (bytes_chars [1, 2, 3]) 5 = (ESP_OK, 30)"
    by (intro demo_validate) (simp_all add: same_credentials_def demo_context_def)
  have d: "up_slot ?u = demo_slot" "up_ctx ?u = demo_context" "up_ledger ?u = l" "xe_app reporting_env = xe_app demo_exchange_env"
    "xe_lock reporting_env" "xe_mutex reporting_env = Some True" "xe_peer reporting_env = peer_reading 37"
    "pf_psa demo_platform = demo_psa" "pf_b64enc demo_platform = demo_enc" "pf_b64dec demo_platform = demo_dec" "pf_print demo_platform = print_ids"
    by (simp_all add: demo_uplink_def demo_exchange_env_def demo_platform_def reporting_env_def)
  obtain slot where b: "pm_telemetry_begin_send demo_slot = (Some (pending demo_slot), slot)"
    using demo_slot_facts by (simp add: pm_telemetry_begin_send_def)
  have "\<exists>u1. telemetry_attempt demo_platform reporting_env (pending demo_slot) 5 (?u\<lparr>up_slot := slot\<rparr>) = (ESP_OK, 30, u1) \<and> up_slot u1 = slot"
    using demo_body [OF assms, of "PM_NETWORK_BODY_MAX + 1"] r v d by (simp add: telemetry_attempt_def Let_def PM_NETWORK_BODY_MAX_def)
  moreover obtain slot2 where "pm_telemetry_complete_send (foldl slot_offer slot (xe_offers reporting_env)) 1 True = (ESP_OK, slot2)"
    using complete_after_begin [OF b, of "xe_offers reporting_env" True] demo_slot_facts(2) by auto
  ultimately show ?thesis
    using b d(1) demo_slot_facts(2) by (auto simp: send_current_telemetry_def)
qed

theorem telemetry_exchange_safe_witness:
  "\<exists>l n u' body used. send_current_telemetry demo_platform reporting_env 5 (demo_uplink\<lparr>up_ledger := l, up_store := n\<rparr>) = (ESP_OK, 30, u') \<and>
     answered demo_platform reporting_env (pending demo_slot) body used (demo_uplink\<lparr>up_ledger := l, up_store := n\<rparr>) u' \<and>
     up_acknowledged u' = [demo_uuid]"
proof -
  obtain l n d where l: "ledger_reach demo_psa l n" "filter reported_entry (entries l) = [d]" "cstr (command_id d) = demo_uuid"
    using demo_reported by blast
  let ?u = "demo_uplink\<lparr>up_ledger := l, up_store := n\<rparr>"
  obtain u' where u: "send_current_telemetry demo_platform reporting_env 5 ?u = (ESP_OK, 30, u')" using demo_send [OF l(2,3)] by blast
  have e: "up_slot ?u = demo_slot" "ledger_reach (pf_psa demo_platform) (up_ledger ?u) (up_store ?u)" "up_acknowledged ?u = []" "up_ledger ?u = l"
    using l(1) by (simp_all add: demo_uplink_def demo_platform_def)
  have "\<exists>body used. answered demo_platform reporting_env (pending demo_slot) body used ?u u'" "up_acknowledged u' = [demo_uuid]"
    using telemetry_exchange_safe [OF e(2) demo_faithful _ _ u] demo_slot_facts l(2,3) unfolding e by auto
  then show ?thesis using u by blast
qed

theorem network_never_stalls_witness:
  "pm_network_telemetry_due (nl_scheduler (network_task_init 5 0 0 demo_uplink)) 60000000"
proof -
  have "network_reach demo_platform 0 (network_task_init 5 0 0 demo_uplink)"
    by (rule network_reach.started) (simp_all add: INT64_MAX_def)
  from network_never_stalls [OF this, of 60000000] show ?thesis by simp
qed

end
