(* ===== verification/PM_Measurement.thy ===== *)
theory PM_Measurement
  imports PM_Meter
begin

text \<open>
  components/pm_measurement: the accumulator that condenses the meter samples of an interval
  into one durable interval record. \<open>pm_interval_add\<close> and \<open>pm_interval_finalize\<close> are the
  fixed-width code; \<open>interval_summary\<close> is the reference: arithmetic on the unbounded
  integers over the list of accepted samples.
\<close>

subsection \<open>Data\<close>

datatype pm_energy_source =
  PM_ENERGY_NONE | PM_ENERGY_PZEM_DELTA | PM_ENERGY_POWER_DIAGNOSTIC | PM_ENERGY_RAW u16

definition PM_INTERVAL_FLAG_TIME_UNTRUSTED :: u32 where "PM_INTERVAL_FLAG_TIME_UNTRUSTED = 1"
definition PM_INTERVAL_FLAG_MISSING_SAMPLE :: u32 where "PM_INTERVAL_FLAG_MISSING_SAMPLE = 2"
definition PM_INTERVAL_FLAG_PZEM_RESET :: u32 where "PM_INTERVAL_FLAG_PZEM_RESET = 4"
definition PM_INTERVAL_FLAG_PZEM_ROLLOVER :: u32 where "PM_INTERVAL_FLAG_PZEM_ROLLOVER = 8"
definition PM_INTERVAL_FLAG_IMPLAUSIBLE_JUMP :: u32 where "PM_INTERVAL_FLAG_IMPLAUSIBLE_JUMP = 16"
definition PM_INTERVAL_FLAG_CT_WARNING_80 :: u32 where "PM_INTERVAL_FLAG_CT_WARNING_80 = 32"
definition PM_INTERVAL_FLAG_CT_CRITICAL_90 :: u32 where "PM_INTERVAL_FLAG_CT_CRITICAL_90 = 64"
definition PM_INTERVAL_FLAG_SIMULATED :: u32 where "PM_INTERVAL_FLAG_SIMULATED = 128"

record pm_interval_accumulator =
  acc_expected :: u32
  valid_samples :: u32
  sum_voltage_mv :: u64
  sum_current_ma :: u64
  sum_power_mw :: u64
  sum_frequency_mhz :: u64
  sum_pf_milli :: u64
  first_energy_wh :: u64
  last_energy_wh :: u64
  trapezoid_power_mw_ms :: u64
  interval_start_utc_ms :: int
  interval_end_utc_ms :: int
  interval_start_monotonic_us :: int
  last_sample_monotonic_us :: int
  last_power_mw :: int
  acc_flags :: u32
  have_energy :: bool

record pm_durable_interval =
  iv_voltage_mv :: int
  iv_current_ma :: int
  iv_active_power_mw :: int
  iv_frequency_mhz :: int
  iv_power_factor_milli :: int
  pzem_energy_start_wh :: u64
  pzem_energy_end_wh :: u64
  selected_energy_mwh :: u64
  diagnostic_energy_mwh :: u64
  sample_count :: u32
  iv_expected_samples :: u32
  completeness_permille :: u16
  selected_energy_source :: pm_energy_source
  iv_flags :: u32
  start_utc_ms :: int
  end_utc_ms :: int
  start_monotonic_us :: int
  end_monotonic_us :: int

subsection \<open>Operations\<close>

definition pm_interval_init :: "u32 \<Rightarrow> pm_interval_accumulator" where
  "pm_interval_init expected =
     \<lparr>acc_expected = expected, valid_samples = 0, sum_voltage_mv = 0, sum_current_ma = 0,
      sum_power_mw = 0, sum_frequency_mhz = 0, sum_pf_milli = 0, first_energy_wh = 0,
      last_energy_wh = 0, trapezoid_power_mw_ms = 0, interval_start_utc_ms = 0,
      interval_end_utc_ms = 0, interval_start_monotonic_us = 0, last_sample_monotonic_us = 0,
      last_power_mw = 0, acc_flags = 0, have_energy = False\<rparr>"

text \<open>\<open>(uint32_t)x\<close> of a signed field, widened by the addition to \<open>uint64_t\<close>.\<close>

definition widen :: "int \<Rightarrow> u64" where
  "widen x = ucast (word_of_int x :: u32)"

definition open_interval :: "pm_meter_sample \<Rightarrow> pm_interval_accumulator \<Rightarrow> pm_interval_accumulator" where
  "open_interval s a = a\<lparr>first_energy_wh := energy_wh s,
     interval_start_utc_ms := sample_timestamp_utc_ms s,
     interval_start_monotonic_us := sample_monotonic_us s,
     last_sample_monotonic_us := sample_monotonic_us s,
     last_power_mw := active_power_mw s, have_energy := True\<rparr>"

definition integrate_power :: "pm_meter_sample \<Rightarrow> pm_interval_accumulator \<Rightarrow> pm_interval_accumulator" where
  "integrate_power s a =
     (let elapsed_us = sample_monotonic_us s - last_sample_monotonic_us a;
          a1 = (if elapsed_us > 0 \<and> elapsed_us \<le> 60000000
                then let mean = (word_of_int (to_i32 (last_power_mw a + active_power_mw s)) :: u64) div 2
                     in a\<lparr>trapezoid_power_mw_ms :=
                            trapezoid_power_mw_ms a + mean * word_of_int elapsed_us div 1000\<rparr>
                else a)
      in a1\<lparr>last_sample_monotonic_us := sample_monotonic_us s, last_power_mw := active_power_mw s\<rparr>)"

definition sample_flags :: "pm_meter_sample \<Rightarrow> u16 \<Rightarrow> u32" where
  "sample_flags s ct_rating_a =
     (let current_ma = (word_of_int (current_ma s) :: u32); rated_ma = ucast ct_rating_a * 1000
      in (if \<not> time_trusted s then PM_INTERVAL_FLAG_TIME_UNTRUSTED else 0) OR
         (if simulated s then PM_INTERVAL_FLAG_SIMULATED else 0) OR
         (if rated_ma * 9 div 10 \<le> current_ma then PM_INTERVAL_FLAG_CT_CRITICAL_90
          else if rated_ma * 8 div 10 \<le> current_ma then PM_INTERVAL_FLAG_CT_WARNING_80 else 0))"

definition pm_interval_add ::
    "pm_interval_accumulator \<Rightarrow> pm_meter_sample \<Rightarrow> u16 \<Rightarrow> bool \<times> pm_interval_accumulator" where
  "pm_interval_add a s ct_rating_a =
     (if status s \<noteq> PM_PZEM_OK \<or> \<not> pm_meter_sample_valid s ct_rating_a
      then (False, a\<lparr>acc_flags := acc_flags a OR PM_INTERVAL_FLAG_MISSING_SAMPLE\<rparr>)
      else let a1 = (if valid_samples a = 0 then open_interval s a else integrate_power s a)
        in (True, a1\<lparr>last_energy_wh := energy_wh s,
              interval_end_utc_ms := sample_timestamp_utc_ms s,
              sum_voltage_mv := sum_voltage_mv a1 + widen (voltage_mv s),
              sum_current_ma := sum_current_ma a1 + widen (current_ma s),
              sum_power_mw := sum_power_mw a1 + widen (active_power_mw s),
              sum_frequency_mhz := sum_frequency_mhz a1 + widen (frequency_mhz s),
              sum_pf_milli := sum_pf_milli a1 + widen (power_factor_milli s),
              valid_samples := valid_samples a1 + 1,
              acc_flags := acc_flags a1 OR sample_flags s ct_rating_a\<rparr>))"

definition completeness :: "u32 \<Rightarrow> u32 \<Rightarrow> u16" where
  "completeness count expected =
     (let share = (ucast count :: u64) * 1000 div ucast (if expected = 0 then count else expected)
      in if share > 1000 then 1000 else ucast share)"

definition mean_value :: "u64 \<Rightarrow> u32 \<Rightarrow> int" where
  "mean_value tot count = to_i32 (uint (tot div ucast count))"

definition select_energy :: "pm_interval_accumulator \<Rightarrow> u64 \<Rightarrow> pm_durable_interval \<Rightarrow> pm_durable_interval" where
  "select_energy a maximum_plausible_mwh iv =
     (if \<not> (valid_samples a \<ge> 2 \<and> last_sample_monotonic_us a > interval_start_monotonic_us a)
      then iv\<lparr>iv_flags := iv_flags iv OR PM_INTERVAL_FLAG_MISSING_SAMPLE\<rparr>
      else if last_energy_wh a \<ge> first_energy_wh a
      then let delta_mwh = (last_energy_wh a - first_energy_wh a) * 1000
        in if delta_mwh \<le> maximum_plausible_mwh
           then iv\<lparr>selected_energy_mwh := delta_mwh, selected_energy_source := PM_ENERGY_PZEM_DELTA\<rparr>
           else iv\<lparr>iv_flags := iv_flags iv OR PM_INTERVAL_FLAG_IMPLAUSIBLE_JUMP\<rparr>
      else if first_energy_wh a > 0xF0000000 \<and> last_energy_wh a < 0x0FFFFFFF
      then let delta_wh = 0x100000000 - first_energy_wh a + last_energy_wh a;
               iv1 = iv\<lparr>iv_flags := iv_flags iv OR PM_INTERVAL_FLAG_PZEM_ROLLOVER\<rparr>
        in if delta_wh * 1000 \<le> maximum_plausible_mwh
           then iv1\<lparr>selected_energy_mwh := delta_wh * 1000, selected_energy_source := PM_ENERGY_PZEM_DELTA\<rparr>
           else iv1
      else iv\<lparr>iv_flags := iv_flags iv OR PM_INTERVAL_FLAG_PZEM_RESET\<rparr>)"

definition plain_interval :: "pm_interval_accumulator \<Rightarrow> pm_durable_interval" where
  "plain_interval a =
     (let count = valid_samples a in
     \<lparr>iv_voltage_mv = mean_value (sum_voltage_mv a) count,
      iv_current_ma = mean_value (sum_current_ma a) count,
      iv_active_power_mw = mean_value (sum_power_mw a) count,
      iv_frequency_mhz = mean_value (sum_frequency_mhz a) count,
      iv_power_factor_milli = mean_value (sum_pf_milli a) count,
      pzem_energy_start_wh = first_energy_wh a,
      pzem_energy_end_wh = last_energy_wh a,
      selected_energy_mwh = 0,
      diagnostic_energy_mwh = trapezoid_power_mw_ms a div 3600000,
      sample_count = count,
      iv_expected_samples = acc_expected a,
      completeness_permille = completeness count (acc_expected a),
      selected_energy_source = PM_ENERGY_NONE,
      iv_flags = acc_flags a,
      start_utc_ms = interval_start_utc_ms a,
      end_utc_ms = interval_end_utc_ms a,
      start_monotonic_us = interval_start_monotonic_us a,
      end_monotonic_us = last_sample_monotonic_us a\<rparr>)"

definition pm_interval_finalize ::
    "pm_interval_accumulator \<Rightarrow> u64 \<Rightarrow> pm_durable_interval option \<times> pm_interval_accumulator" where
  "pm_interval_finalize a maximum_plausible_mwh =
     (if valid_samples a = 0 then (None, a)
      else (Some (select_energy a maximum_plausible_mwh (plain_interval a)), pm_interval_init (acc_expected a)))"

subsection \<open>The reference summary of a list of samples\<close>

definition accepted :: "u16 \<Rightarrow> pm_meter_sample \<Rightarrow> bool" where
  "accepted ct s \<longleftrightarrow> status s = PM_PZEM_OK \<and> pm_meter_sample_valid s ct"

definition collect_samples :: "u32 \<Rightarrow> u16 \<Rightarrow> pm_meter_sample list \<Rightarrow> pm_interval_accumulator" where
  "collect_samples expected ct xs =
     foldl (\<lambda>a s. snd (pm_interval_add a s ct)) (pm_interval_init expected) xs"

definition sample_total :: "(pm_meter_sample \<Rightarrow> int) \<Rightarrow> pm_meter_sample list \<Rightarrow> int" where
  "sample_total f ys = sum_list (map f ys)"

definition trapezoid_step :: "pm_meter_sample \<Rightarrow> pm_meter_sample \<Rightarrow> int" where
  "trapezoid_step s t =
     (let d = sample_monotonic_us t - sample_monotonic_us s
      in if 0 < d \<and> d \<le> 60000000 then (active_power_mw s + active_power_mw t) div 2 * d div 1000 else 0)"

fun trapezoid :: "pm_meter_sample list \<Rightarrow> int" where
  "trapezoid (s # t # ys) = trapezoid_step s t + trapezoid (t # ys)"
| "trapezoid _ = 0"

text \<open>The 32-bit counter of the meter advanced by so many Wh, a rollover included.\<close>

definition counter_delta :: "u64 \<Rightarrow> u64 \<Rightarrow> int" where
  "counter_delta e0 e1 = (uint e1 - uint e0) mod 2 ^ 32"

definition counter_credible :: "u64 \<Rightarrow> u64 \<Rightarrow> bool" where
  "counter_credible e0 e1 \<longleftrightarrow> e0 \<le> e1 \<or> e0 > 0xF0000000 \<and> e1 < 0x0FFFFFFF"

definition summarised :: "pm_meter_sample list \<Rightarrow> pm_interval_accumulator \<Rightarrow> bool" where
  "summarised ys a \<longleftrightarrow> valid_samples a = of_nat (length ys) \<and>
     sum_voltage_mv a = of_int (sample_total voltage_mv ys) \<and> sum_current_ma a = of_int (sample_total current_ma ys) \<and>
     sum_power_mw a = of_int (sample_total active_power_mw ys) \<and>
     sum_frequency_mhz a = of_int (sample_total frequency_mhz ys) \<and>
     sum_pf_milli a = of_int (sample_total power_factor_milli ys) \<and>
     trapezoid_power_mw_ms a = of_int (trapezoid ys) \<and>
     (ys \<noteq> [] \<longrightarrow> first_energy_wh a = energy_wh (hd ys) \<and> last_energy_wh a = energy_wh (last ys) \<and>
       interval_start_monotonic_us a = sample_monotonic_us (hd ys) \<and>
       last_sample_monotonic_us a = sample_monotonic_us (last ys) \<and>
       last_power_mw a = active_power_mw (last ys))"

lemma widen_nonneg: "0 \<le> x \<Longrightarrow> x < 2 ^ 32 \<Longrightarrow> widen x = of_int x"
  unfolding widen_def ucast_eq by (simp add: uint_word_of_int_eq take_bit_int_eq_self)

lemma trapezoid_snoc: "ys \<noteq> [] \<Longrightarrow> trapezoid (ys @ [y]) = trapezoid ys + trapezoid_step (last ys) y"
  by (induction ys rule: trapezoid.induct) auto

lemma accepted_bounds:
  assumes "accepted ct s"
  shows "0 \<le> voltage_mv s" "voltage_mv s \<le> 300000" "0 \<le> current_ma s" "current_ma s \<le> 72088500"
    "0 \<le> active_power_mw s" "active_power_mw s \<le> 30000000" "0 \<le> frequency_mhz s" "frequency_mhz s \<le> 70000"
    "0 \<le> power_factor_milli s" "power_factor_milli s \<le> 1000"
proof -
  have "uint ct < 2 ^ 16" using unsigned_less [of ct, where 'a = int] by simp
  with assms show "0 \<le> voltage_mv s" "voltage_mv s \<le> 300000" "0 \<le> current_ma s" "current_ma s \<le> 72088500"
    "0 \<le> active_power_mw s" "active_power_mw s \<le> 30000000" "0 \<le> frequency_mhz s" "frequency_mhz s \<le> 70000"
    "0 \<le> power_factor_milli s" "power_factor_milli s \<le> 1000"
    by (auto simp: accepted_def pm_meter_sample_valid_def)
qed

lemma sample_total_bounds:
  "(\<And>s. s \<in> set ys \<Longrightarrow> 0 \<le> f s \<and> f s \<le> b) \<Longrightarrow> 0 \<le> sample_total f ys \<and> sample_total f ys \<le> b * int (length ys)"
proof (induction ys)
  case Nil
  then show ?case by (simp add: sample_total_def)
next
  case (Cons y ys)
  then have "0 \<le> sample_total f ys \<and> sample_total f ys \<le> b * int (length ys)" "0 \<le> f y \<and> f y \<le> b" by simp_all
  then show ?case by (simp add: sample_total_def algebra_simps)
qed

lemma trapezoid_step_bounds:
  assumes "accepted ct s" "accepted ct t"
  shows "0 \<le> trapezoid_step s t \<and> trapezoid_step s t \<le> 1800000000000"
proof -
  let ?m = "(active_power_mw s + active_power_mw t) div 2"
  let ?d = "sample_monotonic_us t - sample_monotonic_us s"
  have m: "0 \<le> ?m" "?m \<le> 30000000" using accepted_bounds(5,6) [OF assms(1)] accepted_bounds(5,6) [OF assms(2)] by auto
  have "0 \<le> ?m * ?d \<and> ?m * ?d \<le> 30000000 * 60000000" if "0 < ?d" "?d \<le> 60000000"
    using m that mult_mono [of ?m 30000000 ?d 60000000] by auto
  then show ?thesis by (auto simp: trapezoid_step_def Let_def)
qed

lemma trapezoid_bounds:
  "(\<And>s. s \<in> set ys \<Longrightarrow> accepted ct s) \<Longrightarrow>
     0 \<le> trapezoid ys \<and> trapezoid ys \<le> 1800000000000 * int (length ys)"
proof (induction ys rule: trapezoid.induct)
  case (1 s t ys)
  with trapezoid_step_bounds [of ct s t] show ?case by auto
qed auto

subsection \<open>The accumulator follows the reference\<close>

lemma u64_div_of_int:
  assumes "0 \<le> a" "a < 2 ^ 64" "0 \<le> b" "b < 2 ^ 64"
  shows "(word_of_int a :: u64) div word_of_int b = word_of_int (a div b)"
proof -
  have "uint (word_of_int a :: u64) = a" "uint (word_of_int b :: u64) = b"
    using assms by (simp_all add: uint_word_of_int_eq take_bit_int_eq_self)
  then show ?thesis by (simp only: word_div_def)
qed

lemma integrate_power_step:
  assumes s: "accepted ct s" and t: "accepted ct t"
    and a: "last_sample_monotonic_us a = sample_monotonic_us s" "last_power_mw a = active_power_mw s"
  shows "integrate_power t a = a\<lparr>trapezoid_power_mw_ms := trapezoid_power_mw_ms a + of_int (trapezoid_step s t),
     last_sample_monotonic_us := sample_monotonic_us t, last_power_mw := active_power_mw t\<rparr>"
proof -
  let ?p = "active_power_mw s + active_power_mw t"
  let ?d = "sample_monotonic_us t - sample_monotonic_us s"
  have p: "0 \<le> ?p" "?p \<le> 60000000" using accepted_bounds(5,6) [OF s] accepted_bounds(5,6) [OF t] by auto
  then have i: "to_i32 ?p = ?p" by (intro to_i32_id_nonneg) auto
  have "(word_of_int ?p :: u64) div 2 * word_of_int ?d div 1000 = of_int (?p div 2 * ?d div 1000)"
    if d: "0 < ?d" "?d \<le> 60000000"
  proof -
    have m: "0 \<le> ?p div 2" "?p div 2 \<le> 30000000" using p by auto
    then have b: "0 \<le> ?p div 2 * ?d" "?p div 2 * ?d \<le> 30000000 * 60000000"
      using d mult_mono [of "?p div 2" 30000000 ?d 60000000] by auto
    have "(word_of_int ?p :: u64) div 2 = word_of_int (?p div 2)"
      using p u64_div_of_int [of ?p 2] by simp
    then have "(word_of_int ?p :: u64) div 2 * word_of_int ?d = word_of_int (?p div 2 * ?d)" by simp
    then show ?thesis using b u64_div_of_int [of "?p div 2 * ?d" 1000] by simp
  qed
  then show ?thesis using a i by (auto simp: integrate_power_def trapezoid_step_def Let_def)
qed

lemma add_rejected:
  "\<not> accepted ct s \<Longrightarrow> summarised ys a \<Longrightarrow> summarised ys (snd (pm_interval_add a s ct))"
  by (auto simp: pm_interval_add_def accepted_def summarised_def)

lemma add_accepted:
  assumes t: "accepted ct t" and ys: "\<And>s. s \<in> set ys \<Longrightarrow> accepted ct s" and len: "length ys < 2 ^ 32"
    and a: "summarised ys a"
  shows "summarised (ys @ [t]) (snd (pm_interval_add a t ct))"
proof -
  have w: "widen (voltage_mv t) = of_int (voltage_mv t)" "widen (current_ma t) = of_int (current_ma t)"
    "widen (active_power_mw t) = of_int (active_power_mw t)" "widen (frequency_mhz t) = of_int (frequency_mhz t)"
    "widen (power_factor_milli t) = of_int (power_factor_milli t)"
    using accepted_bounds [OF t] by (auto intro!: widen_nonneg)
  have v: "status t = PM_PZEM_OK" "pm_meter_sample_valid t ct" using t by (auto simp: accepted_def)
  have z: "(of_nat (length ys) :: u32) = 0 \<longleftrightarrow> ys = []"
    using len by (auto simp: word_of_nat_eq_0_iff dest: nat_dvd_not_less [rotated])
  show ?thesis
  proof (cases "ys = []")
    case True
    with a v w show ?thesis
      by (simp add: summarised_def pm_interval_add_def open_interval_def sample_total_def)
  next
    case False
    then have "accepted ct (last ys)" using ys by simp
    moreover have "last_sample_monotonic_us a = sample_monotonic_us (last ys)"
      "last_power_mw a = active_power_mw (last ys)"
      using a False by (simp_all add: summarised_def)
    ultimately have "integrate_power t a = a\<lparr>trapezoid_power_mw_ms := trapezoid_power_mw_ms a + of_int (trapezoid_step (last ys) t),
      last_sample_monotonic_us := sample_monotonic_us t, last_power_mw := active_power_mw t\<rparr>"
      using t by (intro integrate_power_step)
    with a v w z False show ?thesis
      by (simp add: summarised_def pm_interval_add_def sample_total_def trapezoid_snoc)
  qed
qed

lemma collect_summarised:
  "length xs < 2 ^ 32 \<Longrightarrow> summarised (filter (accepted ct) xs) (collect_samples e ct xs)"
proof (induction xs rule: rev_induct)
  case Nil
  then show ?case by (simp add: summarised_def collect_samples_def pm_interval_init_def sample_total_def)
next
  case (snoc x xs)
  then have ih: "summarised (filter (accepted ct) xs) (collect_samples e ct xs)" by simp
  have l: "length (filter (accepted ct) xs) < 2 ^ 32"
    using snoc.prems by (intro le_less_trans [OF length_filter_le]) simp
  show ?case
  proof (cases "accepted ct x")
    case True
    then show ?thesis using add_accepted [OF True _ l ih] by (simp add: collect_samples_def)
  next
    case False
    then show ?thesis using add_rejected [OF False ih] by (simp add: collect_samples_def)
  qed
qed

lemma collect_expected [simp]: "acc_expected (collect_samples e ct xs) = e"
proof (induction xs rule: rev_induct)
  case (snoc x xs)
  then show ?case
    by (simp add: collect_samples_def pm_interval_add_def open_interval_def integrate_power_def Let_def)
qed (simp add: collect_samples_def pm_interval_init_def)

lemma mean_value_exact:
  assumes n: "0 < n" "n < 2 ^ 32" and t: "0 \<le> t" "t \<le> b * int n" and b: "0 \<le> b" "b < 2147483648"
  shows "mean_value (of_int t) (of_nat n) = t div int n"
proof -
  have "t \<le> 2147483648 * 2 ^ 32"
    using t(2) mult_mono [of b 2147483648 "int n" "2 ^ 32"] b n by auto
  then have "uint (of_int t :: u64) = t"
    using t(1) by (simp add: uint_word_of_int_eq take_bit_int_eq_self)
  moreover have "uint (ucast (of_nat n :: u32) :: u64) = int n"
    using n by (simp add: unsigned_ucast_eq unsigned_of_nat take_bit_int_eq_self take_bit_nat_eq_self)
  ultimately have "uint ((of_int t :: u64) div ucast (of_nat n :: u32)) = t div int n"
    by (simp add: uint_div_distrib)
  moreover have "t div int n \<le> b" using t(2) n zdiv_mono1 [of t "b * int n" "int n"] by simp
  moreover have "0 \<le> t div int n" using t n by (simp add: pos_imp_zdiv_nonneg_iff)
  ultimately show ?thesis using b by (simp add: mean_value_def to_i32_id_nonneg)
qed

lemma uint_ucast_of_nat: "n < 2 ^ 32 \<Longrightarrow> uint (ucast (of_nat n :: u32) :: u64) = int n"
  by (simp add: unsigned_ucast_eq unsigned_of_nat take_bit_int_eq_self take_bit_nat_eq_self)

lemma uint_u32_widened: "uint (ucast (e :: u32) :: u64) = uint e"
proof -
  have "uint e < 2 ^ 64" using unsigned_less [of e, where 'a = int] by simp
  then show ?thesis by (simp add: unsigned_ucast_eq take_bit_int_eq_self)
qed

lemma completeness_exact:
  assumes n: "0 < n" "n < 2 ^ 32"
  shows "uint (completeness (of_nat n) e) = min 1000 (int n * 1000 div (if e = 0 then int n else uint e))"
proof -
  let ?d = "if e = 0 then of_nat n else e"
  let ?q = "int n * 1000 div (if e = 0 then int n else uint e)"
  have d: "uint (ucast ?d :: u64) = (if e = 0 then int n else uint e)"
    using n uint_u32_widened [of e] by (simp add: uint_ucast_of_nat)
  have "uint ((ucast (of_nat n :: u32) :: u64) * 1000) = int n * 1000"
    using n uint_ucast_of_nat [of n] by (simp add: uint_word_arith_bintrs take_bit_int_eq_self)
  with d have q: "uint ((ucast (of_nat n :: u32) :: u64) * 1000 div ucast ?d) = ?q"
    by (simp add: uint_div_distrib)
  moreover have "0 \<le> ?q" by (simp add: pos_imp_zdiv_nonneg_iff flip: q)
  ultimately show ?thesis
    by (auto simp: completeness_def Let_def word_less_def unsigned_ucast_eq take_bit_int_eq_self min_def)
qed

lemma counter_delta_bounds: "0 \<le> counter_delta x y" "counter_delta x y < 2 ^ 32"
  by (simp_all add: counter_delta_def)

lemma take_bit_64: "0 \<le> i \<Longrightarrow> i < 18446744073709551616 \<Longrightarrow> take_bit 64 i = i" for i :: int
  by (rule take_bit_int_eq_self) simp_all

lemma counter_delta_word:
  assumes x: "uint x < 2 ^ 32" and y: "uint y < 2 ^ 32"
  shows "x \<le> y \<Longrightarrow> uint ((y - x) * 1000) = counter_delta x y * 1000"
    and "y < x \<Longrightarrow> uint ((0x100000000 - x + y) * 1000) = counter_delta x y * 1000"
proof -
  have scale: "uint (z * 1000) = d * 1000" if "uint z = d" "0 \<le> d" "d < 2 ^ 32" for z :: u64 and d
    using that by (simp add: uint_word_arith_bintrs take_bit_int_eq_self)
  {
    assume "x \<le> y"
    then have "uint (y - x) = uint y - uint x" by (simp add: uint_minus_simple_alt word_le_def)
    moreover from this have "uint (y - x) = counter_delta x y"
      using y \<open>x \<le> y\<close> unsigned_greater_eq [of x, where 'a = int]
      by (simp only: counter_delta_def word_le_def) (rule mod_pos_pos_trivial [symmetric]; linarith)
    ultimately show "uint ((y - x) * 1000) = counter_delta x y * 1000"
      using counter_delta_bounds by (intro scale)
  next
    assume less: "y < x"
    have "uint (0x100000000 - x + y) = 2 ^ 32 - uint x + uint y"
    proof -
      have "uint y < uint x" "0 \<le> uint x" "0 \<le> uint y" "uint x < 4294967296"
        using less x by (simp_all add: word_less_def)
      then have "take_bit 64 (4294967296 - uint x) = 4294967296 - uint x"
        "take_bit 64 (4294967296 - uint x + uint y) = 4294967296 - uint x + uint y"
        by - (rule take_bit_64; linarith)+
      then show ?thesis by (simp add: uint_word_arith_bintrs)
    qed
    also have "\<dots> = counter_delta x y"
    proof -
      have "uint y < uint x" "0 \<le> uint y" "uint x < 4294967296" using less x by (simp_all add: word_less_def)
      then have "(4294967296 + (uint y - uint x)) mod 4294967296 = 4294967296 + (uint y - uint x)"
        by (intro mod_pos_pos_trivial) linarith+
      then show ?thesis by (simp add: counter_delta_def)
    qed
    finally show "uint ((0x100000000 - x + y) * 1000) = counter_delta x y * 1000"
      using counter_delta_bounds by (intro scale)
  }
qed

lemma select_energy_exact:
  fixes maxp :: u64
  assumes "uint (first_energy_wh a) < 2 ^ 32" "uint (last_energy_wh a) < 2 ^ 32"
    and "selected_energy_source iv = PM_ENERGY_NONE" "selected_energy_mwh iv = 0"
  defines "d \<equiv> counter_delta (first_energy_wh a) (last_energy_wh a) * 1000"
  defines "measured \<equiv> valid_samples a \<ge> 2 \<and> last_sample_monotonic_us a > interval_start_monotonic_us a \<and>
     counter_credible (first_energy_wh a) (last_energy_wh a) \<and> d \<le> uint maxp"
  shows "selected_energy_source (select_energy a maxp iv) = (if measured then PM_ENERGY_PZEM_DELTA else PM_ENERGY_NONE)"
    and "uint (selected_energy_mwh (select_energy a maxp iv)) = (if measured then d else 0)"
  using assms(3,4) counter_delta_word [OF assms(1,2)]
  by (auto simp: select_energy_def measured_def d_def counter_credible_def word_le_def [of _ maxp] Let_def not_le)

lemma mean_of_summary:
  assumes acc: "\<And>s. s \<in> set ys \<Longrightarrow> accepted ct s" and n: "ys \<noteq> []" "length ys \<le> 10000000"
    and f: "f \<in> {voltage_mv, current_ma, active_power_mw, frequency_mhz, power_factor_milli}"
  shows "mean_value (of_int (sample_total f ys)) (of_nat (length ys)) = sample_total f ys div int (length ys)"
proof -
  have "0 \<le> f s \<and> f s \<le> 72088500" if "s \<in> set ys" for s
    using f accepted_bounds [OF acc [OF that]] by auto
  then have "0 \<le> sample_total f ys \<and> sample_total f ys \<le> 72088500 * int (length ys)"
    by (rule sample_total_bounds)
  then show ?thesis using n by (intro mean_value_exact [where b = 72088500]) auto
qed

lemma diagnostic_of_summary:
  assumes acc: "\<And>s. s \<in> set ys \<Longrightarrow> accepted ct s" and n: "length ys \<le> 10000000"
  shows "uint ((word_of_int (trapezoid ys) :: u64) div 3600000) = trapezoid ys div 3600000"
proof -
  have tz: "0 \<le> trapezoid ys" "trapezoid ys \<le> 1800000000000 * int (length ys)"
    using trapezoid_bounds [of ys ct] acc by simp_all
  then have "(word_of_int (trapezoid ys) :: u64) div 3600000 = word_of_int (trapezoid ys div 3600000)"
    using n u64_div_of_int [of "trapezoid ys" 3600000] by simp
  moreover have "0 \<le> trapezoid ys div 3600000" "trapezoid ys div 3600000 < 2 ^ 64" using tz n by auto
  ultimately show ?thesis by (simp add: uint_word_of_int_eq take_bit_int_eq_self)
qed

lemma select_energy_keeps [simp]:
  "iv_voltage_mv (select_energy a m iv) = iv_voltage_mv iv"
  "iv_current_ma (select_energy a m iv) = iv_current_ma iv"
  "iv_active_power_mw (select_energy a m iv) = iv_active_power_mw iv"
  "iv_frequency_mhz (select_energy a m iv) = iv_frequency_mhz iv"
  "iv_power_factor_milli (select_energy a m iv) = iv_power_factor_milli iv"
  "diagnostic_energy_mwh (select_energy a m iv) = diagnostic_energy_mwh iv"
  "sample_count (select_energy a m iv) = sample_count iv"
  "completeness_permille (select_energy a m iv) = completeness_permille iv"
  by (simp_all add: select_energy_def Let_def)

lemma plain_interval_exact:
  assumes sm: "summarised ys a" and acc: "\<And>s. s \<in> set ys \<Longrightarrow> accepted ct s"
    and n: "ys \<noteq> []" "length ys \<le> 10000000"
  shows "iv_voltage_mv (plain_interval a) = sample_total voltage_mv ys div int (length ys)"
    "iv_current_ma (plain_interval a) = sample_total current_ma ys div int (length ys)"
    "iv_active_power_mw (plain_interval a) = sample_total active_power_mw ys div int (length ys)"
    "iv_frequency_mhz (plain_interval a) = sample_total frequency_mhz ys div int (length ys)"
    "iv_power_factor_milli (plain_interval a) = sample_total power_factor_milli ys div int (length ys)"
    "uint (diagnostic_energy_mwh (plain_interval a)) = trapezoid ys div 3600000"
    "uint (sample_count (plain_interval a)) = int (length ys)"
    "uint (completeness_permille (plain_interval a)) = min 1000 (int (length ys) * 1000 div
       (if acc_expected a = 0 then int (length ys) else uint (acc_expected a)))"
proof -
  note mean = mean_of_summary [OF acc n]
  have [simp]: "valid_samples a = of_nat (length ys)" "sum_voltage_mv a = of_int (sample_total voltage_mv ys)"
    "sum_current_ma a = of_int (sample_total current_ma ys)" "sum_power_mw a = of_int (sample_total active_power_mw ys)"
    "sum_frequency_mhz a = of_int (sample_total frequency_mhz ys)"
    "sum_pf_milli a = of_int (sample_total power_factor_milli ys)"
    "trapezoid_power_mw_ms a = of_int (trapezoid ys)"
    using sm by (simp_all add: summarised_def)
  show "iv_voltage_mv (plain_interval a) = sample_total voltage_mv ys div int (length ys)"
    "iv_current_ma (plain_interval a) = sample_total current_ma ys div int (length ys)"
    "iv_active_power_mw (plain_interval a) = sample_total active_power_mw ys div int (length ys)"
    "iv_frequency_mhz (plain_interval a) = sample_total frequency_mhz ys div int (length ys)"
    "iv_power_factor_milli (plain_interval a) = sample_total power_factor_milli ys div int (length ys)"
    by (simp_all add: plain_interval_def Let_def mean)
  show "uint (diagnostic_energy_mwh (plain_interval a)) = trapezoid ys div 3600000"
    using diagnostic_of_summary [OF acc n(2)] by (simp add: plain_interval_def Let_def)
  show "uint (sample_count (plain_interval a)) = int (length ys)"
    using n by (simp add: plain_interval_def Let_def unsigned_of_nat take_bit_nat_eq_self)
  show "uint (completeness_permille (plain_interval a)) = min 1000 (int (length ys) * 1000 div
       (if acc_expected a = 0 then int (length ys) else uint (acc_expected a)))"
    using n completeness_exact [of "length ys" "acc_expected a"] by (simp add: plain_interval_def Let_def)
qed

lemma of_nat_u32_zero: "n < 2 ^ 32 \<Longrightarrow> (of_nat n :: u32) = 0 \<longleftrightarrow> n = 0"
  by (auto simp: word_of_nat_eq_0_iff dest: nat_dvd_not_less [rotated])

lemma of_nat_u32_ge_2: "n < 2 ^ 32 \<Longrightarrow> 2 \<le> (of_nat n :: u32) \<longleftrightarrow> 2 \<le> n"
  by (simp add: word_le_nat_alt unsigned_of_nat take_bit_nat_eq_self)

text \<open>
  C19. The interval a series of meter readings is condensed into agrees with exact arithmetic on the readings that
  passed the range check: means, count, completeness (at most 1000 permille), diagnostic energy, and as
  measured energy the advance of the meter's 32-bit counter, a rollover included, if two
  readings at different times bound it, it did not run backwards and it is plausible; in every other case no energy is
  claimed. Nothing wraps for up to ten million readings, the accumulator is left empty, and without an accepted reading there is no interval.
\<close>

theorem interval_matches_reference:
  fixes ct :: u16 and e :: u32 and maxp :: u64
  assumes len: "length xs \<le> 10000000" and energies: "\<forall>x \<in> set xs. energy_wh x < 0x100000000"
  defines "ys \<equiv> filter (accepted ct) xs" and "a \<equiv> collect_samples e ct xs"
  shows "if ys = [] then pm_interval_finalize a maxp = (None, a) else
    \<exists>iv. pm_interval_finalize a maxp = (Some iv, pm_interval_init e) \<and>
      iv_voltage_mv iv = sample_total voltage_mv ys div int (length ys) \<and>
      iv_current_ma iv = sample_total current_ma ys div int (length ys) \<and>
      iv_active_power_mw iv = sample_total active_power_mw ys div int (length ys) \<and>
      iv_frequency_mhz iv = sample_total frequency_mhz ys div int (length ys) \<and>
      iv_power_factor_milli iv = sample_total power_factor_milli ys div int (length ys) \<and>
      uint (diagnostic_energy_mwh iv) = trapezoid ys div 3600000 \<and>
      uint (sample_count iv) = int (length ys) \<and>
      uint (completeness_permille iv) =
        min 1000 (int (length ys) * 1000 div (if e = 0 then int (length ys) else uint e)) \<and>
      (let first = hd ys; final = last ys;
           d = counter_delta (energy_wh first) (energy_wh final) * 1000;
           measured = (2 \<le> length ys \<and> sample_monotonic_us first < sample_monotonic_us final \<and>
             counter_credible (energy_wh first) (energy_wh final) \<and> d \<le> uint maxp)
       in selected_energy_source iv = (if measured then PM_ENERGY_PZEM_DELTA else PM_ENERGY_NONE) \<and>
          uint (selected_energy_mwh iv) = (if measured then d else 0))"
proof -
  have sm: "summarised ys a" using collect_summarised [of xs ct e] len by (simp add: a_def ys_def)
  have n: "length ys \<le> 10000000" using len by (auto simp: ys_def intro: le_trans [OF length_filter_le])
  have acc: "\<And>s. s \<in> set ys \<Longrightarrow> accepted ct s" by (auto simp: ys_def)
  have vs: "valid_samples a = of_nat (length ys)" using sm by (simp add: summarised_def)
  have exp: "acc_expected a = e" by (simp add: a_def)
  show ?thesis
  proof (cases "ys = []")
    case True
    then show ?thesis using vs by (simp add: pm_interval_finalize_def)
  next
    case False
    have e: "uint (energy_wh (hd ys)) < 2 ^ 32" "uint (energy_wh (last ys)) < 2 ^ 32"
      using energies [THEN bspec, of "hd ys"] energies [THEN bspec, of "last ys"] hd_in_set [OF False] last_in_set [OF False]
      by (auto simp: ys_def word_less_def)
    have se: "first_energy_wh a = energy_wh (hd ys)" "last_energy_wh a = energy_wh (last ys)"
      "interval_start_monotonic_us a = sample_monotonic_us (hd ys)"
      "last_sample_monotonic_us a = sample_monotonic_us (last ys)"
      using sm False by (simp_all add: summarised_def)
    have p: "selected_energy_source (plain_interval a) = PM_ENERGY_NONE" "selected_energy_mwh (plain_interval a) = 0"
      by (simp_all add: plain_interval_def Let_def)
    have f: "pm_interval_finalize a maxp = (Some (select_energy a maxp (plain_interval a)), pm_interval_init e)"
      using vs False n of_nat_u32_zero [of "length ys"] by (simp add: pm_interval_finalize_def exp)
    have ge: "2 \<le> valid_samples a \<longleftrightarrow> 2 \<le> length ys" using n of_nat_u32_ge_2 [of "length ys"] by (simp add: vs)
    show ?thesis
      using False f plain_interval_exact [OF sm acc False n] select_energy_exact [of a "plain_interval a" maxp] e p
      unfolding se exp ge by (simp add: Let_def)
  qed
qed

definition reading_at :: "u64 \<Rightarrow> int \<Rightarrow> pm_meter_sample" where
  "reading_at energy t = (empty_sample PM_PZEM_OK)\<lparr>voltage_mv := 230000, current_ma := 4000, active_power_mw := 900000,
     frequency_mhz := 50000, power_factor_milli := 980, energy_wh := energy, sample_monotonic_us := t\<rparr>"

lemma reading_at_fields [simp]:
  "voltage_mv (reading_at w t) = 230000" "energy_wh (reading_at w t) = w" "sample_monotonic_us (reading_at w t) = t"
  "accepted 100 (reading_at w t)"
  by (simp_all add: reading_at_def empty_sample_def accepted_def pm_meter_sample_valid_def)

theorem interval_matches_reference_witness:
  "\<exists>iv. pm_interval_finalize (collect_samples 2 100 [reading_at 0xFFFFFFFF 1000000, reading_at 1 2000000]) 5000 =
      (Some iv, pm_interval_init 2) \<and> iv_voltage_mv iv = 230000 \<and> uint (sample_count iv) = 2 \<and>
      selected_energy_source iv = PM_ENERGY_PZEM_DELTA \<and> uint (selected_energy_mwh iv) = 2000"
  using interval_matches_reference [of "[reading_at 0xFFFFFFFF 1000000, reading_at 1 2000000]" 100 2 5000]
  by (auto simp: sample_total_def counter_delta_def counter_credible_def)

end
