(* ===== verification/PM_Journal.thy ===== *)
theory PM_Journal
  imports PM_Measurement
begin

text \<open>
  components/pm_storage/pm_journal.c: the 96-byte segment header and the 128-byte record of
  the journal on the SD card, both sealed by \<open>pm_crc32_ieee\<close>. An encoder is the list of the
  bytes it writes into the output buffer (\<open>None\<close> for its return value 0), a decoder returns
  the object it fills in or \<open>None\<close> for false.
\<close>

subsection \<open>Data\<close>

definition PM_JOURNAL_FORMAT_VERSION :: u16 where "PM_JOURNAL_FORMAT_VERSION = 1"
definition PM_JOURNAL_SEGMENT_MAGIC :: u32 where "PM_JOURNAL_SEGMENT_MAGIC = 0x504D5347"
definition PM_JOURNAL_RECORD_MAGIC :: u32 where "PM_JOURNAL_RECORD_MAGIC = 0x504D5244"
definition PM_JOURNAL_SEGMENT_HEADER_SIZE :: nat where "PM_JOURNAL_SEGMENT_HEADER_SIZE = 96"
definition PM_JOURNAL_RECORD_SIZE :: nat where "PM_JOURNAL_RECORD_SIZE = 128"

record pm_segment_header =
  seg_device_id :: "u8 list"
  seg_card_id :: "u8 list"
  segment_id :: "u8 list"
  first_sequence :: u64
  created_utc_ms :: int
  created_monotonic_us :: int
  seg_time_trusted :: bool

record pm_journal_record =
  rec_device_id :: "u8 list"
  rec_sequence :: u64
  rec_reset_generation :: u32
  interval :: pm_durable_interval

fun energy_source_code :: "pm_energy_source \<Rightarrow> u16" where
  "energy_source_code PM_ENERGY_NONE = 0"
| "energy_source_code PM_ENERGY_PZEM_DELTA = 1"
| "energy_source_code PM_ENERGY_POWER_DIAGNOSTIC = 2"
| "energy_source_code (PM_ENERGY_RAW c) = c"

definition energy_source_of :: "u16 \<Rightarrow> pm_energy_source" where
  "energy_source_of c = (if c = 0 then PM_ENERGY_NONE else if c = 1 then PM_ENERGY_PZEM_DELTA
     else if c = 2 then PM_ENERGY_POWER_DIAGNOSTIC else PM_ENERGY_RAW c)"

subsection \<open>Byte access\<close>

definition put_u16 :: "u16 \<Rightarrow> u8 list" where "put_u16 v = le_bytes 2 v"
definition put_u32 :: "u32 \<Rightarrow> u8 list" where "put_u32 v = le_bytes 4 v"
definition put_u64 :: "u64 \<Rightarrow> u8 list" where "put_u64 v = le_bytes 8 v"
definition get_u16 :: "nat \<Rightarrow> u8 list \<Rightarrow> u16" where "get_u16 i data = get_le 2 (drop i data)"
definition get_u32 :: "nat \<Rightarrow> u8 list \<Rightarrow> u32" where "get_u32 i data = get_le 4 (drop i data)"
definition get_u64 :: "nat \<Rightarrow> u8 list \<Rightarrow> u64" where "get_u64 i data = get_le 8 (drop i data)"

text \<open>The bytes before the checksum, then the checksum over them.\<close>

definition sealed :: "u8 list \<Rightarrow> u8 list" where
  "sealed body = body @ put_u32 (pm_crc32_ieee body)"

subsection \<open>Segment headers\<close>

definition header_body :: "pm_segment_header \<Rightarrow> u8 list" where
  "header_body h = put_u32 PM_JOURNAL_SEGMENT_MAGIC @ put_u16 PM_JOURNAL_FORMAT_VERSION @
     put_u16 (of_nat PM_JOURNAL_SEGMENT_HEADER_SIZE) @ seg_device_id h @ seg_card_id h @ segment_id h @
     put_u64 (first_sequence h) @ put_u64 (word_of_int (created_utc_ms h)) @
     put_u64 (word_of_int (created_monotonic_us h)) @ bool_byte (seg_time_trusted h) @ pad 11"

definition pm_journal_encode_segment_header :: "pm_segment_header \<Rightarrow> nat \<Rightarrow> u8 list option" where
  "pm_journal_encode_segment_header h capacity =
     (if capacity < PM_JOURNAL_SEGMENT_HEADER_SIZE then None else Some (sealed (header_body h)))"

definition pm_journal_decode_segment_header :: "u8 list \<Rightarrow> pm_segment_header option" where
  "pm_journal_decode_segment_header data =
     (if length data \<noteq> PM_JOURNAL_SEGMENT_HEADER_SIZE \<or> get_u32 0 data \<noteq> PM_JOURNAL_SEGMENT_MAGIC \<or>
         get_u16 4 data \<noteq> PM_JOURNAL_FORMAT_VERSION \<or>
         get_u16 6 data \<noteq> of_nat PM_JOURNAL_SEGMENT_HEADER_SIZE \<or>
         get_u32 92 data \<noteq> pm_crc32_ieee (take 92 data)
      then None
      else Some \<lparr>seg_device_id = take 16 (drop 8 data), seg_card_id = take 16 (drop 24 data),
                 segment_id = take 16 (drop 40 data), first_sequence = get_u64 56 data,
                 created_utc_ms = sint (get_u64 64 data), created_monotonic_us = sint (get_u64 72 data),
                 seg_time_trusted = (data ! 80 \<noteq> 0)\<rparr>)"

subsection \<open>Records\<close>

definition stored_energy :: "u64 \<Rightarrow> u32" where
  "stored_energy mwh = (if mwh > 0xFFFFFFFF then 0xFFFFFFFF else ucast mwh)"

definition record_body :: "pm_journal_record \<Rightarrow> u8 list" where
  "record_body r = (let iv = interval r in
     put_u32 PM_JOURNAL_RECORD_MAGIC @ put_u16 PM_JOURNAL_FORMAT_VERSION @
     put_u16 (of_nat PM_JOURNAL_RECORD_SIZE) @ rec_device_id r @ put_u64 (rec_sequence r) @
     put_u32 (rec_reset_generation r) @ put_u32 (iv_flags iv) @
     put_u64 (word_of_int (start_utc_ms iv)) @ put_u64 (word_of_int (end_utc_ms iv)) @
     put_u64 (word_of_int (start_monotonic_us iv)) @ put_u64 (word_of_int (end_monotonic_us iv)) @
     put_u32 (sample_count iv) @ put_u32 (iv_expected_samples iv) @ put_u16 (completeness_permille iv) @
     put_u16 (energy_source_code (selected_energy_source iv)) @
     put_u32 (word_of_int (iv_voltage_mv iv)) @ put_u32 (word_of_int (iv_current_ma iv)) @
     put_u32 (word_of_int (iv_active_power_mw iv)) @ put_u32 (word_of_int (iv_frequency_mhz iv)) @
     put_u32 (word_of_int (iv_power_factor_milli iv)) @ put_u64 (pzem_energy_start_wh iv) @
     put_u64 (pzem_energy_end_wh iv) @ put_u32 (stored_energy (selected_energy_mwh iv)))"

definition pm_journal_encode_record :: "pm_journal_record \<Rightarrow> nat \<Rightarrow> u8 list option" where
  "pm_journal_encode_record r capacity =
     (if capacity < PM_JOURNAL_RECORD_SIZE then None else Some (sealed (record_body r)))"

definition decoded_record :: "u8 list \<Rightarrow> pm_journal_record" where
  "decoded_record data =
     \<lparr>rec_device_id = take 16 (drop 8 data), rec_sequence = get_u64 24 data,
      rec_reset_generation = get_u32 32 data,
      interval =
        \<lparr>iv_voltage_mv = sint (get_u32 84 data), iv_current_ma = sint (get_u32 88 data),
         iv_active_power_mw = sint (get_u32 92 data), iv_frequency_mhz = sint (get_u32 96 data),
         iv_power_factor_milli = sint (get_u32 100 data), pzem_energy_start_wh = get_u64 104 data,
         pzem_energy_end_wh = get_u64 112 data, selected_energy_mwh = ucast (get_u32 120 data),
         diagnostic_energy_mwh = 0, sample_count = get_u32 72 data,
         iv_expected_samples = get_u32 76 data, completeness_permille = get_u16 80 data,
         selected_energy_source = energy_source_of (get_u16 82 data), iv_flags = get_u32 36 data,
         start_utc_ms = sint (get_u64 40 data), end_utc_ms = sint (get_u64 48 data),
         start_monotonic_us = sint (get_u64 56 data), end_monotonic_us = sint (get_u64 64 data)\<rparr>\<rparr>"

text \<open>
  The caller sees \<open>*record\<close> only when the result is true, hence \<open>None\<close> also for a record that
  fails the final test on its decoded fields.
\<close>

definition pm_journal_decode_record :: "u8 list \<Rightarrow> pm_journal_record option" where
  "pm_journal_decode_record data =
     (if length data \<noteq> PM_JOURNAL_RECORD_SIZE \<or> get_u32 0 data \<noteq> PM_JOURNAL_RECORD_MAGIC \<or>
         get_u16 4 data \<noteq> PM_JOURNAL_FORMAT_VERSION \<or> get_u16 6 data \<noteq> of_nat PM_JOURNAL_RECORD_SIZE \<or>
         get_u32 124 data \<noteq> pm_crc32_ieee (take 124 data)
      then None
      else let r = decoded_record data
        in if rec_sequence r \<noteq> 0 \<and> completeness_permille (interval r) \<le> 1000 then Some r else None)"

subsection \<open>Round trips\<close>

definition in_i32 :: "int \<Rightarrow> bool" where "in_i32 x \<longleftrightarrow> - (2 ^ 31) \<le> x \<and> x < 2 ^ 31"
definition in_i64 :: "int \<Rightarrow> bool" where "in_i64 x \<longleftrightarrow> - (2 ^ 63) \<le> x \<and> x < 2 ^ 63"

text \<open>The C types of the fields and the two conditions the decoder puts on a record.\<close>

definition header_wf :: "pm_segment_header \<Rightarrow> bool" where
  "header_wf h \<longleftrightarrow> length (seg_device_id h) = 16 \<and> length (seg_card_id h) = 16 \<and>
     length (segment_id h) = 16 \<and> in_i64 (created_utc_ms h) \<and> in_i64 (created_monotonic_us h)"

definition record_wf :: "pm_journal_record \<Rightarrow> bool" where
  "record_wf r \<longleftrightarrow> length (rec_device_id r) = 16 \<and> rec_sequence r \<noteq> 0 \<and>
     completeness_permille (interval r) \<le> 1000 \<and>
     (\<forall>f \<in> {start_utc_ms, end_utc_ms, start_monotonic_us, end_monotonic_us}. in_i64 (f (interval r))) \<and>
     (\<forall>f \<in> {iv_voltage_mv, iv_current_ma, iv_active_power_mw, iv_frequency_mhz, iv_power_factor_milli}.
        in_i32 (f (interval r))) \<and>
     (\<forall>c. selected_energy_source (interval r) = PM_ENERGY_RAW c \<longrightarrow> 2 < c)"

text \<open>What the 128 bytes keep of a record: no diagnostic energy, and the energy cut off at 32 bits.\<close>

definition durable_part :: "pm_journal_record \<Rightarrow> pm_journal_record" where
  "durable_part r = r\<lparr>interval := (interval r)\<lparr>diagnostic_energy_mwh := 0,
     selected_energy_mwh := min (selected_energy_mwh (interval r)) 0xFFFFFFFF\<rparr>\<rparr>"

lemma sint_word_of_int:
  "in_i64 x \<Longrightarrow> sint (word_of_int x :: u64) = x" "in_i32 x \<Longrightarrow> sint (word_of_int x :: u32) = x"
  by (simp_all add: in_i64_def in_i32_def sint_sbintrunc' signed_take_bit_int_eq_self_iff)

lemma get_le_field: "LENGTH('a::len) \<le> 8 * n \<Longrightarrow> get_le n (le_bytes n w @ zs) = (w :: 'a word)"
  by (subst get_le_cong [of n _ "le_bytes n w"]) (simp_all add: nth_append get_le_le_bytes)

lemma get_u_fields:
  "drop i data = put_u16 w16 @ zs \<Longrightarrow> get_u16 i data = w16"
  "drop i data = put_u32 w32 @ zs \<Longrightarrow> get_u32 i data = w32"
  "drop i data = put_u64 w64 @ zs \<Longrightarrow> get_u64 i data = w64"
  by (simp_all add: get_u16_def get_u32_def get_u64_def put_u16_def put_u32_def put_u64_def get_le_field)

lemma length_put [simp, bytes_simps]:
  "length (put_u16 w16) = 2" "length (put_u32 w32) = 4" "length (put_u64 w64) = 8"
  by (simp_all add: put_u16_def put_u32_def put_u64_def)

lemma energy_source_roundtrip:
  "(\<forall>c. s = PM_ENERGY_RAW c \<longrightarrow> 2 < c) \<Longrightarrow> energy_source_of (energy_source_code s) = s"
  by (cases s) (auto simp: energy_source_of_def)

lemma stored_energy_min: "ucast (stored_energy w) = min w 0xFFFFFFFF"
proof (cases "w > 0xFFFFFFFF")
  case False
  then have "uint w < 2 ^ 32" by (simp add: word_less_def not_less word_le_def)
  then have "uint (ucast (ucast w :: u32) :: u64) = uint w"
    by (simp add: unsigned_ucast_eq unsigned_take_bit_eq take_bit_int_eq_self)
  then have "ucast (ucast w :: u32) = w" by (simp only: word_uint_eq_iff)
  moreover have "w = 0xFFFFFFFF" if "0xFFFFFFFF \<le> w" using that False by simp
  ultimately show ?thesis using False by (auto simp: stored_energy_def min_def)
qed (auto simp: stored_energy_def min_def)

lemma length_header_body: "header_wf h \<Longrightarrow> length (header_body h) = 92"
  by (simp add: header_body_def header_wf_def)

lemma length_record_body: "record_wf r \<Longrightarrow> length (record_body r) = 124"
  by (simp add: record_body_def record_wf_def Let_def)

lemma decode_encoded_header:
  assumes "header_wf h"
  shows "pm_journal_decode_segment_header (sealed (header_body h)) = Some h"
proof -
  note len = length_header_body [OF assms]
  have wf: "length (seg_device_id h) = 16" "length (seg_card_id h) = 16" "length (segment_id h) = 16"
    "in_i64 (created_utc_ms h)" "in_i64 (created_monotonic_us h)"
    using assms by (simp_all add: header_wf_def)
  have "get_u32 0 (sealed (header_body h)) = PM_JOURNAL_SEGMENT_MAGIC"
    "get_u16 4 (sealed (header_body h)) = PM_JOURNAL_FORMAT_VERSION"
    "get_u16 6 (sealed (header_body h)) = of_nat PM_JOURNAL_SEGMENT_HEADER_SIZE"
    "get_u64 56 (sealed (header_body h)) = first_sequence h"
    "get_u64 64 (sealed (header_body h)) = word_of_int (created_utc_ms h)"
    "get_u64 72 (sealed (header_body h)) = word_of_int (created_monotonic_us h)"
    by (rule get_u_fields; simp add: sealed_def header_body_def wf(1-3); fail)+
  moreover have "get_u32 92 (sealed (header_body h)) = pm_crc32_ieee (header_body h)"
    by (rule get_u_fields(2) [of _ _ _ "[]"]) (simp add: sealed_def len)
  moreover have "take 16 (drop 8 (sealed (header_body h))) = seg_device_id h"
    "take 16 (drop 24 (sealed (header_body h))) = seg_card_id h"
    "take 16 (drop 40 (sealed (header_body h))) = segment_id h"
    "sealed (header_body h) ! 80 \<noteq> 0 \<longleftrightarrow> seg_time_trusted h"
    by (simp_all add: sealed_def header_body_def nth_append wf(1-3) bool_byte_def)
  moreover have "take 92 (sealed (header_body h)) = header_body h" "length (sealed (header_body h)) = 96"
    by (simp_all add: sealed_def len)
  ultimately show ?thesis
    by (simp add: pm_journal_decode_segment_header_def PM_JOURNAL_SEGMENT_HEADER_SIZE_def sint_word_of_int wf)
qed

lemma record_fields:
  assumes "record_wf r"
  defines "data \<equiv> sealed (record_body r)" and "iv \<equiv> interval r"
  shows "get_u32 0 data = PM_JOURNAL_RECORD_MAGIC" "get_u16 4 data = PM_JOURNAL_FORMAT_VERSION"
    "get_u16 6 data = of_nat PM_JOURNAL_RECORD_SIZE" "take 16 (drop 8 data) = rec_device_id r"
    "get_u64 24 data = rec_sequence r" "get_u32 32 data = rec_reset_generation r" "get_u32 36 data = iv_flags iv"
    "get_u64 40 data = word_of_int (start_utc_ms iv)" "get_u64 48 data = word_of_int (end_utc_ms iv)"
    "get_u64 56 data = word_of_int (start_monotonic_us iv)" "get_u64 64 data = word_of_int (end_monotonic_us iv)"
    "get_u32 72 data = sample_count iv" "get_u32 76 data = iv_expected_samples iv"
    "get_u16 80 data = completeness_permille iv" "get_u16 82 data = energy_source_code (selected_energy_source iv)"
    "get_u32 84 data = word_of_int (iv_voltage_mv iv)" "get_u32 88 data = word_of_int (iv_current_ma iv)"
    "get_u32 92 data = word_of_int (iv_active_power_mw iv)" "get_u32 96 data = word_of_int (iv_frequency_mhz iv)"
    "get_u32 100 data = word_of_int (iv_power_factor_milli iv)" "get_u64 104 data = pzem_energy_start_wh iv"
    "get_u64 112 data = pzem_energy_end_wh iv" "get_u32 120 data = stored_energy (selected_energy_mwh iv)"
proof -
  have wf: "length (rec_device_id r) = 16" using assms by (simp add: record_wf_def)
  show "take 16 (drop 8 data) = rec_device_id r" by (simp add: data_def sealed_def record_body_def Let_def wf)
qed (rule get_u_fields; use assms(1) in \<open>simp add: data_def iv_def sealed_def record_body_def record_wf_def Let_def\<close>; fail)+

lemma decode_encoded_record:
  assumes "record_wf r"
  shows "pm_journal_decode_record (sealed (record_body r)) = Some (durable_part r)"
proof -
  note len = length_record_body [OF assms]
  have "get_u32 124 (sealed (record_body r)) = pm_crc32_ieee (record_body r)"
    by (rule get_u_fields(2) [of _ _ _ "[]"]) (simp add: sealed_def len)
  moreover have "take 124 (sealed (record_body r)) = record_body r" "length (sealed (record_body r)) = 128"
    by (simp_all add: sealed_def len)
  moreover have "decoded_record (sealed (record_body r)) = durable_part r"
    using assms
    by (simp add: decoded_record_def durable_part_def record_fields [OF assms] record_wf_def sint_word_of_int
        energy_source_roundtrip stored_energy_min)
  moreover have "rec_sequence (durable_part r) \<noteq> 0 \<and> completeness_permille (interval (durable_part r)) \<le> 1000"
    using assms by (simp add: record_wf_def durable_part_def)
  ultimately show ?thesis
    by (simp add: pm_journal_decode_record_def PM_JOURNAL_RECORD_SIZE_def record_fields [OF assms]
        del: of_nat_numeral)
qed

subsection \<open>Corruption\<close>

lemma get_u32_change:
  assumes "i < 4" "length bs = 4" "y \<noteq> bs ! i"
  shows "get_le 4 (bs[i := y]) \<noteq> (get_le 4 bs :: u32)"
proof
  assume eq: "get_le 4 (bs[i := y]) = (get_le 4 bs :: u32)"
  have "y = bs ! i"
  proof (rule bit_word_eqI)
    fix j assume j: "j < LENGTH(8)"
    have "bit (get_le 4 (bs[i := y]) :: u32) (8 * i + j) = bit (get_le 4 bs :: u32) (8 * i + j)"
      using eq by simp
    then show "bit y j = bit (bs ! i) j" using assms j by (simp add: bit_get_le)
  qed
  with assms(3) show False by simp
qed

lemma sealed_detects:
  assumes n: "length body = n" and i: "i < n + 4" and y: "y \<noteq> sealed body ! i"
  shows "get_u32 n ((sealed body)[i := y]) \<noteq> pm_crc32_ieee (take n ((sealed body)[i := y]))"
proof (cases "i < n")
  case True
  then have "(sealed body)[i := y] = body[i := y] @ put_u32 (pm_crc32_ieee body)" using n by (simp add: sealed_def list_update_append)
  moreover from this have "get_u32 n ((sealed body)[i := y]) = pm_crc32_ieee body"
    using n by (intro get_u_fields(2) [of _ _ _ "[]"]) simp
  moreover have "y \<noteq> body ! i" using y True n by (simp add: sealed_def nth_append)
  ultimately show ?thesis using True n crc32_detects_update [of i body y] by simp
next
  case False
  then obtain k where k: "i = n + k" "k < 4" using i by (metis add_diff_inverse_nat nat_add_left_cancel_less)
  let ?c = "put_u32 (pm_crc32_ieee body)"
  have eq: "(sealed body)[i := y] = body @ ?c[k := y]" using k n by (simp add: sealed_def list_update_append)
  have "y \<noteq> ?c ! k" using y k n by (simp add: sealed_def nth_append)
  then have "get_le 4 (?c[k := y]) \<noteq> (get_le 4 ?c :: u32)" using k by (intro get_u32_change) simp_all
  moreover have "get_le 4 ?c = pm_crc32_ieee body" by (simp add: put_u32_def get_le_le_bytes)
  ultimately show ?thesis using n by (simp add: eq get_u32_def)
qed

text \<open>
  A segment header or record of well-typed fields that the journal encodes decodes to itself, except that the
  diagnostic energy is not stored and the measured energy saturates at 32 bits; both fill
  exactly their fixed size, and a buffer that is too small is refused.
\<close>

theorem journal_roundtrip:
  assumes "header_wf h" "record_wf r"
  shows "(if c < 96 then pm_journal_encode_segment_header h c = None
     else \<exists>b. pm_journal_encode_segment_header h c = Some b \<and> length b = 96 \<and>
       pm_journal_decode_segment_header b = Some h) \<and>
    (if c < 128 then pm_journal_encode_record r c = None
     else \<exists>b. pm_journal_encode_record r c = Some b \<and> length b = 128 \<and>
       pm_journal_decode_record b = Some (durable_part r))"
  using assms decode_encoded_header decode_encoded_record length_header_body length_record_body
  by (simp add: pm_journal_encode_segment_header_def pm_journal_encode_record_def
      PM_JOURNAL_SEGMENT_HEADER_SIZE_def PM_JOURNAL_RECORD_SIZE_def sealed_def)

definition plain_header :: pm_segment_header where
  "plain_header = \<lparr>seg_device_id = replicate 16 1, seg_card_id = replicate 16 2, segment_id = replicate 16 3,
     first_sequence = 7, created_utc_ms = - 1, created_monotonic_us = 5, seg_time_trusted = True\<rparr>"

definition plain_record :: pm_journal_record where
  "plain_record = \<lparr>rec_device_id = replicate 16 1, rec_sequence = 7, rec_reset_generation = 1,
     interval = (plain_interval (pm_interval_init 1))\<lparr>completeness_permille := 1000, iv_voltage_mv := - 3,
       iv_current_ma := 0, iv_active_power_mw := 0, iv_frequency_mhz := 0, iv_power_factor_milli := 0,
       selected_energy_mwh := 0x100000005, diagnostic_energy_mwh := 4\<rparr>\<rparr>"

lemma plain_wf: "header_wf plain_header" "record_wf plain_record"
  by (simp_all add: header_wf_def record_wf_def plain_header_def plain_record_def plain_interval_def
      pm_interval_init_def in_i64_def in_i32_def Let_def)

theorem journal_roundtrip_witness:
  "\<exists>b d. pm_journal_encode_segment_header plain_header 128 = Some b \<and>
     pm_journal_decode_segment_header b = Some plain_header \<and>
     pm_journal_encode_record plain_record 128 = Some d \<and> length d = 128 \<and>
     pm_journal_decode_record d = Some (durable_part plain_record) \<and>
     selected_energy_mwh (interval (durable_part plain_record)) = 0xFFFFFFFF"
  using journal_roundtrip [OF plain_wf, of 128] by (auto simp: durable_part_def plain_record_def min_def)

text \<open>
  A header or record read back from the card with any single byte changed is never taken
  for valid.
\<close>

theorem journal_corruption_rejected:
  assumes "header_wf h" "pm_journal_encode_segment_header h c = Some hb" "i < 96" "y \<noteq> hb ! i"
    and "record_wf r" "pm_journal_encode_record r d = Some rb" "j < 128" "z \<noteq> rb ! j"
  shows "pm_journal_decode_segment_header (hb[i := y]) = None \<and> pm_journal_decode_record (rb[j := z]) = None"
proof -
  have "hb = sealed (header_body h)" "rb = sealed (record_body r)"
    using assms(2,6)
    by (simp_all add: pm_journal_encode_segment_header_def pm_journal_encode_record_def split: if_split_asm)
  with assms show ?thesis
    using sealed_detects [OF length_header_body [OF assms(1)], of i y]
      sealed_detects [OF length_record_body [OF assms(5)], of j z]
    by (simp add: pm_journal_decode_segment_header_def pm_journal_decode_record_def)
qed

theorem journal_corruption_rejected_witness:
  "\<exists>hb rb. pm_journal_encode_segment_header plain_header 96 = Some hb \<and>
     pm_journal_encode_record plain_record 128 = Some rb \<and>
     pm_journal_decode_segment_header (hb[9 := hb ! 9 + 1]) = None \<and>
     pm_journal_decode_record (rb[125 := rb ! 125 + 1]) = None"
proof -
  obtain hb rb where b: "pm_journal_encode_segment_header plain_header 96 = Some hb"
    "pm_journal_encode_record plain_record 128 = Some rb"
    by (simp add: pm_journal_encode_segment_header_def pm_journal_encode_record_def
        PM_JOURNAL_SEGMENT_HEADER_SIZE_def PM_JOURNAL_RECORD_SIZE_def)
  with journal_corruption_rejected [OF plain_wf(1) b(1) _ _ plain_wf(2) b(2), of 9 "hb ! 9 + 1" 125 "rb ! 125 + 1"]
  show ?thesis by simp
qed

end
