(* ===== verification/PM_Storage.thy ===== *)
theory PM_Storage
  imports PM_Journal PM_Rfc3339 "HOL-Library.AList"
begin

text \<open>
  components/pm_storage/pm_storage.c: the journal of interval records on the SD card. The task owns the card; clients send
  it messages.

  The directory \<open>PM_JOURNAL_DIR\<close> is a list of named files in the order in which \<open>readdir\<close> returns them. Every call that changes
  the card, opens a file or reads the directory takes its outcome from the list \<open>sd_results\<close>, an exhausted list means success; a failing \<open>fwrite\<close> may
  have written a part. Reading fails at the positions marked \<open>bad\<close>. \<open>fseek\<close> and \<open>ftell\<close> on an open file are taken to succeed. Free space is what \<open>sd_info\<close> says
  at each query. The board header of this revision does not define the mount point, so the length of the directory's path is a
  parameter, and so is whether \<open>rename\<close> replaces an existing file.
\<close>

subsection \<open>The card\<close>

record sd_file =
  contents :: "u8 list"
  bad :: "nat \<Rightarrow> bool"

datatype sd_result = Sd_Ok | Sd_Error nat | Sd_No_Space nat

record sd_card =
  sd_files :: "(string \<times> sd_file) list"
  sd_results :: "sd_result list"
  sd_info :: "nat \<Rightarrow> esp_err \<times> u64 \<times> u64"
  sd_queries :: nat
  sd_path_length :: nat
  sd_replaces :: bool

definition sd_tick :: "sd_card \<Rightarrow> sd_result \<times> sd_card" where
  "sd_tick c = (case sd_results c of [] \<Rightarrow> (Sd_Ok, c) | r # rs \<Rightarrow> (r, c\<lparr>sd_results := rs\<rparr>))"

definition file_of :: "sd_card \<Rightarrow> string \<Rightarrow> sd_file option" where
  "file_of c name = map_of (sd_files c) name"

definition put_file :: "string \<Rightarrow> sd_file \<Rightarrow> sd_card \<Rightarrow> sd_card" where
  "put_file name f c = c\<lparr>sd_files := AList.update name f (sd_files c)\<rparr>"

definition drop_file :: "string \<Rightarrow> sd_card \<Rightarrow> sd_card" where
  "drop_file name c = c\<lparr>sd_files := AList.delete name (sd_files c)\<rparr>"

definition empty_file :: sd_file where "empty_file = \<lparr>contents = [], bad = (\<lambda>_. False)\<rparr>"

definition append_bytes :: "u8 list \<Rightarrow> sd_file \<Rightarrow> sd_file" where
  "append_bytes bs f = f\<lparr>contents := contents f @ bs\<rparr>"

datatype sd_open = Opened sd_file | Absent | Open_Failed

definition fopen_read :: "string \<Rightarrow> sd_card \<Rightarrow> sd_open \<times> sd_card" where
  "fopen_read name c = (case sd_tick c of (r, c1) \<Rightarrow>
     (if r \<noteq> Sd_Ok then Open_Failed else case file_of c1 name of None \<Rightarrow> Absent | Some f \<Rightarrow> Opened f, c1))"

text \<open>The modes \<open>wb\<close> and \<open>ab+\<close>.\<close>

definition fopen_write :: "string \<Rightarrow> sd_card \<Rightarrow> bool \<times> sd_card" where
  "fopen_write name c = (case sd_tick c of (r, c1) \<Rightarrow>
     if r \<noteq> Sd_Ok then (False, c1) else (True, put_file name empty_file c1))"

definition fopen_append :: "string \<Rightarrow> sd_card \<Rightarrow> bool \<times> sd_card" where
  "fopen_append name c = (case sd_tick c of (r, c1) \<Rightarrow>
     if r \<noteq> Sd_Ok then (False, c1)
     else (True, case file_of c1 name of None \<Rightarrow> put_file name empty_file c1 | Some f \<Rightarrow> c1))"

definition fwrite :: "string \<Rightarrow> u8 list \<Rightarrow> sd_card \<Rightarrow> sd_result \<times> sd_card" where
  "fwrite name bs c = (case sd_tick c of (r, c1) \<Rightarrow>
     let written = (case r of Sd_Ok \<Rightarrow> bs | Sd_Error k \<Rightarrow> take (min k (length bs - 1)) bs | Sd_No_Space k \<Rightarrow> take (min k (length bs - 1)) bs)
     in (r, case file_of c1 name of None \<Rightarrow> c1 | Some f \<Rightarrow> put_file name (append_bytes written f) c1))"

definition sync_file :: "sd_card \<Rightarrow> sd_result \<times> sd_card" where
  "sync_file c = sd_tick c"

definition rename_file :: "string \<Rightarrow> string \<Rightarrow> sd_card \<Rightarrow> bool \<times> sd_card" where
  "rename_file old_name new_name c = (case sd_tick c of (r, c1) \<Rightarrow>
     case file_of c1 old_name of
       None \<Rightarrow> (False, c1)
     | Some f \<Rightarrow>
         if r \<noteq> Sd_Ok \<or> file_of c1 new_name \<noteq> None \<and> \<not> sd_replaces c1 then (False, c1)
         else (True, put_file new_name f (drop_file old_name c1)))"

definition unlink :: "string \<Rightarrow> sd_card \<Rightarrow> bool \<times> sd_card" where
  "unlink name c = (case sd_tick c of (r, c1) \<Rightarrow>
     if r \<noteq> Sd_Ok \<or> file_of c1 name = None then (False, c1) else (True, drop_file name c1))"

definition esp_vfs_fat_info :: "sd_card \<Rightarrow> (esp_err \<times> u64 \<times> u64) \<times> sd_card" where
  "esp_vfs_fat_info c = (sd_info c (sd_queries c), c\<lparr>sd_queries := Suc (sd_queries c)\<rparr>)"

text \<open>\<open>fread\<close> of \<open>n\<close> bytes at \<open>offset\<close>, and whether it sets the error indicator of the file.\<close>

definition read_error :: "sd_file \<Rightarrow> nat \<Rightarrow> nat \<Rightarrow> bool" where
  "read_error f offset n = list_ex (bad f) [offset..<min (offset + n) (length (contents f))]"

definition fread_at :: "sd_file \<Rightarrow> nat \<Rightarrow> nat \<Rightarrow> u8 list option" where
  "fread_at f offset n =
     (if offset + n > length (contents f) \<or> read_error f offset n then None else Some (take n (drop offset (contents f))))"

subsection \<open>Data\<close>

definition PM_STORAGE_BATCH_MAX :: nat where "PM_STORAGE_BATCH_MAX = 16"
definition PM_STORAGE_QUEUE_DEPTH :: nat where "PM_STORAGE_QUEUE_DEPTH = 16"
definition PM_STORAGE_SEGMENT_LIMIT :: nat where "PM_STORAGE_SEGMENT_LIMIT = 1024 * 1024"
definition PM_STORAGE_EMERGENCY_RESERVE :: u64 where "PM_STORAGE_EMERGENCY_RESERVE = 8 * 1024 * 1024"
definition PM_CURRENT :: string where "PM_CURRENT = ''current.tmp''"

datatype pm_storage_status =
    PM_STORAGE_UNINITIALIZED | PM_STORAGE_READY | PM_STORAGE_MISSING | PM_STORAGE_READ_ONLY | PM_STORAGE_FULL
  | PM_STORAGE_CORRUPT | PM_STORAGE_IO_ERROR

record pm_storage_health =
  sh_status :: pm_storage_status
  sh_card_id :: "u8 list"
  oldest_sequence :: u64
  newest_sequence :: u64
  sh_acknowledged :: u64
  unavailable_first :: u64
  unavailable_last :: u64
  bytes_total :: u64
  bytes_free :: u64
  corrupt_records :: u32
  quarantined_segments :: u32
  inventory_scanned_files :: u32
  inventory_complete :: bool
  sh_read_only :: bool

definition zero_health :: pm_storage_health where
  "zero_health = \<lparr>sh_status = PM_STORAGE_UNINITIALIZED, sh_card_id = replicate 16 0, oldest_sequence = 0, newest_sequence = 0,
     sh_acknowledged = 0, unavailable_first = 0, unavailable_last = 0, bytes_total = 0, bytes_free = 0, corrupt_records = 0,
     quarantined_segments = 0, inventory_scanned_files = 0, inventory_complete = False, sh_read_only = False\<rparr>"

text \<open>The records of a batch are its first \<open>count\<close> entries, here a list of that length.\<close>

record pm_storage_batch =
  records :: "pm_journal_record list"
  after_sequence :: u64
  more_available :: bool

datatype pm_format_state = PM_FORMAT_IDLE | PM_FORMAT_PREPARED | PM_FORMAT_COMMITTING | PM_FORMAT_COMPLETE | PM_FORMAT_FAILED

record pm_format_transaction =
  ft_token :: "u8 list"
  acknowledged_records_lost :: u64
  unacknowledged_records_lost :: u64
  expires_monotonic_us :: u64
  ft_state :: pm_format_state

definition zero_format :: pm_format_transaction where
  "zero_format = \<lparr>ft_token = replicate 16 0, acknowledged_records_lost = 0, unacknowledged_records_lost = 0,
     expires_monotonic_us = 0, ft_state = PM_FORMAT_IDLE\<rparr>"

text \<open>The static variables; \<open>st_open\<close> says whether \<open>s_current\<close> is a file, \<open>st_mounted\<close> whether \<open>s_card\<close> is set.\<close>

record storage =
  st_card :: sd_card
  st_mounted :: bool
  st_open :: bool
  st_device_id :: "u8 list"
  st_health :: pm_storage_health
  st_first :: u64
  st_last :: u64
  st_size :: nat
  st_format :: pm_format_transaction

text \<open>What one call draws from the platform: random bytes, the tick count, the clock.\<close>

record storage_env =
  se_random :: "u8 list"
  se_ticks :: nat
  se_now :: int

abbreviation on_card :: "('a \<times> sd_card) \<Rightarrow> storage \<Rightarrow> 'a \<times> storage" where
  "on_card r st \<equiv> (fst r, st\<lparr>st_card := snd r\<rparr>)"

abbreviation set_status :: "pm_storage_status \<Rightarrow> storage \<Rightarrow> storage" where
  "set_status s st \<equiv> st\<lparr>st_health := (st_health st)\<lparr>sh_status := s\<rparr>\<rparr>"

subsection \<open>Capacity, identity, self-test, mounting\<close>

definition all_zero :: "u8 list \<Rightarrow> bool" where
  "all_zero bs \<longleftrightarrow> foldl (\<lambda>combined b. combined OR b) 0 bs = 0"

definition update_capacity :: "storage \<Rightarrow> esp_err \<times> storage" where
  "update_capacity st = (case esp_vfs_fat_info (st_card st) of ((e, total_bytes, free_bytes), c) \<Rightarrow>
     let st1 = st\<lparr>st_card := c\<rparr> in
     if e \<noteq> ESP_OK \<or> total_bytes = 0 \<or> free_bytes > total_bytes then (if e = ESP_OK then ESP_ERR_INVALID_SIZE else e, st1)
     else (ESP_OK, st1\<lparr>st_health := (st_health st)\<lparr>bytes_total := total_bytes, bytes_free := free_bytes\<rparr>\<rparr>))"

definition refresh_capacity :: "storage \<Rightarrow> esp_err \<times> storage" where
  "refresh_capacity st = (case update_capacity st of (e, st1) \<Rightarrow>
     (e, if e = ESP_OK \<and> sh_status (st_health st1) = PM_STORAGE_FULL \<and> bytes_free (st_health st1) \<ge> PM_STORAGE_EMERGENCY_RESERVE
         then set_status PM_STORAGE_READY st1 else st1))"

text \<open>The idiom that creates a file with given bytes: open, write, flush; then rename it.\<close>

definition write_new_file :: "string \<Rightarrow> u8 list \<Rightarrow> sd_card \<Rightarrow> bool \<times> sd_card" where
  "write_new_file name bs c = (case fopen_write name c of (ok, c1) \<Rightarrow>
     if \<not> ok then (False, c1)
     else case fwrite name bs c1 of (r, c2) \<Rightarrow>
       if r \<noteq> Sd_Ok then (False, c2) else case sync_file c2 of (r2, c3) \<Rightarrow> (r2 = Sd_Ok, c3))"

definition set_card_id :: "u8 list \<Rightarrow> storage \<Rightarrow> storage" where
  "set_card_id i st = st\<lparr>st_health := (st_health st)\<lparr>sh_card_id := i\<rparr>\<rparr>"

text \<open>\<open>fread\<close> stores what it could read into the identifier before the comparison.\<close>

definition card_identity :: "storage_env \<Rightarrow> storage \<Rightarrow> esp_err \<times> storage" where
  "card_identity env st = (case fopen_read ''card.id'' (st_card st) of (o1, c1) \<Rightarrow>
     case o1 of
       Opened f \<Rightarrow>
         (case fread_at f 0 16 of
            Some i \<Rightarrow> (if all_zero i then ESP_ERR_INVALID_CRC else ESP_OK, set_card_id i (st\<lparr>st_card := c1\<rparr>))
          | None \<Rightarrow> let k = length (takeWhile (\<lambda>j. \<not> bad f j) [0..<min 16 (length (contents f))])
              in (ESP_ERR_INVALID_CRC, set_card_id (take k (contents f) @ drop k (sh_card_id (st_health st))) (st\<lparr>st_card := c1\<rparr>)))
     | _ \<Rightarrow>
         let st1 = set_card_id (se_random env) (st\<lparr>st_card := c1\<rparr>) in
         case write_new_file ''card.id.new'' (se_random env) c1 of (ok, c2) \<Rightarrow>
           if \<not> ok then (ESP_FAIL, st1\<lparr>st_card := c2\<rparr>)
           else case rename_file ''card.id.new'' ''card.id'' c2 of (ok2, c3) \<Rightarrow>
             (if ok2 then ESP_OK else ESP_FAIL, st1\<lparr>st_card := c3\<rparr>))"

definition self_test_evidence :: "u8 list" where "self_test_evidence = [0x50, 0x4D, 0x53, 0x44, 0x01]"

definition storage_self_test :: "storage \<Rightarrow> esp_err \<times> storage" where
  "storage_self_test st = (case write_new_file ''selftest.new'' self_test_evidence (st_card st) of (ok, c1) \<Rightarrow>
     if \<not> ok then (ESP_FAIL, st\<lparr>st_card := c1\<rparr>)
     else case rename_file ''selftest.new'' ''selftest.ok'' c1 of (ok2, c2) \<Rightarrow>
       if \<not> ok2 then (ESP_FAIL, st\<lparr>st_card := c2\<rparr>)
       else case fopen_read ''selftest.ok'' c2 of (o1, c3) \<Rightarrow>
         let valid = (case o1 of Opened f \<Rightarrow> fread_at f 0 5 = Some self_test_evidence | _ \<Rightarrow> False);
             c4 = snd (unlink ''selftest.ok'' c3)
         in (if valid then ESP_OK else ESP_ERR_INVALID_CRC, st\<lparr>st_card := c4\<rparr>))"

text \<open>\<open>bus\<close> and \<open>mount\<close> are the results of the SPI and FAT drivers; \<open>mkdir\<close> of an existing directory is no error.\<close>

definition mount_card :: "esp_err \<Rightarrow> esp_err \<Rightarrow> storage_env \<Rightarrow> storage \<Rightarrow> esp_err \<times> storage" where
  "mount_card bus mount env st =
     (if bus \<noteq> ESP_OK \<and> bus \<noteq> ESP_ERR_INVALID_STATE then (bus, st)
      else if mount \<noteq> ESP_OK then (mount, st)
      else case sd_tick (st_card st) of (r, c) \<Rightarrow>
        let st1 = st\<lparr>st_mounted := True, st_card := c\<rparr> in
        if r \<noteq> Sd_Ok then (ESP_FAIL, st1)
        else ok_then (ok_then (card_identity env st1) storage_self_test) update_capacity)"

subsection \<open>The current segment\<close>

definition new_segment :: "storage_env \<Rightarrow> pm_journal_record \<Rightarrow> storage \<Rightarrow> pm_segment_header" where
  "new_segment env r st =
     \<lparr>seg_device_id = st_device_id st, seg_card_id = sh_card_id (st_health st), segment_id = se_random env,
      first_sequence = rec_sequence r, created_utc_ms = start_utc_ms (interval r),
      created_monotonic_us = start_monotonic_us (interval r),
      seg_time_trusted = (iv_flags (interval r) AND PM_INTERVAL_FLAG_TIME_UNTRUSTED = 0)\<rparr>"

definition current_length :: "sd_card \<Rightarrow> nat" where
  "current_length c = (case file_of c PM_CURRENT of None \<Rightarrow> 0 | Some f \<Rightarrow> length (contents f))"

text \<open>A failure after \<open>fopen\<close> leaves the file open.\<close>

definition open_current :: "storage_env \<Rightarrow> pm_journal_record \<Rightarrow> storage \<Rightarrow> esp_err \<times> storage" where
  "open_current env r st = (case fopen_append PM_CURRENT (st_card st) of (ok, c) \<Rightarrow>
     if \<not> ok then (ESP_FAIL, st\<lparr>st_card := c\<rparr>)
     else let st1 = st\<lparr>st_card := c, st_open := True, st_size := current_length c\<rparr> in
       if st_size st1 \<noteq> 0 then (ESP_OK, st1)
       else case pm_journal_encode_segment_header (new_segment env r st1) PM_JOURNAL_SEGMENT_HEADER_SIZE of
         None \<Rightarrow> (ESP_FAIL, st1)
       | Some encoded \<Rightarrow>
         (case fwrite PM_CURRENT encoded c of (w, c2) \<Rightarrow>
            if w \<noteq> Sd_Ok then (ESP_FAIL, st1\<lparr>st_card := c2\<rparr>)
            else case sync_file c2 of (s, c3) \<Rightarrow>
              if s \<noteq> Sd_Ok then (ESP_FAIL, st1\<lparr>st_card := c3\<rparr>)
              else (ESP_OK, st1\<lparr>st_card := c3, st_size := length encoded, st_first := rec_sequence r\<rparr>)))"

definition segment_name :: "u64 \<Rightarrow> u64 \<Rightarrow> string" where
  "segment_name first last_seq = ''seg_'' @ zpad 20 (uint first) @ ''_'' @ zpad 20 (uint last_seq) @ ''.bin''"

definition rotate_current :: "storage \<Rightarrow> esp_err \<times> storage" where
  "rotate_current st =
     (if \<not> st_open st then (ESP_OK, st)
      else case sync_file (st_card st) of (s, c) \<Rightarrow>
        let st1 = st\<lparr>st_card := c, st_open := False\<rparr> in
        if s \<noteq> Sd_Ok then (ESP_FAIL, st1)
        else if st_last st = 0 then (ESP_OK, st1)
        else case rename_file PM_CURRENT (segment_name (st_first st) (st_last st)) c of (ok, c2) \<Rightarrow>
          if \<not> ok then (ESP_FAIL, st1\<lparr>st_card := c2\<rparr>)
          else (ESP_OK, st1\<lparr>st_card := c2, st_first := 0, st_last := 0, st_size := 0\<rparr>))"

subsection \<open>Batches\<close>

definition insert_at :: "nat \<Rightarrow> 'a \<Rightarrow> 'a list \<Rightarrow> 'a list" where
  "insert_at i x xs = take i xs @ x # drop i xs"

text \<open>The loop that finds the position, and the shift that drops the last entry of a full batch.\<close>

definition batch_position :: "pm_storage_batch \<Rightarrow> pm_journal_record \<Rightarrow> nat" where
  "batch_position batch r = length (takeWhile (\<lambda>x. rec_sequence x < rec_sequence r) (records batch))"

definition insert_sorted :: "pm_storage_batch \<Rightarrow> pm_journal_record \<Rightarrow> pm_storage_batch" where
  "insert_sorted batch r =
     (let position = batch_position batch r; count = length (records batch) in
      if rec_sequence r \<le> after_sequence batch then batch
      else if position < count \<and> rec_sequence (records batch ! position) = rec_sequence r then batch
      else if count = PM_STORAGE_BATCH_MAX \<and> position = count then batch\<lparr>more_available := True\<rparr>
      else if count < PM_STORAGE_BATCH_MAX then batch\<lparr>records := insert_at position r (records batch)\<rparr>
      else batch\<lparr>records := take PM_STORAGE_BATCH_MAX (insert_at position r (records batch)), more_available := True\<rparr>)"

definition journal_path :: "sd_card \<Rightarrow> string \<Rightarrow> bool" where
  "journal_path c name \<longleftrightarrow> name \<noteq> [] \<and> sd_path_length c + 1 + length name + 1 \<le> 256"

definition report_unavailable_range :: "pm_storage_health \<Rightarrow> u64 \<Rightarrow> u64 \<Rightarrow> pm_storage_health" where
  "report_unavailable_range h first last_seq =
     (if first = 0 \<or> last_seq < first then h
      else let h1 = (if unavailable_first h = 0 \<or> first < unavailable_first h then h\<lparr>unavailable_first := first\<rparr> else h)
        in if last_seq > unavailable_last h1 then h1\<lparr>unavailable_last := last_seq\<rparr> else h1)"

subsection \<open>Scanning a segment\<close>

text \<open>The record of this device at an offset.\<close>

definition record_at :: "u8 list \<Rightarrow> sd_file \<Rightarrow> nat \<Rightarrow> pm_journal_record option" where
  "record_at dev f offset =
     (case fread_at f offset PM_JOURNAL_RECORD_SIZE of
        None \<Rightarrow> None
      | Some bs \<Rightarrow> (case pm_journal_decode_record bs of
            None \<Rightarrow> None | Some r \<Rightarrow> if rec_device_id r = dev then Some r else None))"

definition record_magic :: "u8 list" where "record_magic = [0x44, 0x52, 0x4D, 0x50]"

text \<open>The offset and record found, and whether a read set the error indicator.\<close>

function next_valid_record :: "u8 list \<Rightarrow> sd_file \<Rightarrow> nat \<Rightarrow> nat \<Rightarrow> bool \<Rightarrow> (nat \<times> pm_journal_record) option \<times> bool" where
  "next_valid_record dev f offset endp err =
     (if offset + PM_JOURNAL_RECORD_SIZE > endp then (None, err)
      else let err1 = (err \<or> read_error f offset 4) in
        if fread_at f offset 4 \<noteq> Some record_magic then next_valid_record dev f (Suc offset) endp err1
        else let err2 = (err1 \<or> read_error f offset PM_JOURNAL_RECORD_SIZE) in
          case record_at dev f offset of
            Some r \<Rightarrow> (Some (offset, r), err2)
          | None \<Rightarrow> next_valid_record dev f (Suc offset) endp err2)"
  by pat_completeness auto
termination by (relation "measure (\<lambda>(dev, f, offset, endp, err). Suc endp - offset)") auto

declare next_valid_record.simps [simp del]

lemma next_valid_record_bounds:
  "next_valid_record dev f offset endp err = (Some (off', r), err') \<Longrightarrow>
     offset \<le> off' \<and> off' + PM_JOURNAL_RECORD_SIZE \<le> endp \<and> record_at dev f off' = Some r"
proof (induction dev f offset endp err rule: next_valid_record.induct)
  case (1 dev f offset endp err)
  show ?case
  proof (cases "offset + PM_JOURNAL_RECORD_SIZE > endp \<or> fread_at f offset 4 = Some record_magic \<and> record_at dev f offset \<noteq> None")
    case True
    then show ?thesis using 1(3) unfolding next_valid_record.simps [of dev f offset]
      by (auto simp: Let_def split: if_splits)
  next
    case False
    then obtain err2 where step: "next_valid_record dev f offset endp err = next_valid_record dev f (Suc offset) endp err2"
      "next_valid_record dev f (Suc offset) endp err2 = (Some (off', r), err') \<longrightarrow>
        Suc offset \<le> off' \<and> off' + PM_JOURNAL_RECORD_SIZE \<le> endp \<and> record_at dev f off' = Some r"
      using 1(1) [OF _ refl] 1(2) [OF _ refl _ refl]
      by (cases "fread_at f offset 4 = Some record_magic") (auto simp: next_valid_record.simps [of dev f offset] Let_def)
    with 1(3) show ?thesis by auto
  qed
qed

record scan =
  sc_batch :: "pm_storage_batch option"
  sc_health :: "pm_storage_health option"
  sc_corrupt :: bool
  sc_error :: bool

definition on_health :: "(pm_storage_health \<Rightarrow> pm_storage_health) \<Rightarrow> scan \<Rightarrow> scan" where
  "on_health g a = a\<lparr>sc_health := map_option g (sc_health a)\<rparr>"

definition note_range :: "u64 \<Rightarrow> pm_storage_health \<Rightarrow> pm_storage_health" where
  "note_range q h =
     (let h1 = (if oldest_sequence h = 0 \<or> q < oldest_sequence h then h\<lparr>oldest_sequence := q\<rparr> else h)
      in if q > newest_sequence h1 then h1\<lparr>newest_sequence := q\<rparr> else h1)"

text \<open>A record that is in order.\<close>

definition take_record :: "u64 \<Rightarrow> pm_journal_record \<Rightarrow> scan \<Rightarrow> scan" where
  "take_record expected r a =
     (let q = rec_sequence r;
          a1 = (if q > expected then on_health (\<lambda>h. report_unavailable_range h expected (q - 1)) a else a);
          a2 = on_health (note_range q) a1
      in a2\<lparr>sc_batch := map_option (\<lambda>b. insert_sorted b r) (sc_batch a2)\<rparr>)"

text \<open>A position where no record of this device that is in order can be read.\<close>

definition note_corrupt :: "scan \<Rightarrow> scan" where
  "note_corrupt a = on_health (\<lambda>h. h\<lparr>corrupt_records := corrupt_records h + 1\<rparr>) (a\<lparr>sc_corrupt := True\<rparr>)"

definition next_expected :: "u64 \<Rightarrow> u64" where
  "next_expected q = (if q = - 1 then - 1 else q + 1)"

definition in_order_record :: "u8 list \<Rightarrow> sd_file \<Rightarrow> nat \<Rightarrow> u64 \<Rightarrow> pm_journal_record option" where
  "in_order_record dev f offset expected =
     (case record_at dev f offset of None \<Rightarrow> None | Some r \<Rightarrow> if rec_sequence r < expected then None else Some r)"

text \<open>The sequence numbers that a resynchronisation skips.\<close>

definition skipped_range :: "u64 \<Rightarrow> pm_journal_record \<Rightarrow> pm_storage_health \<Rightarrow> pm_storage_health" where
  "skipped_range expected r h =
     report_unavailable_range h expected (if rec_sequence r > expected then rec_sequence r - 1 else expected)"

function scan_records :: "u8 list \<Rightarrow> sd_file \<Rightarrow> nat \<Rightarrow> nat \<Rightarrow> u64 \<Rightarrow> scan \<Rightarrow> esp_err \<times> scan" where
  "scan_records dev f offset endp expected a =
     (if offset + PM_JOURNAL_RECORD_SIZE > endp
      then (if sc_error a then (ESP_FAIL, a)
            else if offset \<noteq> endp then (ESP_ERR_INVALID_SIZE, a\<lparr>sc_corrupt := True\<rparr>) else (ESP_OK, a))
      else let a1 = a\<lparr>sc_error := (sc_error a \<or> read_error f offset PM_JOURNAL_RECORD_SIZE)\<rparr> in
        case in_order_record dev f offset expected of
          Some r \<Rightarrow>
            scan_records dev f (offset + PM_JOURNAL_RECORD_SIZE) endp (next_expected (rec_sequence r)) (take_record expected r a1)
        | None \<Rightarrow>
            (case next_valid_record dev f (Suc offset) endp (sc_error a1) of
                (None, err) \<Rightarrow> (ESP_ERR_INVALID_CRC, (note_corrupt a1)\<lparr>sc_error := err\<rparr>)
              | (Some (off', r'), err) \<Rightarrow>
                  scan_records dev f off' endp expected (on_health (skipped_range expected r') ((note_corrupt a1)\<lparr>sc_error := err\<rparr>))))"
  by pat_completeness auto
termination
  by (relation "measure (\<lambda>(dev, f, offset, endp, expected, a). endp - offset)")
    (auto simp: PM_JOURNAL_RECORD_SIZE_def dest!: next_valid_record_bounds [OF sym])

declare scan_records.simps [simp del]

definition segment_header_of :: "storage \<Rightarrow> sd_file \<Rightarrow> pm_segment_header option" where
  "segment_header_of st f =
     (case fread_at f 0 PM_JOURNAL_SEGMENT_HEADER_SIZE of
        None \<Rightarrow> None
      | Some bs \<Rightarrow> (case pm_journal_decode_segment_header bs of
            None \<Rightarrow> None
          | Some h \<Rightarrow> if seg_device_id h = st_device_id st \<and> seg_card_id h = sh_card_id (st_health st) then Some h else None))"

definition scan_segment :: "storage \<Rightarrow> sd_file \<Rightarrow> pm_storage_batch option \<Rightarrow> pm_storage_health option \<Rightarrow> esp_err \<times> scan" where
  "scan_segment st f batch health =
     (let a = \<lparr>sc_batch = batch, sc_health = health, sc_corrupt = False, sc_error = False\<rparr> in
      case segment_header_of st f of
        None \<Rightarrow> (ESP_ERR_INVALID_CRC, a\<lparr>sc_corrupt := True\<rparr>)
      | Some h \<Rightarrow>
          scan_records (st_device_id st) f PM_JOURNAL_SEGMENT_HEADER_SIZE (length (contents f)) (first_sequence h) a)"

subsection \<open>Reading the directory\<close>

definition journal_file :: "string \<Rightarrow> bool" where
  "journal_file name \<longleftrightarrow> take 4 name = ''seg_'' \<or> name = PM_CURRENT \<or> take 11 name = ''quarantine_''"

text \<open>
  The common loop over the directory: each entry takes an outcome of \<open>readdir\<close>, a journal file is opened and handed to \<open>visit\<close>, and the
  first error ends the loop. The last outcome is that of the \<open>readdir\<close> that finds no more entries.
\<close>

fun for_journal_files ::
    "(sd_file \<Rightarrow> 'a \<Rightarrow> esp_err \<times> 'a) \<Rightarrow> (string \<times> sd_file) list \<Rightarrow> sd_card \<Rightarrow> 'a \<Rightarrow> esp_err \<times> 'a \<times> sd_card" where
  "for_journal_files visit [] c x = (case sd_tick c of (r, c1) \<Rightarrow> (if r = Sd_Ok then ESP_OK else ESP_FAIL, x, c1))"
| "for_journal_files visit ((name, f) # fs) c x = (case sd_tick c of (r, c1) \<Rightarrow>
     if r \<noteq> Sd_Ok then (ESP_FAIL, x, c1)
     else if \<not> journal_file name then for_journal_files visit fs c1 x
     else if \<not> journal_path c1 name then (ESP_ERR_INVALID_SIZE, x, c1)
     else case sd_tick c1 of (r2, c2) \<Rightarrow>
       if r2 \<noteq> Sd_Ok then (ESP_FAIL, x, c2)
       else case visit f x of (e, x1) \<Rightarrow> if e = ESP_OK then for_journal_files visit fs c2 x1 else (e, x1, c2))"

definition read_all_files ::
    "(sd_file \<Rightarrow> 'a \<Rightarrow> esp_err \<times> 'a) \<Rightarrow> sd_card \<Rightarrow> 'a \<Rightarrow> (esp_err \<times> 'a \<times> sd_card) option \<times> sd_card" where
  "read_all_files visit c x = (case sd_tick c of (r, c1) \<Rightarrow>
     if r \<noteq> Sd_Ok then (None, c1)
     else case for_journal_files visit (sd_files c1) c1 x of (e, x1, c2) \<Rightarrow> (Some (e, x1, c2), c2))"

definition storage_readable :: "pm_storage_health \<Rightarrow> bool" where
  "storage_readable h \<longleftrightarrow> inventory_complete h \<and>
     (sh_status h = PM_STORAGE_READY \<or> sh_status h = PM_STORAGE_FULL \<or> sh_status h = PM_STORAGE_READ_ONLY)"

definition read_batch_owner :: "u64 \<Rightarrow> pm_storage_batch \<Rightarrow> storage \<Rightarrow> esp_err \<times> pm_storage_batch \<times> storage" where
  "read_batch_owner cursor batch st =
     (if \<not> storage_readable (st_health st) then (ESP_ERR_INVALID_STATE, batch, st)
      else let empty_batch = \<lparr>records = [], after_sequence = cursor, more_available = False\<rparr> in
        case read_all_files (\<lambda>f b. case scan_segment st f (Some b) None of (e, a) \<Rightarrow> (e, the (sc_batch a)))
               (st_card st) empty_batch of
          (None, c) \<Rightarrow> (ESP_FAIL, empty_batch, st\<lparr>st_card := c\<rparr>)
        | (Some (e, b, _), c) \<Rightarrow>
            let st1 = st\<lparr>st_card := c\<rparr> in
            if e = ESP_OK then (ESP_OK, b, st1)
            else (e, b, set_status PM_STORAGE_IO_ERROR (st1\<lparr>st_health := (st_health st1)\<lparr>inventory_complete := False\<rparr>\<rparr>)))"

text \<open>One file of the inventory.\<close>

definition inventory_file :: "storage \<Rightarrow> sd_file \<Rightarrow> pm_storage_health \<Rightarrow> esp_err \<times> pm_storage_health" where
  "inventory_file st f h = (case scan_segment st f None (Some h) of (e, a) \<Rightarrow>
     let h1 = the (sc_health a);
         h2 = h1\<lparr>inventory_scanned_files := inventory_scanned_files h1 + 1\<rparr>
     in (e, if e \<noteq> ESP_OK \<or> sc_corrupt a then h2\<lparr>quarantined_segments := quarantined_segments h2 + 1\<rparr> else h2))"

definition pm_storage_rebuild_index :: "storage \<Rightarrow> esp_err \<times> storage" where
  "pm_storage_rebuild_index st0 =
     (let st = st0\<lparr>st_health := (st_health st0)\<lparr>inventory_complete := False\<rparr>\<rparr>;
          inventory = (st_health st)\<lparr>oldest_sequence := 0, newest_sequence := 0, unavailable_first := 0, unavailable_last := 0,
                        corrupt_records := 0, quarantined_segments := 0, inventory_scanned_files := 0\<rparr>
      in case read_all_files (inventory_file st) (st_card st) inventory of
           (None, c) \<Rightarrow> (ESP_FAIL, st\<lparr>st_card := c\<rparr>)
         | (Some (e, i, _), c) \<Rightarrow>
             if e \<noteq> ESP_OK then (e, st\<lparr>st_card := c\<rparr>)
             else (ESP_OK, st\<lparr>st_card := c, st_health := (st_health st)\<lparr>oldest_sequence := oldest_sequence i,
                     newest_sequence := newest_sequence i, unavailable_first := unavailable_first i,
                     unavailable_last := unavailable_last i, corrupt_records := corrupt_records i,
                     quarantined_segments := quarantined_segments i, inventory_scanned_files := inventory_scanned_files i,
                     inventory_complete := True\<rparr>\<rparr>))"

subsection \<open>Reclaiming space\<close>

definition scan_text :: "string \<Rightarrow> string \<Rightarrow> string option" where
  "scan_text lit s = (if take (length lit) s = lit then Some (drop (length lit) s) else None)"

text \<open>The conversion \<open>%20llu\<close>: white space and a sign are accepted, too large a number saturates.\<close>

definition scan_llu :: "nat \<Rightarrow> string \<Rightarrow> (u64 \<times> string) option" where
  "scan_llu w s =
     (let s1 = dropWhile is_space s;
          sign = (s1 \<noteq> [] \<and> (hd s1 = CHR ''-'' \<or> hd s1 = CHR ''+''));
          (ds, rest) = scan_digits (if sign then w - 1 else w) (if sign then tl s1 else s1);
          v = digits_value 0 ds
      in if ds = [] then None
         else Some (if v \<ge> 2 ^ 64 then - 1 else if sign \<and> hd s1 = CHR ''-'' then - of_nat v else of_nat v, rest))"

text \<open>
  \<open>sscanf (name, "seg_%20llu_%20llu.bin%c", ...) == 2\<close>: both numbers are read and no character follows the suffix. A name that
  ends before or differs from the suffix also gives 2.
\<close>

definition parse_segment_name :: "string \<Rightarrow> (u64 \<times> u64) option" where
  "parse_segment_name name =
     Option.bind (scan_text ''seg_'' name) (\<lambda>s0. Option.bind (scan_llu 20 s0) (\<lambda>(first, s1).
     Option.bind (scan_lit CHR ''_'' s1) (\<lambda>s2. Option.bind (scan_llu 20 s2) (\<lambda>(last_seq, s3).
       if take 4 s3 = ''.bin'' \<and> length s3 > 4 then None else Some (first, last_seq)))))"

text \<open>An error of \<open>readdir\<close> ends this loop as the end of the directory does.\<close>

fun listed_names :: "(string \<times> sd_file) list \<Rightarrow> sd_card \<Rightarrow> string list \<times> sd_card" where
  "listed_names [] c = ([], snd (sd_tick c))"
| "listed_names ((name, f) # fs) c = (case sd_tick c of (r, c1) \<Rightarrow>
     if r \<noteq> Sd_Ok then ([], c1) else case listed_names fs c1 of (names, c2) \<Rightarrow> (name # names, c2))"

definition reclaimable :: "u64 \<Rightarrow> u64 \<Rightarrow> string \<Rightarrow> bool" where
  "reclaimable acknowledged oldest name \<longleftrightarrow> length name < 128 \<and>
     (case parse_segment_name name of None \<Rightarrow> False | Some (first, last_seq) \<Rightarrow> last_seq \<le> acknowledged \<and> first < oldest)"

definition oldest_acknowledged :: "u64 \<Rightarrow> string list \<Rightarrow> string" where
  "oldest_acknowledged acknowledged names = snd (foldl (\<lambda>(oldest, chosen) name.
     if reclaimable acknowledged oldest name then (fst (the (parse_segment_name name)), name) else (oldest, chosen)) (- 1, []) names)"

text \<open>One round of the loop: \<open>Inl\<close> ends it with an error, \<open>Inr\<close> is the state after a deletion.\<close>

definition reclaim_one :: "storage \<Rightarrow> (esp_err \<times> storage) + storage" where
  "reclaim_one st = (case sd_tick (st_card st) of (r, c1) \<Rightarrow>
     if r \<noteq> Sd_Ok then Inl (ESP_FAIL, st\<lparr>st_card := c1\<rparr>)
     else case listed_names (sd_files c1) c1 of (names, c2) \<Rightarrow>
       let name = oldest_acknowledged (sh_acknowledged (st_health st)) names in
       if name = [] then Inl (ESP_ERR_NO_MEM, st\<lparr>st_card := c2\<rparr>)
       else if \<not> journal_path c2 name then Inl (ESP_FAIL, st\<lparr>st_card := c2\<rparr>)
       else case unlink name c2 of (ok, c3) \<Rightarrow>
         if \<not> ok then Inl (ESP_FAIL, st\<lparr>st_card := c3\<rparr>)
         else case update_capacity (st\<lparr>st_card := c3\<rparr>) of (e, st1) \<Rightarrow> if e \<noteq> ESP_OK then Inl (e, st1) else Inr st1)"

lemma sd_tick_files [simp]: "sd_tick c = (r, c1) \<Longrightarrow> sd_files c1 = sd_files c"
  by (auto simp: sd_tick_def split: list.splits)

lemma snd_sd_tick_files [simp]: "sd_files (snd (sd_tick c)) = sd_files c"
  by (cases "sd_tick c") simp

lemma listed_names_files [simp]: "listed_names fs c = (names, c') \<Longrightarrow> sd_files c' = sd_files c"
  by (induction fs c arbitrary: names c' rule: listed_names.induct) (auto split: prod.splits if_splits)

lemma update_capacity_card:
  "update_capacity st = (e, st1) \<Longrightarrow> sd_files (st_card st1) = sd_files (st_card st)"
  by (auto simp: update_capacity_def esp_vfs_fat_info_def Let_def split: prod.splits if_splits)

lemma delete_shorter: "map_of al k \<noteq> None \<Longrightarrow> length (AList.delete k al) < length al"
  by (induction al) (auto intro: less_SucI le_imp_less_Suc AList.length_delete_le)

lemma reclaim_one_shorter: "reclaim_one st = Inr st1 \<Longrightarrow> length (sd_files (st_card st1)) < length (sd_files (st_card st))"
  by (auto simp: delete_shorter reclaim_one_def unlink_def drop_file_def file_of_def Let_def split: prod.splits if_splits dest!: update_capacity_card)

function reclaim_loop :: "storage \<Rightarrow> esp_err \<times> storage" where
  "reclaim_loop st =
     (if bytes_free (st_health st) \<ge> PM_STORAGE_EMERGENCY_RESERVE then (ESP_OK, st)
      else case reclaim_one st of Inl r \<Rightarrow> r | Inr st1 \<Rightarrow> reclaim_loop st1)"
  by pat_completeness auto
termination by (relation "measure (\<lambda>st. length (sd_files (st_card st)))") (auto dest: reclaim_one_shorter)

declare reclaim_loop.simps [simp del]

definition reclaim_acknowledged_segments :: "storage \<Rightarrow> esp_err \<times> storage" where
  "reclaim_acknowledged_segments st =
     ok_then (ok_then (update_capacity st) reclaim_loop)
       (\<lambda>st1. pm_storage_rebuild_index (st1\<lparr>st_health := (st_health st1)\<lparr>oldest_sequence := 0, newest_sequence := 0\<rparr>\<rparr>))"

subsection \<open>Appending\<close>

definition append_encoded :: "pm_journal_record \<Rightarrow> storage \<Rightarrow> sd_result \<times> storage" where
  "append_encoded r st =
     (case pm_journal_encode_record r PM_JOURNAL_RECORD_SIZE of
        None \<Rightarrow> (Sd_Error 0, st)
      | Some encoded \<Rightarrow>
        (case fwrite PM_CURRENT encoded (st_card st) of (w, c1) \<Rightarrow>
           if w \<noteq> Sd_Ok then (w, st\<lparr>st_card := c1\<rparr>)
           else case sync_file c1 of (s, c2) \<Rightarrow> (s, st\<lparr>st_card := c2\<rparr>)))"

definition no_space :: "sd_result \<Rightarrow> bool" where
  "no_space w = (case w of Sd_No_Space _ \<Rightarrow> True | _ \<Rightarrow> False)"

definition append_record :: "storage_env \<Rightarrow> pm_journal_record \<Rightarrow> storage \<Rightarrow> esp_err \<times> storage" where
  "append_record env r st =
     (if sh_status (st_health st) \<noteq> PM_STORAGE_READY then (ESP_ERR_INVALID_STATE, st)
      else case (if bytes_free (st_health st) < PM_STORAGE_EMERGENCY_RESERVE then reclaim_acknowledged_segments st else (ESP_OK, st)) of
        (e1, st1) \<Rightarrow>
          if e1 \<noteq> ESP_OK then (e1, set_status (if e1 = ESP_ERR_NO_MEM then PM_STORAGE_FULL else PM_STORAGE_IO_ERROR) st1)
          else case (if st_open st1 then (ESP_OK, st1) else open_current env r st1) of (e2, st2) \<Rightarrow>
            if e2 \<noteq> ESP_OK then (e2, set_status PM_STORAGE_IO_ERROR st2)
            else case append_encoded r st2 of (w, st3) \<Rightarrow>
              if w \<noteq> Sd_Ok then (ESP_FAIL, set_status (if no_space w then PM_STORAGE_FULL else PM_STORAGE_IO_ERROR) st3)
              else let st4 = st3\<lparr>st_size := st_size st3 + PM_JOURNAL_RECORD_SIZE, st_last := rec_sequence r,
                               st_health := note_range (rec_sequence r) (st_health st3)\<rparr>;
                       st5 = snd (update_capacity st4)
                in if st_size st5 \<ge> PM_STORAGE_SEGMENT_LIMIT then rotate_current st5 else (ESP_OK, st5))"

subsection \<open>Recovery after a restart\<close>

datatype recovery = Records_Good | Record_Bad | Records_Unreadable

fun recover_records :: "u8 list \<Rightarrow> sd_file \<Rightarrow> nat list \<Rightarrow> u64 \<Rightarrow> recovery \<times> u64" where
  "recover_records dev f [] q = (Records_Good, q)"
| "recover_records dev f (offset # offsets) q =
     (if read_error f offset PM_JOURNAL_RECORD_SIZE then (Records_Unreadable, q)
      else case record_at dev f offset of
        None \<Rightarrow> (Record_Bad, q)
      | Some r \<Rightarrow> recover_records dev f offsets (rec_sequence r))"

definition record_offsets :: "nat \<Rightarrow> nat list" where
  "record_offsets n = map (\<lambda>i. PM_JOURNAL_SEGMENT_HEADER_SIZE + i * PM_JOURNAL_RECORD_SIZE) [0..<n]"

text \<open>The file is renamed as far as that succeeds and counted in any case.\<close>

definition quarantine :: "string \<Rightarrow> storage \<Rightarrow> storage" where
  "quarantine name st = st\<lparr>st_card := snd (rename_file PM_CURRENT name (st_card st)),
     st_health := (st_health st)\<lparr>quarantined_segments := quarantined_segments (st_health st) + 1\<rparr>\<rparr>"

definition truncate_current :: "nat \<Rightarrow> sd_file \<Rightarrow> sd_card \<Rightarrow> bool \<times> sd_file \<times> sd_card" where
  "truncate_current valid_end f c =
     (if valid_end = length (contents f) then (True, f, c)
      else case sd_tick c of (r, c1) \<Rightarrow>
        if r \<noteq> Sd_Ok then (False, f, c1)
        else let f1 = f\<lparr>contents := take valid_end (contents f)\<rparr> in (True, f1, put_file PM_CURRENT f1 c1))"

definition recover_current :: "storage_env \<Rightarrow> storage \<Rightarrow> esp_err \<times> storage" where
  "recover_current env st = (case fopen_read PM_CURRENT (st_card st) of (o1, c1) \<Rightarrow>
     let st1 = st\<lparr>st_card := c1\<rparr> in
     case o1 of
       Absent \<Rightarrow> (ESP_OK, st1)
     | Open_Failed \<Rightarrow> (ESP_FAIL, st1)
     | Opened f \<Rightarrow>
       (case segment_header_of st1 f of
          None \<Rightarrow> (ESP_OK, quarantine (''quarantine_header_'' @ dec (se_ticks env) @ ''.bin'') st1)
        | Some h \<Rightarrow>
          let n = (length (contents f) - PM_JOURNAL_SEGMENT_HEADER_SIZE) div PM_JOURNAL_RECORD_SIZE;
              valid_end = PM_JOURNAL_SEGMENT_HEADER_SIZE + n * PM_JOURNAL_RECORD_SIZE
          in case truncate_current valid_end f c1 of (ok, f1, c2) \<Rightarrow>
            let st2 = st1\<lparr>st_card := c2\<rparr> in
            if \<not> ok then (ESP_FAIL, st2)
            else case recover_records (st_device_id st) f1 (record_offsets n) (st_last st) of (how, q) \<Rightarrow>
              (case how of
                 Record_Bad \<Rightarrow>
                   let st3 = quarantine (''quarantine_current_'' @ dec (se_ticks env) @ ''.bin'') st2
                   in (ESP_OK, st3\<lparr>st_health := (st_health st3)\<lparr>corrupt_records := corrupt_records (st_health st3) + 1\<rparr>,
                                   st_first := 0, st_last := 0, st_size := 0\<rparr>)
               | Records_Unreadable \<Rightarrow> (ESP_FAIL, st2\<lparr>st_last := q\<rparr>)
               | Records_Good \<Rightarrow> (ESP_OK, st2\<lparr>st_last := q, st_first := first_sequence h, st_size := valid_end\<rparr>))))"

subsection \<open>Formatting\<close>

text \<open>\<open>format\<close> is \<open>esp_vfs_fat_sdcard_format\<close>: its result and the files it leaves. No token stands for the recovery of an authenticated intent.\<close>

type_synonym fat_format = "(string \<times> sd_file) list \<Rightarrow> esp_err \<times> (string \<times> sd_file) list"

definition format_refused :: "storage_env \<Rightarrow> u8 list option \<Rightarrow> storage \<Rightarrow> bool" where
  "format_refused env token st \<longleftrightarrow> \<not> st_mounted st \<or>
     (case token of None \<Rightarrow> False
      | Some t \<Rightarrow> ft_state (st_format st) \<noteq> PM_FORMAT_PREPARED \<or> ft_token (st_format st) \<noteq> t \<or>
          word_of_int (se_now env) > expires_monotonic_us (st_format st))"

definition set_format_state :: "pm_format_state \<Rightarrow> storage \<Rightarrow> storage" where
  "set_format_state s st = st\<lparr>st_format := (st_format st)\<lparr>ft_state := s\<rparr>\<rparr>"

definition make_directory :: "storage \<Rightarrow> esp_err \<times> storage" where
  "make_directory st = (case sd_tick (st_card st) of (r, c) \<Rightarrow> (if r = Sd_Ok then ESP_OK else ESP_FAIL, st\<lparr>st_card := c\<rparr>))"

definition format_storage :: "storage_env \<Rightarrow> fat_format \<Rightarrow> u8 list option \<Rightarrow> storage \<Rightarrow> esp_err \<times> storage" where
  "format_storage env format token st =
     (if format_refused env token st then (ESP_ERR_INVALID_STATE, st)
      else let st1 = snd (rotate_current (set_format_state PM_FORMAT_COMMITTING st)) in
        case format (sd_files (st_card st1)) of (e1, files) \<Rightarrow>
        case ok_then (ok_then (ok_then (ok_then (e1, st1\<lparr>st_card := (st_card st1)\<lparr>sd_files := files\<rparr>\<rparr>)
               make_directory) (\<lambda>s. card_identity env (set_card_id (replicate 16 0) s))) storage_self_test) update_capacity of (e, st2) \<Rightarrow>
          (e, if e = ESP_OK
              then set_format_state PM_FORMAT_COMPLETE (st2\<lparr>st_health := (st_health st2)\<lparr>oldest_sequence := 0, newest_sequence := 0,
                     corrupt_records := 0, quarantined_segments := 0, sh_status := PM_STORAGE_READY\<rparr>\<rparr>)
              else set_format_state PM_FORMAT_FAILED st2))"

subsection \<open>Start\<close>

record storage_platform =
  sp_bus :: esp_err
  sp_mount :: esp_err
  sp_started :: bool
  sp_task :: bool

text \<open>The result, the state, and whether the task now runs.\<close>

definition pm_storage_start :: "storage_platform \<Rightarrow> storage_env \<Rightarrow> u8 list \<Rightarrow> storage \<Rightarrow> esp_err \<times> storage \<times> bool" where
  "pm_storage_start p env device_id st0 =
     (if sp_started p then (ESP_ERR_INVALID_ARG, st0, True)
      else case mount_card (sp_bus p) (sp_mount p) env (st0\<lparr>st_health := zero_health, st_device_id := device_id\<rparr>) of (e1, st1) \<Rightarrow>
        if e1 \<noteq> ESP_OK then (e1, set_status (if st_mounted st1 then PM_STORAGE_IO_ERROR else PM_STORAGE_MISSING) st1, False)
        else case ok_then (recover_current env (set_status PM_STORAGE_READY st1)) pm_storage_rebuild_index of (e2, st2) \<Rightarrow>
          case (if e2 \<noteq> ESP_OK then (e2, set_status PM_STORAGE_CORRUPT st2)
                else case refresh_capacity st2 of (e3, st3) \<Rightarrow>
                  (e3, if e3 \<noteq> ESP_OK then set_status PM_STORAGE_IO_ERROR st3 else st3)) of (e, st) \<Rightarrow>
            if sp_task p then (e, st, True) else (ESP_ERR_NO_MEM, st, False))"

subsection \<open>The task and its clients\<close>

datatype storage_message =
    Storage_Append pm_journal_record | Storage_Flush | Storage_Format "u8 list" | Storage_Recover_Format
  | Storage_Read_Batch u64 | Storage_Refresh_Inventory

text \<open>
  The task, its queue and one client: the notification that waits for the client, and the batch object it passes to \<open>pm_storage_read_batch\<close>.
\<close>

record storage_system =
  sy_storage :: storage
  sy_queue :: "storage_message list"
  sy_notification :: "esp_err option"
  sy_batch :: pm_storage_batch

definition handle_message ::
    "storage_env \<Rightarrow> fat_format \<Rightarrow> storage_message \<Rightarrow> pm_storage_batch \<Rightarrow> storage \<Rightarrow> esp_err \<times> pm_storage_batch \<times> storage" where
  "handle_message env format message batch st = (case message of
       Storage_Append r \<Rightarrow> (case append_record env r st of (e, st1) \<Rightarrow> (e, batch, st1))
     | Storage_Flush \<Rightarrow>
         if \<not> st_open st then (ESP_OK, batch, st)
         else (case sync_file (st_card st) of (s, c) \<Rightarrow> (if s = Sd_Ok then ESP_OK else ESP_FAIL, batch, st\<lparr>st_card := c\<rparr>))
     | Storage_Format token \<Rightarrow> (case format_storage env format (Some token) st of (e, st1) \<Rightarrow> (e, batch, st1))
     | Storage_Recover_Format \<Rightarrow> (case format_storage env format None st of (e, st1) \<Rightarrow> (e, batch, st1))
     | Storage_Read_Batch cursor \<Rightarrow> read_batch_owner cursor batch st
     | Storage_Refresh_Inventory \<Rightarrow>
         (case pm_storage_rebuild_index st of (e, st1) \<Rightarrow>
            (e, batch, if e \<noteq> ESP_OK then st1\<lparr>st_health := (st_health st1)\<lparr>inventory_complete := False\<rparr>\<rparr> else st1)))"

text \<open>One message, as the task finishes it: the caller's notification is overwritten.\<close>

definition storage_task :: "storage_env \<times> fat_format \<Rightarrow> storage_system \<Rightarrow> storage_system" where
  "storage_task = (\<lambda>(env, format) sy. case sy_queue sy of
       [] \<Rightarrow> sy
     | message # queue \<Rightarrow>
         (case handle_message env format message (sy_batch sy) (sy_storage sy) of (e, batch, st) \<Rightarrow>
            sy\<lparr>sy_storage := st, sy_queue := queue, sy_notification := Some e, sy_batch := batch\<rparr>))"

text \<open>A round in which no message came: the time of the last refresh and the state.\<close>

definition storage_idle :: "int \<Rightarrow> int \<Rightarrow> storage \<Rightarrow> int \<times> storage" where
  "storage_idle now_us last_refresh st =
     (if now_us - last_refresh \<ge> 60000000 then (now_us, snd (refresh_capacity st)) else (last_refresh, st))"

text \<open>
  \<open>sending\<close> are the messages that the task finishes while the client waits for room in the queue, \<open>waiting\<close> those it finishes
  before the client reads a notification or gives up.
\<close>

definition send_and_wait ::
    "(storage_env \<times> fat_format) list \<Rightarrow> (storage_env \<times> fat_format) list \<Rightarrow> storage_message \<Rightarrow> storage_system \<Rightarrow> esp_err \<times> storage_system" where
  "send_and_wait sending waiting message sy0 =
     (let sy1 = foldl (\<lambda>sy w. storage_task w sy) (sy0\<lparr>sy_notification := None\<rparr>) sending in
      if length (sy_queue sy1) \<ge> PM_STORAGE_QUEUE_DEPTH then (ESP_ERR_TIMEOUT, sy1)
      else let sy2 = sy1\<lparr>sy_queue := sy_queue sy1 @ [message]\<rparr>;
               sy3 = foldl (\<lambda>sy w. storage_task w sy) sy2 waiting
        in case sy_notification sy3 of
             None \<Rightarrow> (ESP_ERR_TIMEOUT, sy3)
           | Some e \<Rightarrow> (e, sy3\<lparr>sy_notification := None\<rparr>))"

definition pm_storage_append where
  "pm_storage_append sending waiting r sy = send_and_wait sending waiting (Storage_Append r) sy"

definition pm_storage_flush where
  "pm_storage_flush sending waiting sy = send_and_wait sending waiting Storage_Flush sy"

definition pm_storage_read_batch where
  "pm_storage_read_batch sending waiting cursor sy = send_and_wait sending waiting (Storage_Read_Batch cursor) sy"

definition pm_storage_refresh_inventory where
  "pm_storage_refresh_inventory sending waiting sy = send_and_wait sending waiting Storage_Refresh_Inventory sy"

definition records_lost :: "pm_storage_health \<Rightarrow> u64 \<times> u64" where
  "records_lost h =
     (if sh_acknowledged h \<ge> oldest_sequence h \<and> oldest_sequence h \<noteq> 0 then sh_acknowledged h - oldest_sequence h + 1 else 0,
      if newest_sequence h > sh_acknowledged h then newest_sequence h - sh_acknowledged h else 0)"

definition pm_storage_prepare_format ::
    "u64 \<Rightarrow> u64 \<Rightarrow> u8 list \<Rightarrow> pm_format_transaction \<Rightarrow> storage \<Rightarrow> esp_err \<times> pm_format_transaction \<times> storage" where
  "pm_storage_prepare_format now_us expires_us token t st =
     (if expires_us \<le> now_us then (ESP_ERR_INVALID_ARG, t, st)
      else let f = \<lparr>ft_token = token, acknowledged_records_lost = fst (records_lost (st_health st)),
                    unacknowledged_records_lost = snd (records_lost (st_health st)), expires_monotonic_us = expires_us,
                    ft_state = PM_FORMAT_PREPARED\<rparr>
        in (ESP_OK, f, st\<lparr>st_format := f\<rparr>))"

definition pm_storage_commit_format where
  "pm_storage_commit_format sending waiting t token sy =
     (if ft_state t \<noteq> PM_FORMAT_PREPARED \<or> foldl (\<lambda>d (x, y). d OR (x XOR y)) 0 (zip (ft_token t) token) \<noteq> 0
      then (ESP_ERR_INVALID_ARG, t, sy)
      else case send_and_wait sending waiting (Storage_Format token) sy of (e, sy1) \<Rightarrow> (e, st_format (sy_storage sy1), sy1))"

definition pm_storage_recover_authenticated_format where
  "pm_storage_recover_authenticated_format sending waiting sy = send_and_wait sending waiting Storage_Recover_Format sy"

definition pm_storage_cancel_format :: "storage \<Rightarrow> pm_format_transaction \<times> storage" where
  "pm_storage_cancel_format st = (zero_format, st\<lparr>st_format := zero_format\<rparr>)"

end
