(* ===== verification/PM_Backlog.thy ===== *)
theory PM_Backlog
  imports PM_Prelude
begin

text \<open>
  components/pm_network/pm_backlog_policy.c: how many stored records go into one upload, and which
  records the server will never receive. The serializer is the argument \<open>probe\<close>: for a number of
  records its status and the size it reports, with the state behind \<open>probe_context\<close> threaded.
\<close>

datatype pm_backlog_probe_status = PM_BACKLOG_PROBE_OK | PM_BACKLOG_PROBE_TOO_LARGE | PM_BACKLOG_PROBE_FAILED

datatype pm_backlog_plan_status =
    PM_BACKLOG_PLAN_OK | PM_BACKLOG_PLAN_EMPTY | PM_BACKLOG_PLAN_SINGLE_RECORD_TOO_LARGE
  | PM_BACKLOG_PLAN_SERIALIZATION_FAILED | PM_BACKLOG_PLAN_INVALID_ARGUMENT

datatype pm_missing_prefix_status =
    PM_MISSING_PREFIX_NONE | PM_MISSING_PREFIX_CONFIRMED | PM_MISSING_PREFIX_NOT_CONFIRMED

record pm_backlog_plan =
  configured_max_records :: nat
  available_records :: nat
  candidate_records :: nat
  selected_records :: nat
  serialized_bytes :: nat
  body_capacity :: nat
  reduced :: bool

record pm_missing_prefix =
  mp_first_sequence :: u64
  mp_last_sequence :: u64
  mp_count :: u64

type_synonym 'c probe_fn = "nat \<Rightarrow> 'c \<Rightarrow> pm_backlog_probe_status \<times> nat \<times> 'c"

definition pm_backlog_bounded_record_limit :: "nat \<Rightarrow> nat \<Rightarrow> nat" where
  "pm_backlog_bounded_record_limit configured hard =
     (if hard = 0 then 0 else if configured = 0 then 1 else if configured > hard then hard else configured)"

text \<open>The loop over \<open>candidate\<close>, from the largest number of records down.\<close>

fun shrink_to_fit ::
    "'c probe_fn \<Rightarrow> nat \<Rightarrow> pm_backlog_plan \<Rightarrow> 'c \<Rightarrow> pm_backlog_plan_status \<times> pm_backlog_plan \<times> 'c" where
  "shrink_to_fit probe 0 plan c =
     (PM_BACKLOG_PLAN_SINGLE_RECORD_TOO_LARGE, plan\<lparr>reduced := (1 < candidate_records plan)\<rparr>, c)"
| "shrink_to_fit probe (Suc k) plan c =
     (case probe (Suc k) c of (st, bytes, c') \<Rightarrow>
        if st = PM_BACKLOG_PROBE_FAILED then (PM_BACKLOG_PLAN_SERIALIZATION_FAILED, plan, c')
        else if st = PM_BACKLOG_PROBE_OK \<and> bytes < body_capacity plan
        then (PM_BACKLOG_PLAN_OK, plan\<lparr>selected_records := Suc k, serialized_bytes := bytes,
                reduced := (Suc k < candidate_records plan)\<rparr>, c')
        else shrink_to_fit probe k (plan\<lparr>serialized_bytes := bytes\<rparr>) c')"

definition pm_backlog_select_largest_fitting ::
    "nat \<Rightarrow> nat \<Rightarrow> nat \<Rightarrow> nat \<Rightarrow> 'c probe_fn \<Rightarrow> pm_backlog_plan \<Rightarrow> 'c \<Rightarrow>
      pm_backlog_plan_status \<times> pm_backlog_plan \<times> 'c" where
  "pm_backlog_select_largest_fitting available configured hard capacity probe plan0 c =
     (if hard = 0 \<or> capacity < 2 then (PM_BACKLOG_PLAN_INVALID_ARGUMENT, plan0, c)
      else let plan = \<lparr>configured_max_records = configured, available_records = available,
                       candidate_records = 0, selected_records = 0, serialized_bytes = 0,
                       body_capacity = capacity, reduced = False\<rparr>
        in if available = 0 then (PM_BACKLOG_PLAN_EMPTY, plan, c)
           else let bounded = pm_backlog_bounded_record_limit configured hard;
                    candidate = (if available < bounded then available else bounded)
             in shrink_to_fit probe candidate (plan\<lparr>candidate_records := candidate\<rparr>) c)"

definition pm_backlog_detect_missing_prefix ::
    "u64 \<Rightarrow> bool \<Rightarrow> bool \<Rightarrow> u64 \<Rightarrow> pm_missing_prefix_status \<times> pm_missing_prefix" where
  "pm_backlog_detect_missing_prefix ack storage_ready inventory_complete earliest =
     (let none = \<lparr>mp_first_sequence = 0, mp_last_sequence = 0, mp_count = 0\<rparr> in
      if ack = - 1 \<or> earliest = 0 \<or> earliest \<le> ack + 1 then (PM_MISSING_PREFIX_NONE, none)
      else if \<not> storage_ready \<or> \<not> inventory_complete then (PM_MISSING_PREFIX_NOT_CONFIRMED, none)
      else let first = ack + 1; final = earliest - 1
        in (PM_MISSING_PREFIX_CONFIRMED,
            \<lparr>mp_first_sequence = first, mp_last_sequence = final, mp_count = final - first + 1\<rparr>))"

subsection \<open>The largest number of records that fits\<close>

definition fits :: "(nat \<Rightarrow> pm_backlog_probe_status \<times> nat) \<Rightarrow> nat \<Rightarrow> nat \<Rightarrow> bool" where
  "fits size_of capacity k \<longleftrightarrow> fst (size_of k) = PM_BACKLOG_PROBE_OK \<and> snd (size_of k) < capacity"

text \<open>A serializer whose answer depends on the number of records only.\<close>

definition pure_probe :: "(nat \<Rightarrow> pm_backlog_probe_status \<times> nat) \<Rightarrow> 'c probe_fn" where
  "pure_probe size_of k c = (fst (size_of k), snd (size_of k), c)"

definition largest_fitting :: "(nat \<Rightarrow> pm_backlog_probe_status \<times> nat) \<Rightarrow> nat \<Rightarrow> nat \<Rightarrow> nat \<Rightarrow> bool" where
  "largest_fitting size_of capacity limit k \<longleftrightarrow> 0 < k \<and> k \<le> limit \<and> fits size_of capacity k \<and>
     (\<forall>j. k < j \<and> j \<le> limit \<longrightarrow> \<not> fits size_of capacity j)"

lemma shrink_to_fit_pure:
  assumes "\<forall>j. 0 < j \<and> j \<le> k \<longrightarrow> fst (size_of j) \<noteq> PM_BACKLOG_PROBE_FAILED"
  shows "case shrink_to_fit (pure_probe size_of) k plan c of (st, plan', c') \<Rightarrow> c' = c \<and>
     candidate_records plan' = candidate_records plan \<and>
     (if \<exists>j. 0 < j \<and> j \<le> k \<and> fits size_of (body_capacity plan) j
      then st = PM_BACKLOG_PLAN_OK \<and> largest_fitting size_of (body_capacity plan) k (selected_records plan') \<and>
        serialized_bytes plan' = snd (size_of (selected_records plan')) \<and>
        reduced plan' = (selected_records plan' < candidate_records plan)
      else st = PM_BACKLOG_PLAN_SINGLE_RECORD_TOO_LARGE \<and> selected_records plan' = selected_records plan)"
  using assms
proof (induction k arbitrary: plan)
  case 0
  then show ?case by auto
next
  case (Suc k)
  show ?case
  proof (cases "fits size_of (body_capacity plan) (Suc k)")
    case True
    then show ?thesis by (auto simp: pure_probe_def fits_def largest_fitting_def)
  next
    case False
    let ?p = "plan\<lparr>serialized_bytes := snd (size_of (Suc k))\<rparr>"
    from False have e: "(\<exists>j. 0 < j \<and> j \<le> Suc k \<and> fits size_of (body_capacity plan) j) \<longleftrightarrow>
        (\<exists>j. 0 < j \<and> j \<le> k \<and> fits size_of (body_capacity plan) j)"
      "\<And>n. largest_fitting size_of (body_capacity plan) (Suc k) n \<longleftrightarrow>
        largest_fitting size_of (body_capacity plan) k n"
      by (auto simp: le_Suc_eq largest_fitting_def)
    have s: "shrink_to_fit (pure_probe size_of) (Suc k) plan c = shrink_to_fit (pure_probe size_of) k ?p c"
      using False Suc.prems by (auto simp: pure_probe_def fits_def)
    have p: "body_capacity ?p = body_capacity plan" "candidate_records ?p = candidate_records plan"
      "selected_records ?p = selected_records plan"
      by simp_all
    have "\<forall>j. 0 < j \<and> j \<le> k \<longrightarrow> fst (size_of j) \<noteq> PM_BACKLOG_PROBE_FAILED" using Suc.prems by simp
    from Suc.IH [OF this, of ?p] show ?thesis unfolding p e s .
  qed
qed

lemma gap_bounds:
  fixes ack earliest :: u64
  assumes "ack \<noteq> - 1" "\<not> earliest \<le> ack + 1"
  shows "{ack + 1..earliest - 1} = {ack<..<earliest}" "ack + 1 \<in> {ack<..<earliest}"
    "unat (earliest - (ack + 1)) = unat earliest - Suc (unat ack)"
proof -
  have a: "unat (ack + 1) = Suc (unat ack)" using assms(1) by (rule unat_Suc_word)
  have "earliest \<noteq> 0" using assms(2) by auto
  then have e: "unat (earliest - 1) = unat earliest - 1" by (rule unat_minus_one)
  have lt: "Suc (unat ack) < unat earliest" using assms(2) a by (simp add: word_le_nat_alt not_le)
  show "{ack + 1..earliest - 1} = {ack<..<earliest}" "ack + 1 \<in> {ack<..<earliest}"
    using a e lt by (auto simp: word_le_nat_alt word_less_nat_alt)
  show "unat (earliest - (ack + 1)) = unat earliest - Suc (unat ack)"
    using lt a unat_sub [of "ack + 1" earliest] by (simp add: word_le_nat_alt)
qed

lemma gap_empty: "ack = - 1 \<or> e \<le> ack + 1 \<Longrightarrow> {ack<..<e} = {}" for ack e :: u64
proof (cases "ack = - 1")
  case True
  then show ?thesis by (auto simp: word_less_nat_alt dest: less_trans)
next
  case False
  moreover assume "ack = - 1 \<or> e \<le> ack + 1"
  ultimately have "e \<le> ack + 1" by simp
  then show ?thesis using unat_Suc_word [OF False] by (auto simp: word_le_nat_alt word_less_nat_alt)
qed

text \<open>
  The upload planner takes exactly the largest number of records, within the available, the
  configured and the hard limit, whose serialization fits the buffer, says so when not even one
  does, and sends nothing when there is nothing. The gap it reports to the server is exactly the
  set of sequence numbers after the server's acknowledgement and before the oldest stored record, and only
  when the inventory of the card is complete.
\<close>

theorem backlog_plan_maximal:
  fixes available configured :: nat
  assumes "0 < hard" "2 \<le> capacity" "\<forall>j > 0. fst (size_of j) \<noteq> PM_BACKLOG_PROBE_FAILED"
  defines "limit \<equiv> min available (min hard (max 1 configured))"
  shows "(case pm_backlog_select_largest_fitting available configured hard capacity (pure_probe size_of) plan0 c of
     (st, plan, _) \<Rightarrow>
       if available = 0 then st = PM_BACKLOG_PLAN_EMPTY \<and> selected_records plan = 0
       else if \<exists>j. 0 < j \<and> j \<le> limit \<and> fits size_of capacity j
       then st = PM_BACKLOG_PLAN_OK \<and> largest_fitting size_of capacity limit (selected_records plan) \<and>
         serialized_bytes plan < capacity \<and> reduced plan = (selected_records plan < limit)
       else st = PM_BACKLOG_PLAN_SINGLE_RECORD_TOO_LARGE \<and> selected_records plan = 0) \<and>
    (case pm_backlog_detect_missing_prefix ack ready complete earliest of
      (PM_MISSING_PREFIX_CONFIRMED, gap) \<Rightarrow> ready \<and> complete \<and>
        {mp_first_sequence gap..mp_last_sequence gap} = {ack<..<earliest} \<and> {ack<..<earliest} \<noteq> {} \<and>
        unat (mp_count gap) = unat earliest - unat ack - 1
    | (PM_MISSING_PREFIX_NOT_CONFIRMED, _) \<Rightarrow> \<not> (ready \<and> complete)
    | (PM_MISSING_PREFIX_NONE, _) \<Rightarrow> earliest \<noteq> 0 \<longrightarrow> {ack<..<earliest} = {})"
proof
  let ?plan = "\<lparr>configured_max_records = configured, available_records = available, candidate_records = limit,
     selected_records = 0, serialized_bytes = 0, body_capacity = capacity, reduced = False\<rparr>"
  have lim: "(if available < pm_backlog_bounded_record_limit configured hard then available
      else pm_backlog_bounded_record_limit configured hard) = limit"
    using assms(1) by (auto simp: limit_def pm_backlog_bounded_record_limit_def)
  have "pm_backlog_select_largest_fitting available configured hard capacity (pure_probe size_of) plan0 c =
      shrink_to_fit (pure_probe size_of) limit ?plan c" if "available \<noteq> 0"
    using assms(1,2) that lim by (simp add: pm_backlog_select_largest_fitting_def Let_def)
  moreover obtain st p c' where r: "shrink_to_fit (pure_probe size_of) limit ?plan c = (st, p, c')"
    by (metis prod.exhaust)
  ultimately show "case pm_backlog_select_largest_fitting available configured hard capacity (pure_probe size_of) plan0 c of
     (st, plan, _) \<Rightarrow>
       if available = 0 then st = PM_BACKLOG_PLAN_EMPTY \<and> selected_records plan = 0
       else if \<exists>j. 0 < j \<and> j \<le> limit \<and> fits size_of capacity j
       then st = PM_BACKLOG_PLAN_OK \<and> largest_fitting size_of capacity limit (selected_records plan) \<and>
         serialized_bytes plan < capacity \<and> reduced plan = (selected_records plan < limit)
       else st = PM_BACKLOG_PLAN_SINGLE_RECORD_TOO_LARGE \<and> selected_records plan = 0"
    using assms(1-3) shrink_to_fit_pure [of limit size_of c ?plan]
    by (cases "available = 0")
      (auto simp: pm_backlog_select_largest_fitting_def largest_fitting_def fits_def split: if_splits)
next
  show "case pm_backlog_detect_missing_prefix ack ready complete earliest of
      (PM_MISSING_PREFIX_CONFIRMED, gap) \<Rightarrow> ready \<and> complete \<and>
        {mp_first_sequence gap..mp_last_sequence gap} = {ack<..<earliest} \<and> {ack<..<earliest} \<noteq> {} \<and>
        unat (mp_count gap) = unat earliest - unat ack - 1
    | (PM_MISSING_PREFIX_NOT_CONFIRMED, _) \<Rightarrow> \<not> (ready \<and> complete)
    | (PM_MISSING_PREFIX_NONE, _) \<Rightarrow> earliest \<noteq> 0 \<longrightarrow> {ack<..<earliest} = {}"
    using gap_bounds [of ack earliest] gap_empty [of ack earliest]
    by (auto simp: pm_backlog_detect_missing_prefix_def Let_def)
qed

theorem backlog_plan_maximal_witness:
  "case pm_backlog_select_largest_fitting 5 16 16 100 (pure_probe (\<lambda>k. (PM_BACKLOG_PROBE_OK, 30 * k))) undefined () of
     (st, plan, _) \<Rightarrow> st = PM_BACKLOG_PLAN_OK \<and> selected_records plan = 3 \<and> reduced plan"
proof -
  have "largest_fitting (\<lambda>k. (PM_BACKLOG_PROBE_OK, 30 * k)) 100 5 k \<longleftrightarrow> k = 3" for k
  proof -
    have "\<not> (\<forall>j. k < j \<and> j \<le> 5 \<longrightarrow> \<not> 30 * j < (100::nat))" if "k < 3"
      using that by (intro notI) (drule spec [of _ 3], simp)
    then show ?thesis by (auto simp: largest_fitting_def fits_def)
  qed
  moreover have "\<exists>j. 0 < j \<and> j \<le> 5 \<and> fits (\<lambda>k. (PM_BACKLOG_PROBE_OK, 30 * k)) 100 j"
    by (rule exI [of _ 3]) (simp add: fits_def)
  moreover have "min 5 (min 16 (max 1 16)) = (5 :: nat)" by simp
  ultimately show ?thesis
    using backlog_plan_maximal [of 16 100 "\<lambda>k. (PM_BACKLOG_PROBE_OK, 30 * k)" 5 16 undefined "()",
        THEN conjunct1]
    by (simp only: if_True if_False) (simp split: prod.splits)
qed

end
