(* ===== verification/PM_Upload.thy ===== *)
theory PM_Upload
  imports PM_Network_Task PM_Storage PM_Sequence PM_Backlog
begin

text \<open>
  The part of components/pm_network/pm_network.c, the network component of the SD-card build, that uploads the journal: the schedule of
  heartbeats and uploads, the documents for a batch of records and for a range of lost ones, \<open>send_backlog\<close>, \<open>send_permanent_loss\<close> and the branch
  of the task that calls them. It composes the storage task, the sequence state, the batch planner and the authenticated
  request.

  The functions this file shares with pm_network_v2.c (credentials, \<open>signed_request\<close>, timestamps, error classes) are those of \<open>PM_Network\<close> and
  \<open>PM_Rfc3339\<close>; where the bodies differ the definition below says so. The endpoints, the size of the buffer for measuring and the
  conversion of a double outside the range of \<open>uint64_t\<close> are not defined by the sources, so they are parameters in \<open>upload_platform\<close>.
\<close>

subsection \<open>The schedule\<close>

record journal_scheduler =
  next_heartbeat_us :: int
  heartbeat_period_us :: int
  last_heartbeat_us :: int
  consecutive_missed :: u32
  js_request_in_progress :: bool
  adaptive_batch_records :: u32
  next_backlog_attempt_us :: int
  backlog_retry_attempt :: u32

definition journal_scheduler_init :: "int \<Rightarrow> u32 \<Rightarrow> journal_scheduler" where
  "journal_scheduler_init now_us heartbeat_seconds =
     \<lparr>next_heartbeat_us = now_us, heartbeat_period_us = uint heartbeat_seconds * 1000000, last_heartbeat_us = 0, consecutive_missed = 0,
      js_request_in_progress = False, adaptive_batch_records = of_nat PM_STORAGE_BATCH_MAX, next_backlog_attempt_us = 0,
      backlog_retry_attempt = 0\<rparr>"

definition pm_network_heartbeat_due :: "journal_scheduler \<Rightarrow> int \<Rightarrow> bool" where
  "pm_network_heartbeat_due s now_us \<longleftrightarrow> now_us \<ge> next_heartbeat_us s"

definition pm_network_backlog_allowed :: "journal_scheduler \<Rightarrow> int \<Rightarrow> int \<Rightarrow> bool" where
  "pm_network_backlog_allowed s now_us worst_case_request_us \<longleftrightarrow> \<not> js_request_in_progress s \<and>
     now_us \<ge> next_backlog_attempt_us s \<and> now_us + worst_case_request_us < next_heartbeat_us s"

text \<open>The loop does not end when the period is zero and the deadline has passed.\<close>

partial_function (option) next_deadline :: "int \<Rightarrow> int \<Rightarrow> int \<Rightarrow> int option" where
  "next_deadline period now_us deadline =
     (if deadline + period \<le> now_us then next_deadline period now_us (deadline + period) else Some (deadline + period))"

definition pm_network_heartbeat_complete :: "journal_scheduler \<Rightarrow> int \<Rightarrow> bool \<Rightarrow> journal_scheduler option" where
  "pm_network_heartbeat_complete s now_us success =
     (let s1 = s\<lparr>js_request_in_progress := False\<rparr>;
          s2 = (if success then s1\<lparr>last_heartbeat_us := now_us, consecutive_missed := 0\<rparr>
                else s1\<lparr>consecutive_missed := consecutive_missed s1 + 1\<rparr>)
      in map_option (\<lambda>d. s2\<lparr>next_heartbeat_us := d\<rparr>) (next_deadline (heartbeat_period_us s) now_us (next_heartbeat_us s)))"

definition journal_reconnect_delay_ms :: "u32 \<Rightarrow> u32 \<Rightarrow> u32" where
  "journal_reconnect_delay_ms attempt random_value =
     (let bounded_attempt = (if attempt > 6 then 6 else attempt);
          base = push_bit (unat bounded_attempt) (1000 :: u32);
          capped = (if base > 60000 then 60000 else base)
      in capped - capped div 8 + random_value mod (capped div 4 + 1))"

definition backlog_work_complete :: "journal_scheduler \<Rightarrow> int \<Rightarrow> u32 \<Rightarrow> esp_err \<Rightarrow> journal_scheduler" where
  "backlog_work_complete s now_us random_value e =
     (if e = ESP_OK then s\<lparr>backlog_retry_attempt := 0, next_backlog_attempt_us := now_us\<rparr>
      else if e = ESP_ERR_NOT_FOUND then s\<lparr>backlog_retry_attempt := 0, next_backlog_attempt_us := now_us + 1000000\<rparr>
      else let delay_ms = journal_reconnect_delay_ms (backlog_retry_attempt s) random_value
        in s\<lparr>backlog_retry_attempt := backlog_retry_attempt s + 1, next_backlog_attempt_us := now_us + uint delay_ms * 1000\<rparr>)"

subsection \<open>The document of a batch\<close>

definition json_add_i64 :: "int \<Rightarrow> json" where
  "json_add_i64 v = JRaw (show_int v)"

definition interval_flag_names :: "(u32 \<times> string) list" where
  "interval_flag_names =
     [(PM_INTERVAL_FLAG_TIME_UNTRUSTED, ''time_untrusted''), (PM_INTERVAL_FLAG_MISSING_SAMPLE, ''missing_sample''),
      (PM_INTERVAL_FLAG_PZEM_RESET, ''pzem_reset''), (PM_INTERVAL_FLAG_PZEM_ROLLOVER, ''pzem_rollover''),
      (PM_INTERVAL_FLAG_IMPLAUSIBLE_JUMP, ''implausible_jump''), (PM_INTERVAL_FLAG_CT_WARNING_80, ''ct_warning_80''),
      (PM_INTERVAL_FLAG_CT_CRITICAL_90, ''ct_critical_90''), (PM_INTERVAL_FLAG_SIMULATED, ''simulated'')]"

definition add_interval_flags :: "u32 \<Rightarrow> json" where
  "add_interval_flags flags = JArray (map (\<lambda>(b, name). JString name) (filter (\<lambda>(b, name). flags AND b \<noteq> 0) interval_flag_names))"

definition record_reportable :: "u64 \<Rightarrow> pm_journal_record \<Rightarrow> bool" where
  "record_reportable previous_sequence r \<longleftrightarrow> (let iv = interval r in
     rec_sequence r \<noteq> 0 \<and> rec_sequence r > previous_sequence \<and> iv_expected_samples iv \<noteq> 0 \<and> iv_expected_samples iv \<le> 3600 \<and>
     sample_count iv \<le> 3600 \<and> end_monotonic_us iv \<ge> start_monotonic_us iv \<and>
     selected_energy_source iv \<noteq> PM_ENERGY_POWER_DIAGNOSTIC \<and> iv_voltage_mv iv \<ge> 0 \<and> iv_current_ma iv \<ge> 0 \<and>
     iv_active_power_mw iv \<ge> 0 \<and> iv_frequency_mhz iv \<ge> 40000 \<and> iv_frequency_mhz iv \<le> 70000 \<and> iv_power_factor_milli iv \<ge> 0 \<and>
     iv_power_factor_milli iv \<le> 1000)"

definition interval_time_trusted :: "pm_durable_interval \<Rightarrow> bool" where
  "interval_time_trusted iv \<longleftrightarrow> iv_flags iv AND PM_INTERVAL_FLAG_TIME_UNTRUSTED = 0 \<and> start_utc_ms iv \<ge> 1704067200000 \<and>
     end_utc_ms iv > start_utc_ms iv"

text \<open>\<open>ends\<close> are the texts of a trusted interval's ends; \<open>crc\<close> is the checksum in the record's stored bytes.\<close>

definition reading_item :: "pm_journal_record \<Rightarrow> (string \<times> string) option \<Rightarrow> u32 \<Rightarrow> json" where
  "reading_item r ends crc =
     (let iv = interval r; selected = (selected_energy_source iv = PM_ENERGY_PZEM_DELTA) in JObject
       [(''sequence'', json_add_u64 (rec_sequence r)), (''reset_generation'', JNumber (uint (rec_reset_generation r))),
        (''interval_start_utc'', case ends of Some (start, _) \<Rightarrow> JString start | None \<Rightarrow> JNull),
        (''interval_end_utc'', case ends of Some (_, stop) \<Rightarrow> JString stop | None \<Rightarrow> JNull),
        (''monotonic_start_us'', json_add_i64 (start_monotonic_us iv)), (''monotonic_end_us'', json_add_i64 (end_monotonic_us iv)),
        (''sample_count'', JNumber (uint (sample_count iv))), (''expected_sample_count'', JNumber (uint (iv_expected_samples iv))),
        (''voltage_mv'', JNumber (iv_voltage_mv iv)), (''current_ma'', JNumber (iv_current_ma iv)),
        (''active_power_mw'', JNumber (iv_active_power_mw iv)), (''frequency_mhz'', JNumber (iv_frequency_mhz iv)),
        (''power_factor_milli'', JNumber (iv_power_factor_milli iv)), (''pzem_energy_wh'', json_add_u64 (pzem_energy_end_wh iv)),
        (''interval_energy_mwh'', if selected then json_add_u64 (selected_energy_mwh iv) else JNull),
        (''energy_selection'', JString (if selected then ''pzem_delta''
           else if iv_flags iv AND PM_INTERVAL_FLAG_PZEM_RESET \<noteq> 0 then ''unavailable_reset'' else ''unavailable_invalid'')),
        (''pzem_status'', JString ''ok''), (''time_trusted'', JBool (interval_time_trusted iv)),
        (''flags'', add_interval_flags (iv_flags iv)), (''record_crc32'', json_add_u64 (ucast crc))])"

definition interval_times :: "pm_durable_interval \<Rightarrow> (string \<times> string) option" where
  "interval_times iv = Option.bind (format_rfc3339_ms (start_utc_ms iv)) (\<lambda>s. map_option (\<lambda>t. (s, t)) (format_rfc3339_ms (end_utc_ms iv)))"

text \<open>The loop over the records.\<close>

fun reading_items :: "bool \<Rightarrow> u64 \<Rightarrow> pm_journal_record list \<Rightarrow> esp_err + json list" where
  "reading_items alloc previous_sequence [] = Inr []"
| "reading_items alloc previous_sequence (r # rs) =
     (if \<not> record_reportable previous_sequence r then Inl ESP_ERR_INVALID_STATE
      else if interval_time_trusted (interval r) \<and> interval_times (interval r) = None then Inl ESP_ERR_INVALID_STATE
      else if \<not> alloc then Inl ESP_ERR_NO_MEM
      else case pm_journal_encode_record r PM_JOURNAL_RECORD_SIZE of
        None \<Rightarrow> Inl ESP_ERR_INVALID_CRC
      | Some encoded \<Rightarrow>
          let ends = (if interval_time_trusted (interval r) then interval_times (interval r) else None) in
          (case reading_items alloc (rec_sequence r) rs of
             Inl e \<Rightarrow> Inl e
           | Inr items \<Rightarrow> Inr (reading_item r ends (get_u32 124 encoded) # items)))"

definition reading_document :: "json list \<Rightarrow> json" where
  "reading_document items = JObject [(''protocol_id'', JString PM_PROTOCOL_ID), (''records'', JArray items)]"

definition render_json :: "(json \<Rightarrow> nat \<Rightarrow> string option) \<Rightarrow> json \<Rightarrow> nat \<Rightarrow> esp_err + string" where
  "render_json print doc body_size =
     (if body_size < 3 then Inl ESP_ERR_INVALID_SIZE
      else case print doc body_size of None \<Rightarrow> Inl ESP_ERR_INVALID_SIZE | Some body \<Rightarrow> Inr body)"

definition pm_network_serialize_reading_batch ::
    "(json \<Rightarrow> nat \<Rightarrow> string option) \<Rightarrow> bool \<Rightarrow> pm_journal_record list \<Rightarrow> nat \<Rightarrow> esp_err + string" where
  "pm_network_serialize_reading_batch print alloc rs body_size =
     (if rs = [] \<or> length rs > PM_STORAGE_BATCH_MAX then Inl ESP_ERR_INVALID_ARG
      else if \<not> alloc then Inl ESP_ERR_NO_MEM
      else case reading_items alloc 0 rs of
        Inl e \<Rightarrow> Inl e
      | Inr items \<Rightarrow> render_json print (reading_document items) body_size)"

subsection \<open>The document of a lost range\<close>

definition loss_reason :: "pm_storage_health \<Rightarrow> string" where
  "loss_reason h = (if corrupt_records h \<noteq> 0 \<or> quarantined_segments h \<noteq> 0 then ''segment_corrupt'' else ''storage_failure'')"

definition loss_evidence :: "pm_storage_health \<Rightarrow> string" where
  "loss_evidence h = join_with newline [PM_PROTOCOL_ID, dec (unat (unavailable_first h)), dec (unat (unavailable_last h)), loss_reason h,
     pm_hex_lower (sh_card_id h), dec (unat (corrupt_records h)), dec (unat (quarantined_segments h))]"

definition loss_document :: "psa_hash \<Rightarrow> pm_storage_health \<Rightarrow> json" where
  "loss_document psa h = JObject [(''protocol_id'', JString PM_PROTOCOL_ID), (''ranges'', JArray [JObject
     [(''first_sequence'', json_add_u64 (unavailable_first h)), (''last_sequence'', json_add_u64 (unavailable_last h)),
      (''reason_code'', JString (loss_reason h)),
      (''evidence_sha256'', JString (pm_hex_lower (pm_sha256 psa (chars_bytes (loss_evidence h)))))]])]"

definition pm_network_serialize_permanent_loss ::
    "(json \<Rightarrow> nat \<Rightarrow> string option) \<Rightarrow> bool \<Rightarrow> psa_hash \<Rightarrow> pm_storage_health \<Rightarrow> nat \<Rightarrow> esp_err + string" where
  "pm_network_serialize_permanent_loss print alloc psa h body_size =
     (if unavailable_first h = 0 \<or> unavailable_last h < unavailable_first h then Inl ESP_ERR_INVALID_ARG
      else if length (loss_evidence h) \<ge> 256 then Inl ESP_ERR_INVALID_SIZE
      else if \<not> alloc then Inl ESP_ERR_NO_MEM
      else render_json print (loss_document psa h) body_size)"

subsection \<open>Uploading\<close>

record 'j upload_platform =
  jp_reader :: "'j cjson_reader"
  jp_print :: "json \<Rightarrow> nat \<Rightarrow> string option"
  jp_alloc :: bool
  jp_psa :: psa_hash
  jp_b64enc :: "u8 list \<Rightarrow> string option"
  jp_b64dec :: "string \<Rightarrow> u8 list option"
  jp_mutex :: "bool option"
  jp_readings_endpoint :: string
  jp_loss_endpoint :: string
  jp_measure_max :: nat
  jp_out_of_range :: "rat \<Rightarrow> u64"

text \<open>The context of the network task, with the storage task it is a client of; the health record is shared with that task.\<close>

record uploader =
  ul_network :: pm_network_context
  ul_sequence :: pm_sequence_state
  ul_store :: "sequence_slot nvs"
  ul_storage :: storage_system
  loss_reported_through :: u64

abbreviation ul_health :: "uploader \<Rightarrow> pm_storage_health" where
  "ul_health u \<equiv> st_health (sy_storage (ul_storage u))"

definition set_acknowledged :: "u64 \<Rightarrow> uploader \<Rightarrow> uploader" where
  "set_acknowledged ack u = u\<lparr>ul_storage := (ul_storage u)\<lparr>sy_storage := (sy_storage (ul_storage u))\<lparr>st_health :=
     (ul_health u)\<lparr>sh_acknowledged := ack\<rparr>\<rparr>\<rparr>\<rparr>"

text \<open>\<open>signed_request\<close> of this file: a long body is another error, and no body is written when it is empty.\<close>

definition journal_request ::
    "'j upload_platform \<Rightarrow> net_peer \<Rightarrow> string \<Rightarrow> string \<Rightarrow> uploader \<Rightarrow> esp_err \<times> string \<times> http_request option \<times> uploader" where
  "journal_request p peer path body u =
     (if length (cstr body) > PM_NETWORK_BODY_MAX then (ESP_ERR_INVALID_SIZE, [], None, u)
      else case signed_request (jp_psa p) (jp_b64enc p) (jp_b64dec p) (jp_mutex p)
             (if cstr body = [] then peer\<lparr>np_written := 0\<rparr> else peer) path body PM_NETWORK_RESPONSE_MAX 0 (ul_network u) of
        (e, _, used, rq, ctx) \<Rightarrow> (e, bytes_chars used, rq, u\<lparr>ul_network := ctx\<rparr>))"

definition u64_of_double :: "(rat \<Rightarrow> u64) \<Rightarrow> rat \<Rightarrow> u64" where
  "u64_of_double out_of_range d = (if d < 2 ^ 64 then word_of_int \<lfloor>d\<rfloor> else out_of_range d)"

text \<open>The acknowledgement in an answer; \<open>counted\<close> asks for the member \<open>accepted\<close> too.\<close>

definition answer_acknowledgement :: "'j upload_platform \<Rightarrow> bool \<Rightarrow> string \<Rightarrow> u64 option" where
  "answer_acknowledgement p counted response =
     (let J = jp_reader p;
          doc = cJSON_Parse (reader J) (cstr response);
          non_negative = (\<lambda>name. case json_number J (json_item J doc name) of Some d \<Rightarrow> d \<ge> 0 | None \<Rightarrow> False)
      in if json_string J (json_item J doc ''protocol_id'') = Some PM_PROTOCOL_ID \<and>
            Option.bind (json_string J (json_item J doc ''server_time'')) pm_network_parse_rfc3339_ms \<noteq> None \<and>
            (counted \<longrightarrow> non_negative ''accepted'') \<and> non_negative ''highest_contiguous_sequence'' \<and>
            json_is (cJSON_IsArray J) (json_item J doc ''gaps'')
         then map_option (u64_of_double (jp_out_of_range p)) (json_number J (json_item J doc ''highest_contiguous_sequence''))
         else None)"

definition store_acknowledgement :: "u64 \<Rightarrow> uploader \<Rightarrow> esp_err \<times> uploader" where
  "store_acknowledgement ack u = (case pm_sequence_acknowledge (ul_sequence u) ack (ul_store u) of (e, s, n) \<Rightarrow>
     let u1 = u\<lparr>ul_sequence := s, ul_store := n\<rparr> in (e, if e = ESP_OK then set_acknowledged ack u1 else u1))"

text \<open>The state behind the planner's probe: the measured text and the error of the last serialization.\<close>

record upload_probe =
  pr_measure :: string
  serialization_error :: esp_err

definition probe_reading_batch :: "'j upload_platform \<Rightarrow> pm_storage_batch \<Rightarrow> upload_probe probe_fn" where
  "probe_reading_batch p batch record_count c =
     (if record_count = 0 \<or> record_count > length (records batch) then (PM_BACKLOG_PROBE_FAILED, 0, c)
      else let capacity = jp_measure_max p + 1 in
        case pm_network_serialize_reading_batch (jp_print p) (jp_alloc p) (take record_count (records batch)) capacity of
          Inl e \<Rightarrow> if e = ESP_ERR_INVALID_SIZE then (PM_BACKLOG_PROBE_TOO_LARGE, capacity, c\<lparr>pr_measure := [], serialization_error := e\<rparr>)
                   else (PM_BACKLOG_PROBE_FAILED, 0, c\<lparr>pr_measure := [], serialization_error := e\<rparr>)
        | Inr body \<Rightarrow>
            let bytes = length (cstr body) in
            if bytes \<ge> capacity then (PM_BACKLOG_PROBE_TOO_LARGE, bytes, \<lparr>pr_measure = cstr body, serialization_error = ESP_ERR_INVALID_SIZE\<rparr>)
            else (PM_BACKLOG_PROBE_OK, bytes, \<lparr>pr_measure = cstr body, serialization_error = ESP_OK\<rparr>))"

definition backlog_plan ::
    "'j upload_platform \<Rightarrow> pm_storage_batch \<Rightarrow> journal_scheduler \<Rightarrow> pm_backlog_plan_status \<times> pm_backlog_plan \<times> upload_probe" where
  "backlog_plan p batch s =
     pm_backlog_select_largest_fitting (length (records batch)) (unat (adaptive_batch_records s)) PM_STORAGE_BATCH_MAX (PM_NETWORK_BODY_MAX + 1)
       (probe_reading_batch p batch)
       \<lparr>configured_max_records = 0, available_records = 0, candidate_records = 0, selected_records = 0, serialized_bytes = 0,
        body_capacity = 0, reduced = False\<rparr> \<lparr>pr_measure = [], serialization_error = ESP_OK\<rparr>"

text \<open>What the storage task does while the client sends and waits.\<close>

type_synonym storage_run = "(storage_env \<times> fat_format) list \<times> (storage_env \<times> fat_format) list"

text \<open>The result, the request if one was sent, the schedule and the context.\<close>

definition send_backlog ::
    "'j upload_platform \<Rightarrow> net_peer \<Rightarrow> storage_run \<Rightarrow> journal_scheduler \<Rightarrow> uploader \<Rightarrow>
      esp_err \<times> http_request option \<times> journal_scheduler \<times> uploader" where
  "send_backlog p peer run s u =
     (case pm_storage_read_batch (fst run) (snd run) (acknowledged (ul_sequence u)) (ul_storage u) of (e0, sys) \<Rightarrow>
        let u1 = u\<lparr>ul_storage := sys\<rparr>; batch = sy_batch sys in
        if e0 \<noteq> ESP_OK then (e0, None, s, u1)
        else if records batch = [] then (ESP_ERR_NOT_FOUND, None, s, u1)
        else let s1 = s\<lparr>adaptive_batch_records :=
                   of_nat (pm_backlog_bounded_record_limit (unat (adaptive_batch_records s)) PM_STORAGE_BATCH_MAX)\<rparr> in
          case backlog_plan p batch s1 of (plan_status, plan, c) \<Rightarrow>
            if plan_status = PM_BACKLOG_PLAN_SINGLE_RECORD_TOO_LARGE then (ESP_ERR_INVALID_SIZE, None, s1, u1)
            else if plan_status \<noteq> PM_BACKLOG_PLAN_OK
            then (if serialization_error c = ESP_OK then ESP_FAIL else serialization_error c, None, s1, u1)
            else if serialized_bytes plan > PM_NETWORK_BODY_MAX then (ESP_ERR_INVALID_SIZE, None, s1, u1)
            else case journal_request p peer (jp_readings_endpoint p) (take (serialized_bytes plan) (pr_measure c)) u1 of (e, response, rq, u2) \<Rightarrow>
              if e \<noteq> ESP_OK then (e, rq, s1, u2)
              else case answer_acknowledgement p False response of
                None \<Rightarrow> (ESP_ERR_INVALID_RESPONSE, rq, s1, u2)
              | Some ack \<Rightarrow> (case store_acknowledgement ack u2 of (e2, u3) \<Rightarrow> (e2, rq, s1, u3)))"

definition possible_loss :: "uploader \<Rightarrow> bool" where
  "possible_loss u \<longleftrightarrow> (let h = ul_health u; ack = acknowledged (ul_sequence u) in
     ack \<noteq> - 1 \<and> oldest_sequence h > ack + 1 \<or> unavailable_first h \<noteq> 0 \<and> unavailable_last h > loss_reported_through u \<or>
     \<not> inventory_complete h)"

text \<open>From the detection of a missing prefix to the check that there is something new to report.\<close>

definition loss_report :: "uploader \<Rightarrow> esp_err + pm_storage_health" where
  "loss_report u = (let h = ul_health u;
       readable = (sh_status h = PM_STORAGE_READY \<or> sh_status h = PM_STORAGE_FULL \<or> sh_status h = PM_STORAGE_READ_ONLY) in
     case pm_backlog_detect_missing_prefix (acknowledged (ul_sequence u)) readable (inventory_complete h) (oldest_sequence h) of (st, prefix) \<Rightarrow>
       if st = PM_MISSING_PREFIX_NOT_CONFIRMED then Inl ESP_ERR_INVALID_STATE
       else if st \<noteq> PM_MISSING_PREFIX_CONFIRMED \<and> \<not> inventory_complete h then Inl ESP_ERR_INVALID_STATE
       else let lost = (if st = PM_MISSING_PREFIX_CONFIRMED
                  then h\<lparr>unavailable_first := mp_first_sequence prefix, unavailable_last := mp_last_sequence prefix\<rparr> else h)
         in if unavailable_first lost = 0 \<or> unavailable_last lost \<le> loss_reported_through u then Inl ESP_ERR_NOT_FOUND else Inr lost)"

definition send_permanent_loss ::
    "'j upload_platform \<Rightarrow> net_peer \<Rightarrow> storage_run \<Rightarrow> uploader \<Rightarrow> esp_err \<times> http_request option \<times> uploader" where
  "send_permanent_loss p peer run u =
     (case (if possible_loss u then pm_storage_refresh_inventory (fst run) (snd run) (ul_storage u) else (ESP_OK, ul_storage u)) of (e0, sys) \<Rightarrow>
        let u1 = u\<lparr>ul_storage := sys\<rparr> in
        if e0 \<noteq> ESP_OK then (ESP_ERR_INVALID_STATE, None, u1)
        else case loss_report u1 of
          Inl e \<Rightarrow> (e, None, u1)
        | Inr lost \<Rightarrow>
          (case pm_network_serialize_permanent_loss (jp_print p) (jp_alloc p) (jp_psa p) lost (PM_NETWORK_BODY_MAX + 1) of
             Inl e \<Rightarrow> (e, None, u1)
           | Inr body \<Rightarrow>
             (case journal_request p peer (jp_loss_endpoint p) body u1 of (e, response, rq, u2) \<Rightarrow>
                if e \<noteq> ESP_OK then (e, rq, u2)
                else case answer_acknowledgement p True response of
                  None \<Rightarrow> (ESP_ERR_INVALID_RESPONSE, rq, u2)
                | Some ack \<Rightarrow>
                    if ack < unavailable_last lost then (ESP_ERR_INVALID_RESPONSE, rq, u2)
                    else (case store_acknowledgement ack u2 of (e2, u3) \<Rightarrow>
                      (e2, rq, if e2 = ESP_OK then u3\<lparr>loss_reported_through := unavailable_last lost\<rparr> else u3)))))"

text \<open>
  The branch of the task's loop that works on the backlog: the result, the requests it sent, the schedule and the context. The clock is read
  when the work is done.
\<close>

record upload_env =
  uv_loss_peer :: net_peer
  uv_loss_run :: storage_run
  uv_backlog_peer :: net_peer
  uv_backlog_run :: storage_run
  uv_done_at :: int
  uv_random :: u32

definition backlog_work ::
    "'j upload_platform \<Rightarrow> upload_env \<Rightarrow> journal_scheduler \<times> uploader \<Rightarrow> http_request list \<times> journal_scheduler \<times> uploader" where
  "backlog_work p env = (\<lambda>(s0, u0).
     let s = s0\<lparr>js_request_in_progress := True\<rparr> in
     case send_permanent_loss p (uv_loss_peer env) (uv_loss_run env) u0 of (e1, rq1, u1) \<Rightarrow>
     case (if e1 = ESP_ERR_NOT_FOUND then send_backlog p (uv_backlog_peer env) (uv_backlog_run env) s u1 else (e1, None, s, u1)) of (e2, rq2, s2, u2) \<Rightarrow>
       ((case rq1 of Some q \<Rightarrow> [q] | None \<Rightarrow> []) @ (case rq2 of Some q \<Rightarrow> [q] | None \<Rightarrow> []),
        (backlog_work_complete s2 (uv_done_at env) (uv_random env) e2)\<lparr>js_request_in_progress := False\<rparr>, u2))"

end
