(* ===== verification/PM_Storage_Safety.thy ===== *)
theory PM_Storage_Safety
  imports PM_Storage
begin

text \<open>
  What the journal on the card guarantees: which batches a reader gets, from arbitrary contents and from a sound journal, what survives a
  write that was cut off, which files may be deleted, and three behaviours that lose service or records.
\<close>

subsection \<open>Batches from arbitrary contents\<close>

lemma in_range_sint [simp]: "in_i64 (sint (w :: u64))" "in_i32 (sint (w32 :: u32))"
  using sint_range_size [of w] sint_range_size [of w32]
  by (simp_all add: in_i64_def in_i32_def word_size)

lemma above_two: "w \<noteq> 0 \<Longrightarrow> w \<noteq> 1 \<Longrightarrow> w \<noteq> 2 \<Longrightarrow> 2 < w" for w :: u16
proof -
  assume "w \<noteq> 0" "w \<noteq> 1" "w \<noteq> 2"
  then have "unat w \<noteq> 0" "unat w \<noteq> 1" "unat w \<noteq> 2" by (simp_all add: word_unat_eq_iff)
  then show ?thesis by (simp add: word_less_nat_alt)
qed

lemma decode_record_wf: "pm_journal_decode_record data = Some r \<Longrightarrow> record_wf r"
  by (auto simp: pm_journal_decode_record_def Let_def record_wf_def decoded_record_def PM_JOURNAL_RECORD_SIZE_def energy_source_of_def
      above_two split: if_splits)

definition batch_ok :: "u8 list \<Rightarrow> u64 \<Rightarrow> pm_storage_batch \<Rightarrow> bool" where
  "batch_ok dev cursor b \<longleftrightarrow> after_sequence b = cursor \<and> length (records b) \<le> PM_STORAGE_BATCH_MAX \<and>
     sorted_wrt (<) (map rec_sequence (records b)) \<and>
     (\<forall>r \<in> set (records b). record_wf r \<and> rec_device_id r = dev \<and> rec_sequence r > cursor)"

lemma record_at_wf: "record_at dev f offset = Some r \<Longrightarrow> record_wf r \<and> rec_device_id r = dev"
  by (auto simp: record_at_def decode_record_wf split: option.splits if_splits)

text \<open>Insertion at the position found keeps the list sorted.\<close>

lemma sorted_insert_at:
  fixes x :: "'a :: linorder"
  assumes "sorted_wrt (<) xs" "i = length (takeWhile (\<lambda>y. y < x) xs)" "i < length xs \<Longrightarrow> xs ! i \<noteq> x"
  shows "sorted_wrt (<) (insert_at i x xs)"
proof -
  have lt: "\<forall>y \<in> set (take i xs). y < x"
    using assms(2) by (auto simp: takeWhile_eq_take [symmetric] dest: set_takeWhileD)
  have ge: "\<forall>y \<in> set (drop i xs). x < y"
  proof (cases "i < length xs")
    case True
    then have "\<not> xs ! i < x" using assms(2) nth_length_takeWhile [of "\<lambda>y. y < x" xs] by simp
    then have "x < xs ! i" using assms(3) [OF True] by auto
    moreover have "sorted_wrt (<) (drop i xs)" using assms(1) by (rule sorted_wrt_drop)
    ultimately show ?thesis using True by (auto simp: Cons_nth_drop_Suc [symmetric])
  qed simp
  have "sorted_wrt (<) (take i xs)" "sorted_wrt (<) (drop i xs)" using assms(1) by (simp_all add: sorted_wrt_take sorted_wrt_drop)
  with lt ge show ?thesis by (fastforce simp: insert_at_def sorted_wrt_append)
qed

lemma map_insert_at: "map g (insert_at i x xs) = insert_at i (g x) (map g xs)"
  by (simp add: insert_at_def take_map drop_map)

lemma length_insert_at [simp]: "i \<le> length xs \<Longrightarrow> length (insert_at i x xs) = Suc (length xs)"
  by (simp add: insert_at_def)

lemma set_insert_at: "set (insert_at i x xs) = insert x (set xs)"
  unfolding insert_at_def using set_append [of "take i xs" "drop i xs"] by (simp del: set_append) auto

lemma batch_position_map:
  "batch_position b r = length (takeWhile (\<lambda>y. y < rec_sequence r) (map rec_sequence (records b)))"
  by (simp add: batch_position_def takeWhile_map comp_def)

lemma batch_position_le: "batch_position b r \<le> length (records b)"
  by (simp add: batch_position_def length_takeWhile_le)

lemma insert_sorted_ok:
  assumes "batch_ok dev cursor b" "record_wf r" "rec_device_id r = dev"
  shows "batch_ok dev cursor (insert_sorted b r)"
proof -
  let ?i = "batch_position b r" and ?xs = "map rec_sequence (records b)"
  have b: "after_sequence b = cursor" "length (records b) \<le> 16" "sorted_wrt (<) ?xs"
    "\<forall>r \<in> set (records b). record_wf r \<and> rec_device_id r = dev \<and> rec_sequence r > cursor"
    using assms(1) by (simp_all add: batch_ok_def PM_STORAGE_BATCH_MAX_def)
  have ins: "sorted_wrt (<) (insert_at ?i (rec_sequence r) ?xs)" if "?i < length (records b) \<longrightarrow> rec_sequence (records b ! ?i) \<noteq> rec_sequence r"
    using sorted_insert_at [OF b(3) batch_position_map [of b r]] that by simp
  show ?thesis unfolding insert_sorted_def Let_def
    using b assms(2,3) ins batch_position_le [of b r]
    by (auto simp: batch_ok_def PM_STORAGE_BATCH_MAX_def map_insert_at set_insert_at not_le take_map [symmetric] sorted_wrt_take
        dest!: in_set_takeD)
qed


abbreviation scan_read :: "sd_file \<Rightarrow> nat \<Rightarrow> scan \<Rightarrow> scan" where
  "scan_read f offset a \<equiv> a\<lparr>sc_error := (sc_error a \<or> read_error f offset PM_JOURNAL_RECORD_SIZE)\<rparr>"

lemma scan_records_end:
  "offset + PM_JOURNAL_RECORD_SIZE > endp \<Longrightarrow> scan_records dev f offset endp expected a =
     (if sc_error a then (ESP_FAIL, a)
      else if offset \<noteq> endp then (ESP_ERR_INVALID_SIZE, a\<lparr>sc_corrupt := True\<rparr>) else (ESP_OK, a))"
  by (simp only: scan_records.simps [of dev f offset] if_True)

lemma scan_records_step:
  "\<not> offset + PM_JOURNAL_RECORD_SIZE > endp \<Longrightarrow> in_order_record dev f offset expected = Some r \<Longrightarrow>
     scan_records dev f offset endp expected a =
     scan_records dev f (offset + PM_JOURNAL_RECORD_SIZE) endp (next_expected (rec_sequence r)) (take_record expected r (scan_read f offset a))"
  by (simp only: scan_records.simps [of dev f offset endp expected] if_False option.case Let_def)

lemma scan_records_resync:
  "\<not> offset + PM_JOURNAL_RECORD_SIZE > endp \<Longrightarrow> in_order_record dev f offset expected = None \<Longrightarrow>
     scan_records dev f offset endp expected a =
     (case next_valid_record dev f (Suc offset) endp (sc_error (scan_read f offset a)) of
        (None, err) \<Rightarrow> (ESP_ERR_INVALID_CRC, (note_corrupt (scan_read f offset a))\<lparr>sc_error := err\<rparr>)
      | (Some (off', r'), err) \<Rightarrow> scan_records dev f off' endp expected
          (on_health (skipped_range expected r') ((note_corrupt (scan_read f offset a))\<lparr>sc_error := err\<rparr>)))"
  by (simp only: scan_records.simps [of dev f offset endp expected] if_False option.case Let_def)

lemma sc_batch_simps [simp]:
  "sc_batch (take_record q r a) = map_option (\<lambda>b. insert_sorted b r) (sc_batch a)"
  "sc_batch (note_corrupt a) = sc_batch a" "sc_batch (on_health g a) = sc_batch a"
  by (simp_all add: take_record_def note_corrupt_def on_health_def Let_def)

text \<open>A scan of any file keeps what \<open>P\<close> says of the batch, if insertion of a record of this device does.\<close>

lemma scan_records_batch:
  assumes "\<And>b r. P b \<Longrightarrow> record_wf r \<Longrightarrow> rec_device_id r = dev \<Longrightarrow> P (insert_sorted b r)"
    and "scan_records dev f offset endp expected a = (e, a')" "sc_batch a = Some b" "P b"
  shows "\<exists>b'. sc_batch a' = Some b' \<and> P b'"
  using assms
proof (induction dev f offset endp expected a arbitrary: b rule: scan_records.induct)
  case (1 dev f offset endp expected a)
  show ?case
  proof (cases "offset + PM_JOURNAL_RECORD_SIZE > endp")
    case True
    then show ?thesis using 1(4-6) by (auto simp: scan_records_end split: if_splits)
  next
    case False
    show ?thesis
    proof (cases "in_order_record dev f offset expected")
      case (Some r)
      then have "record_at dev f offset = Some r" by (auto simp: in_order_record_def split: option.splits if_splits)
      then have "P (insert_sorted b r)" using 1(3) record_at_wf 1(6) by blast
      moreover have "sc_batch (take_record expected r (scan_read f offset a)) = Some (insert_sorted b r)" using 1(5) by simp
      ultimately show ?thesis using 1(2) [OF False refl Some 1(3) 1(4) [unfolded scan_records_step [OF False Some, of a]]] by blast
    next
      case None
      note step = 1(4) [unfolded scan_records_resync [OF False None, of a]]
      obtain found err where n: "next_valid_record dev f (Suc offset) endp (sc_error (scan_read f offset a)) = (found, err)"
        by (metis prod.exhaust)
      show ?thesis
      proof (cases found)
        case None
        then show ?thesis using step 1(5,6) unfolding n by auto
      next
        case found: (Some x)
        obtain off' r' where x: "x = (off', r')" by (metis prod.exhaust)
        have "sc_batch (on_health (skipped_range expected r') ((note_corrupt (scan_read f offset a))\<lparr>sc_error := err\<rparr>)) = Some b"
          using 1(5) by simp
        moreover have "scan_records dev f off' endp expected (on_health (skipped_range expected r')
            ((note_corrupt (scan_read f offset a))\<lparr>sc_error := err\<rparr>)) = (e, a')"
          using step unfolding n found x prod.case option.case .
        ultimately show ?thesis using 1(1) [OF False refl None n [symmetric] found x [symmetric] 1(3)] 1(6) by blast
      qed
    qed
  qed
qed

lemma scan_segment_batch:
  assumes "\<And>b r. P b \<Longrightarrow> record_wf r \<Longrightarrow> rec_device_id r = st_device_id st \<Longrightarrow> P (insert_sorted b r)"
    and "scan_segment st f (Some b) h = (e, a)" "P b"
  shows "P (the (sc_batch a))"
proof (cases "segment_header_of st f")
  case None
  then show ?thesis using assms(2,3) by (auto simp: scan_segment_def Let_def)
next
  case (Some h1)
  then have "scan_records (st_device_id st) f PM_JOURNAL_SEGMENT_HEADER_SIZE (length (contents f)) (first_sequence h1)
      \<lparr>sc_batch = Some b, sc_health = h, sc_corrupt = False, sc_error = False\<rparr> = (e, a)"
    using assms(2) by (simp add: scan_segment_def Let_def)
  then have "\<exists>b'. sc_batch a = Some b' \<and> P b'"
    by (rule scan_records_batch [where P = P and b = b, rotated]) (use assms in \<open>simp_all\<close>)
  then show ?thesis by auto
qed

lemma for_journal_files_inv:
  assumes "\<And>f x e x'. P x \<Longrightarrow> visit f x = (e, x') \<Longrightarrow> P x'" "P x" "for_journal_files visit fs c x = (e, x', c')"
  shows "P x'"
  using assms
  by (induction visit fs c x arbitrary: e x' c' rule: for_journal_files.induct) (fastforce split: prod.splits if_splits)+

text \<open>
  C35. A batch is well formed whatever the card holds. For arbitrary contents of the card, damaged or written by someone else, and
  arbitrary failures while it is read, every record of the batch that \<open>read_batch_owner\<close> fills in has values in the range of its types, belongs to
  this device and lies behind the cursor; there are at most sixteen, in strictly increasing order of sequence.
\<close>

theorem storage_batch_wellformed:
  assumes "storage_readable (st_health st)" "read_batch_owner cursor b0 st = (e, b, st')"
  shows "after_sequence b = cursor \<and> length (records b) \<le> 16 \<and> sorted_wrt (<) (map rec_sequence (records b)) \<and>
    (\<forall>r \<in> set (records b). record_wf r \<and> rec_device_id r = st_device_id st \<and> cursor < rec_sequence r)"
proof -
  let ?empty = "\<lparr>records = [], after_sequence = cursor, more_available = False\<rparr>"
  let ?visit = "\<lambda>f b. case scan_segment st f (Some b) None of (e, a) \<Rightarrow> (e, the (sc_batch a))"
  let ?P = "batch_ok (st_device_id st) cursor"
  have step: "?P x'" if "?P x" "?visit f x = (e, x')" for f x e x'
    using scan_segment_batch [where P = ?P, OF insert_sorted_ok] that by (auto split: prod.splits)
  have start: "?P ?empty" by (simp add: batch_ok_def)
  have "?P b"
  proof (cases "fst (read_all_files ?visit (st_card st) ?empty)")
    case None
    then show ?thesis using assms start by (auto simp: read_batch_owner_def Let_def split: prod.splits)
  next
    case (Some y)
    then obtain e1 b1 c1 c where y: "read_all_files ?visit (st_card st) ?empty = (Some (e1, b1, c1), c)" by (metis prod.collapse)
    then obtain fs c0 where "for_journal_files ?visit fs c0 ?empty = (e1, b1, c1)"
      by (auto simp: read_all_files_def split: prod.splits if_splits)
    from for_journal_files_inv [where P = ?P, OF step start this] have "?P b1" .
    moreover have "b = b1" using assms y by (auto simp: read_batch_owner_def Let_def split: if_splits)
    ultimately show ?thesis by simp
  qed
  then show ?thesis by (simp add: batch_ok_def PM_STORAGE_BATCH_MAX_def)
qed

subsection \<open>A sound journal\<close>

definition record_bytes :: "pm_journal_record \<Rightarrow> u8 list" where "record_bytes r = sealed (record_body r)"

definition segment_bytes :: "pm_segment_header \<Rightarrow> pm_journal_record list \<Rightarrow> u8 list" where
  "segment_bytes h rs = sealed (header_body h) @ concat (map record_bytes rs)"

fun in_order :: "u64 \<Rightarrow> pm_journal_record list \<Rightarrow> bool" where
  "in_order q [] = True"
| "in_order q (r # rs) = (q \<le> rec_sequence r \<and> in_order (next_expected (rec_sequence r)) rs)"

lemma in_order_append: "in_order q (rs @ rs') \<Longrightarrow> in_order q rs"
  by (induction q rs rule: in_order.induct) simp_all

definition own_record :: "storage \<Rightarrow> pm_journal_record \<Rightarrow> bool" where
  "own_record st r \<longleftrightarrow> record_wf r \<and> rec_device_id r = st_device_id st"

definition sound_segment :: "storage \<Rightarrow> pm_segment_header \<Rightarrow> pm_journal_record list \<Rightarrow> bool" where
  "sound_segment st h rs \<longleftrightarrow> header_wf h \<and> seg_device_id h = st_device_id st \<and> seg_card_id h = sh_card_id (st_health st) \<and>
     list_all (own_record st) rs \<and> in_order (first_sequence h) rs"

definition readable :: "sd_file \<Rightarrow> bool" where "readable f \<longleftrightarrow> (\<forall>i. \<not> bad f i)"

lemma readable_no_error [simp]: "readable f \<Longrightarrow> \<not> read_error f offset n"
  by (simp add: readable_def read_error_def list_ex_iff)

lemma length_record_bytes [simp]: "record_wf r \<Longrightarrow> length (record_bytes r) = 128"
  by (simp add: record_bytes_def sealed_def length_record_body)

lemma length_records: "list_all (own_record st) rs \<Longrightarrow> length (concat (map record_bytes rs)) = 128 * length rs"
  by (induction rs) (simp_all add: own_record_def)

lemma length_header_bytes: "header_wf h \<Longrightarrow> length (sealed (header_body h)) = 96"
  by (simp add: sealed_def length_header_body)

lemma record_at_bytes:
  assumes "contents f = pre @ record_bytes r @ post" "offset = length pre" "readable f" "record_wf r"
  shows "record_at (rec_device_id r) f offset = Some (durable_part r)"
proof -
  have "fread_at f offset PM_JOURNAL_RECORD_SIZE = Some (record_bytes r)"
    using assms by (simp add: fread_at_def PM_JOURNAL_RECORD_SIZE_def)
  then show ?thesis using decode_encoded_record [OF assms(4)]
    by (simp add: record_at_def record_bytes_def [symmetric]) (simp add: durable_part_def)
qed

lemma durable_part_simps [simp]:
  "rec_sequence (durable_part r) = rec_sequence r" "rec_device_id (durable_part r) = rec_device_id r"
  by (simp_all add: durable_part_def)

lemma header_of_bytes:
  assumes "contents f = sealed (header_body h) @ post" "readable f" "header_wf h" "seg_device_id h = st_device_id st"
    "seg_card_id h = sh_card_id (st_health st)"
  shows "segment_header_of st f = Some h"
proof -
  have "fread_at f 0 PM_JOURNAL_SEGMENT_HEADER_SIZE = Some (sealed (header_body h))"
    using assms length_header_bytes [OF assms(3)] by (simp add: fread_at_def PM_JOURNAL_SEGMENT_HEADER_SIZE_def)
  then show ?thesis using decode_encoded_header [OF assms(3)] assms(4,5) by (simp add: segment_header_of_def)
qed

text \<open>A scan of a sound segment takes its records in order.\<close>

fun take_records :: "u64 \<Rightarrow> pm_journal_record list \<Rightarrow> scan \<Rightarrow> scan" where
  "take_records q [] a = a"
| "take_records q (r # rs) a = take_records (next_expected (rec_sequence r)) rs (take_record q (durable_part r) a)"

lemma sc_flags [simp]:
  "sc_error (take_record q r a) = sc_error a" "sc_corrupt (take_record q r a) = sc_corrupt a"
  by (simp_all add: take_record_def on_health_def Let_def)

lemma take_records_batch: "sc_batch (take_records q rs a) = map_option (\<lambda>b. foldl insert_sorted b (map durable_part rs)) (sc_batch a)"
  by (induction q rs a rule: take_records.induct) (simp_all add: option.map_comp comp_def option.map_ident)

lemma take_records_flags: "sc_error (take_records q rs a) = sc_error a" "sc_corrupt (take_records q rs a) = sc_corrupt a"
  by (induction q rs a rule: take_records.induct) simp_all

lemma scan_sound_records:
  assumes "contents f = pre @ concat (map record_bytes rs)" "readable f" "list_all (own_record st) rs" "in_order q rs" "\<not> sc_error a"
  shows "scan_records (st_device_id st) f (length pre) (length (contents f)) q a = (ESP_OK, take_records q rs a)"
  using assms
proof (induction rs arbitrary: pre q a)
  case Nil
  then show ?case by (simp add: scan_records_end PM_JOURNAL_RECORD_SIZE_def)
next
  case (Cons r rs)
  have r: "record_wf r" "rec_device_id r = st_device_id st" using Cons.prems(3) by (simp_all add: own_record_def)
  have len: "\<not> length pre + PM_JOURNAL_RECORD_SIZE > length (contents f)"
    using Cons.prems(1) r by (simp add: PM_JOURNAL_RECORD_SIZE_def)
  have "in_order_record (st_device_id st) f (length pre) q = Some (durable_part r)"
    using record_at_bytes [of f pre r "concat (map record_bytes rs)"] Cons.prems(1,2,4) r by (simp add: in_order_record_def not_less)
  note step = scan_records_step [OF len this, of a]
  have "scan_read f (length pre) a = a" using Cons.prems(2,5) by simp
  moreover have "length pre + PM_JOURNAL_RECORD_SIZE = length (pre @ record_bytes r)" using r by (simp add: PM_JOURNAL_RECORD_SIZE_def)
  moreover have "scan_records (st_device_id st) f (length (pre @ record_bytes r)) (length (contents f)) (next_expected (rec_sequence r))
      (take_record q (durable_part r) a) = (ESP_OK, take_records q (r # rs) a)"
    using Cons.IH [of "pre @ record_bytes r" "next_expected (rec_sequence r)" "take_record q (durable_part r) a"] Cons.prems by simp
  ultimately show ?case using step by (simp only: durable_part_simps)
qed

lemma scan_sound_segment:
  assumes "contents f = segment_bytes h rs" "readable f" "sound_segment st h rs"
  shows "scan_segment st f b g =
    (ESP_OK, take_records (first_sequence h) rs \<lparr>sc_batch = b, sc_health = g, sc_corrupt = False, sc_error = False\<rparr>)"
proof -
  have s: "header_wf h" "seg_device_id h = st_device_id st" "seg_card_id h = sh_card_id (st_health st)"
    "list_all (own_record st) rs" "in_order (first_sequence h) rs" using assms(3) by (simp_all add: sound_segment_def)
  have "segment_header_of st f = Some h"
    using header_of_bytes [of f h "concat (map record_bytes rs)"] assms(1,2) s(1-3) by (simp add: segment_bytes_def)
  then show ?thesis
    using scan_sound_records [of f "sealed (header_body h)" rs st] assms(1,2) s length_header_bytes [OF s(1)]
    by (simp add: scan_segment_def segment_bytes_def PM_JOURNAL_SEGMENT_HEADER_SIZE_def Let_def)
qed

subsection \<open>A batch is a window of the journal\<close>

text \<open>A batch holds the first sixteen of a finite set of sequence numbers.\<close>

definition shows_window :: "u64 \<Rightarrow> u64 set \<Rightarrow> pm_storage_batch \<Rightarrow> bool" where
  "shows_window cursor S b \<longleftrightarrow> finite S \<and> after_sequence b = cursor \<and>
     map rec_sequence (records b) = take 16 (sorted_list_of_set S) \<and> (more_available b \<longleftrightarrow> 16 < card S)"

lemma insort_insert_at:
  fixes x :: "'a :: linorder"
  shows "sorted_wrt (<) xs \<Longrightarrow> x \<notin> set xs \<Longrightarrow> insort x xs = insert_at (length (takeWhile (\<lambda>y. y < x) xs)) x xs"
  by (induction xs) (auto simp: insert_at_def)

lemma take_insort:
  fixes x :: "'a :: linorder"
  shows "take n (insort x xs) = take n (insort x (take n xs))"
proof (induction xs arbitrary: n)
  case (Cons y ys)
  then show ?case by (cases n) (auto simp: take_Cons')
qed simp

lemma takeWhile_take_all: "\<forall>y \<in> set (take n xs). P y \<Longrightarrow> takeWhile P (take n xs) = take n xs"
  by (simp add: takeWhile_eq_all_conv)

lemma position_found:
  fixes x :: "'a :: linorder"
  shows "sorted_wrt (<) ys \<Longrightarrow> x \<in> set ys \<Longrightarrow>
    length (takeWhile (\<lambda>y. y < x) ys) < length ys \<and> ys ! length (takeWhile (\<lambda>y. y < x) ys) = x"
  by (induction ys) auto

lemma insert_sorted_window:
  assumes "shows_window cursor S b"
  shows "shows_window cursor (if cursor < rec_sequence r then insert (rec_sequence r) S else S) (insert_sorted b r)"
proof -
  let ?x = "rec_sequence r" and ?xs = "sorted_list_of_set S" and ?i = "batch_position b r"
  have S: "finite S" "after_sequence b = cursor" "map rec_sequence (records b) = take 16 ?xs" "more_available b \<longleftrightarrow> 16 < card S"
    using assms by (simp_all add: shows_window_def)
  have len: "length (records b) = min 16 (card S)" using arg_cong [OF S(3), of length] by simp
  have sorted: "sorted_wrt (<) ?xs" "set ?xs = S" by (simp_all add: S(1))
  have i: "?i = length (takeWhile (\<lambda>y. y < ?x) (take 16 ?xs))" by (simp add: batch_position_map S(3))
  have at: "rec_sequence (records b ! j) = take 16 ?xs ! j" if "j < length (records b)" for j
    using arg_cong [OF S(3), of "\<lambda>l. l ! j"] that by simp
  have pos: "?i < length (records b) \<Longrightarrow> \<not> take 16 ?xs ! ?i < ?x"
    using nth_length_takeWhile [of "\<lambda>y. y < ?x" "take 16 ?xs"] i len by simp
  have ys: "sorted_wrt (<) (take 16 ?xs)" using sorted(1) by (rule sorted_wrt_take)
  consider "\<not> cursor < ?x" | "cursor < ?x" "?x \<in> set (take 16 ?xs)" | "cursor < ?x" "?x \<in> S" "?x \<notin> set (take 16 ?xs)"
    | "cursor < ?x" "?x \<notin> S" by auto
  then show ?thesis
  proof cases
    case 1
    then show ?thesis using assms by (auto simp: insert_sorted_def S(2) not_less Let_def)
  next
    case 2
    then have "?x \<in> S" using sorted(2) in_set_takeD by metis
    moreover have "?i < length (records b)" "take 16 ?xs ! ?i = ?x"
      using position_found [OF ys 2(2)] i len S(3) by (metis length_map)+
    ultimately show ?thesis using assms 2(1) at by (simp add: insert_sorted_def S(2) insert_absorb Let_def)
  next
    case 3
    then have "?x \<in> set (drop 16 ?xs)" using sorted(2) set_append [of "take 16 ?xs" "drop 16 ?xs"] by auto
    then have "\<forall>y \<in> set (take 16 ?xs). y < ?x" "16 < card S"
      using sorted_wrt_append [of "(<)" "take 16 ?xs" "drop 16 ?xs"] sorted(1) by (auto dest!: length_pos_if_in_set)
    then have "?i = 16" "length (records b) = 16" using i len by (simp_all add: takeWhile_take_all)
    then show ?thesis using S 3(1,2) \<open>16 < card S\<close>
      by (simp add: insert_sorted_def shows_window_def insert_absorb PM_STORAGE_BATCH_MAX_def Let_def)
  next
    case 4
    have out: "?x \<notin> set (take 16 ?xs)" using 4(2) sorted(2) in_set_takeD by metis
    have new: "map rec_sequence (insert_at ?i r (records b)) = insort ?x (take 16 ?xs)"
      using insort_insert_at [OF ys out] by (simp add: map_insert_at S(3) i)
    have window: "take 16 (sorted_list_of_set (insert ?x S)) = take 16 (insort ?x (take 16 ?xs))"
      using 4(2) S(1) take_insort by (simp add: sorted_list_of_set_insert)
    have no: "?i < length (records b) \<Longrightarrow> rec_sequence (records b ! ?i) \<noteq> ?x"
      using out nth_mem [of ?i "records b"] unfolding S(3) [symmetric] by (metis image_eqI list.set_map)
    show ?thesis
    proof (cases "card S < 16")
      case True
      then have "take 16 (insort ?x (take 16 ?xs)) = insort ?x (take 16 ?xs)" by simp
      then show ?thesis using True S 4 new window no len
        by (auto simp: insert_sorted_def shows_window_def PM_STORAGE_BATCH_MAX_def Let_def)
    next
      case False
      then have "length (records b) = 16" using len by simp
      moreover have "take 16 (insort ?x (take 16 ?xs)) = take 16 ?xs" if "?i = 16"
        using insort_insert_at [OF ys out] that i False by (simp add: insert_at_def)
      moreover have "take 16 (insort ?x (take 16 ?xs)) = map rec_sequence (take 16 (insert_at ?i r (records b)))"
        by (simp add: take_map [symmetric] new)
      ultimately show ?thesis using False S 4 window no
        by (auto simp: insert_sorted_def shows_window_def PM_STORAGE_BATCH_MAX_def Let_def)
    qed
  qed
qed

lemma foldl_window:
  "shows_window cursor S b \<Longrightarrow>
     shows_window cursor (S \<union> {q \<in> rec_sequence ` set rs. cursor < q}) (foldl insert_sorted b rs)"
proof (induction rs arbitrary: S b)
  case (Cons r rs)
  have eq: "(if cursor < rec_sequence r then insert (rec_sequence r) S else S) \<union> {q \<in> rec_sequence ` set rs. cursor < q} =
      S \<union> {q \<in> rec_sequence ` set (r # rs). cursor < q}" by auto
  show ?case using Cons.IH [OF insert_sorted_window [OF Cons.prems, of r]] unfolding eq by simp
qed simp

lemma insert_sorted_subset: "set (records (insert_sorted b r)) \<subseteq> insert r (set (records b))"
  using set_insert_at [of "batch_position b r" r "records b"]
  by (auto simp: insert_sorted_def Let_def dest!: in_set_takeD)

lemma foldl_subset: "set (records (foldl insert_sorted b rs)) \<subseteq> set (records b) \<union> set rs"
proof (induction rs arbitrary: b)
  case (Cons r rs)
  show ?case using Cons [of "insert_sorted b r"] insert_sorted_subset [of b r] by auto
qed simp

lemma sd_tick_calm [simp]: "sd_results c = [] \<Longrightarrow> sd_tick c = (Sd_Ok, c)"
  by (simp add: sd_tick_def)

text \<open>The journal files of a card, in directory order, hold the segments \<open>J\<close>.\<close>

definition sound_journal :: "storage \<Rightarrow> (pm_segment_header \<times> pm_journal_record list) list \<Rightarrow> bool" where
  "sound_journal st J \<longleftrightarrow> list_all2 (\<lambda>(name, f) (h, rs). journal_path (st_card st) name \<and> readable f \<and>
     contents f = segment_bytes h rs \<and> sound_segment st h rs) (filter (\<lambda>(name, f). journal_file name) (sd_files (st_card st))) J"

abbreviation journal_records :: "(pm_segment_header \<times> pm_journal_record list) list \<Rightarrow> pm_journal_record list" where
  "journal_records J \<equiv> concat (map snd J)"

lemma read_sound_files:
  assumes "sd_results (st_card st) = []"
    and "list_all2 (\<lambda>(name, f) (h, rs). journal_path (st_card st) name \<and> readable f \<and>
       contents f = segment_bytes h rs \<and> sound_segment st h rs) (filter (\<lambda>(name, f). journal_file name) fs) J"
  shows "for_journal_files (\<lambda>f b. case scan_segment st f (Some b) None of (e, a) \<Rightarrow> (e, the (sc_batch a))) fs (st_card st) b =
    (ESP_OK, foldl insert_sorted b (map durable_part (journal_records J)), st_card st)"
  using assms(2)
proof (induction fs arbitrary: b J)
  case Nil
  then show ?case using assms(1) by simp
next
  case (Cons x fs)
  obtain name f where x: "x = (name, f)" by (metis prod.exhaust)
  show ?case
  proof (cases "journal_file name")
    case False
    then show ?thesis using Cons assms(1) by (simp add: x)
  next
    case True
    then obtain h rs J' where J: "J = (h, rs) # J'" "journal_path (st_card st) name" "readable f" "contents f = segment_bytes h rs"
      "sound_segment st h rs" using Cons.prems by (auto simp: x list_all2_Cons1)
    have "list_all2 (\<lambda>(name, f) (h, rs). journal_path (st_card st) name \<and> readable f \<and>
       contents f = segment_bytes h rs \<and> sound_segment st h rs) (filter (\<lambda>(name, f). journal_file name) fs) J'"
      using Cons.prems True by (simp add: x J(1))
    from Cons.IH [OF this] show ?thesis
      using True J(2) assms(1) scan_sound_segment [OF J(4,3,5)] by (simp add: x J(1) take_records_batch)
  qed
qed

lemma read_batch_sound:
  assumes "storage_readable (st_health st)" "sd_results (st_card st) = []" "sound_journal st J"
  shows "read_batch_owner cursor b0 st =
    (ESP_OK, foldl insert_sorted \<lparr>records = [], after_sequence = cursor, more_available = False\<rparr> (map durable_part (journal_records J)), st)"
  using read_sound_files [OF assms(2) assms(3) [unfolded sound_journal_def]] assms(1,2)
  by (simp add: read_batch_owner_def read_all_files_def Let_def)

text \<open>
  C34. Reading is a window of the journal. When the card works and its journal files are segments as the firmware writes
  them, \<open>read_batch_owner\<close> succeeds and its batch shows exactly the sixteen lowest sequence numbers behind the cursor of all records in
  all files, each once and in order, and says that more are available exactly when there are more; every record
  is one of the journal, as its 128 bytes keep it.
\<close>

theorem storage_batch_window:
  fixes cursor :: u64 and J :: "(pm_segment_header \<times> pm_journal_record list) list"
  assumes "storage_readable (st_health st)" "sd_results (st_card st) = []" "sound_journal st J"
  defines "S \<equiv> {q \<in> rec_sequence ` set (journal_records J). cursor < q}"
  shows "\<exists>b. read_batch_owner cursor b0 st = (ESP_OK, b, st) \<and>
    map rec_sequence (records b) = take 16 (sorted_list_of_set S) \<and> (more_available b \<longleftrightarrow> 16 < card S) \<and>
    set (records b) \<subseteq> durable_part ` set (journal_records J)"
proof -
  let ?start = "\<lparr>records = [], after_sequence = cursor, more_available = False\<rparr>"
  let ?b = "foldl insert_sorted ?start (map durable_part (journal_records J))"
  have "read_batch_owner cursor b0 st = (ESP_OK, ?b, st)"
    using assms(1-3) by (rule read_batch_sound)
  moreover have "shows_window cursor {} ?start" by (simp add: shows_window_def)
  from foldl_window [OF this, of "map durable_part (journal_records J)"] have "shows_window cursor S ?b"
    by (simp add: S_def image_image)
  moreover have "set (records ?b) \<subseteq> durable_part ` set (journal_records J)"
    using foldl_subset [of ?start "map durable_part (journal_records J)"] by simp
  ultimately show ?thesis by (auto simp: shows_window_def)
qed

subsection \<open>A write that was cut off\<close>

lemma file_of_put [simp]: "file_of (put_file n f c) m = (if m = n then Some f else file_of c m)"
  by (simp add: file_of_def put_file_def update_conv')

lemma sd_results_put [simp]: "sd_results (put_file n f c) = sd_results c"
  by (simp add: put_file_def)

lemma recover_sound_prefix:
  assumes "contents f = pre @ concat (map record_bytes rs) @ post" "readable f" "list_all (own_record st) rs"
  shows "recover_records (st_device_id st) f (map (\<lambda>i. length pre + i * PM_JOURNAL_RECORD_SIZE) [0..<length rs] @ offsets) q =
    recover_records (st_device_id st) f offsets (if rs = [] then q else rec_sequence (last rs))"
  using assms
proof (induction rs arbitrary: pre q)
  case (Cons r rs)
  have r: "record_wf r" "rec_device_id r = st_device_id st" using Cons.prems(3) by (simp_all add: own_record_def)
  have offsets: "map (\<lambda>i. length pre + i * PM_JOURNAL_RECORD_SIZE) [0..<length (r # rs)] =
      length pre # map (\<lambda>i. length (pre @ record_bytes r) + i * PM_JOURNAL_RECORD_SIZE) [0..<length rs]"
    using r by (simp add: upt_rec [of 0] map_Suc_upt [symmetric] PM_JOURNAL_RECORD_SIZE_def comp_def del: upt_Suc)
  have "record_at (st_device_id st) f (length pre) = Some (durable_part r)"
    using record_at_bytes [of f pre r "concat (map record_bytes rs) @ post"] Cons.prems(1,2) r by simp
  then show ?case unfolding offsets
    using Cons.IH [of "pre @ record_bytes r" "rec_sequence r"] Cons.prems by simp
qed simp

lemma recover_sound_records:
  assumes "contents f = pre @ concat (map record_bytes rs)" "readable f" "list_all (own_record st) rs"
  shows "recover_records (st_device_id st) f (map (\<lambda>i. length pre + i * PM_JOURNAL_RECORD_SIZE) [0..<length rs]) q =
    (Records_Good, if rs = [] then q else rec_sequence (last rs))"
  using recover_sound_prefix [of f pre rs "[]" st "[]" q] assms by simp

lemma recover_torn:
  assumes "file_of (st_card st) PM_CURRENT = Some f" "contents f = segment_bytes h rs @ p" "length p < 128" "readable f"
    "sound_segment st h rs" "sd_results (st_card st) = []"
  shows "\<exists>st' f'. recover_current env st = (ESP_OK, st') \<and> file_of (st_card st') PM_CURRENT = Some f' \<and>
    contents f' = segment_bytes h rs \<and> readable f' \<and> (\<forall>n. n \<noteq> PM_CURRENT \<longrightarrow> file_of (st_card st') n = file_of (st_card st) n) \<and>
    st_first st' = first_sequence h \<and> st_last st' = (if rs = [] then st_last st else rec_sequence (last rs)) \<and>
    st_size st' = length (segment_bytes h rs) \<and> st_health st' = st_health st \<and> st_device_id st' = st_device_id st"
proof -
  have s: "header_wf h" "seg_device_id h = st_device_id st" "seg_card_id h = sh_card_id (st_health st)" "list_all (own_record st) rs"
    using assms(5) by (simp_all add: sound_segment_def)
  note len = length_header_bytes [OF s(1)] length_records [OF s(4)]
  have n: "(length (contents f) - PM_JOURNAL_SEGMENT_HEADER_SIZE) div PM_JOURNAL_RECORD_SIZE = length rs"
    using assms(2,3) len by (simp add: segment_bytes_def PM_JOURNAL_SEGMENT_HEADER_SIZE_def PM_JOURNAL_RECORD_SIZE_def)
  have end_at: "PM_JOURNAL_SEGMENT_HEADER_SIZE + length rs * PM_JOURNAL_RECORD_SIZE = length (segment_bytes h rs)"
    using len by (simp add: segment_bytes_def PM_JOURNAL_SEGMENT_HEADER_SIZE_def PM_JOURNAL_RECORD_SIZE_def)
  have hd: "segment_header_of (st\<lparr>st_card := c\<rparr>) f = Some h" for c
    using header_of_bytes [of f h "concat (map record_bytes rs) @ p"] assms(2,4) s(1-3) by (simp add: segment_bytes_def)
  define f' where "f' = f\<lparr>contents := segment_bytes h rs\<rparr>"
  obtain c2 where c2: "truncate_current (length (segment_bytes h rs)) f (st_card st) = (True, f', c2)"
    "file_of c2 PM_CURRENT = Some f'" "\<forall>n. n \<noteq> PM_CURRENT \<longrightarrow> file_of c2 n = file_of (st_card st) n"
    using assms(1,2,6) by (cases "p = []") (auto simp: truncate_current_def f'_def Let_def)
  have f': "readable f'" "contents f' = sealed (header_body h) @ concat (map record_bytes rs)"
    using assms(4) by (simp_all add: f'_def readable_def segment_bytes_def)
  have "recover_records (st_device_id st) f' (record_offsets (length rs)) q = (Records_Good, if rs = [] then q else rec_sequence (last rs))" for q
    using recover_sound_records [OF f'(2,1) s(4)] len(1) by (simp add: record_offsets_def PM_JOURNAL_SEGMENT_HEADER_SIZE_def)
  moreover have "fopen_read PM_CURRENT (st_card st) = (Opened f, st_card st)" using assms(1,6) by (simp add: fopen_read_def)
  ultimately have "recover_current env st = (ESP_OK, st\<lparr>st_card := c2, st_last := (if rs = [] then st_last st else rec_sequence (last rs)),
      st_first := first_sequence h, st_size := length (segment_bytes h rs)\<rparr>)"
    unfolding recover_current_def using hd n end_at c2(1) by (simp add: Let_def)
  then show ?thesis using c2(2,3) f' by (auto simp: segment_bytes_def)
qed

lemma fwrite_current:
  assumes "fwrite n bs c = (w, c1)" "file_of c n = Some f" "bs \<noteq> []"
  shows "\<exists>k. file_of c1 n = Some (append_bytes (take k bs) f) \<and> (if w = Sd_Ok then k = length bs else k < length bs)"
proof -
  obtain r c0 where t: "sd_tick c = (r, c0)" by (metis prod.exhaust)
  have f: "file_of c0 n = Some f" using t assms(2) by (simp add: file_of_def)
  have bs: "length bs - Suc 0 < length bs" using assms(3) by simp
  show ?thesis
  proof (cases r)
    case Sd_Ok
    then show ?thesis using assms t f by (auto simp: fwrite_def Let_def intro!: exI [of _ "length bs"])
  next
    case (Sd_Error k)
    then show ?thesis using assms(1) t f bs by (auto simp: fwrite_def Let_def intro!: exI [of _ "min k (length bs - 1)"])
  next
    case (Sd_No_Space k)
    then show ?thesis using assms(1) t f bs by (auto simp: fwrite_def Let_def intro!: exI [of _ "min k (length bs - 1)"])
  qed
qed

lemma file_of_tick [simp]: "sd_tick c = (r, c1) \<Longrightarrow> file_of c1 n = file_of c n"
  by (simp add: file_of_def)

lemma update_capacity_simps:
  assumes "update_capacity st = (e, st1)"
  shows "file_of (st_card st1) n = file_of (st_card st) n" "st_size st1 = st_size st" "st_device_id st1 = st_device_id st"
    "sh_card_id (st_health st1) = sh_card_id (st_health st)"
  using assms by (auto simp: update_capacity_def esp_vfs_fat_info_def file_of_def Let_def split: prod.splits if_splits)

lemma append_encoded_step:
  assumes "append_encoded r st = (w, st1)" "file_of (st_card st) PM_CURRENT = Some f" "record_wf r"
  shows "\<exists>k. file_of (st_card st1) PM_CURRENT = Some (append_bytes (take k (record_bytes r)) f) \<and> (w = Sd_Ok \<longrightarrow> k = 128) \<and>
    st_health st1 = st_health st \<and> st_device_id st1 = st_device_id st \<and> st_size st1 = st_size st"
proof -
  have len: "length (record_bytes r) = 128" using assms(3) by simp
  obtain w1 c1 where w: "fwrite PM_CURRENT (record_bytes r) (st_card st) = (w1, c1)" by (metis prod.exhaust)
  have "record_bytes r \<noteq> []" using len by auto
  from fwrite_current [OF w assms(2) this] obtain k where k: "file_of c1 PM_CURRENT = Some (append_bytes (take k (record_bytes r)) f)"
    "w1 = Sd_Ok \<longrightarrow> k = 128" using len by (auto split: if_splits)
  have "pm_journal_encode_record r PM_JOURNAL_RECORD_SIZE = Some (record_bytes r)"
    by (simp add: pm_journal_encode_record_def record_bytes_def)
  then show ?thesis using assms(1) w k by (auto simp: append_encoded_def sync_file_def split: if_splits prod.splits)
qed

lemma segment_bytes_snoc: "segment_bytes h (rs @ [r]) = segment_bytes h rs @ record_bytes r"
  by (simp add: segment_bytes_def)

text \<open>
  C33. An append survives or leaves no trace. Let the storage be ready with the emergency reserve free, the current segment be open, holding whole
  records \<open>rs\<close> and no more, all of this device and in order, and let it have room for the new record below the limit at which it
  would be rotated; let \<open>append_record\<close> run on a card that may fail at any call, in the middle of a write too. The next start,
  \<open>recover_current\<close> on the card as it was left and working again, finds the segment whole with \<open>rs\<close>, or with \<open>rs\<close> and the new record, and surely
  with the new record when the append had reported success; the file is cut to whole records and the position for the next append is right.
  (The restart comes before another append: see \<open>append_after_full_lost\<close> for an append that follows a torn one without it.)
\<close>

theorem storage_append_atomic:
  assumes "append_record env r st = (e, st1)" "sh_status (st_health st) = PM_STORAGE_READY" "st_open st"
    and "bytes_free (st_health st) \<ge> PM_STORAGE_EMERGENCY_RESERVE" "st_size st + 128 < PM_STORAGE_SEGMENT_LIMIT"
    and "file_of (st_card st) PM_CURRENT = Some f" "readable f" "contents f = segment_bytes h rs" "sound_segment st h (rs @ [r])"
    and "st_card st2 = (st_card st1)\<lparr>sd_results := []\<rparr>" "st_device_id st2 = st_device_id st"
      "sh_card_id (st_health st2) = sh_card_id (st_health st)"
  shows "\<exists>st3 f3 rs3. recover_current env2 st2 = (ESP_OK, st3) \<and> file_of (st_card st3) PM_CURRENT = Some f3 \<and>
    contents f3 = segment_bytes h rs3 \<and> (rs3 = rs \<and> e \<noteq> ESP_OK \<or> rs3 = rs @ [r]) \<and>
    st_first st3 = first_sequence h \<and> st_size st3 = length (contents f3)"
proof -
  have r: "record_wf r" using assms(9) by (simp add: sound_segment_def own_record_def)
  obtain w sta where a: "append_encoded r st = (w, sta)" by (metis prod.exhaust)
  from append_encoded_step [OF a assms(6) r] obtain k where k: "file_of (st_card sta) PM_CURRENT = Some (append_bytes (take k (record_bytes r)) f)"
    "w = Sd_Ok \<longrightarrow> k = 128" "st_size sta = st_size st" by blast
  let ?stb = "sta\<lparr>st_size := st_size sta + PM_JOURNAL_RECORD_SIZE, st_last := rec_sequence r,
    st_health := note_range (rec_sequence r) (st_health sta)\<rparr>"
  obtain ec stc where c: "update_capacity ?stb = (ec, stc)" by (metis prod.exhaust)
  have "\<not> st_size stc \<ge> PM_STORAGE_SEGMENT_LIMIT"
    using update_capacity_simps(2) [OF c] k(3) assms(5) by (simp add: PM_JOURNAL_RECORD_SIZE_def)
  then have out: "e = ESP_OK \<longrightarrow> w = Sd_Ok" "file_of (st_card st1) PM_CURRENT = file_of (st_card sta) PM_CURRENT"
    using assms(1-4) a c update_capacity_simps(1) [OF c]
    by (auto simp: append_record_def Let_def not_less [symmetric] split: if_splits)
  define p where "p = take k (record_bytes r)"
  have st2: "file_of (st_card st2) PM_CURRENT = Some (append_bytes p f)" "sd_results (st_card st2) = []"
    using out(2) k(1) assms(10) by (simp_all add: file_of_def p_def)
  have read: "readable (append_bytes p f)" using assms(7) by (simp add: readable_def append_bytes_def)
  have sound: "sound_segment st2 h (rs @ [r])"
    using assms(9,11,12) by (simp add: sound_segment_def own_record_def list_all_iff)
  then have sound': "sound_segment st2 h rs" by (auto simp: sound_segment_def in_order_append)
  show ?thesis
  proof (cases "length p < 128")
    case True
    have "contents (append_bytes p f) = segment_bytes h rs @ p" using assms(8) by (simp add: append_bytes_def)
    moreover have "e \<noteq> ESP_OK" using out(1) k(2) True r by (auto simp: p_def)
    ultimately show ?thesis using recover_torn [OF st2(1) _ True read sound' st2(2), of env2] by auto
  next
    case False
    then have "p = record_bytes r" using r by (simp add: p_def)
    then have "contents (append_bytes p f) = segment_bytes h (rs @ [r]) @ []" using assms(8) by (simp add: append_bytes_def segment_bytes_snoc)
    then show ?thesis using recover_torn [OF st2(1) _ _ read sound st2(2), of "[]" env2] by auto
  qed
qed

subsection \<open>A write that ran out of space\<close>

text \<open>A write for which the space ends after one byte, the space comes back, and the next append.\<close>

lemma append_no_space:
  assumes "sh_status (st_health st) = PM_STORAGE_READY" "st_open st" "bytes_free (st_health st) \<ge> PM_STORAGE_EMERGENCY_RESERVE"
    and "file_of (st_card st) PM_CURRENT = Some f" "record_wf r" "sd_results (st_card st) = [Sd_No_Space 1]"
  shows "append_record env r st = (ESP_FAIL, set_status PM_STORAGE_FULL
    (st\<lparr>st_card := put_file PM_CURRENT (append_bytes (take 1 (record_bytes r)) f) ((st_card st)\<lparr>sd_results := []\<rparr>)\<rparr>))"
proof -
  have "pm_journal_encode_record r PM_JOURNAL_RECORD_SIZE = Some (record_bytes r)"
    by (simp add: pm_journal_encode_record_def record_bytes_def)
  moreover have "file_of ((st_card st)\<lparr>sd_results := []\<rparr>) PM_CURRENT = Some f" using assms(4) by (simp add: file_of_def)
  ultimately have "append_encoded r st = (Sd_No_Space 1,
      st\<lparr>st_card := put_file PM_CURRENT (append_bytes (take 1 (record_bytes r)) f) ((st_card st)\<lparr>sd_results := []\<rparr>)\<rparr>)"
    using assms(5,6) by (simp add: append_encoded_def fwrite_def sd_tick_def Let_def)
  moreover have "\<not> bytes_free (st_health st) < PM_STORAGE_EMERGENCY_RESERVE" using assms(3) by simp
  ultimately show ?thesis using assms(1,2) by (simp add: append_record_def no_space_def)
qed

lemma space_returns:
  assumes "sh_status (st_health st) = PM_STORAGE_FULL" "sd_info (st_card st) = (\<lambda>_. (ESP_OK, total_bytes, free_bytes))"
    and "total_bytes \<noteq> 0" "free_bytes \<le> total_bytes" "PM_STORAGE_EMERGENCY_RESERVE \<le> free_bytes"
  shows "\<exists>c h. refresh_capacity st = (ESP_OK, st\<lparr>st_card := c, st_health := h\<rparr>) \<and> sd_files c = sd_files (st_card st) \<and>
    sd_results c = sd_results (st_card st) \<and> sh_status h = PM_STORAGE_READY \<and> bytes_free h = free_bytes \<and>
    sh_card_id h = sh_card_id (st_health st) \<and> sd_info c = sd_info (st_card st)"
  using assms
  by (intro exI [of _ "(st_card st)\<lparr>sd_queries := Suc (sd_queries (st_card st))\<rparr>"]
        exI [of _ "(st_health st)\<lparr>bytes_total := total_bytes, bytes_free := free_bytes, sh_status := PM_STORAGE_READY\<rparr>"])
    (simp add: refresh_capacity_def update_capacity_def esp_vfs_fat_info_def Let_def not_less)

text \<open>A record that starts one byte late is not a record.\<close>

lemma shifted_record:
  assumes "contents f = pre @ take 1 (record_bytes r) @ take 127 (record_bytes r2)" "record_wf r" "record_wf r2"
  shows "record_at dev f (length pre) = None"
proof -
  have "put_u32 PM_JOURNAL_RECORD_MAGIC = [0x44, 0x52, 0x4D, 0x50]" by code_simp
  then have magic: "\<exists>xs. record_bytes x = 0x44 # 0x52 # 0x4D # 0x50 # xs" for x
    by (simp add: record_bytes_def sealed_def record_body_def Let_def)
  obtain xs ys where "record_bytes r = 0x44 # xs" and r2: "record_bytes r2 = 0x44 # 0x52 # 0x4D # 0x50 # ys" using magic by metis
  then have "take 128 (drop (length pre) (contents f)) = [0x44, 0x44, 0x52, 0x4D] @ take 124 (0x50 # ys)"
    using assms(1) by (simp add: take_Cons')
  also have "[0x44, 0x44, 0x52, 0x4D] = le_bytes 4 (0x4D524444 :: u32)" by code_simp
  finally have "get_u32 0 (take 128 (drop (length pre) (contents f))) = 0x4D524444"
    by (simp add: get_u32_def get_le_field)
  then show ?thesis
    by (simp add: record_at_def fread_at_def pm_journal_decode_record_def PM_JOURNAL_RECORD_SIZE_def PM_JOURNAL_RECORD_MAGIC_def)
qed

lemma append_fits:
  assumes "sh_status (st_health st) = PM_STORAGE_READY" "st_open st" "bytes_free (st_health st) \<ge> PM_STORAGE_EMERGENCY_RESERVE"
    and "st_size st + 128 < PM_STORAGE_SEGMENT_LIMIT" "file_of (st_card st) PM_CURRENT = Some f" "sd_results (st_card st) = []"
  shows "\<exists>st'. append_record env r st = (ESP_OK, st') \<and> file_of (st_card st') PM_CURRENT = Some (append_bytes (record_bytes r) f) \<and>
    (\<forall>n. n \<noteq> PM_CURRENT \<longrightarrow> file_of (st_card st') n = file_of (st_card st) n) \<and> sd_results (st_card st') = [] \<and>
    st_device_id st' = st_device_id st \<and> sh_card_id (st_health st') = sh_card_id (st_health st)"
proof -
  have "pm_journal_encode_record r PM_JOURNAL_RECORD_SIZE = Some (record_bytes r)"
    by (simp add: pm_journal_encode_record_def record_bytes_def)
  then have w: "append_encoded r st = (Sd_Ok, st\<lparr>st_card := put_file PM_CURRENT (append_bytes (record_bytes r) f) (st_card st)\<rparr>)"
    using assms(5,6) by (simp add: append_encoded_def fwrite_def sync_file_def sd_tick_def Let_def)
  let ?st = "st\<lparr>st_card := put_file PM_CURRENT (append_bytes (record_bytes r) f) (st_card st), st_size := st_size st + PM_JOURNAL_RECORD_SIZE,
    st_last := rec_sequence r, st_health := note_range (rec_sequence r) (st_health st)\<rparr>"
  obtain e st5 where c: "update_capacity ?st = (e, st5)" by (metis prod.exhaust)
  have "st_size st5 = st_size st + 128" "sd_files (st_card st5) = sd_files (st_card ?st)" "sd_results (st_card st5) = []"
    "st_device_id st5 = st_device_id st" "sh_card_id (st_health st5) = sh_card_id (st_health st)"
    using c assms(6) by (auto simp: update_capacity_def esp_vfs_fat_info_def PM_JOURNAL_RECORD_SIZE_def note_range_def Let_def
        split: prod.splits if_splits)
  moreover have "append_record env r st = (ESP_OK, st5)"
    using assms(1-4) w c \<open>st_size st5 = _\<close> not_less [of "bytes_free (st_health st)" PM_STORAGE_EMERGENCY_RESERVE] by (simp add: append_record_def)
  moreover have "file_of (st_card ?st) n = (if n = PM_CURRENT then Some (append_bytes (record_bytes r) f) else file_of (st_card st) n)" for n by simp
  ultimately show ?thesis by (simp add: file_of_def)
qed

lemma recover_shifted_records:
  assumes "contents f = sealed (header_body h) @ concat (map record_bytes rs) @ take 1 (record_bytes r) @ take 127 (record_bytes r2)"
    and "readable f" "header_wf h" "list_all (own_record st) rs" "record_wf r" "record_wf r2"
  shows "\<exists>q'. recover_records (st_device_id st) f (record_offsets (Suc (length rs))) q = (Record_Bad, q')"
proof -
  let ?pre = "sealed (header_body h) @ concat (map record_bytes rs)"
  note len = length_header_bytes [OF assms(3)] length_records [OF assms(4)]
  have "record_offsets (Suc (length rs)) = map (\<lambda>i. length (sealed (header_body h)) + i * PM_JOURNAL_RECORD_SIZE) [0..<length rs] @ [length ?pre]"
    using len by (simp add: record_offsets_def PM_JOURNAL_SEGMENT_HEADER_SIZE_def PM_JOURNAL_RECORD_SIZE_def)
  moreover have "record_at (st_device_id st) f (length ?pre) = None"
    using assms(1,5,6) shifted_record [of f ?pre r r2] by simp
  ultimately show ?thesis using recover_sound_prefix [OF assms(1,2,4)] assms(2) by simp
qed

lemma recover_shifted:
  assumes "file_of (st_card st) PM_CURRENT = Some f" "contents f = segment_bytes h rs @ take 1 (record_bytes r) @ record_bytes r2"
    and "readable f" "sound_segment st h rs" "record_wf r" "record_wf r2" "sd_results (st_card st) = []"
    and "file_of (st_card st) (''quarantine_current_'' @ dec (se_ticks env) @ ''.bin'') = None"
  shows "\<exists>st' f'. recover_current env st = (ESP_OK, st') \<and> file_of (st_card st') PM_CURRENT = None \<and>
    file_of (st_card st') (''quarantine_current_'' @ dec (se_ticks env) @ ''.bin'') = Some f' \<and>
    contents f' = segment_bytes h rs @ take 1 (record_bytes r) @ take 127 (record_bytes r2) \<and>
    corrupt_records (st_health st') = corrupt_records (st_health st) + 1"
proof -
  let ?q = "''quarantine_current_'' @ dec (se_ticks env) @ ''.bin''" and ?stop = "length (segment_bytes h rs) + 128"
  have s: "header_wf h" "seg_device_id h = st_device_id st" "seg_card_id h = sh_card_id (st_health st)" "list_all (own_record st) rs"
    using assms(4) by (simp_all add: sound_segment_def)
  note len = length_header_bytes [OF s(1)] length_records [OF s(4)]
  have sz: "length (segment_bytes h rs) = 96 + 128 * length rs" using len by (simp add: segment_bytes_def)
  have n: "(length (contents f) - PM_JOURNAL_SEGMENT_HEADER_SIZE) div PM_JOURNAL_RECORD_SIZE = Suc (length rs)"
    using assms(2,5,6) sz by (simp add: PM_JOURNAL_SEGMENT_HEADER_SIZE_def PM_JOURNAL_RECORD_SIZE_def)
  have end_at: "PM_JOURNAL_SEGMENT_HEADER_SIZE + Suc (length rs) * PM_JOURNAL_RECORD_SIZE = ?stop"
    using sz by (simp add: PM_JOURNAL_SEGMENT_HEADER_SIZE_def PM_JOURNAL_RECORD_SIZE_def)
  have hd: "segment_header_of (st\<lparr>st_card := c\<rparr>) f = Some h" for c
    using header_of_bytes [of f h "concat (map record_bytes rs) @ take 1 (record_bytes r) @ record_bytes r2"] assms(2,3) s(1-3)
    by (simp add: segment_bytes_def)
  define f' where "f' = f\<lparr>contents := segment_bytes h rs @ take 1 (record_bytes r) @ take 127 (record_bytes r2)\<rparr>"
  have cut: "truncate_current ?stop f (st_card st) = (True, f', put_file PM_CURRENT f' (st_card st))"
    using assms(2,5-7) by (simp add: truncate_current_def f'_def sd_tick_def Let_def)
  have f': "readable f'" "contents f' = sealed (header_body h) @ concat (map record_bytes rs) @ take 1 (record_bytes r) @ take 127 (record_bytes r2)"
    using assms(3) by (simp_all add: f'_def readable_def segment_bytes_def)
  have "\<exists>q'. recover_records (st_device_id st) f' (record_offsets (Suc (length rs))) (st_last st) = (Record_Bad, q')"
    using f'(2,1) s(1,4) assms(5,6) by (rule recover_shifted_records)
  then obtain q' where "recover_records (st_device_id st) f' (record_offsets (Suc (length rs))) (st_last st) = (Record_Bad, q')" by blast
  moreover have "fopen_read PM_CURRENT (st_card st) = (Opened f, st_card st)" using assms(1,7) by (simp add: fopen_read_def sd_tick_def)
  ultimately have "recover_current env st = (ESP_OK, (quarantine ?q (st\<lparr>st_card := put_file PM_CURRENT f' (st_card st)\<rparr>))
      \<lparr>st_health := (st_health st)\<lparr>quarantined_segments := quarantined_segments (st_health st) + 1, corrupt_records := corrupt_records (st_health st) + 1\<rparr>,
       st_first := 0, st_last := 0, st_size := 0\<rparr>)"
    unfolding recover_current_def using hd n end_at cut by (simp add: quarantine_def Let_def)
  moreover have "?q \<noteq> PM_CURRENT" using assms(1,8) by auto
  then have "rename_file PM_CURRENT ?q (put_file PM_CURRENT f' (st_card st)) =
      (True, put_file ?q f' (drop_file PM_CURRENT (put_file PM_CURRENT f' (st_card st))))"
    using assms(7,8) by (simp add: rename_file_def sd_tick_def)
  moreover have "file_of (drop_file PM_CURRENT c) PM_CURRENT = None" for c by (simp add: file_of_def drop_file_def delete_conv')
  ultimately show ?thesis using \<open>?q \<noteq> PM_CURRENT\<close> by (simp add: quarantine_def f'_def)
qed

text \<open>
  An append after a full card is lost. When the space ends after the first byte of a record, \<open>append_record\<close> fails and leaves the byte in the
  file; when the space comes back, \<open>refresh_capacity\<close> admits appends again, and the next \<open>append_record\<close> returns \<open>ESP_OK\<close> although it writes
  behind that byte. The next start cuts the file to whole records, which takes the last byte of the record stored last, finds
  that the rest of it is no record, and moves the segment to quarantine.
\<close>

theorem append_after_full_lost:
  assumes "sh_status (st_health st) = PM_STORAGE_READY" "st_open st" "bytes_free (st_health st) \<ge> PM_STORAGE_EMERGENCY_RESERVE"
    and "st_size st + 128 < PM_STORAGE_SEGMENT_LIMIT" "file_of (st_card st) PM_CURRENT = Some f" "readable f"
    and "contents f = segment_bytes h rs" "sound_segment st h rs" "record_wf r" "record_wf r2"
    and "sd_results (st_card st) = [Sd_No_Space 1]" "sd_info (st_card st) = (\<lambda>_. (ESP_OK, total_bytes, free_bytes))"
    and "total_bytes \<noteq> 0" "free_bytes \<le> total_bytes" "PM_STORAGE_EMERGENCY_RESERVE \<le> free_bytes"
    and "file_of (st_card st) (''quarantine_current_'' @ dec (se_ticks env) @ ''.bin'') = None"
  shows "\<exists>st1 st2 st3 st4 f'. append_record env r st = (ESP_FAIL, st1) \<and> refresh_capacity st1 = (ESP_OK, st2) \<and>
    append_record env r2 st2 = (ESP_OK, st3) \<and> recover_current env st3 = (ESP_OK, st4) \<and> file_of (st_card st4) PM_CURRENT = None \<and>
    file_of (st_card st4) (''quarantine_current_'' @ dec (se_ticks env) @ ''.bin'') = Some f' \<and>
    contents f' = segment_bytes h rs @ take 1 (record_bytes r) @ take 127 (record_bytes r2)"
proof -
  let ?q = "''quarantine_current_'' @ dec (se_ticks env) @ ''.bin''" and ?f = "append_bytes (take 1 (record_bytes r)) f"
  let ?c = "put_file PM_CURRENT ?f ((st_card st)\<lparr>sd_results := []\<rparr>)"
  let ?st1 = "set_status PM_STORAGE_FULL (st\<lparr>st_card := ?c\<rparr>)"
  note a = append_no_space [OF assms(1-3,5,9,11), of env]
  have "file_of ((st_card st)\<lparr>sd_results := []\<rparr>) n = file_of (st_card st) n" for n by (simp add: file_of_def)
  then have c: "file_of ?c n = (if n = PM_CURRENT then Some ?f else file_of (st_card st) n)" for n by simp
  have "sd_info ?c = (\<lambda>_. (ESP_OK, total_bytes, free_bytes))" using assms(12) by (simp add: put_file_def)
  then obtain c2 h2 where b: "refresh_capacity ?st1 = (ESP_OK, ?st1\<lparr>st_card := c2, st_health := h2\<rparr>)" "sd_files c2 = sd_files ?c"
    "sd_results c2 = []" "sh_status h2 = PM_STORAGE_READY" "bytes_free h2 = free_bytes" "sh_card_id h2 = sh_card_id (st_health st)"
    using space_returns [of ?st1 total_bytes free_bytes] assms(13-15) by auto
  let ?st2 = "?st1\<lparr>st_card := c2, st_health := h2\<rparr>"
  have c2: "file_of c2 n = file_of ?c n" for n using b(2) by (simp add: file_of_def)
  obtain st3 where d: "append_record env r2 ?st2 = (ESP_OK, st3)" "file_of (st_card st3) PM_CURRENT = Some (append_bytes (record_bytes r2) ?f)"
    "\<forall>n. n \<noteq> PM_CURRENT \<longrightarrow> file_of (st_card st3) n = file_of c2 n" "sd_results (st_card st3) = []" "st_device_id st3 = st_device_id st"
    "sh_card_id (st_health st3) = sh_card_id (st_health st)"
    using append_fits [of ?st2 ?f env r2] assms(2,4,15) b(3-6) c2 c by auto
  have "sound_segment st3 h rs" using assms(8) d(5,6) by (simp add: sound_segment_def own_record_def list_all_iff)
  moreover have "contents (append_bytes (record_bytes r2) ?f) = segment_bytes h rs @ take 1 (record_bytes r) @ record_bytes r2"
    "readable (append_bytes (record_bytes r2) ?f)" using assms(6,7) by (simp_all add: append_bytes_def readable_def)
  moreover have "?q \<noteq> PM_CURRENT" by (simp add: PM_CURRENT_def)
  then have "file_of (st_card st3) ?q = None" unfolding d(3) [rule_format, OF \<open>?q \<noteq> PM_CURRENT\<close>] c2 c using assms(16) by (simp only: if_False)
  ultimately show ?thesis
    using recover_shifted [of st3 "append_bytes (record_bytes r2) ?f" h rs r r2 env] d(1,2,4) assms(9,10) a b(1) by blast
qed

subsection \<open>Reclaiming deletes only acknowledged segments\<close>

lemma zpad_u64: "length (zpad 20 (uint q)) = 20 \<and> list_all is_digit (zpad 20 (uint q)) \<and> digits_value 0 (zpad 20 (uint q)) = unat q"
  for q :: u64
proof -
  have "uint q < 10 ^ 20" using unsigned_less [of q, where 'a = int] by simp
  note z = zpad_digits [OF uint_ge_0 this zero_less_numeral]
  from z show ?thesis unfolding unat_eq_nat_uint by blast
qed

lemma scan_llu_zpad: "scan_llu 20 (zpad 20 (uint q) @ rest) = Some (q, rest)" for q :: u64
proof -
  note z = zpad_u64 [of q]
  obtain c cs where c: "zpad 20 (uint q) = c # cs" "is_digit c" using z by (cases "zpad 20 (uint q)") auto
  have "\<not> is_space c" "c \<noteq> CHR ''-''" "c \<noteq> CHR ''+''" using c(2) by (auto simp: is_digit_def is_space_def)
  moreover have "scan_digits 20 (zpad 20 (uint q) @ rest) = (zpad 20 (uint q), rest)"
    using scan_digits_all [of "zpad 20 (uint q)" rest] z by simp
  ultimately show ?thesis using z c unat_u64_less [of q] by (simp add: scan_llu_def Let_def)
qed

lemma parse_segment_name_name: "parse_segment_name (segment_name first last_seq) = Some (first, last_seq)"
  by (simp add: parse_segment_name_def segment_name_def scan_text_def scan_llu_zpad scan_lit_def)

definition acknowledged_segment :: "u64 \<Rightarrow> string \<Rightarrow> bool" where
  "acknowledged_segment q name \<longleftrightarrow> (\<exists>first last_seq. parse_segment_name name = Some (first, last_seq) \<and> last_seq \<le> q)"

lemma oldest_acknowledged_choice:
  "oldest_acknowledged q names \<noteq> [] \<Longrightarrow> acknowledged_segment q (oldest_acknowledged q names)"
proof -
  let ?g = "\<lambda>(oldest, chosen) name. if reclaimable q oldest name then (fst (the (parse_segment_name name)), name) else (oldest, chosen)"
  have "snd (foldl ?g x names) \<noteq> [] \<longrightarrow> acknowledged_segment q (snd (foldl ?g x names))" if "snd x \<noteq> [] \<longrightarrow> acknowledged_segment q (snd x)" for x
    using that by (induction names arbitrary: x)
      (auto simp: reclaimable_def acknowledged_segment_def split: option.splits prod.splits)
  from this [of "(- 1, [])"] show "oldest_acknowledged q names \<noteq> [] \<Longrightarrow> ?thesis" by (simp add: oldest_acknowledged_def)
qed

lemma file_of_drop [simp]: "file_of (drop_file n c) m = (if m = n then None else file_of c m)"
  by (simp add: file_of_def drop_file_def delete_conv')

definition only_reclaimed :: "storage \<Rightarrow> storage \<Rightarrow> bool" where
  "only_reclaimed st st' \<longleftrightarrow> sh_acknowledged (st_health st') = sh_acknowledged (st_health st) \<and>
     length (sd_files (st_card st')) \<le> length (sd_files (st_card st)) \<and>
     (\<forall>n. file_of (st_card st') n = file_of (st_card st) n \<or>
        file_of (st_card st') n = None \<and> acknowledged_segment (sh_acknowledged (st_health st)) n)"

lemma only_reclaimed_trans: "only_reclaimed a b \<Longrightarrow> only_reclaimed b c \<Longrightarrow> only_reclaimed a c"
  unfolding only_reclaimed_def by (metis order_trans)

lemma update_capacity_reclaimed: "update_capacity st = (e, st1) \<Longrightarrow> only_reclaimed st st1"
  by (auto simp: only_reclaimed_def update_capacity_def esp_vfs_fat_info_def file_of_def Let_def split: prod.splits if_splits)

lemma reclaim_one_step:
  "(case reclaim_one st of Inl (e, st1) \<Rightarrow> e \<noteq> ESP_OK \<and> only_reclaimed st st1 | Inr st1 \<Rightarrow> only_reclaimed st st1)"
proof -
  obtain r c1 where t: "sd_tick (st_card st) = (r, c1)" by (metis prod.exhaust)
  obtain names c2 where l: "listed_names (sd_files c1) c1 = (names, c2)" by (metis prod.exhaust)
  define name where "name = oldest_acknowledged (sh_acknowledged (st_health st)) names"
  obtain ok c3 where u: "unlink name c2 = (ok, c3)" by (metis prod.exhaust)
  obtain e st1 where c: "update_capacity (st\<lparr>st_card := c3\<rparr>) = (e, st1)" by (metis prod.exhaust)
  have files: "sd_files c1 = sd_files (st_card st)" "sd_files c2 = sd_files (st_card st)" using t l by simp_all
  have same: "only_reclaimed st (st\<lparr>st_card := c\<rparr>)" if "sd_files c = sd_files (st_card st)" for c
    using that by (simp add: only_reclaimed_def file_of_def)
  have "only_reclaimed st (st\<lparr>st_card := c3\<rparr>)" if "name \<noteq> []"
  proof (cases ok)
    case True
    then have "sd_files c3 = AList.delete name (sd_files (st_card st))" using u files(2) by (auto simp: unlink_def drop_file_def split: prod.splits if_splits)
    then show ?thesis using oldest_acknowledged_choice [of "sh_acknowledged (st_health st)" names] that AList.length_delete_le
      by (simp add: only_reclaimed_def file_of_def delete_conv' name_def [symmetric])
  next
    case False
    then have "sd_files c3 = sd_files (st_card st)" using u files(2) by (auto simp: unlink_def split: prod.splits if_splits)
    then show ?thesis by (rule same)
  qed
  then show ?thesis
    using t l u c same files update_capacity_reclaimed [OF c] only_reclaimed_trans
    by (auto simp: reclaim_one_def Let_def name_def [symmetric])
qed

text \<open>
  C36. Making room ends and deletes nothing that is still needed. The loop that reclaims space deletes only sealed segments whose last record the
  server has acknowledged, never more files than there are, leaves the contents of every other file as they
  were, and ends with the reserve free or with an error.
\<close>

theorem storage_reclaim_ends:
  assumes "reclaim_loop st = (e, st')"
  shows "(\<forall>n. file_of (st_card st') n = file_of (st_card st) n \<or> file_of (st_card st') n = None \<and>
      (\<exists>first last_seq. parse_segment_name n = Some (first, last_seq) \<and> last_seq \<le> sh_acknowledged (st_health st))) \<and>
    (\<forall>first last_seq. sh_acknowledged (st_health st) < last_seq \<longrightarrow>
      file_of (st_card st') (segment_name first last_seq) = file_of (st_card st) (segment_name first last_seq)) \<and>
    length (sd_files (st_card st')) \<le> length (sd_files (st_card st)) \<and>
    (if e = ESP_OK then PM_STORAGE_EMERGENCY_RESERVE \<le> bytes_free (st_health st') else bytes_free (st_health st) < PM_STORAGE_EMERGENCY_RESERVE)"
proof -
  have "only_reclaimed st st' \<and>
    (if e = ESP_OK then PM_STORAGE_EMERGENCY_RESERVE \<le> bytes_free (st_health st') else bytes_free (st_health st) < PM_STORAGE_EMERGENCY_RESERVE)"
    using assms
  proof (induction st rule: reclaim_loop.induct)
    case (1 st)
    show ?case
    proof (cases "bytes_free (st_health st) \<ge> PM_STORAGE_EMERGENCY_RESERVE")
      case True
      then show ?thesis using 1(2) by (auto simp: reclaim_loop.simps [of st] only_reclaimed_def)
    next
      case False
      then show ?thesis using 1(1) [OF False] 1(2) reclaim_one_step [of st] only_reclaimed_trans
        by (auto simp: reclaim_loop.simps [of st] split: sum.splits if_splits)
    qed
  qed
  moreover have "\<not> acknowledged_segment (sh_acknowledged (st_health st)) (segment_name first last_seq)"
    if "sh_acknowledged (st_health st) < last_seq" for first last_seq
    using that by (simp add: acknowledged_segment_def parse_segment_name_name)
  ultimately show ?thesis unfolding only_reclaimed_def acknowledged_segment_def by blast
qed

subsection \<open>A torn header disables the storage\<close>

text \<open>A journal file too short for its header, on a card whose \<open>rename\<close> does not replace files.\<close>

definition short_segment :: "sd_card \<Rightarrow> bool" where
  "short_segment c \<longleftrightarrow> \<not> sd_replaces c \<and> (\<exists>n f. file_of c n = Some f \<and> journal_file n \<and> length (contents f) < 96)"

lemma sd_replaces_simps [simp]:
  "sd_replaces (put_file n f c) = sd_replaces c" "sd_replaces (drop_file n c) = sd_replaces c"
  by (simp_all add: put_file_def drop_file_def)

lemma sd_tick_replaces [simp]: "sd_tick c = (r, c1) \<Longrightarrow> sd_replaces c1 = sd_replaces c"
proof -
  have "sd_replaces (snd (sd_tick c)) = sd_replaces c" by (cases "sd_results c") (simp_all add: sd_tick_def)
  then show "sd_tick c = (r, c1) \<Longrightarrow> ?thesis" by simp
qed

lemma short_tick: "sd_tick c = (r, c1) \<Longrightarrow> short_segment c1 = short_segment c"
  by (simp add: short_segment_def)

lemma short_cong: "sd_files c1 = sd_files c \<Longrightarrow> sd_replaces c1 = sd_replaces c \<Longrightarrow> short_segment c1 = short_segment c"
  by (simp add: short_segment_def file_of_def)

lemma short_put:
  assumes "short_segment c" "\<And>g. journal_file n \<Longrightarrow> file_of c n = Some g \<Longrightarrow> length (contents g) \<ge> 96"
  shows "short_segment (put_file n f c)"
proof -
  obtain k g where g: "file_of c k = Some g" "journal_file k" "length (contents g) < 96" "\<not> sd_replaces c"
    using assms(1) by (auto simp: short_segment_def)
  then have "k \<noteq> n" using assms(2) by fastforce
  then show ?thesis using g by (auto simp: short_segment_def)
qed

lemma short_other [simp]:
  assumes "\<not> journal_file n"
  shows "short_segment (put_file n f c) = short_segment c" "short_segment (drop_file n c) = short_segment c"
proof -
  have "file_of (put_file n f c) k = file_of c k" "file_of (drop_file n c) k = file_of c k" if "journal_file k" for k
    using that assms by auto
  then show "short_segment (put_file n f c) = short_segment c" "short_segment (drop_file n c) = short_segment c"
    unfolding short_segment_def sd_replaces_simps by metis+
qed

lemma short_rename:
  assumes "rename_file n m c = (ok, c1)" "short_segment c" "journal_file n \<longrightarrow> journal_file m"
  shows "short_segment c1"
proof -
  obtain r c0 where t: "sd_tick c = (r, c0)" by (metis prod.exhaust)
  show ?thesis
  proof (cases ok)
    case True
    then obtain f where f: "file_of c n = Some f" "file_of c m = None" "c1 = put_file m f (drop_file n c0)"
      using assms(1,2) t by (auto simp: rename_file_def short_segment_def split: option.splits if_splits)
    obtain k g where g: "file_of c k = Some g" "journal_file k" "length (contents g) < 96" "\<not> sd_replaces c"
      using assms(2) by (auto simp: short_segment_def)
    have "file_of c1 (if k = n then m else k) = Some g" using f g t by auto
    then show ?thesis using assms(3) g f(3) t unfolding short_segment_def
      by (intro conjI exI [of _ "if k = n then m else k"] exI [of _ g]) (auto split: if_splits)
  next
    case False
    then show ?thesis using assms(1,2) t short_tick [OF t] by (auto simp: rename_file_def split: option.splits if_splits)
  qed
qed

lemma short_writes:
  assumes "\<not> journal_file n"
  shows "fopen_write n c = (ok, c1) \<Longrightarrow> short_segment c1 = short_segment c" "fwrite n bs c = (w, c1) \<Longrightarrow> short_segment c1 = short_segment c"
proof -
  obtain r c0 where t: "sd_tick c = (r, c0)" by (metis prod.exhaust)
  show "fopen_write n c = (ok, c1) \<Longrightarrow> short_segment c1 = short_segment c"
    using assms short_tick [OF t] by (auto simp: fopen_write_def t split: if_splits)
  show "fwrite n bs c = (w, c1) \<Longrightarrow> short_segment c1 = short_segment c"
    using assms short_tick [OF t] by (auto simp: fwrite_def t Let_def split: option.splits)
qed

lemma short_write_new:
  assumes "write_new_file n bs c = (ok, c1)" "\<not> journal_file n"
  shows "short_segment c1 = short_segment c"
proof -
  obtain ok1 c2 where o: "fopen_write n c = (ok1, c2)" by (metis prod.exhaust)
  obtain w c3 where w: "fwrite n bs c2 = (w, c3)" by (metis prod.exhaust)
  obtain s c4 where s: "sd_tick c3 = (s, c4)" by (metis prod.exhaust)
  have "short_segment c2 = short_segment c" "short_segment c3 = short_segment c" "short_segment c4 = short_segment c"
    using short_writes(1) [OF assms(2) o] short_writes(2) [OF assms(2) w] short_tick [OF s] by simp_all
  then show ?thesis using assms(1) by (auto simp: write_new_file_def o w sync_file_def s split: if_splits)
qed

lemma helper_names [simp]:
  "\<not> journal_file ''card.id.new''" "\<not> journal_file ''card.id''" "\<not> journal_file ''selftest.new''" "\<not> journal_file ''selftest.ok''"
  "journal_file (''quarantine_header_'' @ x)" "journal_file (''quarantine_current_'' @ x)" "journal_file PM_CURRENT"
  by (simp_all add: journal_file_def PM_CURRENT_def)

lemma short_rename_other:
  "rename_file n m c = (ok, c1) \<Longrightarrow> \<not> journal_file n \<Longrightarrow> \<not> journal_file m \<Longrightarrow> short_segment c1 = short_segment c"
proof -
  obtain r c0 where t: "sd_tick c = (r, c0)" by (metis prod.exhaust)
  assume "rename_file n m c = (ok, c1)" "\<not> journal_file n" "\<not> journal_file m"
  then show ?thesis using short_tick [OF t] by (auto simp: rename_file_def t split: option.splits if_splits)
qed

lemma short_card_identity:
  assumes "card_identity env st = (e, st1)"
  shows "short_segment (st_card st1) = short_segment (st_card st)"
proof -
  obtain r c1 where t: "sd_tick (st_card st) = (r, c1)" by (metis prod.exhaust)
  obtain ok c2 where w: "write_new_file ''card.id.new'' (se_random env) c1 = (ok, c2)" by (metis prod.exhaust)
  obtain ok2 c3 where n: "rename_file ''card.id.new'' ''card.id'' c2 = (ok2, c3)" by (metis prod.exhaust)
  have "short_segment c1 = short_segment (st_card st)" "short_segment c2 = short_segment (st_card st)" "short_segment c3 = short_segment (st_card st)"
    using short_tick [OF t] short_write_new [OF w] short_rename_other [OF n] by simp_all
  then show ?thesis using assms
    by (auto simp: card_identity_def fopen_read_def t w n set_card_id_def Let_def split: sd_open.splits option.splits if_splits)
qed

lemma short_self_test:
  assumes "storage_self_test st = (e, st1)"
  shows "short_segment (st_card st1) = short_segment (st_card st)"
proof -
  obtain ok c1 where w: "write_new_file ''selftest.new'' self_test_evidence (st_card st) = (ok, c1)" by (metis prod.exhaust)
  obtain ok2 c2 where n: "rename_file ''selftest.new'' ''selftest.ok'' c1 = (ok2, c2)" by (metis prod.exhaust)
  obtain o1 c3 where f: "fopen_read ''selftest.ok'' c2 = (o1, c3)" by (metis prod.exhaust)
  obtain ok4 c4 where u: "unlink ''selftest.ok'' c3 = (ok4, c4)" by (metis prod.exhaust)
  have c3: "short_segment c3 = short_segment c2" using f short_tick by (auto simp: fopen_read_def split: prod.splits)
  have "short_segment c4 = short_segment c3"
  proof -
    obtain r c0 where t: "sd_tick c3 = (r, c0)" by (metis prod.exhaust)
    then show ?thesis using u short_tick [OF t] by (auto simp: unlink_def split: if_splits)
  qed
  with c3 short_write_new [OF w] short_rename_other [OF n] show ?thesis using assms
    by (auto simp: storage_self_test_def w n f u Let_def split: if_splits)
qed

lemma short_capacity: "update_capacity st = (e, st1) \<Longrightarrow> short_segment (st_card st) \<Longrightarrow> short_segment (st_card st1)"
  by (subst short_cong [of _ "st_card st"]) (auto simp: update_capacity_def esp_vfs_fat_info_def Let_def split: prod.splits if_splits)

lemma short_mount:
  assumes "mount_card bus mount env st = (e, st1)" "short_segment (st_card st)"
  shows "short_segment (st_card st1)"
proof -
  obtain r c where t: "sd_tick (st_card st) = (r, c)" by (metis prod.exhaust)
  let ?st = "st\<lparr>st_mounted := True, st_card := c\<rparr>"
  obtain e1 sa where a: "card_identity env ?st = (e1, sa)" by (metis prod.exhaust)
  obtain e2 sb where b: "storage_self_test sa = (e2, sb)" by (metis prod.exhaust)
  obtain e3 sc where c: "update_capacity sb = (e3, sc)" by (metis prod.exhaust)
  have "short_segment c" using short_tick [OF t] assms(2) by simp
  then have "short_segment (st_card sa)" "short_segment (st_card sb)" "short_segment (st_card sc)"
    using short_card_identity [OF a] short_self_test [OF b] short_capacity [OF c] by simp_all
  then show ?thesis using assms \<open>short_segment c\<close> by (auto simp: mount_card_def t a b c ok_then_def Let_def split: if_splits)
qed

lemma short_quarantine: "journal_file n \<Longrightarrow> short_segment (st_card st) \<Longrightarrow> short_segment (st_card (quarantine n st))"
  using short_rename [of PM_CURRENT n "st_card st"] by (cases "rename_file PM_CURRENT n (st_card st)") (simp add: quarantine_def)

lemma segment_header_long: "segment_header_of st f = Some h \<Longrightarrow> length (contents f) \<ge> 96"
  by (auto simp: segment_header_of_def fread_at_def PM_JOURNAL_SEGMENT_HEADER_SIZE_def split: option.splits if_splits)

lemma short_recover:
  assumes "recover_current env st = (e, st1)" "short_segment (st_card st)"
  shows "short_segment (st_card st1)"
proof -
  obtain o1 c1 where o1: "fopen_read PM_CURRENT (st_card st) = (o1, c1)" by (metis prod.exhaust)
  then obtain r where t: "sd_tick (st_card st) = (r, c1)" by (auto simp: fopen_read_def split: prod.splits)
  have c1: "short_segment c1" using short_tick [OF t] assms(2) by simp
  have cut: "short_segment c2" if "truncate_current k f c1 = (ok, f1, c2)" "file_of c1 PM_CURRENT = Some f" "length (contents f) \<ge> 96" for k f ok f1 c2
  proof -
    obtain r c3 where t: "sd_tick c1 = (r, c3)" by (metis prod.exhaust)
    have "short_segment (put_file PM_CURRENT g c3)" for g using short_put [of c3 PM_CURRENT g] short_tick [OF t] c1 that(2,3) t by auto
    then show ?thesis using that(1) c1 short_tick [OF t] by (auto simp: truncate_current_def t Let_def split: if_splits)
  qed
  let ?st = "st\<lparr>st_card := c1\<rparr>"
  consider "o1 = Absent \<or> o1 = Open_Failed" | f where "o1 = Opened f" "segment_header_of ?st f = None" | f h where "o1 = Opened f" "segment_header_of ?st f = Some h"
    by (cases o1) auto
  then show ?thesis
  proof cases
    case 1
    then show ?thesis using assms(1) c1 o1 by (auto simp: recover_current_def Let_def)
  next
    case 2
    then show ?thesis using assms(1) c1 o1 by (simp add: recover_current_def Let_def) (auto intro!: short_quarantine simp: journal_file_def)
  next
    case (3 f h)
    let ?n = "(length (contents f) - PM_JOURNAL_SEGMENT_HEADER_SIZE) div PM_JOURNAL_RECORD_SIZE"
    obtain ok f1 c2 where cut2: "truncate_current (PM_JOURNAL_SEGMENT_HEADER_SIZE + ?n * PM_JOURNAL_RECORD_SIZE) f c1 = (ok, f1, c2)"
      by (metis prod.exhaust)
    have "file_of c1 PM_CURRENT = Some f" using o1 3(1) t by (auto simp: fopen_read_def split: if_splits option.splits)
    then have c2: "short_segment c2" using cut [OF cut2] segment_header_long [OF 3(2)] by simp
    obtain how q where how: "recover_records (st_device_id st) f1 (record_offsets ?n) (st_last st) = (how, q)" by (metis prod.exhaust)
    show ?thesis using assms(1) o1 3 c2 cut2 how
      by (cases how) (auto simp: recover_current_def Let_def journal_file_def intro!: short_quarantine split: if_splits)
  qed
qed

lemma inventory_short: "length (contents f) < 96 \<Longrightarrow> fst (inventory_file st f h) \<noteq> ESP_OK"
  using segment_header_long [of st f] by (cases "segment_header_of st f") (auto simp: inventory_file_def scan_segment_def Let_def)

lemma for_journal_files_fails:
  assumes "(n, f) \<in> set fs" "journal_file n" "\<And>x. fst (visit f x) \<noteq> ESP_OK"
  shows "fst (for_journal_files visit fs c x) \<noteq> ESP_OK"
  using assms(1)
proof (induction fs arbitrary: c x)
  case (Cons p fs)
  obtain k g where p: "p = (k, g)" by (cases p)
  obtain r c1 where t: "sd_tick c = (r, c1)" by (metis prod.exhaust)
  obtain r2 c2 where t2: "sd_tick c1 = (r2, c2)" by (metis prod.exhaust)
  obtain e x1 where v: "visit g x = (e, x1)" by (metis prod.exhaust)
  show ?case
  proof (cases "(n, f) = p")
    case True
    then show ?thesis using assms(2) assms(3) [of x] p t t2 v by auto
  next
    case False
    then have "fst (for_journal_files visit fs c' x') \<noteq> ESP_OK" for c' x' using Cons by simp
    then show ?thesis using p t t2 v by simp
  qed
qed simp

lemma for_journal_files_keeps: "for_journal_files visit fs c x = (e, x1, c1) \<Longrightarrow> short_segment c1 = short_segment c"
proof (induction visit fs c x rule: for_journal_files.induct)
  case (1 visit c x)
  then show ?case using short_tick by (auto split: prod.splits)
next
  case (2 visit name f fs c x)
  obtain r c1 where t: "sd_tick c = (r, c1)" by (metis prod.exhaust)
  obtain r2 c2 where t2: "sd_tick c1 = (r2, c2)" by (metis prod.exhaust)
  obtain e2 x2 where v: "visit f x = (e2, x2)" by (metis prod.exhaust)
  show ?case using 2(1) [OF t [symmetric]] 2(2) [OF t [symmetric] _ _ _ t2 [symmetric] _ v [symmetric]] 2(3) short_tick [OF t] short_tick [OF t2]
    by (auto simp: t t2 v split: if_splits)
qed

lemma short_rebuild:
  assumes "pm_storage_rebuild_index st = (e, st1)" "short_segment (st_card st)"
  shows "e \<noteq> ESP_OK \<and> short_segment (st_card st1)"
proof -
  let ?st = "st\<lparr>st_health := (st_health st)\<lparr>inventory_complete := False\<rparr>\<rparr>"
  obtain r c1 where t: "sd_tick (st_card st) = (r, c1)" by (metis prod.exhaust)
  have c1: "short_segment c1" using short_tick [OF t] assms(2) by simp
  then obtain n f where f: "(n, f) \<in> set (sd_files c1)" "journal_file n" "length (contents f) < 96"
    by (auto simp: short_segment_def file_of_def dest: map_of_SomeD)
  have fails: "x \<noteq> ESP_OK \<and> short_segment c2" if "for_journal_files (inventory_file ?st) (sd_files c1) c1 i = (x, y, c2)" for i x y c2
    using for_journal_files_fails [of n f "sd_files c1" "inventory_file ?st" c1 i] f inventory_short [of f ?st] for_journal_files_keeps [OF that] c1 that
    by simp
  show ?thesis using assms(1) fails c1
    by (auto simp: pm_storage_rebuild_index_def read_all_files_def t Let_def split: if_splits prod.splits)
qed

text \<open>
  C37. A file of the journal that is too short to hold its segment header, as an interrupted first append leaves it, makes every later start
  fail: the recovery moves it to a quarantine name that the inventory scans again. No record can be appended after that start, and
  the short file is still there for the next one. (On a file system on which \<open>rename\<close> does not replace an existing file, as FatFs.)\<close>

theorem storage_torn_header_disables:
  assumes "short_segment (st_card st)" "\<not> sp_started p" "pm_storage_start p env dev st = (e, st1, run)"
  shows "e \<noteq> ESP_OK \<and> (\<forall>env r. append_record env r st1 = (ESP_ERR_INVALID_STATE, st1)) \<and> short_segment (st_card st1)"
proof -
  let ?st = "st\<lparr>st_health := zero_health, st_device_id := dev\<rparr>"
  obtain e1 sa where a: "mount_card (sp_bus p) (sp_mount p) env ?st = (e1, sa)" by (metis prod.exhaust)
  obtain e2 sb where b: "recover_current env (set_status PM_STORAGE_READY sa) = (e2, sb)" by (metis prod.exhaust)
  obtain e3 sc where c: "pm_storage_rebuild_index sb = (e3, sc)" by (metis prod.exhaust)
  have sa: "short_segment (st_card sa)" using short_mount [OF a] assms(1) by simp
  have sb: "short_segment (st_card sb)" using short_recover [OF b] sa by simp
  have sc: "e3 \<noteq> ESP_OK \<and> short_segment (st_card sc)" using short_rebuild [OF c sb] .
  show ?thesis using assms(2,3) sa sb sc
    by (auto simp: pm_storage_start_def a b c ok_then_def append_record_def split: if_splits)
qed

subsection \<open>The answer of a message that timed out\<close>

text \<open>
  When the storage task answers too late, the client takes the answer for that of its next call. A first \<open>pm_storage_append\<close> whose message is
  not handled in time reports a timeout but leaves the message in the queue; the second one, during which the task handles one message, returns
  the result of storing the first record while its own record still waits in the queue.
\<close>

theorem storage_late_answer:
  assumes "sy_queue sy = []" "append_record env r1 (sy_storage sy) = (e, st)"
  shows "\<exists>sy1 sy2. pm_storage_append [] [] r1 sy = (ESP_ERR_TIMEOUT, sy1) \<and> pm_storage_append [] [(env, fmt)] r2 sy1 = (e, sy2) \<and>
    sy_storage sy2 = st \<and> sy_queue sy2 = [Storage_Append r2]"
  using assms
  by (simp add: pm_storage_append_def send_and_wait_def PM_STORAGE_QUEUE_DEPTH_def storage_task_def handle_message_def Let_def)

subsection \<open>Concrete cards\<close>

definition demo_card :: "(string \<times> sd_file) list \<Rightarrow> sd_result list \<Rightarrow> sd_card" where
  "demo_card fs rs = \<lparr>sd_files = fs, sd_results = rs, sd_info = (\<lambda>_. (ESP_OK, 2 ^ 33, 2 ^ 32)), sd_queries = 0, sd_path_length = 16,
     sd_replaces = False\<rparr>"

definition demo_segment :: sd_file where
  "demo_segment = \<lparr>contents = segment_bytes plain_header [plain_record], bad = (\<lambda>_. False)\<rparr>"

definition demo_storage :: "u64 \<Rightarrow> bool \<Rightarrow> sd_card \<Rightarrow> storage" where
  "demo_storage free op c = \<lparr>st_card = c, st_mounted = True, st_open = op, st_device_id = replicate 16 1,
     st_health = zero_health\<lparr>sh_status := PM_STORAGE_READY, sh_card_id := replicate 16 2, sh_acknowledged := 2, bytes_total := 2 ^ 33,
       bytes_free := free, inventory_complete := True\<rparr>,
     st_first = 7, st_last = 7, st_size = 224, st_format = zero_format\<rparr>"

definition demo_env :: storage_env where "demo_env = \<lparr>se_random = replicate 16 5, se_ticks = 100, se_now = 0\<rparr>"

abbreviation working :: storage where "working \<equiv> demo_storage (2 ^ 32) True (demo_card [(PM_CURRENT, demo_segment)] [])"

abbreviation second_record :: pm_journal_record where "second_record \<equiv> plain_record\<lparr>rec_sequence := 8\<rparr>"

lemma demo_simps [simp]:
  "st_card (demo_storage free op c) = c" "st_open (demo_storage free op c) = op" "st_size (demo_storage free op c) = 224"
  "sd_files (demo_card fs rs) = fs" "sd_results (demo_card fs rs) = rs" "\<not> sd_replaces (demo_card fs rs)"
  "sd_path_length (demo_card fs rs) = 16" "sd_info (demo_card fs rs) = (\<lambda>_. (ESP_OK, 2 ^ 33, 2 ^ 32))"
  "file_of (demo_card fs rs) n = map_of fs n" "sh_status (st_health (demo_storage free op c)) = PM_STORAGE_READY"
  "bytes_free (st_health (demo_storage free op c)) = free" "sh_acknowledged (st_health (demo_storage free op c)) = 2"
  "readable demo_segment" "contents demo_segment = segment_bytes plain_header [plain_record]"
  "storage_readable (st_health (demo_storage free op c))" "st_device_id (demo_storage free op c) = replicate 16 1"
  "sh_card_id (st_health (demo_storage free op c)) = replicate 16 2"
  by (simp_all add: demo_storage_def demo_card_def demo_segment_def readable_def file_of_def storage_readable_def)

lemma put_file_info [simp]: "sd_info (put_file n f c) = sd_info c" by (simp add: put_file_def)

lemma demo_updates [simp]:
  "(demo_card fs rs)\<lparr>sd_results := rs'\<rparr> = demo_card fs rs'" "put_file n f (demo_card fs rs) = demo_card (AList.update n f fs) rs"
  "drop_file n (demo_card fs rs) = demo_card (AList.delete n fs) rs" "(demo_storage free op c)\<lparr>st_card := c'\<rparr> = demo_storage free op c'"
  by (simp_all add: demo_card_def demo_storage_def put_file_def drop_file_def)

lemma second_wf: "record_wf second_record"
  using plain_wf(2) by (simp add: record_wf_def)

lemma plain_fields [simp]: "rec_sequence plain_record = 7" "rec_device_id plain_record = replicate 16 1" "seg_device_id plain_header = replicate 16 1"
  "seg_card_id plain_header = replicate 16 2" "first_sequence plain_header = 7"
  by (simp_all add: plain_record_def plain_header_def)

lemma demo_sound:
  "sound_segment (demo_storage free op c) plain_header [plain_record]"
  "sound_segment (demo_storage free op c) plain_header [plain_record, second_record]"
  "sound_journal working [(plain_header, [plain_record])]"
  using plain_wf second_wf
  by (simp_all add: sound_segment_def own_record_def next_expected_def sound_journal_def journal_path_def PM_CURRENT_def journal_file_def)

definition demo_batch :: pm_storage_batch where "demo_batch = \<lparr>records = [plain_record], after_sequence = 1, more_available = True\<rparr>"

theorem storage_batch_window_witness:
  "\<exists>b. read_batch_owner 3 demo_batch working = (ESP_OK, b, working) \<and> map rec_sequence (records b) = [7] \<and> \<not> more_available b"
proof -
  have "{q \<in> rec_sequence ` set (journal_records [(plain_header, [plain_record])]). (3 :: u64) < q} = {7}" by auto
  then show ?thesis using storage_batch_window [of working "[(plain_header, [plain_record])]" 3 demo_batch] demo_sound(3) by fastforce
qed

theorem storage_batch_wellformed_witness:
  "\<exists>b. read_batch_owner 3 demo_batch working = (ESP_OK, b, working) \<and> records b = [durable_part plain_record] \<and> record_wf (durable_part plain_record) \<and>
    rec_device_id (durable_part plain_record) = replicate 16 1"
proof -
  have "read_batch_owner 3 demo_batch working = (ESP_OK, \<lparr>records = [durable_part plain_record], after_sequence = 3, more_available = False\<rparr>, working)"
    using demo_sound(3) by (simp add: read_batch_sound insert_sorted_def batch_position_def insert_at_def PM_STORAGE_BATCH_MAX_def)
  with storage_batch_wellformed [OF _ this] show ?thesis by (simp del: durable_part_simps)
qed

theorem storage_append_atomic_witness:
  "\<exists>st1 st3 f3. append_record demo_env second_record working = (ESP_OK, st1) \<and> recover_current demo_env st1 = (ESP_OK, st3) \<and>
    file_of (st_card st3) PM_CURRENT = Some f3 \<and> contents f3 = segment_bytes plain_header [plain_record, second_record]"
proof -
  obtain st1 where a: "append_record demo_env second_record working = (ESP_OK, st1)" "sd_results (st_card st1) = []" "st_device_id st1 = replicate 16 1"
    "sh_card_id (st_health st1) = replicate 16 2"
    by (simp add: append_record_def PM_STORAGE_EMERGENCY_RESERVE_def append_encoded_def pm_journal_encode_record_def fwrite_def sync_file_def
        PM_JOURNAL_RECORD_SIZE_def update_capacity_def esp_vfs_fat_info_def PM_STORAGE_SEGMENT_LIMIT_def note_range_def Let_def)
  have same: "st_card st1 = (st_card st1)\<lparr>sd_results := []\<rparr>" using a(2) by simp
  show ?thesis
    using storage_append_atomic [OF a(1) _ _ _ _ _ _ _ _ same, of demo_segment plain_header "[plain_record]" demo_env] a(1,3,4) demo_sound(2)
    by (fastforce simp: PM_STORAGE_EMERGENCY_RESERVE_def PM_STORAGE_SEGMENT_LIMIT_def)
qed

theorem append_after_full_lost_witness:
  "\<exists>st1 st2 st3 st4. append_record demo_env plain_record (demo_storage (2 ^ 32) True (demo_card [(PM_CURRENT, demo_segment)] [Sd_No_Space 1])) = (ESP_FAIL, st1) \<and>
    refresh_capacity st1 = (ESP_OK, st2) \<and> append_record demo_env second_record st2 = (ESP_OK, st3) \<and>
    recover_current demo_env st3 = (ESP_OK, st4) \<and> file_of (st_card st4) PM_CURRENT = None"
proof -
  let ?st = "demo_storage (2 ^ 32) True (demo_card [(PM_CURRENT, demo_segment)] [Sd_No_Space 1])"
  have seg: "readable demo_segment" "contents demo_segment = segment_bytes plain_header [plain_record]" by (simp_all add: demo_segment_def readable_def)
  have sound: "sound_segment ?st plain_header [plain_record]" "record_wf plain_record" "record_wf second_record"
    using demo_sound by (auto simp: sound_segment_def own_record_def)
  have st: "file_of (st_card ?st) PM_CURRENT = Some demo_segment" "sd_results (st_card ?st) = [Sd_No_Space 1]"
    "sd_info (st_card ?st) = (\<lambda>_. (ESP_OK, 2 ^ 33, 2 ^ 32))" "st_size ?st + 128 < PM_STORAGE_SEGMENT_LIMIT"
    "PM_STORAGE_EMERGENCY_RESERVE \<le> bytes_free (st_health ?st)" "sh_status (st_health ?st) = PM_STORAGE_READY" "st_open ?st"
    "file_of (st_card ?st) (''quarantine_current_'' @ dec (se_ticks demo_env) @ ''.bin'') = None"
    by (simp_all add: PM_STORAGE_SEGMENT_LIMIT_def PM_STORAGE_EMERGENCY_RESERVE_def PM_CURRENT_def)
  show ?thesis
    using append_after_full_lost [OF st(6,7,5,4,1) seg sound st(2,3) _ _ _ st(8)] by (simp add: PM_STORAGE_EMERGENCY_RESERVE_def) blast
qed

lemma length_segment_name: "length (segment_name first last_seq) = 49"
  using zpad_u64 by (simp add: segment_name_def)

lemma segment_name_inj: "segment_name a b = segment_name c d \<longleftrightarrow> a = c \<and> b = d"
  by (metis parse_segment_name_name option.inject prod.inject)

text \<open>A full card with an acknowledged segment and one that is not.\<close>

abbreviation crowded :: storage where
  "crowded \<equiv> demo_storage 0 False (demo_card [(segment_name 3 4, demo_segment), (segment_name 1 2, demo_segment)] [])"

lemma crowded_chooses: "oldest_acknowledged 2 [segment_name 3 4, segment_name 1 2] = segment_name 1 2"
proof -
  have "(1 :: u64) < - 1" by (simp flip: word_order.not_eq_extremum)
  then show ?thesis by (simp add: oldest_acknowledged_def reclaimable_def parse_segment_name_name length_segment_name)
qed

theorem storage_reclaim_ends_witness:
  "\<exists>st. reclaim_loop crowded = (ESP_OK, st) \<and> map fst (sd_files (st_card st)) = [segment_name 3 4] \<and>
    file_of (st_card st) (segment_name 3 4) = Some demo_segment \<and> PM_STORAGE_EMERGENCY_RESERVE \<le> bytes_free (st_health st)"
proof -
  have name: "segment_name 1 2 \<noteq> []" "journal_path (demo_card fs rs) (segment_name 1 2)" for fs rs
    using length_segment_name [of 1 2] by (auto simp: journal_path_def)
  obtain st where one: "reclaim_one crowded = Inr st" and st: "sd_files (st_card st) = [(segment_name 3 4, demo_segment)]"
    "bytes_free (st_health st) = 2 ^ 32"
    using name by (simp add: reclaim_one_def crowded_chooses unlink_def update_capacity_def esp_vfs_fat_info_def segment_name_inj Let_def)
  then have loop: "reclaim_loop crowded = (ESP_OK, st)"
    by (simp add: reclaim_loop.simps [of crowded] reclaim_loop.simps [of st] PM_STORAGE_EMERGENCY_RESERVE_def)
  show ?thesis using storage_reclaim_ends [OF loop] loop st by (auto simp: file_of_def)
qed

definition demo_platform :: storage_platform where
  "demo_platform = \<lparr>sp_bus = ESP_OK, sp_mount = ESP_OK, sp_started = False, sp_task = True\<rparr>"

text \<open>The first append to an empty card, cut off after ten bytes of the segment header.\<close>

abbreviation cut_off :: storage where "cut_off \<equiv> demo_storage (2 ^ 32) False (demo_card [] [Sd_Ok, Sd_Error 10])"

theorem storage_torn_header_disables_witness:
  "\<exists>st1 e st2 run. append_record demo_env plain_record cut_off = (ESP_FAIL, st1) \<and>
    pm_storage_start demo_platform demo_env (replicate 16 1) st1 = (e, st2, run) \<and> e \<noteq> ESP_OK \<and>
    append_record demo_env plain_record st2 = (ESP_ERR_INVALID_STATE, st2)"
proof -
  obtain st1 where a: "append_record demo_env plain_record cut_off = (ESP_FAIL, st1)" "short_segment (st_card st1)"
    by (simp add: append_record_def open_current_def fopen_append_def fwrite_def sd_tick_def PM_STORAGE_EMERGENCY_RESERVE_def current_length_def
        pm_journal_encode_segment_header_def short_segment_def empty_file_def append_bytes_def Let_def)
  obtain e st2 run where s: "pm_storage_start demo_platform demo_env (replicate 16 1) st1 = (e, st2, run)" by (metis prod.exhaust)
  show ?thesis using storage_torn_header_disables [OF a(2) _ s] a(1) s by (auto simp: demo_platform_def)
qed

theorem storage_late_answer_witness:
  "\<exists>sy1 sy2. pm_storage_append [] [] plain_record
      \<lparr>sy_storage = demo_storage (2 ^ 32) True (demo_card [(PM_CURRENT, demo_segment)] [Sd_No_Space 0]), sy_queue = [], sy_notification = None,
       sy_batch = demo_batch\<rparr> = (ESP_ERR_TIMEOUT, sy1) \<and>
    pm_storage_append [] [(demo_env, \<lambda>fs. (ESP_OK, []))] second_record sy1 = (ESP_FAIL, sy2) \<and> sy_queue sy2 = [Storage_Append second_record]"
proof -
  obtain st where a: "append_record demo_env plain_record (demo_storage (2 ^ 32) True (demo_card [(PM_CURRENT, demo_segment)] [Sd_No_Space 0])) = (ESP_FAIL, st)"
    by (simp add: append_record_def append_encoded_def pm_journal_encode_record_def PM_JOURNAL_RECORD_SIZE_def fwrite_def sd_tick_def
        PM_STORAGE_EMERGENCY_RESERVE_def Let_def)
  show ?thesis
    using storage_late_answer [of "\<lparr>sy_storage = demo_storage (2 ^ 32) True (demo_card [(PM_CURRENT, demo_segment)] [Sd_No_Space 0]),
      sy_queue = [], sy_notification = None, sy_batch = demo_batch\<rparr>" demo_env plain_record ESP_FAIL st "\<lambda>fs. (ESP_OK, [])" second_record] a
    by auto
qed

end
