(* ===== verification/PM_Upload_Safety.thy ===== *)
theory PM_Upload_Safety
  imports PM_Upload PM_Storage_Safety
begin

text \<open>
  What the upload of the journal guarantees together with the storage task, the sequence state and the authenticated request: what is sent,
  what an acknowledgement means, when a heartbeat is due, and two ways in which records are lost.
\<close>

subsection \<open>The inventory of a sound journal\<close>

fun note_records :: "u64 \<Rightarrow> pm_journal_record list \<Rightarrow> pm_storage_health \<Rightarrow> pm_storage_health" where
  "note_records q [] h = h"
| "note_records q (r # rs) h = note_records (next_expected (rec_sequence r)) rs
     (note_range (rec_sequence r) (if rec_sequence r > q then report_unavailable_range h q (rec_sequence r - 1) else h))"

definition note_segment :: "pm_storage_health \<Rightarrow> pm_segment_header \<times> pm_journal_record list \<Rightarrow> pm_storage_health" where
  "note_segment h = (\<lambda>(s, rs). let h1 = note_records (first_sequence s) rs h in h1\<lparr>inventory_scanned_files := inventory_scanned_files h1 + 1\<rparr>)"

lemma take_records_health: "sc_health a = Some h \<Longrightarrow> sc_health (take_records q rs a) = Some (note_records q rs h)"
  by (induction q rs a arbitrary: h rule: take_records.induct) (simp_all add: take_record_def on_health_def Let_def)

lemma inventory_sound_segment:
  assumes "contents f = segment_bytes h rs" "readable f" "sound_segment st h rs"
  shows "inventory_file st f g = (ESP_OK, note_segment g (h, rs))"
  using scan_sound_segment [OF assms, of None "Some g"] take_records_health [of "\<lparr>sc_batch = None, sc_health = Some g, sc_corrupt = False, sc_error = False\<rparr>" g]
  by (simp add: inventory_file_def take_records_flags note_segment_def Let_def)

lemma inventory_sound_files:
  assumes "sd_results (st_card st) = []"
    and "list_all2 (\<lambda>(name, f) (h, rs). journal_path (st_card st) name \<and> readable f \<and>
       contents f = segment_bytes h rs \<and> sound_segment st h rs) (filter (\<lambda>(name, f). journal_file name) fs) J"
  shows "for_journal_files (inventory_file st) fs (st_card st) g = (ESP_OK, foldl note_segment g J, st_card st)"
  using assms(2)
proof (induction fs arbitrary: g J)
  case Nil
  then show ?case using assms(1) by simp
next
  case (Cons x fs)
  obtain name f where x: "x = (name, f)" by (metis prod.exhaust)
  show ?case
  proof (cases "journal_file name")
    case False
    then show ?thesis using Cons assms(1) by (simp add: x)
  next
    case True
    then obtain h rs J' where J: "J = (h, rs) # J'" "journal_path (st_card st) name" "readable f" "contents f = segment_bytes h rs"
      "sound_segment st h rs" using Cons.prems by (auto simp: x list_all2_Cons1)
    have "list_all2 (\<lambda>(name, f) (h, rs). journal_path (st_card st) name \<and> readable f \<and>
       contents f = segment_bytes h rs \<and> sound_segment st h rs) (filter (\<lambda>(name, f). journal_file name) fs) J'"
      using Cons.prems True by (simp add: x J(1))
    from Cons.IH [OF this] show ?thesis
      using True J(2) assms(1) inventory_sound_segment [OF J(4,3,5)] by (simp add: x J(1))
  qed
qed

text \<open>The counters of an inventory start at zero.\<close>

definition inventory_start :: "pm_storage_health \<Rightarrow> pm_storage_health" where
  "inventory_start h = h\<lparr>inventory_complete := False, oldest_sequence := 0, newest_sequence := 0, unavailable_first := 0, unavailable_last := 0,
     corrupt_records := 0, quarantined_segments := 0, inventory_scanned_files := 0\<rparr>"

lemma rebuild_sound:
  assumes "sd_results (st_card st) = []" "sound_journal st J"
  defines "i \<equiv> foldl note_segment (inventory_start (st_health st)) J"
  shows "\<exists>st'. pm_storage_rebuild_index st = (ESP_OK, st') \<and> st_card st' = st_card st \<and> inventory_complete (st_health st') \<and>
    oldest_sequence (st_health st') = oldest_sequence i \<and> unavailable_first (st_health st') = unavailable_first i \<and>
    unavailable_last (st_health st') = unavailable_last i \<and> sh_status (st_health st') = sh_status (st_health st) \<and>
    sh_acknowledged (st_health st') = sh_acknowledged (st_health st) \<and> sh_card_id (st_health st') = sh_card_id (st_health st)"
proof -
  let ?st = "st\<lparr>st_health := (st_health st)\<lparr>inventory_complete := False\<rparr>\<rparr>"
  have same: "sound_segment ?st h rs = sound_segment st h rs" for h rs
    by (simp add: sound_segment_def own_record_def [abs_def])
  have "for_journal_files (inventory_file ?st) (sd_files (st_card st)) (st_card st) g = (ESP_OK, foldl note_segment g J, st_card st)" for g
    using inventory_sound_files [of ?st "sd_files (st_card st)" J g] assms(1,2) by (simp add: sound_journal_def same)
  then show ?thesis
    using assms(1) by (simp add: pm_storage_rebuild_index_def read_all_files_def i_def inventory_start_def Let_def)
qed

subsection \<open>The oldest record\<close>

definition oldest_of :: "u64 set \<Rightarrow> pm_storage_health \<Rightarrow> bool" where
  "oldest_of S h \<longleftrightarrow> finite S \<and> 0 \<notin> S \<and> oldest_sequence h = (if S = {} then 0 else Min S)"

lemma unavailable_oldest [simp]: "oldest_sequence (report_unavailable_range h a b) = oldest_sequence h"
  by (simp add: report_unavailable_range_def Let_def)

lemma oldest_note_range:
  "oldest_sequence (note_range q h) = (if oldest_sequence h = 0 \<or> q < oldest_sequence h then q else oldest_sequence h)"
  by (simp add: note_range_def Let_def)

lemma note_range_oldest:
  assumes "oldest_of S h" "q \<noteq> 0"
  shows "oldest_of (insert q S) (note_range q h)"
proof (cases "S = {}")
  case True
  then show ?thesis using assms by (auto simp: oldest_of_def note_range_def Let_def)
next
  case False
  then have "Min S \<in> S" using assms(1) by (simp add: oldest_of_def)
  then have "Min S \<noteq> 0" using assms(1) by (auto simp: oldest_of_def)
  moreover have "Min (insert q S) = min q (Min S)" using assms(1) False by (simp add: oldest_of_def)
  ultimately show ?thesis using assms False unfolding oldest_of_def oldest_note_range by (simp add: min_def le_less)
qed

lemma note_records_oldest:
  "oldest_of S h \<Longrightarrow> \<forall>r \<in> set rs. rec_sequence r \<noteq> 0 \<Longrightarrow> oldest_of (S \<union> rec_sequence ` set rs) (note_records q rs h)"
proof (induction q rs h arbitrary: S rule: note_records.induct)
  case (2 q r rs h)
  let ?h = "if rec_sequence r > q then report_unavailable_range h q (rec_sequence r - 1) else h"
  have "oldest_of S ?h" using "2.prems"(1) by (simp add: oldest_of_def)
  then have "oldest_of (insert (rec_sequence r) S) (note_range (rec_sequence r) ?h)" using "2.prems"(2) by (intro note_range_oldest) simp_all
  from "2.IH" [OF this] "2.prems"(2) show ?case by simp
qed simp

lemma note_segments_oldest:
  "oldest_of S h \<Longrightarrow> \<forall>r \<in> set (journal_records J). rec_sequence r \<noteq> 0 \<Longrightarrow>
    oldest_of (S \<union> rec_sequence ` set (journal_records J)) (foldl note_segment h J)"
proof (induction J arbitrary: S h)
  case (Cons x J)
  obtain s rs where x: "x = (s, rs)" by (metis prod.exhaust)
  have "oldest_of (S \<union> rec_sequence ` set rs) (note_segment h x)"
    using note_records_oldest [of S h rs "first_sequence s"] Cons.prems by (simp add: note_segment_def x oldest_of_def Let_def)
  from Cons.IH [OF this] Cons.prems(2) show ?case by (simp add: x image_Un Un_assoc)
qed simp

lemma inventory_oldest:
  assumes "\<forall>r \<in> set (journal_records J). rec_sequence r \<noteq> 0"
  shows "oldest_of (rec_sequence ` set (journal_records J)) (foldl note_segment (inventory_start h) J)"
  using note_segments_oldest [of "{}" "inventory_start h" J] assms by (simp add: oldest_of_def inventory_start_def)

subsection \<open>Reports of lost records\<close>

lemma refresh_calm:
  assumes "sy_queue sys = []" "pm_storage_rebuild_index (sy_storage sys) = (ESP_OK, st)"
  shows "pm_storage_refresh_inventory [] [w] sys = (ESP_OK, sys\<lparr>sy_storage := st, sy_queue := [], sy_notification := None\<rparr>)"
  using assms
  by (cases w) (simp add: pm_storage_refresh_inventory_def send_and_wait_def PM_STORAGE_QUEUE_DEPTH_def storage_task_def handle_message_def Let_def)

lemma acknowledged_stored: "pm_sequence_acknowledge s ack n = (ESP_OK, s', n') \<Longrightarrow> acknowledged s' = ack"
  using seq_persist_cases by (fastforce simp: pm_sequence_acknowledge_def split: if_splits prod.splits)

lemma journal_request_body:
  assumes "journal_request p peer path body u = (e, response, Some q, u')"
  shows "rq_body q = cstr body"
proof -
  obtain e0 st used rq ctx where r: "signed_request (jp_psa p) (jp_b64enc p) (jp_b64dec p) (jp_mutex p)
      (if cstr body = [] then peer\<lparr>np_written := 0\<rparr> else peer) path body PM_NETWORK_RESPONSE_MAX 0 (ul_network u) = (e0, st, used, rq, ctx)"
    by (metis prod.exhaust)
  then show ?thesis using assms signed_request_cases [OF r]
    by (auto simp: journal_request_def request_sent_def split: if_splits)
qed

lemma render_json_ok: "render_json print doc n = Inr body \<Longrightarrow> print doc n = Some body"
  by (simp add: render_json_def split: if_splits option.splits)

lemma loss_start:
  assumes "sy_queue (ul_storage u) = []" "possible_loss u" "pm_storage_rebuild_index (sy_storage (ul_storage u)) = (ESP_OK, st)"
  defines "u1 \<equiv> u\<lparr>ul_storage := (ul_storage u)\<lparr>sy_storage := st, sy_queue := [], sy_notification := None\<rparr>\<rparr>"
  shows "send_permanent_loss p peer ([], [w]) u = (case loss_report u1 of
      Inl e \<Rightarrow> (e, None, u1)
    | Inr lost \<Rightarrow> (case pm_network_serialize_permanent_loss (jp_print p) (jp_alloc p) (jp_psa p) lost (PM_NETWORK_BODY_MAX + 1) of
         Inl e \<Rightarrow> (e, None, u1)
       | Inr body \<Rightarrow> (case journal_request p peer (jp_loss_endpoint p) body u1 of (e, response, rq, u2) \<Rightarrow>
            if e \<noteq> ESP_OK then (e, rq, u2)
            else case answer_acknowledgement p True response of
              None \<Rightarrow> (ESP_ERR_INVALID_RESPONSE, rq, u2)
            | Some ack \<Rightarrow> if ack < unavailable_last lost then (ESP_ERR_INVALID_RESPONSE, rq, u2)
                else (case store_acknowledgement ack u2 of (e2, u3) \<Rightarrow>
                  (e2, rq, if e2 = ESP_OK then u3\<lparr>loss_reported_through := unavailable_last lost\<rparr> else u3)))))"
  unfolding send_permanent_loss_def u1_def Let_def using refresh_calm [OF assms(1,3)] assms(2) by simp

text \<open>The range that is reported when the inventory was refreshed without an error.\<close>

lemma loss_request:
  assumes "send_permanent_loss p peer ([], [w]) u = (e, Some q, u')" "sy_queue (ul_storage u) = []" "possible_loss u"
    and "pm_storage_rebuild_index (sy_storage (ul_storage u)) = (ESP_OK, st)"
  obtains lost body where "rq_body q = cstr body" "jp_print p (loss_document (jp_psa p) lost) (PM_NETWORK_BODY_MAX + 1) = Some body"
    "loss_report (u\<lparr>ul_storage := (ul_storage u)\<lparr>sy_storage := st, sy_queue := [], sy_notification := None\<rparr>\<rparr>) = Inr lost"
    "e = ESP_OK \<longrightarrow> unavailable_last lost \<le> acknowledged (ul_sequence u')"
proof -
  let ?u = "u\<lparr>ul_storage := (ul_storage u)\<lparr>sy_storage := st, sy_queue := [], sy_notification := None\<rparr>\<rparr>"
  note start = loss_start [OF assms(2-4), of p peer w]
  obtain lost body where l: "loss_report ?u = Inr lost"
    "pm_network_serialize_permanent_loss (jp_print p) (jp_alloc p) (jp_psa p) lost (PM_NETWORK_BODY_MAX + 1) = Inr body"
    using assms(1) unfolding start by (auto split: sum.splits)
  obtain e1 response rq u2 where r: "journal_request p peer (jp_loss_endpoint p) body ?u = (e1, response, rq, u2)" by (metis prod.exhaust)
  have rq: "rq = Some q" using assms(1) start l r by (auto split: if_splits option.splits prod.splits)
  have "rq_body q = cstr body" using journal_request_body r rq by metis
  moreover have "jp_print p (loss_document (jp_psa p) lost) (PM_NETWORK_BODY_MAX + 1) = Some body"
    using l(2) render_json_ok by (fastforce simp: pm_network_serialize_permanent_loss_def split: if_splits)
  moreover have "e = ESP_OK \<longrightarrow> unavailable_last lost \<le> acknowledged (ul_sequence u')"
    using assms(1) start l r
    by (auto simp: store_acknowledgement_def Let_def set_acknowledged_def not_less split: if_splits option.splits prod.splits
        dest!: acknowledged_stored)
  ultimately show ?thesis using that l(1) by blast
qed

text \<open>
  A missing prefix that is reported is missing. On a working card with a sound journal whose oldest record lies beyond the next number that
  the server expects, the range that \<open>send_permanent_loss\<close> reports as lost is exactly that between the acknowledgement and the oldest
  record, and no record of the journal is in it.
\<close>

theorem loss_report_prefix_absent:
  fixes J :: "(pm_segment_header \<times> pm_journal_record list) list"
  assumes "send_permanent_loss p peer ([], [w]) u = (e, Some q, u')" "sy_queue (ul_storage u) = []" "possible_loss u"
    and "sd_results (st_card (sy_storage (ul_storage u))) = []" "sound_journal (sy_storage (ul_storage u)) J"
    and "\<forall>r \<in> set (journal_records J). rec_sequence r \<noteq> 0" "journal_records J \<noteq> []" "acknowledged (ul_sequence u) \<noteq> - 1"
    and "acknowledged (ul_sequence u) + 1 < Min (rec_sequence ` set (journal_records J))"
  shows "\<exists>lost body. rq_body q = cstr body \<and> jp_print p (loss_document (jp_psa p) lost) (PM_NETWORK_BODY_MAX + 1) = Some body \<and>
    {unavailable_first lost..unavailable_last lost} = {acknowledged (ul_sequence u)<..<Min (rec_sequence ` set (journal_records J))} \<and>
    (\<forall>r \<in> set (journal_records J). rec_sequence r \<notin> {unavailable_first lost..unavailable_last lost})"
proof -
  let ?S = "rec_sequence ` set (journal_records J)" and ?ack = "acknowledged (ul_sequence u)"
  obtain st where st: "pm_storage_rebuild_index (sy_storage (ul_storage u)) = (ESP_OK, st)" "oldest_sequence (st_health st) =
      oldest_sequence (foldl note_segment (inventory_start (ul_health u)) J)"
    using rebuild_sound [OF assms(4,5)] by blast
  have oldest: "oldest_sequence (st_health st) = Min ?S" using inventory_oldest [OF assms(6), of "ul_health u"] assms(7) st(2) by (auto simp: oldest_of_def)
  have "Min ?S \<in> ?S" using assms(7) by (intro Min_in) auto
  then have nz: "Min ?S \<noteq> 0" using assms(6) by force
  obtain lost body where l: "rq_body q = cstr body" "jp_print p (loss_document (jp_psa p) lost) (PM_NETWORK_BODY_MAX + 1) = Some body"
    "loss_report (u\<lparr>ul_storage := (ul_storage u)\<lparr>sy_storage := st, sy_queue := [], sy_notification := None\<rparr>\<rparr>) = Inr lost"
    using loss_request [OF assms(1-3) st(1)] by blast
  have "unavailable_first lost = ?ack + 1 \<and> unavailable_last lost = Min ?S - 1"
    using l(3) assms(8,9) oldest nz
    by (auto simp: loss_report_def pm_backlog_detect_missing_prefix_def not_le Let_def split: if_splits)
  with gap_bounds(1) [OF assms(8), of "Min ?S"] assms(9)
  have range: "{unavailable_first lost..unavailable_last lost} = {?ack<..<Min ?S}" by (simp add: not_le)
  moreover have "rec_sequence r \<notin> {?ack<..<Min ?S}" if "r \<in> set (journal_records J)" for r
    using Min_le [of ?S "rec_sequence r"] that by (auto simp: not_less)
  ultimately show ?thesis using l(1,2) by blast
qed

lemma word_gap:
  fixes a b :: u64
  assumes "a < b" "a + 1 < b"
  shows "a + 1 \<noteq> 0" "a + 1 \<le> b - 1" "a < b - 1" "a \<noteq> - 1" "b - 1 < b"
proof -
  show a: "a \<noteq> - 1" using assms(1) word_order.extremum_strict [of b] by blast
  have b: "b \<noteq> 0" using assms(1) by auto
  show "a + 1 \<noteq> 0" using a eq_neg_iff_add_eq_0 [of a 1] by simp
  have n: "Suc (unat a) < unat b" using assms(2) unat_Suc_word [OF a] by (simp only: word_less_nat_alt)
  show "a + 1 \<le> b - 1" using n unfolding word_le_nat_alt unat_Suc_word [OF a] unat_minus_one [OF b] by linarith
  show "a < b - 1" "b - 1 < b" using n unfolding word_less_nat_alt unat_minus_one [OF b] by linarith+
qed

lemma first_gap:
  "unavailable_first h = 0 \<Longrightarrow> unavailable_last h = 0 \<Longrightarrow> 0 < x \<Longrightarrow> x \<le> y \<Longrightarrow> unavailable_first (report_unavailable_range h x y) = x \<and>
     unavailable_last (report_unavailable_range h x y) = y"
  by (auto simp: report_unavailable_range_def Let_def)

lemma later_gap:
  "0 < unavailable_first h \<Longrightarrow> unavailable_first h \<le> x \<Longrightarrow> x \<le> y \<Longrightarrow> unavailable_last h < y \<Longrightarrow>
     unavailable_first (report_unavailable_range h x y) = unavailable_first h \<and> unavailable_last (report_unavailable_range h x y) = y"
  by (auto simp: report_unavailable_range_def Let_def)

lemma two_gaps:
  assumes "rec_sequence r1 < rec_sequence r2" "rec_sequence r1 + 1 < rec_sequence r2" "rec_sequence r2 < rec_sequence r3" "rec_sequence r2 + 1 < rec_sequence r3"
    and "unavailable_first h = 0" "unavailable_last h = 0"
  shows "unavailable_first (note_records (rec_sequence r1) [r1, r2, r3] h) = rec_sequence r1 + 1"
    "unavailable_last (note_records (rec_sequence r1) [r1, r2, r3] h) = rec_sequence r3 - 1"
proof -
  let ?a = "rec_sequence r1" and ?b = "rec_sequence r2" and ?c = "rec_sequence r3"
  note g = word_gap [OF assms(1,2)] word_gap [OF assms(3,4)]
  have [simp]: "unavailable_first (note_range q x) = unavailable_first x" "unavailable_last (note_range q x) = unavailable_last x" for q x
    by (simp_all add: note_range_def Let_def)
  have pos: "0 < ?a + 1" using g(1) by (simp add: word_gt_0)
  define h1 where "h1 = report_unavailable_range (note_range ?a h) (?a + 1) (?b - 1)"
  have h1: "unavailable_first h1 = ?a + 1" "unavailable_last h1 = ?b - 1"
    using first_gap [of "note_range ?a h" "?a + 1" "?b - 1"] pos g(2) assms(5,6) by (simp_all add: h1_def)
  have ab: "?a + 1 \<le> ?b + 1" using less_imp_le [OF assms(2)] less_imp_le [OF word_Suc_gt [OF g(9)]] by (rule order_trans)
  have bc: "?b - 1 < ?c - 1" using less_trans [OF g(5) g(8)] .
  define h2 where "h2 = report_unavailable_range (note_range ?b h1) (?b + 1) (?c - 1)"
  have h2: "unavailable_first h2 = ?a + 1" "unavailable_last h2 = ?c - 1"
    using later_gap [of "note_range ?b h1" "?b + 1" "?c - 1"] pos ab bc g(7) h1 by (simp_all add: h2_def)
  have "note_records ?a [r1, r2, r3] h = note_range ?c h2"
    using assms(2,4) g(4,9) by (simp add: next_expected_def h1_def h2_def)
  then show "unavailable_first (note_records ?a [r1, r2, r3] h) = ?a + 1" "unavailable_last (note_records ?a [r1, r2, r3] h) = ?c - 1"
    using h2 by simp_all
qed

text \<open>
  C40. Two gaps make the firmware give up what lies between them. When a segment holds three records with a gap in the numbers before the second
  and before the third, as two restarts leave them, the range that \<open>send_permanent_loss\<close> reports as lost reaches from the first gap to the
  last and contains the second record, which is on the card. When the server accepts the report, that record counts as acknowledged: it is
  never uploaded and its segment may be deleted.
\<close>

theorem loss_report_covers_stored:
  assumes "send_permanent_loss p peer ([], [w]) u = (e, Some q, u')" "sy_queue (ul_storage u) = []" "possible_loss u"
    and "sd_results (st_card (sy_storage (ul_storage u))) = []" "sound_journal (sy_storage (ul_storage u)) [(h, [r1, r2, r3])]"
    and "first_sequence h = rec_sequence r1" "rec_sequence r1 < rec_sequence r2" "rec_sequence r1 + 1 < rec_sequence r2"
    and "rec_sequence r2 < rec_sequence r3" "rec_sequence r2 + 1 < rec_sequence r3"
    and "rec_sequence r1 \<noteq> 0" "acknowledged (ul_sequence u) \<noteq> - 1" "rec_sequence r1 \<le> acknowledged (ul_sequence u) + 1"
  shows "\<exists>lost body. rq_body q = cstr body \<and> jp_print p (loss_document (jp_psa p) lost) (PM_NETWORK_BODY_MAX + 1) = Some body \<and>
    unavailable_first lost = rec_sequence r1 + 1 \<and> unavailable_last lost = rec_sequence r3 - 1 \<and>
    rec_sequence r2 \<in> {unavailable_first lost..unavailable_last lost} \<and> (e = ESP_OK \<longrightarrow> rec_sequence r2 < acknowledged (ul_sequence u'))"
proof -
  let ?i = "foldl note_segment (inventory_start (ul_health u)) [(h, [r1, r2, r3])]"
  obtain st where st: "pm_storage_rebuild_index (sy_storage (ul_storage u)) = (ESP_OK, st)" "oldest_sequence (st_health st) = oldest_sequence ?i"
    "unavailable_first (st_health st) = unavailable_first ?i" "unavailable_last (st_health st) = unavailable_last ?i" "inventory_complete (st_health st)"
    using rebuild_sound [OF assms(4,5)] by blast
  have nz: "rec_sequence r2 \<noteq> 0" "rec_sequence r3 \<noteq> 0" using assms(7,9) by auto
  have "Min {rec_sequence r1, rec_sequence r2, rec_sequence r3} = rec_sequence r1" using assms(7,9) by (auto simp: min_def)
  then have oldest: "oldest_sequence (st_health st) = rec_sequence r1"
    using inventory_oldest [of "[(h, [r1, r2, r3])]" "ul_health u"] st(2) nz assms(11) by (simp add: oldest_of_def)
  have gaps: "unavailable_first (st_health st) = rec_sequence r1 + 1" "unavailable_last (st_health st) = rec_sequence r3 - 1"
    using two_gaps [OF assms(7-10), of "inventory_start (ul_health u)"] st(3,4) assms(6) by (simp_all add: note_segment_def inventory_start_def Let_def)
  obtain lost body where l: "rq_body q = cstr body" "jp_print p (loss_document (jp_psa p) lost) (PM_NETWORK_BODY_MAX + 1) = Some body"
    "loss_report (u\<lparr>ul_storage := (ul_storage u)\<lparr>sy_storage := st, sy_queue := [], sy_notification := None\<rparr>\<rparr>) = Inr lost"
    "e = ESP_OK \<longrightarrow> unavailable_last lost \<le> acknowledged (ul_sequence u')"
    using loss_request [OF assms(1-3) st(1)] by blast
  have "lost = st_health st" using l(3) oldest assms(11-13) st(5)
    by (auto simp: loss_report_def pm_backlog_detect_missing_prefix_def Let_def split: if_splits)
  moreover have "rec_sequence r1 + 1 \<le> rec_sequence r2" "rec_sequence r2 < rec_sequence r3 - 1"
    using assms(8) word_gap(3) [OF assms(9,10)] by simp_all
  ultimately have "unavailable_first lost = rec_sequence r1 + 1 \<and> unavailable_last lost = rec_sequence r3 - 1 \<and>
    rec_sequence r2 \<in> {unavailable_first lost..unavailable_last lost} \<and> (e = ESP_OK \<longrightarrow> rec_sequence r2 < acknowledged (ul_sequence u'))"
    using l(4) gaps by auto
  then show ?thesis using l(1,2) by blast
qed

subsection \<open>Deadlines of heartbeats\<close>

lemma next_deadline_ends:
  assumes "0 < period"
  shows "\<exists>k > 0. next_deadline period now d = Some (d + k * period) \<and> now < d + k * period \<and> d + (k - 1) * period \<le> max now d"
proof (induction "nat (now - d + 1)" arbitrary: d rule: less_induct)
  case less
  show ?case
  proof (cases "d + period \<le> now")
    case True
    then have "nat (now - (d + period) + 1) < nat (now - d + 1)" using assms by simp
    from less [OF this] obtain k where k: "k > 0" "next_deadline period now (d + period) = Some (d + period + k * period)"
      "now < d + period + k * period" "d + period + (k - 1) * period \<le> max now (d + period)" by blast
    have "d + period + k * period = d + (k + 1) * period" "d + period + (k - 1) * period = d + ((k + 1) - 1) * period" by (simp_all add: algebra_simps)
    then show ?thesis using k True by (intro exI [of _ "k + 1"]) (simp add: next_deadline.simps [of period now d])
  next
    case False
    then show ?thesis by (intro exI [of _ 1]) (simp add: next_deadline.simps [of period now d])
  qed
qed

lemma next_deadline_stuck:
  assumes "next_deadline period now d = Some r"
  shows "period = 0 \<longrightarrow> now < d"
  by (rule next_deadline.raw_induct [where P = "\<lambda>p n d r. p = 0 \<longrightarrow> n < d", OF _ assms]) (fastforce split: if_splits)

text \<open>
  The loop that advances the heartbeat deadline ends for every positive period: the new deadline is the first one after the present that is a
  whole number of periods behind the old one (at least one period when the old one lies ahead), and uploads are let through
  only when they would be over before it. With a period of zero and a deadline that has come the loop never ends.
\<close>

theorem heartbeat_deadline_advances:
  "if 0 < heartbeat_period_us s
   then \<exists>s' k. pm_network_heartbeat_complete s now ok = Some s' \<and> 0 < k \<and> next_heartbeat_us s' = next_heartbeat_us s + k * heartbeat_period_us s \<and>
     now < next_heartbeat_us s' \<and> next_heartbeat_us s' - heartbeat_period_us s \<le> max now (next_heartbeat_us s) \<and> \<not> js_request_in_progress s' \<and>
     \<not> pm_network_heartbeat_due s' now \<and>
     (\<forall>t worst. pm_network_backlog_allowed s' t worst \<longrightarrow> (\<forall>x. x \<le> t + worst \<longrightarrow> \<not> pm_network_heartbeat_due s' x))
   else heartbeat_period_us s = 0 \<and> next_heartbeat_us s \<le> now \<longrightarrow> pm_network_heartbeat_complete s now ok = None"
proof (cases "0 < heartbeat_period_us s")
  case True
  from next_deadline_ends [OF this, of now "next_heartbeat_us s"] obtain k where k: "k > 0"
    "next_deadline (heartbeat_period_us s) now (next_heartbeat_us s) = Some (next_heartbeat_us s + k * heartbeat_period_us s)"
    "now < next_heartbeat_us s + k * heartbeat_period_us s"
    "next_heartbeat_us s + (k - 1) * heartbeat_period_us s \<le> max now (next_heartbeat_us s)" by blast
  have "next_heartbeat_us s + k * heartbeat_period_us s - heartbeat_period_us s = next_heartbeat_us s + (k - 1) * heartbeat_period_us s"
    by (simp add: algebra_simps)
  then show ?thesis using True k
    by (auto simp: pm_network_heartbeat_complete_def pm_network_heartbeat_due_def pm_network_backlog_allowed_def Let_def intro!: exI [of _ k])
next
  case False
  have "next_deadline 0 now (next_heartbeat_us s) = None" if "next_heartbeat_us s \<le> now"
    using next_deadline_stuck [of 0 now "next_heartbeat_us s"] that by (cases "next_deadline 0 now (next_heartbeat_us s)") auto
  then show ?thesis using False by (auto simp: pm_network_heartbeat_complete_def Let_def)
qed

theorem heartbeat_deadline_advances_witness:
  "\<exists>s' k. pm_network_heartbeat_complete (journal_scheduler_init 0 60) 5 True = Some s' \<and> 0 < k \<and> next_heartbeat_us s' = k * 60000000 \<and>
    5 < next_heartbeat_us s' \<and> \<not> pm_network_heartbeat_due s' 5"
  using heartbeat_deadline_advances [of "journal_scheduler_init 0 60" 5 True] by (auto simp: journal_scheduler_init_def)

subsection \<open>What is uploaded\<close>

definition upload_fits :: "'j upload_platform \<Rightarrow> pm_storage_batch \<Rightarrow> nat \<Rightarrow> string \<Rightarrow> bool" where
  "upload_fits p b k body \<longleftrightarrow> pm_network_serialize_reading_batch (jp_print p) (jp_alloc p) (take k (records b)) (jp_measure_max p + 1) = Inr body \<and>
     length (cstr body) \<le> jp_measure_max p \<and> length (cstr body) \<le> PM_NETWORK_BODY_MAX"

lemma probe_fits:
  assumes "0 < k" "k \<le> length (records b)" "probe_reading_batch p b k c = (st, bytes, c')"
  shows "st = PM_BACKLOG_PROBE_OK \<and> bytes < PM_NETWORK_BODY_MAX + 1 \<longleftrightarrow> (\<exists>body. upload_fits p b k body)"
    "upload_fits p b k body \<Longrightarrow> bytes = length (cstr body) \<and> pr_measure c' = cstr body"
  using assms by (auto simp: probe_reading_batch_def upload_fits_def Let_def split: sum.splits if_splits)

lemma shrink_upload:
  assumes "shrink_to_fit (probe_reading_batch p b) n plan c = (PM_BACKLOG_PLAN_OK, plan', c')" "n \<le> length (records b)"
    "body_capacity plan = PM_NETWORK_BODY_MAX + 1"
  shows "\<exists>body. 0 < selected_records plan' \<and> selected_records plan' \<le> n \<and> upload_fits p b (selected_records plan') body \<and>
    serialized_bytes plan' = length (cstr body) \<and> pr_measure c' = cstr body \<and>
    (\<forall>j body. selected_records plan' < j \<and> j \<le> n \<longrightarrow> \<not> upload_fits p b j body)"
  using assms
proof (induction n arbitrary: plan c)
  case (Suc n)
  obtain st bytes c1 where p: "probe_reading_batch p b (Suc n) c = (st, bytes, c1)" by (metis prod.exhaust)
  note f = probe_fits [OF _ Suc.prems(2) p]
  show ?case
  proof (cases "\<exists>body. upload_fits p b (Suc n) body")
    case True
    then obtain body where body: "upload_fits p b (Suc n) body" by blast
    then show ?thesis using f(1) f(2) [OF _ body] Suc.prems(1,3) p True
      by (intro exI [of _ body]) auto
  next
    case False
    then have "shrink_to_fit (probe_reading_batch p b) n (plan\<lparr>serialized_bytes := bytes\<rparr>) c1 = (PM_BACKLOG_PLAN_OK, plan', c')"
      using f(1) Suc.prems(1,3) p by (auto split: if_splits)
    from Suc.IH [OF this] Suc.prems(2,3) show ?thesis using False by (auto simp: le_Suc_eq)
  qed
qed simp

lemma bounded_limit: "pm_backlog_bounded_record_limit m 16 = min 16 (max 1 m)"
  by (auto simp: pm_backlog_bounded_record_limit_def)

lemma backlog_plan_upload:
  assumes "backlog_plan p b s = (PM_BACKLOG_PLAN_OK, plan, c)" "adaptive_batch_records s = of_nat (pm_backlog_bounded_record_limit m 16)"
  shows "\<exists>k body. 0 < k \<and> k \<le> length (records b) \<and> k \<le> pm_backlog_bounded_record_limit m 16 \<and> upload_fits p b k body \<and> serialized_bytes plan = length (cstr body) \<and> pr_measure c = cstr body \<and>
    (\<forall>j body. k < j \<and> j \<le> length (records b) \<and> j \<le> pm_backlog_bounded_record_limit m 16 \<longrightarrow> \<not> upload_fits p b j body)"
proof -
  let ?limit = "pm_backlog_bounded_record_limit m 16"
  have lim: "0 < ?limit" "?limit \<le> 16" by (auto simp: pm_backlog_bounded_record_limit_def)
  then have "unat (adaptive_batch_records s) = ?limit" using assms(2) by (simp add: unat_of_nat)
  then have bounded: "pm_backlog_bounded_record_limit (unat (adaptive_batch_records s)) 16 = ?limit"
    using lim by (simp add: pm_backlog_bounded_record_limit_def)
  have ne: "length (records b) \<noteq> 0"
    using assms(1) by (auto simp: backlog_plan_def pm_backlog_select_largest_fitting_def PM_STORAGE_BATCH_MAX_def PM_NETWORK_BODY_MAX_def split: if_splits)
  let ?n = "if length (records b) < ?limit then length (records b) else ?limit"
  let ?plan = "\<lparr>configured_max_records = unat (adaptive_batch_records s), available_records = length (records b), candidate_records = ?n,
     selected_records = 0, serialized_bytes = 0, body_capacity = PM_NETWORK_BODY_MAX + 1, reduced = False\<rparr>"
  have sh: "shrink_to_fit (probe_reading_batch p b) ?n ?plan \<lparr>pr_measure = [], serialization_error = ESP_OK\<rparr> = (PM_BACKLOG_PLAN_OK, plan, c)"
    "body_capacity ?plan = PM_NETWORK_BODY_MAX + 1"
    using assms(1) ne unfolding backlog_plan_def pm_backlog_select_largest_fitting_def PM_STORAGE_BATCH_MAX_def bounded Let_def
    by (simp_all add: PM_NETWORK_BODY_MAX_def)
  have "?n \<le> length (records b)" by simp
  from shrink_upload [OF sh(1) this sh(2)] obtain body where b: "0 < selected_records plan" "selected_records plan \<le> ?n"
    "upload_fits p b (selected_records plan) body" "serialized_bytes plan = length (cstr body)" "pr_measure c = cstr body"
    "\<forall>j body. selected_records plan < j \<and> j \<le> ?n \<longrightarrow> \<not> upload_fits p b j body" by blast
  then show ?thesis using lim(2) by (intro exI [of _ "selected_records plan"] exI [of _ body]) (auto split: if_splits)
qed

lemma read_batch_calm:
  assumes "sy_queue sys = []" "read_batch_owner cursor (sy_batch sys) (sy_storage sys) = (ESP_OK, b, st)"
  shows "pm_storage_read_batch [] [w] cursor sys = (ESP_OK, sys\<lparr>sy_storage := st, sy_queue := [], sy_notification := None, sy_batch := b\<rparr>)"
  using assms
  by (cases w) (simp add: pm_storage_read_batch_def send_and_wait_def PM_STORAGE_QUEUE_DEPTH_def storage_task_def handle_message_def Let_def)

lemma take_cstr_prefix [simp]: "cstr (take (length (cstr body)) (cstr body)) = cstr body"
  by simp

lemma send_backlog_request:
  assumes "send_backlog p peer run s u = (e, Some q, s', u')"
    "pm_storage_read_batch (fst run) (snd run) (acknowledged (ul_sequence u)) (ul_storage u) = (e0, sys)"
  shows "e0 = ESP_OK \<and> (\<exists>k body. 0 < k \<and> k \<le> length (records (sy_batch sys)) \<and> k \<le> min 16 (max 1 (unat (adaptive_batch_records s))) \<and>
    upload_fits p (sy_batch sys) k body \<and> rq_body q = cstr body \<and>
    (\<forall>j body. k < j \<and> j \<le> length (records (sy_batch sys)) \<and> j \<le> min 16 (max 1 (unat (adaptive_batch_records s))) \<longrightarrow>
       \<not> upload_fits p (sy_batch sys) j body))"
proof -
  let ?s = "s\<lparr>adaptive_batch_records := of_nat (pm_backlog_bounded_record_limit (unat (adaptive_batch_records s)) PM_STORAGE_BATCH_MAX)\<rparr>"
  let ?u = "u\<lparr>ul_storage := sys\<rparr>"
  obtain st plan c where b: "backlog_plan p (sy_batch sys) ?s = (st, plan, c)" by (metis prod.exhaust)
  have ok: "e0 = ESP_OK" "st = PM_BACKLOG_PLAN_OK" using assms b by (auto simp: send_backlog_def Let_def split: if_splits)
  obtain e1 response rq u2 where r: "journal_request p peer (jp_readings_endpoint p) (take (serialized_bytes plan) (pr_measure c)) ?u = (e1, response, rq, u2)"
    by (metis prod.exhaust)
  have rq: "rq = Some q" using assms b ok r by (auto simp: send_backlog_def Let_def split: if_splits option.splits prod.splits)
  from backlog_plan_upload [OF b [unfolded ok(2)], of "unat (adaptive_batch_records s)"] obtain k body where k: "0 < k" "k \<le> length (records (sy_batch sys))"
    "k \<le> min 16 (max 1 (unat (adaptive_batch_records s)))"
    "upload_fits p (sy_batch sys) k body" "serialized_bytes plan = length (cstr body)" "pr_measure c = cstr body"
    "\<forall>j body. k < j \<and> j \<le> length (records (sy_batch sys)) \<and> j \<le> min 16 (max 1 (unat (adaptive_batch_records s))) \<longrightarrow>
       \<not> upload_fits p (sy_batch sys) j body" unfolding bounded_limit by (auto simp: PM_STORAGE_BATCH_MAX_def bounded_limit)
  have "rq_body q = cstr body" using journal_request_body [OF r [unfolded rq]] k(5,6) by simp
  then show ?thesis using ok(1) k by blast
qed

text \<open>
  C39. An upload is the next part of the journal. When the card works and holds a sound journal and the storage task, with nothing else in its
  queue, answers in time, the request that \<open>send_backlog\<close> sends carries the records with the lowest sequence numbers behind the server's
  acknowledgement, in order, without a gap among those on the card and each as it was stored; their number is at least one, at most sixteen and
  at most the adaptive limit (or one, if that is zero), and the largest such number whose document fits into a request.
\<close>

theorem upload_next_records:
  fixes J :: "(pm_segment_header \<times> pm_journal_record list) list"
  assumes "send_backlog p peer ([], [w]) s u = (e, Some q, s', u')" "sy_queue (ul_storage u) = []" "storage_readable (ul_health u)"
    and "sd_results (st_card (sy_storage (ul_storage u))) = []" "sound_journal (sy_storage (ul_storage u)) J"
  shows "\<exists>b k body. map rec_sequence (records b) = take 16 (sorted_list_of_set {q \<in> rec_sequence ` set (journal_records J). acknowledged (ul_sequence u) < q}) \<and>
    set (records b) \<subseteq> durable_part ` set (journal_records J) \<and> 0 < k \<and> k \<le> length (records b) \<and>
    k \<le> min 16 (max 1 (unat (adaptive_batch_records s))) \<and>
    pm_network_serialize_reading_batch (jp_print p) (jp_alloc p) (take k (records b)) (jp_measure_max p + 1) = Inr body \<and>
    rq_body q = cstr body \<and> length (rq_body q) \<le> PM_NETWORK_BODY_MAX \<and>
    (\<forall>j body. k < j \<and> j \<le> length (records b) \<and> j \<le> min 16 (max 1 (unat (adaptive_batch_records s))) \<longrightarrow> \<not> upload_fits p b j body)"
proof -
  let ?ack = "acknowledged (ul_sequence u)" and ?st = "sy_storage (ul_storage u)"
  let ?start = "\<lparr>records = [], after_sequence = ?ack, more_available = False\<rparr>"
  let ?b = "foldl insert_sorted ?start (map durable_part (journal_records J))"
  have read: "pm_storage_read_batch [] [w] ?ack (ul_storage u) =
      (ESP_OK, (ul_storage u)\<lparr>sy_storage := ?st, sy_queue := [], sy_notification := None, sy_batch := ?b\<rparr>)"
    using assms(2) read_batch_sound [OF assms(3-5)] by (rule read_batch_calm)
  have "shows_window ?ack {} ?start" by (simp add: shows_window_def)
  from foldl_window [OF this, of "map durable_part (journal_records J)"]
  have "shows_window ?ack {q \<in> rec_sequence ` set (journal_records J). ?ack < q} ?b" by (simp add: image_image)
  then have "map rec_sequence (records ?b) = take 16 (sorted_list_of_set {q \<in> rec_sequence ` set (journal_records J). ?ack < q})"
    by (simp add: shows_window_def)
  moreover have "set (records ?b) \<subseteq> durable_part ` set (journal_records J)"
    using foldl_subset [of ?start "map durable_part (journal_records J)"] by simp
  moreover from send_backlog_request [OF assms(1)] read obtain k body where "0 < k" "k \<le> length (records ?b)"
    "k \<le> min 16 (max 1 (unat (adaptive_batch_records s)))" "upload_fits p ?b k body" "rq_body q = cstr body"
    "\<forall>j body. k < j \<and> j \<le> length (records ?b) \<and> j \<le> min 16 (max 1 (unat (adaptive_batch_records s))) \<longrightarrow> \<not> upload_fits p ?b j body"
    by auto
  ultimately show ?thesis unfolding upload_fits_def by (intro exI [of _ ?b] exI [of _ k] exI [of _ body]) simp
qed

subsection \<open>What an acknowledgement means\<close>

text \<open>The storage task never changes the acknowledged number.\<close>

abbreviation acked :: "storage \<Rightarrow> u64" where "acked st \<equiv> sh_acknowledged (st_health st)"

lemma acked_capacity: "update_capacity st = (e, st1) \<Longrightarrow> acked st1 = acked st"
  by (auto simp: update_capacity_def Let_def split: prod.splits if_splits)

lemma acked_rebuild: "pm_storage_rebuild_index st = (e, st1) \<Longrightarrow> acked st1 = acked st"
  by (auto simp: pm_storage_rebuild_index_def Let_def split: prod.splits option.splits if_splits)

lemma acked_identity: "card_identity env st = (e, st1) \<Longrightarrow> acked st1 = acked st"
  by (auto simp: card_identity_def set_card_id_def Let_def split: prod.splits option.splits sd_open.splits if_splits)

lemma acked_self_test: "storage_self_test st = (e, st1) \<Longrightarrow> acked st1 = acked st"
  by (auto simp: storage_self_test_def Let_def split: prod.splits if_splits)

lemma acked_rotate: "rotate_current st = (e, st1) \<Longrightarrow> acked st1 = acked st"
  by (auto simp: rotate_current_def Let_def split: prod.splits if_splits)

lemma acked_open: "open_current env r st = (e, st1) \<Longrightarrow> acked st1 = acked st"
  by (auto simp: open_current_def Let_def split: prod.splits option.splits if_splits)

lemma acked_encoded: "append_encoded r st = (w, st1) \<Longrightarrow> acked st1 = acked st"
  by (auto simp: append_encoded_def split: prod.splits option.splits if_splits)

lemma acked_reclaim_one: "reclaim_one st = Inr st1 \<Longrightarrow> acked st1 = acked st" "reclaim_one st = Inl (e, st1) \<Longrightarrow> acked st1 = acked st"
  by (auto simp: reclaim_one_def Let_def split: prod.splits if_splits dest!: acked_capacity)

lemma acked_reclaim_loop: "reclaim_loop st = (e, st1) \<Longrightarrow> acked st1 = acked st"
proof (induction st rule: reclaim_loop.induct)
  case (1 st)
  show ?case
  proof (cases "bytes_free (st_health st) \<ge> PM_STORAGE_EMERGENCY_RESERVE")
    case True
    then show ?thesis using 1(2) by (simp add: reclaim_loop.simps [of st])
  next
    case False
    show ?thesis
    proof (cases "reclaim_one st")
      case (Inl x)
      then have "reclaim_one st = Inl (e, st1)" using 1(2) False by (simp add: reclaim_loop.simps [of st])
      then show ?thesis by (rule acked_reclaim_one(2))
    next
      case (Inr s1)
      then have "reclaim_loop s1 = (e, st1)" using 1(2) False by (simp add: reclaim_loop.simps [of st])
      from 1(1) [OF False Inr this] acked_reclaim_one(1) [OF Inr] show ?thesis by simp
    qed
  qed
qed

lemma acked_reclaim: "reclaim_acknowledged_segments st = (e, st1) \<Longrightarrow> acked st1 = acked st"
proof -
  assume r: "reclaim_acknowledged_segments st = (e, st1)"
  obtain e0 sa where a: "update_capacity st = (e0, sa)" by (metis prod.exhaust)
  obtain e1 sb where b: "reclaim_loop sa = (e1, sb)" by (metis prod.exhaust)
  show ?thesis using r acked_capacity [OF a] acked_reclaim_loop [OF b]
    by (auto simp: reclaim_acknowledged_segments_def a b ok_then_def split: if_splits dest!: acked_rebuild)
qed

lemma acked_append: "append_record env r st = (e, st1) \<Longrightarrow> acked st1 = acked st"
proof -
  assume r: "append_record env r st = (e, st1)"
  obtain e1 sa where a: "(if bytes_free (st_health st) < PM_STORAGE_EMERGENCY_RESERVE then reclaim_acknowledged_segments st else (ESP_OK, st)) = (e1, sa)"
    by (metis prod.exhaust)
  obtain e2 sb where b: "(if st_open sa then (ESP_OK, sa) else open_current env r sa) = (e2, sb)" by (metis prod.exhaust)
  obtain w sc where c: "append_encoded r sb = (w, sc)" by (metis prod.exhaust)
  let ?sd = "sc\<lparr>st_size := st_size sc + PM_JOURNAL_RECORD_SIZE, st_last := rec_sequence r, st_health := note_range (rec_sequence r) (st_health sc)\<rparr>"
  obtain e4 se where d: "update_capacity ?sd = (e4, se)" by (metis prod.exhaust)
  have "acked sa = acked st" using a by (auto split: if_splits dest!: acked_reclaim)
  moreover have "acked sb = acked sa" using b by (auto split: if_splits dest!: acked_open)
  moreover have "acked sc = acked sb" using acked_encoded [OF c] .
  moreover have "acked se = acked sc" using acked_capacity [OF d] by (simp add: note_range_def Let_def)
  ultimately show ?thesis using r unfolding append_record_def a prod.case b c
    by (auto simp: d Let_def split: if_splits dest!: acked_rotate)
qed

lemma acked_format: "format_storage env fmt token st = (e, st1) \<Longrightarrow> acked st1 = acked st"
proof -
  assume f: "format_storage env fmt token st = (e, st1)"
  obtain e0 sa where a: "rotate_current (set_format_state PM_FORMAT_COMMITTING st) = (e0, sa)" by (metis prod.exhaust)
  obtain e1 files where b: "fmt (sd_files (st_card sa)) = (e1, files)" by (metis prod.exhaust)
  let ?steps = "ok_then (ok_then (ok_then (ok_then (e1, sa\<lparr>st_card := (st_card sa)\<lparr>sd_files := files\<rparr>\<rparr>)
     make_directory) (\<lambda>s. card_identity env (set_card_id (replicate 16 0) s))) storage_self_test) update_capacity"
  have step: "acked (snd (ok_then r g)) = acked st" if "acked (snd r) = acked st" "\<And>x y z. g x = (y, z) \<Longrightarrow> acked z = acked x" for r g
    using that(1) that(2) [of "snd r" "fst (g (snd r))" "snd (g (snd r))"] by (simp add: ok_then_def)
  have "acked sa = acked st" using acked_rotate [OF a] by (simp add: set_format_state_def)
  then have "acked (snd ?steps) = acked st"
    by (intro step) (auto simp: make_directory_def set_card_id_def split: prod.splits dest!: acked_identity acked_self_test acked_capacity)
  then show ?thesis using f a b by (auto simp: format_storage_def set_format_state_def Let_def split: if_splits prod.splits)
qed

lemma acked_message: "handle_message env fmt m b st = (e, b1, st1) \<Longrightarrow> acked st1 = acked st"
  by (cases m) (auto simp: handle_message_def read_batch_owner_def Let_def split: if_splits prod.splits option.splits
      dest: acked_append acked_format acked_rebuild)

lemma acked_task: "acked (sy_storage (storage_task w sy)) = acked (sy_storage sy)"
  using acked_message by (cases w) (auto simp: storage_task_def split: list.splits prod.splits)

lemma acked_tasks: "acked (sy_storage (foldl (\<lambda>sy w. storage_task w sy) sy ws)) = acked (sy_storage sy)"
  by (induction ws arbitrary: sy) (simp_all add: acked_task)

lemma acked_client: "send_and_wait sending waiting m sy = (e, sy1) \<Longrightarrow> acked (sy_storage sy1) = acked (sy_storage sy)"
  by (auto simp: send_and_wait_def Let_def acked_tasks split: if_splits option.splits)

definition authentic_answer :: "'j upload_platform \<Rightarrow> bool \<Rightarrow> net_peer \<Rightarrow> string \<Rightarrow> pm_network_context \<Rightarrow> u64 \<Rightarrow> bool" where
  "authentic_answer p counted peer path ctx ack \<longleftrightarrow> (\<exists>used cache cache'. success_status (np_status peer) \<and>
     pm_verify_response (jp_psa p) (jp_b64dec p) (server_to_device_key ctx) (device_id_text ctx) path None (np_time peer * 1000)
       (auth (captured_headers peer)) used cache = (ESP_OK, cache') \<and> answer_acknowledgement p counted (bytes_chars used) = Some ack)"

lemma journal_request_effect:
  assumes "journal_request p peer path body u = (e, response, rq, u')"
  shows "ul_sequence u' = ul_sequence u" "ul_store u' = ul_store u" "ul_storage u' = ul_storage u" "same_credentials (ul_network u) (ul_network u')"
    "e = ESP_OK \<Longrightarrow> answer_acknowledgement p counted response = Some ack \<Longrightarrow> authentic_answer p counted peer path (ul_network u) ack"
proof -
  let ?peer = "if cstr body = [] then peer\<lparr>np_written := 0\<rparr> else peer"
  obtain e0 st used rq0 ctx where r: "signed_request (jp_psa p) (jp_b64enc p) (jp_b64dec p) (jp_mutex p) ?peer path body PM_NETWORK_RESPONSE_MAX 0 (ul_network u) =
      (e0, st, used, rq0, ctx)" by (metis prod.exhaust)
  have "u' = u \<and> e \<noteq> ESP_OK \<or> u' = u\<lparr>ul_network := ctx\<rparr> \<and> e = e0 \<and> response = bytes_chars used"
    using assms r by (auto simp: journal_request_def split: if_splits)
  moreover have same: "np_status ?peer = np_status peer" "np_time ?peer = np_time peer" "captured_headers ?peer = captured_headers peer"
    by (simp_all add: captured_headers_def)
  ultimately show "ul_sequence u' = ul_sequence u" "ul_store u' = ul_store u" "ul_storage u' = ul_storage u" "same_credentials (ul_network u) (ul_network u')"
    "e = ESP_OK \<Longrightarrow> answer_acknowledgement p counted response = Some ack \<Longrightarrow> authentic_answer p counted peer path (ul_network u) ack"
    using signed_request_cases [OF r, unfolded same] by (auto simp: authentic_answer_def same_credentials_def split: if_splits)
qed

text \<open>The acknowledgement stays, or moves to one that \<open>P\<close> holds of and that is stored in a slot.\<close>

definition acknowledges :: "(u64 \<Rightarrow> bool) \<Rightarrow> uploader \<Rightarrow> uploader \<Rightarrow> bool" where
  "acknowledges P u u' \<longleftrightarrow>
     acknowledged (ul_sequence u') = acknowledged (ul_sequence u) \<and> sh_acknowledged (ul_health u') = sh_acknowledged (ul_health u) \<or>
     (\<exists>ack. P ack \<and> acknowledged (ul_sequence u') = ack \<and> sh_acknowledged (ul_health u') = ack \<and> acknowledged (ul_sequence u) \<le> ack \<and>
        ack \<le> maximum_seen (ul_sequence u) \<and>
        (ack = acknowledged (ul_sequence u) \<or> (\<exists>k slot. blobs (ul_store u') k = Some (Blob slot) \<and> acknowledged (slot_state slot) = ack)))"

lemma acknowledge_effect:
  assumes "pm_sequence_acknowledge s ack n = (e, s', n')"
  shows "if e = ESP_OK then acknowledged s' = ack \<and> acknowledged s \<le> ack \<and> ack \<le> maximum_seen s \<and>
      (ack = acknowledged s \<or> (\<exists>k slot. blobs n' k = Some (Blob slot) \<and> acknowledged (slot_state slot) = ack))
    else s' = s"
proof (cases "ack < acknowledged s \<or> ack > maximum_seen s \<or> ack = acknowledged s")
  case True
  then show ?thesis using assms by (auto simp: pm_sequence_acknowledge_def split: if_splits)
next
  case False
  obtain e1 c n1 where p: "seq_persist (s\<lparr>acknowledged := ack\<rparr>) n = (e1, c, n1)" by (metis prod.exhaust)
  show ?thesis using seq_persist_cases [OF p] assms False p
    by (auto simp: pm_sequence_acknowledge_def slot_written_def split: if_splits)
qed

lemma store_effect:
  assumes "store_acknowledgement ack u = (e, u')" "P ack"
  shows "acknowledges P u u'"
proof -
  obtain e1 s n where a: "pm_sequence_acknowledge (ul_sequence u) ack (ul_store u) = (e1, s, n)" by (metis prod.exhaust)
  show ?thesis using acknowledge_effect [OF a] assms
    by (auto simp: store_acknowledgement_def a acknowledges_def set_acknowledged_def Let_def split: if_splits)
qed

lemma acknowledges_from:
  assumes "acknowledges P u1 u'" "ul_sequence u1 = ul_sequence u" "sh_acknowledged (ul_health u1) = sh_acknowledged (ul_health u)"
  shows "acknowledges P u u'"
  using assms by (simp add: acknowledges_def)

lemma acknowledges_same:
  "ul_sequence u' = ul_sequence u \<Longrightarrow> sh_acknowledged (ul_health u') = sh_acknowledged (ul_health u) \<Longrightarrow> acknowledges P u u'"
  by (simp add: acknowledges_def)

text \<open>An authenticated request, and the acknowledgement of its answer if that is taken.\<close>

lemma request_effect:
  assumes "journal_request p peer path body u = (e, response, rq, u2)"
    and "u' = u2 \<or> e = ESP_OK \<and> answer_acknowledgement p counted response = Some ack \<and> store_acknowledgement ack u2 = (e2, u')"
  shows "acknowledges (authentic_answer p counted peer path (ul_network u)) u u'" "same_credentials (ul_network u) (ul_network u')"
proof -
  note f = journal_request_effect [OF assms(1)]
  have store: "acknowledges (authentic_answer p counted peer path (ul_network u)) u2 u' \<and> ul_network u' = ul_network u2"
    if "e = ESP_OK" "answer_acknowledgement p counted response = Some ack" "store_acknowledgement ack u2 = (e2, u')"
    using store_effect [OF that(3), where P = "authentic_answer p counted peer path (ul_network u)", OF f(5) [OF that(1,2)]] that(3)
    by (auto simp: store_acknowledgement_def set_acknowledged_def Let_def split: prod.splits)
  show "acknowledges (authentic_answer p counted peer path (ul_network u)) u u'"
    using assms(2) store acknowledges_from [OF _ f(1)] acknowledges_same [OF f(1)] f(3) by auto
  show "same_credentials (ul_network u) (ul_network u')" using assms(2) store f(4) by auto
qed

text \<open>How a sender ends: before a request, or with the answer to one and perhaps its acknowledgement.\<close>

definition sender_ends :: "'j upload_platform \<Rightarrow> bool \<Rightarrow> net_peer \<Rightarrow> string \<Rightarrow> uploader \<Rightarrow> uploader \<Rightarrow> bool" where
  "sender_ends p counted peer path u u' \<longleftrightarrow> u' = u \<or> (\<exists>body e response rq u2. journal_request p peer path body u = (e, response, rq, u2) \<and>
     (u' = u2 \<or> (\<exists>ack u3 e2 x. e = ESP_OK \<and> answer_acknowledgement p counted response = Some ack \<and> store_acknowledgement ack u2 = (e2, u3) \<and>
        (u' = u3 \<or> u' = u3\<lparr>loss_reported_through := x\<rparr>))))"

lemma sender_effect:
  assumes "sender_ends p counted peer path (u\<lparr>ul_storage := sys\<rparr>) u'" "acked (sy_storage sys) = acked (sy_storage (ul_storage u))"
  shows "acknowledges (authentic_answer p counted peer path (ul_network u)) u u' \<and> same_credentials (ul_network u) (ul_network u')"
proof -
  let ?u = "u\<lparr>ul_storage := sys\<rparr>"
  consider "u' = ?u" | body e response rq u2 u3 where "journal_request p peer path body ?u = (e, response, rq, u2)"
      "u3 = u2 \<or> (\<exists>ack e2. e = ESP_OK \<and> answer_acknowledgement p counted response = Some ack \<and> store_acknowledgement ack u2 = (e2, u3))"
      "u' = u3 \<or> (\<exists>x. u' = u3\<lparr>loss_reported_through := x\<rparr>)"
    using assms(1) unfolding sender_ends_def by blast
  then show ?thesis
  proof cases
    case 1
    then show ?thesis using assms(2) by (simp add: acknowledges_same same_credentials_def)
  next
    case (2 body e response rq u2 u3)
    then have "acknowledges (authentic_answer p counted peer path (ul_network u)) ?u u3 \<and> same_credentials (ul_network u) (ul_network u3)"
      using request_effect [OF 2(1), of u3 counted] by auto
    then show ?thesis using 2(3) acknowledges_from [of _ ?u _ u] assms(2) by (auto simp: acknowledges_def)
  qed
qed

lemma loss_effect:
  assumes "send_permanent_loss p peer run u = (e, rq, u')"
  shows "acknowledges (authentic_answer p True peer (jp_loss_endpoint p) (ul_network u)) u u' \<and> same_credentials (ul_network u) (ul_network u')"
proof -
  obtain e0 sys where i: "(if possible_loss u then pm_storage_refresh_inventory (fst run) (snd run) (ul_storage u) else (ESP_OK, ul_storage u)) = (e0, sys)"
    by (metis prod.exhaust)
  let ?u = "u\<lparr>ul_storage := sys\<rparr>"
  have acked: "acked (sy_storage sys) = acked (sy_storage (ul_storage u))"
    using i by (auto simp: pm_storage_refresh_inventory_def split: if_splits dest!: acked_client)
  have "sender_ends p True peer (jp_loss_endpoint p) ?u u'"
  proof (cases "u' = ?u")
    case False
    then obtain lost body where l: "e0 = ESP_OK" "loss_report ?u = Inr lost"
      "pm_network_serialize_permanent_loss (jp_print p) (jp_alloc p) (jp_psa p) lost (PM_NETWORK_BODY_MAX + 1) = Inr body"
      using assms i by (auto simp: send_permanent_loss_def Let_def split: if_splits sum.splits)
    obtain e1 response rq1 u2 where r: "journal_request p peer (jp_loss_endpoint p) body ?u = (e1, response, rq1, u2)" by (metis prod.exhaust)
    have "u' = u2 \<or> (\<exists>ack u3 e2 x. e1 = ESP_OK \<and> answer_acknowledgement p True response = Some ack \<and> store_acknowledgement ack u2 = (e2, u3) \<and>
        (u' = u3 \<or> u' = u3\<lparr>loss_reported_through := x\<rparr>))"
      using assms i l r by (auto simp: send_permanent_loss_def Let_def split: if_splits option.splits prod.splits)
    then show ?thesis using r unfolding sender_ends_def by blast
  qed (simp add: sender_ends_def)
  from sender_effect [OF this acked] show ?thesis .
qed

text \<open>A sender that does not succeed acknowledges nothing.\<close>

lemma not_found_keeps:
  assumes "send_permanent_loss p peer run u = (e, rq, u')" "e \<noteq> ESP_OK"
  shows "ul_sequence u' = ul_sequence u \<and> sh_acknowledged (ul_health u') = sh_acknowledged (ul_health u)"
proof -
  obtain e0 sys where i: "(if possible_loss u then pm_storage_refresh_inventory (fst run) (snd run) (ul_storage u) else (ESP_OK, ul_storage u)) = (e0, sys)"
    by (metis prod.exhaust)
  let ?u = "u\<lparr>ul_storage := sys\<rparr>"
  have acked: "acked (sy_storage sys) = acked (sy_storage (ul_storage u))"
    using i by (auto simp: pm_storage_refresh_inventory_def split: if_splits dest!: acked_client)
  have store: "ul_sequence u3 = ul_sequence u2 \<and> ul_storage u3 = ul_storage u2"
    if "store_acknowledgement ack u2 = (e2, u3)" "e2 \<noteq> ESP_OK" for ack u2 e2 u3
    using that acknowledge_effect by (fastforce simp: store_acknowledgement_def Let_def split: prod.splits)
  have request: "ul_sequence u2 = ul_sequence v \<and> ul_storage u2 = ul_storage v" if "journal_request p peer path body v = (e1, response, rq1, u2)"
    for v path body e1 response rq1 u2 using journal_request_effect(1,3) [OF that] by simp
  have "ul_sequence u' = ul_sequence u \<and> ul_storage u' = sys"
    using assms i by (auto simp: send_permanent_loss_def Let_def split: if_splits option.splits sum.splits prod.splits dest!: request store)
  then show ?thesis using acked by simp
qed

lemma backlog_effect:
  assumes "send_backlog p peer run s u = (e, rq, s', u')"
  shows "acknowledges (authentic_answer p False peer (jp_readings_endpoint p) (ul_network u)) u u'"
proof -
  obtain e0 sys where i: "pm_storage_read_batch (fst run) (snd run) (acknowledged (ul_sequence u)) (ul_storage u) = (e0, sys)" by (metis prod.exhaust)
  let ?u = "u\<lparr>ul_storage := sys\<rparr>"
  let ?s = "s\<lparr>adaptive_batch_records := of_nat (pm_backlog_bounded_record_limit (unat (adaptive_batch_records s)) PM_STORAGE_BATCH_MAX)\<rparr>"
  have acked: "acked (sy_storage sys) = acked (sy_storage (ul_storage u))" using i by (auto simp: pm_storage_read_batch_def dest!: acked_client)
  obtain st plan c where b: "backlog_plan p (sy_batch sys) ?s = (st, plan, c)" by (metis prod.exhaust)
  obtain e1 response rq1 u2 where r: "journal_request p peer (jp_readings_endpoint p) (take (serialized_bytes plan) (pr_measure c)) ?u = (e1, response, rq1, u2)"
    by (metis prod.exhaust)
  have "u' = ?u \<or> u' = u2 \<or> (\<exists>ack e2. e1 = ESP_OK \<and> answer_acknowledgement p False response = Some ack \<and> store_acknowledgement ack u2 = (e2, u'))"
    using assms i b r by (auto simp: send_backlog_def Let_def split: if_splits option.splits prod.splits)
  then have "sender_ends p False peer (jp_readings_endpoint p) ?u u'" using r unfolding sender_ends_def by blast
  from sender_effect [OF this acked] show ?thesis by blast
qed

text \<open>
  C38. An acknowledgement is authentic and durable. Whatever the card, the storage calls and the server do while a round of the task works on the
  backlog, the acknowledged number, in the sequence state as in the health record that governs the deletion of segments, either
  stays as it was or becomes the number that a response signed for this device and request path carries; it never falls, never exceeds the
  highest number handed out, and is stored before segments may be deleted by it.
\<close>

theorem upload_acknowledgement_authentic:
  assumes "backlog_work p env (s, u) = (rqs, s', u')" "sh_acknowledged (ul_health u) = acknowledged (ul_sequence u)"
  shows "sh_acknowledged (ul_health u') = acknowledged (ul_sequence u') \<and> acknowledged (ul_sequence u) \<le> acknowledged (ul_sequence u') \<and>
    (acknowledged (ul_sequence u') = acknowledged (ul_sequence u) \<or>
      acknowledged (ul_sequence u') \<le> maximum_seen (ul_sequence u) \<and>
      (\<exists>k slot. blobs (ul_store u') k = Some (Blob slot) \<and> acknowledged (slot_state slot) = acknowledged (ul_sequence u')) \<and>
      (authentic_answer p True (uv_loss_peer env) (jp_loss_endpoint p) (ul_network u) (acknowledged (ul_sequence u')) \<or>
       authentic_answer p False (uv_backlog_peer env) (jp_readings_endpoint p) (ul_network u) (acknowledged (ul_sequence u'))))"
proof -
  let ?s = "s\<lparr>js_request_in_progress := True\<rparr>"
  obtain e1 rq1 u1 where a: "send_permanent_loss p (uv_loss_peer env) (uv_loss_run env) u = (e1, rq1, u1)" by (metis prod.exhaust)
  obtain e2 rq2 s2 u2 where b: "send_backlog p (uv_backlog_peer env) (uv_backlog_run env) ?s u1 = (e2, rq2, s2, u2)" by (metis prod.exhaust)
  note loss = loss_effect [OF a]
  show ?thesis
  proof (cases "e1 = ESP_ERR_NOT_FOUND")
    case False
    then have "u' = u1" using assms(1) a by (simp add: backlog_work_def Let_def)
    then show ?thesis using loss assms(2) by (auto simp: acknowledges_def)
  next
    case True
    then have "u' = u2" using assms(1) a b by (simp add: backlog_work_def Let_def)
    moreover have "ul_sequence u1 = ul_sequence u \<and> sh_acknowledged (ul_health u1) = sh_acknowledged (ul_health u)"
      using not_found_keeps a True by blast
    moreover have "authentic_answer p False (uv_backlog_peer env) (jp_readings_endpoint p) (ul_network u1) ack =
        authentic_answer p False (uv_backlog_peer env) (jp_readings_endpoint p) (ul_network u) ack" for ack
      using loss by (simp add: authentic_answer_def same_credentials_def)
    ultimately show ?thesis using backlog_effect [OF b] assms(2) by (auto simp: acknowledges_def)
  qed
qed

subsection \<open>A concrete upload\<close>

definition upload_answer :: json where
  "upload_answer = JObject [(''protocol_id'', JString PM_PROTOCOL_ID), (''server_time'', JString ''2026-01-01T00:00:00Z''),
     (''accepted'', JNumber 1), (''highest_contiguous_sequence'', JNumber 10), (''gaps'', JArray [])]"

definition demo_upload :: "json upload_platform" where
  "demo_upload = \<lparr>jp_reader = json_reader (\<lambda>_. Some upload_answer) (\<lambda>_. None), jp_print = (\<lambda>_ _. Some ''B''), jp_alloc = True, jp_psa = demo_psa,
     jp_b64enc = demo_enc, jp_b64dec = demo_dec, jp_mutex = Some True, jp_readings_endpoint = PM_TELEMETRY_ENDPOINT,
     jp_loss_endpoint = PM_TELEMETRY_ENDPOINT, jp_measure_max = 9000, jp_out_of_range = (\<lambda>_. 0)\<rparr>"

text \<open>The state of an uploader: what is acknowledged, whether the inventory is complete, the current segment.\<close>

definition demo_sequence :: "u64 \<Rightarrow> pm_sequence_state" where
  "demo_sequence ack = \<lparr>next_sequence = 12, reserved_through = 75, maximum_seen = 11, acknowledged = ack, reset_generation = 0, seq_generation = 0\<rparr>"

definition demo_uploader :: "u64 \<Rightarrow> bool \<Rightarrow> pm_journal_record list \<Rightarrow> uploader" where
  "demo_uploader ack whole rs = \<lparr>ul_network = demo_context,
     ul_sequence = demo_sequence ack,
     ul_store = blank_nvs,
     ul_storage = \<lparr>sy_storage = (demo_storage (2 ^ 32) True
         (demo_card [(PM_CURRENT, \<lparr>contents = segment_bytes plain_header rs, bad = (\<lambda>_. False)\<rparr>)] []))\<lparr>st_health :=
           zero_health\<lparr>sh_status := PM_STORAGE_READY, sh_card_id := replicate 16 2, sh_acknowledged := ack, inventory_complete := whole\<rparr>\<rparr>,
       sy_queue = [], sy_notification = None, sy_batch = demo_batch\<rparr>,
     loss_reported_through = 0\<rparr>"

abbreviation idle_step :: "storage_env \<times> fat_format" where "idle_step \<equiv> (demo_env, \<lambda>fs. (ESP_OK, []))"

lemma demo_sequence_simps [simp]: "acknowledged (demo_sequence ack) = ack" "maximum_seen (demo_sequence ack) = 11" "seq_generation (demo_sequence ack) = 0"
  by (simp_all add: demo_sequence_def)

lemma demo_uploader_simps [simp]:
  "ul_network (demo_uploader ack whole rs) = demo_context" "ul_sequence (demo_uploader ack whole rs) = demo_sequence ack"
  "ul_store (demo_uploader ack whole rs) = blank_nvs"
  "sy_queue (ul_storage (demo_uploader ack whole rs)) = []" "sh_acknowledged (ul_health (demo_uploader ack whole rs)) = ack"
  "sd_results (st_card (sy_storage (ul_storage (demo_uploader ack whole rs)))) = []"
  "inventory_complete (ul_health (demo_uploader ack whole rs)) = whole" "loss_reported_through (demo_uploader ack whole rs) = 0"
  "storage_readable (ul_health (demo_uploader ack whole rs)) = whole"
  "unavailable_first (ul_health (demo_uploader ack whole rs)) = 0" "oldest_sequence (ul_health (demo_uploader ack whole rs)) = 0"
  by (simp_all add: demo_uploader_def zero_health_def storage_readable_def)

lemma demo_uploader_sound:
  assumes "list_all record_wf rs" "list_all (\<lambda>r. rec_device_id r = replicate 16 1) rs" "in_order 7 rs"
  shows "sound_journal (sy_storage (ul_storage (demo_uploader ack whole rs))) [(plain_header, rs)]"
  using assms plain_wf(1)
  by (auto simp: demo_uploader_def sound_journal_def sound_segment_def own_record_def journal_path_def PM_CURRENT_def journal_file_def readable_def list_all_iff)

lemma demo_journal_request:
  assumes "ul_network u = demo_context"
  shows "\<exists>rq ctx. journal_request demo_upload demo_net_peer PM_TELEMETRY_ENDPOINT ''B'' u = (ESP_OK, bytes_chars [1, 2, 3], Some rq, u\<lparr>ul_network := ctx\<rparr>)"
proof -
  obtain rq ctx where r: "signed_request demo_psa demo_enc demo_dec (Some True) demo_net_peer PM_TELEMETRY_ENDPOINT ''B'' PM_NETWORK_RESPONSE_MAX 0 demo_context
     = (ESP_OK, 200, [1, 2, 3], rq, ctx)" using demo_request by blast
  then obtain q where "rq = Some q" using signed_request_cases [OF r] by auto
  moreover have "cstr ''B'' = ''B''" by (simp add: cstr_def)
  ultimately show ?thesis using r assms by (auto simp: journal_request_def demo_upload_def PM_NETWORK_BODY_MAX_def)
qed

lemma demo_acknowledgement: "answer_acknowledgement demo_upload counted (bytes_chars [1, 2, 3]) = Some 10"
proof -
  let ?J = "json_reader (\<lambda>_. Some upload_answer) (\<lambda>_. None)"
  have "json_string ?J (json_item ?J (Some upload_answer) ''protocol_id'') = Some PM_PROTOCOL_ID"
    "Option.bind (json_string ?J (json_item ?J (Some upload_answer) ''server_time'')) pm_network_parse_rfc3339_ms \<noteq> None"
    "json_is (cJSON_IsArray ?J) (json_item ?J (Some upload_answer) ''gaps'')"
    by code_simp+
  moreover have "json_number ?J (json_item ?J (Some upload_answer) ''accepted'') = Some 1"
    "json_number ?J (json_item ?J (Some upload_answer) ''highest_contiguous_sequence'') = Some 10"
    "cJSON_Parse (reader ?J) x = Some upload_answer" for x
    by (simp_all add: json_reader_def json_item_def json_number_def upload_answer_def)
  moreover have "u64_of_double (\<lambda>_. 0) 10 = 10" by (simp add: u64_of_double_def)
  ultimately show ?thesis by (simp add: answer_acknowledgement_def demo_upload_def Let_def)
qed

text \<open>The evidence of a report always fits into its buffer.\<close>

lemma loss_evidence_fits:
  assumes "length (sh_card_id h) = 16"
  shows "length (loss_evidence h) < 256"
proof -
  have q: "length (dec (unat (q :: u64))) \<le> 20" for q using unat_u64_less [of q] by (intro length_dec) simp_all
  have c: "length (dec (unat (c :: u32))) \<le> 10" for c using unat_u32_less [of c] by (intro length_dec) simp_all
  have "length (loss_reason h) \<le> 15" by (simp add: loss_reason_def)
  moreover have "length PM_PROTOCOL_ID \<le> 30" by code_simp
  moreover have "length (pm_hex_lower (sh_card_id h)) = 32" using assms by simp
  ultimately show ?thesis
    using q [of "unavailable_first h"] q [of "unavailable_last h"] c [of "corrupt_records h"] c [of "quarantined_segments h"]
    by (simp add: loss_evidence_def)
qed

lemma demo_store:
  assumes "ul_sequence u = demo_sequence ack" "ul_store u = blank_nvs" "ack < 10"
  shows "\<exists>u'. store_acknowledgement 10 u = (ESP_OK, u')"
proof -
  let ?s = "(demo_sequence ack)\<lparr>acknowledged := 10\<rparr>"
  have "seq_wf ?s" "seq_generation ?s = 0" by (simp_all add: demo_sequence_def seq_wf_def)
  then obtain c n where p: "seq_persist ?s blank_nvs = (ESP_OK, c, n)" using seq_persist_calm [of blank_nvs ?s] by auto
  have "\<not> (10 < ack \<or> (11 :: u64) < 10)" "10 \<noteq> ack" using assms(3) by auto
  then have "pm_sequence_acknowledge (demo_sequence ack) 10 blank_nvs = (ESP_OK, c, n)"
    unfolding pm_sequence_acknowledge_def demo_sequence_simps p by simp
  then show ?thesis unfolding store_acknowledgement_def assms(1,2) by simp
qed

lemma demo_loss:
  assumes "list_all record_wf rs" "list_all (\<lambda>r. rec_device_id r = replicate 16 1) rs" "in_order 7 rs" "ack < 10"
    and "pm_storage_rebuild_index (sy_storage (ul_storage (demo_uploader ack False rs))) = (ESP_OK, st)"
    and "loss_report ((demo_uploader ack False rs)\<lparr>ul_storage := (ul_storage (demo_uploader ack False rs))\<lparr>sy_storage := st, sy_queue := [], sy_notification := None\<rparr>\<rparr>) = Inr lost"
    and "length (sh_card_id lost) = 16" "unavailable_first lost \<noteq> 0" "unavailable_first lost \<le> unavailable_last lost" "unavailable_last lost \<le> 10"
  shows "\<exists>q u'. send_permanent_loss demo_upload demo_net_peer ([], [idle_step]) (demo_uploader ack False rs) = (ESP_OK, Some q, u')"
proof -
  let ?u = "(demo_uploader ack False rs)\<lparr>ul_storage := (ul_storage (demo_uploader ack False rs))\<lparr>sy_storage := st, sy_queue := [], sy_notification := None\<rparr>\<rparr>"
  have loss: "possible_loss (demo_uploader ack False rs)" by (simp add: possible_loss_def)
  note start = loss_start [OF _ loss assms(5), of demo_upload demo_net_peer idle_step, unfolded demo_uploader_simps, OF refl]
  have doc: "pm_network_serialize_permanent_loss (jp_print demo_upload) (jp_alloc demo_upload) (jp_psa demo_upload) lost (PM_NETWORK_BODY_MAX + 1) = Inr ''B''"
    using assms(8,9) loss_evidence_fits [OF assms(7)]
    by (simp add: pm_network_serialize_permanent_loss_def demo_upload_def render_json_def PM_NETWORK_BODY_MAX_def not_less not_le)
  obtain rq ctx where r: "journal_request demo_upload demo_net_peer PM_TELEMETRY_ENDPOINT ''B'' ?u = (ESP_OK, bytes_chars [1, 2, 3], Some rq, ?u\<lparr>ul_network := ctx\<rparr>)"
    using demo_journal_request [of ?u] by auto
  obtain u' where u': "store_acknowledgement 10 (?u\<lparr>ul_network := ctx\<rparr>) = (ESP_OK, u')"
    using demo_store [of "?u\<lparr>ul_network := ctx\<rparr>" ack] assms(4) by auto
  have "jp_loss_endpoint demo_upload = PM_TELEMETRY_ENDPOINT" by (simp add: demo_upload_def)
  moreover have "\<not> (10 :: u64) < unavailable_last lost" using assms(10) by simp
  ultimately show ?thesis unfolding start assms(6) sum.case doc by (simp only: r prod.case demo_acknowledgement option.case u' if_False if_True) simp
qed

lemma demo_rebuild:
  assumes "list_all record_wf rs" "list_all (\<lambda>r. rec_device_id r = replicate 16 1) rs" "in_order 7 rs" "\<forall>r \<in> set rs. rec_sequence r \<noteq> 0" "rs \<noteq> []"
  obtains st where "pm_storage_rebuild_index (sy_storage (ul_storage (demo_uploader ack False rs))) = (ESP_OK, st)"
    "inventory_complete (st_health st)" "sh_status (st_health st) = PM_STORAGE_READY" "length (sh_card_id (st_health st)) = 16"
    "oldest_sequence (st_health st) = Min (rec_sequence ` set rs)"
    "unavailable_first (st_health st) = unavailable_first (note_records 7 rs (inventory_start (ul_health (demo_uploader ack False rs))))"
    "unavailable_last (st_health st) = unavailable_last (note_records 7 rs (inventory_start (ul_health (demo_uploader ack False rs))))"
proof -
  let ?h = "ul_health (demo_uploader ack False rs)"
  have h: "sh_status ?h = PM_STORAGE_READY" "sh_card_id ?h = replicate 16 2" by (simp_all add: demo_uploader_def)
  have "oldest_sequence (foldl note_segment (inventory_start ?h) [(plain_header, rs)]) = Min (rec_sequence ` set rs)"
    using inventory_oldest [of "[(plain_header, rs)]" ?h] assms(4,5) by (simp add: oldest_of_def)
  then show thesis
    using that rebuild_sound [OF demo_uploader_simps(6) demo_uploader_sound [OF assms(1-3), of ack False]] h
    by (auto simp: note_segment_def Let_def)
qed

theorem loss_report_prefix_absent_witness:
  "\<exists>q u' lost. send_permanent_loss demo_upload demo_net_peer ([], [idle_step]) (demo_uploader 2 False [plain_record]) = (ESP_OK, Some q, u') \<and>
    {unavailable_first lost..unavailable_last lost} = {2<..<7} \<and> jp_print demo_upload (loss_document demo_psa lost) 8193 = Some (rq_body q)"
proof -
  let ?u = "demo_uploader 2 False [plain_record]"
  have rs: "list_all record_wf [plain_record]" "list_all (\<lambda>r. rec_device_id r = replicate 16 1) [plain_record]" "in_order 7 [plain_record]"
    using plain_wf by simp_all
  obtain st where st: "pm_storage_rebuild_index (sy_storage (ul_storage ?u)) = (ESP_OK, st)" "inventory_complete (st_health st)"
    "sh_status (st_health st) = PM_STORAGE_READY" "length (sh_card_id (st_health st)) = 16" "oldest_sequence (st_health st) = 7"
    using demo_rebuild [OF rs, of 2] by auto
  let ?lost = "(st_health st)\<lparr>unavailable_first := 3, unavailable_last := 6\<rparr>"
  have "loss_report (?u\<lparr>ul_storage := (ul_storage ?u)\<lparr>sy_storage := st, sy_queue := [], sy_notification := None\<rparr>\<rparr>) = Inr ?lost"
    using st(2,3,5) by (simp add: loss_report_def pm_backlog_detect_missing_prefix_def Let_def)
  from demo_loss [OF rs _ st(1) this] st(4) obtain q u' where
    s: "send_permanent_loss demo_upload demo_net_peer ([], [idle_step]) ?u = (ESP_OK, Some q, u')" by auto
  have "possible_loss ?u" by (simp add: possible_loss_def)
  from loss_report_prefix_absent [OF s _ this _ demo_uploader_sound [OF rs]] obtain lost body where "rq_body q = cstr body"
    "jp_print demo_upload (loss_document demo_psa lost) 8193 = Some body" "{unavailable_first lost..unavailable_last lost} = {2<..<7}"
    by (auto simp: demo_upload_def PM_NETWORK_BODY_MAX_def)
  moreover have "body = ''B''" using calculation(2) by (simp add: demo_upload_def)
  ultimately show ?thesis using s by (auto simp: cstr_def)
qed

abbreviation gappy :: "pm_journal_record list" where
  "gappy \<equiv> [plain_record, plain_record\<lparr>rec_sequence := 9\<rparr>, plain_record\<lparr>rec_sequence := 11\<rparr>]"

lemma gappy_sound: "list_all record_wf gappy" "list_all (\<lambda>r. rec_device_id r = replicate 16 1) gappy" "in_order 7 gappy"
  using plain_wf by (simp_all add: record_wf_def next_expected_def)

lemma gappy_loss:
  "\<exists>q u'. send_permanent_loss demo_upload demo_net_peer ([], [idle_step]) (demo_uploader 6 False gappy) = (ESP_OK, Some q, u')"
proof -
  let ?u = "demo_uploader 6 False gappy"
  obtain st where st: "pm_storage_rebuild_index (sy_storage (ul_storage ?u)) = (ESP_OK, st)" "inventory_complete (st_health st)"
    "sh_status (st_health st) = PM_STORAGE_READY" "length (sh_card_id (st_health st)) = 16" "oldest_sequence (st_health st) = 7"
    "unavailable_first (st_health st) = unavailable_first (note_records 7 gappy (inventory_start (ul_health ?u)))"
    "unavailable_last (st_health st) = unavailable_last (note_records 7 gappy (inventory_start (ul_health ?u)))"
    using demo_rebuild [OF gappy_sound, of 6] by auto
  have gaps: "unavailable_first (st_health st) = 8" "unavailable_last (st_health st) = 10"
    using st(6,7) two_gaps [of plain_record "plain_record\<lparr>rec_sequence := 9\<rparr>" "plain_record\<lparr>rec_sequence := 11\<rparr>" "inventory_start (ul_health ?u)"]
    by (simp_all add: inventory_start_def)
  have "loss_report (?u\<lparr>ul_storage := (ul_storage ?u)\<lparr>sy_storage := st, sy_queue := [], sy_notification := None\<rparr>\<rparr>) = Inr (st_health st)"
    using st(2,3,5) gaps by (simp add: loss_report_def pm_backlog_detect_missing_prefix_def Let_def)
  from demo_loss [OF gappy_sound _ st(1) this] st(4) gaps show ?thesis by auto
qed

theorem loss_report_covers_stored_witness:
  "\<exists>q u' lost. send_permanent_loss demo_upload demo_net_peer ([], [idle_step]) (demo_uploader 6 False gappy) = (ESP_OK, Some q, u') \<and>
    jp_print demo_upload (loss_document demo_psa lost) 8193 = Some (rq_body q) \<and> unavailable_first lost = 8 \<and> unavailable_last lost = 10 \<and>
    9 < acknowledged (ul_sequence u')"
proof -
  obtain q u' where s: "send_permanent_loss demo_upload demo_net_peer ([], [idle_step]) (demo_uploader 6 False gappy) = (ESP_OK, Some q, u')"
    using gappy_loss by blast
  have "possible_loss (demo_uploader 6 False gappy)" by (simp add: possible_loss_def)
  from loss_report_covers_stored [OF s _ this _ demo_uploader_sound [OF gappy_sound]] obtain lost body where "rq_body q = cstr body"
    "jp_print demo_upload (loss_document demo_psa lost) 8193 = Some body" "unavailable_first lost = 8" "unavailable_last lost = 10"
    "9 < acknowledged (ul_sequence u')"
    by (auto simp: demo_upload_def PM_NETWORK_BODY_MAX_def)
  moreover have "body = ''B''" using calculation(2) by (simp add: demo_upload_def)
  ultimately show ?thesis using s by (auto simp: cstr_def)
qed

definition demo_upload_env :: upload_env where
  "demo_upload_env = \<lparr>uv_loss_peer = demo_net_peer, uv_loss_run = ([], [idle_step]), uv_backlog_peer = demo_net_peer, uv_backlog_run = ([], []),
     uv_done_at = 5, uv_random = 0\<rparr>"

theorem upload_acknowledgement_authentic_witness:
  "\<exists>rqs s' u'. backlog_work demo_upload demo_upload_env (journal_scheduler_init 0 60, demo_uploader 6 False gappy) = (rqs, s', u') \<and>
    sh_acknowledged (ul_health u') = acknowledged (ul_sequence u') \<and> rqs \<noteq> []"
proof -
  obtain q u' where l: "send_permanent_loss demo_upload demo_net_peer ([], [idle_step]) (demo_uploader 6 False gappy) = (ESP_OK, Some q, u')"
    using gappy_loss by blast
  then obtain s' where b: "backlog_work demo_upload demo_upload_env (journal_scheduler_init 0 60, demo_uploader 6 False gappy) = ([q], s', u')"
    by (simp add: backlog_work_def demo_upload_env_def Let_def)
  from upload_acknowledgement_authentic [OF b] b show ?thesis by auto
qed

text \<open>A record that the server accepts.\<close>

definition demo_reading :: pm_journal_record where
  "demo_reading = plain_record\<lparr>interval := (interval plain_record)\<lparr>iv_voltage_mv := 120000, iv_frequency_mhz := 60000, iv_flags := 1,
     sample_count := 60, iv_expected_samples := 60\<rparr>\<rparr>"

lemma demo_reading_sound: "list_all record_wf [demo_reading]" "list_all (\<lambda>r. rec_device_id r = replicate 16 1) [demo_reading]" "in_order 7 [demo_reading]"
  using plain_wf(2) by (simp_all add: record_wf_def demo_reading_def in_i32_def)

lemma demo_reading_items: "\<exists>i. reading_items True 0 [durable_part demo_reading] = Inr [i]"
  by (simp add: record_reportable_def interval_time_trusted_def demo_reading_def durable_part_def plain_record_def plain_interval_def pm_interval_init_def
      PM_INTERVAL_FLAG_TIME_UNTRUSTED_def pm_journal_encode_record_def PM_JOURNAL_RECORD_SIZE_def Let_def)

lemma demo_plan:
  assumes "records b = [durable_part demo_reading]" "adaptive_batch_records s = 16"
  shows "\<exists>plan c. backlog_plan demo_upload b s = (PM_BACKLOG_PLAN_OK, plan, c) \<and> serialized_bytes plan = 1 \<and> pr_measure c = ''B''"
proof -
  obtain i where i: "reading_items True 0 [durable_part demo_reading] = Inr [i]" using demo_reading_items by blast
  have "cstr ''B'' = ''B''" by (simp add: cstr_def)
  then have "\<exists>c'. probe_reading_batch demo_upload b (Suc 0) c = (PM_BACKLOG_PROBE_OK, 1, c') \<and> pr_measure c' = ''B''" for c
    using i assms(1)
    by (simp add: probe_reading_batch_def pm_network_serialize_reading_batch_def demo_upload_def render_json_def PM_STORAGE_BATCH_MAX_def Let_def)
  then obtain c' where "probe_reading_batch demo_upload b (Suc 0) \<lparr>pr_measure = [], serialization_error = ESP_OK\<rparr> = (PM_BACKLOG_PROBE_OK, 1, c')"
    "pr_measure c' = ''B''" by blast
  then show ?thesis using assms
    by (simp add: backlog_plan_def pm_backlog_select_largest_fitting_def pm_backlog_bounded_record_limit_def PM_STORAGE_BATCH_MAX_def
        PM_NETWORK_BODY_MAX_def Let_def)
qed

theorem upload_next_records_witness:
  "\<exists>q s' u'. send_backlog demo_upload demo_net_peer ([], [idle_step]) (journal_scheduler_init 0 60) (demo_uploader 2 True [demo_reading]) = (ESP_OK, Some q, s', u') \<and>
    (\<exists>b :: pm_storage_batch. \<exists>k body. map rec_sequence (records b) = [7] \<and> 0 < k \<and> rq_body q = cstr body \<and>
      pm_network_serialize_reading_batch (jp_print demo_upload) (jp_alloc demo_upload) (take k (records b)) (jp_measure_max demo_upload + 1) = Inr body)"
proof -
  let ?u = "demo_uploader 2 True [demo_reading]" and ?b = "\<lparr>records = [durable_part demo_reading], after_sequence = 2, more_available = False\<rparr>"
  have seq: "rec_sequence demo_reading = 7" by (simp add: demo_reading_def)
  have sound: "sound_journal (sy_storage (ul_storage ?u)) [(plain_header, [demo_reading])]" using demo_uploader_sound [OF demo_reading_sound] .
  have "read_batch_owner 2 b (sy_storage (ul_storage ?u)) = (ESP_OK, ?b, sy_storage (ul_storage ?u))" for b
    using read_batch_sound [OF _ _ sound] seq by (simp add: insert_sorted_def batch_position_def insert_at_def PM_STORAGE_BATCH_MAX_def)
  from read_batch_calm [OF _ this] obtain sys where sys: "pm_storage_read_batch [] [idle_step] 2 (ul_storage ?u) = (ESP_OK, sys)" "sy_batch sys = ?b" by auto
  let ?s = "(journal_scheduler_init 0 60)\<lparr>adaptive_batch_records := 16\<rparr>"
  obtain plan c where p: "backlog_plan demo_upload ?b ?s = (PM_BACKLOG_PLAN_OK, plan, c)" "serialized_bytes plan = 1" "pr_measure c = ''B''"
    using demo_plan [of ?b ?s] by auto
  obtain q ctx where r: "journal_request demo_upload demo_net_peer PM_TELEMETRY_ENDPOINT ''B'' (?u\<lparr>ul_storage := sys\<rparr>) =
      (ESP_OK, bytes_chars [1, 2, 3], Some q, ?u\<lparr>ul_storage := sys, ul_network := ctx\<rparr>)"
    using demo_journal_request [of "?u\<lparr>ul_storage := sys\<rparr>"] by auto
  obtain u' where u': "store_acknowledgement 10 (?u\<lparr>ul_storage := sys, ul_network := ctx\<rparr>) = (ESP_OK, u')"
    using demo_store [of "?u\<lparr>ul_storage := sys, ul_network := ctx\<rparr>" 2] by auto
  have limit: "pm_backlog_bounded_record_limit (unat (adaptive_batch_records (journal_scheduler_init 0 60))) PM_STORAGE_BATCH_MAX = 16"
    by (simp add: journal_scheduler_init_def pm_backlog_bounded_record_limit_def PM_STORAGE_BATCH_MAX_def)
  have "jp_readings_endpoint demo_upload = PM_TELEMETRY_ENDPOINT" by (simp add: demo_upload_def)
  then have s: "send_backlog demo_upload demo_net_peer ([], [idle_step]) (journal_scheduler_init 0 60) ?u = (ESP_OK, Some q, ?s, u')"
    using sys p r u' limit by (simp add: send_backlog_def Let_def PM_NETWORK_BODY_MAX_def demo_acknowledgement)
  have "sorted_list_of_set {q \<in> rec_sequence ` set (journal_records [(plain_header, [demo_reading])]). (2 :: u64) < q} = [7]"
  proof -
    have "{q \<in> rec_sequence ` set (journal_records [(plain_header, [demo_reading])]). (2 :: u64) < q} = {7}" using seq by auto
    then show ?thesis by simp
  qed
  note seqs = this
  have ok: "sy_queue (ul_storage ?u) = []" "storage_readable (ul_health ?u)" "sd_results (st_card (sy_storage (ul_storage ?u))) = []" by simp_all
  obtain b :: pm_storage_batch and k body where "map rec_sequence (records b) = [7]" "0 < k" "rq_body q = cstr body"
    "pm_network_serialize_reading_batch (jp_print demo_upload) (jp_alloc demo_upload) (take k (records b)) (jp_measure_max demo_upload + 1) = Inr body"
    using upload_next_records [OF s ok sound, unfolded demo_uploader_simps demo_sequence_simps seqs]
    by (elim exE conjE) (rule that, simp_all)
  with s show ?thesis by (intro exI conjI)
qed

end
