(* ===== verification/PM_Startup.thy ===== *)
theory PM_Startup
  imports PM_Prelude
begin

text \<open>
  main/runtime_startup.c: creating the set of runtime tasks, all of them or none. A \<open>TaskHandle_t *\<close> is
  the address of the variable, \<open>None\<close> for NULL. Of FreeRTOS the model has the tasks that exist, the handle variables and, in
  \<open>create_outcomes\<close>, whether each coming \<open>xTaskCreate\<close> finds memory (past the end of the list it does).
\<close>

record pm_runtime_task_spec =
  ts_function :: "nat option"
  ts_name :: "string option"
  ts_stack_depth :: u32
  ts_argument :: "nat option"
  ts_priority :: nat
  ts_handle :: "nat option"

record runtime =
  handle_of :: "nat \<Rightarrow> nat option"
  live_tasks :: "nat set"
  next_task :: nat
  create_outcomes :: "bool list"

definition xTaskCreate :: "nat \<Rightarrow> runtime \<Rightarrow> bool \<times> runtime" where
  "xTaskCreate h rt =
     (let ok = (case create_outcomes rt of [] \<Rightarrow> True | b # _ \<Rightarrow> b);
          rt1 = rt\<lparr>create_outcomes := tl (create_outcomes rt)\<rparr>
      in if ok then (True, rt1\<lparr>handle_of := (handle_of rt1)(h \<mapsto> next_task rt1),
                       live_tasks := insert (next_task rt1) (live_tasks rt1), next_task := Suc (next_task rt1)\<rparr>)
         else (False, rt1))"

definition vTaskDelete :: "nat \<Rightarrow> runtime \<Rightarrow> runtime" where
  "vTaskDelete t rt = rt\<lparr>live_tasks := live_tasks rt - {t}\<rparr>"

fun pm_runtime_delete_task_set :: "pm_runtime_task_spec list \<Rightarrow> nat \<Rightarrow> runtime \<Rightarrow> runtime" where
  "pm_runtime_delete_task_set specs 0 rt = rt"
| "pm_runtime_delete_task_set specs (Suc k) rt =
     pm_runtime_delete_task_set specs k
       (case ts_handle (specs ! k) of
          None \<Rightarrow> rt
        | Some h \<Rightarrow> (case handle_of rt h of
              None \<Rightarrow> rt
            | Some t \<Rightarrow> (vTaskDelete t rt)\<lparr>handle_of := (handle_of rt)(h := None)\<rparr>))"

function create_tasks :: "pm_runtime_task_spec list \<Rightarrow> nat \<Rightarrow> runtime \<Rightarrow> esp_err \<times> runtime" where
  "create_tasks specs i rt =
     (if length specs \<le> i then (ESP_OK, rt)
      else case (ts_function (specs ! i), ts_name (specs ! i), ts_handle (specs ! i)) of
          (Some _, Some _, Some h) \<Rightarrow>
            (case xTaskCreate h (rt\<lparr>handle_of := (handle_of rt)(h := None)\<rparr>) of
               (True, rt') \<Rightarrow> create_tasks specs (Suc i) rt'
             | (False, rt') \<Rightarrow> (ESP_ERR_NO_MEM, pm_runtime_delete_task_set specs (Suc i) rt'))
        | _ \<Rightarrow> (ESP_ERR_INVALID_ARG, pm_runtime_delete_task_set specs i rt))"
  by pat_completeness auto
termination by (relation "measure (\<lambda>(specs, i, _). length specs - i)") auto

declare create_tasks.simps [simp del]

definition pm_runtime_create_task_set :: "pm_runtime_task_spec list \<Rightarrow> runtime \<Rightarrow> esp_err \<times> runtime" where
  "pm_runtime_create_task_set specs rt =
     (if specs = [] then (ESP_ERR_INVALID_ARG, rt) else create_tasks specs 0 rt)"

subsection \<open>All or nothing\<close>

text \<open>The first \<open>i\<close> tasks have been created on top of the tasks in \<open>old\<close>.\<close>

definition created :: "pm_runtime_task_spec list \<Rightarrow> nat \<Rightarrow> runtime \<Rightarrow> runtime \<Rightarrow> bool" where
  "created specs i rt0 rt \<longleftrightarrow>
     live_tasks rt = live_tasks rt0 \<union> {next_task rt0..<next_task rt0 + i} \<and>
     (\<forall>j < i. \<exists>h. ts_handle (specs ! j) = Some h \<and> handle_of rt h = Some (next_task rt0 + j))"

definition handles_distinct :: "pm_runtime_task_spec list \<Rightarrow> bool" where
  "handles_distinct specs \<longleftrightarrow>
     (\<forall>i < length specs. \<forall>j < length specs. i \<noteq> j \<longrightarrow> ts_handle (specs ! i) = None \<or> ts_handle (specs ! i) \<noteq> ts_handle (specs ! j))"

definition fresh_ids :: "runtime \<Rightarrow> bool" where
  "fresh_ids rt \<longleftrightarrow> (\<forall>t \<in> live_tasks rt. t < next_task rt)"

lemma delete_created:
  assumes "created specs i rt0 rt" "fresh_ids rt0" "handles_distinct specs" "i \<le> length specs"
  shows "live_tasks (pm_runtime_delete_task_set specs i rt) = live_tasks rt0 \<and>
     (\<forall>j < i. \<forall>h. ts_handle (specs ! j) = Some h \<longrightarrow> handle_of (pm_runtime_delete_task_set specs i rt) h = None) \<and>
     (\<forall>h. (\<forall>j < i. ts_handle (specs ! j) \<noteq> Some h) \<longrightarrow>
        handle_of (pm_runtime_delete_task_set specs i rt) h = handle_of rt h)"
  using assms(1,4)
proof (induction i arbitrary: rt)
  case 0
  then show ?case by (simp add: created_def)
next
  case (Suc i)
  then obtain h where h: "ts_handle (specs ! i) = Some h" "handle_of rt h = Some (next_task rt0 + i)"
    by (auto simp: created_def)
  let ?rt = "(vTaskDelete (next_task rt0 + i) rt)\<lparr>handle_of := (handle_of rt)(h := None)\<rparr>"
  have del: "pm_runtime_delete_task_set specs (Suc i) rt = pm_runtime_delete_task_set specs i ?rt"
    using h by simp
  have other: "ts_handle (specs ! j) \<noteq> Some h" if "j < i" for j
    using assms(3) that Suc.prems(2) h(1) unfolding handles_distinct_def
    by (metis Suc_le_lessD less_trans nat_neq_iff option.distinct(1))
  have "next_task rt0 + i \<notin> live_tasks rt0" using assms(2) by (auto simp: fresh_ids_def)
  then have live: "live_tasks ?rt = live_tasks rt0 \<union> {next_task rt0..<next_task rt0 + i}"
    using Suc.prems(1) by (auto simp: created_def vTaskDelete_def)
  have "\<exists>h'. ts_handle (specs ! j) = Some h' \<and> handle_of ?rt h' = Some (next_task rt0 + j)" if j: "j < i" for j
  proof -
    have "j < Suc i" using j by simp
    then obtain h' where "ts_handle (specs ! j) = Some h'" "handle_of rt h' = Some (next_task rt0 + j)"
      using Suc.prems(1) unfolding created_def by blast
    with other [OF j] show ?thesis by auto
  qed
  with live have "created specs i rt0 ?rt" by (simp add: created_def)
  from Suc.IH [OF this] have IH: "live_tasks (pm_runtime_delete_task_set specs i ?rt) = live_tasks rt0"
    "\<And>j h'. j < i \<Longrightarrow> ts_handle (specs ! j) = Some h' \<Longrightarrow> handle_of (pm_runtime_delete_task_set specs i ?rt) h' = None"
    "\<And>h'. (\<forall>j < i. ts_handle (specs ! j) \<noteq> Some h') \<Longrightarrow>
      handle_of (pm_runtime_delete_task_set specs i ?rt) h' = handle_of ?rt h'"
    using Suc.prems(2) by auto
  have "handle_of (pm_runtime_delete_task_set specs i ?rt) h = None" using IH(3) [of h] other by simp
  then show ?case unfolding del using IH h(1) by (auto simp: less_Suc_eq)
qed

definition complete_spec :: "pm_runtime_task_spec \<Rightarrow> bool" where
  "complete_spec s \<longleftrightarrow> ts_function s \<noteq> None \<and> ts_name s \<noteq> None \<and> ts_handle s \<noteq> None"

text \<open>What holds before the task number \<open>i\<close> is created.\<close>

definition progress :: "pm_runtime_task_spec list \<Rightarrow> nat \<Rightarrow> runtime \<Rightarrow> runtime \<Rightarrow> bool" where
  "progress specs i rt0 rt \<longleftrightarrow> created specs i rt0 rt \<and> next_task rt = next_task rt0 + i \<and> i \<le> length specs \<and>
     (\<forall>j < i. complete_spec (specs ! j)) \<and>
     (\<forall>h. (\<forall>j < i. ts_handle (specs ! j) \<noteq> Some h) \<longrightarrow> handle_of rt h = handle_of rt0 h)"

definition untouched :: "runtime \<Rightarrow> runtime \<Rightarrow> bool" where
  "untouched rt0 rt \<longleftrightarrow> live_tasks rt = live_tasks rt0 \<and>
     (\<forall>h t. handle_of rt h = Some t \<longrightarrow> handle_of rt0 h = Some t)"

lemma delete_progress:
  assumes "progress specs i rt0 rt" "fresh_ids rt0" "handles_distinct specs"
  shows "untouched rt0 (pm_runtime_delete_task_set specs i rt)"
  using delete_created [of specs i rt0 rt] assms unfolding progress_def untouched_def
  by (metis option.distinct(1))

lemma xTaskCreate_cases:
  obtains "xTaskCreate h rt = (False, rt\<lparr>create_outcomes := tl (create_outcomes rt)\<rparr>)"
  | "xTaskCreate h rt = (True, rt\<lparr>create_outcomes := tl (create_outcomes rt), handle_of := (handle_of rt)(h \<mapsto> next_task rt),
       live_tasks := insert (next_task rt) (live_tasks rt), next_task := Suc (next_task rt)\<rparr>)"
  by (cases "case create_outcomes rt of [] \<Rightarrow> True | b # _ \<Rightarrow> b") (simp_all add: xTaskCreate_def Let_def)

lemma handle_before:
  assumes "handles_distinct specs" "i < length specs" "ts_handle (specs ! i) = Some h" "j < i"
  shows "ts_handle (specs ! j) \<noteq> Some h"
  using assms unfolding handles_distinct_def by (metis less_trans nat_neq_iff option.distinct(1))

lemma progress_Suc:
  assumes p: "progress specs i rt0 rt" and d: "handles_distinct specs" and i: "i < length specs"
    and h: "ts_handle (specs ! i) = Some h" "complete_spec (specs ! i)"
  shows "progress specs (Suc i) rt0 (rt\<lparr>create_outcomes := os, handle_of := (handle_of rt)(h \<mapsto> next_task rt),
       live_tasks := insert (next_task rt) (live_tasks rt), next_task := Suc (next_task rt)\<rparr>)"
proof -
  have nh: "ts_handle (specs ! j) \<noteq> Some h" if "j < i" for j using handle_before [OF d i h(1) that] .
  have "\<exists>h'. ts_handle (specs ! j) = Some h' \<and> ((handle_of rt)(h \<mapsto> next_task rt)) h' = Some (next_task rt0 + j)"
    if "j < Suc i" for j
    using p h(1) nh [of j] that by (cases "j = i") (auto simp: progress_def created_def less_Suc_eq)
  moreover have "insert (next_task rt) (live_tasks rt) = live_tasks rt0 \<union> {next_task rt0..<next_task rt0 + Suc i}"
    using p by (auto simp: progress_def created_def)
  ultimately have "created specs (Suc i) rt0 (rt\<lparr>create_outcomes := os, handle_of := (handle_of rt)(h \<mapsto> next_task rt),
       live_tasks := insert (next_task rt) (live_tasks rt), next_task := Suc (next_task rt)\<rparr>)"
    by (simp only: created_def) simp
  then show ?thesis using p h i by (auto simp: progress_def less_Suc_eq)
qed

lemma progress_refused:
  assumes p: "progress specs i rt0 rt" and d: "handles_distinct specs" and i: "i < length specs"
    and h: "ts_handle (specs ! i) = Some h" and f: "fresh_ids rt0"
  shows "untouched rt0 (pm_runtime_delete_task_set specs (Suc i)
      (rt\<lparr>handle_of := (handle_of rt)(h := None), create_outcomes := os\<rparr>))"
proof -
  let ?rt = "rt\<lparr>handle_of := (handle_of rt)(h := None), create_outcomes := os\<rparr>"
  have nh: "ts_handle (specs ! j) \<noteq> Some h" if "j < i" for j using handle_before [OF d i h that] .
  have "\<exists>h'. ts_handle (specs ! j) = Some h' \<and> ((handle_of rt)(h := None)) h' = Some (next_task rt0 + j)"
    if "j < i" for j
    using p nh [OF that] that by (auto simp: progress_def created_def)
  then have "created specs i rt0 ?rt" using p by (simp add: created_def progress_def)
  from delete_created [OF this f d] i have del:
    "live_tasks (pm_runtime_delete_task_set specs i ?rt) = live_tasks rt0"
    "\<And>j h'. j < i \<Longrightarrow> ts_handle (specs ! j) = Some h' \<Longrightarrow> handle_of (pm_runtime_delete_task_set specs i ?rt) h' = None"
    "\<And>h'. (\<forall>j < i. ts_handle (specs ! j) \<noteq> Some h') \<Longrightarrow>
      handle_of (pm_runtime_delete_task_set specs i ?rt) h' = handle_of ?rt h'"
    by auto
  have "handle_of rt0 h' = Some t" if "handle_of (pm_runtime_delete_task_set specs i ?rt) h' = Some t" for h' t
  proof -
    have "\<forall>j < i. ts_handle (specs ! j) \<noteq> Some h'" using del(2) that by fastforce
    moreover from this have "handle_of ?rt h' = Some t" using del(3) that by simp
    ultimately show ?thesis using p by (auto simp: progress_def split: if_split_asm)
  qed
  then show ?thesis using h del(1) by (simp add: untouched_def)
qed

lemma create_tasks_step:
  assumes "progress specs i rt0 rt" "fresh_ids rt0" "handles_distinct specs" "create_tasks specs i rt = (e, rt')"
  shows "if e = ESP_OK then progress specs (length specs) rt0 rt' else untouched rt0 rt'"
  using assms(1,4)
proof (induction "length specs - i" arbitrary: i rt)
  case 0
  then have "i = length specs" by (simp add: progress_def)
  with 0 show ?case by (simp add: create_tasks.simps)
next
  case (Suc k)
  then have i: "i < length specs" by simp
  note step = create_tasks.simps [of specs i rt]
  show ?case
  proof (cases "complete_spec (specs ! i)")
    case False
    with i Suc.prems(2) have "e = ESP_ERR_INVALID_ARG" "rt' = pm_runtime_delete_task_set specs i rt"
      by (auto simp: step complete_spec_def split: option.splits)
    with delete_progress [OF Suc.prems(1) assms(2,3)] show ?thesis by simp
  next
    case True
    then obtain f nm h where s: "ts_function (specs ! i) = Some f" "ts_name (specs ! i) = Some nm"
      "ts_handle (specs ! i) = Some h" by (auto simp: complete_spec_def)
    let ?rt = "rt\<lparr>handle_of := (handle_of rt)(h := None)\<rparr>"
    show ?thesis
    proof (cases rule: xTaskCreate_cases [of h ?rt])
      case 1
      with Suc.prems(2) s i have "e = ESP_ERR_NO_MEM"
        "rt' = pm_runtime_delete_task_set specs (Suc i) (?rt\<lparr>create_outcomes := tl (create_outcomes ?rt)\<rparr>)"
        by (auto simp: step simp del: pm_runtime_delete_task_set.simps)
      with progress_refused [OF Suc.prems(1) assms(3) i s(3) assms(2), of "tl (create_outcomes rt)"]
      show ?thesis by (simp del: pm_runtime_delete_task_set.simps)
    next
      case 2
      with progress_Suc [OF Suc.prems(1) assms(3) i s(3) True, of "tl (create_outcomes rt)"]
        Suc.hyps(1) [of "Suc i"] Suc.hyps(2) Suc.prems(2) s i
      show ?thesis by (simp add: step)
    qed
  qed
qed

text \<open>
  The runtime tasks are started all or not at all: when the call succeeds, every task exists
  and its handle variable refers to it; when it fails, because a specification is incomplete or memory runs
  out at any point, exactly the tasks that existed before remain and no handle refers to a task
  that was deleted.
\<close>

theorem runtime_tasks_all_or_nothing:
  assumes "fresh_ids rt" "handles_distinct specs" "pm_runtime_create_task_set specs rt = (e, rt')"
  shows "if e = ESP_OK
    then specs \<noteq> [] \<and> live_tasks rt' = live_tasks rt \<union> {next_task rt..<next_task rt + length specs} \<and>
      (\<forall>i < length specs. \<exists>h. ts_handle (specs ! i) = Some h \<and> handle_of rt' h = Some (next_task rt + i))
    else live_tasks rt' = live_tasks rt \<and> (\<forall>h t. handle_of rt' h = Some t \<longrightarrow> handle_of rt h = Some t)"
proof (cases "specs = []")
  case True
  with assms(3) show ?thesis by (auto simp: pm_runtime_create_task_set_def)
next
  case False
  moreover have "progress specs 0 rt rt" by (simp add: progress_def created_def)
  ultimately show ?thesis
    using create_tasks_step [OF _ assms(1,2), of 0 rt e rt'] assms(3)
    by (auto simp: pm_runtime_create_task_set_def progress_def created_def untouched_def split: if_split_asm)
qed

definition demo_spec :: "nat \<Rightarrow> pm_runtime_task_spec" where
  "demo_spec h = \<lparr>ts_function = Some 1, ts_name = Some ''task'', ts_stack_depth = 4096, ts_argument = None,
     ts_priority = 5, ts_handle = Some h\<rparr>"

theorem runtime_tasks_all_or_nothing_witness:
  "live_tasks (snd (pm_runtime_create_task_set [demo_spec 0, demo_spec 1, demo_spec 2]
     \<lparr>handle_of = Map.empty, live_tasks = {7}, next_task = 8, create_outcomes = [True, True, False]\<rparr>)) = {7}"
proof -
  let ?specs = "[demo_spec 0, demo_spec 1, demo_spec 2]"
  let ?rt = "\<lparr>handle_of = Map.empty, live_tasks = {7}, next_task = 8, create_outcomes = [True, True, False]\<rparr>"
  have "handles_distinct ?specs" by (auto simp: handles_distinct_def demo_spec_def nth_Cons')
  moreover have "fst (pm_runtime_create_task_set ?specs ?rt) = ESP_ERR_NO_MEM"
    by (simp add: pm_runtime_create_task_set_def create_tasks.simps demo_spec_def xTaskCreate_def Let_def)
  ultimately show ?thesis
    using runtime_tasks_all_or_nothing [of ?rt ?specs] by (cases "pm_runtime_create_task_set ?specs ?rt") (simp add: fresh_ids_def)
qed

end
