(* ===== verification/PM_App.thy ===== *)
theory PM_App
  imports PM_Network_Task PM_State PM_Time
begin

text \<open>
  The tasks of main/app_main_stateless.c over the components: one round of the measurement, control and
  supervisor tasks, the execution of a command, the OTA task, the callbacks that fill the two bounded queues, and the settlement of
  commands that a restart interrupted.

  The static variables the tasks share are the record \<open>app\<close>; a pointer to a command is its index in the ledger.
  Whether a mutex or memory could be had is an argument. The mutex of the ledger is recursive, so calls under a
  lock that is held succeed in taking it. The progress reports of an installation are applied to the ledger
  after it, in order: the installation does not read the ledger.
\<close>

subsection \<open>Shared state and queues\<close>

record app =
  a_ledger :: pm_command_ledger
  a_store :: "pm_command_ledger nvs"
  a_queue :: "nat list"
  a_acks :: "string list"
  a_ota_active :: bool
  a_ctx :: pm_network_context
  a_slot :: pm_telemetry_slot
  a_time :: pm_time_state
  a_time_store :: "time_checkpoint nvs"
  a_state :: pm_state_machine
  a_meter :: pm_meter_driver
  a_ota :: ota_world

definition PM_COMMAND_QUEUE_DEPTH :: nat where "PM_COMMAND_QUEUE_DEPTH = PM_COMMAND_LEDGER_SIZE"
definition PM_RESULT_ACK_QUEUE_DEPTH :: nat where "PM_RESULT_ACK_QUEUE_DEPTH = PM_COMMAND_LEDGER_SIZE"

text \<open>\<open>xQueueSend\<close> without waiting.\<close>

definition queue_send :: "nat \<Rightarrow> 'a \<Rightarrow> 'a list \<Rightarrow> bool \<times> 'a list" where
  "queue_send depth x q = (if length q < depth then (True, q @ [x]) else (False, q))"

definition command_received :: "nat \<Rightarrow> app \<Rightarrow> app" where
  "command_received i a = a\<lparr>a_queue := snd (queue_send PM_COMMAND_QUEUE_DEPTH i (a_queue a))\<rparr>"

definition authenticated_result_acknowledged :: "string \<Rightarrow> app \<Rightarrow> app" where
  "authenticated_result_acknowledged cid a =
     (if length (cstr cid) \<noteq> PM_COMMAND_ID_MAX then a
      else a\<lparr>a_acks := snd (queue_send PM_RESULT_ACK_QUEUE_DEPTH (store_str 37 cid) (a_acks a))\<rparr>)"

definition set_degraded :: "pm_state_event \<Rightarrow> int \<Rightarrow> app \<Rightarrow> app" where
  "set_degraded event now a = a\<lparr>a_state := snd (pm_state_transition (a_state a) event now)\<rparr>"

subsection \<open>Measuring and keeping time\<close>

text \<open>The readings of the clock: inside the driver, for the sample, and at the state change.\<close>

definition measurement_round :: "uart \<Rightarrow> int \<times> int \<times> int \<Rightarrow> app \<Rightarrow> app" where
  "measurement_round u = (\<lambda>(read_at, sampled_at, changed_at) a.
     case pm_meter_read u read_at (a_meter a) (empty_sample PM_PZEM_OK) of (e, sample, meter) \<Rightarrow>
     case pm_time_now (a_time a) sampled_at of (utc, tm) \<Rightarrow>
       let sample1 = sample\<lparr>sample_monotonic_us := sampled_at, time_trusted := (utc \<noteq> None),
                            sample_timestamp_utc_ms := (case utc of Some t \<Rightarrow> t | None \<Rightarrow> 0)\<rparr>;
           a1 = set_degraded (if e \<noteq> ESP_OK then PM_EVENT_METER_FAILED else PM_EVENT_METER_RECOVERED) changed_at
                  (a\<lparr>a_meter := meter, a_time := tm\<rparr>)
       in a1\<lparr>a_slot := snd (pm_network_publish_live sample1 (a_slot a1))\<rparr>)"

text \<open>One round of the supervisor, with the time of the last checkpoint.\<close>

definition supervisor_round :: "int \<Rightarrow> int \<Rightarrow> int \<Rightarrow> app \<Rightarrow> int \<times> app" where
  "supervisor_round now_us time_s last_checkpoint a =
     (if \<not> trusted (a_time a) \<or> now_us - last_checkpoint \<ge> 3600000000
      then let utc_ms = time_s * 1000 in
        if utc_ms \<ge> 1704067200000
        then (case pm_time_observe (a_time a) PM_TIME_SNTP utc_ms now_us (a_time_store a) of (e, tm, n) \<Rightarrow>
                (if e = ESP_OK then now_us else last_checkpoint, a\<lparr>a_time := tm, a_time_store := n\<rparr>))
        else (last_checkpoint, a)
      else (last_checkpoint, a))"

subsection \<open>The OTA task\<close>

definition claim_ota_task :: "app \<Rightarrow> bool \<times> app" where
  "claim_ota_task a = (\<not> a_ota_active a, a\<lparr>a_ota_active := True\<rparr>)"

definition release_ota_task :: "app \<Rightarrow> app" where
  "release_ota_task a = a\<lparr>a_ota_active := False\<rparr>"

definition app_transition ::
    "bool \<times> bool \<Rightarrow> nat \<Rightarrow> pm_command_state \<Rightarrow> u8 \<Rightarrow> esp_err \<Rightarrow> app \<Rightarrow> esp_err \<times> app" where
  "app_transition = (\<lambda>(lock, alloc) i st progress result a.
     case pm_command_transition lock alloc (a_ledger a) i st progress (sint (esp_err_code result)) (a_store a) of
       (e, l, n) \<Rightarrow> (e, a\<lparr>a_ledger := l, a_store := n\<rparr>))"

definition write_text :: "nat \<Rightarrow> string \<Rightarrow> app \<Rightarrow> app" where
  "write_text i s a = a\<lparr>a_ledger := write_result (a_ledger a) i s\<rparr>"

definition ota_progress :: "bool \<times> bool \<Rightarrow> nat \<Rightarrow> app \<Rightarrow> u8 \<times> pm_ota_stage \<Rightarrow> app" where
  "ota_progress = (\<lambda>(lock, alloc) i a (percent, stage).
     if \<not> lock then a
     else snd (app_transition (True, alloc) i PM_COMMAND_RUNNING percent ESP_OK
                (write_text i (''ota_stage='' @ dec (unat (ota_stage_code stage))) a)))"

record 'j ota_env =
  oe_json :: "'j cjson"
  oe_peer :: ota_peer
  oe_now :: int
  oe_progress :: "nat \<Rightarrow> bool \<times> bool"
  oe_awaiting :: "bool \<times> bool"
  oe_failed :: "bool \<times> bool"

text \<open>Parsing, the time and the installation; then the reports.\<close>

definition ota_run ::
    "psa_hash \<Rightarrow> (u8 list \<Rightarrow> string option) \<Rightarrow> (string \<Rightarrow> u8 list option) \<Rightarrow> 'j ota_env \<Rightarrow> nat \<Rightarrow>
      pm_network_auth_snapshot \<Rightarrow> app \<Rightarrow> esp_err \<times> app" where
  "ota_run psa b64enc b64dec env i auth_of a =
     (case pm_ota_manifest_parse_payload (oe_json env) b64dec (cmd_payload (entries (a_ledger a) ! i))
             (as_server_origin auth_of) (as_device_id_text auth_of) of
        Inl e \<Rightarrow> (e, a)
      | Inr manifest \<Rightarrow>
        (case pm_time_now (a_time a) (oe_now env) of
           (None, tm) \<Rightarrow> (ESP_ERR_INVALID_STATE, a\<lparr>a_time := tm\<rparr>)
         | (Some utc_ms, tm) \<Rightarrow>
           (case pm_ota_install psa b64enc b64dec (oe_peer env) manifest (as_ca_pem auth_of)
                   (as_device_to_server_key auth_of) (as_server_to_device_key auth_of) utc_ms
                   ((a_ota a)\<lparr>w_reports := []\<rparr>) of (e, w) \<Rightarrow>
              (e, foldl (\<lambda>a (k, r). ota_progress (oe_progress env k) i a r)
                    (a\<lparr>a_time := tm, a_ota := w\<rparr>) (enumerate 0 (w_reports w))))))"

text \<open>Whether the device restarts, and the state.\<close>

definition ota_task ::
    "psa_hash \<Rightarrow> (u8 list \<Rightarrow> string option) \<Rightarrow> (string \<Rightarrow> u8 list option) \<Rightarrow> 'j ota_env \<Rightarrow> nat \<Rightarrow>
      pm_network_auth_snapshot \<Rightarrow> app \<Rightarrow> bool \<times> app" where
  "ota_task psa b64enc b64dec env i auth_of a =
     (case ota_run psa b64enc b64dec env i auth_of a of (e1, a1) \<Rightarrow>
      case (if e1 = ESP_OK then app_transition (oe_awaiting env) i PM_COMMAND_AWAITING_REBOOT 100 ESP_OK a1
            else (e1, a1)) of (result, a2) \<Rightarrow>
        if result = ESP_OK then (True, a2)
        else let a3 = a2\<lparr>a_ota := snd (pm_ota_cancel_pending_boot (oe_peer env) result (a_ota a2)),
                         a_ctx := pm_network_health_update PM_HEALTH_OTA_FAILED True (a_ctx a2)\<rparr>;
                 a4 = snd (app_transition (oe_failed env) i PM_COMMAND_FAILED
                        (progress_percent (entries (a_ledger a3) ! i)) result a3)
          in (False, release_ota_task a4))"

subsection \<open>Commands\<close>

definition process_result_acknowledgements :: "app \<Rightarrow> app" where
  "process_result_acknowledgements a =
     (foldl (\<lambda>a cid. case pm_command_acknowledge_result True (a_ledger a) cid (a_store a) of
                (e, l, n) \<Rightarrow> a\<lparr>a_ledger := l, a_store := n\<rparr>) a (a_acks a))\<lparr>a_acks := []\<rparr>"

datatype command_outcome =
  Command_Skipped | Command_Finished | Device_Restarting | Ota_Task_Started pm_network_auth_snapshot

record command_env =
  ce_lock :: bool
  ce_running :: bool
  ce_reboot :: bool
  ce_final :: bool
  ce_heap :: heap_report
  ce_ota_alloc :: bool
  ce_mutex :: "bool option"
  ce_task_created :: bool

definition diagnostics_text :: "heap_report \<Rightarrow> string" where
  "diagnostics_text hr = ''heap='' @ dec (unat (hr_free_internal hr)) @ '',min='' @ dec (unat (hr_minimum_internal hr)) @
     '',largest='' @ dec (unat (hr_largest_internal hr)) @ '',psram='' @ dec (unat (hr_free_psram hr)) @
     '',reset='' @ dec (unat (hr_reset_reason hr))"

definition meter_self_test :: "pm_telemetry_slot \<Rightarrow> esp_err \<times> string" where
  "meter_self_test slot =
     (case pm_network_copy_live slot of (sample, present) \<Rightarrow>
        (if \<not> present \<or> status sample \<noteq> PM_PZEM_OK then ESP_ERR_INVALID_RESPONSE else ESP_OK,
         ''pzem_status='' @ (if present then pm_pzem_status_name (status sample) else ''absent'')))"

text \<open>
  The start of an OTA task, \<open>Inr\<close> with its snapshot of the credentials. As in the code, \<open>release_ota_task\<close> follows
  every failure, that of the claim itself included.
\<close>

definition start_ota :: "command_env \<Rightarrow> app \<Rightarrow> (esp_err + pm_network_auth_snapshot) \<times> app" where
  "start_ota env a =
     (case claim_ota_task a of (claimed, a1) \<Rightarrow>
        if \<not> claimed then (Inl ESP_ERR_INVALID_STATE, release_ota_task a1)
        else if \<not> ce_ota_alloc env then (Inl ESP_ERR_NO_MEM, release_ota_task a1)
        else case pm_network_capture_auth_snapshot (ce_mutex env) (a_ctx a1) of (e, auth_of) \<Rightarrow>
          if e \<noteq> ESP_OK then (Inl e, release_ota_task a1)
          else if ce_task_created env then (Inr auth_of, a1)
          else (Inl ESP_ERR_NO_MEM, release_ota_task a1))"

definition finish_command :: "command_env \<Rightarrow> nat \<Rightarrow> esp_err \<Rightarrow> app \<Rightarrow> app" where
  "finish_command env i result a =
     snd (app_transition (True, ce_final env) i
            (if result = ESP_OK then PM_COMMAND_SUCCEEDED else PM_COMMAND_FAILED)
            (if result = ESP_OK then 100 else progress_percent (entries (a_ledger a) ! i)) result a)"

definition execute_command :: "command_env \<Rightarrow> nat \<Rightarrow> app \<Rightarrow> command_outcome \<times> app" where
  "execute_command env i a0 =
     (if \<not> ce_lock env then (Command_Skipped, a0)
      else let a = snd (app_transition (True, ce_running env) i PM_COMMAND_RUNNING 1 ESP_OK a0) in
        (case cmd_type (entries (a_ledger a) ! i) of
           PM_COMMAND_REBOOT \<Rightarrow>
             (case app_transition (True, ce_reboot env) i PM_COMMAND_AWAITING_REBOOT 100 ESP_OK a of (e, a1) \<Rightarrow>
                if e = ESP_OK then (Device_Restarting, a1) else (Command_Finished, finish_command env i e a1))
         | PM_COMMAND_DIAGNOSTICS_SNAPSHOT \<Rightarrow>
             (Command_Finished, finish_command env i ESP_OK (write_text i (diagnostics_text (ce_heap env)) a))
         | PM_COMMAND_NETWORK_SELF_TEST \<Rightarrow>
             (Command_Finished, finish_command env i ESP_OK (write_text i ''outbound_telemetry_retry_active'' a))
         | PM_COMMAND_METER_SELF_TEST \<Rightarrow>
             (case meter_self_test (a_slot a) of (e, s) \<Rightarrow>
                (Command_Finished, finish_command env i e (write_text i s a)))
         | PM_COMMAND_OTA_INSTALL \<Rightarrow>
             (case start_ota env a of
                (Inr auth_of, a1) \<Rightarrow> (Ota_Task_Started auth_of, a1)
              | (Inl e, a1) \<Rightarrow> (Command_Finished, finish_command env i e a1))
         | _ \<Rightarrow> (Command_Finished, finish_command env i ESP_ERR_NOT_SUPPORTED a)))"

text \<open>One round of the control task; \<open>ack_lock\<close> says whether it got the ledger for the acknowledgements.\<close>

definition control_round :: "bool \<Rightarrow> command_env \<Rightarrow> app \<Rightarrow> command_outcome \<times> app" where
  "control_round ack_lock env a =
     (let a1 = (if ack_lock then process_result_acknowledgements a else a) in
      case a_queue a1 of
        [] \<Rightarrow> (Command_Skipped, a1)
      | i # q \<Rightarrow> execute_command env i (a1\<lparr>a_queue := q\<rparr>))"

subsection \<open>Commands that a restart interrupted\<close>

text \<open>The outcome of an update as its checkpoint tells it.\<close>

definition ota_outcome :: "pm_ota_checkpoint \<Rightarrow> pm_command_state \<times> int \<times> string" where
  "ota_outcome checkpoint =
     (let failure = sint (if ck_last_error checkpoint = 0 then esp_err_code ESP_ERR_INVALID_STATE else ck_last_error checkpoint)
      in if ck_stage checkpoint = PM_OTA_VALID then (PM_COMMAND_SUCCEEDED, 0, ''ota_post_boot_valid'')
         else if ck_stage checkpoint = PM_OTA_ROLLED_BACK then (PM_COMMAND_ROLLED_BACK, failure, ''ota_rolled_back'')
         else (PM_COMMAND_FAILED, failure, ''ota_outcome_unavailable''))"

definition boot_settlement :: "pm_ota_checkpoint \<Rightarrow> pm_command \<Rightarrow> (pm_command_state \<times> int \<times> string) option" where
  "boot_settlement checkpoint c =
     (case pm_command_boot_action c of
        PM_COMMAND_BOOT_FAIL_INTERRUPTED \<Rightarrow>
          Some (PM_COMMAND_FAILED, sint (esp_err_code ESP_ERR_INVALID_STATE), ''interrupted_by_reboot'')
      | PM_COMMAND_BOOT_COMPLETE_REBOOT \<Rightarrow> Some (PM_COMMAND_SUCCEEDED, 0, ''reboot_observed'')
      | PM_COMMAND_BOOT_RECONCILE_OTA \<Rightarrow> Some (ota_outcome checkpoint)
      | _ \<Rightarrow> None)"

definition reconcile_entry :: "pm_ota_checkpoint \<Rightarrow> bool \<Rightarrow> nat \<Rightarrow> app \<Rightarrow> esp_err \<times> app" where
  "reconcile_entry checkpoint alloc i a =
     (let c = entries (a_ledger a) ! i in
      if vacant c then (ESP_OK, a)
      else case boot_settlement checkpoint c of
        Some (st, code, reason) \<Rightarrow>
          (case pm_command_reconcile_boot True alloc (a_ledger a) i st code reason (a_store a) of (e, l, n) \<Rightarrow>
             (e, a\<lparr>a_ledger := l, a_store := n\<rparr>))
      | None \<Rightarrow>
          if pm_command_boot_action c = PM_COMMAND_BOOT_REQUEUE
          then (case queue_send PM_COMMAND_QUEUE_DEPTH i (a_queue a) of (ok, q) \<Rightarrow>
                  (if ok then ESP_OK else ESP_ERR_NO_MEM, a\<lparr>a_queue := q\<rparr>))
          else (ESP_OK, a))"

fun reconcile_entries :: "pm_ota_checkpoint \<Rightarrow> (nat \<Rightarrow> bool) \<Rightarrow> nat list \<Rightarrow> app \<Rightarrow> esp_err \<times> app" where
  "reconcile_entries checkpoint alloc [] a = (ESP_OK, a)"
| "reconcile_entries checkpoint alloc (i # is) a =
     (case reconcile_entry checkpoint (alloc i) i a of (e, a1) \<Rightarrow>
        if e = ESP_OK then reconcile_entries checkpoint alloc is a1 else (e, a1))"

definition reconcile_interrupted_commands ::
    "bool \<Rightarrow> pm_ota_checkpoint \<Rightarrow> (nat \<Rightarrow> bool) \<Rightarrow> app \<Rightarrow> esp_err \<times> app" where
  "reconcile_interrupted_commands lock checkpoint alloc a =
     (if \<not> lock then (ESP_ERR_INVALID_ARG, a)
      else reconcile_entries checkpoint alloc [0..<PM_COMMAND_LEDGER_SIZE] a)"

subsection \<open>What the operations do to entries\<close>

text \<open>The parts of an entry that decide what happens to it.\<close>

definition core :: "pm_command \<Rightarrow> char list \<times> pm_command_type \<times> pm_command_state" where
  "core c = (command_id c, cmd_type c, cmd_state c)"

abbreviation cores :: "app \<Rightarrow> nat \<Rightarrow> char list \<times> pm_command_type \<times> pm_command_state" where
  "cores a j \<equiv> core (entries (a_ledger a) ! j)"

definition app_reach :: "psa_hash \<Rightarrow> app \<Rightarrow> bool" where
  "app_reach psa a \<longleftrightarrow> ledger_reach psa (a_ledger a) (a_store a)"

lemma core_seal [simp]: "core (seal_command c) = core c"
  by (simp add: core_def seal_command_def)

lemma core_parts: "core c = core d \<Longrightarrow> command_id c = command_id d \<and> cmd_type c = cmd_type d \<and> cmd_state c = cmd_state d"
  by (simp add: core_def)

lemma boot_action_cong:
  "cmd_type c = cmd_type d \<Longrightarrow> cmd_state c = cmd_state d \<Longrightarrow> pm_command_boot_action c = pm_command_boot_action d"
  unfolding pm_command_boot_action_def by simp

lemma app_reach_length: "app_reach psa a \<Longrightarrow> length (entries (a_ledger a)) = 8"
  using ledger_reach_inv by (auto simp: app_reach_def ledger_inv_def ledger_ok_def ledger_wf_def)

lemma refreshed_core: "refreshed l l' \<Longrightarrow> j < length (entries l) \<Longrightarrow> core (entries l' ! j) = core (entries l ! j)"
  using refreshed_simps(4) [of l l' j] by auto

lemma rewritten_core:
  assumes "rewritten psa l n (l\<lparr>entries := (entries l)[i := c]\<rparr>) e l' n'" "length (entries l) = 8" "i < 8" "j < 8"
  shows "core (entries l' ! j) = (if e = ESP_OK \<and> j = i then core c else core (entries l ! j))"
proof (cases "e = ESP_OK")
  case True
  with assms have "entries l' = map seal_command ((entries l)[i := c])" by (simp add: rewritten_def)
  with True assms show ?thesis by simp
next
  case False
  with assms have "refreshed l l'" by (simp add: rewritten_def)
  with False assms refreshed_core [of l l' j] show ?thesis by simp
qed

lemma app_transition_step:
  assumes "app_reach psa a" "i < 8" "app_transition la i st p r a = (e, a')"
  obtains l n where "a' = a\<lparr>a_ledger := l, a_store := n\<rparr>" "app_reach psa a'"
    "\<And>j. j < 8 \<Longrightarrow> cores a' j =
       (if e = ESP_OK \<and> j = i then (command_id (entries (a_ledger a) ! i), cmd_type (entries (a_ledger a) ! i), st) else cores a j)"
    "e = ESP_OK \<Longrightarrow> pm_commands_load True psa l0 (reboot (a_store a')) = (ESP_OK, a_ledger a', reboot (a_store a'))"
proof -
  obtain lk al where la: "la = (lk, al)" by (metis prod.exhaust)
  obtain l n where t: "pm_command_transition lk al (a_ledger a) i st p (sint (esp_err_code r)) (a_store a) = (e, l, n)"
    and a': "a' = a\<lparr>a_ledger := l, a_store := n\<rparr>"
    using assms(3) by (auto simp: app_transition_def la split: prod.splits)
  have reach: "ledger_reach psa (a_ledger a) (a_store a)" using assms(1) by (simp add: app_reach_def)
  have inv: "ledger_inv psa (a_ledger a) (a_store a)" using reach by (rule ledger_reach_inv)
  have len: "length (entries (a_ledger a)) = 8" using app_reach_length [OF assms(1)] .
  have "ledger_reach psa l n"
    using ledger_reach.operation [OF reach, of "Transition lk al i st p (sint (esp_err_code r))" l n] t assms(2) by simp
  moreover define c' where "c' = (entries (a_ledger a) ! i)\<lparr>cmd_state := st, progress_percent := p, result_code := sint (esp_err_code r)\<rparr>"
  consider "e \<noteq> ESP_OK" "l = a_ledger a" "n = a_store a"
    | (rw) "rewritten psa (a_ledger a) (a_store a) ((a_ledger a)\<lparr>entries := (entries (a_ledger a))[i := c']\<rparr>) e l n"
    using t command_transition_step [OF inv assms(2), of al st p "sint (esp_err_code r)" e l n]
    unfolding c'_def by (auto simp: pm_command_transition_def locked_def split: if_splits)
  then have "(\<forall>j < 8. core (entries l ! j) =
      (if e = ESP_OK \<and> j = i then (command_id (entries (a_ledger a) ! i), cmd_type (entries (a_ledger a) ! i), st) else cores a j)) \<and>
    (e = ESP_OK \<longrightarrow> pm_commands_load True psa l0 (reboot n) = (ESP_OK, l, reboot n))"
  proof cases
    case rw
    have "core c' = (command_id (entries (a_ledger a) ! i), cmd_type (entries (a_ledger a) ! i), st)" by (simp add: core_def c'_def)
    moreover have "pm_commands_load True psa l0 (reboot n) = (ESP_OK, l, reboot n)" if "e = ESP_OK"
      using rewritten_ok(2) rw [unfolded that] .
    ultimately show ?thesis using rewritten_core [OF rw len assms(2)] by simp
  qed simp
  ultimately show ?thesis using that [where l = l and n = n] a' by (simp add: app_reach_def)
qed

lemma write_text_step:
  assumes "app_reach psa a" "i < 8"
  shows "app_reach psa (write_text i s a)" "cores (write_text i s a) j = cores a j"
proof -
  show "app_reach psa (write_text i s a)"
    using ledger_reach.operation [of psa "a_ledger a" "a_store a" "Annotate i s"] assms by (simp add: app_reach_def write_text_def)
  show "cores (write_text i s a) j = cores a j"
    using app_reach_length [OF assms(1)] assms(2)
    by (cases "j = i") (simp_all add: write_text_def write_result_def core_def)
qed

subsection \<open>Boot settlement\<close>

definition settled_state :: "pm_ota_checkpoint \<Rightarrow> pm_command \<Rightarrow> pm_command_state" where
  "settled_state checkpoint c =
     (if vacant c then cmd_state c else case boot_settlement checkpoint c of Some (st, _) \<Rightarrow> st | None \<Rightarrow> cmd_state c)"

definition requeued :: "pm_command \<Rightarrow> bool" where
  "requeued c \<longleftrightarrow> \<not> vacant c \<and> pm_command_boot_action c = PM_COMMAND_BOOT_REQUEUE"

lemma core_settled:
  assumes "core c = core d"
  shows "settled_state cp c = settled_state cp d \<and> requeued c = requeued d"
proof -
  have p: "command_id c = command_id d" "cmd_type c = cmd_type d" "cmd_state c = cmd_state d" using core_parts [OF assms] by simp_all
  show ?thesis
    unfolding settled_state_def requeued_def boot_settlement_def vacant_def boot_action_cong [OF p(2,3)] p by simp
qed

lemma reconcile_entry_step:
  assumes "app_reach psa a" "i < 8" "reconcile_entry cp al i a = (ESP_OK, a1)"
  shows "app_reach psa a1"
    "j < 8 \<Longrightarrow> cores a1 j = (if j = i then (command_id (entries (a_ledger a) ! i), cmd_type (entries (a_ledger a) ! i),
       settled_state cp (entries (a_ledger a) ! i)) else cores a j)"
    "a_queue a1 = a_queue a @ (if requeued (entries (a_ledger a) ! i) then [i] else [])"
proof -
  let ?c = "entries (a_ledger a) ! i"
  have reach: "ledger_reach psa (a_ledger a) (a_store a)" using assms(1) by (simp add: app_reach_def)
  have inv: "ledger_inv psa (a_ledger a) (a_store a)" using reach by (rule ledger_reach_inv)
  have len: "length (entries (a_ledger a)) = 8" using app_reach_length [OF assms(1)] .
  consider (idle) "a_ledger a1 = a_ledger a" "a_store a1 = a_store a" "settled_state cp ?c = cmd_state ?c"
      "a_queue a1 = a_queue a @ (if requeued ?c then [i] else [])"
    | (settle) st code reason l n where "boot_settlement cp ?c = Some (st, code, reason)" "\<not> vacant ?c"
      "pm_command_reconcile_boot True al (a_ledger a) i st code reason (a_store a) = (ESP_OK, l, n)"
      "a1 = a\<lparr>a_ledger := l, a_store := n\<rparr>"
  proof (cases "vacant ?c \<or> boot_settlement cp ?c = None")
    case True
    then show ?thesis using idle assms(3)
      by (auto simp: reconcile_entry_def Let_def queue_send_def settled_state_def requeued_def split: if_splits)
  next
    case False
    then obtain st code reason where b: "boot_settlement cp ?c = Some (st, code, reason)" "\<not> vacant ?c" by auto
    obtain e l n where r: "pm_command_reconcile_boot True al (a_ledger a) i st code reason (a_store a) = (e, l, n)" by (metis prod.exhaust)
    with b assms(3) have "e = ESP_OK" "a1 = a\<lparr>a_ledger := l, a_store := n\<rparr>" by (simp_all add: reconcile_entry_def Let_def)
    with settle [OF b] r show ?thesis by simp
  qed
  note cases = this
  show "app_reach psa a1"
    using cases
  proof cases
    case (settle st code reason l n)
    then show ?thesis
      using ledger_reach.operation [OF reach, of "Reconcile True al i st code reason" l n] assms(2) by (simp add: app_reach_def)
  qed (use reach in \<open>simp add: app_reach_def\<close>)
  show "j < 8 \<Longrightarrow> cores a1 j = (if j = i then (command_id ?c, cmd_type ?c, settled_state cp ?c) else cores a j)"
    using cases
  proof cases
    case (settle st code reason l n)
    then have "command_reconcile_boot_locked al (a_ledger a) i st code reason (a_store a) = (ESP_OK, l, n)"
      by (simp add: pm_command_reconcile_boot_def locked_def)
    from command_reconcile_step [OF inv assms(2) this] obtain c' where
      c: "cmd_state c' = st" "command_id c' = command_id ?c" "cmd_type c' = cmd_type ?c"
      and rw: "rewritten psa (a_ledger a) (a_store a) ((a_ledger a)\<lparr>entries := (entries (a_ledger a))[i := c']\<rparr>) ESP_OK l n"
      by auto
    have "settled_state cp ?c = st" using settle by (simp add: settled_state_def)
    then show "j < 8 \<Longrightarrow> ?thesis"
      using rewritten_core [OF rw len assms(2)] c settle(4) by (simp add: core_def)
  qed (simp add: core_def)
  show "a_queue a1 = a_queue a @ (if requeued ?c then [i] else [])"
    using cases
  proof cases
    case (settle st code reason l n)
    then have "\<not> requeued ?c" by (auto simp: requeued_def boot_settlement_def)
    with settle show ?thesis by simp
  qed simp
qed

lemma reconcile_entries_step:
  "app_reach psa a \<Longrightarrow> distinct is \<Longrightarrow> set is \<subseteq> {..<8} \<Longrightarrow> reconcile_entries cp al is a = (ESP_OK, a') \<Longrightarrow>
     app_reach psa a' \<and>
     (\<forall>j < 8. cores a' j = (if j \<in> set is then (command_id (entries (a_ledger a) ! j), cmd_type (entries (a_ledger a) ! j),
        settled_state cp (entries (a_ledger a) ! j)) else cores a j)) \<and>
     a_queue a' = a_queue a @ filter (\<lambda>j. requeued (entries (a_ledger a) ! j)) is"
proof (induction "is" arbitrary: a)
  case Nil
  then show ?case by simp
next
  case (Cons i "is")
  obtain e a1 where r: "reconcile_entry cp (al i) i a = (e, a1)" by (metis prod.exhaust)
  with Cons.prems have e: "e = ESP_OK" "reconcile_entries cp al is a1 = (ESP_OK, a')" by (simp_all split: if_splits)
  have i: "i < 8" "i \<notin> set is" "distinct is" "set is \<subseteq> {..<8}" using Cons.prems by auto
  note st = reconcile_entry_step [OF Cons.prems(1) i(1) r [unfolded e(1)]]
  note ih = Cons.IH [OF st(1) i(3,4) e(2)]
  have other: "cores a1 j = cores a j" if "j \<in> set is" for j
  proof -
    have "j < 8" "j \<noteq> i" using that i by auto
    with st(2) show ?thesis by simp
  qed
  have "filter (\<lambda>j. requeued (entries (a_ledger a1) ! j)) is = filter (\<lambda>j. requeued (entries (a_ledger a) ! j)) is"
    using other core_settled by (intro filter_cong) blast+
  moreover have "settled_state cp (entries (a_ledger a1) ! j) = settled_state cp (entries (a_ledger a) ! j) \<and>
      command_id (entries (a_ledger a1) ! j) = command_id (entries (a_ledger a) ! j) \<and>
      cmd_type (entries (a_ledger a1) ! j) = cmd_type (entries (a_ledger a) ! j)" if "j \<in> set is" for j
    using core_settled [OF other [OF that]] core_parts [OF other [OF that]] by simp
  ultimately show ?case
    using ih st i by auto
qed

lemma boot_action_cases:
  "pm_command_boot_action c \<noteq> PM_COMMAND_BOOT_COMPLETE_WAKE"
  "pm_command_boot_action c = PM_COMMAND_BOOT_REQUEUE \<Longrightarrow> cmd_type c \<in>
     {PM_COMMAND_DIAGNOSTICS_SNAPSHOT, PM_COMMAND_NETWORK_SELF_TEST, PM_COMMAND_METER_SELF_TEST}"
  "command_terminal (cmd_state c) \<Longrightarrow> pm_command_boot_action c = PM_COMMAND_BOOT_IGNORE"
  by (auto simp: pm_command_boot_action_def split: if_splits)

lemma settled_action:
  assumes "\<not> vacant c" "cmd_type d = cmd_type c" "cmd_state d = settled_state cp c"
  shows "pm_command_boot_action d =
    (if pm_command_boot_action c = PM_COMMAND_BOOT_REQUEUE then PM_COMMAND_BOOT_REQUEUE else PM_COMMAND_BOOT_IGNORE)"
proof (cases "boot_settlement cp c")
  case None
  then have "pm_command_boot_action d = pm_command_boot_action c"
    using assms by (intro boot_action_cong) (simp_all add: settled_state_def)
  with None boot_action_cases(1) [of c] show ?thesis
    by (auto simp: boot_settlement_def split: pm_command_boot_action_t.splits)
next
  case (Some x)
  obtain st code reason where x: "x = (st, code, reason)" by (metis prod.exhaust)
  have "command_terminal st"
    using Some x by (auto simp: boot_settlement_def ota_outcome_def Let_def split: pm_command_boot_action_t.splits if_splits)
  then have "pm_command_boot_action d = PM_COMMAND_BOOT_IGNORE"
    using boot_action_cases(3) [of d] assms Some x by (simp add: settled_state_def)
  moreover have "pm_command_boot_action c \<noteq> PM_COMMAND_BOOT_REQUEUE" using Some by (auto simp: boot_settlement_def)
  ultimately show ?thesis by simp
qed

text \<open>
  What a restart should make of a command, by its type and the state it was interrupted in: whether it is run again, and its state. Commands that
  only read are run again, an update ends as its checkpoint says, a reboot that was waiting for the restart has
  succeeded, and every other command that was under way has failed.
\<close>

definition outcome_expected :: "pm_ota_stage \<Rightarrow> pm_command \<Rightarrow> bool \<times> pm_command_state" where
  "outcome_expected ota c =
     (let t = cmd_type c; st = cmd_state c in
      if st \<notin> {PM_COMMAND_ACCEPTED, PM_COMMAND_RUNNING, PM_COMMAND_AWAITING_REBOOT, PM_COMMAND_AWAITING_HEARTBEAT} then (False, st)
      else if t \<in> {PM_COMMAND_DIAGNOSTICS_SNAPSHOT, PM_COMMAND_NETWORK_SELF_TEST, PM_COMMAND_METER_SELF_TEST} \<and>
              st \<in> {PM_COMMAND_ACCEPTED, PM_COMMAND_RUNNING} then (True, st)
      else if t = PM_COMMAND_OTA_INSTALL \<and> st \<in> {PM_COMMAND_RUNNING, PM_COMMAND_AWAITING_REBOOT}
      then (False, if ota = PM_OTA_VALID then PM_COMMAND_SUCCEEDED
                   else if ota = PM_OTA_ROLLED_BACK then PM_COMMAND_ROLLED_BACK else PM_COMMAND_FAILED)
      else if t = PM_COMMAND_REBOOT \<and> st = PM_COMMAND_AWAITING_REBOOT then (False, PM_COMMAND_SUCCEEDED)
      else (False, PM_COMMAND_FAILED))"

lemma settled_as_expected:
  assumes "\<not> vacant c" "command_type_code (cmd_type c) < 15"
  shows "(requeued c, settled_state cp c) = outcome_expected (ck_stage cp) c"
proof -
  have t: "\<not> 15 \<le> command_type_code (cmd_type c)" using assms(2) by (simp add: not_le)
  show ?thesis
    by (cases "cmd_state c")
      (simp_all add: requeued_def settled_state_def boot_settlement_def ota_outcome_def pm_command_boot_action_def outcome_expected_def
        assms(1) t Let_def)
qed

lemma reach_entry_type:
  assumes "app_reach psa a" "i < 8" "\<not> vacant (entries (a_ledger a) ! i)"
  shows "command_type_code (cmd_type (entries (a_ledger a) ! i)) < 15"
proof -
  have "ledger_wf psa (a_ledger a)"
    using ledger_reach_inv [of psa "a_ledger a" "a_store a"] assms(1) by (simp add: app_reach_def ledger_inv_def ledger_ok_def)
  with assms(2,3) show ?thesis by (auto simp: ledger_wf_entries entry_ok_def)
qed

text \<open>
  C23. After a restart no command is left hanging. When the settlement succeeds, the ledger is still one that its operations can reach, every
  command keeps its id and type, and is run again or gets its state exactly as \<open>outcome_expected\<close> says: commands that only read and were
  accepted or running wait in the queue, once; an update has the outcome of its checkpoint, an awaited reboot has succeeded, everything
  else that was under way has failed, and no command that is still under way is missing from the queue.
\<close>

theorem interrupted_commands_settled:
  assumes "app_reach psa a" and "a_queue a = []"
    and "reconcile_interrupted_commands lock cp alloc a = (ESP_OK, a')"
  shows "app_reach psa a' \<and> distinct (a_queue a') \<and> set (a_queue a') \<subseteq> {..<8} \<and>
    (\<forall>i < 8. let c = entries (a_ledger a) ! i; c' = entries (a_ledger a') ! i in
       command_id c' = command_id c \<and> cmd_type c' = cmd_type c \<and>
       (\<not> vacant c \<longrightarrow> (i \<in> set (a_queue a'), cmd_state c') = outcome_expected (ck_stage cp) c \<and>
          (cmd_state c' \<in> {PM_COMMAND_ACCEPTED, PM_COMMAND_RUNNING, PM_COMMAND_AWAITING_REBOOT, PM_COMMAND_AWAITING_HEARTBEAT} \<longrightarrow>
             i \<in> set (a_queue a'))))"
proof -
  have "reconcile_entries cp alloc [0..<8] a = (ESP_OK, a')"
    using assms(3) by (simp add: reconcile_interrupted_commands_def PM_COMMAND_LEDGER_SIZE_def split: if_splits)
  from reconcile_entries_step [OF assms(1) distinct_upt _ this]
  have st: "app_reach psa a'" "\<And>j. j < 8 \<Longrightarrow> cores a' j = (command_id (entries (a_ledger a) ! j), cmd_type (entries (a_ledger a) ! j),
        settled_state cp (entries (a_ledger a) ! j))"
    and q: "a_queue a' = filter (\<lambda>j. requeued (entries (a_ledger a) ! j)) [0..<8]"
    using assms(2) by (auto simp: atLeast0LessThan)
  have expected: "(i \<in> set (a_queue a'), cmd_state (entries (a_ledger a') ! i)) = outcome_expected (ck_stage cp) (entries (a_ledger a) ! i)"
    if "i < 8" "\<not> vacant (entries (a_ledger a) ! i)" for i
    using settled_as_expected [OF that(2) reach_entry_type [OF assms(1) that], of cp] st(2) [OF that(1)] q that(1) by (simp add: core_def)
  have pending: "p" if "(p, s) = outcome_expected g c" "s \<in> {PM_COMMAND_ACCEPTED, PM_COMMAND_RUNNING, PM_COMMAND_AWAITING_REBOOT,
      PM_COMMAND_AWAITING_HEARTBEAT}" for p s g c
    using that by (auto simp: outcome_expected_def Let_def split: if_splits)
  have "command_id (entries (a_ledger a') ! i) = command_id (entries (a_ledger a) ! i)"
    "cmd_type (entries (a_ledger a') ! i) = cmd_type (entries (a_ledger a) ! i)" if "i < 8" for i
    using st(2) [OF that] by (simp_all add: core_def)
  with st(1) q expected pending [OF expected] show ?thesis unfolding Let_def by auto
qed

subsection \<open>Execution of a command\<close>

text \<open>The ledger may be rewritten, but only entry \<open>i\<close>, and only its state.\<close>

definition only_entry :: "psa_hash \<Rightarrow> nat \<Rightarrow> app \<Rightarrow> app \<Rightarrow> bool" where
  "only_entry psa i a a' \<longleftrightarrow> app_reach psa a' \<and> (\<forall>j < 8. j \<noteq> i \<longrightarrow> cores a' j = cores a j) \<and>
     command_id (entries (a_ledger a') ! i) = command_id (entries (a_ledger a) ! i) \<and>
     cmd_type (entries (a_ledger a') ! i) = cmd_type (entries (a_ledger a) ! i)"

lemma only_entry_trans: "only_entry psa i a b \<Longrightarrow> only_entry psa i b c \<Longrightarrow> only_entry psa i a c"
  by (simp add: only_entry_def)

lemma only_entry_cong: "a_ledger b' = a_ledger b \<Longrightarrow> a_store b' = a_store b \<Longrightarrow> only_entry psa i a b \<Longrightarrow> only_entry psa i a b'"
  by (simp add: only_entry_def app_reach_def)

lemma transition_only:
  assumes "app_reach psa a" "i < 8" "app_transition la i st p r a = (e, a')"
  shows "only_entry psa i a a'" "e = ESP_OK \<Longrightarrow> cmd_state (entries (a_ledger a') ! i) = st"
    "e \<noteq> ESP_OK \<Longrightarrow> cmd_state (entries (a_ledger a') ! i) = cmd_state (entries (a_ledger a) ! i)"
    "e = ESP_OK \<Longrightarrow> pm_commands_load True psa l0 (reboot (a_store a')) = (ESP_OK, a_ledger a', reboot (a_store a'))"
    "a_ota a' = a_ota a" "a_ota_active a' = a_ota_active a" "a_ctx a' = a_ctx a" "a_time a' = a_time a" "a_slot a' = a_slot a"
  by (rule app_transition_step [OF assms, of l0];
      use assms(2) in \<open>fastforce simp: only_entry_def core_def split: if_splits\<close>)+

lemma write_text_only:
  assumes "app_reach psa a" "i < 8"
  shows "only_entry psa i a (write_text i s a)"
    "cmd_state (entries (a_ledger (write_text i s a)) ! i) = cmd_state (entries (a_ledger a) ! i)"
  using write_text_step [OF assms, of s] by (auto simp: only_entry_def core_def)

lemma finish_only:
  assumes "app_reach psa a" "i < 8"
  shows "only_entry psa i a (finish_command env i r a)"
    "cmd_state (entries (a_ledger (finish_command env i r a)) ! i) \<in>
       {cmd_state (entries (a_ledger a) ! i), if r = ESP_OK then PM_COMMAND_SUCCEEDED else PM_COMMAND_FAILED}"
proof -
  let ?st = "if r = ESP_OK then PM_COMMAND_SUCCEEDED else PM_COMMAND_FAILED"
  let ?p = "if r = ESP_OK then 100 else progress_percent (entries (a_ledger a) ! i)"
  obtain e a' where t: "app_transition (True, ce_final env) i ?st ?p r a = (e, a')" by (metis prod.exhaust)
  note st = transition_only [OF assms t]
  have a': "finish_command env i r a = a'" using t by (simp add: finish_command_def)
  show "only_entry psa i a (finish_command env i r a)" unfolding a' by (rule st(1))
  show "cmd_state (entries (a_ledger (finish_command env i r a)) ! i) \<in> {cmd_state (entries (a_ledger a) ! i), ?st}"
    unfolding a' using st(2,3) by (cases "e = ESP_OK") simp_all
qed

lemma start_ota_step:
  assumes "start_ota env a = (r, a1)"
  shows "a_ledger a1 = a_ledger a" "a_store a1 = a_store a"
    "r = Inr auth_of \<Longrightarrow> \<not> a_ota_active a \<and> a_ota_active a1 \<and> pm_network_capture_auth_snapshot (ce_mutex env) (a_ctx a) = (ESP_OK, auth_of)"
  using assms by (auto simp: start_ota_def claim_ota_task_def release_ota_task_def split: if_splits prod.splits)

lemma execute_type:
  assumes "execute_command env i a0 = (out, a')" "ce_lock env"
    and "a = snd (app_transition (True, ce_running env) i PM_COMMAND_RUNNING 1 ESP_OK a0)"
  shows "(out = Command_Finished \<and> (\<exists>r s. a' = finish_command env i r a \<or> a' = finish_command env i r (write_text i s a))) \<or>
    (\<exists>e a1. cmd_type (entries (a_ledger a) ! i) = PM_COMMAND_REBOOT \<and>
       app_transition (True, ce_reboot env) i PM_COMMAND_AWAITING_REBOOT 100 ESP_OK a = (e, a1) \<and>
       (if e = ESP_OK then out = Device_Restarting \<and> a' = a1 else out = Command_Finished \<and> a' = finish_command env i e a1)) \<or>
    (\<exists>r a1. cmd_type (entries (a_ledger a) ! i) = PM_COMMAND_OTA_INSTALL \<and> start_ota env a = (r, a1) \<and>
       (case r of Inr auth_of \<Rightarrow> out = Ota_Task_Started auth_of \<and> a' = a1
        | Inl e \<Rightarrow> out = Command_Finished \<and> a' = finish_command env i e a1))"
  using assms(1,2) unfolding execute_command_def Let_def assms(3) [symmetric]
  by (cases "cmd_type (entries (a_ledger a) ! i)") (auto split: prod.splits if_splits sum.splits)

end
