(* ===== verification/PM_App_Safety.thy ===== *)
theory PM_App_Safety
  imports PM_App
begin

text \<open>
  What the tasks of main/app_main_stateless.c guarantee together with the ledger, the storage and the update: a
  reboot command runs once, an update restarts the device only into a verified image and with its command durably
  recorded, and interrupted commands are settled. The witnesses run the model from a first boot.
\<close>

subsection \<open>A reboot is run once\<close>

lemma restart_execution:
  assumes "app_reach psa a0" "i < 8" "execute_command env i a0 = (Device_Restarting, a1)"
  shows "only_entry psa i a0 a1" "cmd_type (entries (a_ledger a0) ! i) = PM_COMMAND_REBOOT"
    "cmd_state (entries (a_ledger a1) ! i) = PM_COMMAND_AWAITING_REBOOT"
    "pm_commands_load True psa l0 (reboot (a_store a1)) = (ESP_OK, a_ledger a1, reboot (a_store a1))"
proof -
  have lk: "ce_lock env" using assms(3) by (auto simp: execute_command_def split: if_splits)
  obtain e a where r: "app_transition (True, ce_running env) i PM_COMMAND_RUNNING 1 ESP_OK a0 = (e, a)" by (metis prod.exhaust)
  note run = transition_only [OF assms(1,2) r]
  have reach: "app_reach psa a" using run(1) by (simp add: only_entry_def)
  have t: "cmd_type (entries (a_ledger a) ! i) = PM_COMMAND_REBOOT"
    "app_transition (True, ce_reboot env) i PM_COMMAND_AWAITING_REBOOT 100 ESP_OK a = (ESP_OK, a1)"
    using execute_type [OF assms(3) lk, of a] r by (auto split: if_splits sum.splits)
  note fin = transition_only [OF reach assms(2) t(2)]
  show "only_entry psa i a0 a1" using run(1) fin(1) by (rule only_entry_trans)
  show "cmd_type (entries (a_ledger a0) ! i) = PM_COMMAND_REBOOT" using run(1) t(1) by (simp add: only_entry_def)
  show "cmd_state (entries (a_ledger a1) ! i) = PM_COMMAND_AWAITING_REBOOT" using fin(2) by simp
  show "pm_commands_load True psa l0 (reboot (a_store a1)) = (ESP_OK, a_ledger a1, reboot (a_store a1))" using fin(4) by simp
qed

lemma reconcile_all:
  assumes "app_reach psa a" "a_queue a = []" "reconcile_interrupted_commands lock cp alloc a = (ESP_OK, a')" "i < 8"
  shows "app_reach psa a'" "cmd_state (entries (a_ledger a') ! i) = settled_state cp (entries (a_ledger a) ! i)"
    "i \<in> set (a_queue a') \<longleftrightarrow> requeued (entries (a_ledger a) ! i)"
    "command_id (entries (a_ledger a') ! i) = command_id (entries (a_ledger a) ! i)"
    "cmd_type (entries (a_ledger a') ! i) = cmd_type (entries (a_ledger a) ! i)"
proof -
  have "reconcile_entries cp alloc [0..<8] a = (ESP_OK, a')"
    using assms(3) by (simp add: reconcile_interrupted_commands_def PM_COMMAND_LEDGER_SIZE_def split: if_splits)
  from reconcile_entries_step [OF assms(1) distinct_upt _ this]
  have "app_reach psa a'" "\<And>j. j < 8 \<Longrightarrow> cores a' j = (command_id (entries (a_ledger a) ! j), cmd_type (entries (a_ledger a) ! j),
        settled_state cp (entries (a_ledger a) ! j))"
    and "a_queue a' = filter (\<lambda>j. requeued (entries (a_ledger a) ! j)) [0..<8]"
    using assms(2) by (auto simp: atLeast0LessThan)
  with assms(4) show "app_reach psa a'" "cmd_state (entries (a_ledger a') ! i) = settled_state cp (entries (a_ledger a) ! i)"
    "i \<in> set (a_queue a') \<longleftrightarrow> requeued (entries (a_ledger a) ! i)"
    "command_id (entries (a_ledger a') ! i) = command_id (entries (a_ledger a) ! i)"
    "cmd_type (entries (a_ledger a') ! i) = cmd_type (entries (a_ledger a) ! i)"
    by (auto simp: core_def)
qed

text \<open>
  C22. A reboot command is executed once. When executing a command restarts the device, it was a reboot command, the
  storage already records it as awaiting the reboot, and the next boot loads exactly the ledger the device had. When
  that boot settles the interrupted commands, whatever storage calls fail on the way, the command has
  succeeded and is not queued again.
\<close>

theorem reboot_command_once:
  assumes "app_reach psa a0" "i < 8" "\<not> vacant (entries (a_ledger a0) ! i)"
    and "execute_command env i a0 = (Device_Restarting, a1)"
    and "pm_commands_load True psa l0 (reboot (a_store a1)) = (e, l2, n2)"
    and "a_ledger b = l2" "a_store b = n2\<lparr>faults := fs\<rparr>" "a_queue b = []"
    and "reconcile_interrupted_commands lock cp alloc b = (ESP_OK, b')"
  shows "cmd_type (entries (a_ledger a0) ! i) = PM_COMMAND_REBOOT \<and> e = ESP_OK \<and> l2 = a_ledger a1 \<and>
    command_id (entries l2 ! i) = command_id (entries (a_ledger a0) ! i) \<and>
    cmd_state (entries l2 ! i) = PM_COMMAND_AWAITING_REBOOT \<and>
    cmd_state (entries (a_ledger b') ! i) = PM_COMMAND_SUCCEEDED \<and> i \<notin> set (a_queue b')"
proof -
  note ex = restart_execution [OF assms(1,2,4)]
  have l2: "e = ESP_OK" "l2 = a_ledger a1" "n2 = reboot (a_store a1)" using ex(4) [of l0] assms(5) by simp_all
  have "ledger_reach psa (a_ledger a1) (a_store a1)" using ex(1) by (simp add: only_entry_def app_reach_def)
  then have "ledger_reach psa l2 (n2\<lparr>faults := fs\<rparr>)"
    using ledger_reach.restart [OF _ ex(4) [of l0]] ledger_reach.faults_change l2(2,3) by simp
  then have "app_reach psa b" using assms(6,7) by (simp add: app_reach_def)
  note rec = reconcile_all [OF this assms(8,9,2)]
  have c: "command_id (entries l2 ! i) = command_id (entries (a_ledger a0) ! i)" "cmd_type (entries l2 ! i) = PM_COMMAND_REBOOT"
    "cmd_state (entries l2 ! i) = PM_COMMAND_AWAITING_REBOOT"
    using ex(1,2,3) l2(2) by (simp_all add: only_entry_def)
  have "\<not> vacant (entries l2 ! i)" using assms(3) c(1) by (simp add: vacant_def)
  moreover have "pm_command_boot_action (entries l2 ! i) = PM_COMMAND_BOOT_COMPLETE_REBOOT"
    using c by (simp add: pm_command_boot_action_def)
  ultimately have "settled_state cp (entries l2 ! i) = PM_COMMAND_SUCCEEDED" "\<not> requeued (entries l2 ! i)"
    by (simp_all add: settled_state_def boot_settlement_def requeued_def)
  with rec(2,3) assms(6) ex(2) l2 c show ?thesis by simp
qed

subsection \<open>The OTA task\<close>

lemma ota_progress_only:
  assumes "app_reach psa a" "i < 8"
  shows "only_entry psa i a (ota_progress la i a r)" "a_ota (ota_progress la i a r) = a_ota a"
    "a_ota_active (ota_progress la i a r) = a_ota_active a"
proof -
  obtain lk al p st where r: "la = (lk, al)" "r = (p, st)" by (metis prod.exhaust)
  let ?b = "write_text i (''ota_stage='' @ dec (unat (ota_stage_code st))) a"
  note w = write_text_only [OF assms, of "''ota_stage='' @ dec (unat (ota_stage_code st))"]
  have b: "app_reach psa ?b" using w(1) by (simp add: only_entry_def)
  obtain e a' where t: "app_transition (True, al) i PM_COMMAND_RUNNING p ESP_OK ?b = (e, a')" by (metis prod.exhaust)
  note s = transition_only [OF b assms(2) t]
  have refl: "only_entry psa i a a" using assms(1) by (simp add: only_entry_def)
  show "only_entry psa i a (ota_progress la i a r)"
    using only_entry_trans [OF w(1) s(1)] refl t by (simp add: ota_progress_def r)
  show "a_ota (ota_progress la i a r) = a_ota a" "a_ota_active (ota_progress la i a r) = a_ota_active a"
    using s(5,6) t by (simp_all add: ota_progress_def r write_text_def)
qed

lemma ota_reports_only:
  fixes pr :: "nat \<Rightarrow> bool \<times> bool"
  assumes "app_reach psa a" "i < 8"
  defines "step \<equiv> \<lambda>a (k, r). ota_progress (pr k) i a r"
  shows "only_entry psa i a (foldl step a rs) \<and> a_ota (foldl step a rs) = a_ota a \<and>
    a_ota_active (foldl step a rs) = a_ota_active a"
  using assms(1)
proof (induction rs arbitrary: a)
  case Nil
  then show ?case by (simp add: only_entry_def)
next
  case (Cons x rs)
  obtain k r where x: "x = (k, r)" by (metis prod.exhaust)
  note one = ota_progress_only [OF Cons.prems assms(2), of "pr k" r]
  have "app_reach psa (ota_progress (pr k) i a r)" using one(1) by (simp add: only_entry_def)
  from Cons.IH [OF this] one only_entry_trans [OF one(1)] show ?case by (simp add: x step_def)
qed

text \<open>The image an update may leave selected: the one selected before, the running one, or a verified one.\<close>

definition update_selected ::
    "psa_hash \<Rightarrow> (string \<Rightarrow> u8 list option) \<Rightarrow> 'j ota_env \<Rightarrow> partition \<Rightarrow> pm_network_auth_snapshot \<Rightarrow> pm_ota_manifest \<Rightarrow>
      ota_world \<Rightarrow> bool" where
  "update_selected psa b64dec env p auth_of m w \<longleftrightarrow>
     w_boot w = part_id p \<and>
     pm_ota_verify_manifest psa (running_version (oe_peer env)) m (as_server_to_device_key auth_of) = ESP_OK \<and>
     (\<exists>utc. image_accepted psa b64dec (oe_peer env) m (as_server_to_device_key auth_of) utc (w_flash w))"

lemma parse_payload_error: "pm_ota_manifest_parse_payload J b64dec payload origin dev \<noteq> Inl ESP_OK"
  unfolding pm_ota_manifest_parse_payload_def Let_def
  by (simp split: option.splits prod.splits)

lemma ota_run_step:
  assumes "app_reach psa a" "i < 8" "next_partition (oe_peer env) = Some p" "unat (part_size p) + 4096 < 2 ^ 32"
    and "\<not> w_ota_open (a_ota a)" "ota_run psa b64enc b64dec env i auth_of a = (e, a')"
  shows "only_entry psa i a a'" "a_ota_active a' = a_ota_active a" "\<not> w_ota_open (a_ota a')"
    "w_boot (a_ota a') = w_boot (a_ota a) \<or> Some (w_boot (a_ota a')) = running_partition (oe_peer env) \<or>
     (\<exists>m. update_selected psa b64dec env p auth_of m (a_ota a'))"
    "e = ESP_OK \<Longrightarrow> \<exists>m. pm_ota_manifest_parse_payload (oe_json env) b64dec (cmd_payload (entries (a_ledger a) ! i))
         (as_server_origin auth_of) (as_device_id_text auth_of) = Inr m \<and> update_selected psa b64dec env p auth_of m (a_ota a') \<and>
       (\<exists>c. pm_ota_load_checkpoint (reboot (w_nvs (a_ota a'))) = (Inr c, reboot (w_nvs (a_ota a'))) \<and>
          ck_stage c = PM_OTA_BOOT_SELECTED)"
proof -
  let ?parse = "pm_ota_manifest_parse_payload (oe_json env) b64dec (cmd_payload (entries (a_ledger a) ! i))
         (as_server_origin auth_of) (as_device_id_text auth_of)"
  obtain utc tm where t: "pm_time_now (a_time a) (oe_now env) = (utc, tm)" by (metis prod.exhaust)
  have refl: "only_entry psa i a a" "only_entry psa i a (a\<lparr>a_time := tm\<rparr>)"
    using assms(1) by (simp_all add: only_entry_def app_reach_def)
  consider (early) "e \<noteq> ESP_OK" "a' = a \<or> a' = a\<lparr>a_time := tm\<rparr>"
    | (run) m u w where "?parse = Inr m"
      "pm_ota_install psa b64enc b64dec (oe_peer env) m (as_ca_pem auth_of) (as_device_to_server_key auth_of)
         (as_server_to_device_key auth_of) u ((a_ota a)\<lparr>w_reports := []\<rparr>) = (e, w)"
      "a' = foldl (\<lambda>a (k, r). ota_progress (oe_progress env k) i a r) (a\<lparr>a_time := tm, a_ota := w\<rparr>) (enumerate 0 (w_reports w))"
    using assms(6) parse_payload_error [of "oe_json env" b64dec] unfolding ota_run_def t prod.case
    by (auto split: sum.splits option.splits prod.splits)
  note cases = this
  have main: "only_entry psa i a a' \<and> a_ota_active a' = a_ota_active a \<and> \<not> w_ota_open (a_ota a') \<and>
    (w_boot (a_ota a') = w_boot (a_ota a) \<or> Some (w_boot (a_ota a')) = running_partition (oe_peer env) \<or>
     (\<exists>m. update_selected psa b64dec env p auth_of m (a_ota a'))) \<and>
    (e = ESP_OK \<longrightarrow> (\<exists>m. ?parse = Inr m \<and> update_selected psa b64dec env p auth_of m (a_ota a') \<and>
       (\<exists>c. pm_ota_load_checkpoint (reboot (w_nvs (a_ota a'))) = (Inr c, reboot (w_nvs (a_ota a'))) \<and>
          ck_stage c = PM_OTA_BOOT_SELECTED)))"
    using cases
  proof cases
    case early
    then show ?thesis using refl assms(5) by auto
  next
    case (run m u w)
    have "length (mf_image_sha256 m) = 32" using parse_payload_Inr [OF run(1)] by (auto simp: manifest_wf_def)
    moreover have "\<not> w_ota_open ((a_ota a)\<lparr>w_reports := []\<rparr>)" using assms(5) by simp
    ultimately have safe: "(w_boot w = w_boot (a_ota a) \<or> Some (w_boot w) = running_partition (oe_peer env) \<or>
        update_selected psa b64dec env p auth_of m w) \<and> \<not> w_ota_open w \<and>
      (e = ESP_OK \<longrightarrow> update_selected psa b64dec env p auth_of m w \<and>
        (\<exists>c. pm_ota_load_checkpoint (reboot (w_nvs w)) = (Inr c, reboot (w_nvs w)) \<and> ck_stage c = PM_OTA_BOOT_SELECTED))"
      using install_boot_safe [OF run(2) assms(3,4)] unfolding update_selected_def by auto
    let ?b = "a\<lparr>a_time := tm, a_ota := w\<rparr>"
    have b: "app_reach psa ?b" "only_entry psa i a ?b" using assms(1) by (simp_all add: only_entry_def app_reach_def)
    from ota_reports_only [OF b(1) assms(2), of "oe_progress env" "enumerate 0 (w_reports w)"] only_entry_trans [OF b(2)] run(3)
    have "only_entry psa i a a'" "a_ota a' = w" "a_ota_active a' = a_ota_active a" by auto
    with safe run(1) show ?thesis by auto
  qed
  then show "only_entry psa i a a'" "a_ota_active a' = a_ota_active a" "\<not> w_ota_open (a_ota a')"
    "w_boot (a_ota a') = w_boot (a_ota a) \<or> Some (w_boot (a_ota a')) = running_partition (oe_peer env) \<or>
     (\<exists>m. update_selected psa b64dec env p auth_of m (a_ota a'))"
    "e = ESP_OK \<Longrightarrow> \<exists>m. ?parse = Inr m \<and> update_selected psa b64dec env p auth_of m (a_ota a') \<and>
       (\<exists>c. pm_ota_load_checkpoint (reboot (w_nvs (a_ota a'))) = (Inr c, reboot (w_nvs (a_ota a'))) \<and>
          ck_stage c = PM_OTA_BOOT_SELECTED)" by blast+
qed

lemma stage_change_image:
  assumes "checkpoint_stage_change stg err w = (e, w')"
  shows "same_image w w'"
proof -
  obtain r n where l: "pm_ota_load_checkpoint (w_nvs w) = (r, n)" by (metis prod.exhaust)
  have n: "same_image w (w\<lparr>w_nvs := n\<rparr>)" by (simp add: same_image_def)
  show ?thesis
  proof (cases r)
    case (Inr c)
    obtain e1 c1 w1 where p: "persist_in (c\<lparr>ck_stage := stg, ck_last_error := err\<rparr>) (w\<lparr>w_nvs := n\<rparr>) = (e1, c1, w1)"
      by (metis prod.exhaust)
    show ?thesis using same_image_trans [OF n same_image_persist [OF p]] assms by (simp add: checkpoint_stage_change_def l Inr p)
  qed (use assms n in \<open>auto simp: checkpoint_stage_change_def l\<close>)
qed

lemma cancel_boot:
  assumes "pm_ota_cancel_pending_boot peer reason w = (e, w')"
  shows "w_flash w' = w_flash w" "w_boot w' = w_boot w \<or> Some (w_boot w') = running_partition peer"
    "e = ESP_OK \<Longrightarrow> Some (w_boot w') = running_partition peer"
proof -
  have "w_flash w' = w_flash w \<and> (w_boot w' = w_boot w \<or> Some (w_boot w') = running_partition peer) \<and>
    (e = ESP_OK \<longrightarrow> Some (w_boot w') = running_partition peer)"
  proof (cases "running_partition peer")
    case None
    with assms show ?thesis by (simp add: pm_ota_cancel_pending_boot_def)
  next
    case (Some q)
    obtain e1 w1 where b: "esp_ota_set_boot_partition q w = (e1, w1)" by (metis prod.exhaust)
    have w1: "w_flash w1 = w_flash w" "w_boot w1 = w_boot w \<or> w_boot w1 = q" "e1 = ESP_OK \<Longrightarrow> w_boot w1 = q"
      using set_boot_step [OF b] by auto
    obtain e2 w2 where c: "checkpoint_stage_change PM_OTA_FAILED
        (esp_err_code (if reason = ESP_OK then ESP_ERR_INVALID_STATE else reason)) w1 = (e2, w2)" by (metis prod.exhaust)
    show ?thesis
      using assms w1 stage_change_image [OF c] c unfolding pm_ota_cancel_pending_boot_def Some option.case b
      by (auto simp: ok_then_def same_image_def split: if_splits)
  qed
  then show "w_flash w' = w_flash w" "w_boot w' = w_boot w \<or> Some (w_boot w') = running_partition peer"
    "e = ESP_OK \<Longrightarrow> Some (w_boot w') = running_partition peer" by blast+
qed

text \<open>
  C21. The OTA task restarts the device only into a verified image and only with the command recorded. Whatever the
  network, the flash and the storage do, it touches no other command. If it restarts, the payload parsed to a manifest that
  passed \<open>pm_ota_verify_manifest\<close>, the partition selected is the update partition with an image accepted for that manifest, the
  checkpoint at \<open>PM_OTA_BOOT_SELECTED\<close> and the command awaiting the reboot are both durable. If it does not, the right to start another
  update is given back and the partition selected is the one selected before or the running one, or, when the selection
  could not be taken back, one with a verified image.
\<close>

theorem ota_task_safe:
  assumes "app_reach psa a" "i < 8" "next_partition (oe_peer env) = Some p" "unat (part_size p) + 4096 < 2 ^ 32"
    and "\<not> w_ota_open (a_ota a)" "ota_task psa b64enc b64dec env i auth_of a = (restarts, a')"
  shows "only_entry psa i a a' \<and>
    (if restarts
     then (\<exists>m. pm_ota_manifest_parse_payload (oe_json env) b64dec (cmd_payload (entries (a_ledger a) ! i))
             (as_server_origin auth_of) (as_device_id_text auth_of) = Inr m \<and> update_selected psa b64dec env p auth_of m (a_ota a')) \<and>
       (\<exists>c. pm_ota_load_checkpoint (reboot (w_nvs (a_ota a'))) = (Inr c, reboot (w_nvs (a_ota a'))) \<and>
          ck_stage c = PM_OTA_BOOT_SELECTED) \<and>
       cmd_state (entries (a_ledger a') ! i) = PM_COMMAND_AWAITING_REBOOT \<and>
       pm_commands_load True psa l0 (reboot (a_store a')) = (ESP_OK, a_ledger a', reboot (a_store a'))
     else \<not> a_ota_active a' \<and>
       (w_boot (a_ota a') = w_boot (a_ota a) \<or> Some (w_boot (a_ota a')) = running_partition (oe_peer env) \<or>
        (\<exists>m. update_selected psa b64dec env p auth_of m (a_ota a'))))"
proof -
  obtain e1 a1 where r: "ota_run psa b64enc b64dec env i auth_of a = (e1, a1)" by (metis prod.exhaust)
  note run = ota_run_step [OF assms(1-5) r]
  obtain e2 a2 where t: "app_transition (oe_awaiting env) i PM_COMMAND_AWAITING_REBOOT 100 ESP_OK a1 = (e2, a2)" by (metis prod.exhaust)
  have reach1: "app_reach psa a1" using run(1) by (simp add: only_entry_def)
  note tr = transition_only [OF reach1 assms(2) t]
  define result b where "result = (if e1 = ESP_OK then e2 else e1)" and "b = (if e1 = ESP_OK then a2 else a1)"
  have pair: "(if e1 = ESP_OK then (e2, a2) else (e1, a1)) = (result, b)" by (simp add: result_def b_def)
  have b: "only_entry psa i a b" "a_ota b = a_ota a1" "app_reach psa b"
    using run(1) tr(5) only_entry_trans [OF run(1) tr(1)] by (auto simp: b_def only_entry_def)
  note task = assms(6) [unfolded ota_task_def r prod.case t pair]
  show ?thesis
  proof (cases "result = ESP_OK")
    case True
    then have e: "e1 = ESP_OK" "e2 = ESP_OK" "b = a2" by (auto simp: result_def b_def split: if_splits)
    have out: "restarts" "a' = b" using task True by simp_all
    show ?thesis using b(1) run(5) [OF e(1)] tr(2) [OF e(2)] tr(4) [OF e(2), of l0] b(2) unfolding out(2) e(3) using out(1) by auto
  next
    case False
    obtain e3 w3 where c: "pm_ota_cancel_pending_boot (oe_peer env) result (a_ota b) = (e3, w3)" by (metis prod.exhaust)
    define a3 where "a3 = b\<lparr>a_ota := w3, a_ctx := pm_network_health_update PM_HEALTH_OTA_FAILED True (a_ctx b)\<rparr>"
    obtain e4 a4 where f: "app_transition (oe_failed env) i PM_COMMAND_FAILED
        (progress_percent (entries (a_ledger a3) ! i)) result a3 = (e4, a4)" by (metis prod.exhaust)
    have a3: "only_entry psa i a a3" "app_reach psa a3" "a_ota a3 = w3"
      using b by (simp_all add: a3_def only_entry_def app_reach_def)
    note fin = transition_only [OF a3(2) assms(2) f]
    have out: "\<not> restarts" "a' = release_ota_task a4"
      using task False f unfolding c snd_conv a3_def by (simp_all add: Let_def)
    have "only_entry psa i a (release_ota_task a4)"
      using only_entry_cong [OF _ _ only_entry_trans [OF a3(1) fin(1)]] by (simp add: release_ota_task_def)
    moreover have "update_selected psa b64dec env p auth_of m w3" if "update_selected psa b64dec env p auth_of m (a_ota a1)"
      "w_boot w3 = w_boot (a_ota a1)" for m
      using that cancel_boot(1) [OF c] b(2) by (simp add: update_selected_def)
    ultimately show ?thesis
      using out run(4) cancel_boot(2) [OF c] b(2) fin(5) a3(3) by (auto simp: release_ota_task_def)
  qed
qed

text \<open>
  C32. The exclusion between updates does not survive a second command. While an update runs, starting another is refused, but the
  refusal also clears the flag that says an update is running, so the next OTA command starts a
  second update beside the first whenever memory, the mutex and a task can be had.
\<close>

theorem ota_exclusion_lost:
  assumes "a_ota_active a"
  shows "start_ota env a = (Inl ESP_ERR_INVALID_STATE, a\<lparr>a_ota_active := False\<rparr>) \<and>
    (ce_ota_alloc env' \<and> ce_task_created env' \<and> pm_network_capture_auth_snapshot (ce_mutex env') (a_ctx a) = (ESP_OK, auth_of) \<longrightarrow>
     start_ota env' (snd (start_ota env a)) = (Inr auth_of, a))"
  using assms by (simp add: start_ota_def claim_ota_task_def release_ota_task_def)

subsection \<open>Concrete runs\<close>

definition demo_app :: "pm_command_ledger \<Rightarrow> pm_command_ledger nvs \<Rightarrow> app" where
  "demo_app l n = \<lparr>a_ledger = l, a_store = n, a_queue = [], a_acks = [], a_ota_active = False, a_ctx = demo_context,
     a_slot = demo_slot,
     a_time = (pm_time_init 0)\<lparr>trusted := True, utc_checkpoint_ms := 1800000000000\<rparr>,
     a_time_store = \<lparr>blobs = Map.empty, u8s = Map.empty, faults = []\<rparr>, a_state = pm_state_init 0,
     a_meter = \<lparr>drv_ops = None, drv_variant = PM_METER_PZEM004T_V4_CLASSIC, slave_address = 1, physical_reads_enabled = False,
       drv_simulated = False, simulation_tick = 0\<rparr>,
     a_ota = fresh_world\<rparr>"

lemma demo_app_simps [simp]:
  "a_ledger (demo_app l n) = l" "a_store (demo_app l n) = n" "a_queue (demo_app l n) = []" "a_ota (demo_app l n) = fresh_world"
  "\<not> a_ota_active (demo_app l n)" "a_ctx (demo_app l n) = demo_context"
  by (simp_all add: demo_app_def)

text \<open>A ledger with one command, over storage that does not fail.\<close>

definition one_command :: "pm_command \<Rightarrow> pm_command_ledger \<Rightarrow> pm_command_ledger nvs \<Rightarrow> bool" where
  "one_command c l n \<longleftrightarrow> faults n = [] \<and> ldg_generation l < 100 \<and> entries l ! 0 = c \<and> length (entries l) = 8 \<and>
     (\<forall>j < 8. j \<noteq> 0 \<longrightarrow> vacant (entries l ! j))"

lemma one_command_persist:
  assumes "one_command c l n" "ldg_generation l < 50" "l1 = l\<lparr>entries := (entries l)[0 := d]\<rparr>"
  shows "\<exists>l' n'. persist_or_restore l l1 0 n = (ESP_OK, l', n') \<and> one_command (seal_command d) l' n' \<and>
    ldg_generation l' = ldg_generation l + 1"
proof -
  have g: "ldg_generation l \<noteq> - 1" "ldg_generation l + 1 < 100"
    using assms(2) by (auto simp: word_less_nat_alt unat_word_ariths)
  then show ?thesis
    using assms(1,3) by (simp add: persist_or_restore_def persist_fault_free one_command_def del: seal_ledger_simps(4))
qed

lemma one_command_transition:
  assumes "one_command c l n" "ldg_generation l < 50" "p \<le> 100" "progress_percent c \<le> p" "\<not> command_terminal (cmd_state c)"
    and "command_state_code st \<le> 11"
  shows "\<exists>l' n'. pm_command_transition True True l 0 st p code n = (ESP_OK, l', n') \<and>
    one_command (seal_command (c\<lparr>cmd_state := st, progress_percent := p, result_code := code\<rparr>)) l' n' \<and>
    ldg_generation l' = ldg_generation l + 1"
proof -
  have c: "entries l ! 0 = c" using assms(1) by (simp add: one_command_def)
  show ?thesis
    using one_command_persist [OF assms(1,2) refl] assms(3-6)
    by (auto simp: pm_command_transition_def locked_def command_transition_locked_def c not_less not_le)
qed

lemma reconcile_vacant:
  "\<forall>j \<in> set is. vacant (entries (a_ledger a) ! j) \<Longrightarrow> reconcile_entries cp al is a = (ESP_OK, a)"
  by (induction "is") (simp_all add: reconcile_entry_def)

lemma one_command_reconcile:
  assumes "one_command c (a_ledger a) (a_store a)" "reconcile_entry cp (al 0) 0 a = (ESP_OK, a')"
    and "one_command c' (a_ledger a') (a_store a')"
  shows "reconcile_interrupted_commands True cp al a = (ESP_OK, a')"
proof -
  have "[0..<PM_COMMAND_LEDGER_SIZE] = 0 # [1..<8]" by (simp add: PM_COMMAND_LEDGER_SIZE_def upt_rec [of 0])
  moreover have "reconcile_entries cp al [1..<8] a' = (ESP_OK, a')"
    using assms(3) by (intro reconcile_vacant) (auto simp: one_command_def)
  ultimately show ?thesis using assms(2) by (simp add: reconcile_interrupted_commands_def)
qed

text \<open>A reboot command.\<close>

definition demo_reboot :: pm_command where
  "demo_reboot = demo_command\<lparr>cmd_type := PM_COMMAND_REBOOT\<rparr>"

lemma accept_one:
  assumes "c = demo_command \<or> c = demo_reboot"
  obtains l n where "ledger_reach psa l n" "one_command (seal_command (accepted_candidate psa c 5)) l n" "ldg_generation l = 2"
proof -
  let ?c = "accepted_candidate psa c 5"
  let ?l1 = "(seal_ledger zero_ledger)\<lparr>entries := (entries (seal_ledger zero_ledger))[0 := ?c], ldg_next := 1\<rparr>"
  let ?n = "demo_nvs\<lparr>blobs := (blobs demo_nvs)(ab_key 2 \<mapsto> Blob (seal_ledger ?l1))\<rparr>"
  have c: "\<not> vacant c" "cstr (idempotency_key c) \<noteq> []" "command_type_code (cmd_type c) < 15" "nul_terminated (cmd_payload c)"
    "5 \<le> expires_utc_ms c" "\<not> result_ack_required c" "\<not> same_command zero_command c"
    using assms demo_command_fresh by (auto simp: demo_reboot_def vacant_def same_command_def)
      (auto simp: demo_command_def zero_command_def)
  have "List.find (\<lambda>i. same_command (entries (seal_ledger zero_ledger) ! i) c) [0..<8] = None"
    using zero_ledger_entries(1) c(7) by (auto simp: find_None_iff)
  moreover have "List.find (\<lambda>i. evictable (entries (seal_ledger zero_ledger) ! i))
      (map (\<lambda>off. (unat (ldg_next (seal_ledger zero_ledger)) + off) mod 8) [0..<8]) = Some 0"
    by (simp add: zero_ledger_generation upt_rec [of 0] zero_ledger_entries del: seal_ledger_simps)
  moreover have g: "ldg_generation zero_ledger = 0" by (simp add: zero_ledger_def)
  have "persist_ledger ?l1 demo_nvs = (ESP_OK, seal_ledger ?l1, ?n)"
    using persist_fault_free [of demo_nvs ?l1] g by (simp add: empty_nvs_def)
  ultimately have "pm_command_accept True psa True (seal_ledger zero_ledger) c 5 demo_nvs = (ESP_OK, Some (0, False), seal_ledger ?l1, ?n)"
    using c(1-5)
    by (simp add: pm_command_accept_def command_accept_locked_def PM_COMMAND_LEDGER_SIZE_def
        accept_new_def Let_def persist_or_restore_def del: seal_ledger_simps)
  then have "ledger_reach psa (seal_ledger ?l1) ?n"
    using ledger_reach.operation [OF demo_ledger_reach [of psa], of "Accept True True c 5" "seal_ledger ?l1" ?n] c(6) by simp
  moreover have "one_command (seal_command ?c) (seal_ledger ?l1) ?n"
    using zero_ledger_entries(1)
    by (auto simp: one_command_def empty_nvs_def zero_ledger_def zero_command_def vacant_def)
  moreover have "ldg_generation (seal_ledger ?l1) = 2" by (simp add: g)
  ultimately show ?thesis using that by blast
qed

lemma candidate_simps:
  "\<not> expires_utc_ms demo_reboot < 5" "cmd_type demo_reboot = PM_COMMAND_REBOOT" "\<not> vacant demo_reboot"
  "\<not> expires_utc_ms demo_command < 5" "cmd_type demo_command = PM_COMMAND_METER_SELF_TEST" "\<not> vacant demo_command"
  "progress_percent (accepted_candidate psa c 5) = 0"
  using demo_command_fresh(1) by (simp_all add: demo_reboot_def vacant_def accepted_candidate_def Let_def) (simp_all add: demo_command_def)

lemma seal_command_fields [simp]:
  "cmd_state (seal_command c) = cmd_state c" "progress_percent (seal_command c) = progress_percent c" "cmd_type (seal_command c) = cmd_type c"
  by (simp_all add: seal_command_def)

theorem interrupted_commands_settled_witness:
  "\<exists>a a'. app_reach (\<lambda>_. None) a \<and> reconcile_interrupted_commands True zero_ota_checkpoint (\<lambda>_. True) a = (ESP_OK, a') \<and>
     a_queue a' = [0] \<and> cmd_type (entries (a_ledger a') ! 0) = PM_COMMAND_METER_SELF_TEST \<and>
     cmd_state (entries (a_ledger a') ! 0) = PM_COMMAND_ACCEPTED"
proof -
  obtain l n where l: "ledger_reach (\<lambda>_. None) l n" "one_command (seal_command (accepted_candidate (\<lambda>_. None) demo_command 5)) l n"
    using accept_one [of demo_command "\<lambda>_. None"] by blast
  let ?a = "demo_app l n" and ?a' = "(demo_app l n)\<lparr>a_queue := [0]\<rparr>"
  have c: "entries l ! 0 = seal_command (accepted_candidate (\<lambda>_. None) demo_command 5)" using l(2) by (simp add: one_command_def)
  have "reconcile_entry zero_ota_checkpoint True 0 ?a = (ESP_OK, ?a')"
    by (simp add: reconcile_entry_def Let_def c candidate_simps boot_settlement_def pm_command_boot_action_def queue_send_def
        PM_COMMAND_QUEUE_DEPTH_def PM_COMMAND_LEDGER_SIZE_def)
  then have r: "reconcile_interrupted_commands True zero_ota_checkpoint (\<lambda>_. True) ?a = (ESP_OK, ?a')"
    using l(2) by (intro one_command_reconcile) simp_all
  moreover have reach: "app_reach (\<lambda>_. None) ?a" using l(1) by (simp add: app_reach_def)
  moreover have "\<not> vacant (entries l ! 0)" by (simp add: c candidate_simps)
  with interrupted_commands_settled [OF reach _ r] have "(True, cmd_state (entries l ! 0)) = outcome_expected PM_OTA_IDLE (entries l ! 0)"
    by (auto simp: Let_def zero_ota_checkpoint_def dest: spec [of _ 0])
  then have "cmd_state (entries l ! 0) = PM_COMMAND_ACCEPTED" by (simp add: outcome_expected_def c candidate_simps)
  moreover have "cmd_type (entries l ! 0) = PM_COMMAND_METER_SELF_TEST" using c by (simp add: candidate_simps)
  ultimately show ?thesis by (intro exI [of _ ?a] exI [of _ ?a']) simp
qed

definition demo_command_env :: command_env where
  "demo_command_env = \<lparr>ce_lock = True, ce_running = True, ce_reboot = True, ce_final = True,
     ce_heap = \<lparr>hr_free_internal = 1, hr_minimum_internal = 1, hr_largest_internal = 1, hr_free_psram = 1, hr_reset_reason = 1\<rparr>,
     ce_ota_alloc = True, ce_mutex = Some True, ce_task_created = True\<rparr>"

lemma demo_env_simps [simp]:
  "ce_lock demo_command_env" "ce_running demo_command_env" "ce_reboot demo_command_env" "ce_ota_alloc demo_command_env"
  "ce_mutex demo_command_env = Some True" "ce_task_created demo_command_env"
  by (simp_all add: demo_command_env_def)

lemma app_transition_one:
  assumes "one_command c (a_ledger a) (a_store a)" "ldg_generation (a_ledger a) < 50" "p \<le> 100" "progress_percent c \<le> p"
    and "\<not> command_terminal (cmd_state c)" "command_state_code st \<le> 11"
  obtains l n where "app_transition (True, True) 0 st p r a = (ESP_OK, a\<lparr>a_ledger := l, a_store := n\<rparr>)"
    "one_command (seal_command (c\<lparr>cmd_state := st, progress_percent := p, result_code := sint (esp_err_code r)\<rparr>)) l n"
    "ldg_generation l = ldg_generation (a_ledger a) + 1"
  using one_command_transition [OF assms, of "sint (esp_err_code r)"] that by (auto simp: app_transition_def)

lemma demo_restart:
  obtains l n a1 where "ledger_reach psa l n" "one_command (seal_command (accepted_candidate psa demo_reboot 5)) l n"
    "execute_command demo_command_env 0 (demo_app l n) = (Device_Restarting, a1)" "ldg_generation (a_ledger a1) = 4"
    "one_command (entries (a_ledger a1) ! 0) (a_ledger a1) (a_store a1)"
proof -
  let ?c = "seal_command (accepted_candidate psa demo_reboot 5)"
  obtain l n where l: "ledger_reach psa l n" "one_command ?c l n" "ldg_generation l = 2"
    using accept_one [of demo_reboot psa] by blast
  obtain l1 n1 where t1: "app_transition (True, True) 0 PM_COMMAND_RUNNING 1 ESP_OK (demo_app l n) =
      (ESP_OK, (demo_app l n)\<lparr>a_ledger := l1, a_store := n1\<rparr>)" (is "_ = (_, ?a)")
    "one_command (seal_command (?c\<lparr>cmd_state := PM_COMMAND_RUNNING, progress_percent := 1, result_code := sint (esp_err_code ESP_OK)\<rparr>)) l1 n1"
    (is "one_command ?c1 _ _")
    "ldg_generation l1 = 3"
    by (rule app_transition_one [of ?c "demo_app l n" 1 PM_COMMAND_RUNNING ESP_OK]) (use l in \<open>simp_all add: candidate_simps\<close>)
  obtain l2 n2 c2 where t2: "app_transition (True, True) 0 PM_COMMAND_AWAITING_REBOOT 100 ESP_OK ?a = (ESP_OK, ?a\<lparr>a_ledger := l2, a_store := n2\<rparr>)"
    "one_command c2 l2 n2" "ldg_generation l2 = 4"
    by (rule app_transition_one [of ?c1 ?a 100 PM_COMMAND_AWAITING_REBOOT ESP_OK]) (use t1 in \<open>simp_all add: candidate_simps\<close>)
  have "cmd_type (entries l1 ! 0) = PM_COMMAND_REBOOT" using t1(2) by (simp add: one_command_def candidate_simps)
  then have "execute_command demo_command_env 0 (demo_app l n) = (Device_Restarting, ?a\<lparr>a_ledger := l2, a_store := n2\<rparr>)"
    unfolding execute_command_def Let_def demo_env_simps using t1(1) t2(1) by simp
  with l(1,2) t2(2,3) show ?thesis using that by (simp add: one_command_def)
qed

lemma demo_boot_settles:
  assumes "one_command c (a_ledger b) (a_store b)" "ldg_generation (a_ledger b) < 50" "\<not> vacant c" "cmd_type c = PM_COMMAND_REBOOT"
    and "cmd_state c = PM_COMMAND_AWAITING_REBOOT"
  shows "\<exists>b'. reconcile_interrupted_commands True cp (\<lambda>_. True) b = (ESP_OK, b')"
proof -
  have c: "entries (a_ledger b) ! 0 = c" using assms(1) by (simp add: one_command_def)
  have "pm_command_boot_action c = PM_COMMAND_BOOT_COMPLETE_REBOOT" using assms(4,5) by (simp add: pm_command_boot_action_def)
  moreover have "length (cstr ''reboot_observed'') \<le> PM_COMMAND_RESULT_MAX" by (simp add: cstr_def PM_COMMAND_RESULT_MAX_def)
  moreover define d where "d = c\<lparr>cmd_state := PM_COMMAND_SUCCEEDED, progress_percent := 100, result_code := 0,
    result_text := cstr ''reboot_observed'' @ [NUL] @ drop (Suc (length (cstr ''reboot_observed''))) (result_text c),
    evidence_json := (evidence_json c)[0 := NUL]\<rparr>"
  moreover obtain l n where "persist_or_restore (a_ledger b) ((a_ledger b)\<lparr>entries := (entries (a_ledger b))[0 := d]\<rparr>) 0 (a_store b) =
      (ESP_OK, l, n)" "one_command (seal_command d) l n"
    using one_command_persist [OF assms(1,2) refl] by blast
  ultimately have "reconcile_entry cp True 0 b = (ESP_OK, b\<lparr>a_ledger := l, a_store := n\<rparr>)" "one_command (seal_command d) l n"
    using assms(3,5)
    by (simp_all add: reconcile_entry_def c boot_settlement_def pm_command_reconcile_boot_def locked_def
        command_reconcile_boot_locked_def Let_def not_less)
  with assms(1) show ?thesis by (intro exI [of _ "b\<lparr>a_ledger := l, a_store := n\<rparr>"] one_command_reconcile [where c = c and c' = "seal_command d"]) simp_all
qed

theorem reboot_command_once_witness:
  "\<exists>a0 a1 b'. execute_command demo_command_env 0 a0 = (Device_Restarting, a1) \<and>
     reconcile_interrupted_commands True zero_ota_checkpoint (\<lambda>_. True) (demo_app (a_ledger a1) (reboot (a_store a1))) = (ESP_OK, b') \<and>
     cmd_state (entries (a_ledger b') ! 0) = PM_COMMAND_SUCCEEDED \<and> 0 \<notin> set (a_queue b')"
proof -
  let ?psa = "\<lambda>_. None"
  obtain l n a1 where d: "ledger_reach ?psa l n" "one_command (seal_command (accepted_candidate ?psa demo_reboot 5)) l n"
    "execute_command demo_command_env 0 (demo_app l n) = (Device_Restarting, a1)" "ldg_generation (a_ledger a1) = 4"
    "one_command (entries (a_ledger a1) ! 0) (a_ledger a1) (a_store a1)" by (rule demo_restart)
  let ?a0 = "demo_app l n" and ?b = "demo_app (a_ledger a1) (reboot (a_store a1))"
  have reach: "app_reach ?psa ?a0" using d(1) by (simp add: app_reach_def)
  have v: "\<not> vacant (entries (a_ledger ?a0) ! 0)" using d(2) by (simp add: one_command_def candidate_simps)
  note ex = restart_execution [OF reach _ d(3)]
  have "\<not> vacant (entries (a_ledger a1) ! 0)" "cmd_type (entries (a_ledger a1) ! 0) = PM_COMMAND_REBOOT"
    using ex(1,2) v by (simp_all add: only_entry_def vacant_def)
  then obtain b' where r: "reconcile_interrupted_commands True zero_ota_checkpoint (\<lambda>_. True) ?b = (ESP_OK, b')"
    using demo_boot_settles [of "entries (a_ledger a1) ! 0" ?b] d(4,5) ex(3) by (auto simp: one_command_def reboot_def)
  have "a_store ?b = (reboot (a_store a1))\<lparr>faults := []\<rparr>" by (simp add: reboot_def)
  from reboot_command_once [OF reach _ v d(3) ex(4) [of zero_ledger] _ this _ r] d(3) r show ?thesis by auto
qed

text \<open>An update that restarts the device.\<close>

definition release_json :: "flat_json cjson" where
  "release_json = flat_cjson (\<lambda>_. Some (case demo_release of
     FObject fs \<Rightarrow> FObject (map (\<lambda>(k, v). (k, if k = ''sha256'' then FString (concat (replicate 32 ''07'')) else v)) fs) | v \<Rightarrow> v))"

definition demo_ota_env :: "flat_json ota_env" where
  "demo_ota_env = \<lparr>oe_json = release_json, oe_peer = release_peer, oe_now = 0, oe_progress = (\<lambda>_. (False, False)),
     oe_awaiting = (True, True), oe_failed = (True, True)\<rparr>"

definition demo_auth :: pm_network_auth_snapshot where
  "demo_auth = \<lparr>as_server_origin = ''https://h//'', as_ca_pem = ''CA'', as_device_id_text = demo_uuid,
     as_device_to_server_key = replicate 32 1, as_server_to_device_key = replicate 32 0, as_config_generation = 1\<rparr>"

lemma release_parse:
  "pm_ota_manifest_parse_payload release_json demo_dec payload ''https://h//'' demo_uuid = Inr release_manifest"
  by code_simp

lemma release_installs:
  "\<exists>w'. pm_ota_install demo_psa demo_enc demo_dec release_peer release_manifest ''CA'' (replicate 32 1) (replicate 32 0)
     1800000000000 fresh_world = (ESP_OK, w')"
proof -
  obtain h where h: "pm_sign_request demo_psa demo_enc (replicate 32 1) (mf_device_id release_manifest) ''GET''
      (mf_download_path release_manifest) None 1800000000000 (request_nonce release_peer) [] = Inr h" using release_signed by blast
  have f: "calm fresh_world" "cstr ''CA'' \<noteq> []" "next_partition release_peer = Some \<lparr>part_id = 1, part_size = 4194304\<rparr>"
    "mf_image_size release_manifest \<le> part_size \<lparr>part_id = 1, part_size = 4194304\<rparr>" "length (mf_image_sha256 release_manifest) = 32"
    by (simp_all add: calm_def fresh_world_def release_peer_def release_manifest_def demo_manifest_def cstr_def)
  show ?thesis using install_good_release [OF f(1) release_verified f(2) _ h f(3,4) _ f(5) release_serves] by auto
qed

theorem ota_task_safe_witness:
  "\<exists>a'. ota_task demo_psa demo_enc demo_dec demo_ota_env 0 demo_auth (demo_app (seal_ledger zero_ledger) demo_nvs) = (True, a') \<and>
     w_boot (a_ota a') = 1 \<and> cmd_state (entries (a_ledger a') ! 0) = PM_COMMAND_AWAITING_REBOOT"
proof -
  let ?a = "demo_app (seal_ledger zero_ledger) demo_nvs"
  have reach: "app_reach demo_psa ?a" using demo_ledger_reach by (simp add: app_reach_def)
  obtain w where w: "pm_ota_install demo_psa demo_enc demo_dec release_peer release_manifest ''CA'' (replicate 32 1) (replicate 32 0)
     1800000000000 fresh_world = (ESP_OK, w)" using release_installs by blast
  have "foldl (\<lambda>a (k, r). ota_progress (False, False) 0 a r) a rs = a" for a :: app and rs :: "(nat \<times> u8 \<times> pm_ota_stage) list"
    by (induction rs) (auto simp: ota_progress_def)
  moreover obtain tm where "pm_time_now (a_time ?a) 0 = (Some 1800000000000, tm)"
    by (simp add: pm_time_now_def demo_app_def pm_time_init_def projected_ms_def c_div_def Let_def)
  moreover have "fresh_world\<lparr>w_reports := []\<rparr> = fresh_world" by (simp add: fresh_world_def)
  ultimately have run: "ota_run demo_psa demo_enc demo_dec demo_ota_env 0 demo_auth ?a = (ESP_OK, ?a\<lparr>a_time := tm, a_ota := w\<rparr>)"
    using w by (simp add: ota_run_def demo_ota_env_def demo_auth_def release_parse)
  have "vacant zero_command" "ldg_generation zero_ledger = 0" "length (entries zero_ledger) = 8"
    by (simp_all add: vacant_def zero_command_def zero_ledger_def)
  then have "one_command zero_command (seal_ledger zero_ledger) demo_nvs"
    using zero_ledger_entries(1) by (simp add: one_command_def empty_nvs_def)
  moreover have "ldg_generation zero_ledger = 0" "progress_percent zero_command = 0" "cmd_state zero_command = PM_COMMAND_QUEUED"
    by (simp_all add: zero_ledger_def zero_command_def)
  ultimately obtain l n where "app_transition (True, True) 0 PM_COMMAND_AWAITING_REBOOT 100 ESP_OK (?a\<lparr>a_time := tm, a_ota := w\<rparr>) =
      (ESP_OK, ?a\<lparr>a_time := tm, a_ota := w\<rparr>\<lparr>a_ledger := l, a_store := n\<rparr>)"
    by - (rule app_transition_one [of zero_command "?a\<lparr>a_time := tm, a_ota := w\<rparr>" 100 PM_COMMAND_AWAITING_REBOOT ESP_OK], simp_all)
  then obtain a' where t: "ota_task demo_psa demo_enc demo_dec demo_ota_env 0 demo_auth ?a = (True, a')"
    unfolding ota_task_def run by (simp add: demo_ota_env_def)
  have "next_partition (oe_peer demo_ota_env) = Some \<lparr>part_id = 1, part_size = 4194304\<rparr>" "\<not> w_ota_open (a_ota ?a)"
    by (simp_all add: demo_ota_env_def release_peer_def fresh_world_def)
  from ota_task_safe [OF reach _ this(1) _ this(2) t, of zero_ledger] t show ?thesis
    by (auto simp: update_selected_def)
qed

theorem ota_exclusion_lost_witness:
  "\<exists>auth_of. let a = (demo_app (seal_ledger zero_ledger) demo_nvs)\<lparr>a_ota_active := True\<rparr>
     in fst (start_ota demo_command_env a) = Inl ESP_ERR_INVALID_STATE \<and>
        start_ota demo_command_env (snd (start_ota demo_command_env a)) = (Inr auth_of, a)"
proof -
  let ?a = "(demo_app (seal_ledger zero_ledger) demo_nvs)\<lparr>a_ota_active := True\<rparr>"
  obtain auth_of where "pm_network_capture_auth_snapshot (Some True) demo_context = (ESP_OK, auth_of)"
    by (simp add: pm_network_capture_auth_snapshot_def ensure_credential_mutex_def demo_context_def demo_config_def
        cstr_store_str demo_uuid_def Let_def) (simp add: cstr_def)
  with ota_exclusion_lost [of ?a demo_command_env demo_command_env auth_of] show ?thesis by (auto simp: Let_def)
qed

end
