(* ===== verification/PM_Identity.thy ===== *)
theory PM_Identity
  imports PM_Nvs PM_Crc "HOL-Library.Sublist"
begin

text \<open>
  The first part of main/app_main_stateless.c: the device identity in the NVS namespace \<open>pm_identity\<close>, which
  is created once and replaced when the device is enrolled, and the debounced recovery button. The random number
  generator is an argument; the button is the list of readings of the clock and of the pin.
\<close>

subsection \<open>Identity\<close>

record local_identity =
  li_device_id :: "u8 list"
  li_generation :: u32
  li_crc32 :: u32

definition identity_crc :: "local_identity \<Rightarrow> u32" where
  "identity_crc i = pm_crc32_ieee (li_device_id i @ le_bytes 4 (li_generation i))"

definition seal_identity :: "u8 list \<Rightarrow> u32 \<Rightarrow> local_identity" where
  "seal_identity device_id g =
     (let i = \<lparr>li_device_id = device_id, li_generation = g, li_crc32 = 0\<rparr> in i\<lparr>li_crc32 := identity_crc i\<rparr>)"

definition version_4 :: "u8 list \<Rightarrow> u8 list" where
  "version_4 r = (let r1 = r[6 := (r ! 6 AND 0x0F) OR 0x40] in r1[8 := (r1 ! 8 AND 0x3F) OR 0x80])"

definition identity_valid :: "local_identity \<Rightarrow> bool" where
  "identity_valid i \<longleftrightarrow> li_generation i \<noteq> 0 \<and> li_crc32 i = identity_crc i"

definition load_or_create_identity ::
    "u8 list \<Rightarrow> local_identity nvs \<Rightarrow> (esp_err + u8 list) \<times> local_identity nvs" where
  "load_or_create_identity random n0 =
     (let (e, n1) = nvs_open n0 in
      if e \<noteq> ESP_OK then (Inl e, n1)
      else case nvs_get_blob ''identity'' n1 of
        (Read_Err e1, n2) \<Rightarrow>
          if e1 = ESP_ERR_NVS_NOT_FOUND
          then let i = seal_identity (version_4 random) 1;
                   (e2, n3) = ok_then (nvs_set_blob ''identity'' i n2) nvs_commit
            in (if e2 = ESP_OK then Inr (li_device_id i) else Inl e2, n3)
          else (Inl e1, n2)
      | (Read_Short k i, n2) \<Rightarrow> (Inl ESP_ERR_INVALID_CRC, n2)
      | (Read_Full i, n2) \<Rightarrow> (if identity_valid i then Inr (li_device_id i) else Inl ESP_ERR_INVALID_CRC, n2))"

definition persist_identity :: "u8 list \<Rightarrow> local_identity nvs \<Rightarrow> esp_err \<times> local_identity nvs" where
  "persist_identity device_id n0 =
     (let (e, n1) = nvs_open n0 in
      if e \<noteq> ESP_OK then (e, n1)
      else case nvs_get_blob ''identity'' n1 of
        (Read_Err e1, n2) \<Rightarrow> (e1, n2)
      | (Read_Short k i, n2) \<Rightarrow> (ESP_ERR_INVALID_CRC, n2)
      | (Read_Full prior, n2) \<Rightarrow>
          if \<not> identity_valid prior \<or> li_generation prior = - 1 then (ESP_ERR_INVALID_CRC, n2)
          else ok_then (nvs_set_blob ''identity'' (seal_identity device_id (li_generation prior + 1)) n2) nvs_commit)"

subsection \<open>The recovery button\<close>

definition PM_RECOVERY_WINDOW_MS :: nat where "PM_RECOVERY_WINDOW_MS = 3000"
definition PM_RECOVERY_DEBOUNCE_SAMPLES :: nat where "PM_RECOVERY_DEBOUNCE_SAMPLES = 5"

fun recovery_loop :: "int \<Rightarrow> nat \<Rightarrow> (int \<times> bool) list \<Rightarrow> bool" where
  "recovery_loop deadline low_samples [] = False"
| "recovery_loop deadline low_samples ((now, high) # readings) =
     (if \<not> now < deadline then False
      else let low = (if \<not> high then low_samples + 1 else 0)
        in if low \<ge> PM_RECOVERY_DEBOUNCE_SAMPLES then True else recovery_loop deadline low readings)"

text \<open>
  \<open>gpio\<close> is the result of configuring the pin, \<open>start\<close> the reading of the clock before the loop; a list of
  readings ends when the loop would have to read past the window.
\<close>

definition wait_for_physical_recovery_request :: "esp_err \<Rightarrow> bool \<Rightarrow> int \<Rightarrow> (int \<times> bool) list \<Rightarrow> bool" where
  "wait_for_physical_recovery_request gpio provisioned start readings =
     (if gpio \<noteq> ESP_OK \<or> \<not> provisioned then False
      else recovery_loop (start + int PM_RECOVERY_WINDOW_MS * 1000) 0 readings)"

subsection \<open>The identity is stable\<close>

lemma seal_identity_simps [simp]:
  "li_device_id (seal_identity d g) = d" "li_generation (seal_identity d g) = g"
  "identity_valid (seal_identity d g) = (g \<noteq> 0)"
  by (simp_all add: seal_identity_def identity_valid_def identity_crc_def Let_def)

lemma load_stored:
  assumes "blobs n ''identity'' = Some (Blob i)" "identity_valid i"
  shows "load_or_create_identity r (reboot n) = (Inr (li_device_id i), reboot n)"
  using assms by (simp add: load_or_create_identity_def nvs_fault_free)

lemma load_ok_stored:
  assumes "load_or_create_identity r n = (Inr d, n1)"
  shows "\<exists>i. blobs n1 ''identity'' = Some (Blob i) \<and> identity_valid i \<and> li_device_id i = d"
proof -
  obtain e0 n0 where o: "nvs_open n = (e0, n0)" by (metis prod.exhaust)
  obtain x n2 where g: "nvs_get_blob ''identity'' n0 = (x, n2)" by (metis prod.exhaust)
  have e0: "e0 = ESP_OK" using assms o by (auto simp: load_or_create_identity_def split: if_splits)
  show ?thesis
  proof (cases x)
    case (Read_Full i)
    then have "blobs n2 ''identity'' = Some (Blob i)"
      using nvs_get_blob_ok [of "''identity''" n0 i] nvs_read_eq(3) [OF g] g by simp
    then show ?thesis using assms o e0 g Read_Full by (auto simp: load_or_create_identity_def split: if_splits)
  next
    case (Read_Err e1)
    let ?i = "seal_identity (version_4 r) 1"
    obtain e2 n3 where s: "nvs_set_blob ''identity'' ?i n2 = (e2, n3)" by (metis prod.exhaust)
    have "e2 = ESP_OK" "d = version_4 r" "blobs n1 = blobs n3"
      using assms o e0 g Read_Err s nvs_read_eq(2) [of n3]
      by (auto simp: load_or_create_identity_def Let_def ok_then_def split: if_splits prod.splits)
    moreover have "blobs n3 = (if e2 = ESP_OK then (blobs n2)(''identity'' \<mapsto> Blob ?i) else blobs n2)"
      using nvs_write_store(1) [of "''identity''" ?i n2] s by simp
    ultimately show ?thesis by simp
  next
    case (Read_Short k i)
    then show ?thesis using assms o e0 g by (auto simp: load_or_create_identity_def split: if_splits)
  qed
qed

lemma persist_stored:
  assumes "persist_identity d n = (e, n')" "blobs n ''identity'' = Some (Blob i)" "identity_valid i"
  shows "blobs n' ''identity'' = Some (Blob (seal_identity d (li_generation i + 1))) \<and> li_generation i \<noteq> - 1 \<or>
    blobs n' = blobs n \<and> e \<noteq> ESP_OK"
proof -
  obtain e0 n0 where o: "nvs_open n = (e0, n0)" by (metis prod.exhaust)
  obtain x n2 where g: "nvs_get_blob ''identity'' n0 = (x, n2)" by (metis prod.exhaust)
  have b: "blobs n0 = blobs n" "blobs n2 = blobs n" using nvs_read_eq(1) [OF o] nvs_read_eq(3) [OF g] by simp_all
  have x: "x = Read_Full i \<or> (\<exists>e1. x = Read_Err e1 \<and> e1 \<noteq> ESP_OK)"
    using g b(1) assms(2) by (auto simp: nvs_get_blob_def split: prod.splits if_splits)
  obtain e2 n3 where s: "nvs_set_blob ''identity'' (seal_identity d (li_generation i + 1)) n2 = (e2, n3)" by (metis prod.exhaust)
  have w: "blobs n3 = (if e2 = ESP_OK then (blobs n2)(''identity'' \<mapsto> Blob (seal_identity d (li_generation i + 1))) else blobs n2)"
    using nvs_write_store(1) [of "''identity''" "seal_identity d (li_generation i + 1)" n2] s by simp
  obtain e3 n4 where c: "nvs_commit n3 = (e3, n4)" by (metis prod.exhaust)
  have "blobs n4 = blobs n3" using nvs_read_eq(2) [OF c] by simp
  then show ?thesis
    using assms(1,3) o g b x s w c
    by (auto simp: persist_identity_def ok_then_def split: if_splits)
qed

text \<open>
  The histories of the identity, with the identities that storage may hold: one after it was created, loaded or
  replaced successfully, after a failed enrolment also the one that was to be stored. Every boot and every enrolment has its own
  storage failures. A failing call of a boot does not report a missing entry: that answer is kept for entries that are missing.
\<close>

inductive identity_history :: "u8 list set \<Rightarrow> local_identity nvs \<Rightarrow> bool" where
  first_boot: "load_or_create_identity r n = (Inr d, n') \<Longrightarrow> identity_history {d} n'"
| later_boot: "identity_history ds n \<Longrightarrow> ESP_ERR_NVS_NOT_FOUND \<notin> set fs \<Longrightarrow>
     load_or_create_identity r (n\<lparr>faults := fs\<rparr>) = (Inr d, n') \<Longrightarrow> identity_history {d} n'"
| failed_boot: "identity_history ds n \<Longrightarrow> ESP_ERR_NVS_NOT_FOUND \<notin> set fs \<Longrightarrow>
     load_or_create_identity r (n\<lparr>faults := fs\<rparr>) = (Inl e, n') \<Longrightarrow> identity_history ds n'"
| enrolled: "identity_history ds n \<Longrightarrow> persist_identity d (n\<lparr>faults := fs\<rparr>) = (ESP_OK, n') \<Longrightarrow> identity_history {d} n'"
| failed_enrolment: "identity_history ds n \<Longrightarrow> persist_identity d (n\<lparr>faults := fs\<rparr>) = (e, n') \<Longrightarrow>
     identity_history (insert d ds) n'"

definition holds_identity :: "u8 list \<Rightarrow> local_identity nvs \<Rightarrow> bool" where
  "holds_identity d n \<longleftrightarrow> (\<exists>i. blobs n ''identity'' = Some (Blob i) \<and> identity_valid i \<and> li_device_id i = d)"

lemma holds_identity_faults [simp]: "holds_identity d (n\<lparr>faults := fs\<rparr>) = holds_identity d n"
  by (simp add: holds_identity_def)

lemma load_holds:
  assumes "holds_identity d n" "ESP_ERR_NVS_NOT_FOUND \<notin> set (faults n)" "load_or_create_identity r n = (x, n')"
  shows "x = Inr d \<or> (\<exists>e. x = Inl e \<and> e \<noteq> ESP_OK)" "blobs n' = blobs n"
proof -
  obtain i where i: "blobs n ''identity'' = Some (Blob i)" "identity_valid i" "li_device_id i = d"
    using assms(1) by (auto simp: holds_identity_def)
  obtain e0 n0 where o: "nvs_open n = (e0, n0)" by (metis prod.exhaust)
  obtain y n2 where g: "nvs_get_blob ''identity'' n0 = (y, n2)" by (metis prod.exhaust)
  have b: "blobs n0 = blobs n" "blobs n2 = blobs n" using nvs_read_eq(1) [OF o] nvs_read_eq(3) [OF g] by simp_all
  have "set (faults n0) \<subseteq> set (faults n)" using o by (auto simp: nvs_open_def nvs_tick.simps split: list.splits)
  then have "y = Read_Full i \<or> (\<exists>e1. y = Read_Err e1 \<and> e1 \<noteq> ESP_OK \<and> e1 \<noteq> ESP_ERR_NVS_NOT_FOUND)"
    using g b(1) i(1) assms(2) by (auto simp: nvs_get_blob_def nvs_tick.simps split: prod.splits if_splits list.splits)
  then show "x = Inr d \<or> (\<exists>e. x = Inl e \<and> e \<noteq> ESP_OK)" "blobs n' = blobs n"
    using assms(3) o g i b by (auto simp: load_or_create_identity_def split: if_splits)
qed

lemma persist_holds:
  assumes "holds_identity d n" "persist_identity d' n = (e, n')"
  shows "holds_identity d' n' \<or> holds_identity d n' \<and> e \<noteq> ESP_OK"
proof -
  obtain i where i: "blobs n ''identity'' = Some (Blob i)" "identity_valid i" "li_device_id i = d"
    using assms(1) by (auto simp: holds_identity_def)
  have "li_generation i + 1 \<noteq> 0" if "li_generation i \<noteq> - 1" using that by (metis eq_neg_iff_add_eq_0)
  with persist_stored [OF assms(2) i(1,2)] i show ?thesis by (auto simp: holds_identity_def)
qed

lemma history_holds: "identity_history ds n \<Longrightarrow> \<exists>d \<in> ds. holds_identity d n"
proof (induction rule: identity_history.induct)
  case (first_boot r n d n')
  then show ?case using load_ok_stored by (auto simp: holds_identity_def)
next
  case (later_boot ds n fs r d n')
  then show ?case using load_ok_stored by (auto simp: holds_identity_def)
next
  case (failed_boot ds n fs r e n')
  then obtain d where "d \<in> ds" "holds_identity d n" by blast
  moreover from this have "blobs n' = blobs n" using load_holds(2) [of d "n\<lparr>faults := fs\<rparr>" r] failed_boot by simp
  ultimately show ?case by (auto simp: holds_identity_def)
next
  case (enrolled ds n d fs n')
  then show ?case using persist_holds [of _ "n\<lparr>faults := fs\<rparr>" d ESP_OK n'] by auto
next
  case (failed_enrolment ds n d fs e n')
  then show ?case using persist_holds [of _ "n\<lparr>faults := fs\<rparr>" d e n'] by auto
qed

text \<open>
  C31. The device keeps its identity. Through every history of boots and enrolments, each with its own storage failures, a boot gives
  the identity that was created, loaded or enrolled last (after a failed enrolment that one or the one that was to be stored) or
  fails, and never draws a new one: it writes nothing, and a boot without failures after it finds such an identity, whatever random
  numbers it would draw. (A failing call does not report a missing entry.)
\<close>

theorem identity_stable:
  assumes "identity_history ds n" and "ESP_ERR_NVS_NOT_FOUND \<notin> set fs"
    and "load_or_create_identity r (n\<lparr>faults := fs\<rparr>) = (x, n')"
  shows "(case x of Inr d \<Rightarrow> d \<in> ds | Inl e \<Rightarrow> e \<noteq> ESP_OK) \<and> blobs n' = blobs n \<and>
    (\<exists>d \<in> ds. load_or_create_identity r' (reboot n') = (Inr d, reboot n'))"
proof -
  obtain d where d: "d \<in> ds" "holds_identity d n" using history_holds [OF assms(1)] by blast
  with load_holds [of d "n\<lparr>faults := fs\<rparr>" r x n'] assms
  have x: "x = Inr d \<or> (\<exists>e. x = Inl e \<and> e \<noteq> ESP_OK)" and b: "blobs n' = blobs n" by simp_all
  with d obtain i where "blobs n' ''identity'' = Some (Blob i)" "identity_valid i" "li_device_id i = d"
    by (auto simp: holds_identity_def)
  then have "load_or_create_identity r' (reboot n') = (Inr d, reboot n')" using load_stored by blast
  with x b d(1) show ?thesis by (auto split: sum.split)
qed

definition no_identity :: "local_identity nvs" where
  "no_identity = \<lparr>blobs = Map.empty, u8s = Map.empty, faults = []\<rparr>"

text \<open>An identity is created and replaced; a boot whose read fails does not lose it.\<close>

theorem identity_stable_witness:
  "\<exists>n. identity_history {replicate 16 9} n \<and>
     fst (load_or_create_identity (replicate 16 7) (n\<lparr>faults := [ESP_OK, ESP_FAIL]\<rparr>)) = Inl ESP_FAIL \<and>
     (\<exists>n'. load_or_create_identity (replicate 16 7) (n\<lparr>faults := [ESP_OK, ESP_FAIL]\<rparr>) = (Inl ESP_FAIL, n') \<and>
        load_or_create_identity [] (reboot n') = (Inr (replicate 16 9), reboot n'))"
proof -
  let ?i = "seal_identity (version_4 (replicate 16 0)) 1"
  let ?n = "no_identity\<lparr>blobs := Map.empty(''identity'' \<mapsto> Blob ?i)\<rparr>"
  have "load_or_create_identity (replicate 16 0) no_identity = (Inr (version_4 (replicate 16 0)), ?n)"
    by (simp add: load_or_create_identity_def no_identity_def nvs_fault_free Let_def)
  then have "identity_history {version_4 (replicate 16 0)} ?n" by (rule first_boot)
  moreover have "\<exists>n2. persist_identity (replicate 16 9) (?n\<lparr>faults := []\<rparr>) = (ESP_OK, n2)"
    by (simp add: persist_identity_def no_identity_def nvs_fault_free)
  ultimately obtain n where n: "identity_history {replicate 16 9} n" using enrolled by blast
  have "load_or_create_identity (replicate 16 7) (n\<lparr>faults := [ESP_OK, ESP_FAIL]\<rparr>) = (Inl ESP_FAIL, n\<lparr>faults := []\<rparr>)"
    by (simp add: load_or_create_identity_def nvs_open_def nvs_get_blob_def nvs_tick.simps)
  with identity_stable [OF n _ this, of "[]"] n show ?thesis by auto
qed

subsection \<open>Recovery takes a deliberate press\<close>

lemma prefix_replicate_high: "low < k \<Longrightarrow> \<not> prefix (replicate k False) (replicate low False @ True # xs)"
proof
  assume "low < k" "prefix (replicate k False) (replicate low False @ True # xs)"
  then have "replicate k False ! low = (replicate low False @ True # xs) ! low"
    by (metis length_replicate nth_append prefix_def)
  with \<open>low < k\<close> show False by (simp add: nth_append)
qed

lemma sublist_after_high:
  "low < k \<Longrightarrow> sublist (replicate k False) (replicate low False @ True # xs) = sublist (replicate k False) xs"
proof (induction low)
  case 0
  then show ?case using prefix_replicate_high [of 0 k xs] by (simp add: sublist_Cons_right)
next
  case (Suc low)
  then show ?case using prefix_replicate_high [of "Suc low" k xs] by (simp add: sublist_Cons_right)
qed

lemma replicate_shift: "replicate k x @ x # xs = x # replicate k x @ xs"
  by (induction k) simp_all

lemma recovery_loop_window:
  "low < PM_RECOVERY_DEBOUNCE_SAMPLES \<Longrightarrow> recovery_loop deadline low rs =
     sublist (replicate PM_RECOVERY_DEBOUNCE_SAMPLES False)
       (replicate low False @ map snd (takeWhile (\<lambda>(now, _). now < deadline) rs))"
proof (induction deadline low rs rule: recovery_loop.induct)
  case (1 deadline low)
  then show ?case by (auto dest: sublist_length_le)
next
  case (2 deadline low now high rs)
  let ?k = PM_RECOVERY_DEBOUNCE_SAMPLES
  let ?t = "map snd (takeWhile (\<lambda>(now, _). now < deadline) rs)"
  consider (late) "\<not> now < deadline" | (up) "now < deadline" high | (down) "now < deadline" "\<not> high" "low + 1 < ?k"
    | (enough) "now < deadline" "\<not> high" "low + 1 = ?k" using "2.prems" by linarith
  then show ?case
  proof cases
    case late
    with "2.prems" show ?thesis by (auto dest: sublist_length_le)
  next
    case up
    have "0 < ?k" by (simp add: PM_RECOVERY_DEBOUNCE_SAMPLES_def)
    with up 2 sublist_after_high [OF "2.prems", of ?t] show ?thesis by simp
  next
    case down
    with 2 show ?thesis by (simp add: replicate_shift)
  next
    case enough
    then have "sublist (replicate ?k False) (replicate low False @ False # ?t)"
      by (metis append_Cons replicate_Suc replicate_shift Suc_eq_plus1 sublist_append_rightI)
    with enough show ?thesis by simp
  qed
qed

text \<open>
  Recovery takes a deliberate press: an unprovisioned device is never asked, and a provisioned one enters
  recovery exactly when five consecutive readings of the button inside the window of three seconds find it
  pressed.
\<close>

theorem recovery_needs_held_button:
  "wait_for_physical_recovery_request gpio provisioned start readings \<longleftrightarrow>
     gpio = ESP_OK \<and> provisioned \<and>
     sublist [False, False, False, False, False]
       (map snd (takeWhile (\<lambda>(now, _). now < start + 3000000) readings))"
proof -
  have "recovery_loop (start + 3000000) 0 readings =
      sublist (replicate 5 False) (map snd (takeWhile (\<lambda>(now, _). now < start + 3000000) readings))"
    using recovery_loop_window [of 0] by (simp add: PM_RECOVERY_DEBOUNCE_SAMPLES_def)
  moreover have "replicate 5 False = [False, False, False, False, False]" by (simp add: eval_nat_numeral)
  ultimately show ?thesis
    by (auto simp: wait_for_physical_recovery_request_def PM_RECOVERY_WINDOW_MS_def)
qed

end
