(* ===== verification/PM_Provisioning.thy ===== *)
theory PM_Provisioning
  imports "HOL-Library.Monad_Syntax" PM_Config PM_Json PM_Protocol
begin

text \<open>
  The provisioning protocol over USB of pm_provisioning.c: the framer that cuts the byte stream into lines, the
  session with its handler of one request line, and the task that answers lines and restarts the device.

  Request lines are read through the record \<open>cjson\<close>. A response object is the list of its members in order;
  \<open>cJSON_PrintPreallocated\<close> is a parameter that gives its result and the text it leaves in the buffer. Whether an object could be
  allocated is an argument, members are taken to be added; a number is the integer the code passes, before cJSON rounds it to a double. The session's callbacks are flags for their presence in
  the session and their behaviour in the environment of a line. \<open>secure_zero\<close> of locals, of parsed requests and of the task's buffers is not
  modelled, that of the session is.
\<close>

subsection \<open>Lines\<close>

definition PM_COM_PROTOCOL :: string where "PM_COM_PROTOCOL = ''pm-com/1.0.0''"
definition PM_COM_LINE_MAX :: nat where "PM_COM_LINE_MAX = 8192"
definition PM_ENROLLMENT_TOKEN_MAX :: nat where "PM_ENROLLMENT_TOKEN_MAX = 192"

record pm_com_framer =
  used :: nat
  discarding_oversized_line :: bool

datatype pm_com_frame_result = PM_COM_FRAME_NONE | PM_COM_FRAME_READY | PM_COM_FRAME_OVERSIZED

definition zero_framer :: pm_com_framer where
  "zero_framer = \<lparr>used = 0, discarding_oversized_line = False\<rparr>"

text \<open>The buffer \<open>line\<close> has \<open>line_capacity\<close> elements; a store outside it would leave the list unchanged.\<close>

definition pm_provisioning_framer_push ::
    "pm_com_framer \<Rightarrow> char \<Rightarrow> char list \<Rightarrow> pm_com_frame_result \<times> pm_com_framer \<times> char list" where
  "pm_provisioning_framer_push f byte line =
     (if length line < 2 then (PM_COM_FRAME_NONE, f, line)
      else if byte = CHR 0x0A
      then (if discarding_oversized_line f
            then (PM_COM_FRAME_NONE, zero_framer, replicate (length line) NUL)
            else (PM_COM_FRAME_READY, f\<lparr>used := 0\<rparr>, line[used f := NUL]))
      else if byte = CHR 0x0D \<or> discarding_oversized_line f then (PM_COM_FRAME_NONE, f, line)
      else if used f + 1 < length line
      then (PM_COM_FRAME_NONE, f\<lparr>used := used f + 1\<rparr>, line[used f := byte])
      else (PM_COM_FRAME_OVERSIZED, \<lparr>used = 0, discarding_oversized_line = True\<rparr>, replicate (length line) NUL))"

subsection \<open>Sessions\<close>

datatype pm_provisioning_test_stage =
    PM_PROVISIONING_TEST_WIFI | PM_PROVISIONING_TEST_IPV4 | PM_PROVISIONING_TEST_DNS
  | PM_PROVISIONING_TEST_TLS | PM_PROVISIONING_TEST_ENROLLMENT

record pm_provisioning_session =
  ps_active :: pm_config
  ps_candidate :: pm_config
  ps_transaction :: pm_config_transaction
  enrollment_token :: "char list"
  factory_token :: "u8 list"
  factory_token_expires_us :: int
  candidate_present :: bool
  tests_passed :: bool
  reboot_requested :: bool
  physically_authorized :: bool
  has_test :: bool
  has_factory_reset :: bool
  has_safe_reboot_prepare :: bool

definition zero_token :: "char list" where "zero_token = replicate (PM_ENROLLMENT_TOKEN_MAX + 1) NUL"

definition pm_provisioning_session_init :: "pm_config \<Rightarrow> bool \<Rightarrow> bool \<Rightarrow> bool \<Rightarrow> bool \<Rightarrow> pm_provisioning_session" where
  "pm_provisioning_session_init active authorized test reset reboot_prepare =
     \<lparr>ps_active = active, ps_candidate = zero_config, ps_transaction = zero_transaction, enrollment_token = zero_token,
      factory_token = replicate 16 0, factory_token_expires_us = 0, candidate_present = False, tests_passed = False,
      reboot_requested = False, physically_authorized = authorized, has_test = test, has_factory_reset = reset,
      has_safe_reboot_prepare = reboot_prepare\<rparr>"

definition clear_candidate_state ::
    "pm_provisioning_session \<times> config_env \<Rightarrow> pm_provisioning_session \<times> config_env" where
  "clear_candidate_state = (\<lambda>(s, ce).
     case pm_config_abort (ps_transaction s) ce of (t, ce') \<Rightarrow>
       (s\<lparr>ps_transaction := t, ps_candidate := zero_config, enrollment_token := zero_token, candidate_present := False,
          tests_passed := False\<rparr>, ce'))"

subsection \<open>Reading a candidate\<close>

text \<open>\<open>snprintf\<close> of a string that fits: what stood behind its NUL stays.\<close>

definition overwrite_str :: "char list \<Rightarrow> string \<Rightarrow> char list" where
  "overwrite_str destination v = cstr v @ [NUL] @ drop (Suc (length (cstr v))) destination"

definition copy_json_string :: "'j cjson \<Rightarrow> 'j \<Rightarrow> string \<Rightarrow> char list \<Rightarrow> bool \<Rightarrow> char list option" where
  "copy_json_string J object name destination required =
     (case cJSON_GetObjectItem J object name of
        None \<Rightarrow> if required then None else Some destination
      | Some item \<Rightarrow>
        (case cJSON_valuestring J item of
           None \<Rightarrow> None
         | Some v \<Rightarrow> if length (cstr v) \<ge> length destination then None else Some (overwrite_str destination v)))"

definition get_u32 :: "'j cjson \<Rightarrow> 'j \<Rightarrow> string \<Rightarrow> u32 \<Rightarrow> bool \<Rightarrow> u32 option" where
  "get_u32 J object name destination required =
     (case cJSON_GetObjectItem J object name of
        None \<Rightarrow> if required then None else Some destination
      | Some item \<Rightarrow>
        (case cJSON_valuedouble J item of
           None \<Rightarrow> None
         | Some d \<Rightarrow> if d < 0 \<or> d > 4294967295 then None else Some (word_of_int \<lfloor>d\<rfloor>)))"

definition static_ipv4 :: "'j cjson \<Rightarrow> 'j \<Rightarrow> pm_config \<Rightarrow> pm_config option" where
  "static_ipv4 J config c =
     (if ipv4_mode c \<noteq> PM_IPV4_STATIC then Some c
      else do {
        address \<leftarrow> get_u32 J config ''ipv4_address'' (ipv4_address c) True;
        gateway \<leftarrow> get_u32 J config ''ipv4_gateway'' (ipv4_gateway c) True;
        netmask \<leftarrow> get_u32 J config ''ipv4_netmask'' (ipv4_netmask c) True;
        primary \<leftarrow> get_u32 J config ''dns_primary'' (dns_primary c) True;
        secondary \<leftarrow> get_u32 J config ''dns_secondary'' (dns_secondary c) False;
        Some (c\<lparr>ipv4_address := address, ipv4_gateway := gateway, ipv4_netmask := netmask, dns_primary := primary,
                dns_secondary := secondary\<rparr>)
      })"

definition candidate_fields :: "'j cjson \<Rightarrow> 'j \<Rightarrow> pm_config \<Rightarrow> (pm_config \<times> char list) option" where
  "candidate_fields J config active = do {
     friendly \<leftarrow> copy_json_string J config ''friendly_name'' (friendly_name active) True;
     ssid \<leftarrow> copy_json_string J config ''wifi_ssid'' (wifi_ssid active) True;
     password \<leftarrow> copy_json_string J config ''wifi_password'' (wifi_password active) True;
     origin \<leftarrow> copy_json_string J config ''server_origin'' (server_origin active) True;
     ca \<leftarrow> copy_json_string J config ''ca_pem'' (ca_pem active) True;
     zone \<leftarrow> copy_json_string J config ''timezone'' (timezone active) True;
     token \<leftarrow> copy_json_string J config ''enrollment_token'' zero_token True;
     mode \<leftarrow> get_u32 J config ''ipv4_mode'' 0 True;
     ct_rating \<leftarrow> get_u32 J config ''ct_rating_a'' 0 True;
     variant \<leftarrow> (if mode > 1 \<or> ct_rating = 0 \<or> ct_rating > 100 then None
                 else Option.bind (cJSON_GetObjectItem J config ''pzem_variant'') (cJSON_valuestring J));
     c \<leftarrow> (if cstr variant \<noteq> ''pzem-004t-v4-classic'' then None
           else static_ipv4 J config
             (active\<lparr>schema_version := 1, cfg_generation := cfg_generation active + 1, friendly_name := friendly,
                     wifi_ssid := ssid, wifi_password := password, server_origin := origin, ca_pem := ca, timezone := zone,
                     ipv4_mode := (if mode = 1 then PM_IPV4_STATIC else PM_IPV4_DHCP), ct_rating_a := ucast ct_rating,
                     meter_variant := PM_METER_PZEM004T_V4_CLASSIC\<rparr>));
     let sealed = c\<lparr>cfg_crc32 := config_crc c\<rparr> in
       if pm_config_validate sealed True \<noteq> ESP_OK then None else Some (sealed, token)
   }"

definition parse_candidate ::
    "'j cjson \<Rightarrow> 'j option \<Rightarrow> pm_provisioning_session \<times> config_env \<Rightarrow> bool \<times> pm_provisioning_session \<times> config_env" where
  "parse_candidate J config st =
     (case clear_candidate_state st of (s, ce) \<Rightarrow>
        case config of
          None \<Rightarrow> (False, s, ce)
        | Some object \<Rightarrow>
          if \<not> cJSON_IsObject J object \<or> cfg_generation (ps_active s) = - 1 then (False, s, ce)
          else case candidate_fields J object (ps_active s) of
            None \<Rightarrow> (False, clear_candidate_state (s, ce))
          | Some (c, token) \<Rightarrow> (True, s\<lparr>ps_candidate := c, enrollment_token := token, candidate_present := True\<rparr>, ce))"

subsection \<open>Requests\<close>

datatype com_value = Com_String string | Com_Bool bool | Com_Number int

type_synonym com_object = "(string \<times> com_value) list"

record 'j line_env =
  le_json :: "'j cjson"
  le_object :: bool
  le_print :: "com_object \<Rightarrow> nat \<Rightarrow> bool \<times> string"
  le_random :: "u8 list"
  le_now :: int
  le_version :: string
  le_test :: "pm_provisioning_test_stage \<Rightarrow> pm_config \<Rightarrow> char list \<Rightarrow> esp_err \<times> pm_config"
  le_factory_reset :: "config_env \<Rightarrow> esp_err \<times> config_env"
  le_safe_reboot_prepare :: esp_err
  le_begin_alloc :: bool
  le_commit_alloc :: bool

text \<open>What a request leaves to answer: the result, the member \<open>ok\<close>, the further members, and whether to restart.\<close>

record reply =
  rp_result :: esp_err
  rp_ok :: bool
  rp_fields :: com_object
  rp_reboot :: bool

definition accept_with :: "com_object \<Rightarrow> reply" where
  "accept_with members = \<lparr>rp_result = ESP_OK, rp_ok = True, rp_fields = members, rp_reboot = False\<rparr>"

definition refuse :: "esp_err \<Rightarrow> string \<Rightarrow> com_object \<Rightarrow> reply" where
  "refuse e reason members = \<lparr>rp_result = e, rp_ok = False, rp_fields = (''error'', Com_String reason) # members, rp_reboot = False\<rparr>"

definition error_number :: "esp_err \<Rightarrow> com_value" where
  "error_number e = Com_Number (sint (esp_err_code e))"

definition fingerprint :: "psa_hash \<Rightarrow> u8 list \<Rightarrow> string" where
  "fingerprint psa v = pm_hex_lower (take 8 (pm_sha256 psa v))"

definition op_hello :: "psa_hash \<Rightarrow> 'j line_env \<Rightarrow> pm_provisioning_session \<Rightarrow> reply" where
  "op_hello psa env s = accept_with
     [(''device_fingerprint'', Com_String (fingerprint psa (device_id (ps_active s)))),
      (''firmware'', Com_String (le_version env)), (''provisioned'', Com_Bool (cfg_generation (ps_active s) \<noteq> 0)),
      (''physical_recovery'', Com_Bool (physically_authorized s)),
      (''sequence_floor'', Com_Number (uint (sequence_floor (ps_active s))))]"

definition op_begin_config ::
    "psa_hash \<Rightarrow> 'j line_env \<Rightarrow> 'j option \<Rightarrow> pm_provisioning_session \<times> config_env \<Rightarrow> reply \<times> pm_provisioning_session \<times> config_env" where
  "op_begin_config psa env config st =
     (case parse_candidate (le_json env) config st of (parsed, s1, ce1) \<Rightarrow>
      case (if parsed then pm_config_begin psa (le_begin_alloc env) (ps_candidate s1) (ps_transaction s1) ce1
            else (ESP_ERR_INVALID_ARG, ps_transaction s1, ce1)) of (e, t, ce2) \<Rightarrow>
        if e \<noteq> ESP_OK
        then (refuse ESP_ERR_INVALID_ARG ''candidate_invalid_or_write_failed'' [],
              clear_candidate_state (s1\<lparr>ps_transaction := t\<rparr>, ce2))
        else (accept_with [(''stage'', Com_String ''readback_verified'')], s1\<lparr>ps_transaction := t\<rparr>, ce2))"

fun run_tests ::
    "(pm_provisioning_test_stage \<Rightarrow> pm_config \<Rightarrow> char list \<Rightarrow> esp_err \<times> pm_config) \<Rightarrow> pm_provisioning_test_stage list \<Rightarrow>
      pm_config \<Rightarrow> char list \<Rightarrow> esp_err \<times> pm_config" where
  "run_tests test [] c token = (ESP_OK, c)"
| "run_tests test (st # sts) c token =
     (case test st c token of (e, c') \<Rightarrow> if e = ESP_OK then run_tests test sts c' token else (e, c'))"

definition test_stages :: "pm_provisioning_test_stage list" where
  "test_stages = [PM_PROVISIONING_TEST_WIFI, PM_PROVISIONING_TEST_IPV4, PM_PROVISIONING_TEST_DNS, PM_PROVISIONING_TEST_TLS,
     PM_PROVISIONING_TEST_ENROLLMENT]"

definition op_test_config ::
    "psa_hash \<Rightarrow> 'j line_env \<Rightarrow> pm_provisioning_session \<times> config_env \<Rightarrow> reply \<times> pm_provisioning_session \<times> config_env" where
  "op_test_config psa env = (\<lambda>(s, ce).
     case (if \<not> candidate_present s \<or> \<not> has_test s then (ESP_ERR_INVALID_STATE, ps_candidate s)
           else run_tests (le_test env) test_stages (ps_candidate s) (enrollment_token s)) of (e1, c) \<Rightarrow>
     let sealed = c\<lparr>cfg_crc32 := config_crc c\<rparr> in
     case (if e1 \<noteq> ESP_OK then (e1, s\<lparr>tests_passed := False, ps_candidate := c\<rparr>, ce)
           else case pm_config_begin psa (le_begin_alloc env) sealed (ps_transaction s) ce of (e2, t, ce2) \<Rightarrow>
             case (if e2 = ESP_OK then pm_config_mark_network_tested t ce2 else (e2, t)) of (e3, t') \<Rightarrow>
               (e3, s\<lparr>tests_passed := (e3 = ESP_OK), ps_candidate := sealed, ps_transaction := t'\<rparr>, ce2)) of (e, s2, ce3) \<Rightarrow>
       if e \<noteq> ESP_OK
       then (refuse e ''configuration_test_failed'' [(''code'', error_number e)], clear_candidate_state (s2, ce3))
       else (accept_with [(''stage'', Com_String ''network_tls_enrollment_verified'')], s2, ce3))"

definition op_commit_config ::
    "psa_hash \<Rightarrow> 'j line_env \<Rightarrow> pm_provisioning_session \<times> config_env \<Rightarrow> reply \<times> pm_provisioning_session \<times> config_env" where
  "op_commit_config psa env = (\<lambda>(s, ce).
     case (if tests_passed s then pm_config_commit psa (le_commit_alloc env) (ps_transaction s) ce
           else (ESP_ERR_INVALID_STATE, ps_transaction s, ce)) of (e, t, ce1) \<Rightarrow>
       let s1 = s\<lparr>ps_transaction := t\<rparr> in
       if e = ESP_OK
       then (accept_with [(''stage'', Com_String ''committed'')], clear_candidate_state (s1\<lparr>ps_active := ps_candidate s1\<rparr>, ce1))
       else (refuse e ''commit_requires_successful_tests'' [], clear_candidate_state (s1, ce1)))"

definition op_rollback_config ::
    "pm_provisioning_session \<times> config_env \<Rightarrow> reply \<times> pm_provisioning_session \<times> config_env" where
  "op_rollback_config st = (accept_with [(''stage'', Com_String ''prior_config_retained'')], clear_candidate_state st)"

definition factory_reset_warning :: string where
  "factory_reset_warning = ''factory reset revokes configuration; sequence identity is preserved unless separately authorized''"

definition op_factory_reset_prepare ::
    "'j line_env \<Rightarrow> pm_provisioning_session \<times> config_env \<Rightarrow> reply \<times> pm_provisioning_session \<times> config_env" where
  "op_factory_reset_prepare env = (\<lambda>(s, ce).
     if \<not> physically_authorized s then (refuse ESP_ERR_INVALID_STATE ''physical_authorization_required'' [], s, ce)
     else (accept_with [(''confirmation_token'', Com_String (pm_hex_lower (le_random env))), (''warning'', Com_String factory_reset_warning)],
           s\<lparr>factory_token := le_random env, factory_token_expires_us := le_now env + 60000000\<rparr>, ce))"

text \<open>The conditions under which the reset callback runs.\<close>

definition factory_reset_allowed :: "int \<Rightarrow> string option \<Rightarrow> pm_provisioning_session \<Rightarrow> bool" where
  "factory_reset_allowed now token s \<longleftrightarrow> physically_authorized s \<and>
     (case token of None \<Rightarrow> False
      | Some v \<Rightarrow> length (cstr v) = 32 \<and> now \<le> factory_token_expires_us s \<and>
          pm_constant_time_equal (chars_bytes (pm_hex_lower (factory_token s))) (chars_bytes (cstr v)) 32) \<and>
     has_factory_reset s"

definition op_factory_reset_commit ::
    "'j line_env \<Rightarrow> string option \<Rightarrow> pm_provisioning_session \<times> config_env \<Rightarrow> reply \<times> pm_provisioning_session \<times> config_env" where
  "op_factory_reset_commit env token = (\<lambda>(s, ce).
     case (if factory_reset_allowed (le_now env) token s then le_factory_reset env ce else (ESP_ERR_INVALID_STATE, ce)) of (e, ce') \<Rightarrow>
       (if e \<noteq> ESP_OK then refuse e ''factory_reset_rejected'' [] else accept_with [],
        s\<lparr>factory_token := replicate 16 0, factory_token_expires_us := 0\<rparr>, ce'))"

definition op_safe_reboot ::
    "'j line_env \<Rightarrow> pm_provisioning_session \<times> config_env \<Rightarrow> reply \<times> pm_provisioning_session \<times> config_env" where
  "op_safe_reboot env st =
     (case clear_candidate_state st of (s, ce) \<Rightarrow>
        (if \<not> has_safe_reboot_prepare s then refuse ESP_ERR_INVALID_STATE ''safe_reboot_unavailable'' []
         else if le_safe_reboot_prepare env = ESP_OK
         then (accept_with [(''stage'', Com_String ''ready_for_safe_reboot'')])\<lparr>rp_reboot := True\<rparr>
         else refuse (le_safe_reboot_prepare env) ''safe_reboot_preparation_failed''
                [(''code'', error_number (le_safe_reboot_prepare env))], s, ce))"

text \<open>The string member \<open>name\<close> of a request.\<close>

definition request_string :: "'j cjson \<Rightarrow> 'j \<Rightarrow> string \<Rightarrow> string option" where
  "request_string J request name = Option.bind (cJSON_GetObjectItem J request name) (cJSON_valuestring J)"

definition run_operation ::
    "psa_hash \<Rightarrow> 'j line_env \<Rightarrow> 'j \<Rightarrow> string \<Rightarrow> pm_provisioning_session \<times> config_env \<Rightarrow> reply \<times> pm_provisioning_session \<times> config_env" where
  "run_operation psa env request op st =
     (if op = ''hello'' \<or> op = ''status'' then (op_hello psa env (fst st), st)
      else if op = ''begin_config'' then op_begin_config psa env (cJSON_GetObjectItem (le_json env) request ''config'') st
      else if op = ''test_config'' then op_test_config psa env st
      else if op = ''commit_config'' then op_commit_config psa env st
      else if op = ''rollback_config'' then op_rollback_config st
      else if op = ''factory_reset_prepare'' then op_factory_reset_prepare env st
      else if op = ''factory_reset_commit''
      then op_factory_reset_commit env (request_string (le_json env) request ''confirmation_token'') st
      else if op = ''safe_reboot'' then op_safe_reboot env st
      else (refuse ESP_ERR_NOT_SUPPORTED ''unknown_operation'' [], st))"

definition base_response :: "'j cjson \<Rightarrow> 'j \<Rightarrow> bool \<Rightarrow> com_object" where
  "base_response J request ok =
     [(''protocol'', Com_String PM_COM_PROTOCOL),
      (''id'', Com_String (case request_string J request ''id'' of Some v \<Rightarrow> v | None \<Rightarrow> ''invalid'')), (''ok'', Com_Bool ok)]"

definition render_response :: "'j line_env \<Rightarrow> com_object \<Rightarrow> string \<Rightarrow> nat \<Rightarrow> esp_err \<times> string" where
  "render_response env members response response_size =
     (if \<not> le_object env \<or> response_size = 0 then (ESP_ERR_INVALID_ARG, response)
      else case le_print env members response_size of (printed, out) \<Rightarrow>
        if \<not> printed \<or> length (cstr out) + 2 > response_size then (ESP_ERR_INVALID_SIZE, out)
        else (ESP_OK, cstr out @ [CHR 0x0A]))"

definition quoted :: "string \<Rightarrow> string" where "quoted s = [CHR 0x22] @ s @ [CHR 0x22]"

definition error_line :: "string \<Rightarrow> string" where
  "error_line reason = ''{'' @ quoted ''protocol'' @ '':'' @ quoted PM_COM_PROTOCOL @ '','' @ quoted ''id'' @ '':'' @ quoted ''invalid'' @ '','' @
     quoted ''ok'' @ '':false,'' @ quoted ''error'' @ '':'' @ quoted reason @ ''}'' @ [CHR 0x0A]"

definition pm_provisioning_handle_line ::
    "psa_hash \<Rightarrow> 'j line_env \<Rightarrow> string \<Rightarrow> string \<Rightarrow> nat \<Rightarrow> pm_provisioning_session \<times> config_env \<Rightarrow>
      esp_err \<times> string \<times> pm_provisioning_session \<times> config_env" where
  "pm_provisioning_handle_line psa env line response response_size st =
     (if length (cstr line) \<ge> PM_COM_LINE_MAX then (ESP_ERR_INVALID_ARG, response, st)
      else case cJSON_Parse (le_json env) (cstr line) of
        None \<Rightarrow> (ESP_ERR_INVALID_ARG, if response_size = 0 then response else take (response_size - 1) (error_line ''invalid_json''), st)
      | Some request \<Rightarrow>
        (case (request_string (le_json env) request ''protocol'', request_string (le_json env) request ''op'') of
           (Some proto, Some op) \<Rightarrow>
             if cstr proto \<noteq> PM_COM_PROTOCOL
             then (case render_response env (base_response (le_json env) request False @
                     [(''error'', Com_String ''unsupported_protocol_or_operation'')]) response response_size of (e, out) \<Rightarrow> (e, out, st))
             else (case run_operation psa env request (cstr op) st of (rp, s, ce) \<Rightarrow>
                   case render_response env (base_response (le_json env) request (rp_ok rp) @ rp_fields rp) response response_size of (e, out) \<Rightarrow>
                     (if e = ESP_OK then rp_result rp else e, out,
                      s\<lparr>reboot_requested := (reboot_requested s \<or> e = ESP_OK \<and> rp_reboot rp)\<rparr>, ce))
         | _ \<Rightarrow>
             (case render_response env (base_response (le_json env) request False @
                [(''error'', Com_String ''unsupported_protocol_or_operation'')]) response response_size of (e, out) \<Rightarrow> (e, out, st))))"

subsection \<open>The task\<close>

definition pm_provisioning_prepare_reboot_barrier :: esp_err where
  "pm_provisioning_prepare_reboot_barrier = ESP_OK"

definition pm_provisioning_reboot_tx_complete :: "bool \<Rightarrow> nat \<Rightarrow> int \<Rightarrow> esp_err \<Rightarrow> bool" where
  "pm_provisioning_reboot_tx_complete requested response_length written drain_result \<longleftrightarrow>
     requested \<and> response_length > 0 \<and> written = int response_length \<and> drain_result = ESP_OK"

record usb_task_state =
  ut_framer :: pm_com_framer
  ut_line :: "char list"
  ut_session :: pm_provisioning_session
  ut_config :: config_env

record 'j usb_env =
  ue_byte :: char
  ue_line :: "'j line_env"
  ue_written :: "string \<Rightarrow> int"
  ue_drain :: esp_err

text \<open>One byte received: what is sent to the host, whether the device restarts, and the state.\<close>

definition usb_task :: "psa_hash \<Rightarrow> 'j usb_env \<Rightarrow> usb_task_state \<Rightarrow> string option \<times> bool \<times> usb_task_state" where
  "usb_task psa env u =
     (case pm_provisioning_framer_push (ut_framer u) (ue_byte env) (ut_line u) of (frame, f, line) \<Rightarrow>
      let u1 = u\<lparr>ut_framer := f, ut_line := line\<rparr> in
      case frame of
        PM_COM_FRAME_NONE \<Rightarrow> (None, False, u1)
      | PM_COM_FRAME_OVERSIZED \<Rightarrow> (Some (error_line ''line_too_large''), False, u1)
      | PM_COM_FRAME_READY \<Rightarrow>
          (case pm_provisioning_handle_line psa (ue_line env) line [] PM_COM_LINE_MAX (ut_session u1, ut_config u1) of (_, response, s, ce) \<Rightarrow>
             let reboot_now = pm_provisioning_reboot_tx_complete (reboot_requested s) (length (cstr response))
                                (ue_written env (cstr response)) (ue_drain env)
             in (Some (cstr response), reboot_now,
                 u1\<lparr>ut_line := replicate (length line) NUL, ut_session := s\<lparr>reboot_requested := False\<rparr>, ut_config := ce\<rparr>)))"

record usb_platform =
  up_alloc :: bool
  up_install :: esp_err
  up_task :: bool

text \<open>Whether the driver stays installed, and the task if it was created.\<close>

definition pm_provisioning_start_usb ::
    "usb_platform \<Rightarrow> pm_provisioning_session \<Rightarrow> config_env \<Rightarrow> esp_err \<times> bool \<times> usb_task_state option" where
  "pm_provisioning_start_usb p s ce =
     (if \<not> up_alloc p then (ESP_ERR_NO_MEM, False, None)
      else if up_install p \<noteq> ESP_OK \<and> up_install p \<noteq> ESP_ERR_INVALID_STATE then (up_install p, False, None)
      else if \<not> up_task p then (ESP_ERR_NO_MEM, False, None)
      else (ESP_OK, up_install p = ESP_OK,
            Some \<lparr>ut_framer = zero_framer, ut_line = replicate PM_COM_LINE_MAX NUL, ut_session = s, ut_config = ce\<rparr>))"

subsection \<open>The framer cuts the stream into lines\<close>

text \<open>The frames of a byte stream: \<open>Some\<close> line, or \<open>None\<close> for a line that did not fit.\<close>

fun frame_run :: "pm_com_framer \<Rightarrow> char list \<Rightarrow> char list \<Rightarrow> string option list" where
  "frame_run f line [] = []"
| "frame_run f line (b # bs) =
     (case pm_provisioning_framer_push f b line of (r, f', line') \<Rightarrow>
        (case r of PM_COM_FRAME_NONE \<Rightarrow> [] | PM_COM_FRAME_READY \<Rightarrow> [Some (cstr line')] | PM_COM_FRAME_OVERSIZED \<Rightarrow> [None]) @
        frame_run f' line' bs)"

definition framer_ok :: "pm_com_framer \<Rightarrow> char list \<Rightarrow> bool" where
  "framer_ok f line \<longleftrightarrow> used f < length line"

lemma framer_push_ok:
  "framer_ok f line \<Longrightarrow> pm_provisioning_framer_push f b line = (r, f', line') \<Longrightarrow> framer_ok f' line' \<and> length line' = length line"
  by (auto simp: framer_ok_def pm_provisioning_framer_push_def zero_framer_def split: if_splits)

lemma cstr_terminated: "k < length line \<Longrightarrow> cstr (line[k := NUL]) = cstr (take k line)"
proof -
  assume k: "k < length line"
  have "line[k := NUL] = take k line @ NUL # drop (Suc k) line" using k by (simp add: upd_conv_take_nth_drop)
  then show ?thesis unfolding cstr_def by (simp add: takeWhile_tail)
qed

lemma discard_line:
  assumes "discarding_oversized_line f" "CHR 0x0A \<notin> set l" "2 \<le> length line"
  shows "frame_run f line (l @ CHR 0x0A # bs) = frame_run zero_framer (replicate (length line) NUL) bs"
  using assms by (induction l) (auto simp: pm_provisioning_framer_push_def)

lemma collect_line:
  assumes "\<not> discarding_oversized_line f" "used f < length line" "CHR 0x0A \<notin> set l" "2 \<le> length line"
  shows "\<exists>line'. length line' = length line \<and> frame_run f line (l @ CHR 0x0A # bs) =
    (let t = take (used f) line @ filter (\<lambda>c. c \<noteq> CHR 0x0D) l in if length t < length line then Some (cstr t) else None) #
    frame_run zero_framer line' bs"
  using assms
proof (induction l arbitrary: f line)
  case Nil
  have "f\<lparr>used := 0\<rparr> = zero_framer" using Nil.prems(1) by (cases f) (simp add: zero_framer_def)
  then show ?case
    using Nil.prems cstr_terminated [of "used f" line]
    by (intro exI [of _ "line[used f := NUL]"]) (simp add: pm_provisioning_framer_push_def Let_def)
next
  case (Cons c l)
  have nl: "c \<noteq> CHR 0x0A" "CHR 0x0A \<notin> set l" using Cons.prems(3) by auto
  consider (cr) "c = CHR 0x0D" | (fit) "c \<noteq> CHR 0x0D" "used f + 1 < length line" | (over) "c \<noteq> CHR 0x0D" "\<not> used f + 1 < length line" by blast
  then show ?case
  proof cases
    case cr
    with Cons.IH [of f line] Cons.prems(1,2,4) nl show ?thesis by (simp add: pm_provisioning_framer_push_def)
  next
    case fit
    let ?f = "f\<lparr>used := used f + 1\<rparr>" and ?line = "line[used f := c]"
    have t: "take (used ?f) ?line = take (used f) line @ [c]"
      using fit(2) by (simp add: take_Suc_conv_app_nth)
    from Cons.IH [of ?f ?line, unfolded t] Cons.prems(1,2,4) nl fit show ?thesis by (simp add: pm_provisioning_framer_push_def)
  next
    case over
    have "\<not> length (take (used f) line @ filter (\<lambda>c. c \<noteq> CHR 0x0D) (c # l)) < length line" using over Cons.prems(2) by simp
    with over Cons.prems(1,2,4) nl show ?thesis
      by (intro exI [of _ "replicate (length line) NUL"])
         (simp add: pm_provisioning_framer_push_def discard_line Let_def del: length_append filter.simps)
  qed
qed

text \<open>
  C29. The framer delivers exactly the lines that were sent. Whatever bytes arrive and however they are
  chunked, each line ended by a line feed gives one frame, in order: the line without its carriage returns as a C string if
  it fits the buffer, one report of an oversized line otherwise, of which nothing else is delivered. The write index stays inside the buffer.
\<close>

theorem framer_delivers_lines:
  assumes "2 \<le> length line" "\<forall>l \<in> set ls. CHR 0x0A \<notin> set l"
  shows "frame_run zero_framer line (concat (map (\<lambda>l. l @ [CHR 0x0A]) ls)) =
      map (\<lambda>l. let t = filter (\<lambda>c. c \<noteq> CHR 0x0D) l in if length t < length line then Some (cstr t) else None) ls \<and>
    (\<forall>f line b r f' line'. framer_ok f line \<and> pm_provisioning_framer_push f b line = (r, f', line') \<longrightarrow> framer_ok f' line')"
proof -
  have "frame_run zero_framer line (concat (map (\<lambda>l. l @ [CHR 0x0A]) ls)) =
      map (\<lambda>l. let t = filter (\<lambda>c. c \<noteq> CHR 0x0D) l in if length t < length line then Some (cstr t) else None) ls"
    using assms
  proof (induction ls arbitrary: line)
    case (Cons l ls)
    have "used zero_framer < length line" using Cons.prems(1) by (auto simp: zero_framer_def)
    then obtain line' where "length line' = length line" and
      "frame_run zero_framer line (l @ CHR 0x0A # concat (map (\<lambda>l. l @ [CHR 0x0A]) ls)) =
        (let t = filter (\<lambda>c. c \<noteq> CHR 0x0D) l in if length t < length line then Some (cstr t) else None) #
        frame_run zero_framer line' (concat (map (\<lambda>l. l @ [CHR 0x0A]) ls))"
      using collect_line [of zero_framer line l "concat (map (\<lambda>l. l @ [CHR 0x0A]) ls)"] Cons.prems by (simp add: zero_framer_def) blast
    with Cons show ?case by simp
  qed simp
  with framer_push_ok show ?thesis by blast
qed

theorem framer_delivers_lines_witness:
  "frame_run zero_framer (replicate 4 NUL) (''ab'' @ [CHR 0x0D, CHR 0x0A] @ ''toolong'' @ [CHR 0x0A] @ ''c'' @ [CHR 0x0A]) =
     [Some ''ab'', None, Some ''c'']"
proof -
  have "\<forall>l \<in> set [''ab'' @ [CHR 0x0D], ''toolong'', ''c'']. CHR 0x0A \<notin> set l" by simp
  from framer_delivers_lines [OF _ this, of "replicate 4 NUL"] show ?thesis by (simp add: Let_def cstr_def)
qed

subsection \<open>Only a tested candidate is committed\<close>

text \<open>Lines handled one after the other, storage failing anew on each.\<close>

fun provision ::
    "psa_hash \<Rightarrow> (esp_err list \<times> 'j line_env \<times> string) list \<Rightarrow> pm_provisioning_session \<times> config_env \<Rightarrow>
      pm_provisioning_session \<times> config_env" where
  "provision psa [] st = st"
| "provision psa ((fs, env, line) # rest) (s, ce) =
     provision psa rest (snd (snd (pm_provisioning_handle_line psa env line [] PM_COM_LINE_MAX
       (s, ce\<lparr>cfg_nvs := (cfg_nvs ce)\<lparr>faults := fs\<rparr>\<rparr>))))"

definition passed_tests :: "'j line_env \<Rightarrow> pm_config \<Rightarrow> bool" where
  "passed_tests env c \<longleftrightarrow> (\<exists>c0 token. run_tests (le_test env) test_stages c0 token = (ESP_OK, c))"

definition staged_in :: "pm_config_transaction \<Rightarrow> pm_config nvs \<Rightarrow> pm_config \<Rightarrow> bool" where
  "staged_in t n c \<longleftrightarrow> (\<exists>key. slot_key (candidate_slot t) = Some key \<and> blobs n key = Some (Blob (staged_config c)) \<and>
     pm_config_validate (staged_config c) False = ESP_OK)"

lemma staged_config_crc [simp]: "staged_config (c\<lparr>cfg_crc32 := x\<rparr>) = staged_config c"
proof -
  have "c\<lparr>cfg_crc32 := x, schema_version := 1\<rparr> = c\<lparr>schema_version := 1, cfg_crc32 := x\<rparr>" by simp
  then show ?thesis unfolding staged_config_def Let_def by (simp only: config_crc_update) simp
qed

lemma commit_staged:
  assumes "staged_in t (cfg_nvs env) c" "pm_config_commit psa alloc t env = (e, t', env')"
  shows "committed (cfg_nvs env') \<in> {committed (cfg_nvs env), (ESP_OK, staged_config c)}"
    "e = ESP_OK \<Longrightarrow> committed (cfg_nvs env') = (ESP_OK, staged_config c)"
proof -
  obtain key where key: "slot_key (candidate_slot t) = Some key" "blobs (cfg_nvs env) key = Some (Blob (staged_config c))"
    "pm_config_validate (staged_config c) False = ESP_OK" using assms(1) by (auto simp: staged_in_def)
  have switched: "committed n = (ESP_OK, staged_config c)"
    if "blobs n = blobs (cfg_nvs env)" "u8s n ''active'' = Some (of_char (candidate_slot t))" for n
    using that key slot_key_byte [OF key(1)] by (auto simp: committed_alt slot_value_def)
  have kept: "committed n = committed (cfg_nvs env)" if "blobs n = blobs (cfg_nvs env)" "u8s n = u8s (cfg_nvs env)" for n
    using keeps_selected_committed [OF keeps_selected_refl [OF that]] .
  from pm_config_commit_nvs [OF assms(2)]
  have "committed (cfg_nvs env') \<in> {committed (cfg_nvs env), (ESP_OK, staged_config c)} \<and>
    (e = ESP_OK \<longrightarrow> committed (cfg_nvs env') = (ESP_OK, staged_config c))"
  proof
    assume "\<exists>key. slot_key (candidate_slot t) = Some key \<and> stage t = PM_CONFIG_STAGE_NETWORK_TESTED \<and>
       (e, cfg_nvs env') = commit_candidate psa t key (cfg_nvs env)"
    then obtain k where k: "commit_candidate psa t k (cfg_nvs env) = (e, cfg_nvs env')" by metis
    note store = commit_candidate_store [of psa t k "cfg_nvs env", unfolded k snd_conv]
    have "e = ESP_OK \<Longrightarrow> u8s (cfg_nvs env') = (u8s (cfg_nvs env))(''active'' \<mapsto> of_char (candidate_slot t))"
      using commit_candidate_ok [of psa t k "cfg_nvs env", unfolded k fst_conv snd_conv] .
    with store switched [of "cfg_nvs env'"] kept [of "cfg_nvs env'"] show ?thesis by (metis fun_upd_same insert_iff)
  qed simp
  then show "committed (cfg_nvs env') \<in> {committed (cfg_nvs env), (ESP_OK, staged_config c)}"
    "e = ESP_OK \<Longrightarrow> committed (cfg_nvs env') = (ESP_OK, staged_config c)" by blast+
qed

text \<open>What holds of a session of which the lines so far ran in the environments \<open>E\<close>.\<close>

definition may_commit :: "'j line_env set \<Rightarrow> esp_err \<times> pm_config \<Rightarrow> esp_err \<times> pm_config \<Rightarrow> bool" where
  "may_commit E old new \<longleftrightarrow> new = old \<or> (\<exists>env \<in> E. \<exists>c. passed_tests env c \<and> new = (ESP_OK, staged_config c))"

definition session_inv :: "'j line_env set \<Rightarrow> esp_err \<times> pm_config \<Rightarrow> pm_provisioning_session \<times> config_env \<Rightarrow> bool" where
  "session_inv E old = (\<lambda>(s, ce). \<not> has_factory_reset s \<and> may_commit E old (committed (cfg_nvs ce)) \<and>
     (tests_passed s \<longrightarrow> (\<exists>env \<in> E. \<exists>c. passed_tests env c \<and> staged_config (ps_candidate s) = staged_config c) \<and>
        staged_in (ps_transaction s) (cfg_nvs ce) (ps_candidate s)))"

lemma clear_candidate_simps:
  assumes "clear_candidate_state (s, ce) = (s', ce')"
  shows "cfg_nvs ce' = cfg_nvs ce" "\<not> tests_passed s'" "has_factory_reset s' = has_factory_reset s"
  using assms by (auto simp: clear_candidate_state_def pm_config_abort_def)

lemma session_inv_clear:
  assumes "\<not> has_factory_reset s" "may_commit E old (committed (cfg_nvs ce))"
  shows "session_inv E old (clear_candidate_state (s, ce))"
  using clear_candidate_simps [of s ce] assms by (cases "clear_candidate_state (s, ce)") (simp add: session_inv_def)

lemma parse_candidate_step:
  assumes "parse_candidate J config (s, ce) = (ok, s', ce')"
  shows "cfg_nvs ce' = cfg_nvs ce" "\<not> tests_passed s'" "has_factory_reset s' = has_factory_reset s"
proof -
  obtain s1 ce1 where c: "clear_candidate_state (s, ce) = (s1, ce1)" by (metis prod.exhaust)
  obtain s2 ce2 where c2: "clear_candidate_state (s1, ce1) = (s2, ce2)" by (metis prod.exhaust)
  note k = clear_candidate_simps [OF c] clear_candidate_simps [OF c2]
  show "cfg_nvs ce' = cfg_nvs ce" "\<not> tests_passed s'" "has_factory_reset s' = has_factory_reset s"
    using assms k by (auto simp: parse_candidate_def c c2 split: option.splits if_splits)
qed

lemma begin_inv:
  assumes "session_inv E old (s, ce)" "honest (cfg_nvs ce)"
  shows "session_inv E old (snd (op_begin_config psa env config (s, ce)))"
proof -
  obtain ok s1 ce1 where p: "parse_candidate (le_json env) config (s, ce) = (ok, s1, ce1)" by (metis prod.exhaust)
  obtain e t ce2 where b: "(if ok then pm_config_begin psa (le_begin_alloc env) (ps_candidate s1) (ps_transaction s1) ce1
      else (ESP_ERR_INVALID_ARG, ps_transaction s1, ce1)) = (e, t, ce2)" by (metis prod.exhaust)
  note ps = parse_candidate_step [OF p]
  have keep: "committed (cfg_nvs ce2) = committed (cfg_nvs ce)"
    using b config_begin_keeps [of ce1 psa "le_begin_alloc env" "ps_candidate s1" "ps_transaction s1"] ps(1) assms(2)
    by (auto split: if_splits)
  have inv: "\<not> has_factory_reset (s1\<lparr>ps_transaction := t\<rparr>)" "may_commit E old (committed (cfg_nvs ce2))"
    using assms(1) ps(3) keep by (simp_all add: session_inv_def)
  show ?thesis
    using session_inv_clear [OF inv] inv ps(2) unfolding op_begin_config_def p prod.case b
    by (simp add: session_inv_def split: if_splits)
qed

lemma test_inv:
  assumes "session_inv E old (s, ce)" "honest (cfg_nvs ce)" "env \<in> E"
  shows "session_inv E old (snd (op_test_config psa env (s, ce)))"
proof -
  obtain e1 c where r: "(if \<not> candidate_present s \<or> \<not> has_test s then (ESP_ERR_INVALID_STATE, ps_candidate s)
      else run_tests (le_test env) test_stages (ps_candidate s) (enrollment_token s)) = (e1, c)" by (metis prod.exhaust)
  define sealed where "sealed = c\<lparr>cfg_crc32 := config_crc c\<rparr>"
  obtain e2 t ce2 where b: "pm_config_begin psa (le_begin_alloc env) sealed (ps_transaction s) ce = (e2, t, ce2)" by (metis prod.exhaust)
  obtain e3 t' where m: "(if e2 = ESP_OK then pm_config_mark_network_tested t ce2 else (e2, t)) = (e3, t')" by (metis prod.exhaust)
  have keep: "committed (cfg_nvs ce2) = committed (cfg_nvs ce)"
    using config_begin_keeps [OF assms(2), of psa "le_begin_alloc env" sealed "ps_transaction s"] b by simp
  have inv: "\<not> has_factory_reset s" "may_commit E old (committed (cfg_nvs ce))" using assms(1) by (simp_all add: session_inv_def)
  have passed: "\<exists>env \<in> E. \<exists>c'. passed_tests env c' \<and> staged_config sealed = staged_config c'" if "e1 = ESP_OK"
    using that r assms(3) by (auto simp: passed_tests_def sealed_def split: if_splits intro!: bexI [of _ env])
  have staged: "staged_in t' (cfg_nvs ce2) sealed" if "e3 = ESP_OK"
  proof -
    have "e2 = ESP_OK" "candidate_slot t' = candidate_slot t"
      using that m by (auto simp: pm_config_mark_network_tested_def split: if_splits)
    with pm_config_begin_ok(1) [of psa "le_begin_alloc env" sealed "ps_transaction s" ce t ce2] b show ?thesis
      by (auto simp: staged_in_def)
  qed
  show ?thesis
  proof (cases "e1 = ESP_OK")
    case True
    let ?s = "s\<lparr>tests_passed := (e3 = ESP_OK), ps_candidate := sealed, ps_transaction := t'\<rparr>"
    have "op_test_config psa env (s, ce) = (if e3 \<noteq> ESP_OK
       then (refuse e3 ''configuration_test_failed'' [(''code'', error_number e3)], clear_candidate_state (?s, ce2))
       else (accept_with [(''stage'', Com_String ''network_tls_enrollment_verified'')], ?s, ce2))"
      unfolding op_test_config_def prod.case r Let_def sealed_def [symmetric] b m using True by simp
    moreover have "session_inv E old (?s, ce2)" if "e3 = ESP_OK"
      using inv keep passed [OF True] staged that by (simp add: session_inv_def)
    moreover have "session_inv E old (clear_candidate_state (?s, ce2))" using inv keep by (intro session_inv_clear) simp_all
    ultimately show ?thesis by (cases "e3 = ESP_OK") simp_all
  next
    case False
    then show ?thesis
      unfolding op_test_config_def prod.case r Let_def by (simp add: session_inv_clear inv)
  qed
qed

lemma commit_inv:
  assumes "session_inv E old (s, ce)"
  shows "session_inv E old (snd (op_commit_config psa env (s, ce)))"
proof -
  obtain e t ce1 where c: "(if tests_passed s then pm_config_commit psa (le_commit_alloc env) (ps_transaction s) ce
      else (ESP_ERR_INVALID_STATE, ps_transaction s, ce)) = (e, t, ce1)" by (metis prod.exhaust)
  have inv: "\<not> has_factory_reset s" "may_commit E old (committed (cfg_nvs ce))" using assms by (simp_all add: session_inv_def)
  have "may_commit E old (committed (cfg_nvs ce1))"
  proof (cases "tests_passed s")
    case True
    then have p: "\<exists>env \<in> E. \<exists>c. passed_tests env c \<and> staged_config (ps_candidate s) = staged_config c"
      "staged_in (ps_transaction s) (cfg_nvs ce) (ps_candidate s)" using assms by (simp_all add: session_inv_def)
    have "committed (cfg_nvs ce1) = committed (cfg_nvs ce) \<or> committed (cfg_nvs ce1) = (ESP_OK, staged_config (ps_candidate s))"
      using commit_staged(1) [OF p(2)] c True by auto
    with p(1) show ?thesis using inv(2) unfolding may_commit_def by metis
  qed (use c inv in simp)
  with inv(1) show ?thesis
    unfolding op_commit_config_def prod.case c Let_def by (simp add: session_inv_clear)
qed

lemma operation_inv:
  assumes "session_inv E old st" "honest (cfg_nvs (snd st))" "env \<in> E"
  shows "session_inv E old (snd (run_operation psa env request op st))"
proof -
  obtain s ce where st: "st = (s, ce)" by (metis prod.exhaust)
  have inv: "\<not> has_factory_reset s" "may_commit E old (committed (cfg_nvs ce))"
    using assms(1) st by (simp_all add: session_inv_def)
  have "\<not> factory_reset_allowed now token s" for now token using inv(1) by (simp add: factory_reset_allowed_def)
  then have "session_inv E old (snd (op_factory_reset_commit env token (s, ce)))" for token
    using assms(1) st by (simp add: op_factory_reset_commit_def session_inv_def)
  moreover have "session_inv E old (snd (op_safe_reboot env (s, ce)))"
    using session_inv_clear [OF inv] by (cases "clear_candidate_state (s, ce)") (simp add: op_safe_reboot_def)
  moreover have "session_inv E old (snd (op_factory_reset_prepare env (s, ce)))"
    using assms(1) st by (simp add: op_factory_reset_prepare_def session_inv_def)
  ultimately show ?thesis
    using assms begin_inv [of E old s ce psa env] test_inv [of E old s ce env psa] commit_inv [of E old s ce psa env]
      session_inv_clear [OF inv]
    unfolding run_operation_def by (simp add: st op_rollback_config_def)
qed

lemma handle_line_inv:
  assumes "session_inv E old st" "honest (cfg_nvs (snd st))" "env \<in> E"
  shows "session_inv E old (snd (snd (pm_provisioning_handle_line psa env line response size' st)))"
proof -
  have "session_inv E old (s\<lparr>reboot_requested := b\<rparr>, ce) = session_inv E old (s, ce)" for s b ce
    by (simp add: session_inv_def)
  with operation_inv [OF assms] assms(1) show ?thesis
    unfolding pm_provisioning_handle_line_def
    by (auto split: option.splits prod.splits) (metis snd_conv)+
qed

lemma provision_inv:
  "session_inv E old st \<Longrightarrow> \<forall>(fs, env, line) \<in> set run. ESP_ERR_NVS_NOT_FOUND \<notin> set fs \<and> env \<in> E \<Longrightarrow>
     session_inv E old (provision psa run st)"
proof (induction run arbitrary: st)
  case (Cons x run)
  obtain fs env line where x: "x = (fs, env, line)" by (metis prod.exhaust)
  obtain s ce where st: "st = (s, ce)" by (metis prod.exhaust)
  let ?n = "(cfg_nvs ce)\<lparr>faults := fs\<rparr>"
  have "committed ?n = committed (cfg_nvs ce)" by (rule keeps_selected_committed, rule keeps_selected_refl) simp_all
  then have "session_inv E old (s, ce\<lparr>cfg_nvs := ?n\<rparr>)"
    using Cons.prems(1) st by (simp add: session_inv_def staged_in_def)
  moreover have "honest ?n" "env \<in> E" using Cons.prems(2) x by (auto simp: honest_def)
  ultimately have "session_inv E old (snd (snd (pm_provisioning_handle_line psa env line [] PM_COM_LINE_MAX (s, ce\<lparr>cfg_nvs := ?n\<rparr>))))"
    by (intro handle_line_inv) simp_all
  with Cons.IH Cons.prems(2) x st show ?case by simp
qed simp

text \<open>
  C27. Only a tested candidate becomes the configuration. Over any sequence of request lines, in whatever order, well formed or not, with
  storage failing or power lost at any call, the configuration that the next boot loads is the one from before the session or one that
  passed all five network tests in one of the lines, with schema version and checksum set.
\<close>

theorem provisioning_commits_tested:
  assumes "\<forall>(fs, env, line) \<in> set run. ESP_ERR_NVS_NOT_FOUND \<notin> set fs"
    and "provision psa run (pm_provisioning_session_init active authorized test False prepare, ce) = (s, ce')"
  shows "committed (cfg_nvs ce') = committed (cfg_nvs ce) \<or>
    (\<exists>(fs, env, line) \<in> set run. \<exists>c0 token c. run_tests (le_test env) test_stages c0 token = (ESP_OK, c) \<and>
       committed (cfg_nvs ce') = (ESP_OK, staged_config c))"
proof -
  let ?E = "(fst \<circ> snd) ` set run"
  have "session_inv ?E (committed (cfg_nvs ce)) (pm_provisioning_session_init active authorized test False prepare, ce)"
    by (simp add: session_inv_def may_commit_def pm_provisioning_session_init_def)
  moreover have "\<forall>(fs, env, line) \<in> set run. ESP_ERR_NVS_NOT_FOUND \<notin> set fs \<and> env \<in> ?E"
    using assms(1) by force
  ultimately have "session_inv ?E (committed (cfg_nvs ce)) (s, ce')"
    using provision_inv assms(2) by metis
  then show ?thesis by (fastforce simp: session_inv_def may_commit_def passed_tests_def)
qed

subsection \<open>Factory reset\<close>

text \<open>The part of a session that decides about a factory reset.\<close>

definition reset_part :: "pm_provisioning_session \<Rightarrow> u8 list \<times> int \<times> bool \<times> bool" where
  "reset_part s = (factory_token s, factory_token_expires_us s, physically_authorized s, has_factory_reset s)"

lemma reset_part_clear: "reset_part (fst (clear_candidate_state (s, ce))) = reset_part s"
  by (simp add: clear_candidate_state_def reset_part_def split: prod.splits)

lemma reset_part_parse: "reset_part (fst (snd (parse_candidate J config (s, ce)))) = reset_part s"
proof -
  obtain s1 ce1 where c: "clear_candidate_state (s, ce) = (s1, ce1)" by (metis prod.exhaust)
  show ?thesis
    using reset_part_clear [of s ce] reset_part_clear [of s1 ce1]
    by (auto simp: parse_candidate_def c split: option.splits) (simp_all add: reset_part_def)
qed

lemma reset_part_update:
  "reset_part (s\<lparr>ps_transaction := t\<rparr>) = reset_part s" "reset_part (s\<lparr>ps_active := c\<rparr>) = reset_part s"
  "reset_part (s\<lparr>tests_passed := b, ps_candidate := c\<rparr>) = reset_part s"
  "reset_part (s\<lparr>tests_passed := b, ps_candidate := c, ps_transaction := t\<rparr>) = reset_part s"
  by (simp_all add: reset_part_def)

lemma reset_part_configs:
  "reset_part (fst (snd (op_begin_config psa env config (s, ce)))) = reset_part s"
  "reset_part (fst (snd (op_test_config psa env (s, ce)))) = reset_part s"
  "reset_part (fst (snd (op_commit_config psa env (s, ce)))) = reset_part s"
proof -
  obtain ok s1 ce1 where p: "parse_candidate (le_json env) config (s, ce) = (ok, s1, ce1)" by (metis prod.exhaust)
  then have "reset_part s1 = reset_part s" using reset_part_parse [of "le_json env" config s ce] by simp
  then show "reset_part (fst (snd (op_begin_config psa env config (s, ce)))) = reset_part s"
    by (simp add: op_begin_config_def p reset_part_clear reset_part_update split: prod.splits)
  obtain e1 c where r: "(if \<not> candidate_present s \<or> \<not> has_test s then (ESP_ERR_INVALID_STATE, ps_candidate s)
      else run_tests (le_test env) test_stages (ps_candidate s) (enrollment_token s)) = (e1, c)" by (metis prod.exhaust)
  obtain e2 t ce2 where b: "pm_config_begin psa (le_begin_alloc env) (c\<lparr>cfg_crc32 := config_crc c\<rparr>) (ps_transaction s) ce = (e2, t, ce2)"
    by (metis prod.exhaust)
  obtain e3 t' where m: "(if e2 = ESP_OK then pm_config_mark_network_tested t ce2 else (e2, t)) = (e3, t')" by (metis prod.exhaust)
  show "reset_part (fst (snd (op_test_config psa env (s, ce)))) = reset_part s"
    unfolding op_test_config_def prod.case r Let_def b m
    by (cases "e1 = ESP_OK"; cases "e3 = ESP_OK") (simp_all add: reset_part_clear reset_part_update)
  show "reset_part (fst (snd (op_commit_config psa env (s, ce)))) = reset_part s"
    by (simp add: op_commit_config_def Let_def reset_part_clear reset_part_update split: prod.splits)
qed

lemma reset_part_operation:
  "reset_part (fst (snd (run_operation psa env request op (s, ce)))) \<in>
     {reset_part s, (replicate 16 0, 0, physically_authorized s, has_factory_reset s)} \<union>
     (if physically_authorized s then {(le_random env, le_now env + 60000000, True, has_factory_reset s)} else {})"
proof -
  have "reset_part (fst (snd (op_safe_reboot env (s, ce)))) = reset_part s"
    using reset_part_clear [of s ce] by (cases "clear_candidate_state (s, ce)") (simp add: op_safe_reboot_def)
  moreover have "reset_part (fst (snd (op_factory_reset_commit env token (s, ce)))) =
      (replicate 16 0, 0, physically_authorized s, has_factory_reset s)" for token
    by (simp add: op_factory_reset_commit_def reset_part_def split: prod.splits)
  moreover have "reset_part (fst (snd (op_factory_reset_prepare env (s, ce)))) =
      (if physically_authorized s then (le_random env, le_now env + 60000000, True, has_factory_reset s) else reset_part s)"
    by (simp add: op_factory_reset_prepare_def reset_part_def)
  ultimately show ?thesis
    unfolding run_operation_def by (simp add: reset_part_configs op_rollback_config_def reset_part_clear)
qed

text \<open>A token that has not expired at time 0 was made by one of the lines, in a session with authorization.\<close>

definition token_issued :: "(esp_err list \<times> 'j line_env \<times> string) set \<Rightarrow> pm_provisioning_session \<Rightarrow> bool" where
  "token_issued R s \<longleftrightarrow> factory_token_expires_us s = 0 \<or> physically_authorized s \<and>
     (\<exists>(fs, env, line) \<in> R. factory_token s = le_random env \<and> factory_token_expires_us s = le_now env + 60000000)"

lemma token_issued_line:
  assumes "token_issued R s" "(fs, env, line) \<in> R"
  shows "token_issued R (fst (snd (snd (pm_provisioning_handle_line psa env line response n (s, ce)))))"
proof -
  have part: "token_issued R s' = token_issued R s''" if "reset_part s' = reset_part s''" for s' s''
    using that by (simp add: token_issued_def reset_part_def)
  have op: "token_issued R (fst (snd (run_operation psa env request op (s, ce))))" for request op
  proof -
    let ?s = "fst (snd (run_operation psa env request op (s, ce)))"
    consider (same) "reset_part ?s = reset_part s" | (gone) "factory_token_expires_us ?s = 0"
      | (fresh) "physically_authorized ?s" "factory_token ?s = le_random env" "factory_token_expires_us ?s = le_now env + 60000000"
      using reset_part_operation [of psa env request op s ce] by (auto simp: reset_part_def split: if_splits)
    then show ?thesis
    proof cases
      case same
      show ?thesis unfolding part [OF same] by (rule assms(1))
    next
      case fresh
      with assms(2) show ?thesis unfolding token_issued_def by (intro disjI2 conjI bexI [of _ "(fs, env, line)"]) simp_all
    qed (simp add: token_issued_def)
  qed
  have rb: "reset_part (s'\<lparr>reboot_requested := b\<rparr>) = reset_part s'" for s' b by (simp add: reset_part_def)
  show ?thesis
    using assms(1) op part [OF rb] unfolding pm_provisioning_handle_line_def
    by (auto split: option.splits prod.splits) (metis fst_conv snd_conv)+
qed

lemma token_issued_run:
  "token_issued R s \<Longrightarrow> set run \<subseteq> R \<Longrightarrow> token_issued R (fst (provision psa run (s, ce)))"
proof (induction run arbitrary: s ce)
  case (Cons x run)
  obtain fs env line where x: "x = (fs, env, line)" by (metis prod.exhaust)
  obtain e out s1 ce1 where h: "pm_provisioning_handle_line psa env line [] PM_COM_LINE_MAX (s, ce\<lparr>cfg_nvs := (cfg_nvs ce)\<lparr>faults := fs\<rparr>\<rparr>) =
      (e, out, s1, ce1)" by (metis prod.exhaust)
  have "token_issued R s1"
    using token_issued_line [OF Cons.prems(1), of fs env line psa "[]" PM_COM_LINE_MAX] h Cons.prems(2) x by (metis fst_conv insert_subset list.simps(15) snd_conv)
  with Cons.IH Cons.prems(2) h x show ?case by simp
qed simp

text \<open>The reset callback matters only where it is called.\<close>

lemma other_parts:
  "le_json (env\<lparr>le_factory_reset := r\<rparr>) = le_json env" "le_object (env\<lparr>le_factory_reset := r\<rparr>) = le_object env"
  "le_print (env\<lparr>le_factory_reset := r\<rparr>) = le_print env" "le_random (env\<lparr>le_factory_reset := r\<rparr>) = le_random env"
  "le_now (env\<lparr>le_factory_reset := r\<rparr>) = le_now env" "le_version (env\<lparr>le_factory_reset := r\<rparr>) = le_version env"
  "le_test (env\<lparr>le_factory_reset := r\<rparr>) = le_test env" "le_begin_alloc (env\<lparr>le_factory_reset := r\<rparr>) = le_begin_alloc env"
  "le_commit_alloc (env\<lparr>le_factory_reset := r\<rparr>) = le_commit_alloc env"
  "le_safe_reboot_prepare (env\<lparr>le_factory_reset := r\<rparr>) = le_safe_reboot_prepare env"
  by simp_all

lemma reset_irrelevant:
  assumes "op \<noteq> ''factory_reset_commit'' \<or>
      \<not> factory_reset_allowed (le_now env) (request_string (le_json env) request ''confirmation_token'') s"
  shows "run_operation psa (env\<lparr>le_factory_reset := reset\<rparr>) request op (s, ce) = run_operation psa env request op (s, ce)"
proof -
  let ?env = "env\<lparr>le_factory_reset := reset\<rparr>"
  have "op_hello psa ?env s' = op_hello psa env s'" "op_begin_config psa ?env config st = op_begin_config psa env config st"
    "op_test_config psa ?env st = op_test_config psa env st" "op_commit_config psa ?env st = op_commit_config psa env st"
    "op_factory_reset_prepare ?env st = op_factory_reset_prepare env st" "op_safe_reboot ?env st = op_safe_reboot env st" for s' st config
    unfolding op_hello_def op_begin_config_def op_test_config_def op_commit_config_def op_factory_reset_prepare_def op_safe_reboot_def
      other_parts by (rule refl)+
  moreover have "op_factory_reset_commit ?env token (s, ce) = op_factory_reset_commit env token (s, ce)"
    if "\<not> factory_reset_allowed (le_now env) token s" for token
    using that by (simp add: op_factory_reset_commit_def)
  ultimately show ?thesis using assms unfolding run_operation_def other_parts by auto
qed

text \<open>The operation that a line asks for.\<close>

lemma reset_relevant_operation:
  assumes "pm_provisioning_handle_line psa (env\<lparr>le_factory_reset := reset\<rparr>) line response n (s, ce) \<noteq>
      pm_provisioning_handle_line psa env line response n (s, ce)"
  obtains (operation) request proto op where "length (cstr line) < PM_COM_LINE_MAX" "cJSON_Parse (le_json env) (cstr line) = Some request"
    "request_string (le_json env) request ''protocol'' = Some proto" "cstr proto = PM_COM_PROTOCOL"
    "request_string (le_json env) request ''op'' = Some op"
    "run_operation psa (env\<lparr>le_factory_reset := reset\<rparr>) request (cstr op) (s, ce) \<noteq> run_operation psa env request (cstr op) (s, ce)"
proof -
  have r: "render_response (env\<lparr>le_factory_reset := reset\<rparr>) m out k = render_response env m out k" for m out k
    unfolding render_response_def other_parts by (rule refl)
  show ?thesis
  proof (rule ccontr)
    assume "\<not> thesis"
    then have eq: "run_operation psa (env\<lparr>le_factory_reset := reset\<rparr>) request (cstr op) (s, ce) = run_operation psa env request (cstr op) (s, ce)"
      if "length (cstr line) < PM_COM_LINE_MAX" "cJSON_Parse (le_json env) (cstr line) = Some request"
        "request_string (le_json env) request ''op'' = Some op"
        "\<exists>proto. request_string (le_json env) request ''protocol'' = Some proto \<and> cstr proto = PM_COM_PROTOCOL"
      for request op using operation that by blast
    show False
      using assms unfolding pm_provisioning_handle_line_def other_parts r
      by (auto simp: eq not_le split: option.splits if_splits)
  qed
qed

lemma reset_relevant:
  assumes "pm_provisioning_handle_line psa (env\<lparr>le_factory_reset := reset\<rparr>) line response n (s, ce) \<noteq>
      pm_provisioning_handle_line psa env line response n (s, ce)"
  obtains request where "cJSON_Parse (le_json env) (cstr line) = Some request"
    "factory_reset_allowed (le_now env) (request_string (le_json env) request ''confirmation_token'') s"
    "factory_token_expires_us (fst (snd (snd (pm_provisioning_handle_line psa env line response n (s, ce))))) = 0"
proof -
  obtain request proto op where o: "length (cstr line) < PM_COM_LINE_MAX" "cJSON_Parse (le_json env) (cstr line) = Some request"
    "request_string (le_json env) request ''protocol'' = Some proto" "cstr proto = PM_COM_PROTOCOL"
    "request_string (le_json env) request ''op'' = Some op"
    "run_operation psa (env\<lparr>le_factory_reset := reset\<rparr>) request (cstr op) (s, ce) \<noteq> run_operation psa env request (cstr op) (s, ce)"
    using assms by (rule reset_relevant_operation)
  have c: "cstr op = ''factory_reset_commit''"
    "factory_reset_allowed (le_now env) (request_string (le_json env) request ''confirmation_token'') s"
    using o(6) reset_irrelevant [of "cstr op" env request s psa reset ce] by blast+
  obtain rp s' ce' where r: "run_operation psa env request ''factory_reset_commit'' (s, ce) = (rp, s', ce')" by (metis prod.exhaust)
  then have "factory_token_expires_us s' = 0"
    by (auto simp: run_operation_def op_factory_reset_commit_def split: prod.splits)
  then have "factory_token_expires_us (fst (snd (snd (pm_provisioning_handle_line psa env line response n (s, ce))))) = 0"
    using o(1-5) c(1) r unfolding pm_provisioning_handle_line_def by (simp split: prod.split)
  with o(2) c(2) that show ?thesis by blast
qed

text \<open>The line carries a token that one of the lines drew, no more than sixty seconds ago.\<close>

definition reset_confirmed ::
    "(esp_err list \<times> 'j line_env \<times> string) list \<Rightarrow> 'j line_env \<Rightarrow> string \<Rightarrow> bool" where
  "reset_confirmed run env line \<longleftrightarrow> (\<exists>request token. cJSON_Parse (le_json env) (cstr line) = Some request \<and>
     request_string (le_json env) request ''confirmation_token'' = Some token \<and>
     (\<exists>(fs, env0, line0) \<in> set run. cstr token = pm_hex_lower (le_random env0) \<and> le_now env \<le> le_now env0 + 60000000))"

lemma reset_token:
  assumes "factory_token_expires_us s0 = 0" "provision psa run (s0, ce) = (s, ce')"
    and "\<forall>(fs, env, line) \<in> set run. length (le_random env) = 16" "0 < le_now env"
    and "cJSON_Parse (le_json env) (cstr line) = Some request"
    and "factory_reset_allowed (le_now env) (request_string (le_json env) request ''confirmation_token'') s"
  shows "physically_authorized s \<and> has_factory_reset s \<and> reset_confirmed run env line"
proof -
  obtain token where t: "request_string (le_json env) request ''confirmation_token'' = Some token" "length (cstr token) = 32"
    "le_now env \<le> factory_token_expires_us s" "physically_authorized s" "has_factory_reset s"
    "pm_constant_time_equal (chars_bytes (pm_hex_lower (factory_token s))) (chars_bytes (cstr token)) 32"
    using assms(6) by (auto simp: factory_reset_allowed_def split: option.splits)
  have "token_issued (set run) s"
    using token_issued_run [of "set run" s0 run psa ce] assms(1,2) by (simp add: token_issued_def)
  then obtain fs env0 line0 where i: "(fs, env0, line0) \<in> set run" "factory_token s = le_random env0"
    "factory_token_expires_us s = le_now env0 + 60000000"
    using t(3) assms(4) by (auto simp: token_issued_def)
  have "length (le_random env0) = 16" using assms(3) i(1) by auto
  then have "chars_bytes (pm_hex_lower (le_random env0)) = chars_bytes (cstr token)"
    using t(2,6) i(2) by (simp add: pm_constant_time_equal_list)
  then have "cstr token = pm_hex_lower (le_random env0)" by (simp add: chars_bytes_inj)
  with t i assms(5) show ?thesis unfolding reset_confirmed_def by fastforce
qed

text \<open>
  C28. A factory reset needs the button and a fresh token, and a token serves once. After any sequence of lines, the reset callback has no
  influence on how the next line is handled unless the session was authorized physically and has the callback, and, the clock being past
  zero, the line carries the hexadecimal form of the token that an earlier line drew at random, no more than sixty seconds ago. After a
  line in which the callback mattered, whether the reset succeeded or failed, it matters again only for a line that carries a token drawn since.
\<close>

theorem factory_reset_guarded:
  assumes "provision psa run (pm_provisioning_session_init active authorized test reset prepare, ce) = (s, ce')"
    and "\<forall>(fs, env, line) \<in> set run. length (le_random env) = 16" "0 < le_now env"
    and "pm_provisioning_handle_line psa (env\<lparr>le_factory_reset := callback\<rparr>) line response n (s, ce') \<noteq>
      pm_provisioning_handle_line psa env line response n (s, ce')"
  shows "physically_authorized s \<and> has_factory_reset s \<and> reset_confirmed run env line \<and>
    (\<forall>s1 ce1 later s2 ce2 env2 callback2 line2 response2 n2.
       snd (snd (pm_provisioning_handle_line psa env line response n (s, ce'))) = (s1, ce1) \<longrightarrow>
       provision psa later (s1, ce1) = (s2, ce2) \<longrightarrow> (\<forall>(fs, env, line) \<in> set later. length (le_random env) = 16) \<longrightarrow> 0 < le_now env2 \<longrightarrow>
       pm_provisioning_handle_line psa (env2\<lparr>le_factory_reset := callback2\<rparr>) line2 response2 n2 (s2, ce2) \<noteq>
         pm_provisioning_handle_line psa env2 line2 response2 n2 (s2, ce2) \<longrightarrow>
       reset_confirmed later env2 line2)"
proof -
  obtain request where r: "cJSON_Parse (le_json env) (cstr line) = Some request"
    "factory_reset_allowed (le_now env) (request_string (le_json env) request ''confirmation_token'') s"
    "factory_token_expires_us (fst (snd (snd (pm_provisioning_handle_line psa env line response n (s, ce'))))) = 0"
    using assms(4) by (rule reset_relevant)
  have "factory_token_expires_us (pm_provisioning_session_init active authorized test reset prepare) = 0"
    by (simp add: pm_provisioning_session_init_def)
  note first = reset_token [OF this assms(1-3) r(1,2)]
  have "reset_confirmed later env2 line2"
    if h: "snd (snd (pm_provisioning_handle_line psa env line response n (s, ce'))) = (s1, ce1)" "provision psa later (s1, ce1) = (s2, ce2)"
      "\<forall>(fs, env, line) \<in> set later. length (le_random env) = 16" "0 < le_now env2"
      and d: "pm_provisioning_handle_line psa (env2\<lparr>le_factory_reset := callback2\<rparr>) line2 response2 n2 (s2, ce2) \<noteq>
         pm_provisioning_handle_line psa env2 line2 response2 n2 (s2, ce2)"
    for s1 ce1 later s2 ce2 env2 callback2 line2 response2 n2
  proof -
    obtain request2 where "cJSON_Parse (le_json env2) (cstr line2) = Some request2"
      "factory_reset_allowed (le_now env2) (request_string (le_json env2) request2 ''confirmation_token'') s2"
      using d by (rule reset_relevant)
    then show ?thesis using reset_token [OF _ h(2-4)] r(3) h(1) by simp
  qed
  with first show ?thesis by blast
qed

subsection \<open>Concrete sessions\<close>

lemma overwrite_str_props:
  "cstr (overwrite_str d v) = cstr v" "nul_terminated (overwrite_str d v)"
  using cstr_no_NUL [of v] by (simp_all add: overwrite_str_def nul_terminated_def) (simp add: cstr_def takeWhile_tail)

definition demo_candidate :: flat_json where
  "demo_candidate = FObject [(''friendly_name'', FString ''attic''), (''wifi_ssid'', FString ''net''), (''wifi_password'', FString ''pw''),
     (''server_origin'', FString ''https://h''), (''ca_pem'', FString ''PEM''), (''timezone'', FString ''UTC''),
     (''enrollment_token'', FString ''token''), (''ipv4_mode'', FNumber 0), (''ct_rating_a'', FNumber 100),
     (''pzem_variant'', FString ''pzem-004t-v4-classic'')]"

definition demo_request :: "string \<Rightarrow> flat_json" where
  "demo_request op = FObject [(''protocol'', FString PM_COM_PROTOCOL), (''id'', FString ''1''), (''op'', FString op),
     (''confirmation_token'', FString (pm_hex_lower (replicate 16 7))), (''config'', demo_candidate)]"

text \<open>An environment in which a line is the name of its operation.\<close>

definition demo_line_env :: "flat_json line_env" where
  "demo_line_env = \<lparr>le_json = flat_cjson (\<lambda>line. Some (demo_request line)), le_object = True,
     le_print = (\<lambda>_ _. (True, ''{}'')), le_random = replicate 16 7, le_now = 5, le_version = ''1.2.0'',
     le_test = (\<lambda>_ c _. (ESP_OK, c)), le_factory_reset = (\<lambda>ce. (ESP_OK, ce)), le_safe_reboot_prepare = ESP_OK,
     le_begin_alloc = True, le_commit_alloc = True\<rparr>"

lemma demo_line:
  assumes "cstr op = op" "length op < 8192"
  shows "pm_provisioning_handle_line psa (demo_line_env\<lparr>le_factory_reset := r\<rparr>) op response PM_COM_LINE_MAX st =
    (case run_operation psa (demo_line_env\<lparr>le_factory_reset := r\<rparr>) (demo_request op) op st of (rp, s, ce) \<Rightarrow>
       (rp_result rp, ''{}'' @ [CHR 0x0A], s\<lparr>reboot_requested := (reboot_requested s \<or> rp_reboot rp)\<rparr>, ce))"
proof -
  have "cstr PM_COM_PROTOCOL = PM_COM_PROTOCOL" "cstr ''{}'' = ''{}''" by (simp_all add: cstr_def PM_COM_PROTOCOL_def)
  with assms show ?thesis
    by (simp add: pm_provisioning_handle_line_def demo_line_env_def flat_cjson_def demo_request_def request_string_def
        render_response_def PM_COM_LINE_MAX_def split: prod.splits)
qed

lemma demo_line_env_same: "demo_line_env\<lparr>le_factory_reset := (\<lambda>ce. (ESP_OK, ce))\<rparr> = demo_line_env"
  by (simp add: demo_line_env_def)

lemma demo_candidate_fields:
  "\<exists>c token. candidate_fields (le_json demo_line_env) demo_candidate demo_config = Some (c, token) \<and> cfg_generation c = 8 \<and>
     pm_config_validate c False = ESP_OK \<and> staged_config c = c \<and> c\<lparr>cfg_crc32 := config_crc c\<rparr> = c"
proof -
  have str: "cstr ''attic'' = ''attic''" "cstr ''net'' = ''net''" "cstr ''pw'' = ''pw''" "cstr ''https://h'' = ''https://h''"
    "cstr ''PEM'' = ''PEM''" "cstr ''UTC'' = ''UTC''" "cstr ''token'' = ''token''" "cstr ''pzem-004t-v4-classic'' = ''pzem-004t-v4-classic''"
    by (simp_all add: cstr_def)
  have len: "length (friendly_name demo_config) = 49" "length (wifi_ssid demo_config) = 33" "length (wifi_password demo_config) = 64"
    "length (server_origin demo_config) = 193" "length (ca_pem demo_config) = 4097" "length (timezone demo_config) = 65" "length zero_token = 193"
    by (simp_all add: demo_config_def zero_config_def length_store_str zero_token_def PM_ENROLLMENT_TOKEN_MAX_def)
  define c where "c = demo_config\<lparr>schema_version := 1, cfg_generation := 8, friendly_name := overwrite_str (friendly_name demo_config) ''attic'',
     wifi_ssid := overwrite_str (wifi_ssid demo_config) ''net'', wifi_password := overwrite_str (wifi_password demo_config) ''pw'',
     server_origin := overwrite_str (server_origin demo_config) ''https://h'', ca_pem := overwrite_str (ca_pem demo_config) ''PEM'',
     timezone := overwrite_str (timezone demo_config) ''UTC'', ipv4_mode := PM_IPV4_DHCP, ct_rating_a := 100,
     meter_variant := PM_METER_PZEM004T_V4_CLASSIC\<rparr>"
  have gen: "cfg_generation demo_config = 7" "device_secret_len demo_config = 0" "sequence_floor demo_config = 0"
    "acknowledged_sequence demo_config = 0" by (simp_all add: demo_config_def zero_config_def)
  have fields: "schema_version c = 1" "cfg_generation c = 8" "friendly_name c = overwrite_str (friendly_name demo_config) ''attic''"
    "wifi_ssid c = overwrite_str (wifi_ssid demo_config) ''net''" "wifi_password c = overwrite_str (wifi_password demo_config) ''pw''"
    "server_origin c = overwrite_str (server_origin demo_config) ''https://h''" "ca_pem c = overwrite_str (ca_pem demo_config) ''PEM''"
    "timezone c = overwrite_str (timezone demo_config) ''UTC''" "ipv4_mode c = PM_IPV4_DHCP" "ct_rating_a c = 100"
    "meter_variant c = PM_METER_PZEM004T_V4_CLASSIC" "device_secret_len c = 0" "sequence_floor c = 0" "acknowledged_sequence c = 0"
    using gen by (simp_all add: c_def)
  have valid: "pm_config_validate (c\<lparr>cfg_crc32 := config_crc c\<rparr>) gate = ESP_OK" for gate
    by (simp add: pm_config_validate_def fields overwrite_str_props str)
  have "candidate_fields (le_json demo_line_env) demo_candidate demo_config =
      Some (c\<lparr>cfg_crc32 := config_crc c\<rparr>, overwrite_str zero_token ''token'')"
    using valid [of True]
    by (simp add: candidate_fields_def copy_json_string_def get_u32_def demo_line_env_def flat_cjson_def demo_candidate_def
        static_ipv4_def str len gen c_def Let_def)
  moreover have "c\<lparr>schema_version := 1\<rparr> = c" by (simp add: c_def)
  then have "staged_config (c\<lparr>cfg_crc32 := config_crc c\<rparr>) = c\<lparr>cfg_crc32 := config_crc c\<rparr>"
    unfolding staged_config_crc by (simp add: staged_config_def Let_def)
  ultimately show ?thesis using valid [of False] fields(2)
    by (intro exI [of _ "c\<lparr>cfg_crc32 := config_crc c\<rparr>"] exI [of _ "overwrite_str zero_token ''token''"]) simp
qed

text \<open>The transaction of a candidate of generation 8, staged, staged again after the tests, and committed.\<close>

definition demo_t :: pm_config_transaction where
  "demo_t = \<lparr>stage = PM_CONFIG_STAGE_READBACK_VERIFIED, candidate_generation = 8, transaction_id = 1, candidate_slot = CHR ''B'',
     candidate_sha256 = replicate 32 0\<rparr>"

definition demo_staged :: "pm_config \<Rightarrow> config_env" where
  "demo_staged c = (demo_env [])\<lparr>s_next_transaction_id := 2, s_active_transaction_id := 1,
     cfg_nvs := (cfg_nvs (demo_env []))\<lparr>blobs := (blobs (cfg_nvs (demo_env [])))(''slot_b'' \<mapsto> Blob (staged_config c))\<rparr>\<rparr>"

lemma demo_staging:
  assumes "pm_config_validate (staged_config c) False = ESP_OK" "cfg_generation c = 8"
  shows "pm_config_begin (\<lambda>_. None) True c zero_transaction (demo_env []) = (ESP_OK, demo_t, demo_staged c)"
    "pm_config_begin (\<lambda>_. None) True c demo_t (demo_staged c) = (ESP_OK, demo_t, demo_staged c)"
    "pm_config_mark_network_tested demo_t (demo_staged c) = (ESP_OK, demo_t\<lparr>stage := PM_CONFIG_STAGE_NETWORK_TESTED\<rparr>)"
    "fst (pm_config_commit (\<lambda>_. None) True (demo_t\<lparr>stage := PM_CONFIG_STAGE_NETWORK_TESTED\<rparr>) (demo_staged c)) = ESP_OK"
proof -
  have gen: "cfg_generation (staged_config c) = 8" using assms(2) by (simp add: staged_config_def Let_def)
  show "pm_config_begin (\<lambda>_. None) True c zero_transaction (demo_env []) = (ESP_OK, demo_t, demo_staged c)"
    by (simp add: pm_config_begin_def assms(1) restaging_def zero_transaction_def claim_new_transaction_def demo_env_def nvs_fault_free
        stage_candidate_def select_inactive_def read_slot_fault_free slot_value_def demo_t_def gen finish_mutation_def pm_sha256_def
        PM_SHA256_SIZE_def demo_staged_def)
  show "pm_config_begin (\<lambda>_. None) True c demo_t (demo_staged c) = (ESP_OK, demo_t, demo_staged c)"
    by (simp add: pm_config_begin_def assms(1) restaging_def claim_transaction_mutation_def demo_env_def nvs_fault_free
        stage_candidate_def select_inactive_def read_slot_fault_free slot_value_def demo_t_def gen finish_mutation_def pm_sha256_def
        PM_SHA256_SIZE_def demo_staged_def)
  show "pm_config_mark_network_tested demo_t (demo_staged c) = (ESP_OK, demo_t\<lparr>stage := PM_CONFIG_STAGE_NETWORK_TESTED\<rparr>)"
    by (simp add: pm_config_mark_network_tested_def demo_t_def transaction_is_active_def demo_env_def demo_staged_def)
  show "fst (pm_config_commit (\<lambda>_. None) True (demo_t\<lparr>stage := PM_CONFIG_STAGE_NETWORK_TESTED\<rparr>) (demo_staged c)) = ESP_OK"
    by (simp add: pm_config_commit_def demo_t_def slot_key_def claim_transaction_mutation_def demo_env_def commit_candidate_def
        nvs_fault_free read_slot_fault_free slot_value_def assms(1) gen pm_constant_time_equal_list pm_sha256_def PM_SHA256_SIZE_def demo_staged_def)
qed

lemma same_faults: "faults (cfg_nvs ce) = [] \<Longrightarrow> ce\<lparr>cfg_nvs := (cfg_nvs ce)\<lparr>faults := []\<rparr>\<rparr> = ce"
  by simp

definition demo_run :: "(esp_err list \<times> flat_json line_env \<times> string) list" where
  "demo_run = map (\<lambda>op. ([], demo_line_env, op)) [''begin_config'', ''test_config'', ''commit_config'']"

lemma demo_provision:
  "\<exists>c s ce'. provision (\<lambda>_. None) demo_run (pm_provisioning_session_init demo_config True True False True, demo_env []) = (s, ce') \<and>
     committed (cfg_nvs ce') = (ESP_OK, staged_config c) \<and> cfg_generation c = 8"
proof -
  let ?psa = "\<lambda>_. None" and ?s0 = "pm_provisioning_session_init demo_config True True False True"
  obtain c token where c: "candidate_fields (le_json demo_line_env) demo_candidate demo_config = Some (c, token)" "cfg_generation c = 8"
    "pm_config_validate c False = ESP_OK" and st: "staged_config c = c" "c\<lparr>cfg_crc32 := config_crc c\<rparr> = c"
    using demo_candidate_fields by blast
  note stg = demo_staging [of c, unfolded st(1), OF c(3,2)]
  define s1 where "s1 = ?s0\<lparr>ps_candidate := c, enrollment_token := token, candidate_present := True, ps_transaction := demo_t\<rparr>"
  define s2 where "s2 = s1\<lparr>tests_passed := True, ps_candidate := c, ps_transaction := demo_t\<lparr>stage := PM_CONFIG_STAGE_NETWORK_TESTED\<rparr>\<rparr>"
  have obj: "cJSON_GetObjectItem (le_json demo_line_env) (demo_request op) ''config'' = Some demo_candidate"
    "cJSON_IsObject (le_json demo_line_env) demo_candidate" for op
    by (simp_all add: demo_line_env_def flat_cjson_def demo_request_def demo_candidate_def)
  have gen: "cfg_generation demo_config \<noteq> - 1" by (simp add: demo_config_def)
  have clear: "clear_candidate_state (?s0, demo_env []) = (?s0, demo_env [])"
    by (simp add: clear_candidate_state_def pm_config_abort_def release_transaction_def pm_provisioning_session_init_def zero_transaction_def)
  have s0: "ps_active ?s0 = demo_config" "ps_transaction ?s0 = zero_transaction" "has_test ?s0" "\<not> has_factory_reset ?s0" "\<not> reboot_requested ?s0"
    and env: "le_begin_alloc demo_line_env" "le_commit_alloc demo_line_env" "le_test demo_line_env = (\<lambda>_ c _. (ESP_OK, c))"
    by (simp_all add: pm_provisioning_session_init_def demo_line_env_def)
  have b: "op_begin_config ?psa demo_line_env (Some demo_candidate) (?s0, demo_env []) =
      (accept_with [(''stage'', Com_String ''readback_verified'')], s1, demo_staged c)"
    using stg(1) c(1) obj(2) gen by (simp add: op_begin_config_def parse_candidate_def clear s1_def s0 env)
  have t: "op_test_config ?psa demo_line_env (s1, demo_staged c) =
      (accept_with [(''stage'', Com_String ''network_tls_enrollment_verified'')], s2, demo_staged c)"
    using stg(2,3) st(2) by (simp add: op_test_config_def Let_def s1_def s2_def test_stages_def env s0)
  obtain t3 ce3 where m: "pm_config_commit ?psa True (demo_t\<lparr>stage := PM_CONFIG_STAGE_NETWORK_TESTED\<rparr>) (demo_staged c) = (ESP_OK, t3, ce3)"
    using stg(4) by (metis prod.collapse)
  have "staged_in (demo_t\<lparr>stage := PM_CONFIG_STAGE_NETWORK_TESTED\<rparr>) (cfg_nvs (demo_staged c)) c"
    using c(3) st(1) by (simp add: staged_in_def demo_t_def slot_key_def demo_staged_def)
  from commit_staged(2) [OF this m] have fin: "committed (cfg_nvs ce3) = (ESP_OK, staged_config c)" by simp
  obtain s4 ce4 where cl: "clear_candidate_state (s2\<lparr>ps_transaction := t3, ps_active := c\<rparr>, ce3) = (s4, ce4)" by (metis prod.exhaust)
  have k: "op_commit_config ?psa demo_line_env (s2, demo_staged c) = (accept_with [(''stage'', Com_String ''committed'')], s4, ce4)"
    using m cl by (simp add: op_commit_config_def Let_def s2_def env)
  have faults: "(demo_env [])\<lparr>cfg_nvs := (cfg_nvs (demo_env []))\<lparr>faults := []\<rparr>\<rparr> = demo_env []"
    "(demo_staged c)\<lparr>cfg_nvs := (cfg_nvs (demo_staged c))\<lparr>faults := []\<rparr>\<rparr> = demo_staged c"
    by (simp_all add: demo_env_def demo_staged_def)
  have rr: "s1\<lparr>reboot_requested := False\<rparr> = s1" "s2\<lparr>reboot_requested := False\<rparr> = s2" "\<not> reboot_requested s1" "\<not> reboot_requested s2"
    by (simp_all add: s1_def s2_def pm_provisioning_session_init_def)
  have ops: "cstr ''begin_config'' = ''begin_config''" "cstr ''test_config'' = ''test_config''" "cstr ''commit_config'' = ''commit_config''"
    by (simp_all add: cstr_def)
  note line = demo_line [of _ ?psa "\<lambda>ce. (ESP_OK, ce)", unfolded demo_line_env_same]
  have "provision ?psa demo_run (?s0, demo_env []) = (s4\<lparr>reboot_requested := reboot_requested s4\<rparr>, ce4)"
    by (simp add: demo_run_def line ops faults run_operation_def obj b t k accept_with_def rr)
  moreover have "cfg_nvs ce4 = cfg_nvs ce3" using clear_candidate_simps(1) [OF cl] .
  ultimately show ?thesis using fin c(2) by (intro exI [of _ c]) simp
qed

theorem provisioning_commits_tested_witness:
  "\<exists>c0 token c. run_tests (le_test demo_line_env) test_stages c0 token = (ESP_OK, c) \<and>
     committed (cfg_nvs (snd (provision (\<lambda>_. None) demo_run
       (pm_provisioning_session_init demo_config True True False True, demo_env [])))) = (ESP_OK, staged_config c)"
proof -
  obtain c s ce' where p: "provision (\<lambda>_. None) demo_run (pm_provisioning_session_init demo_config True True False True, demo_env []) = (s, ce')"
    "committed (cfg_nvs ce') = (ESP_OK, staged_config c)" "cfg_generation c = 8" using demo_provision by blast
  have "\<forall>(fs, env, line) \<in> set demo_run. ESP_ERR_NVS_NOT_FOUND \<notin> set fs" by (auto simp: demo_run_def)
  from provisioning_commits_tested [OF this p(1)]
  have "committed (cfg_nvs ce') = (ESP_OK, staged_config demo_config) \<or>
    (\<exists>c0 token c. run_tests (le_test demo_line_env) test_stages c0 token = (ESP_OK, c) \<and> committed (cfg_nvs ce') = (ESP_OK, staged_config c))"
    by (auto simp: demo_run_def demo_committed)
  moreover have "cfg_generation (staged_config c) \<noteq> cfg_generation (staged_config demo_config)"
    using p(3) by (simp add: staged_config_def Let_def demo_config_def)
  ultimately show ?thesis using p(1,2) by (metis prod.inject snd_conv)
qed

theorem factory_reset_guarded_witness:
  "\<exists>s ce'. provision (\<lambda>_. None) [([], demo_line_env, ''factory_reset_prepare'')]
       (pm_provisioning_session_init demo_config True True True True, demo_env []) = (s, ce') \<and>
     pm_provisioning_handle_line (\<lambda>_. None) (demo_line_env\<lparr>le_factory_reset := (\<lambda>ce. (ESP_FAIL, ce))\<rparr>) ''factory_reset_commit'' []
        PM_COM_LINE_MAX (s, ce') \<noteq>
      pm_provisioning_handle_line (\<lambda>_. None) demo_line_env ''factory_reset_commit'' [] PM_COM_LINE_MAX (s, ce') \<and>
     physically_authorized s \<and> reset_confirmed [([], demo_line_env, ''factory_reset_prepare'')] demo_line_env ''factory_reset_commit''"
proof -
  let ?psa = "\<lambda>_. None" and ?fresh = "pm_provisioning_session_init demo_config True True True True"
  let ?armed = "?fresh\<lparr>factory_token := replicate 16 7, factory_token_expires_us := 60000005, reboot_requested := False\<rparr>"
  note line = demo_line [of _ ?psa "\<lambda>ce. (ESP_OK, ce)", unfolded demo_line_env_same]
  have env: "le_random demo_line_env = replicate 16 7" "le_now demo_line_env = 5" "le_factory_reset demo_line_env ce = (ESP_OK, ce)" for ce
    by (simp_all add: demo_line_env_def)
  have "(demo_env [])\<lparr>cfg_nvs := (cfg_nvs (demo_env []))\<lparr>faults := []\<rparr>\<rparr> = demo_env []" by (simp add: demo_env_def)
  then have p: "provision ?psa [([], demo_line_env, ''factory_reset_prepare'')] (?fresh, demo_env []) = (?armed, demo_env [])"
    by (simp add: line cstr_def run_operation_def op_factory_reset_prepare_def env accept_with_def pm_provisioning_session_init_def)
  have tok: "request_string (le_json demo_line_env) (demo_request op) ''confirmation_token'' = Some (pm_hex_lower (replicate 16 7))" for op
    by (simp add: request_string_def demo_line_env_def flat_cjson_def demo_request_def)
  have cs: "cstr (pm_hex_lower (replicate 16 7)) = pm_hex_lower (replicate 16 7)" by (rule cstr_id) (rule hex_lower_text(2))
  have "factory_reset_allowed 5 (Some (pm_hex_lower (replicate 16 7))) ?armed"
    unfolding factory_reset_allowed_def
    by (simp add: cs pm_constant_time_equal_list pm_provisioning_session_init_def)
  then have d: "pm_provisioning_handle_line ?psa (demo_line_env\<lparr>le_factory_reset := (\<lambda>ce. (ESP_FAIL, ce))\<rparr>) ''factory_reset_commit'' []
        PM_COM_LINE_MAX (?armed, demo_env []) \<noteq>
      pm_provisioning_handle_line ?psa demo_line_env ''factory_reset_commit'' [] PM_COM_LINE_MAX (?armed, demo_env [])"
    using demo_line_env_same
    by (simp add: line demo_line cstr_def run_operation_def op_factory_reset_commit_def tok env accept_with_def refuse_def)
  have "\<forall>(fs, env, line) \<in> set [([], demo_line_env, ''factory_reset_prepare'')]. length (le_random env) = 16" "0 < le_now demo_line_env"
    by (simp_all add: env)
  from factory_reset_guarded [OF p this d] p d show ?thesis by blast
qed

end
