(* ===== verification/PM_Enroll.thy ===== *)
theory PM_Enroll
  imports PM_Provisioning PM_Network
begin

text \<open>
  The Wi-Fi set-up and the five provisioning tests of pm_network_v2.c, among them the enrollment that gives a device its
  identifier and secret. The calls into ESP-IDF are parameters: their results are the fields of \<open>wifi_platform\<close> and
  \<open>enroll_peer\<close>.
\<close>

subsection \<open>Identifiers\<close>

definition net_hex_nibble :: "char \<Rightarrow> u8 option" where
  "net_hex_nibble c = (let v = of_char c :: nat in
     if 48 \<le> v \<and> v \<le> 57 then Some (of_nat (v - 48))
     else if 97 \<le> v \<and> v \<le> 102 then Some (of_nat (v - 97 + 10))
     else if 65 \<le> v \<and> v \<le> 70 then Some (of_nat (v - 65 + 10))
     else None)"

text \<open>The loop of \<open>parse_uuid\<close> with \<open>left\<close> bytes to go and \<open>source\<close> at the rest \<open>cs\<close> of the text, \<open>pos\<close> characters in.\<close>

fun uuid_bytes :: "nat \<Rightarrow> nat \<Rightarrow> string \<Rightarrow> u8 list option" where
  "uuid_bytes 0 pos cs = Some []"
| "uuid_bytes (Suc left) pos cs =
     (let (pos1, cs1) = (if pos = 8 \<or> pos = 13 \<or> pos = 18 \<or> pos = 23 then (pos + 1, drop 1 cs) else (pos, cs)) in
      case cs1 of
        h # l # rest \<Rightarrow>
          (case (net_hex_nibble h, net_hex_nibble l) of
             (Some high, Some low) \<Rightarrow> map_option (Cons (push_bit 4 high OR low)) (uuid_bytes left (pos1 + 2) rest)
           | _ \<Rightarrow> None)
      | _ \<Rightarrow> None)"

definition parse_uuid :: "string \<Rightarrow> u8 list option" where
  "parse_uuid v =
     (if length (cstr v) \<noteq> 36 \<or> cstr v ! 8 \<noteq> CHR ''-'' \<or> cstr v ! 13 \<noteq> CHR ''-'' \<or> cstr v ! 18 \<noteq> CHR ''-'' \<or> cstr v ! 23 \<noteq> CHR ''-''
      then None else uuid_bytes 16 0 (cstr v))"

subsection \<open>Wi-Fi\<close>

definition ESP_ERR_WIFI_CONN :: esp_err where "ESP_ERR_WIFI_CONN = ESP_ERR_CODE 0x3007"
definition ESP_ERR_WIFI_INIT_STATE :: esp_err where "ESP_ERR_WIFI_INIT_STATE = ESP_ERR_CODE 0x3013"

datatype wifi_event_id = WIFI_EVENT_STA_DISCONNECTED | IP_EVENT_STA_GOT_IP | WIFI_EVENT_OTHER

text \<open>The bits \<open>PM_WIFI_CONNECTED_BIT\<close> and \<open>PM_WIFI_FAILED_BIT\<close> of the event group.\<close>

definition wifi_event :: "wifi_event_id \<Rightarrow> bool \<times> bool \<Rightarrow> bool \<times> bool" where
  "wifi_event i bits = (case i of
     WIFI_EVENT_STA_DISCONNECTED \<Rightarrow> (False, True) | IP_EVENT_STA_GOT_IP \<Rightarrow> (True, False) | WIFI_EVENT_OTHER \<Rightarrow> bits)"

text \<open>\<open>xEventGroupWaitBits\<close> for either bit: the events are those that come before the time is up.\<close>

fun wait_wifi_bits :: "wifi_event_id list \<Rightarrow> bool \<times> bool \<Rightarrow> bool \<times> bool" where
  "wait_wifi_bits es (up, down) =
     (if up \<or> down then (up, down)
      else case es of [] \<Rightarrow> (False, False) | i # rest \<Rightarrow> wait_wifi_bits rest (wifi_event i (False, False)))"

record wifi_platform =
  wp_event_group :: bool
  wp_netif_init :: esp_err
  wp_event_loop :: esp_err
  wp_wifi_init :: esp_err
  wp_set_ip_info :: esp_err
  wp_set_dns_info :: esp_err
  wp_set_mode :: esp_err
  wp_set_config :: esp_err
  wp_start :: esp_err
  wp_connect :: esp_err
  wp_events :: "wifi_event_id list"

text \<open>The station settings handed to the driver, and the static address when one is set.\<close>

record station =
  sta_ssid :: string
  sta_password :: string
  sta_static :: "(u32 \<times> u32 \<times> u32 \<times> u32) option"

definition configure_wifi :: "wifi_platform \<Rightarrow> pm_config \<Rightarrow> esp_err \<times> station option" where
  "configure_wifi w config =
     (if \<not> wp_event_group w then (ESP_ERR_NO_MEM, None)
      else if wp_netif_init w \<noteq> ESP_OK \<and> wp_netif_init w \<noteq> ESP_ERR_INVALID_STATE then (wp_netif_init w, None)
      else if wp_event_loop w \<noteq> ESP_OK \<and> wp_event_loop w \<noteq> ESP_ERR_INVALID_STATE then (wp_event_loop w, None)
      else if wp_wifi_init w \<noteq> ESP_OK \<and> wp_wifi_init w \<noteq> ESP_ERR_WIFI_INIT_STATE then (wp_wifi_init w, None)
      else
        let static_error = (if ipv4_mode config \<noteq> PM_IPV4_STATIC then ESP_OK
                            else if wp_set_ip_info w \<noteq> ESP_OK then wp_set_ip_info w else wp_set_dns_info w);
            e = (if static_error \<noteq> ESP_OK then static_error
                 else if wp_set_mode w \<noteq> ESP_OK then wp_set_mode w
                 else if wp_set_config w \<noteq> ESP_OK then wp_set_config w else wp_start w);
            sta = \<lparr>sta_ssid = cstr (wifi_ssid config), sta_password = cstr (wifi_password config),
                   sta_static = (if ipv4_mode config = PM_IPV4_STATIC
                                 then Some (ipv4_address config, ipv4_gateway config, ipv4_netmask config, dns_primary config) else None)\<rparr>
        in (if e = ESP_ERR_WIFI_CONN then ESP_OK else e,
            if static_error = ESP_OK \<and> wp_set_mode w = ESP_OK \<and> wp_set_config w = ESP_OK then Some sta else None))"

definition connect_wifi_bounded :: "wifi_platform \<Rightarrow> esp_err" where
  "connect_wifi_bounded w =
     (if wp_connect w \<noteq> ESP_OK then wp_connect w
      else if fst (wait_wifi_bits (wp_events w) (False, False)) then ESP_OK else ESP_ERR_TIMEOUT)"

subsection \<open>Enrollment\<close>

definition PM_ENROLL_ENDPOINT :: string where "PM_ENROLL_ENDPOINT = ''/api/v1/devices/enroll''"

record 'j enroll_peer =
  ep_json :: "'j cjson"
  ep_wifi :: wifi_platform
  ep_ip_info :: "(esp_err \<times> u32) option"
  ep_client :: bool
  ep_perform :: "string \<Rightarrow> esp_err"
  ep_status :: int
  ep_object :: bool
  ep_version :: string
  ep_mac :: "u8 list option"
  ep_print :: "com_object \<Rightarrow> nat \<Rightarrow> bool \<times> string"
  ep_open :: "string \<Rightarrow> esp_err"
  ep_written :: int
  ep_content_length :: int
  ep_response :: string

definition enrollment_url :: "pm_config \<Rightarrow> string" where
  "enrollment_url candidate = cstr (store_str (PM_CONFIG_ORIGIN_MAX + 32) (cstr (server_origin candidate) @ PM_ENROLL_ENDPOINT))"

definition hardware_fingerprint :: "u8 list \<Rightarrow> string" where
  "hardware_fingerprint mac = ''esp32s3-'' @ pm_hex_lower (take 6 mac)"

definition enrollment_body :: "'j enroll_peer \<Rightarrow> char list \<Rightarrow> esp_err + string" where
  "enrollment_body p token =
     (if \<not> ep_object p then Inl ESP_ERR_NO_MEM
      else case ep_mac p of
        None \<Rightarrow> Inl ESP_FAIL
      | Some mac \<Rightarrow>
        (case ep_print p [(''enrollment_token'', Com_String (cstr token)), (''protocol_id'', Com_String PM_PROTOCOL_ID),
             (''firmware_version'', Com_String (ep_version p)), (''hardware_fingerprint'', Com_String (hardware_fingerprint mac))] 768 of
           (printed, out) \<Rightarrow> if printed then Inr (cstr out) else Inl ESP_ERR_INVALID_SIZE))"

text \<open>The request: all its failures become one error.\<close>

definition enrollment_answer :: "'j enroll_peer \<Rightarrow> string \<Rightarrow> string \<Rightarrow> esp_err + string" where
  "enrollment_answer p url body =
     (if ep_open p url \<noteq> ESP_OK \<or> ep_written p \<noteq> int (length body) \<or> ep_content_length p < 0 \<or> ep_content_length p \<ge> 768 \<or>
         take 767 (ep_response p) = [] \<or> ep_status p \<noteq> 201
      then Inl ESP_ERR_INVALID_RESPONSE else Inr (take 767 (ep_response p)))"

definition enrolled_credentials ::
    "psa_hash \<Rightarrow> (string \<Rightarrow> u8 list option) \<Rightarrow> 'j cjson \<Rightarrow> string \<Rightarrow> (u8 list \<times> u8 list) option" where
  "enrolled_credentials psa b64dec J response = do {
     root_item \<leftarrow> cJSON_Parse J (cstr response);
     proto \<leftarrow> request_string J root_item ''protocol_id'';
     dev_id \<leftarrow> request_string J root_item ''device_id'';
     parsed_id \<leftarrow> (if cstr proto \<noteq> PM_PROTOCOL_ID then None else parse_uuid dev_id);
     secret \<leftarrow> request_string J root_item ''device_secret'';
     credential_fingerprint \<leftarrow> request_string J root_item ''credential_fingerprint'';
     parsed_secret \<leftarrow> b64dec (cstr secret);
     (if length parsed_secret \<noteq> 32 then None
      else if length (cstr credential_fingerprint) = 64 \<and>
              pm_constant_time_equal (chars_bytes (pm_hex_lower (pm_sha256 psa parsed_secret)))
                (chars_bytes (cstr credential_fingerprint)) 64
      then Some (parsed_id, parsed_secret) else None)
   }"

definition enroll ::
    "psa_hash \<Rightarrow> (string \<Rightarrow> u8 list option) \<Rightarrow> 'j enroll_peer \<Rightarrow> pm_config \<Rightarrow> char list \<Rightarrow> esp_err \<times> pm_config" where
  "enroll psa b64dec p candidate token =
     (if cstr token = [] then (ESP_ERR_INVALID_ARG, candidate)
      else case enrollment_body p token of
        Inl e \<Rightarrow> (e, candidate)
      | Inr body \<Rightarrow>
        (case enrollment_answer p (enrollment_url candidate) body of
           Inl e \<Rightarrow> (e, candidate)
         | Inr response \<Rightarrow>
           (case enrolled_credentials psa b64dec (ep_json p) response of
              None \<Rightarrow> (ESP_ERR_INVALID_RESPONSE, candidate)
            | Some (parsed_id, parsed_secret) \<Rightarrow>
                (ESP_OK, candidate\<lparr>device_id := parsed_id, device_secret := parsed_secret, device_secret_len := 32\<rparr>))))"

definition pm_network_provisioning_test ::
    "psa_hash \<Rightarrow> (string \<Rightarrow> u8 list option) \<Rightarrow> (pm_provisioning_test_stage \<Rightarrow> 'j enroll_peer) \<Rightarrow>
      pm_provisioning_test_stage \<Rightarrow> pm_config \<Rightarrow> char list \<Rightarrow> esp_err \<times> pm_config" where
  "pm_network_provisioning_test psa b64dec peer st candidate token =
     (let p = peer st in
      case st of
        PM_PROVISIONING_TEST_WIFI \<Rightarrow>
          (case configure_wifi (ep_wifi p) candidate of (e, _) \<Rightarrow>
             (if e = ESP_OK then connect_wifi_bounded (ep_wifi p) else e, candidate))
      | PM_PROVISIONING_TEST_IPV4 \<Rightarrow>
          (case ep_ip_info p of Some (ESP_OK, addr) \<Rightarrow> if addr \<noteq> 0 then ESP_OK else ESP_ERR_INVALID_STATE | _ \<Rightarrow> ESP_ERR_INVALID_STATE, candidate)
      | PM_PROVISIONING_TEST_DNS \<Rightarrow> (ESP_OK, candidate)
      | PM_PROVISIONING_TEST_TLS \<Rightarrow>
          (if \<not> ep_client p then ESP_ERR_NO_MEM
           else let e = ep_perform p (enrollment_url candidate) in
             if e = ESP_OK \<and> (ep_status p < 200 \<or> ep_status p \<ge> 500) then ESP_ERR_INVALID_RESPONSE else e, candidate)
      | PM_PROVISIONING_TEST_ENROLLMENT \<Rightarrow> if \<not> ep_client p then (ESP_ERR_NO_MEM, candidate) else enroll psa b64dec p candidate token)"

subsection \<open>What the tests guarantee\<close>

lemma net_hex_nibble_lower: "hex_nibble c = Some k \<Longrightarrow> net_hex_nibble c = Some (of_nat k)"
  by (auto simp: hex_nibble_def net_hex_nibble_def Let_def split: if_splits)

lemma nibble_digit: "unat x < 16 \<Longrightarrow> net_hex_nibble (hex_digit x) = Some x" for x :: u8
  using net_hex_nibble_lower [OF hex_nibble_digit, of x] by simp

text \<open>Reading bytes back from their digits, as long as no hyphen is due.\<close>

lemma uuid_bytes_plain:
  "\<forall>k < length d. pos + 2 * k \<notin> {8, 13, 18, 23} \<Longrightarrow> uuid_bytes (length d + n) pos (pm_hex_lower d @ cs) =
     map_option ((@) d) (uuid_bytes n (pos + 2 * length d) cs)"
proof (induction d arbitrary: pos)
  case (Cons b d)
  have "pos \<notin> {8, 13, 18, 23}" using Cons.prems [THEN spec, of 0] by simp
  moreover have "\<forall>k < length d. pos + 2 + 2 * k \<notin> {8, 13, 18, 23}" using Cons.prems by force
  moreover have "net_hex_nibble (hex_digit (drop_bit 4 b)) = Some (drop_bit 4 b)" "net_hex_nibble (hex_digit (b AND 0x0F)) = Some (b AND 0x0F)"
    by (rule nibble_digit, rule hex_digit_less)+
  ultimately show ?case
    using Cons.IH [of "pos + 2"] by (simp add: pm_hex_lower_def nibbles_join option.map_comp comp_def)
next
  case Nil
  then show ?case by (cases "uuid_bytes n pos cs") (simp_all add: pm_hex_lower_def)
qed

lemma uuid_bytes_hyphen:
  "pos \<in> {8, 13, 18, 23} \<Longrightarrow> uuid_bytes (Suc n) pos (c # cs) = uuid_bytes (Suc n) (pos + 1) cs"
  by auto

lemma uuid_bytes_group:
  assumes "pos \<in> {8, 13, 18, 23}" "length d = Suc m" "\<forall>k < length d. pos + 1 + 2 * k \<notin> {8, 13, 18, 23}"
  shows "uuid_bytes (length d + n) pos (CHR ''-'' # pm_hex_lower d @ cs) = map_option ((@) d) (uuid_bytes n (pos + 1 + 2 * length d) cs)"
  using uuid_bytes_hyphen [OF assms(1), of "m + n" "CHR ''-''" "pm_hex_lower d @ cs"] uuid_bytes_plain [OF assms(3), of n cs] assms(2)
  by simp

lemma uuid_groups:
  "length d = 2 \<Longrightarrow> pos \<in> {8, 13, 18} \<Longrightarrow> uuid_bytes (2 + n) pos (CHR ''-'' # pm_hex_lower d @ cs) =
     map_option ((@) d) (uuid_bytes n (pos + 5) cs)"
  "length a = 4 \<Longrightarrow> uuid_bytes (4 + n) 0 (pm_hex_lower a @ cs) = map_option ((@) a) (uuid_bytes n 8 cs)"
  "length e = 6 \<Longrightarrow> uuid_bytes 6 23 (CHR ''-'' # pm_hex_lower e) = Some e"
proof -
  assume d: "length d = 2" "pos \<in> {8, 13, 18}"
  then have "\<forall>k < length d. pos + 1 + 2 * k \<notin> {8, 13, 18, 23}" by (auto simp: less_2_cases_iff)
  moreover have "pos \<in> {8, 13, 18, 23}" "length d = Suc 1" using d by auto
  ultimately have "uuid_bytes (length d + n) pos (CHR ''-'' # pm_hex_lower d @ cs) = map_option ((@) d) (uuid_bytes n (pos + 1 + 2 * length d) cs)"
    by (intro uuid_bytes_group)
  moreover have "pos + 1 + 2 * length d = pos + 5" using d by simp
  ultimately show "uuid_bytes (2 + n) pos (CHR ''-'' # pm_hex_lower d @ cs) = map_option ((@) d) (uuid_bytes n (pos + 5) cs)"
    by (simp only: d(1))
next
  assume a: "length a = 4"
  then have "\<forall>k < length a. 0 + 2 * k \<notin> {8, 13, 18, 23}" by auto
  from uuid_bytes_plain [OF this, of n cs] a
  show "uuid_bytes (4 + n) 0 (pm_hex_lower a @ cs) = map_option ((@) a) (uuid_bytes n 8 cs)" by simp
next
  assume e: "length e = 6"
  then have "\<forall>k < length e. 23 + 1 + 2 * k \<notin> {8, 13, 18, 23}" by auto
  with uuid_bytes_group [of 23 e 5 0 "[]"] e show "uuid_bytes 6 23 (CHR ''-'' # pm_hex_lower e) = Some e" by simp
qed

text \<open>
  The identifier text and its parser agree: the text that \<open>format_device_id\<close> gives for sixteen bytes has 36 characters
  and \<open>parse_uuid\<close> reads the same bytes back from it.
\<close>

theorem device_id_roundtrip:
  assumes "length i = 16"
  shows "length (format_device_id i) = 36 \<and> parse_uuid (format_device_id i) = Some i"
proof -
  define a b c d e where "a = take 4 i" and "b = take 2 (drop 4 i)" and "c = take 2 (drop 6 i)" and "d = take 2 (drop 8 i)"
    and "e = take 6 (drop 10 i)"
  note parts = a_def b_def c_def d_def e_def
  have len: "length a = 4" "length b = 2" "length c = 2" "length d = 2" "length e = 6" using assms by (simp_all add: parts)
  have i: "i = a @ b @ c @ d @ e"
    using append_take_drop_id [of 4 i] append_take_drop_id [of 2 "drop 4 i"] append_take_drop_id [of 2 "drop 6 i"]
      append_take_drop_id [of 2 "drop 8 i"] assms by (simp add: parts)
  have shape: "format_device_id i = pm_hex_lower a @ ''-'' @ pm_hex_lower b @ ''-'' @ pm_hex_lower c @ ''-'' @ pm_hex_lower d @ ''-'' @ pm_hex_lower e"
    by (simp add: format_device_id_def parts)
  have "NUL \<notin> set (format_device_id i)" unfolding shape using hex_lower_text(2) by auto
  then have cs: "cstr (format_device_id i) = format_device_id i" by (rule cstr_id)
  have at: "format_device_id i ! 8 = CHR ''-''" "format_device_id i ! 13 = CHR ''-''" "format_device_id i ! 18 = CHR ''-''"
    "format_device_id i ! 23 = CHR ''-''"
    unfolding shape by (simp_all add: nth_append len)
  have "uuid_bytes (2 + 6) 18 (CHR ''-'' # pm_hex_lower d @ CHR ''-'' # pm_hex_lower e) = Some (d @ e)"
    using uuid_groups(1) [OF len(4), of 18 6] uuid_groups(3) [OF len(5)] by simp
  then have "uuid_bytes (2 + 8) 13 (CHR ''-'' # pm_hex_lower c @ CHR ''-'' # pm_hex_lower d @ CHR ''-'' # pm_hex_lower e) = Some (c @ d @ e)"
    using uuid_groups(1) [OF len(3), of 13 8] by simp
  then have "uuid_bytes (2 + 10) 8 (CHR ''-'' # pm_hex_lower b @ CHR ''-'' # pm_hex_lower c @ CHR ''-'' # pm_hex_lower d @ CHR ''-'' # pm_hex_lower e) =
      Some (b @ c @ d @ e)"
    using uuid_groups(1) [OF len(2), of 8 10] by simp
  then have "uuid_bytes 16 0 (format_device_id i) = Some i"
    using uuid_groups(2) [OF len(1), of 12] by (simp add: shape i [symmetric])
  then show ?thesis using at cs by (simp add: parse_uuid_def) (simp add: shape len)
qed

theorem device_id_roundtrip_witness:
  "parse_uuid (format_device_id (replicate 16 0xAB)) = Some (replicate 16 0xAB)"
  using device_id_roundtrip [of "replicate 16 0xAB"] by simp

lemma enrolled_credentials_Some:
  assumes "enrolled_credentials psa b64dec J response = Some (i, secret)"
  shows "length secret = 32" "\<exists>j t. cJSON_Parse J (cstr response) = Some j \<and> request_string J j ''device_id'' = Some t \<and> parse_uuid t = Some i"
    "\<exists>j v. cJSON_Parse J (cstr response) = Some j \<and> request_string J j ''credential_fingerprint'' = Some v \<and>
       cstr v = pm_hex_lower (pm_sha256 psa secret)"
    "\<exists>j v. cJSON_Parse J (cstr response) = Some j \<and> request_string J j ''device_secret'' = Some v \<and> b64dec (cstr v) = Some secret"
  using assms
  by (auto simp: enrolled_credentials_def bind_eq_Some_conv pm_constant_time_equal_list chars_bytes_inj length_pm_sha256 split: if_splits)

lemma provisioning_test_keeps:
  assumes "pm_network_provisioning_test psa b64dec peer st c token = (e, c')" "st \<noteq> PM_PROVISIONING_TEST_ENROLLMENT \<or> e \<noteq> ESP_OK"
  shows "c' = c"
  using assms
  by (auto simp: pm_network_provisioning_test_def Let_def enroll_def split: pm_provisioning_test_stage.splits prod.splits if_splits sum.splits option.splits)

lemma enrollment_body_error: "enrollment_body p token \<noteq> Inl ESP_OK"
  by (simp add: enrollment_body_def split: option.splits prod.splits)

lemma tests_reach_enrollment:
  assumes "run_tests (pm_network_provisioning_test psa b64dec peer) test_stages c token = (e, c')"
  shows "e \<noteq> ESP_OK \<and> c' = c \<or> fst (pm_network_provisioning_test psa b64dec peer PM_PROVISIONING_TEST_WIFI c token) = ESP_OK \<and>
    pm_network_provisioning_test psa b64dec peer PM_PROVISIONING_TEST_ENROLLMENT c token = (e, c')"
proof -
  let ?t = "\<lambda>st. pm_network_provisioning_test psa b64dec peer st c token"
  have "?t st = (fst (?t st), c)" if "st \<noteq> PM_PROVISIONING_TEST_ENROLLMENT" for st
    using provisioning_test_keeps [of psa b64dec peer st c token] that by (metis prod.collapse)
  from this [of PM_PROVISIONING_TEST_WIFI] this [of PM_PROVISIONING_TEST_IPV4] this [of PM_PROVISIONING_TEST_DNS] this [of PM_PROVISIONING_TEST_TLS]
  obtain w i d t where "?t PM_PROVISIONING_TEST_WIFI = (w, c)" "?t PM_PROVISIONING_TEST_IPV4 = (i, c)" "?t PM_PROVISIONING_TEST_DNS = (d, c)"
    "?t PM_PROVISIONING_TEST_TLS = (t, c)" by simp_all
  then show ?thesis using assms by (auto simp: test_stages_def split: if_splits prod.splits)
qed

text \<open>
  C30. The tests give a candidate exactly the credentials the server issued. The candidate leaves the five tests unchanged
  unless all of them pass. Then the station was connected, the token was not empty, the server answered 201, and
  of the candidate only the identifier and the secret changed: to the identifier in the answer and to the 32 bytes its base64 text decodes to,
  whose SHA-256 is the fingerprint the answer carries.
\<close>

theorem enrollment_credentials_bound:
  assumes "run_tests (pm_network_provisioning_test psa b64dec peer) test_stages c token = (e, c')"
  shows "if e \<noteq> ESP_OK then c' = c
    else connect_wifi_bounded (ep_wifi (peer PM_PROVISIONING_TEST_WIFI)) = ESP_OK \<and> cstr token \<noteq> [] \<and>
      (let p = peer PM_PROVISIONING_TEST_ENROLLMENT; answer = cJSON_Parse (ep_json p) (cstr (take 767 (ep_response p))) in
       ep_status p = 201 \<and>
       (\<exists>j idt st fpr i secret. answer = Some j \<and> request_string (ep_json p) j ''device_id'' = Some idt \<and>
          request_string (ep_json p) j ''device_secret'' = Some st \<and> request_string (ep_json p) j ''credential_fingerprint'' = Some fpr \<and>
          parse_uuid idt = Some i \<and> b64dec (cstr st) = Some secret \<and> length secret = 32 \<and> cstr fpr = pm_hex_lower (pm_sha256 psa secret) \<and>
          c' = c\<lparr>device_id := i, device_secret := secret, device_secret_len := 32\<rparr>))"
proof (cases "e = ESP_OK")
  case False
  then show ?thesis
    using tests_reach_enrollment [OF assms] provisioning_test_keeps [of psa b64dec peer PM_PROVISIONING_TEST_ENROLLMENT c token] by auto
next
  case True
  let ?p = "peer PM_PROVISIONING_TEST_ENROLLMENT"
  have w: "fst (pm_network_provisioning_test psa b64dec peer PM_PROVISIONING_TEST_WIFI c token) = ESP_OK"
    and t: "pm_network_provisioning_test psa b64dec peer PM_PROVISIONING_TEST_ENROLLMENT c token = (ESP_OK, c')"
    using tests_reach_enrollment [OF assms] True by auto
  have "connect_wifi_bounded (ep_wifi (peer PM_PROVISIONING_TEST_WIFI)) = ESP_OK"
    using w by (auto simp: pm_network_provisioning_test_def Let_def split: prod.splits if_splits)
  moreover obtain i secret where cr: "enrolled_credentials psa b64dec (ep_json ?p) (take 767 (ep_response ?p)) = Some (i, secret)"
    "cstr token \<noteq> []" "ep_status ?p = 201" "c' = c\<lparr>device_id := i, device_secret := secret, device_secret_len := 32\<rparr>"
    using t enrollment_body_error [of ?p token] by (auto simp: pm_network_provisioning_test_def Let_def enroll_def enrollment_answer_def
        split: if_splits sum.splits option.splits prod.splits)
  moreover obtain j idt st fpr where "cJSON_Parse (ep_json ?p) (cstr (take 767 (ep_response ?p))) = Some j"
    "request_string (ep_json ?p) j ''device_id'' = Some idt" "parse_uuid idt = Some i"
    "request_string (ep_json ?p) j ''device_secret'' = Some st" "b64dec (cstr st) = Some secret"
    "request_string (ep_json ?p) j ''credential_fingerprint'' = Some fpr" "cstr fpr = pm_hex_lower (pm_sha256 psa secret)"
    using enrolled_credentials_Some(2-4) [OF cr(1)] by force
  ultimately show ?thesis using True enrolled_credentials_Some(1) [OF cr(1)] by (auto simp: Let_def)
qed

definition demo_peer :: "flat_json enroll_peer" where
  "demo_peer = \<lparr>ep_json = flat_cjson (\<lambda>_. Some (FObject [(''protocol_id'', FString PM_PROTOCOL_ID),
       (''device_id'', FString (format_device_id (replicate 16 1))), (''device_secret'', FString ''S''),
       (''credential_fingerprint'', FString (pm_hex_lower (replicate 32 7)))])),
     ep_wifi = \<lparr>wp_event_group = True, wp_netif_init = ESP_OK, wp_event_loop = ESP_ERR_INVALID_STATE, wp_wifi_init = ESP_OK,
       wp_set_ip_info = ESP_OK, wp_set_dns_info = ESP_OK, wp_set_mode = ESP_OK, wp_set_config = ESP_OK, wp_start = ESP_OK, wp_connect = ESP_OK,
       wp_events = [WIFI_EVENT_OTHER, IP_EVENT_STA_GOT_IP]\<rparr>,
     ep_ip_info = Some (ESP_OK, 1), ep_client = True, ep_perform = (\<lambda>_. ESP_OK), ep_status = 201, ep_object = True, ep_version = ''1.2.0'',
     ep_mac = Some (replicate 6 1), ep_print = (\<lambda>_ _. (True, ''{}'')), ep_open = (\<lambda>_. ESP_OK), ep_written = 2, ep_content_length = 5,
     ep_response = ''{...}''\<rparr>"

theorem enrollment_credentials_bound_witness:
  "\<exists>c'. run_tests (pm_network_provisioning_test (\<lambda>_. Some (replicate 32 7)) (\<lambda>_. Some (replicate 32 9)) (\<lambda>_. demo_peer)) test_stages
       demo_config ''token'' = (ESP_OK, c') \<and> device_secret c' = replicate 32 9 \<and> device_secret_len c' = 32"
proof -
  let ?psa = "\<lambda>_. Some (replicate 32 7)" and ?dec = "\<lambda>_. Some (replicate 32 9)"
  have id: "parse_uuid (format_device_id (replicate 16 1)) = Some (replicate 16 1)"
    by code_simp
  have fpr: "cstr (pm_hex_lower (replicate 32 7)) = pm_hex_lower (replicate 32 7)" by (rule cstr_id) (rule hex_lower_text(2))
  have str: "cstr PM_PROTOCOL_ID = PM_PROTOCOL_ID" "cstr ''token'' = ''token''" "cstr ''{}'' = ''{}''" "cstr ''{...}'' = ''{...}''"
    by (simp_all add: cstr_def PM_PROTOCOL_ID_def)
  have sha: "pm_sha256 ?psa (replicate 32 9) = replicate 32 7" by (simp add: pm_sha256_def PM_SHA256_SIZE_def)
  have "enrolled_credentials ?psa ?dec (ep_json demo_peer) ''{...}'' = Some (replicate 16 1, replicate 32 9)"
    by (simp add: enrolled_credentials_def demo_peer_def flat_cjson_def request_string_def str id fpr sha pm_constant_time_equal_list)
  moreover have body: "enrollment_body demo_peer ''token'' = Inr ''{}''" by (simp add: enrollment_body_def demo_peer_def str)
  moreover have answer: "enrollment_answer demo_peer url ''{}'' = Inr ''{...}''" for url by (simp add: enrollment_answer_def demo_peer_def)
  ultimately have e: "enroll ?psa ?dec demo_peer demo_config ''token'' =
      (ESP_OK, demo_config\<lparr>device_id := replicate 16 1, device_secret := replicate 32 9, device_secret_len := 32\<rparr>)"
    using body answer by (simp add: enroll_def str)
  have "connect_wifi_bounded (ep_wifi demo_peer) = ESP_OK"
    by (simp add: connect_wifi_bounded_def demo_peer_def wifi_event_def)
  moreover have "fst (configure_wifi (ep_wifi demo_peer) demo_config) = ESP_OK"
    by (simp add: demo_peer_def configure_wifi_def Let_def ESP_ERR_WIFI_CONN_def demo_config_def zero_config_def)
  moreover have "ep_ip_info demo_peer = Some (ESP_OK, 1)" "ep_client demo_peer" "ep_perform demo_peer url = ESP_OK" "ep_status demo_peer = 201" for url
    by (simp_all add: demo_peer_def)
  ultimately have r: "run_tests (pm_network_provisioning_test ?psa ?dec (\<lambda>_. demo_peer)) test_stages demo_config ''token'' =
      (ESP_OK, demo_config\<lparr>device_id := replicate 16 1, device_secret := replicate 32 9, device_secret_len := 32\<rparr>)"
    using e by (simp add: test_stages_def pm_network_provisioning_test_def Let_def case_prod_beta)
  from enrollment_credentials_bound [OF r] r show ?thesis by (auto simp: Let_def)
qed

end
