(* ===== verification/PM_Boot.thy ===== *)
theory PM_Boot
  imports PM_App_Safety PM_Identity PM_Enroll PM_Startup
begin

text \<open>
  The start of the firmware, \<open>app_main\<close> of main/app_main_stateless.c: identity, command ledger, configuration, the choice between
  provisioning and operation, the runtime tasks and their start gate, the confirmation of an update and the settlement of
  commands. Results of ESP-IDF calls and readings of the clock are fields of \<open>boot_env\<close>.

  The rounds that the tasks run once their gate is open are the subject of \<open>PM_App\<close> and \<open>PM_Network_Task\<close>; here a task contributes
  the bits it sets when it begins.
\<close>

subsection \<open>The start gate\<close>

definition PM_RUNTIME_START_BIT :: u32 where "PM_RUNTIME_START_BIT = 1"
definition PM_NETWORK_START_BIT :: u32 where "PM_NETWORK_START_BIT = 2"
definition PM_MEASUREMENT_READY_BIT :: u32 where "PM_MEASUREMENT_READY_BIT = 4"
definition PM_CONTROL_READY_BIT :: u32 where "PM_CONTROL_READY_BIT = 8"
definition PM_SUPERVISOR_READY_BIT :: u32 where "PM_SUPERVISOR_READY_BIT = 16"
definition PM_RUNTIME_TASK_FAILED_BIT :: u32 where "PM_RUNTIME_TASK_FAILED_BIT = 32"

definition PM_RUNTIME_READY_BITS :: u32 where
  "PM_RUNTIME_READY_BITS = PM_MEASUREMENT_READY_BIT OR PM_CONTROL_READY_BIT OR PM_SUPERVISOR_READY_BIT"

lemmas gate_bits = PM_RUNTIME_START_BIT_def PM_NETWORK_START_BIT_def PM_MEASUREMENT_READY_BIT_def PM_CONTROL_READY_BIT_def
  PM_SUPERVISOR_READY_BIT_def PM_RUNTIME_TASK_FAILED_BIT_def PM_RUNTIME_READY_BITS_def

text \<open>A task that waits for the gate runs on when the bit is set; before, it waits.\<close>

definition begin_runtime_task :: "u32 \<Rightarrow> esp_err \<Rightarrow> u32 \<Rightarrow> bool \<times> u32" where
  "begin_runtime_task ready_bit wdt bits =
     (if bits AND PM_RUNTIME_START_BIT = 0 then (False, bits)
      else if wdt \<noteq> ESP_OK then (False, bits OR PM_RUNTIME_TASK_FAILED_BIT)
      else (True, bits OR ready_bit))"

datatype runtime_task = Measurement_Task | Control_Task | Supervisor_Task

fun task_ready_bit :: "runtime_task \<Rightarrow> u32" where
  "task_ready_bit Measurement_Task = PM_MEASUREMENT_READY_BIT"
| "task_ready_bit Control_Task = PM_CONTROL_READY_BIT"
| "task_ready_bit Supervisor_Task = PM_SUPERVISOR_READY_BIT"

text \<open>The tasks that begin before the wait of \<open>app_main\<close> ends, with the result of joining the watchdog.\<close>

definition begin_tasks :: "(runtime_task \<times> esp_err) list \<Rightarrow> u32 \<Rightarrow> u32" where
  "begin_tasks ts bits = foldl (\<lambda>bits (t, wdt). snd (begin_runtime_task (task_ready_bit t) wdt bits)) bits ts"

subsection \<open>State and environment\<close>

record boot =
  b_app :: app
  b_identity :: "local_identity nvs"
  b_config :: config_env
  b_runtime :: runtime
  b_bits :: u32

record boot_env =
  be_clock :: "nat \<Rightarrow> int"
  be_nvs_init :: esp_err
  be_random :: "u8 list"
  be_commands_lock :: bool
  be_gpio :: esp_err
  be_readings :: "(int \<times> bool) list"
  be_usb :: usb_platform
  be_uart :: uart
  be_physical_reads :: bool
  be_simulated :: bool
  be_static_objects :: bool
  be_mutex :: "bool option"
  be_boot_id :: "u8 list"
  be_network_alloc :: bool
  be_network_mutex :: "bool option \<times> bool"
  be_wifi :: wifi_platform
  be_network_task :: bool
  be_begun :: "(runtime_task \<times> esp_err) list"
  be_ledger_lock :: bool
  be_reconcile_alloc :: "nat \<Rightarrow> bool"

datatype boot_outcome =
  Boot_Halted | Boot_Provisioning esp_err "usb_task_state option" | Boot_Restarts | Boot_Running

definition transition_state :: "pm_state_event \<Rightarrow> int \<Rightarrow> boot \<Rightarrow> boot" where
  "transition_state event now b = b\<lparr>b_app := set_degraded event now (b_app b)\<rparr>"

subsection \<open>Identity, ledger, configuration\<close>

definition boot_identity :: "psa_hash \<Rightarrow> boot_env \<Rightarrow> boot \<Rightarrow> u8 list option \<times> boot" where
  "boot_identity psa env b =
     (if be_nvs_init env \<noteq> ESP_OK then (None, b)
      else case load_or_create_identity (be_random env) (b_identity b) of
        (Inl _, n) \<Rightarrow> (None, b\<lparr>b_identity := n\<rparr>)
      | (Inr identity, n) \<Rightarrow>
          (case pm_commands_load (be_commands_lock env) psa (a_ledger (b_app b)) (a_store (b_app b)) of (e, l, st) \<Rightarrow>
             (if e = ESP_OK then Some identity else None,
              b\<lparr>b_identity := n, b_app := (b_app b)\<lparr>a_ledger := l, a_store := st\<rparr>\<rparr>)))"

definition unprovisioned_config :: "u8 list \<Rightarrow> pm_config" where
  "unprovisioned_config identity = zero_config\<lparr>schema_version := 1, device_id := identity, ct_rating_a := 100,
     meter_variant := PM_METER_PZEM004T_V4_CLASSIC\<rparr>"

text \<open>\<open>None\<close> when the enrolled identity could not be stored; else whether the device is provisioned, and its configuration.\<close>

definition boot_config :: "u8 list \<Rightarrow> boot \<Rightarrow> (bool \<times> pm_config) option \<times> boot" where
  "boot_config identity b =
     (case pm_config_load (cfg_nvs (b_config b)) of ((e, c), n) \<Rightarrow>
        let b1 = b\<lparr>b_config := (b_config b)\<lparr>cfg_nvs := n\<rparr>\<rparr> in
        if e \<noteq> ESP_OK then (Some (False, unprovisioned_config identity), b1)
        else if device_id c \<noteq> identity
        then (case persist_identity (device_id c) (b_identity b1) of (e2, n2) \<Rightarrow>
                (if e2 = ESP_OK then Some (True, c) else None, b1\<lparr>b_identity := n2\<rparr>))
        else (Some (True, c), b1))"

definition boot_time :: "boot_env \<Rightarrow> boot \<Rightarrow> boot" where
  "boot_time env b =
     (case pm_time_load_checkpoint (pm_time_init (be_clock env 2)) (be_clock env 3) (a_time_store (b_app b)) of (_, tm, n) \<Rightarrow>
        b\<lparr>b_app := (b_app b)\<lparr>a_time := tm, a_time_store := n\<rparr>\<rparr>)"

subsection \<open>The runtime\<close>

definition runtime_tasks :: "pm_runtime_task_spec list" where
  "runtime_tasks =
     [\<lparr>ts_function = Some 0, ts_name = Some ''pm_measurement'', ts_stack_depth = 4096, ts_argument = None, ts_priority = 12, ts_handle = Some 0\<rparr>,
      \<lparr>ts_function = Some 1, ts_name = Some ''pm_control'', ts_stack_depth = 6144, ts_argument = None, ts_priority = 6, ts_handle = Some 1\<rparr>,
      \<lparr>ts_function = Some 2, ts_name = Some ''pm_supervisor'', ts_stack_depth = 4096, ts_argument = None, ts_priority = 5, ts_handle = Some 2\<rparr>]"

definition boot_meter :: "boot_env \<Rightarrow> boot \<Rightarrow> boot" where
  "boot_meter env b =
     (case pm_meter_create (be_uart env) (a_meter (b_app b)) PM_METER_PZEM004T_V4_CLASSIC (be_physical_reads env) (be_simulated env) of
        (e, m) \<Rightarrow>
          let b1 = b\<lparr>b_app := (b_app b)\<lparr>a_meter := m\<rparr>\<rparr>
          in if e \<noteq> ESP_OK then transition_state PM_EVENT_METER_FAILED (be_clock env 5) b1 else b1)"

definition start_network :: "boot_env \<Rightarrow> pm_config \<Rightarrow> boot \<Rightarrow> esp_err \<times> boot" where
  "start_network env c b =
     (let a = b_app b in
      case pm_network_start (be_boot_id env) (be_network_alloc env) (fst (be_network_mutex env)) (snd (be_network_mutex env))
             (fst (configure_wifi (be_wifi env) c)) (be_network_task env)
             \<lparr>up_slot = a_slot a, up_ctx = a_ctx a, up_ledger = a_ledger a, up_store = a_store a, up_delivered = [], up_acknowledged = []\<rparr> of
        (e, u) \<Rightarrow> (e, b\<lparr>b_app := a\<lparr>a_slot := up_slot u, a_ctx := up_ctx u\<rparr>\<rparr>))"

text \<open>The end of the start: readiness, the confirmation of an update, the settlement of commands, the network's gate.\<close>

definition finish_boot :: "boot_env \<Rightarrow> esp_err \<Rightarrow> boot \<Rightarrow> boot_outcome \<times> boot" where
  "finish_boot env network_error b =
     (let bits = begin_tasks (be_begun env) (b_bits b OR PM_RUNTIME_START_BIT);
          b1 = b\<lparr>b_bits := bits\<rparr>;
          runtime_ready = (bits AND PM_RUNTIME_READY_BITS = PM_RUNTIME_READY_BITS \<and> bits AND PM_RUNTIME_TASK_FAILED_BIT = 0)
      in if \<not> runtime_ready then (Boot_Restarts, b1)
         else case pm_ota_post_boot_validate True runtime_ready runtime_ready True (network_error = ESP_OK) (a_ota (b_app b1)) of (e1, w) \<Rightarrow>
           let b2 = b1\<lparr>b_app := (b_app b1)\<lparr>a_ota := w\<rparr>\<rparr> in
           if e1 \<noteq> ESP_OK then (Boot_Restarts, b2)
           else case pm_ota_load_checkpoint (w_nvs w) of (r, n) \<Rightarrow>
             let b3 = b2\<lparr>b_app := (b_app b2)\<lparr>a_ota := w\<lparr>w_nvs := n\<rparr>\<rparr>\<rparr> in
             case r of
               Inl _ \<Rightarrow> (Boot_Restarts, b3)
             | Inr checkpoint \<Rightarrow>
               (case reconcile_interrupted_commands (be_ledger_lock env) checkpoint (be_reconcile_alloc env) (b_app b3) of (e2, a) \<Rightarrow>
                  if e2 \<noteq> ESP_OK then (Boot_Restarts, b3\<lparr>b_app := a\<rparr>)
                  else let a1 = a\<lparr>a_ctx := pm_network_health_update PM_HEALTH_OTA_ROLLED_BACK (ck_stage checkpoint = PM_OTA_ROLLED_BACK)
                                    (pm_network_health_update PM_HEALTH_OTA_FAILED (ck_stage checkpoint = PM_OTA_FAILED) (a_ctx a))\<rparr>
                    in (Boot_Running,
                        transition_state (if network_error = ESP_OK then PM_EVENT_SELF_TEST_OK else PM_EVENT_WIFI_FAILED) (be_clock env 6)
                          (b3\<lparr>b_app := a1, b_bits := b_bits b3 OR PM_NETWORK_START_BIT\<rparr>))))"

definition boot_operation :: "psa_hash \<Rightarrow> boot_env \<Rightarrow> pm_config \<Rightarrow> boot \<Rightarrow> boot_outcome \<times> boot" where
  "boot_operation psa env c b =
     (let b1 = boot_meter env b in
      if \<not> be_static_objects env then (Boot_Halted, b1)
      else let b2 = b1\<lparr>b_app := (b_app b1)\<lparr>a_queue := [], a_acks := []\<rparr>, b_bits := 0\<rparr> in
      case pm_network_apply_runtime_config psa (be_mutex env) (a_ctx (b_app b2)) c of (e, ctx) \<Rightarrow>
        let b3 = b2\<lparr>b_app := (b_app b2)\<lparr>a_ctx := ctx\<rparr>\<rparr> in
        if e \<noteq> ESP_OK then (Boot_Halted, b3)
        else case pm_runtime_create_task_set runtime_tasks (b_runtime b3) of (e2, rt) \<Rightarrow>
          let b4 = b3\<lparr>b_runtime := rt\<rparr> in
          if e2 \<noteq> ESP_OK then (Boot_Halted, b4)
          else case start_network env c b4 of (network_error, b5) \<Rightarrow> finish_boot env network_error b5)"

definition app_main :: "psa_hash \<Rightarrow> boot_env \<Rightarrow> boot \<Rightarrow> boot_outcome \<times> boot" where
  "app_main psa env b0 =
     (let b = transition_state PM_EVENT_BOOTSTRAP (be_clock env 1) (b0\<lparr>b_app := (b_app b0)\<lparr>a_state := pm_state_init (be_clock env 0)\<rparr>\<rparr>) in
      case boot_identity psa env b of
        (None, b1) \<Rightarrow> (Boot_Halted, b1)
      | (Some identity, b1) \<Rightarrow>
        (case boot_config identity b1 of
           (None, b2) \<Rightarrow> (Boot_Halted, b2)
         | (Some (provisioned, c), b2) \<Rightarrow>
             let b3 = boot_time env b2;
                 recovery = wait_for_physical_recovery_request (be_gpio env) provisioned (be_clock env 4) (be_readings env)
             in if \<not> provisioned \<or> recovery
                then let b4 = transition_state (if \<not> provisioned then PM_EVENT_CONFIG_MISSING else PM_EVENT_PHYSICAL_RECOVERY) (be_clock env 5) b3
                  in (case pm_provisioning_start_usb (be_usb env)
                            (pm_provisioning_session_init c (recovery \<or> \<not> provisioned) True False True) (b_config b4) of
                        (e, _, task) \<Rightarrow> (Boot_Provisioning e task, b4))
                else boot_operation psa env c b3))"

subsection \<open>The start fails closed\<close>

text \<open>The command storage a start can find: empty, or left by an earlier run of the firmware that ended at any point.\<close>

definition ledger_storage :: "psa_hash \<Rightarrow> pm_command_ledger nvs \<Rightarrow> bool" where
  "ledger_storage psa n \<longleftrightarrow> (blobs n ''slot_a'' = None \<and> blobs n ''slot_b'' = None) \<or>
     (\<exists>l n0. ledger_reach psa l n0 \<and> n = reboot n0)"

lemma ledger_storage_load:
  assumes "ledger_storage psa n" "pm_commands_load lk psa l0 n = (ESP_OK, l, n')"
  shows "ledger_reach psa l n'"
proof -
  have "lk" using assms(2) by (cases lk) (simp_all add: pm_commands_load_def locked_def)
  with assms show ?thesis unfolding ledger_storage_def
    by (auto intro: ledger_reach.first_boot ledger_reach.restart)
qed

lemma transition_state_simps [simp]:
  "b_bits (transition_state ev now b) = b_bits b" "b_identity (transition_state ev now b) = b_identity b"
  "b_config (transition_state ev now b) = b_config b" "b_runtime (transition_state ev now b) = b_runtime b"
  "a_ctx (b_app (transition_state ev now b)) = a_ctx (b_app b)" "a_ledger (b_app (transition_state ev now b)) = a_ledger (b_app b)"
  "a_store (b_app (transition_state ev now b)) = a_store (b_app b)" "a_queue (b_app (transition_state ev now b)) = a_queue (b_app b)"
  "a_ota (b_app (transition_state ev now b)) = a_ota (b_app b)"
  by (simp_all add: transition_state_def set_degraded_def)

lemma and_or_word: "(x OR y) AND z = (x AND z) OR (y AND z)" for x y z :: u32
  by (rule bit_word_eqI) (auto simp: bit_and_iff bit_or_iff)

lemma begin_tasks_network: "begin_tasks ts bits AND PM_NETWORK_START_BIT = bits AND PM_NETWORK_START_BIT"
proof -
  have "snd (begin_runtime_task (task_ready_bit t) wdt x) AND PM_NETWORK_START_BIT = x AND PM_NETWORK_START_BIT" for t wdt x
    by (cases t) (simp_all add: begin_runtime_task_def and_or_word gate_bits)
  then show ?thesis unfolding begin_tasks_def by (induction ts arbitrary: bits) (auto simp: case_prod_beta)
qed

text \<open>What a start that goes on to run has checked, from the state \<open>b\<close> in which the network was started.\<close>

definition start_checked :: "boot_env \<Rightarrow> esp_err \<Rightarrow> boot \<Rightarrow> boot \<Rightarrow> bool" where
  "start_checked env ne b b' \<longleftrightarrow> b_bits b' AND PM_NETWORK_START_BIT = PM_NETWORK_START_BIT \<and>
     b_bits b' AND PM_RUNTIME_READY_BITS = PM_RUNTIME_READY_BITS \<and> b_bits b' AND PM_RUNTIME_TASK_FAILED_BIT = 0 \<and>
     b_identity b' = b_identity b \<and> b_runtime b' = b_runtime b \<and> net_config (a_ctx (b_app b')) = net_config (a_ctx (b_app b)) \<and>
     (\<exists>checkpoint w n a. pm_ota_post_boot_validate True True True True (ne = ESP_OK) (a_ota (b_app b)) = (ESP_OK, w) \<and>
        pm_ota_load_checkpoint (w_nvs w) = (Inr checkpoint, n) \<and> a_ota (b_app b') = w\<lparr>w_nvs := n\<rparr> \<and>
        reconcile_interrupted_commands (be_ledger_lock env) checkpoint (be_reconcile_alloc env) ((b_app b)\<lparr>a_ota := w\<lparr>w_nvs := n\<rparr>\<rparr>) = (ESP_OK, a) \<and>
        a_ledger (b_app b') = a_ledger a \<and> a_store (b_app b') = a_store a \<and> a_queue (b_app b') = a_queue a)"

lemma health_update_config [simp]: "net_config (pm_network_health_update f v ctx) = net_config ctx"
  by (simp add: pm_network_health_update_def)

lemma reconcile_entries_ctx:
  "a_ctx (snd (reconcile_entries cp al is a)) = a_ctx a \<and> a_ota (snd (reconcile_entries cp al is a)) = a_ota a"
proof (induction "is" arbitrary: a)
  case (Cons i "is")
  have "a_ctx (snd (reconcile_entry cp (al i) i a)) = a_ctx a \<and> a_ota (snd (reconcile_entry cp (al i) i a)) = a_ota a"
    by (auto simp: reconcile_entry_def Let_def split: option.splits prod.splits)
  with Cons show ?case by (auto split: prod.splits)
qed simp

lemma reconcile_ctx: "reconcile_interrupted_commands lock cp al a = (e, a') \<Longrightarrow> a_ctx a' = a_ctx a \<and> a_ota a' = a_ota a"
  using reconcile_entries_ctx [of cp al "[0..<PM_COMMAND_LEDGER_SIZE]" a]
  by (auto simp: reconcile_interrupted_commands_def split: if_splits)

lemma finish_boot_step:
  assumes "finish_boot env ne b = (out, b')" "b_bits b AND PM_NETWORK_START_BIT = 0"
  shows "if out = Boot_Running then start_checked env ne b b' else out = Boot_Restarts \<and> b_bits b' AND PM_NETWORK_START_BIT = 0"
proof -
  define bits where "bits = begin_tasks (be_begun env) (b_bits b OR PM_RUNTIME_START_BIT)"
  define ready where "ready \<longleftrightarrow> bits AND PM_RUNTIME_READY_BITS = PM_RUNTIME_READY_BITS \<and> bits AND PM_RUNTIME_TASK_FAILED_BIT = 0"
  have net: "bits AND PM_NETWORK_START_BIT = 0"
    using assms(2) by (simp add: bits_def begin_tasks_network and_or_word) (simp add: gate_bits)
  obtain e1 w where v: "pm_ota_post_boot_validate True ready ready True (ne = ESP_OK) (a_ota (b_app b)) = (e1, w)" by (metis prod.exhaust)
  obtain r n where l: "pm_ota_load_checkpoint (w_nvs w) = (r, n)" by (metis prod.exhaust)
  let ?a3 = "(b_app b)\<lparr>a_ota := w\<lparr>w_nvs := n\<rparr>\<rparr>"
  obtain e2 a where rc: "reconcile_interrupted_commands (be_ledger_lock env) (projr r) (be_reconcile_alloc env) ?a3 = (e2, a)" by (metis prod.exhaust)
  show ?thesis
  proof (cases "ready \<and> e1 = ESP_OK \<and> (\<exists>c. r = Inr c) \<and> e2 = ESP_OK")
    case True
    then obtain c where c: "r = Inr c" by blast
    let ?ctx = "pm_network_health_update PM_HEALTH_OTA_ROLLED_BACK (ck_stage c = PM_OTA_ROLLED_BACK)
      (pm_network_health_update PM_HEALTH_OTA_FAILED (ck_stage c = PM_OTA_FAILED) (a_ctx a))"
    have "out = Boot_Running \<and> b' = transition_state (if ne = ESP_OK then PM_EVENT_SELF_TEST_OK else PM_EVENT_WIFI_FAILED) (be_clock env 6)
        (b\<lparr>b_bits := bits OR PM_NETWORK_START_BIT, b_app := a\<lparr>a_ctx := ?ctx\<rparr>\<rparr>)"
      using assms(1) True c v l rc unfolding finish_boot_def Let_def bits_def [symmetric] ready_def [symmetric]
      by (cases "ne = ESP_OK") (auto simp: transition_state_def)
    moreover have "(bits OR PM_NETWORK_START_BIT) AND PM_RUNTIME_READY_BITS = PM_RUNTIME_READY_BITS"
      "(bits OR PM_NETWORK_START_BIT) AND PM_RUNTIME_TASK_FAILED_BIT = 0" "(bits OR PM_NETWORK_START_BIT) AND PM_NETWORK_START_BIT = PM_NETWORK_START_BIT"
      using True net unfolding ready_def and_or_word by (auto simp: gate_bits)
    ultimately show ?thesis
      using rc c l v True reconcile_ctx [OF rc] unfolding start_checked_def by auto
  next
    case False
    then have "out = Boot_Restarts \<and> b_bits b' = bits"
      using assms(1) v l rc unfolding finish_boot_def Let_def bits_def [symmetric] ready_def [symmetric]
      by (auto split: if_splits sum.splits prod.splits)
    with net show ?thesis by simp
  qed
qed

lemma boot_config_identity:
  assumes "boot_identity psa env b = (Some identity, b1)" "boot_config identity b1 = (Some (True, c), b2)"
  shows "fst (load_or_create_identity r (reboot (b_identity b2))) = Inr (device_id c)"
    "fst (pm_config_load (cfg_nvs (b_config b))) = (ESP_OK, c)"
    "\<exists>l st. pm_commands_load (be_commands_lock env) psa (a_ledger (b_app b)) (a_store (b_app b)) = (ESP_OK, l, st) \<and>
       a_ledger (b_app b2) = l \<and> a_store (b_app b2) = st"
    "a_ctx (b_app b2) = a_ctx (b_app b)" "b_runtime b2 = b_runtime b" "a_ota (b_app b2) = a_ota (b_app b)"
proof -
  obtain n where l: "load_or_create_identity (be_random env) (b_identity b) = (Inr identity, n)" "b_identity b1 = n"
    "b_config b1 = b_config b"
    using assms(1) by (auto simp: boot_identity_def split: if_splits sum.splits prod.splits)
  obtain i where i: "blobs n ''identity'' = Some (Blob i)" "identity_valid i" "li_device_id i = identity"
    using load_ok_stored [OF l(1)] by blast
  obtain e c1 m where g: "pm_config_load (cfg_nvs (b_config b)) = ((e, c1), m)" by (metis prod.exhaust)
  have c1: "e = ESP_OK" "c1 = c" using assms(2) g l(3) by (auto simp: boot_config_def Let_def split: if_splits prod.splits)
  show "fst (pm_config_load (cfg_nvs (b_config b))) = (ESP_OK, c)" using g c1 by simp
  show "fst (load_or_create_identity r (reboot (b_identity b2))) = Inr (device_id c)"
  proof (cases "device_id c = identity")
    case True
    then have "b_identity b2 = n" using assms(2) g c1 l by (auto simp: boot_config_def Let_def)
    with load_stored [OF i(1,2), of r] i(3) True show ?thesis by simp
  next
    case False
    obtain e2 n2 where p: "persist_identity (device_id c) n = (e2, n2)" by (metis prod.exhaust)
    have b2: "e2 = ESP_OK" "b_identity b2 = n2" using assms(2) g c1 l p False by (auto simp: boot_config_def Let_def split: if_splits)
    have st: "blobs n2 ''identity'' = Some (Blob (seal_identity (device_id c) (li_generation i + 1)))" "li_generation i \<noteq> - 1"
      using persist_stored [OF p i(1,2)] b2(1) by auto
    then have "li_generation i + 1 \<noteq> 0" by (metis eq_neg_iff_add_eq_0)
    with load_stored [OF st(1), of r] b2(2) show ?thesis by simp
  qed
  show "\<exists>l st. pm_commands_load (be_commands_lock env) psa (a_ledger (b_app b)) (a_store (b_app b)) = (ESP_OK, l, st) \<and>
       a_ledger (b_app b2) = l \<and> a_store (b_app b2) = st" "a_ctx (b_app b2) = a_ctx (b_app b)" "b_runtime b2 = b_runtime b"
      "a_ota (b_app b2) = a_ota (b_app b)"
    using assms by (auto simp: boot_identity_def boot_config_def Let_def split: if_splits sum.splits prod.splits)
qed

lemma network_start_config: "net_config (up_ctx (snd (pm_network_start rnd al mx retaken wifi cr u))) = net_config (up_ctx u)"
proof -
  have "snd (pm_network_start rnd al mx retaken wifi cr u) =
     u\<lparr>up_ctx := (up_ctx u)\<lparr>boot_id := store_str 37 (format_device_id (boot_uuid rnd))\<rparr>, up_slot := pm_telemetry_slot_init\<rparr>"
    by (simp add: pm_network_start_def Let_def split: prod.splits)
  then show ?thesis by simp
qed

lemma start_network_step:
  assumes "start_network env c b = (e, b')"
  shows "b_bits b' = b_bits b" "b_identity b' = b_identity b" "b_runtime b' = b_runtime b" "a_ledger (b_app b') = a_ledger (b_app b)"
    "a_store (b_app b') = a_store (b_app b)" "a_queue (b_app b') = a_queue (b_app b)"
    "net_config (a_ctx (b_app b')) = net_config (a_ctx (b_app b))" "a_ota (b_app b') = a_ota (b_app b)"
proof -
  let ?u = "\<lparr>up_slot = a_slot (b_app b), up_ctx = a_ctx (b_app b), up_ledger = a_ledger (b_app b), up_store = a_store (b_app b),
    up_delivered = [], up_acknowledged = []\<rparr>"
  obtain e1 u where u: "pm_network_start (be_boot_id env) (be_network_alloc env) (fst (be_network_mutex env)) (snd (be_network_mutex env))
      (fst (configure_wifi (be_wifi env) c)) (be_network_task env) ?u = (e1, u)" by (metis prod.exhaust)
  have b': "b' = b\<lparr>b_app := (b_app b)\<lparr>a_slot := up_slot u, a_ctx := up_ctx u\<rparr>\<rparr>"
    using assms u by (simp add: start_network_def Let_def)
  have "net_config (up_ctx u) = net_config (a_ctx (b_app b))"
    using network_start_config [of "be_boot_id env" "be_network_alloc env" "fst (be_network_mutex env)" "snd (be_network_mutex env)"
      "fst (configure_wifi (be_wifi env) c)" "be_network_task env" ?u] by (simp add: u)
  then show "b_bits b' = b_bits b" "b_identity b' = b_identity b" "b_runtime b' = b_runtime b" "a_ledger (b_app b') = a_ledger (b_app b)"
    "a_store (b_app b') = a_store (b_app b)" "a_queue (b_app b') = a_queue (b_app b)"
    "net_config (a_ctx (b_app b')) = net_config (a_ctx (b_app b))" "a_ota (b_app b') = a_ota (b_app b)" by (simp_all add: b')
qed

lemma boot_steps [simp]:
  "b_bits (boot_meter env b) = b_bits b" "b_identity (boot_meter env b) = b_identity b" "b_runtime (boot_meter env b) = b_runtime b"
  "a_ctx (b_app (boot_meter env b)) = a_ctx (b_app b)" "a_ledger (b_app (boot_meter env b)) = a_ledger (b_app b)"
  "a_store (b_app (boot_meter env b)) = a_store (b_app b)"
  "b_bits (boot_time env b) = b_bits b" "b_identity (boot_time env b) = b_identity b" "b_runtime (boot_time env b) = b_runtime b"
  "a_ctx (b_app (boot_time env b)) = a_ctx (b_app b)" "a_ledger (b_app (boot_time env b)) = a_ledger (b_app b)"
  "a_store (b_app (boot_time env b)) = a_store (b_app b)"
  "a_ota (b_app (boot_meter env b)) = a_ota (b_app b)" "a_ota (b_app (boot_time env b)) = a_ota (b_app b)"
  by (simp_all add: boot_meter_def boot_time_def Let_def split: prod.splits)

lemma hkdf_error: "pm_hkdf_directional_keys psa secret i \<noteq> Inl ESP_OK"
  by (simp add: pm_hkdf_directional_keys_def Let_def split: prod.splits)

lemma boot_operation_step:
  assumes "boot_operation psa env c b = (out, b')" "b_bits b = 0"
  shows "if out \<noteq> Boot_Running then b_bits b' AND PM_NETWORK_START_BIT = 0
    else \<exists>b4 b5. start_checked env (fst (start_network env c b4)) b5 b' \<and> b_identity b5 = b_identity b \<and> net_config (a_ctx (b_app b5)) = c \<and>
      pm_network_apply_runtime_config psa (be_mutex env) (a_ctx (b_app b)) c = (ESP_OK, a_ctx (b_app b4)) \<and> a_ota (b_app b5) = a_ota (b_app b) \<and>
      pm_runtime_create_task_set runtime_tasks (b_runtime b) = (ESP_OK, b_runtime b5) \<and>
      a_ledger (b_app b5) = a_ledger (b_app b) \<and> a_store (b_app b5) = a_store (b_app b) \<and> a_queue (b_app b5) = []"
proof -
  let ?b2 = "(boot_meter env b)\<lparr>b_app := (b_app (boot_meter env b))\<lparr>a_queue := [], a_acks := []\<rparr>, b_bits := 0\<rparr>"
  obtain e ctx where c: "pm_network_apply_runtime_config psa (be_mutex env) (a_ctx (b_app b)) c = (e, ctx)" by (metis prod.exhaust)
  let ?b3 = "?b2\<lparr>b_app := (b_app ?b2)\<lparr>a_ctx := ctx\<rparr>\<rparr>"
  obtain e2 rt where t: "pm_runtime_create_task_set runtime_tasks (b_runtime b) = (e2, rt)" by (metis prod.exhaust)
  obtain ne b5 where n: "start_network env c (?b3\<lparr>b_runtime := rt\<rparr>) = (ne, b5)" by (metis prod.exhaust)
  note st = start_network_step [OF n]
  show ?thesis
  proof (cases "be_static_objects env \<and> e = ESP_OK \<and> e2 = ESP_OK")
    case True
    then have f: "finish_boot env ne b5 = (out, b')"
      using assms(1) c t n by (simp add: boot_operation_def Let_def)
    have "net_config ctx = c" using c True hkdf_error
      by (auto simp: pm_network_apply_runtime_config_def Let_def split: if_splits sum.splits prod.splits)
    with finish_boot_step [OF f] st t c n True show ?thesis
      by (cases "out = Boot_Running") (simp_all, intro exI [of _ "?b3\<lparr>b_runtime := rt\<rparr>"] exI [of _ b5], simp)
  next
    case False
    with assms(1,2) c t show ?thesis by (auto simp: boot_operation_def Let_def split: if_splits)
  qed
qed

lemma boot_bits:
  "boot_identity psa env b = (x, b1) \<Longrightarrow> b_bits b1 = b_bits b" "boot_config identity b1 = (y, b2) \<Longrightarrow> b_bits b2 = b_bits b1"
  by (auto simp: boot_identity_def boot_config_def Let_def split: if_splits sum.splits prod.splits)

lemma start_checked_settled:
  assumes "start_checked env ne b b'" "\<And>w. app_reach psa ((b_app b)\<lparr>a_ota := w\<rparr>)" "a_queue (b_app b) = []"
  shows "app_reach psa (b_app b') \<and> (\<exists>checkpoint w n.
    pm_ota_post_boot_validate True True True True (ne = ESP_OK) (a_ota (b_app b)) = (ESP_OK, w) \<and>
    pm_ota_load_checkpoint (w_nvs w) = (Inr checkpoint, n) \<and> a_ota (b_app b') = w\<lparr>w_nvs := n\<rparr> \<and>
    (\<forall>i < 8. \<not> vacant (entries (a_ledger (b_app b)) ! i) \<longrightarrow>
       (i \<in> set (a_queue (b_app b')), cmd_state (entries (a_ledger (b_app b')) ! i)) =
         outcome_expected (ck_stage checkpoint) (entries (a_ledger (b_app b)) ! i)))"
proof -
  obtain cp w n a where v: "pm_ota_post_boot_validate True True True True (ne = ESP_OK) (a_ota (b_app b)) = (ESP_OK, w)"
      "pm_ota_load_checkpoint (w_nvs w) = (Inr cp, n)" "a_ota (b_app b') = w\<lparr>w_nvs := n\<rparr>"
    and r: "reconcile_interrupted_commands (be_ledger_lock env) cp (be_reconcile_alloc env) ((b_app b)\<lparr>a_ota := w\<lparr>w_nvs := n\<rparr>\<rparr>) = (ESP_OK, a)"
    and a: "a_ledger (b_app b') = a_ledger a" "a_store (b_app b') = a_store a" "a_queue (b_app b') = a_queue a"
    using assms(1) by (auto simp: start_checked_def)
  let ?a = "(b_app b)\<lparr>a_ota := w\<lparr>w_nvs := n\<rparr>\<rparr>"
  have q: "a_queue ?a = []" using assms(3) by simp
  have "(i \<in> set (a_queue a), cmd_state (entries (a_ledger a) ! i)) = outcome_expected (ck_stage cp) (entries (a_ledger (b_app b)) ! i)"
    if i: "i < 8" "\<not> vacant (entries (a_ledger (b_app b)) ! i)" for i
    using settled_as_expected [of "entries (a_ledger ?a) ! i" cp] reach_entry_type [OF assms(2) i(1), of "w\<lparr>w_nvs := n\<rparr>"]
      reconcile_all(2,3) [OF assms(2) q r i(1)] i(2) by simp
  moreover have "app_reach psa a" using reconcile_all(1) [OF assms(2) q r, of 0] by simp
  ultimately show ?thesis using a v by (auto simp: app_reach_def)
qed

lemma running_settled:
  assumes "boot_identity psa env b = (Some identity, b1)" "boot_config identity b1 = (Some (True, c), b2)" "ledger_storage psa (a_store (b_app b))"
    and "start_checked env (fst (start_network env c b4)) b5 b'" "a_ledger (b_app b5) = a_ledger (b_app b2)"
    "a_store (b_app b5) = a_store (b_app b2)" "a_queue (b_app b5) = []" "a_ota (b_app b5) = a_ota (b_app b2)"
    "pm_network_apply_runtime_config psa (be_mutex env) (a_ctx (b_app b2)) c = (ESP_OK, a_ctx (b_app b4))"
  shows "app_reach psa (b_app b') \<and> (\<exists>b4 checkpoint w n l st.
    pm_network_apply_runtime_config psa (be_mutex env) (a_ctx (b_app b)) c = (ESP_OK, a_ctx (b_app b4)) \<and>
    pm_ota_post_boot_validate True True True True (fst (start_network env c b4) = ESP_OK) (a_ota (b_app b)) = (ESP_OK, w) \<and>
    pm_ota_load_checkpoint (w_nvs w) = (Inr checkpoint, n) \<and> a_ota (b_app b') = w\<lparr>w_nvs := n\<rparr> \<and>
    pm_commands_load (be_commands_lock env) psa (a_ledger (b_app b)) (a_store (b_app b)) = (ESP_OK, l, st) \<and>
    (\<forall>i < 8. \<not> vacant (entries l ! i) \<longrightarrow>
       (i \<in> set (a_queue (b_app b')), cmd_state (entries (a_ledger (b_app b')) ! i)) = outcome_expected (ck_stage checkpoint) (entries l ! i)))"
proof -
  note idn = boot_config_identity [OF assms(1,2)]
  obtain l st where l: "pm_commands_load (be_commands_lock env) psa (a_ledger (b_app b)) (a_store (b_app b)) = (ESP_OK, l, st)"
    "a_ledger (b_app b2) = l" "a_store (b_app b2) = st" using idn(3) by auto
  have "ledger_reach psa l st" using l(1) ledger_storage_load [OF assms(3)] by blast
  then have "app_reach psa ((b_app b5)\<lparr>a_ota := w\<rparr>)" for w using assms(5,6) l(2,3) by (simp add: app_reach_def)
  note settled = start_checked_settled [OF assms(4) this assms(7)]
  have same: "a_ledger (b_app b5) = l" "a_ota (b_app b5) = a_ota (b_app b)" "a_ctx (b_app b2) = a_ctx (b_app b)"
    using assms(5,8) l(2) idn(4,6) by simp_all
  show ?thesis using settled assms(9) l(1) unfolding same by blast
qed

text \<open>
  C20. The start fails closed. Whatever fails, storage, credentials, tasks, watchdog, the confirmation of an update, the network task is
  released only at the end of a start in which everything before it succeeded: the configuration loaded is the one the network uses and its keys
  were derived, the identity in storage is that of the configuration, all three runtime tasks exist and have joined the watchdog,
  \<open>pm_ota_post_boot_validate\<close>, told whether the network could be started, returned \<open>ESP_OK\<close> on the state of the running image, and every command
  of the loaded ledger is queued or in the state that \<open>outcome_expected\<close> says for the checkpoint loaded after that. In every other outcome the
  network's start bit is clear.
\<close>

theorem boot_fails_closed:
  assumes "app_main psa env b = (out, b')" "b_bits b = 0" and "ledger_storage psa (a_store (b_app b))"
  shows "if out \<noteq> Boot_Running then b_bits b' AND PM_NETWORK_START_BIT = 0
    else b_bits b' AND PM_NETWORK_START_BIT = PM_NETWORK_START_BIT \<and>
      b_bits b' AND PM_RUNTIME_READY_BITS = PM_RUNTIME_READY_BITS \<and> b_bits b' AND PM_RUNTIME_TASK_FAILED_BIT = 0 \<and>
      fst (pm_config_load (cfg_nvs (b_config b))) = (ESP_OK, net_config (a_ctx (b_app b'))) \<and>
      fst (load_or_create_identity r (reboot (b_identity b'))) = Inr (device_id (net_config (a_ctx (b_app b')))) \<and>
      pm_runtime_create_task_set runtime_tasks (b_runtime b) = (ESP_OK, b_runtime b') \<and>
      app_reach psa (b_app b') \<and>
      (\<exists>b4 checkpoint w n l st.
         pm_network_apply_runtime_config psa (be_mutex env) (a_ctx (b_app b)) (net_config (a_ctx (b_app b'))) = (ESP_OK, a_ctx (b_app b4)) \<and>
         pm_ota_post_boot_validate True True True True (fst (start_network env (net_config (a_ctx (b_app b'))) b4) = ESP_OK) (a_ota (b_app b)) =
           (ESP_OK, w) \<and>
         pm_ota_load_checkpoint (w_nvs w) = (Inr checkpoint, n) \<and> a_ota (b_app b') = w\<lparr>w_nvs := n\<rparr> \<and>
         pm_commands_load (be_commands_lock env) psa (a_ledger (b_app b)) (a_store (b_app b)) = (ESP_OK, l, st) \<and>
         (\<forall>i < 8. \<not> vacant (entries l ! i) \<longrightarrow>
            (i \<in> set (a_queue (b_app b')), cmd_state (entries (a_ledger (b_app b')) ! i)) = outcome_expected (ck_stage checkpoint) (entries l ! i)))"
proof -
  define b0 where "b0 = transition_state PM_EVENT_BOOTSTRAP (be_clock env 1) (b\<lparr>b_app := (b_app b)\<lparr>a_state := pm_state_init (be_clock env 0)\<rparr>\<rparr>)"
  have b0: "b_bits b0 = 0" "b_config b0 = b_config b" "b_runtime b0 = b_runtime b" "a_ledger (b_app b0) = a_ledger (b_app b)"
    "a_store (b_app b0) = a_store (b_app b)" "a_ctx (b_app b0) = a_ctx (b_app b)" "a_ota (b_app b0) = a_ota (b_app b)" using assms(2) by (simp_all add: b0_def)
  note run = assms(1) [unfolded app_main_def Let_def, folded b0_def]
  show ?thesis
  proof (cases "\<exists>identity c b1 b2. boot_identity psa env b0 = (Some identity, b1) \<and> boot_config identity b1 = (Some (True, c), b2) \<and>
      \<not> wait_for_physical_recovery_request (be_gpio env) True (be_clock env 4) (be_readings env)")
    case True
    then obtain identity c b1 b2 where i: "boot_identity psa env b0 = (Some identity, b1)" "boot_config identity b1 = (Some (True, c), b2)"
      "\<not> wait_for_physical_recovery_request (be_gpio env) True (be_clock env 4) (be_readings env)" by blast
    have op: "boot_operation psa env c (boot_time env b2) = (out, b')" using run i by simp
    have bits: "b_bits (boot_time env b2) = 0" using i b0(1) boot_bits by (metis boot_steps(7))
    note idn = boot_config_identity [OF i(1,2)]
    show ?thesis
    proof (cases "out = Boot_Running")
      case running: True
      obtain b4 b5 where b5: "start_checked env (fst (start_network env c b4)) b5 b'" "b_identity b5 = b_identity b2"
        "net_config (a_ctx (b_app b5)) = c"
        "pm_runtime_create_task_set runtime_tasks (b_runtime b2) = (ESP_OK, b_runtime b5)" "a_ledger (b_app b5) = a_ledger (b_app b2)"
        "a_store (b_app b5) = a_store (b_app b2)" "a_queue (b_app b5) = []" "a_ota (b_app b5) = a_ota (b_app b2)"
        "pm_network_apply_runtime_config psa (be_mutex env) (a_ctx (b_app b2)) c = (ESP_OK, a_ctx (b_app b4))"
        using boot_operation_step [OF op bits] running by auto
      note settled = running_settled [OF i(1,2) _ b5(1,5,6,7,8,9), unfolded b0(4-7), OF assms(3)]
      have cfg: "net_config (a_ctx (b_app b')) = c" using b5(1,3) by (simp add: start_checked_def)
      from settled show ?thesis using running b5(1-4) idn(1,2,5) b0(2,3) unfolding cfg by (simp add: start_checked_def)
    next
      case False
      then show ?thesis using boot_operation_step [OF op bits] by simp
    qed
  next
    case False
    obtain x b1 where x: "boot_identity psa env b0 = (x, b1)" by (metis prod.exhaust)
    obtain y b2 where y: "boot_config (the x) b1 = (y, b2)" by (metis prod.exhaust)
    have "b_bits b1 = 0" "b_bits b2 = 0" using boot_bits(1) [OF x] boot_bits(2) [OF y] b0(1) by simp_all
    moreover have "out \<noteq> Boot_Running \<and> b_bits b' \<in> {b_bits b1, b_bits b2}"
      using False run x y by (auto split: option.splits prod.splits bool.splits if_splits)
    ultimately show ?thesis by auto
  qed
qed

subsection \<open>A start that runs\<close>

definition enrolled_config :: pm_config where
  "enrolled_config = demo_config\<lparr>device_secret_len := 32, device_secret := replicate 32 1\<rparr>"

definition demo_boot :: boot where
  "demo_boot = \<lparr>b_app = (demo_app zero_ledger empty_nvs)\<lparr>a_ota := fresh_world\<lparr>w_image_state := ESP_OTA_IMG_VALID\<rparr>\<rparr>,
     b_identity = \<lparr>blobs = Map.empty(''identity'' \<mapsto> Blob (seal_identity (device_id enrolled_config) 1)), u8s = Map.empty, faults = []\<rparr>,
     b_config = (demo_env [])\<lparr>cfg_nvs := \<lparr>blobs = Map.empty(''slot_a'' \<mapsto> Blob (staged_config enrolled_config)),
                                       u8s = Map.empty(''active'' \<mapsto> byte_A), faults = []\<rparr>\<rparr>,
     b_runtime = \<lparr>handle_of = Map.empty, live_tasks = {}, next_task = 0, create_outcomes = []\<rparr>, b_bits = 0\<rparr>"

definition demo_boot_env :: "usb_platform \<Rightarrow> uart \<Rightarrow> wifi_platform \<Rightarrow> boot_env" where
  "demo_boot_env usb u wifi = \<lparr>be_clock = int, be_nvs_init = ESP_OK, be_random = replicate 16 9, be_commands_lock = True, be_gpio = ESP_OK,
     be_readings = [(10, True)], be_usb = usb, be_uart = u, be_physical_reads = True, be_simulated = False, be_static_objects = True,
     be_mutex = Some True, be_boot_id = replicate 16 3, be_network_alloc = True, be_network_mutex = (Some True, True), be_wifi = wifi,
     be_network_task = True, be_begun = [(Supervisor_Task, ESP_OK), (Measurement_Task, ESP_OK), (Control_Task, ESP_OK)],
     be_ledger_lock = True, be_reconcile_alloc = (\<lambda>_. True)\<rparr>"

lemma enrolled_config_valid: "pm_config_validate (staged_config enrolled_config) False = ESP_OK"
  unfolding pm_config_validate_def staged_config_simps
  by (simp add: staged_config_def Let_def enrolled_config_def demo_config_def zero_config_def nul_terminated_store_str
      cstr_store_str) (simp add: nul_terminated_def cstr_def)

lemma enrolled_loads:
  "pm_config_load (cfg_nvs (b_config demo_boot)) = ((ESP_OK, staged_config enrolled_config), cfg_nvs (b_config demo_boot))"
  by (simp add: demo_boot_def pm_config_load_def read_slot_def nvs_fault_free enrolled_config_valid)

lemma enrolled_applies:
  "\<exists>ctx'. pm_network_apply_runtime_config demo_psa (Some True) ctx (staged_config enrolled_config) = (ESP_OK, ctx')"
proof -
  have c: "device_secret_len (staged_config enrolled_config) = 32" "device_secret (staged_config enrolled_config) = replicate 32 1"
    "device_id (staged_config enrolled_config) = replicate 16 0" "nul_terminated (server_origin (staged_config enrolled_config))"
    "nul_terminated (ca_pem (staged_config enrolled_config))"
    by (simp_all add: staged_config_def Let_def enrolled_config_def demo_config_def zero_config_def nul_terminated_store_str)
  have "length (cstr (store_str 37 (format_device_id (replicate 16 0)))) = 36" by code_simp
  then show ?thesis unfolding pm_network_apply_runtime_config_def c Let_def
    by (simp add: pm_hkdf_directional_keys_def pm_hmac_sha256_def demo_psa_def PM_SHA256_SIZE_def ensure_credential_mutex_def c)
qed

lemma fresh_checkpoint: "\<exists>c n. pm_ota_load_checkpoint (w_nvs fresh_world) = (Inr c, n)"
proof -
  have "ota_checkpoint_wf zero_ota_checkpoint" "ck_generation zero_ota_checkpoint \<noteq> - 1"
    by (simp_all add: ota_checkpoint_wf_def zero_ota_checkpoint_def)
  then obtain n where "persist_checkpoint zero_ota_checkpoint (w_nvs fresh_world) = (ESP_OK, seal_ota_checkpoint zero_ota_checkpoint, n)"
    using calm_persist [of fresh_world zero_ota_checkpoint]
    by (auto simp: persist_in_def calm_def fresh_world_def split: prod.splits)
  then show ?thesis by (simp add: pm_ota_load_checkpoint_def read_checkpoint_def nvs_fault_free fresh_world_def)
qed

lemma vacant_reconciles:
  assumes "a_ledger a = seal_ledger zero_ledger"
  shows "reconcile_interrupted_commands True c al a = (ESP_OK, a)"
proof -
  have "vacant zero_command" by (simp add: vacant_def zero_command_def)
  then show ?thesis using assms zero_ledger_entries(1)
    by (auto simp: reconcile_interrupted_commands_def PM_COMMAND_LEDGER_SIZE_def intro!: reconcile_vacant)
qed

lemma demo_finish:
  assumes "a_ledger (b_app b) = seal_ledger zero_ledger" "a_ota (b_app b) = fresh_world\<lparr>w_image_state := ESP_OTA_IMG_VALID\<rparr>" "b_bits b = 0"
  shows "\<exists>b'. finish_boot (demo_boot_env usb u wifi) ne b = (Boot_Running, b')"
proof -
  obtain c n where c: "pm_ota_load_checkpoint (w_nvs fresh_world) = (Inr c, n)" using fresh_checkpoint by blast
  have "begin_tasks (be_begun (demo_boot_env usb u wifi)) (0 OR PM_RUNTIME_START_BIT) = 29"
    by (simp add: demo_boot_env_def begin_tasks_def begin_runtime_task_def gate_bits)
  moreover have "pm_ota_post_boot_validate x y z t v (fresh_world\<lparr>w_image_state := ESP_OTA_IMG_VALID\<rparr>) =
      (ESP_OK, fresh_world\<lparr>w_image_state := ESP_OTA_IMG_VALID\<rparr>)" for x y z t v
    by (simp add: pm_ota_post_boot_validate_def ota_tick_def fresh_world_def)
  moreover have "be_ledger_lock (demo_boot_env usb u wifi)" by (simp add: demo_boot_env_def)
  ultimately show ?thesis unfolding finish_boot_def Let_def assms(2,3)
    using c assms(1) by (simp add: vacant_reconciles gate_bits assms)
qed

lemma demo_boot_operation:
  assumes "a_ledger (b_app b) = seal_ledger zero_ledger" "a_ota (b_app b) = fresh_world\<lparr>w_image_state := ESP_OTA_IMG_VALID\<rparr>"
    and "b_runtime b = b_runtime demo_boot"
  shows "\<exists>b'. boot_operation demo_psa (demo_boot_env usb u wifi) (staged_config enrolled_config) b = (Boot_Running, b')"
proof -
  let ?env = "demo_boot_env usb u wifi" and ?c = "staged_config enrolled_config"
  let ?b2 = "(boot_meter ?env b)\<lparr>b_app := (b_app (boot_meter ?env b))\<lparr>a_queue := [], a_acks := []\<rparr>, b_bits := 0\<rparr>"
  have ota: "a_ota (b_app (boot_meter ?env b)) = a_ota (b_app b)"
    by (simp add: boot_meter_def transition_state_def set_degraded_def Let_def split: prod.splits)
  obtain ctx where ctx: "pm_network_apply_runtime_config demo_psa (Some True) (a_ctx (b_app b)) ?c = (ESP_OK, ctx)"
    using enrolled_applies by blast
  obtain rt where rt: "pm_runtime_create_task_set runtime_tasks (b_runtime b) = (ESP_OK, rt)"
    by (simp add: assms(3) demo_boot_def pm_runtime_create_task_set_def runtime_tasks_def create_tasks.simps xTaskCreate_def Let_def)
  let ?b4 = "?b2\<lparr>b_app := (b_app ?b2)\<lparr>a_ctx := ctx\<rparr>, b_runtime := rt\<rparr>"
  obtain ne b5 where n: "start_network ?env ?c ?b4 = (ne, b5)" by (metis prod.exhaust)
  have "a_ota (b_app b5) = a_ota (b_app b)"
    using n ota by (auto simp: start_network_def Let_def split: prod.splits)
  with start_network_step [OF n] assms(1,2) have "\<exists>b'. finish_boot ?env ne b5 = (Boot_Running, b')"
    by (intro demo_finish) simp_all
  moreover have "be_static_objects ?env" "be_mutex ?env = Some True" by (simp_all add: demo_boot_env_def)
  ultimately show ?thesis using ctx rt n by (simp add: boot_operation_def Let_def)
qed

lemma demo_boots: "\<exists>b'. app_main demo_psa (demo_boot_env usb u wifi) demo_boot = (Boot_Running, b')"
proof -
  let ?env = "demo_boot_env usb u wifi" and ?c = "staged_config enrolled_config"
  define b where "b = transition_state PM_EVENT_BOOTSTRAP (be_clock ?env 1)
    (demo_boot\<lparr>b_app := (b_app demo_boot)\<lparr>a_state := pm_state_init (be_clock ?env 0)\<rparr>\<rparr>)"
  have b: "b_identity b = b_identity demo_boot" "b_config b = b_config demo_boot" "b_runtime b = b_runtime demo_boot"
    "a_ledger (b_app b) = zero_ledger" "a_store (b_app b) = empty_nvs"
    "a_ota (b_app b) = fresh_world\<lparr>w_image_state := ESP_OTA_IMG_VALID\<rparr>"
    by (simp_all add: b_def) (simp_all add: demo_boot_def transition_state_def set_degraded_def)
  have env: "be_nvs_init ?env = ESP_OK" "be_commands_lock ?env"
    "\<not> wait_for_physical_recovery_request (be_gpio ?env) True (be_clock ?env 4) (be_readings ?env)"
    by (simp_all add: demo_boot_env_def wait_for_physical_recovery_request_def PM_RECOVERY_WINDOW_MS_def PM_RECOVERY_DEBOUNCE_SAMPLES_def)
  have id: "load_or_create_identity r (b_identity demo_boot) = (Inr (device_id ?c), b_identity demo_boot)" for r
    by (simp add: demo_boot_def load_or_create_identity_def nvs_fault_free staged_config_def Let_def)
  obtain n where "pm_commands_load True demo_psa zero_ledger empty_nvs = (ESP_OK, seal_ledger zero_ledger, n)"
    using first_load by blast
  with id obtain b1 where b1: "boot_identity demo_psa ?env b = (Some (device_id ?c), b1)"
    "a_ledger (b_app b1) = seal_ledger zero_ledger" "a_ota (b_app b1) = a_ota (b_app b)" "b_runtime b1 = b_runtime b" "b_config b1 = b_config b"
    using b env by (simp add: boot_identity_def)
  have b2: "boot_config (device_id ?c) b1 = (Some (True, ?c), b1)"
    using b1(5) b(2) enrolled_loads by (simp add: boot_config_def Let_def)
  have "a_ota (b_app (boot_time ?env b1)) = a_ota (b_app b)" using b1(3) by (simp add: boot_time_def split: prod.splits)
  with demo_boot_operation [of "boot_time ?env b1" usb u wifi] b1(2,4) b(3,6)
  have "\<exists>b'. boot_operation demo_psa ?env ?c (boot_time ?env b1) = (Boot_Running, b')" by simp
  then show ?thesis unfolding app_main_def Let_def b_def [symmetric] b1(1) prod.case option.case b2 using env(3) by simp
qed

theorem boot_fails_closed_witness:
  "\<forall>usb u wifi. \<exists>b'. app_main demo_psa (demo_boot_env usb u wifi) demo_boot = (Boot_Running, b') \<and>
     b_bits b' AND PM_NETWORK_START_BIT = PM_NETWORK_START_BIT \<and> net_config (a_ctx (b_app b')) = staged_config enrolled_config"
proof (intro allI)
  fix usb u wifi
  obtain b' where b': "app_main demo_psa (demo_boot_env usb u wifi) demo_boot = (Boot_Running, b')" using demo_boots by blast
  have "b_bits demo_boot = 0" "ledger_storage demo_psa (a_store (b_app demo_boot))"
    by (simp_all add: demo_boot_def ledger_storage_def empty_nvs_def)
  from boot_fails_closed [OF b' this, of "[]"] b' show "\<exists>b'. app_main demo_psa (demo_boot_env usb u wifi) demo_boot = (Boot_Running, b') \<and>
     b_bits b' AND PM_NETWORK_START_BIT = PM_NETWORK_START_BIT \<and> net_config (a_ctx (b_app b')) = staged_config enrolled_config"
    by (auto simp: enrolled_loads)
qed

end
