(* ===== verification/Spec2Isabelle.thy ===== *)
theory Spec2Isabelle
  imports PM_State PM_Time PM_Sequence PM_Upload_Safety PM_Startup PM_Boot
begin

text \<open>
  A verification development for the firmware of the headless power monitor: an ESP32-S3 that reads a PZEM power meter over
  a UART, sends the newest sample to a server over authenticated HTTPS, takes commands from the answers, updates itself over the air and is
  provisioned over USB. The program is C under src/components and src/main; every definition is a translation of a function or
  type there and keeps its name.

  \<^bold>\<open>How the parts interact.\<close> \<open>app_main\<close> (main/app_main_stateless.c) loads identity, command ledger and configuration from NVS, then either serves
  provisioning over USB or starts three tasks and the network task. The measurement task reads the meter, stamps the sample with trusted
  time and offers it to the one-element telemetry slot. The network task sends the slot's sample with the results of finished commands, checks the
  signed answer and puts new commands into the ledger and a queue. The control task executes queued commands; an update runs in a task of
  its own and ends in a restart. After a restart commands that were interrupted are settled from the ledger and the update's checkpoint.

  \<^bold>\<open>Theories, sources, results.\<close>

  \<^item> \<open>PM_Prelude\<close>: error codes, C integer conversions, C strings, little-endian bytes, the choice between two generations;
    \<open>PM_Text\<close>: decimal text, character classes, joining and splitting; \<open>PM_Crc\<close>: both CRCs and that they detect a changed byte;
    \<open>PM_Hash\<close>: SHA-256 (PSA a parameter), HMAC, hexadecimal, constant-time comparison; \<open>PM_Json\<close>: the interface of cJSON.
  \<^item> \<open>PM_Nvs\<close>: non-volatile storage with an arbitrary failure at each call, power loss as a list of failures that never ends before
    \<open>reboot\<close>, and the locale of storage in two alternating slots that configuration-independent components interpret
    (\<open>PM_Time\<close>, \<open>PM_Commands\<close>, \<open>PM_Ota\<close>, \<open>PM_Sequence\<close>).
  \<^item> \<open>PM_Meter\<close> (pm_meter): frame codec, drivers; round trip, rejection of corrupted frames, exactly what the
    range check accepts; a signed overflow, which C leaves undefined, is a parameter.
  \<^item> \<open>PM_Telemetry\<close> (pm_telemetry): slot, backoff, deadlines; accounting of every sample over every run.
  \<^item> \<open>PM_Config\<close> (pm_config): transactions over two slots; atomicity and durability.
  \<^item> \<open>PM_State\<close> (pm_state), \<open>PM_Time\<close> (pm_time): operating states; trusted time that never runs backwards and survives restarts.
  \<^item> \<open>PM_Commands\<close> (pm_commands): the ledger; an invariant through every history of operations, failures and restarts, durable
    transitions, safe acceptance, final states.
  \<^item> \<open>PM_Protocol\<close>, \<open>PM_Http_Response\<close> (pm_protocol): canonical text, signatures, response verification, the replay window.
  \<^item> \<open>PM_Ota_Version\<close>, \<open>PM_Ota_Manifest\<close>, \<open>PM_Ota\<close> (pm_ota): versions, signed manifests, checkpoints, installation, confirmation or rollback.
  \<^item> \<open>PM_Rfc3339\<close>, \<open>PM_Network\<close>, \<open>PM_Exchange\<close>, \<open>PM_Network_Task\<close>, \<open>PM_Enroll\<close> (pm_network/pm_network_v2.c, pm_command_envelope.c): timestamps, credentials, the
    authenticated request, the telemetry document and its answer, the intake of commands, the network loop, Wi-Fi, provisioning tests and enrollment.
  \<^item> \<open>PM_Diagnostics\<close> (pm_diagnostics): snapshots and redaction of secrets.
  \<^item> \<open>PM_Provisioning\<close> (pm_provisioning): framer, line protocol, USB task.
  \<^item> \<open>PM_Startup\<close> (main/runtime_startup.c), \<open>PM_Identity\<close>, \<open>PM_App\<close>, \<open>PM_App_Safety\<close>, \<open>PM_Boot\<close> (main/app_main_stateless.c): task creation, identity and
    recovery button, the tasks and command execution, what they guarantee together with the components, the start sequence.
  \<^item> \<open>PM_Sequence\<close>, \<open>PM_Journal\<close>, \<open>PM_Measurement\<close>, \<open>PM_Backlog\<close>: sequence numbers, record codec, interval
    accumulation and batch planning of the SD-card build.
  \<^item> \<open>PM_Storage\<close>, \<open>PM_Storage_Safety\<close> (pm_storage/pm_storage.c): the journal on the SD card, its task and clients; appends are atomic under
    torn writes, batches are windows of the journal and well formed whatever the card holds, reclaiming ends and deletes only acknowledged
    segments, and three ways in which the storage fails.
  \<^item> \<open>PM_Upload\<close>, \<open>PM_Upload_Safety\<close> (pm_network/pm_network.c): the upload of that journal and the report of lost records, over the storage
    task, the sequence state, the planner and the authenticated request; acknowledgements are authentic and durable, uploads are the
    next records, a reported prefix is missing from the card, and two gaps declare stored records lost.

  \<^bold>\<open>Platform.\<close> ESP-IDF, FreeRTOS, mbedTLS, PSA and cJSON are parameters: functions (hash, base64, JSON access, HTTP peer, UART), streams of
  outcomes (NVS, the platform state of an installation, the SD card), or arguments (whether memory, a mutex or a task could be had). Theorems hold for
  every choice unless a named hypothesis restricts it, and such hypotheses have witnesses on concrete instances.

  \<^bold>\<open>Bounds.\<close> Machine integers are words where the code can wrap, integers where C types hold the value by a checked bound or the clock's range.
  Loops are structural recursion over the data they consume, or functions with a termination proof whose measure
  is the data still unread; the loop that advances the heartbeat deadline may run for ever and is a partial function, with
  a proof of when it ends. No definition uses fuel.

  \<^bold>\<open>Not modelled.\<close> Logging, delays, \<open>esp_task_wdt_reset\<close>, zeroisation of local buffers before they are freed (zeroisation of
  state that is read later is modelled), and preemption inside a critical section or a locked region. The tasks are modelled as rounds over
  the shared state: a round of one task runs between rounds of the others. main/app_main.c and pm_network/pm_network.c belong to the
  previous application, which main/CMakeLists.txt and pm_network/CMakeLists.txt leave out of the build: of the latter the upload of the
  journal is modelled, and what it shares with pm_network_v2.c is modelled from there; its heartbeat and the former are not.
\<close>

end
